(* ===== verification/Prelude.thy ===== *)
theory Prelude
  imports Main "HOL-Library.Word" "HOL-Library.Char_ord" "HOL-Library.List_Lexorder"
    "HOL-Library.Signed_Division" "HOL-Library.Sublist"
begin

text \<open>
  Shared vocabulary of the development: the outcome of C code that may call \<open>exit\<close> or run into
  undefined behaviour, C strings and their comparison functions, the 32-bit conversions the sources
  perform implicitly, error numbers, and the generic list and arithmetic lemmas that the component
  theories use. The library functions of C that the sources call (\<open>strcmp\<close>, \<open>strncmp\<close>,
  \<open>strncpy\<close>, \<open>basename\<close>) are modelled here after their documentation.
\<close>

section \<open>Lemma collections\<close>

named_theorems res_simps \<open>rules for outcomes\<close>
named_theorems cstr_simps \<open>rules for C strings\<close>

section \<open>Outcomes of C code\<close>

text \<open>
  A C function that runs to its end returns \<open>Inr\<close> of its value. \<open>Exits n\<close> is a call of
  \<open>exit(n)\<close> (or of \<open>abort()\<close>, as exit status 134), and \<open>Undefined\<close> is undefined behaviour:
  a buffer overflow, a read of an object that was never written, a value that does not fit.
\<close>

datatype fault = Exits int | Undefined

type_synonym 'a res = "fault + 'a"

definition bind_res :: "'a res \<Rightarrow> ('a \<Rightarrow> 'b res) \<Rightarrow> 'b res" where
  "bind_res m k = (case m of Inl e \<Rightarrow> Inl e | Inr x \<Rightarrow> k x)"

lemma bind_res_Inl [simp, res_simps]: "bind_res (Inl e) k = Inl e"
  by (simp add: bind_res_def)

lemma bind_res_Inr [simp, res_simps]: "bind_res (Inr x) k = k x"
  by (simp add: bind_res_def)

lemma bind_res_eq_Inr [res_simps]:
  "bind_res m k = Inr y \<longleftrightarrow> (\<exists>x. m = Inr x \<and> k x = Inr y)"
  by (cases m) auto

lemma bind_res_cong [fundef_cong]:
  "m = m' \<Longrightarrow> (\<And>x. m' = Inr x \<Longrightarrow> k x = k' x) \<Longrightarrow> bind_res m k = bind_res m' k'"
  by (cases m') auto

lemma bind_res_assoc [res_simps]:
  "bind_res (bind_res m f) g = bind_res m (\<lambda>x. bind_res (f x) g)"
  by (cases m) auto

section \<open>Machine integers\<close>

definition INT_MIN :: int where "INT_MIN = -2147483648"
definition INT_MAX :: int where "INT_MAX = 2147483647"
definition LONG_MIN :: int where "LONG_MIN = -9223372036854775808"
definition LONG_MAX :: int where "LONG_MAX = 9223372036854775807"

definition in_int :: "int \<Rightarrow> bool" where
  "in_int x \<longleftrightarrow> INT_MIN \<le> x \<and> x \<le> INT_MAX"

definition in_long :: "int \<Rightarrow> bool" where
  "in_long x \<longleftrightarrow> LONG_MIN \<le> x \<and> x \<le> LONG_MAX"

text \<open>The conversion of a \<open>long\<close> to an \<open>int\<close>: the low 32 bits, read as two's complement.\<close>

definition wrap32 :: "int \<Rightarrow> int" where
  "wrap32 x = (x + 2147483648) mod 4294967296 - 2147483648"

lemma wrap32_id [simp]: "in_int x \<Longrightarrow> wrap32 x = x"
  by (simp add: wrap32_def in_int_def INT_MIN_def INT_MAX_def)

lemma wrap32_in_int: "in_int (wrap32 x)"
  by (simp add: wrap32_def in_int_def INT_MIN_def INT_MAX_def)

lemma in_int_between: "0 \<le> x \<Longrightarrow> x \<le> y \<Longrightarrow> in_int y \<Longrightarrow> in_int x"
  by (simp add: in_int_def INT_MIN_def)

lemma in_int_minus_one [simp]: "in_int (-1)"
  by (simp add: in_int_def INT_MIN_def INT_MAX_def)

section \<open>Error numbers and limits\<close>

definition EPERM :: int where "EPERM = 1"
definition ENOENT :: int where "ENOENT = 2"
definition EROFS :: int where "EROFS = 30"
definition MAXPATHLEN :: nat where "MAXPATHLEN = 4096"

lemmas errno_defs = EPERM_def ENOENT_def EROFS_def

section \<open>C strings\<close>

text \<open>
  A C string is a list of bytes without the terminating NUL. Bytes are compared as unsigned values,
  which is the order of \<open>HOL-Library.Char_ord\<close>; the lexicographic order on strings is that of
  \<open>HOL-Library.List_Lexorder\<close>.
\<close>

abbreviation NUL :: char where "NUL \<equiv> CHR 0x00"
abbreviation SOH :: char where "SOH \<equiv> CHR 0x01"
abbreviation STX :: char where "STX \<equiv> CHR 0x02"
abbreviation LF :: char where "LF \<equiv> CHR 0x0A"
abbreviation VT :: char where "VT \<equiv> CHR 0x0B"
abbreviation slash :: char where "slash \<equiv> CHR ''/''"

text \<open>The string that starts at a byte buffer: the bytes before the first NUL.\<close>

definition cstr :: "string \<Rightarrow> string" where
  "cstr s = takeWhile (\<lambda>c. c \<noteq> NUL) s"

lemma cstr_id [simp, cstr_simps]: "NUL \<notin> set s \<Longrightarrow> cstr s = s"
  by (auto simp: cstr_def intro: takeWhile_eq_all_conv [THEN iffD2])

lemma cstr_stop: "NUL \<notin> set s \<Longrightarrow> cstr (s @ NUL # t) = s"
  by (induction s) (auto simp: cstr_def)

fun strcmp :: "string \<Rightarrow> string \<Rightarrow> int" where
  "strcmp [] [] = 0"
| "strcmp [] (b # bs) = - of_char b"
| "strcmp (a # as) [] = of_char a"
| "strcmp (a # as) (b # bs) = (if a = b then strcmp as bs else of_char a - of_char b)"

definition strncmp :: "string \<Rightarrow> string \<Rightarrow> nat \<Rightarrow> int" where
  "strncmp s t n = strcmp (take n s) (take n t)"

text \<open>\<open>strncpy\<close>: the \<open>n\<close> bytes it stores, padded with NUL when the source is shorter.\<close>

definition strncpy :: "string \<Rightarrow> nat \<Rightarrow> string" where
  "strncpy s n = take n s @ replicate (n - length s) NUL"

text \<open>The GNU \<open>basename\<close>: the bytes after the last slash.\<close>

definition basename :: "string \<Rightarrow> string" where
  "basename s = rev (takeWhile (\<lambda>c. c \<noteq> slash) (rev s))"

lemma of_char_less_iff: "(of_char a :: int) < of_char b \<longleftrightarrow> a < b"
  by (metis less_char_def of_nat_less_iff of_nat_of_char)

lemma of_char_nonneg [simp]: "0 \<le> (of_char c :: int)"
  by (metis of_nat_0_le_iff of_nat_of_char)

lemma of_char_zero_iff [simp]: "(of_char c :: int) = 0 \<longleftrightarrow> c = NUL"
proof -
  have "(of_char NUL :: int) = 0"
    by simp
  then show ?thesis
    by (metis of_char_eq_iff)
qed

lemma of_char_pos [simp]: "0 < (of_char c :: int) \<longleftrightarrow> c \<noteq> NUL"
  using of_char_nonneg [of c] of_char_zero_iff [of c] by linarith

lemma of_char_not_neg [simp]: "\<not> (of_char c :: int) < 0"
  by (simp add: not_less)

lemma strcmp_eq_0 [cstr_simps]:
  "NUL \<notin> set s \<Longrightarrow> NUL \<notin> set t \<Longrightarrow> strcmp s t = 0 \<longleftrightarrow> s = t"
  by (induction s t rule: strcmp.induct) auto

lemma strcmp_less_0 [cstr_simps]:
  "NUL \<notin> set s \<Longrightarrow> NUL \<notin> set t \<Longrightarrow> strcmp s t < 0 \<longleftrightarrow> s < t"
  by (induction s t rule: strcmp.induct) (auto simp: of_char_less_iff)

lemma strcmp_greater_0 [cstr_simps]:
  "NUL \<notin> set s \<Longrightarrow> NUL \<notin> set t \<Longrightarrow> 0 < strcmp s t \<longleftrightarrow> t < s"
  by (metis strcmp_eq_0 strcmp_less_0 linorder_neq_iff order_less_not_sym)

lemma strncmp_prefix [cstr_simps]:
  assumes "NUL \<notin> set s" "NUL \<notin> set t"
  shows "strncmp s t (length s) = 0 \<longleftrightarrow> prefix s t"
proof -
  have "NUL \<notin> set (take (length s) t)"
    using assms(2) by (meson in_set_takeD)
  then have "strncmp s t (length s) = 0 \<longleftrightarrow> s = take (length s) t"
    using assms(1) by (simp add: strncmp_def strcmp_eq_0)
  also have "\<dots> \<longleftrightarrow> prefix s t"
    by (metis append_eq_conv_conj prefix_def take_is_prefix)
  finally show ?thesis .
qed

lemma basename_append [simp]: "slash \<notin> set b \<Longrightarrow> basename (a @ slash # b) = b"
  by (simp add: basename_def takeWhile_append)

lemma prefix_less_list: "prefix s t \<Longrightarrow> s \<le> (t :: string)"
  by (induction s arbitrary: t) (auto simp: prefix_def)

lemma append_less_append_iff [simp]: "(p @ s < p @ t) \<longleftrightarrow> s < (t :: string)"
  by (induction p) auto

section \<open>Sorted lists and positions\<close>

lemma sorted_wrt_less_nth_iff:
  fixes xs :: "'a :: linorder list"
  assumes "sorted_wrt (<) xs" "i < length xs" "j < length xs"
  shows "xs ! i < xs ! j \<longleftrightarrow> i < j"
  using assms by (metis linorder_neqE_nat order_less_asym order_less_irrefl sorted_wrt_nth_less)

lemma sorted_wrt_mono_nth:
  assumes "sorted xs" "i \<le> j" "j < length xs"
  shows "xs ! i \<le> (xs ! j :: 'a :: linorder)"
  using assms by (rule sorted_nth_mono)

section \<open>Fixed-width records\<close>

lemma nth_chunk:
  assumes "\<forall>x\<in>set xs. length x = w" "i < length xs"
  shows "take w (drop (w * i) (concat xs)) = xs ! i"
  using assms
proof (induction xs arbitrary: i)
  case Nil
  then show ?case by simp
next
  case (Cons x xs)
  then show ?case
    by (cases i) simp_all
qed

lemma length_concat_chunks: "\<forall>x\<in>set xs. length x = w \<Longrightarrow> length (concat xs) = w * length xs"
  by (induction xs) auto

end
