(* ===== verification/Cstdio.thy ===== *)
theory Cstdio
  imports Prelude
begin

text \<open>
  The part of C's formatted input and output that the catalogue code uses. Printing: the integer
  conversions \<open>%ld\<close>, \<open>%lld\<close>, \<open>%d\<close> (decimal) and \<open>%lo\<close> (octal). Scanning: an interpreter
  \<open>sscanf\<close> of directive lists, one directive for each piece of a format string, which returns the
  list of the values it assigned (its length is what the C function returns). \<open>atol\<close> and
  \<open>getline\<close> complete it. The section ends with the laws by which a printed number is read back.
\<close>

section \<open>Printing integers\<close>

function digits :: "nat \<Rightarrow> nat \<Rightarrow> nat list" where
  "digits b n = (if b \<le> 1 \<or> n < b then [n] else digits b (n div b) @ [n mod b])"
  by pat_completeness auto
termination
  by (relation "measure snd") (auto intro!: div_less_dividend)

declare digits.simps [simp del]

definition digit_char :: "nat \<Rightarrow> char" where
  "digit_char d = char_of (48 + d)"

definition fmt_u :: "nat \<Rightarrow> nat \<Rightarrow> string" where
  "fmt_u b n = map digit_char (digits b n)"

text \<open>\<open>%ld\<close>, \<open>%lld\<close> and \<open>%d\<close>\<close>

definition fmt_ld :: "int \<Rightarrow> string" where
  "fmt_ld x = (if x < 0 then CHR ''-'' # fmt_u 10 (nat (- x)) else fmt_u 10 (nat x))"

text \<open>\<open>%lo\<close>\<close>

definition fmt_lo :: "nat \<Rightarrow> string" where
  "fmt_lo n = fmt_u 8 n"

section \<open>Scanning\<close>

definition isspace :: "char \<Rightarrow> bool" where
  "isspace c \<longleftrightarrow> c \<in> {CHR '' '', CHR 0x09, LF, VT, CHR 0x0C, CHR 0x0D}"

definition skip_ws :: "string \<Rightarrow> string" where
  "skip_ws s = dropWhile isspace s"

definition is_digit :: "nat \<Rightarrow> char \<Rightarrow> bool" where
  "is_digit b c \<longleftrightarrow> 48 \<le> (of_char c :: nat) \<and> (of_char c :: nat) < 48 + b"

fun scan_digits :: "nat \<Rightarrow> nat \<Rightarrow> string \<Rightarrow> nat \<times> string" where
  "scan_digits b acc [] = (acc, [])"
| "scan_digits b acc (c # cs) =
     (if is_digit b c then scan_digits b (acc * b + (of_char c - 48)) cs else (acc, c # cs))"

definition scan_unsigned :: "nat \<Rightarrow> string \<Rightarrow> (nat \<times> string) option" where
  "scan_unsigned b s =
     (case s of [] \<Rightarrow> None
      | c # cs \<Rightarrow> if is_digit b c then Some (scan_digits b 0 (c # cs)) else None)"

text \<open>An integer conversion: white space is skipped, a sign is optional, a digit is required.\<close>

definition scan_number :: "nat \<Rightarrow> string \<Rightarrow> (int \<times> string) option" where
  "scan_number b s =
     (case skip_ws s of [] \<Rightarrow> None
      | c # cs \<Rightarrow>
          if c = CHR ''-'' then map_option (\<lambda>(n, r). (- int n, r)) (scan_unsigned b cs)
          else if c = CHR ''+'' then map_option (\<lambda>(n, r). (int n, r)) (scan_unsigned b cs)
          else map_option (\<lambda>(n, r). (int n, r)) (scan_unsigned b (c # cs)))"

text \<open>
  The directives: white space, an ordinary byte, \<open>%c\<close>, \<open>%ld\<close> (and \<open>%lld\<close>), \<open>%lo\<close>, \<open>%d\<close>,
  \<open>%[^x]\<close>, and the suppressed \<open>%*s\<close> and \<open>%*d\<close>. A conversion whose result cannot be
  represented in the object is undefined behaviour (C99, 7.19.6.2).
\<close>

datatype directive =
  WS | Lit char | Conv_c | Conv_ld | Conv_lo | Conv_d | Conv_set char | Skip_s | Skip_d

datatype sval = VC char | VI int | VS string

definition cons_val :: "sval \<Rightarrow> sval list res \<Rightarrow> sval list res" where
  "cons_val v m = bind_res m (\<lambda>vs. Inr (v # vs))"

definition not_set :: "char \<Rightarrow> string \<Rightarrow> string" where
  "not_set c s = takeWhile (\<lambda>x. x \<noteq> c) s"

fun sscanf :: "directive list \<Rightarrow> string \<Rightarrow> sval list res" where
  "sscanf [] s = Inr []"
| "sscanf (WS # ds) s = sscanf ds (skip_ws s)"
| "sscanf (Lit c # ds) s =
     (case s of [] \<Rightarrow> Inr [] | x # xs \<Rightarrow> if x = c then sscanf ds xs else Inr [])"
| "sscanf (Conv_c # ds) s =
     (case s of [] \<Rightarrow> Inr [] | x # xs \<Rightarrow> cons_val (VC x) (sscanf ds xs))"
| "sscanf (Conv_ld # ds) s =
     (case scan_number 10 s of None \<Rightarrow> Inr []
      | Some (v, r) \<Rightarrow> if in_long v then cons_val (VI v) (sscanf ds r) else Inl Undefined)"
| "sscanf (Conv_lo # ds) s =
     (case scan_number 8 s of None \<Rightarrow> Inr []
      | Some (v, r) \<Rightarrow>
          if \<bar>v\<bar> < 2 ^ 64 then cons_val (VI (v mod 2 ^ 64)) (sscanf ds r) else Inl Undefined)"
| "sscanf (Conv_d # ds) s =
     (case scan_number 10 s of None \<Rightarrow> Inr []
      | Some (v, r) \<Rightarrow> if in_int v then cons_val (VI v) (sscanf ds r) else Inl Undefined)"
| "sscanf (Conv_set c # ds) s =
     (if not_set c s = [] then Inr []
      else cons_val (VS (not_set c s)) (sscanf ds (drop (length (not_set c s)) s)))"
| "sscanf (Skip_s # ds) s =
     (let t = skip_ws s; w = takeWhile (\<lambda>x. \<not> isspace x) t
      in if w = [] then Inr [] else sscanf ds (drop (length w) t))"
| "sscanf (Skip_d # ds) s =
     (case scan_number 10 s of None \<Rightarrow> Inr [] | Some (v, r) \<Rightarrow> sscanf ds r)"

text \<open>\<open>atoi\<close> and \<open>atol\<close>: 0 when there is no number, undefined when it does not fit.\<close>

definition atol :: "string \<Rightarrow> int res" where
  "atol s = (case scan_number 10 s of None \<Rightarrow> Inr 0
             | Some (v, _) \<Rightarrow> if in_long v then Inr v else Inl Undefined)"

definition atoi :: "string \<Rightarrow> int res" where
  "atoi s = (case scan_number 10 s of None \<Rightarrow> Inr 0
             | Some (v, _) \<Rightarrow> if in_int v then Inr v else Inl Undefined)"

text \<open>
  \<open>getline\<close> repeated to the end of a file: every line with its newline, and a last line without
  one when the file does not end in a newline.
\<close>

function getlines :: "string \<Rightarrow> string list" where
  "getlines s =
     (if s = [] then []
      else case dropWhile (\<lambda>c. c \<noteq> LF) s of
             [] \<Rightarrow> [s]
           | _ # r \<Rightarrow> (takeWhile (\<lambda>c. c \<noteq> LF) s @ [LF]) # getlines r)"
  by pat_completeness auto
termination
proof (relation "measure length", goal_cases)
  case 1
  show ?case by simp
next
  case (2 s c r)
  then have "length (c # r) \<le> length s"
    by (metis length_dropWhile_le)
  then show ?case by simp
qed

declare getlines.simps [simp del]

section \<open>Laws\<close>

lemma getlines_Nil [simp]: "getlines [] = []"
  by (subst getlines.simps) simp

lemma getlines_line [simp]:
  "LF \<notin> set l \<Longrightarrow> getlines (l @ LF # r) = (l @ [LF]) # getlines r"
  by (subst getlines.simps) (simp add: dropWhile_append takeWhile_append)

lemma getlines_concat:
  "(\<forall>l\<in>set ls. LF \<notin> set l) \<Longrightarrow>
     getlines (concat (map (\<lambda>l. l @ [LF]) ls)) = map (\<lambda>l. l @ [LF]) ls"
  by (induction ls) auto

lemma of_char_digit_char: "d < 10 \<Longrightarrow> (of_char (digit_char d) :: nat) = 48 + d"
  by (simp add: digit_char_def)

lemma is_digit_digit_char: "d < b \<Longrightarrow> b \<le> 10 \<Longrightarrow> is_digit b (digit_char d)"
  by (simp add: is_digit_def of_char_digit_char)

lemma digits_less: "2 \<le> b \<Longrightarrow> d \<in> set (digits b n) \<Longrightarrow> d < b"
proof (induction b n rule: digits.induct)
  case (1 b n)
  then show ?case
    by (auto simp: digits.simps [of b n] split: if_splits)
qed

lemma digits_not_Nil [simp]: "digits b n \<noteq> []"
  by (subst digits.simps) simp

text \<open>The scanner, run over printed digits, computes the value of the digits in base \<open>b\<close>.\<close>

lemma scan_digits_map:
  assumes "b \<le> 10" "\<forall>d\<in>set ds. d < b" "rest = [] \<or> \<not> is_digit b (hd rest)"
  shows "scan_digits b acc (map digit_char ds @ rest) =
           (foldl (\<lambda>a d. a * b + d) acc ds, rest)"
  using assms(2)
proof (induction ds arbitrary: acc)
  case Nil
  with assms(3) show ?case by (cases rest) auto
next
  case (Cons d ds)
  with assms(1) show ?case
    by (simp add: is_digit_digit_char of_char_digit_char)
qed

lemma foldl_digits: "2 \<le> b \<Longrightarrow> foldl (\<lambda>a d. a * b + d) 0 (digits b n) = n"
proof (induction b n rule: digits.induct)
  case (1 b n)
  then show ?case
    by (cases "n < b") (simp_all add: digits.simps [of b n])
qed

lemma scan_unsigned_fmt:
  assumes "2 \<le> b" "b \<le> 10" "rest = [] \<or> \<not> is_digit b (hd rest)"
  shows "scan_unsigned b (fmt_u b n @ rest) = Some (n, rest)"
proof -
  have small: "\<forall>d\<in>set (digits b n). d < b"
    using digits_less assms(1) by blast
  have "scan_digits b 0 (fmt_u b n @ rest) = (n, rest)"
    unfolding fmt_u_def using scan_digits_map [OF assms(2) small assms(3)] foldl_digits [OF assms(1)]
    by simp
  moreover obtain d ds where "digits b n = d # ds"
    by (meson digits_not_Nil list.exhaust)
  moreover have "is_digit b (digit_char d)"
    using small calculation(2) assms(2) by (simp add: is_digit_digit_char)
  ultimately show ?thesis
    by (simp add: scan_unsigned_def fmt_u_def)
qed

lemma fmt_u_Cons:
  assumes "2 \<le> b" "b \<le> 10"
  obtains c cs where "fmt_u b n = c # cs" "is_digit 10 c"
proof -
  obtain d ds where d: "digits b n = d # ds"
    by (meson digits_not_Nil list.exhaust)
  then have "d < b"
    using digits_less [OF assms(1), of d n] by simp
  then have "is_digit 10 (digit_char d)"
    using assms(2) by (intro is_digit_digit_char) auto
  with d show thesis
    by (intro that) (simp_all add: fmt_u_def)
qed

lemma fmt_u_set: "2 \<le> b \<Longrightarrow> b \<le> 10 \<Longrightarrow> c \<in> set (fmt_u b n) \<Longrightarrow> is_digit 10 c"
  by (auto simp: fmt_u_def intro!: is_digit_digit_char dest: digits_less)

lemma is_digit_imp:
  assumes "is_digit b c"
  shows "c \<noteq> CHR ''-''" "c \<noteq> CHR ''+''" "\<not> isspace c" "c \<noteq> NUL" "c \<noteq> LF" "c \<noteq> SOH"
  using assms by (auto simp: is_digit_def isspace_def)

lemma skip_ws_Cons [simp]: "\<not> isspace c \<Longrightarrow> skip_ws (c # cs) = c # cs"
  by (simp add: skip_ws_def)

lemma skip_ws_space [simp]: "skip_ws (CHR '' '' # cs) = skip_ws cs"
  by (simp add: skip_ws_def isspace_def)

lemma skip_ws_idem [simp]: "skip_ws (skip_ws s) = skip_ws s"
  unfolding skip_ws_def by (induction s) auto

lemma scan_number_skip_ws [simp]: "scan_number b (skip_ws s) = scan_number b s"
  by (simp add: scan_number_def)

lemma scan_number_space [simp]: "scan_number b (CHR '' '' # s) = scan_number b s"
  by (simp add: scan_number_def)

lemma scan_number_fmt_u:
  assumes "2 \<le> b" "b \<le> 10" "rest = [] \<or> \<not> is_digit b (hd rest)"
  shows "scan_number b (fmt_u b n @ rest) = Some (int n, rest)"
proof -
  obtain c cs where c: "fmt_u b n = c # cs" "is_digit 10 c"
    using fmt_u_Cons assms(1,2) by blast
  have "scan_number b (c # cs @ rest) = map_option (\<lambda>(n, r). (int n, r)) (scan_unsigned b (c # cs @ rest))"
    using is_digit_imp [OF c(2)] by (simp add: scan_number_def)
  with c(1) scan_unsigned_fmt [OF assms, of n] show ?thesis
    by simp
qed

text \<open>A printed number is read back, whatever follows it, as long as that is no further digit.\<close>

lemma scan_number_fmt_ld:
  assumes "rest = [] \<or> \<not> is_digit 10 (hd rest)"
  shows "scan_number 10 (fmt_ld x @ rest) = Some (x, rest)"
proof (cases "x < 0")
  case True
  then show ?thesis
    using scan_unsigned_fmt [of 10 rest "nat (- x)"] assms
    by (simp add: fmt_ld_def scan_number_def isspace_def)
next
  case False
  then show ?thesis
    using scan_number_fmt_u [of 10 rest "nat x"] assms by (simp add: fmt_ld_def)
qed

lemma scan_number_fmt_lo:
  assumes "rest = [] \<or> \<not> is_digit 8 (hd rest)"
  shows "scan_number 8 (fmt_lo n @ rest) = Some (int n, rest)"
  using scan_number_fmt_u [of 8 rest n] assms by (simp add: fmt_lo_def)

lemma scan_number_fmt_ld_sp [simp]:
  "scan_number 10 (fmt_ld x @ CHR '' '' # rest) = Some (x, CHR '' '' # rest)"
  by (rule scan_number_fmt_ld) (simp add: is_digit_def)

lemma scan_number_fmt_lo_sp [simp]:
  "scan_number 8 (fmt_lo n @ CHR '' '' # rest) = Some (int n, CHR '' '' # rest)"
  by (rule scan_number_fmt_lo) (simp add: is_digit_def)

lemma fmt_ld_set: "c \<in> set (fmt_ld x) \<Longrightarrow> c = CHR ''-'' \<or> is_digit 10 c"
  by (auto simp: fmt_ld_def dest: fmt_u_set [rotated 2] split: if_splits)

lemma fmt_lo_set: "c \<in> set (fmt_lo n) \<Longrightarrow> is_digit 10 c"
  by (auto simp: fmt_lo_def dest: fmt_u_set [rotated 2])

lemma fmt_ld_plain [simp]:
  "LF \<notin> set (fmt_ld x)" "NUL \<notin> set (fmt_ld x)" "SOH \<notin> set (fmt_ld x)"
  by (auto simp: is_digit_def dest!: fmt_ld_set)

lemma fmt_lo_plain [simp]:
  "LF \<notin> set (fmt_lo n)" "NUL \<notin> set (fmt_lo n)" "SOH \<notin> set (fmt_lo n)"
  by (auto simp: is_digit_def dest!: fmt_lo_set)

lemma not_set_append [simp]: "c \<notin> set s \<Longrightarrow> not_set c (s @ c # r) = s"
  by (simp add: not_set_def takeWhile_append)

lemma cons_val_Inr [simp]: "cons_val v (Inr vs) = Inr (v # vs)"
  by (simp add: cons_val_def)

lemma cons_val_Inl [simp]: "cons_val v (Inl e) = Inl e"
  by (simp add: cons_val_def)

end
