(* ===== verification/Catalog_Entry.thy ===== *)
theory Catalog_Entry
  imports Cstdio
begin

unbundle bit_operations_syntax

text \<open>
  One line of a catalogue and how \<open>catalogfs.c\<close> reads it: the attribute record, the state of the
  mounted file system (the three global variables of \<open>catalogfs.c\<close> and the files it can open),
  \<open>getEntry_from_catalog\<close> with its \<open>sscanf\<close> format, mode reconstruction and link splitting, and
  the two wrappers the search uses.
\<close>

section \<open>Data\<close>

text \<open>
  The eight fields of \<open>struct stat\<close> that a catalogue keeps, at their width on Linux. The signed
  fields are read with \<open>sint\<close>.
\<close>

record stat =
  st_mode :: "32 word"
  st_nlink :: "64 word"
  st_uid :: "32 word"
  st_gid :: "32 word"
  st_size :: "64 word"
  st_atime :: "64 word"
  st_mtime :: "64 word"
  st_ctime :: "64 word"

text \<open>
  \<open>stat_wdf\<close>: an entry with its depth, path and link destination. The destination is \<open>None\<close> while
  the C pointer refers to a buffer that was never written.

  In the code, \<open>file_path\<close> and \<open>link_dest\<close> are pointers to local buffers of \<open>getEntry_from_catalog\<close> (lines 401, 425 and
  426), which all its callers read after it has returned. C leaves this undefined; the program relies on the
  buffers being still there. The record holds the strings themselves, as if they were: everything that is stated
  about callers, also that they run into nothing undefined, takes these two buffers as readable and unchanged.
\<close>

record stat_wdf =
  wdf_depth :: int
  wdf_file_path :: string
  wdf_st_data :: stat
  wdf_link_dest :: "string option"

text \<open>The objects the catalogue's name can refer to, and the global state of a mounted catalogue.\<close>

datatype inode = Reg string | Dir

record mount =
  entry_size :: int
  catalog_len :: int
  catalogFile :: string
  disk :: "string \<rightharpoonup> inode"

section \<open>Operations\<close>

text \<open>\<open>findDepth\<close>: the number of slashes, or -1 for a path that does not start with one.\<close>

definition findDepth :: "string \<Rightarrow> int" where
  "findDepth path =
     (case path of [] \<Rightarrow> -1
      | c # _ \<Rightarrow> if c \<noteq> slash then -1 else int (length (filter (\<lambda>x. x = slash) path)))"

text \<open>The format \<open>%c %lo %ld %ld %ld %lld %lld %lld %lld %d \1%[^\1]s\1\n\<close>.\<close>

definition catalog_fmt :: "char \<Rightarrow> directive list" where
  "catalog_fmt sep =
     [Conv_c, WS, Conv_lo, WS, Conv_ld, WS, Conv_ld, WS, Conv_ld, WS, Conv_ld, WS, Conv_ld, WS,
      Conv_ld, WS, Conv_ld, WS, Conv_d, WS, Lit sep, Conv_set sep, Lit CHR ''s'', Lit sep, WS]"

definition S_IFSOCK :: "64 word" where "S_IFSOCK = 0xC000"
definition S_IFLNK :: "64 word" where "S_IFLNK = 0xA000"
definition S_IFREG :: "64 word" where "S_IFREG = 0x8000"
definition S_IFBLK :: "64 word" where "S_IFBLK = 0x6000"
definition S_IFDIR :: "64 word" where "S_IFDIR = 0x4000"
definition S_IFCHR :: "64 word" where "S_IFCHR = 0x2000"
definition S_IFIFO :: "64 word" where "S_IFIFO = 0x1000"

lemmas S_IF_defs = S_IFSOCK_def S_IFLNK_def S_IFREG_def S_IFBLK_def S_IFDIR_def S_IFCHR_def
  S_IFIFO_def

text \<open>The \<open>switch(c)\<close> that puts the file type back into the mode.\<close>

definition mode_of_type :: "char \<Rightarrow> 64 word \<Rightarrow> 64 word" where
  "mode_of_type c mode =
     (if c = CHR ''d'' then S_IFDIR OR mode
      else if c = CHR ''l'' then S_IFLNK OR mode
      else if c = CHR ''f'' then S_IFREG OR mode
      else if c = CHR ''b'' then S_IFBLK OR mode
      else if c = CHR ''c'' then S_IFCHR OR mode
      else if c = CHR ''p'' then S_IFIFO OR mode
      else if c = CHR ''s'' then S_IFSOCK OR mode
      else mode)"

text \<open>The split of a link's path at the byte 2 into the path and the link destination.\<close>

definition split_link :: "string \<Rightarrow> string \<times> string option" where
  "split_link path =
     (let temp = takeWhile (\<lambda>c. c \<noteq> STX) path; i = length temp + 1
      in (temp, if length path \<noteq> length temp then Some (drop i path) else None))"

text \<open>
  What \<open>getEntry_from_catalog\<close> does with the values \<open>sscanf\<close> assigned. Fewer than eleven values
  leave local variables unset that the function goes on to read, and a path of \<open>MAXPATHLEN\<close> bytes
  or more overruns \<open>file_path\<close>: both are undefined behaviour.
\<close>

definition build_entry :: "sval list \<Rightarrow> stat_wdf res" where
  "build_entry vs =
     (case vs of
        [VC c, VI mode, VI nlink, VI uid, VI gid, VI sz, VI atime, VI mtime, VI ctime, VI depth,
         VS path] \<Rightarrow>
          if MAXPATHLEN \<le> length path then Inl Undefined
          else let (path', dest) = (if c = CHR ''l'' then split_link path else (path, Some []))
               in Inr \<lparr>wdf_depth = depth, wdf_file_path = path',
                     wdf_st_data =
                       \<lparr>st_mode = ucast (mode_of_type c (word_of_int mode)),
                        st_nlink = word_of_int nlink, st_uid = word_of_int uid,
                        st_gid = word_of_int gid, st_size = word_of_int sz,
                        st_atime = word_of_int atime, st_mtime = word_of_int mtime,
                        st_ctime = word_of_int ctime\<rparr>,
                     wdf_link_dest = dest\<rparr>
      | _ \<Rightarrow> Inl Undefined)"

definition parse_entry :: "char \<Rightarrow> string \<Rightarrow> stat_wdf res" where
  "parse_entry sep entry = bind_res (sscanf (catalog_fmt sep) entry) build_entry"

text \<open>
  \<open>getEntry_from_catalog\<close>. The result \<open>None\<close> is the return value -1, and \<open>Some w\<close> is 0 with
  \<open>w\<close> stored through the pointer. The error text is built before the file is opened, in a buffer of
  256 bytes; the offset is an \<open>int\<close>; a file shorter than the entry leaves bytes of the buffer unset. The strings of \<open>w\<close> are
  returned by value, where the code returns pointers into buffers whose lifetime has ended (see \<open>stat_wdf\<close>).
\<close>

definition getEntry_from_catalog :: "mount \<Rightarrow> int \<Rightarrow> stat_wdf option res" where
  "getEntry_from_catalog m location =
     (if entry_size m < 0 then Inl Undefined
      else if 256 \<le> length ([LF] @ ''ERROR:Cannot open catalog file:'') + length (catalogFile m)
      then Inl Undefined
      else case disk m (catalogFile m) of
        None \<Rightarrow> Inl (Exits (-1))
      | Some node \<Rightarrow>
          let offset = wrap32 (entry_size m * location) in
          if offset < 0 then Inr None
          else case node of
            Dir \<Rightarrow> Inr None
          | Reg content \<Rightarrow>
              let entry = take (nat (entry_size m)) (drop (nat offset) content) in
              if length entry < nat (entry_size m) then Inl Undefined
              else bind_res (parse_entry SOH (cstr entry)) (\<lambda>w. Inr (Some w)))"

definition getEntry_depth_filepath :: "mount \<Rightarrow> int \<Rightarrow> (int \<times> string) option res" where
  "getEntry_depth_filepath m location =
     bind_res (getEntry_from_catalog m location)
       (\<lambda>r. case r of None \<Rightarrow> Inr None | Some w \<Rightarrow> Inr (Some (wdf_depth w, wdf_file_path w)))"

definition getEntry_filepath :: "mount \<Rightarrow> int \<Rightarrow> string option res" where
  "getEntry_filepath m location =
     bind_res (getEntry_depth_filepath m location)
       (\<lambda>r. case r of None \<Rightarrow> Inr None | Some (_, p) \<Rightarrow> Inr (Some p))"

section \<open>Well-formed catalogues\<close>

text \<open>
  A catalogue is well formed when it fills its file exactly with \<open>catalog_len\<close> lines of
  \<open>entry_size\<close> bytes that all parse, and is small enough for an \<open>int\<close> offset. The bounds
  of 13 bytes and one line are those that \<open>main\<close> checks, the size of the file is what \<open>catalogfsmount\<close> compares; that
  every line parses is what the generator provides, for names that it can print.
\<close>

definition catalog_line :: "mount \<Rightarrow> nat \<Rightarrow> string" where
  "catalog_line m i =
     (case disk m (catalogFile m) of
        Some (Reg content) \<Rightarrow> take (nat (entry_size m)) (drop (nat (entry_size m) * i) content)
      | _ \<Rightarrow> [])"

definition parses :: "string \<Rightarrow> bool" where
  "parses l = (case parse_entry SOH (cstr l) of Inl _ \<Rightarrow> False | Inr _ \<Rightarrow> True)"

definition entry_of_line :: "string \<Rightarrow> stat_wdf" where
  "entry_of_line l =
     (case parse_entry SOH (cstr l) of Inr w \<Rightarrow> w
      | Inl _ \<Rightarrow> \<lparr>wdf_depth = -1, wdf_file_path = [],
                 wdf_st_data = \<lparr>st_mode = 0, st_nlink = 0, st_uid = 0, st_gid = 0, st_size = 0,
                                st_atime = 0, st_mtime = 0, st_ctime = 0\<rparr>,
                 wdf_link_dest = None\<rparr>)"

definition catalog_wf :: "mount \<Rightarrow> bool" where
  "catalog_wf m \<longleftrightarrow>
     13 \<le> entry_size m \<and> 0 < catalog_len m \<and> length (catalogFile m) < 224 \<and>
     (case disk m (catalogFile m) of
        Some (Reg content) \<Rightarrow> int (length content) = entry_size m * catalog_len m
      | _ \<Rightarrow> False) \<and>
     entry_size m * catalog_len m \<le> INT_MAX \<and>
     (\<forall>i\<in>{0..<nat (catalog_len m)}. parses (catalog_line m i))"

definition catalog_entries :: "mount \<Rightarrow> stat_wdf list" where
  "catalog_entries m = map (\<lambda>i. entry_of_line (catalog_line m i)) [0..<nat (catalog_len m)]"

definition catalog_keys :: "mount \<Rightarrow> (int \<times> string) list" where
  "catalog_keys m = map (\<lambda>w. (wdf_depth w, wdf_file_path w)) (catalog_entries m)"

lemma catalog_wf_len_int: "catalog_wf m \<Longrightarrow> in_int (catalog_len m)"
proof -
  assume wf: "catalog_wf m"
  then have "1 * catalog_len m \<le> entry_size m * catalog_len m"
    by (intro mult_right_mono) (auto simp: catalog_wf_def)
  also have "\<dots> \<le> INT_MAX"
    using wf by (auto simp: catalog_wf_def)
  finally have "catalog_len m \<le> INT_MAX"
    by simp
  with wf show ?thesis
    by (auto simp: catalog_wf_def in_int_def INT_MIN_def)
qed

lemma catalog_wf_len_pos: "catalog_wf m \<Longrightarrow> 0 < catalog_len m"
  by (simp add: catalog_wf_def)

lemma length_catalog_entries [simp]: "length (catalog_entries m) = nat (catalog_len m)"
  by (simp add: catalog_entries_def)

lemma length_catalog_keys [simp]: "length (catalog_keys m) = nat (catalog_len m)"
  by (simp add: catalog_keys_def)

lemma nth_catalog_keys:
  "i < nat (catalog_len m) \<Longrightarrow>
     catalog_keys m ! i = (wdf_depth (catalog_entries m ! i), wdf_file_path (catalog_entries m ! i))"
  by (simp add: catalog_keys_def)

text \<open>In a well-formed catalogue every location in range is read, and it is read from its line.\<close>

lemma getEntry_from_catalog_wf:
  assumes wf: "catalog_wf m" and i: "0 \<le> i" "i < catalog_len m"
  shows "getEntry_from_catalog m i = Inr (Some (catalog_entries m ! nat i))"
proof -
  let ?es = "entry_size m"
  from wf obtain content where content: "disk m (catalogFile m) = Some (Reg content)"
    "int (length content) = ?es * catalog_len m"
    by (auto simp: catalog_wf_def split: option.splits inode.splits)
  have es: "13 \<le> ?es" and max: "?es * catalog_len m \<le> INT_MAX"
    and name: "length (catalogFile m) < 224"
    using wf by (auto simp: catalog_wf_def)
  have step: "?es * i + ?es \<le> ?es * catalog_len m"
    using mult_left_mono [of "i + 1" "catalog_len m" ?es] i es by (simp add: algebra_simps)
  have off: "\<not> ?es * i < 0"
    using i es by (simp add: not_less)
  have "in_int (?es * i)"
    using off step max es by (auto simp: in_int_def INT_MIN_def INT_MAX_def)
  then have w: "wrap32 (?es * i) = ?es * i"
    by simp
  have nat_off: "nat (?es * i) = nat ?es * nat i"
    using i es by (simp add: nat_mult_distrib)
  have len: "length (catalog_line m (nat i)) = nat ?es"
  proof -
    have "int (nat ?es * nat i + nat ?es) \<le> int (length content)"
      using content(2) step es i by simp
    then have "nat ?es * nat i + nat ?es \<le> length content"
      by linarith
    then show ?thesis
      by (simp add: catalog_line_def content(1))
  qed
  have "parses (catalog_line m (nat i))"
    using wf i by (auto simp: catalog_wf_def)
  then obtain w where "parse_entry SOH (cstr (catalog_line m (nat i))) = Inr w"
    by (auto simp: parses_def split: sum.splits)
  then show ?thesis
    using w off nat_off len name es i
    by (simp add: getEntry_from_catalog_def catalog_line_def content(1) catalog_entries_def
        entry_of_line_def Let_def)
qed

lemma getEntry_depth_filepath_wf:
  "catalog_wf m \<Longrightarrow> 0 \<le> i \<Longrightarrow> i < catalog_len m \<Longrightarrow>
     getEntry_depth_filepath m i = Inr (Some (catalog_keys m ! nat i))"
  by (simp add: getEntry_depth_filepath_def getEntry_from_catalog_wf nth_catalog_keys nat_less_iff)

end
