(* ===== verification/Catalog_Search.thy ===== *)
theory Catalog_Search
  imports Catalog_Entry "HOL-Library.Product_Lexorder"
begin

text \<open>
  The search of \<open>catalogfs.c\<close>: a binary search for the depth, two linear scans to the ends of the
  run of that depth, a binary search for the path inside the run, and the listing of a directory.
  Each loop is a function over the reader of entries \<open>get\<close> (the function
  \<open>getEntry_depth_filepath\<close> of the program that runs it), and the locales \<open>catalog_reader\<close> and
  \<open>sorted_catalog\<close> state what the search relies on.
\<close>

section \<open>Operations\<close>

type_synonym reader = "int \<Rightarrow> (int \<times> string) option res"

definition calculateMid :: "int \<Rightarrow> int \<Rightarrow> int" where
  "calculateMid low high = low + (high - low) sdiv 2"

lemma calculateMid_bounds:
  "low \<le> high \<Longrightarrow> low \<le> calculateMid low high"
  "low \<le> high \<Longrightarrow> calculateMid low high \<le> high"
  by (auto simp: calculateMid_def signed_divide_int_def sgn_if)

text \<open>
  \<open>find_index\<close>: \<open>None\<close> is the return value -1, \<open>Some (low, high, mid, depth)\<close> is 0 with the four
  values left in the out-parameters.
\<close>

function find_index ::
  "reader \<Rightarrow> int \<Rightarrow> int \<Rightarrow> int \<Rightarrow> int \<Rightarrow> int \<Rightarrow> (int \<times> int \<times> int \<times> int) option res" where
  "find_index get d low high mid depth =
     (if low \<le> high then
        bind_res (get (calculateMid low high))
          (\<lambda>r. case r of None \<Rightarrow> Inr None
             | Some (depth', _) \<Rightarrow>
                 if depth' = d then Inr (Some (low, high, calculateMid low high, depth'))
                 else if depth' < d
                 then find_index get d (calculateMid low high + 1) high (calculateMid low high) depth'
                 else find_index get d low (calculateMid low high - 1) (calculateMid low high) depth')
      else Inr (Some (low, high, mid, depth)))"
  by pat_completeness auto
termination
  by (relation "measure (\<lambda>(get, d, low, high, mid, depth). nat (high - low + 1))")
    (auto dest: calculateMid_bounds)

declare find_index.simps [simp del]

text \<open>The loop of \<open>find_lowest_index\<close>: the index at which it stops and the depth it last read.\<close>

function find_lowest_loop ::
  "reader \<Rightarrow> int \<Rightarrow> int \<Rightarrow> int \<Rightarrow> int \<Rightarrow> (int \<times> int) option res" where
  "find_lowest_loop get d low idx depth =
     (if depth = d then
        if idx - 1 < low then Inr (Some (idx - 1, depth))
        else bind_res (get (idx - 1))
               (\<lambda>r. case r of None \<Rightarrow> Inr None
                  | Some (depth', _) \<Rightarrow> find_lowest_loop get d low (idx - 1) depth')
      else Inr (Some (idx, depth)))"
  by pat_completeness auto
termination
  by (relation "measure (\<lambda>(get, d, low, idx, depth). nat (idx - low + 1))") auto

declare find_lowest_loop.simps [simp del]

definition find_lowest_index ::
  "reader \<Rightarrow> int \<Rightarrow> int \<Rightarrow> int \<Rightarrow> int \<Rightarrow> (int \<times> int) option res" where
  "find_lowest_index get d low mid depth =
     bind_res (find_lowest_loop get d low mid depth)
       (\<lambda>r. case r of None \<Rightarrow> Inr None | Some (idx, depth') \<Rightarrow> Inr (Some (idx + 1, depth')))"

function find_highest_loop ::
  "reader \<Rightarrow> int \<Rightarrow> int \<Rightarrow> int \<Rightarrow> int \<Rightarrow> (int \<times> int) option res" where
  "find_highest_loop get d high idx depth =
     (if depth = d then
        if high < idx + 1 then Inr (Some (idx + 1, depth))
        else bind_res (get (idx + 1))
               (\<lambda>r. case r of None \<Rightarrow> Inr None
                  | Some (depth', _) \<Rightarrow> find_highest_loop get d high (idx + 1) depth')
      else Inr (Some (idx, depth)))"
  by pat_completeness auto
termination
  by (relation "measure (\<lambda>(get, d, high, idx, depth). nat (high - idx + 1))") auto

declare find_highest_loop.simps [simp del]

definition find_highest_index ::
  "reader \<Rightarrow> int \<Rightarrow> int \<Rightarrow> int \<Rightarrow> int \<Rightarrow> (int \<times> int) option res" where
  "find_highest_index get d high mid depth =
     bind_res (find_highest_loop get d high mid depth)
       (\<lambda>r. case r of None \<Rightarrow> Inr None | Some (idx, depth') \<Rightarrow> Inr (Some (idx - 1, depth')))"

text \<open>The binary search for the path between \<open>low\<close> and \<open>high\<close>; -1 when it is not there.\<close>

function path_loop :: "reader \<Rightarrow> string \<Rightarrow> int \<Rightarrow> int \<Rightarrow> int res" where
  "path_loop get searchPath low high =
     (if low \<le> high then
        bind_res (get (calculateMid low high))
          (\<lambda>r. case r of None \<Rightarrow> Inr (-1)
             | Some (_, file_path) \<Rightarrow>
                 let comp_result = strcmp file_path searchPath in
                 if comp_result = 0 then Inr (calculateMid low high)
                 else if comp_result < 0
                 then path_loop get searchPath (calculateMid low high + 1) high
                 else path_loop get searchPath low (calculateMid low high - 1))
      else Inr (-1))"
  by pat_completeness auto
termination
  by (relation "measure (\<lambda>(get, p, low, high). nat (high - low + 1))")
    (auto dest: calculateMid_bounds)

declare path_loop.simps [simp del]

text \<open>
  \<open>binSearch\<close>: the location of a path, converted to \<open>int\<close>. \<open>umid\<close> is the value of the variable
  \<open>mid\<close>, which the code leaves unset before \<open>find_index\<close>.
\<close>

definition binSearch :: "reader \<Rightarrow> int \<Rightarrow> int \<Rightarrow> string \<Rightarrow> int res" where
  "binSearch get len umid searchPath =
     (let d = findDepth searchPath in
      if d \<le> 0 then Inr (-1)
      else bind_res (find_index get d 0 (len - 1) umid 1) (\<lambda>r1. case r1 of
        None \<Rightarrow> Inr (-1)
      | Some (low, high, mid, depth) \<Rightarrow>
          if low > high then Inr (-1)
          else bind_res (find_lowest_index get d low mid depth) (\<lambda>r2. case r2 of
            None \<Rightarrow> Inr (-1)
          | Some (low', _) \<Rightarrow>
              bind_res (find_highest_index get d high mid d) (\<lambda>r3. case r3 of
                None \<Rightarrow> Inr (-1)
              | Some (high', _) \<Rightarrow>
                  bind_res (path_loop get searchPath low' high') (\<lambda>i. Inr (wrap32 i))))))"

text \<open>The \<open>do\<close> loop of \<open>get_directory_contents\<close>: the index at which it stops.\<close>

function dir_loop :: "reader \<Rightarrow> int \<Rightarrow> int \<Rightarrow> string \<Rightarrow> int \<Rightarrow> int option res" where
  "dir_loop get len depth path i =
     (if len \<le> i + 1 then Inr (Some (i + 1))
      else bind_res (get (i + 1)) (\<lambda>r. case r of
        None \<Rightarrow> Inr None
      | Some (entry_depth, entry_path) \<Rightarrow>
          if entry_depth \<noteq> depth \<or> strncmp path entry_path (length path) \<noteq> 0
          then Inr (Some (i + 1))
          else dir_loop get len depth path (i + 1)))"
  by pat_completeness auto
termination
  by (relation "measure (\<lambda>(get, len, depth, path, i). nat (len - i))") auto

declare dir_loop.simps [simp del]

text \<open>
  \<open>get_directory_contents\<close>: the return value and what is stored in \<open>low\<close> and \<open>high\<close>
  (\<open>None\<close> where nothing is stored).
\<close>

definition get_directory_contents ::
  "reader \<Rightarrow> int \<Rightarrow> int \<Rightarrow> string \<Rightarrow> (int \<times> int option \<times> int option) res" where
  "get_directory_contents get len umid path =
     (if path = [] \<or> last path \<noteq> slash then Inr (-1, Some (-1), Some (-1))
      else bind_res (binSearch get len umid path) (\<lambda>low.
        if low < 0 then Inr (- ENOENT, Some low, None)
        else if findDepth path \<le> 0 then Inr (- ENOENT, Some low, None)
        else bind_res (dir_loop get len (findDepth path) path low) (\<lambda>r. case r of
          None \<Rightarrow> Inr (- ENOENT, Some low, None)
        | Some i \<Rightarrow> Inr (0, Some low, Some (i - 1)))))"

section \<open>Reference definitions\<close>

text \<open>The linear search that \<open>binSearch\<close> is meant to implement: the first location of a key.\<close>

fun linear_search :: "(int \<times> string) list \<Rightarrow> int \<times> string \<Rightarrow> int \<Rightarrow> int" where
  "linear_search [] k i = -1"
| "linear_search (e # es) k i = (if e = k then i else linear_search es k (i + 1))"

definition lookup_path :: "(int \<times> string) list \<Rightarrow> string \<Rightarrow> int" where
  "lookup_path es p =
     (if findDepth p \<le> 0 then -1 else linear_search es (findDepth p, p) 0)"

text \<open>The locations of the entries inside a directory, in ascending order.\<close>

definition dir_locations :: "(int \<times> string) list \<Rightarrow> string \<Rightarrow> int list" where
  "dir_locations es p =
     filter (\<lambda>i. fst (es ! nat i) = findDepth p \<and> strict_prefix p (snd (es ! nat i)))
       [0..int (length es) - 1]"

text \<open>The order of the entries that the search expects.\<close>

definition catalog_sorted :: "mount \<Rightarrow> bool" where
  "catalog_sorted m \<longleftrightarrow> sorted_wrt (<) (catalog_keys m)"

lemma linear_search_absent: "k \<notin> set es \<Longrightarrow> linear_search es k i = -1"
  by (induction es arbitrary: i) auto

lemma linear_search_nth:
  "distinct es \<Longrightarrow> j < length es \<Longrightarrow> es ! j = k \<Longrightarrow> linear_search es k i = i + int j"
proof (induction es arbitrary: i j)
  case Nil
  then show ?case by simp
next
  case (Cons e es)
  then show ?case
    by (cases j) (auto simp: nth_mem)
qed

text \<open>In the order of strings, the strings with a given prefix are contiguous.\<close>

lemma prefix_between:
  "prefix p y \<Longrightarrow> p \<le> x \<Longrightarrow> x \<le> y \<Longrightarrow> prefix p (x :: string)"
proof (induction p arbitrary: x y)
  case Nil
  then show ?case by simp
next
  case (Cons a p)
  then obtain y' where y: "y = a # y'" "prefix p y'"
    by (cases y) auto
  with Cons.prems obtain b x' where "x = b # x'"
    by (cases x) auto
  with Cons.prems y Cons.IH [of y' x'] show ?case
    by auto
qed

lemma filter_upto_interval:
  assumes "-1 \<le> a" "b < n"
  shows "filter (\<lambda>i. a < i \<and> i \<le> b) [0..n - 1] = [a + 1..b]"
  by (rule sorted_distinct_set_unique) (use assms in \<open>auto simp: sorted_wrt_filter\<close>)

section \<open>One step of each loop\<close>

lemma find_index_stop:
  "high < low \<Longrightarrow> find_index get d low high mid depth = Inr (Some (low, high, mid, depth))"
  by (simp add: find_index.simps [of get d low high])

lemma find_index_step:
  "low \<le> high \<Longrightarrow> get (calculateMid low high) = Inr (Some (dm, pm)) \<Longrightarrow>
     find_index get d low high mid depth =
       (if dm = d then Inr (Some (low, high, calculateMid low high, dm))
        else if dm < d
        then find_index get d (calculateMid low high + 1) high (calculateMid low high) dm
        else find_index get d low (calculateMid low high - 1) (calculateMid low high) dm)"
  by (simp add: find_index.simps [of get d low high])

lemma find_lowest_loop_step:
  "low \<le> idx - 1 \<Longrightarrow> get (idx - 1) = Inr (Some (de, pe)) \<Longrightarrow>
     find_lowest_loop get d low idx d = find_lowest_loop get d low (idx - 1) de"
  by (simp add: find_lowest_loop.simps [of get d low idx d])

lemma find_highest_loop_step:
  "idx + 1 \<le> high \<Longrightarrow> get (idx + 1) = Inr (Some (de, pe)) \<Longrightarrow>
     find_highest_loop get d high idx d = find_highest_loop get d high (idx + 1) de"
  by (simp add: find_highest_loop.simps [of get d high idx d])

lemma path_loop_stop: "high < low \<Longrightarrow> path_loop get p low high = Inr (-1)"
  by (simp add: path_loop.simps [of get p low high])

lemma path_loop_step:
  "low \<le> high \<Longrightarrow> get (calculateMid low high) = Inr (Some (dm, pm)) \<Longrightarrow>
     path_loop get p low high =
       (if strcmp pm p = 0 then Inr (calculateMid low high)
        else if strcmp pm p < 0 then path_loop get p (calculateMid low high + 1) high
        else path_loop get p low (calculateMid low high - 1))"
  by (simp add: path_loop.simps [of get p low high] Let_def)

section \<open>What the search relies on\<close>

text \<open>
  A reader of a catalogue \<open>c\<close>: inside the bounds, it returns the depth and path of the entry. The
  search returns an \<open>int\<close>, so the number of entries fits one.
\<close>

locale catalog_reader =
  fixes get :: "'c \<Rightarrow> int \<Rightarrow> (int \<times> string) option res"
    and len :: "'c \<Rightarrow> int"
    and ents :: "'c \<Rightarrow> (int \<times> string) list"
    and invar :: "'c \<Rightarrow> bool"
  assumes get_entry: "invar c \<Longrightarrow> 0 \<le> i \<Longrightarrow> i < len c \<Longrightarrow> get c i = Inr (Some (ents c ! nat i))"
    and len_ents: "invar c \<Longrightarrow> len c = int (length (ents c))"
    and len_in_int: "invar c \<Longrightarrow> in_int (len c)"
    and paths_plain: "invar c \<Longrightarrow> e \<in> set (ents c) \<Longrightarrow> NUL \<notin> set (snd e)"
begin

lemma path_plain_nth: "invar c \<Longrightarrow> 0 \<le> i \<Longrightarrow> i < len c \<Longrightarrow> NUL \<notin> set (snd (ents c ! nat i))"
  by (rule paths_plain) (auto simp: len_ents intro!: nth_mem)

lemma find_index_returns:
  assumes "invar c" "0 \<le> low" "high < len c"
  shows "\<exists>l h m dp. find_index (get c) d low high mid depth = Inr (Some (l, h, m, dp)) \<and>
           low \<le> l \<and> h \<le> high \<and>
           (l \<le> h \<longrightarrow> l \<le> m \<and> m \<le> h \<and> dp = d \<and> fst (ents c ! nat m) = d)"
  using assms(2,3)
proof (induction "get c" d low high mid depth rule: find_index.induct)
  case (1 d low high mid depth)
  show ?case
  proof (cases "low \<le> high")
    case False
    then show ?thesis by (simp add: find_index_stop)
  next
    case True
    let ?m = "calculateMid low high"
    note m = calculateMid_bounds [OF True]
    obtain dm pm where e: "ents c ! nat ?m = (dm, pm)"
      by fastforce
    have g: "get c ?m = Inr (Some (dm, pm))"
      using get_entry [OF assms(1), of ?m] m "1.prems" e by simp
    note step = find_index_step [of low high "get c" dm pm d mid depth, OF True g]
    consider "dm = d" | "dm \<noteq> d" "dm < d" | "dm \<noteq> d" "\<not> dm < d"
      by blast
    then show ?thesis
    proof cases
      case 1
      then show ?thesis
        using m e by (simp add: step)
    next
      case 2
      from "1.hyps"(1) [OF True g refl refl 2] m "1.prems"
      obtain l h k dp where
        "find_index (get c) d (?m + 1) high ?m dm = Inr (Some (l, h, k, dp))" "?m + 1 \<le> l" "h \<le> high"
        "l \<le> h \<longrightarrow> l \<le> k \<and> k \<le> h \<and> dp = d \<and> fst (ents c ! nat k) = d"
        by auto
      with 2 m(1) show ?thesis
        by (simp add: step)
    next
      case 3
      from "1.hyps"(2) [OF True g refl refl 3] m "1.prems"
      obtain l h k dp where
        "find_index (get c) d low (?m - 1) ?m dm = Inr (Some (l, h, k, dp))" "low \<le> l" "h \<le> ?m - 1"
        "l \<le> h \<longrightarrow> l \<le> k \<and> k \<le> h \<and> dp = d \<and> fst (ents c ! nat k) = d"
        by auto
      with 3 m(2) show ?thesis
        by (simp add: step)
    qed
  qed
qed

lemma find_lowest_loop_returns:
  assumes "invar c" "0 \<le> low" "idx < len c" "low \<le> idx" "fst (ents c ! nat idx) = depth"
  shows "\<exists>k dp. find_lowest_loop (get c) d low idx depth = Inr (Some (k, dp)) \<and>
           low - 1 \<le> k \<and> k \<le> idx \<and> (\<forall>j. k < j \<and> j \<le> idx \<longrightarrow> fst (ents c ! nat j) = d) \<and>
           (low \<le> k \<longrightarrow> fst (ents c ! nat k) \<noteq> d)"
  using assms(2-5)
proof (induction "get c" d low idx depth rule: find_lowest_loop.induct)
  case (1 d low idx depth)
  note unfold = find_lowest_loop.simps [of "get c" d low idx depth]
  show ?case
  proof (cases "depth = d \<and> low \<le> idx - 1")
    case False
    have "fst (ents c ! nat j) = depth" if "idx - 1 < j" "j \<le> idx" for j
      using that "1.prems"(4) by (cases "j = idx") auto
    with False "1.prems" show ?thesis
      by (auto simp: unfold)
  next
    case True
    obtain de pe where e: "ents c ! nat (idx - 1) = (de, pe)"
      by fastforce
    have g: "get c (idx - 1) = Inr (Some (de, pe))"
      using get_entry [OF assms(1), of "idx - 1"] True "1.prems" e by simp
    have "\<not> idx - 1 < low"
      using True by simp
    from "1.hyps" [OF _ this g refl refl] True "1.prems" e
    obtain k dp where k: "find_lowest_loop (get c) d low (idx - 1) de = Inr (Some (k, dp))"
      "low - 1 \<le> k" "k \<le> idx - 1"
      "\<forall>j. k < j \<and> j \<le> idx - 1 \<longrightarrow> fst (ents c ! nat j) = d" "low \<le> k \<longrightarrow> fst (ents c ! nat k) \<noteq> d"
      by auto
    have "fst (ents c ! nat j) = d" if "k < j" "j \<le> idx" for j
      using that k(4) True "1.prems"(4) by (cases "j = idx") auto
    with k True find_lowest_loop_step [of low idx "get c" de pe d] g show ?thesis
      by fastforce
  qed
qed

lemma find_highest_loop_returns:
  assumes "invar c" "0 \<le> idx" "high < len c" "idx \<le> high" "fst (ents c ! nat idx) = depth"
  shows "\<exists>k dp. find_highest_loop (get c) d high idx depth = Inr (Some (k, dp)) \<and>
           idx \<le> k \<and> k \<le> high + 1 \<and> (\<forall>j. idx \<le> j \<and> j < k \<longrightarrow> fst (ents c ! nat j) = d) \<and>
           (k \<le> high \<longrightarrow> fst (ents c ! nat k) \<noteq> d)"
  using assms(2-5)
proof (induction "get c" d high idx depth rule: find_highest_loop.induct)
  case (1 d high idx depth)
  note unfold = find_highest_loop.simps [of "get c" d high idx depth]
  show ?case
  proof (cases "depth = d \<and> idx + 1 \<le> high")
    case False
    have "fst (ents c ! nat j) = depth" if "idx \<le> j" "j < idx + 1" for j
      using that "1.prems"(4) by (cases "j = idx") auto
    with False "1.prems" show ?thesis
      by (auto simp: unfold)
  next
    case True
    obtain de pe where e: "ents c ! nat (idx + 1) = (de, pe)"
      by fastforce
    have g: "get c (idx + 1) = Inr (Some (de, pe))"
      using get_entry [OF assms(1), of "idx + 1"] True "1.prems" e by simp
    have "\<not> high < idx + 1"
      using True by simp
    from "1.hyps" [OF _ this g refl refl] True "1.prems" e
    obtain k dp where k: "find_highest_loop (get c) d high (idx + 1) de = Inr (Some (k, dp))"
      "idx + 1 \<le> k" "k \<le> high + 1"
      "\<forall>j. idx + 1 \<le> j \<and> j < k \<longrightarrow> fst (ents c ! nat j) = d" "k \<le> high \<longrightarrow> fst (ents c ! nat k) \<noteq> d"
      by auto
    have "fst (ents c ! nat j) = d" if "idx \<le> j" "j < k" for j
      using that k(4) True "1.prems"(4) by (cases "j = idx") auto
    with k True find_highest_loop_step [of idx high "get c" de pe d] g show ?thesis
      by fastforce
  qed
qed

lemma path_loop_returns:
  assumes "invar c" "NUL \<notin> set p" "0 \<le> low" "high < len c"
  shows "\<exists>r. path_loop (get c) p low high = Inr r \<and>
           (r = -1 \<or> low \<le> r \<and> r \<le> high \<and> snd (ents c ! nat r) = p)"
  using assms(2-4)
proof (induction "get c" p low high rule: path_loop.induct)
  case (1 p low high)
  show ?case
  proof (cases "low \<le> high")
    case False
    then show ?thesis by (simp add: path_loop_stop)
  next
    case True
    let ?m = "calculateMid low high"
    note m = calculateMid_bounds [OF True]
    obtain dm pm where e: "ents c ! nat ?m = (dm, pm)"
      by fastforce
    have g: "get c ?m = Inr (Some (dm, pm))"
      using get_entry [OF assms(1), of ?m] m "1.prems" e by simp
    note step = path_loop_step [of low high "get c" dm pm p, OF True g]
    consider "strcmp pm p = 0" | "strcmp pm p \<noteq> 0" "strcmp pm p < 0"
      | "strcmp pm p \<noteq> 0" "\<not> strcmp pm p < 0"
      by blast
    then show ?thesis
    proof cases
      case 1
      have "NUL \<notin> set pm"
        using path_plain_nth [OF assms(1), of ?m] m "1.prems" e by simp
      with 1 "1.prems"(1) have "pm = p"
        by (simp add: strcmp_eq_0)
      with 1 m e show ?thesis
        by (simp add: step)
    next
      case 2
      from "1.hyps"(1) [OF True g refl refl refl 2] m "1.prems" show ?thesis
        using 2 by (auto simp: step)
    next
      case 3
      from "1.hyps"(2) [OF True g refl refl refl 3] m "1.prems" show ?thesis
        using 3 by (auto simp: step)
    qed
  qed
qed

text \<open>A binary search that finds every path between its bounds has found them in order.\<close>

lemma path_loop_sorts:
  assumes "invar c" "0 \<le> low" "high < len c"
    and "\<forall>k. low \<le> k \<and> k \<le> high \<longrightarrow> path_loop (get c) (snd (ents c ! nat k)) low high \<noteq> Inr (-1)"
    and "\<forall>k l. low \<le> k \<and> k < l \<and> l \<le> high \<longrightarrow> snd (ents c ! nat k) \<noteq> snd (ents c ! nat l)"
    and "low \<le> i" "i < j" "j \<le> high"
  shows "snd (ents c ! nat i) < snd (ents c ! nat j)"
  using assms(2-)
proof (induction "nat (high - low)" arbitrary: low high i j rule: less_induct)
  case less
  let ?P = "\<lambda>k. snd (ents c ! nat k)" and ?m = "calculateMid low high"
  have le: "low \<le> high"
    using less.prems by linarith
  note m = calculateMid_bounds [OF le]
  have g: "get c ?m = Inr (Some (fst (ents c ! nat ?m), ?P ?m))"
    using get_entry [OF assms(1), of ?m] m less.prems(1,2) by simp
  have plain: "NUL \<notin> set (?P k)" if "low \<le> k" "k \<le> high" for k
    using path_plain_nth [OF assms(1), of k] that less.prems(1,2) by simp
  have ne: "?P k \<noteq> ?P l" if "low \<le> k" "k \<le> high" "low \<le> l" "l \<le> high" "k \<noteq> l" for k l
    using less.prems(4) that by (metis linorder_neqE)
  have step: "path_loop (get c) (?P k) low high =
      (if ?P ?m < ?P k then path_loop (get c) (?P k) (?m + 1) high else path_loop (get c) (?P k) low (?m - 1))"
    if "low \<le> k" "k \<le> high" "k \<noteq> ?m" for k
    using path_loop_step [of low high "get c" "fst (ents c ! nat ?m)" "?P ?m" "?P k", OF le g] ne [of ?m k] plain [of ?m] plain [of k] that m
    by (simp add: strcmp_eq_0 strcmp_less_0)
  have away: "path_loop (get c) (?P k) l h = Inr (-1)"
    if "low \<le> k" "k \<le> high" "low \<le> l" "h \<le> high" "k < l \<or> h < k" for k l h
    using path_loop_returns [OF assms(1) plain [OF that(1,2)], of l h] ne [of _ k] that less.prems(1,2) by fastforce
  have left: "?P k < ?P ?m \<and> path_loop (get c) (?P k) low (?m - 1) \<noteq> Inr (-1)" if "low \<le> k" "k < ?m" for k
    using less.prems(3) step [of k] away [of k "?m + 1" high] ne [of k ?m] that m by (auto split: if_splits)
  have right: "?P ?m < ?P k \<and> path_loop (get c) (?P k) (?m + 1) high \<noteq> Inr (-1)" if "?m < k" "k \<le> high" for k
    using less.prems(3) step [of k] away [of k low "?m - 1"] that m by (auto split: if_splits)
  consider "j < ?m" | "?m < i" | "i \<le> ?m" "?m \<le> j"
    by linarith
  then show ?case
  proof cases
    case 1
    then show ?thesis
      using less.prems left m by (intro less.hyps [of "?m - 1" low]) auto
  next
    case 2
    then show ?thesis
      using less.prems right m by (intro less.hyps [of high "?m + 1"]) auto
  next
    case 3
    then show ?thesis
      using left [of i] right [of j] less.prems(5-7) by (cases "i = ?m"; cases "j = ?m") (auto intro: less_trans)
  qed
qed

text \<open>
  How a search for a path of positive depth ends: either the depth does not occur between the bounds
  that \<open>find_index\<close> reached, or the path is searched in a run of entries of its depth.
\<close>

lemma binSearch_cases:
  assumes "invar c" "0 < findDepth p"
  obtains (absent) l h m dp where
      "find_index (get c) (findDepth p) 0 (len c - 1) umid 1 = Inr (Some (l, h, m, dp))" "h < l"
      "binSearch (get c) (len c) umid p = Inr (-1)"
    | (run) l h m dp low high where
      "find_index (get c) (findDepth p) 0 (len c - 1) umid 1 = Inr (Some (l, h, m, dp))"
      "0 \<le> l" "h < len c" "l \<le> low" "low \<le> m" "m \<le> high" "high \<le> h"
      "\<forall>j. low \<le> j \<and> j \<le> high \<longrightarrow> fst (ents c ! nat j) = findDepth p"
      "l < low \<longrightarrow> fst (ents c ! nat (low - 1)) \<noteq> findDepth p"
      "high < h \<longrightarrow> fst (ents c ! nat (high + 1)) \<noteq> findDepth p"
      "binSearch (get c) (len c) umid p = bind_res (path_loop (get c) p low high) (\<lambda>i. Inr (wrap32 i))"
proof -
  let ?d = "findDepth p"
  obtain l h m dp where fi: "find_index (get c) ?d 0 (len c - 1) umid 1 = Inr (Some (l, h, m, dp))"
    "0 \<le> l" "h < len c" "l \<le> h \<longrightarrow> l \<le> m \<and> m \<le> h \<and> dp = ?d \<and> fst (ents c ! nat m) = ?d"
    using find_index_returns [OF assms(1), of 0 "len c - 1" ?d umid 1] by auto
  show thesis
  proof (cases "l \<le> h")
    case False
    with fi(1) assms(2) have "binSearch (get c) (len c) umid p = Inr (-1)"
      by (simp add: binSearch_def)
    with False show thesis
      by (intro absent [OF fi(1)]) auto
  next
    case True
    with fi(4) have m: "l \<le> m" "m \<le> h" "dp = ?d" "fst (ents c ! nat m) = ?d"
      by auto
    obtain k1 d1 where k1: "find_lowest_loop (get c) ?d l m ?d = Inr (Some (k1, d1))"
      "l - 1 \<le> k1" "k1 \<le> m" "\<forall>j. k1 < j \<and> j \<le> m \<longrightarrow> fst (ents c ! nat j) = ?d"
      "l \<le> k1 \<longrightarrow> fst (ents c ! nat k1) \<noteq> ?d"
      using find_lowest_loop_returns [OF assms(1) fi(2), of m ?d ?d] m fi(3) by auto
    obtain k2 d2 where k2: "find_highest_loop (get c) ?d h m ?d = Inr (Some (k2, d2))"
      "m \<le> k2" "k2 \<le> h + 1" "\<forall>j. m \<le> j \<and> j < k2 \<longrightarrow> fst (ents c ! nat j) = ?d"
      "k2 \<le> h \<longrightarrow> fst (ents c ! nat k2) \<noteq> ?d"
      using find_highest_loop_returns [OF assms(1), of m h ?d ?d] m fi(2,3) by auto
    have "k1 \<noteq> m" "k2 \<noteq> m"
      using k1(2,5) k2(3,5) m by auto
    moreover have "fst (ents c ! nat j) = ?d" if "k1 + 1 \<le> j" "j \<le> k2 - 1" for j
      using that k1(4) k2(4) by (cases "j \<le> m") auto
    ultimately show thesis
      using fi k1 k2 m True assms(2)
      by (intro run [of l h m dp "k1 + 1" "k2 - 1"])
        (auto simp: binSearch_def find_lowest_index_def find_highest_index_def)
  qed
qed

text \<open>
  Whatever the order of the entries, the search returns -1 or a location that holds the path with
  its own depth.
\<close>

lemma binSearch_returns:
  assumes "invar c" "NUL \<notin> set p"
  shows "\<exists>r. binSearch (get c) (len c) umid p = Inr r \<and>
           (r = -1 \<or> 0 \<le> r \<and> r < len c \<and> ents c ! nat r = (findDepth p, p))"
proof (cases "0 < findDepth p")
  case False
  then show ?thesis by (simp add: binSearch_def)
next
  case True
  from assms(1) True show ?thesis
  proof (cases rule: binSearch_cases [where umid = umid])
    case absent
    then show ?thesis by simp
  next
    case (run l h m dp low high)
    obtain r where r: "path_loop (get c) p low high = Inr r"
      "r = -1 \<or> low \<le> r \<and> r \<le> high \<and> snd (ents c ! nat r) = p"
      using path_loop_returns [OF assms, of low high] run by auto
    show ?thesis
    proof (cases "r = -1")
      case True
      with r run show ?thesis by simp
    next
      case False
      with r(2) have "low \<le> r" "r \<le> high" "snd (ents c ! nat r) = p"
        by auto
      moreover have "fst (ents c ! nat r) = findDepth p"
        using run(8) \<open>low \<le> r\<close> \<open>r \<le> high\<close> by blast
      moreover have "in_int r"
        using in_int_between [OF _ _ len_in_int [OF assms(1)], of r] run \<open>low \<le> r\<close> \<open>r \<le> high\<close> by simp
      ultimately show ?thesis
        using r(1) run by (auto simp: prod_eq_iff)
    qed
  qed
qed

lemma dir_loop_returns:
  assumes "invar c" "NUL \<notin> set p" "-1 \<le> i" "i < len c"
  shows "\<exists>k. dir_loop (get c) (len c) d p i = Inr (Some k) \<and> i < k \<and> k \<le> len c \<and>
           (\<forall>j. i < j \<and> j < k \<longrightarrow> fst (ents c ! nat j) = d \<and> prefix p (snd (ents c ! nat j))) \<and>
           (k < len c \<longrightarrow> \<not> (fst (ents c ! nat k) = d \<and> prefix p (snd (ents c ! nat k))))"
  using assms(2-)
proof (induction "get c" "len c" d p i rule: dir_loop.induct)
  case (1 d p i)
  note unfold = dir_loop.simps [of "get c" "len c" d p i]
  show ?case
  proof (cases "len c \<le> i + 1")
    case True
    with "1.prems" show ?thesis
      by (auto simp: unfold)
  next
    case False
    obtain de pe where e: "ents c ! nat (i + 1) = (de, pe)"
      by fastforce
    have g: "get c (i + 1) = Inr (Some (de, pe))"
      using get_entry [OF assms(1), of "i + 1"] "1.prems" False e by simp
    have "NUL \<notin> set pe"
      using path_plain_nth [OF assms(1), of "i + 1"] "1.prems" False e by simp
    then have test: "strncmp p pe (length p) = 0 \<longleftrightarrow> prefix p pe"
      using "1.prems"(1) by (simp add: strncmp_prefix)
    show ?thesis
    proof (cases "de = d \<and> prefix p pe")
      case stop: False
      then have "dir_loop (get c) (len c) d p i = Inr (Some (i + 1))"
        using False g test by (auto simp: unfold)
      with stop False e show ?thesis
        by auto
    next
      case go: True
      with test have "\<not> (de \<noteq> d \<or> strncmp p pe (length p) \<noteq> 0)"
        by simp
      from "1.hyps" [OF False g refl refl this] go "1.prems" False
      obtain k where k: "dir_loop (get c) (len c) d p (i + 1) = Inr (Some k)" "i + 1 < k" "k \<le> len c"
        "\<forall>j. i + 1 < j \<and> j < k \<longrightarrow> fst (ents c ! nat j) = d \<and> prefix p (snd (ents c ! nat j))"
        "k < len c \<longrightarrow> \<not> (fst (ents c ! nat k) = d \<and> prefix p (snd (ents c ! nat k)))"
        by auto
      have "fst (ents c ! nat j) = d \<and> prefix p (snd (ents c ! nat j))" if "i < j" "j < k" for j
        using that k(4) go e by (cases "j = i + 1") auto
      moreover have "dir_loop (get c) (len c) d p i = Inr (Some k)"
        using k(1) False g go test by (simp add: unfold)
      ultimately show ?thesis
        using k by auto
    qed
  qed
qed

end

text \<open>
  A catalogue in which the depths of the entries do not decrease: the search then looks for a path among all
  the entries of its depth.
\<close>

locale leveled_catalog = catalog_reader get len ents invar
  for get :: "'c \<Rightarrow> int \<Rightarrow> (int \<times> string) option res" and len ents invar +
  assumes ents_leveled: "invar c \<Longrightarrow> sorted (map fst (ents c))"
begin

lemma depth_mono:
  assumes "invar c" "0 \<le> i" "i \<le> j" "j < len c"
  shows "fst (ents c ! nat i) \<le> fst (ents c ! nat j)"
  using sorted_nth_mono [OF ents_leveled [OF assms(1)], of "nat i" "nat j"] assms by (simp add: len_ents nat_le_iff)

lemma find_index_complete:
  assumes "invar c" "0 \<le> low" "high < len c"
    and "find_index (get c) d low high mid depth = Inr (Some (l, h, m, dp))"
    and "low \<le> j" "j \<le> high" "fst (ents c ! nat j) = d"
  shows "l \<le> j \<and> j \<le> h"
  using assms(2-)
proof (induction "get c" d low high mid depth rule: find_index.induct)
  case (1 d low high mid depth)
  then have le: "low \<le> high"
    by linarith
  let ?m = "calculateMid low high"
  note m = calculateMid_bounds [OF le]
  obtain dm pm where e: "ents c ! nat ?m = (dm, pm)"
    by fastforce
  have g: "get c ?m = Inr (Some (dm, pm))"
    using get_entry [OF assms(1), of ?m] m "1.prems" e by simp
  note step = find_index_step [of low high "get c" dm pm d mid depth, OF le g]
  have up: "j \<le> ?m \<Longrightarrow> d \<le> dm" and down: "?m \<le> j \<Longrightarrow> dm \<le> d"
    using depth_mono [OF assms(1), of j ?m] depth_mono [OF assms(1), of ?m j] m "1.prems" e by auto
  consider "dm = d" | "dm \<noteq> d" "dm < d" | "dm \<noteq> d" "\<not> dm < d"
    by blast
  then show ?case
  proof cases
    case 1
    then show ?thesis
      using "1.prems" by (simp add: step)
  next
    case 2
    with up have "?m < j"
      by linarith
    with 2 "1.prems" m show ?thesis
      by (intro "1.hyps"(1) [OF le g refl refl 2]) (auto simp: step)
  next
    case 3
    with down have "j < ?m"
      by linarith
    with 3 "1.prems" m show ?thesis
      by (intro "1.hyps"(2) [OF le g refl refl 3]) (auto simp: step)
  qed
qed

lemma binSearch_run:
  assumes "invar c" "0 < findDepth p" "0 \<le> j" "j < len c" "fst (ents c ! nat j) = findDepth p"
  obtains low high where "0 \<le> low" "high < len c"
    "\<forall>i. 0 \<le> i \<and> i < len c \<longrightarrow> (fst (ents c ! nat i) = findDepth p \<longleftrightarrow> low \<le> i \<and> i \<le> high)"
    "binSearch (get c) (len c) umid p = bind_res (path_loop (get c) p low high) (\<lambda>i. Inr (wrap32 i))"
  using assms(1,2)
proof (cases rule: binSearch_cases [where umid = umid])
  case (absent l h m dp)
  then show ?thesis
    using find_index_complete [OF assms(1) _ _ absent(1), of j] assms by auto
next
  case (run l h m dp low high)
  have "low \<le> i \<and> i \<le> high" if i: "0 \<le> i" "i < len c" "fst (ents c ! nat i) = findDepth p" for i
  proof -
    have lh: "l \<le> i" "i \<le> h"
      using find_index_complete [OF assms(1) _ _ run(1), of i] i by auto
    have "low \<le> i"
    proof (rule ccontr)
      assume "\<not> low \<le> i"
      then have "fst (ents c ! nat (low - 1)) = findDepth p"
        using depth_mono [OF assms(1), of i "low - 1"] depth_mono [OF assms(1), of "low - 1" m] run i
        by (simp add: order_antisym)
      with run(9) lh \<open>\<not> low \<le> i\<close> show False by simp
    qed
    moreover have "i \<le> high"
    proof (rule ccontr)
      assume "\<not> i \<le> high"
      then have "fst (ents c ! nat (high + 1)) = findDepth p"
        using depth_mono [OF assms(1), of "high + 1" i] depth_mono [OF assms(1), of m "high + 1"] run i
        by (simp add: order_antisym)
      with run(10) lh \<open>\<not> i \<le> high\<close> show False by simp
    qed
    ultimately show ?thesis by simp
  qed
  then have "\<forall>i. 0 \<le> i \<and> i < len c \<longrightarrow> (fst (ents c ! nat i) = findDepth p \<longleftrightarrow> low \<le> i \<and> i \<le> high)"
    using run(8) by blast
  then show ?thesis
    by (rule that [OF _ _ _ run(11), rotated 2]) (use run(2-7) in linarith)+
qed

text \<open>If the search finds every path of a catalogue without doubles, then its entries are sorted.\<close>

lemma complete_search_sorts:
  assumes "invar c" "distinct (ents c)" "\<forall>e\<in>set (ents c). fst e = findDepth (snd e) \<and> 0 < fst e"
    and "\<forall>e\<in>set (ents c). binSearch (get c) (len c) umid (snd e) \<noteq> Inr (-1)"
  shows "sorted_wrt (<) (ents c)"
  unfolding sorted_wrt_iff_nth_less
proof (intro allI impI)
  fix i j assume ij: "i < j" "j < length (ents c)"
  have len: "len c = int (length (ents c))"
    by (rule len_ents [OF assms(1)])
  have ent: "fst (ents c ! nat k) = findDepth (snd (ents c ! nat k)) \<and> 0 < fst (ents c ! nat k) \<and>
      binSearch (get c) (len c) umid (snd (ents c ! nat k)) \<noteq> Inr (-1)" if "0 \<le> k" "k < len c" for k
  proof -
    have mem: "ents c ! nat k \<in> set (ents c)"
      using that len by simp
    show ?thesis
      using bspec [OF assms(3) mem] bspec [OF assms(4) mem] by blast
  qed
  have le: "fst (ents c ! i) \<le> fst (ents c ! j)"
    using depth_mono [OF assms(1), of "int i" "int j"] ij len by simp
  show "ents c ! i < ents c ! j"
  proof (cases "fst (ents c ! i) < fst (ents c ! j)")
    case True
    then show ?thesis
      by (simp add: less_prod_def')
  next
    case False
    let ?d = "fst (ents c ! j)"
    have d: "fst (ents c ! i) = ?d"
      using le False by simp
    obtain low high where r: "0 \<le> low" "high < len c"
        "\<forall>k. 0 \<le> k \<and> k < len c \<longrightarrow> (fst (ents c ! nat k) = ?d \<longleftrightarrow> low \<le> k \<and> k \<le> high)"
      by (rule binSearch_run [OF assms(1), of "snd (ents c ! j)" "int j" umid]) (use ent [of "int j"] ij len in auto)
    have in_run: "low \<le> int i" "int j \<le> high"
      using r(3) [rule_format, of "int i"] r(3) [rule_format, of "int j"] ij len d by auto
    have found: "path_loop (get c) (snd (ents c ! nat k)) low high \<noteq> Inr (-1)" if k: "low \<le> k" "k \<le> high" for k
    proof
      assume lost: "path_loop (get c) (snd (ents c ! nat k)) low high = Inr (-1)"
      have kb: "0 \<le> k" "k < len c"
        using k r(1,2) by simp_all
      then have kd: "findDepth (snd (ents c ! nat k)) = ?d"
        using r(3) k ent [of k] by auto
      obtain low' high' where r': "0 \<le> low'" "high' < len c"
          "\<forall>i. 0 \<le> i \<and> i < len c \<longrightarrow> (fst (ents c ! nat i) = ?d \<longleftrightarrow> low' \<le> i \<and> i \<le> high')"
          "binSearch (get c) (len c) umid (snd (ents c ! nat k)) =
            bind_res (path_loop (get c) (snd (ents c ! nat k)) low' high') (\<lambda>i. Inr (wrap32 i))"
        by (rule binSearch_run [OF assms(1), of "snd (ents c ! nat k)" k umid]) (use ent [OF kb] kb kd in auto)
      have same: "low' \<le> i \<and> i \<le> high' \<longleftrightarrow> low \<le> i \<and> i \<le> high" if "0 \<le> i" "i < len c" for i
        using r(3) r'(3) that by blast
      have "low' \<le> k" "k \<le> high'"
        using same [OF kb] k by simp_all
      have bounds: "0 \<le> low" "low < len c" "0 \<le> high" "high < len c" "0 \<le> low'" "low' < len c" "0 \<le> high'" "high' < len c"
        using r(1,2) r'(1,2) k \<open>low' \<le> k\<close> \<open>k \<le> high'\<close> by linarith+
      have "low' \<le> low \<and> low \<le> high'" "low' \<le> high \<and> high \<le> high'"
        using same [OF bounds(1,2)] same [OF bounds(3,4)] k by simp_all
      moreover have "low \<le> low' \<and> low' \<le> high" "low \<le> high' \<and> high' \<le> high"
        using same [OF bounds(5,6)] same [OF bounds(7,8)] \<open>low' \<le> k\<close> \<open>k \<le> high'\<close> by simp_all
      ultimately have "low' = low" "high' = high"
        by simp_all
      then have "binSearch (get c) (len c) umid (snd (ents c ! nat k)) = Inr (-1)"
        using r'(4) lost by simp
      with ent [OF kb] show False
        by simp
    qed
    have apart: "snd (ents c ! nat k) \<noteq> snd (ents c ! nat l)" if "low \<le> k" "k < l" "l \<le> high" for k l
    proof
      assume "snd (ents c ! nat k) = snd (ents c ! nat l)"
      moreover have kl: "0 \<le> k" "k < len c" "0 \<le> l" "l < len c" "k \<le> high" "low \<le> l"
        using that r(1,2) by linarith+
      then have "fst (ents c ! nat k) = ?d" "fst (ents c ! nat l) = ?d"
        using r(3) that by blast+
      ultimately have "ents c ! nat k = ents c ! nat l"
        by (simp add: prod_eq_iff)
      then have "nat k = nat l"
        using nth_eq_iff_index_eq [OF assms(2)] kl len by simp
      with that(2) kl(1) show False
        by simp
    qed
    have "snd (ents c ! nat (int i)) < snd (ents c ! nat (int j))"
    proof (rule path_loop_sorts [OF assms(1) r(1,2) _ _ in_run(1) _ in_run(2)])
      show "\<forall>k. low \<le> k \<and> k \<le> high \<longrightarrow> path_loop (get c) (snd (ents c ! nat k)) low high \<noteq> Inr (-1)"
        using found by blast
      show "\<forall>k l. low \<le> k \<and> k < l \<and> l \<le> high \<longrightarrow> snd (ents c ! nat k) \<noteq> snd (ents c ! nat l)"
        using apart by blast
    qed (use ij in simp)
    with d show ?thesis
      by (simp add: less_prod_def')
  qed
qed

end

text \<open>
  A catalogue in which the entries are sorted by depth, and by path inside a depth, with no entry
  twice: the order in which \<open>binSearch\<close> expects them.
\<close>

locale sorted_catalog = catalog_reader get len ents invar
  for get :: "'c \<Rightarrow> int \<Rightarrow> (int \<times> string) option res" and len ents invar +
  assumes ents_sorted: "invar c \<Longrightarrow> sorted_wrt (<) (ents c)"
begin

lemma nth_less:
  assumes "invar c" "0 \<le> i" "i < j" "j < len c"
  shows "ents c ! nat i < ents c ! nat j"
  using sorted_wrt_nth_less [OF ents_sorted [OF assms(1)], of "nat i" "nat j"] assms
  by (auto simp: len_ents)

lemma ents_depths: "invar c \<Longrightarrow> sorted (map fst (ents c))"
  unfolding sorted_map by (rule sorted_wrt_mono_rel [OF _ ents_sorted]) (auto simp: less_prod_def')

end

sublocale sorted_catalog \<subseteq> leveled_catalog get len ents invar
  by unfold_locales (rule ents_depths)

context sorted_catalog
begin

lemma path_loop_complete:
  assumes "invar c" "NUL \<notin> set p" "0 \<le> low" "high < len c"
    and "\<forall>i. low \<le> i \<and> i \<le> high \<longrightarrow> fst (ents c ! nat i) = d"
    and "low \<le> j" "j \<le> high" "snd (ents c ! nat j) = p"
  shows "path_loop (get c) p low high = Inr j"
  using assms(2-)
proof (induction "get c" p low high rule: path_loop.induct)
  case (1 p low high)
  then have le: "low \<le> high"
    by linarith
  let ?m = "calculateMid low high"
  note m = calculateMid_bounds [OF le]
  obtain pm where e: "ents c ! nat ?m = (d, pm)"
    using "1.prems"(4) m by (metis prod.collapse)
  have ej: "ents c ! nat j = (d, p)"
    using "1.prems" by (metis prod.collapse)
  have g: "get c ?m = Inr (Some (d, pm))"
    using get_entry [OF assms(1), of ?m] m "1.prems" e by simp
  have plain: "NUL \<notin> set pm"
    using path_plain_nth [OF assms(1), of ?m] m "1.prems" e by simp
  note step = path_loop_step [of low high "get c" d pm p, OF le g]
  have before: "?m < j \<Longrightarrow> pm < p" and after: "j < ?m \<Longrightarrow> p < pm"
    using nth_less [OF assms(1), of ?m j] nth_less [OF assms(1), of j ?m] m "1.prems" e ej
    by (auto simp: less_prod_def')
  consider "?m = j" | "?m < j" | "j < ?m"
    by linarith
  then show ?case
  proof cases
    case 1
    with e ej have "strcmp pm p = 0"
      using "1.prems"(1) by (simp add: strcmp_eq_0)
    with 1 show ?thesis
      by (simp add: step)
  next
    case 2
    with before plain "1.prems"(1) have "strcmp pm p \<noteq> 0" "strcmp pm p < 0"
      by (auto simp: strcmp_eq_0 strcmp_less_0)
    with 2 "1.prems" m "1.hyps"(1) [OF le g refl refl refl this] show ?thesis
      by (simp add: step)
  next
    case 3
    with after plain "1.prems"(1) have "strcmp pm p \<noteq> 0" "\<not> strcmp pm p < 0"
      by (auto simp: strcmp_eq_0 strcmp_less_0)
    with 3 "1.prems" m "1.hyps"(2) [OF le g refl refl refl this] show ?thesis
      by (simp add: step)
  qed
qed

lemma binSearch_finds:
  assumes "invar c" "NUL \<notin> set p" "0 < findDepth p" "0 \<le> j" "j < len c"
    and "ents c ! nat j = (findDepth p, p)"
  shows "binSearch (get c) (len c) umid p = Inr j"
proof -
  obtain low high where run: "0 \<le> low" "high < len c"
      "\<forall>i. 0 \<le> i \<and> i < len c \<longrightarrow> (fst (ents c ! nat i) = findDepth p \<longleftrightarrow> low \<le> i \<and> i \<le> high)"
      "binSearch (get c) (len c) umid p = bind_res (path_loop (get c) p low high) (\<lambda>i. Inr (wrap32 i))"
    by (rule binSearch_run [OF assms(1,3-5), of umid]) (use assms(6) in simp_all)
  have "path_loop (get c) p low high = Inr j"
    using path_loop_complete [OF assms(1,2), of low high "findDepth p" j] run assms by auto
  moreover have "in_int j"
    using in_int_between [OF assms(4) _ len_in_int [OF assms(1)]] assms(5) by simp
  ultimately show ?thesis
    using run(4) by simp
qed

lemma distinct_ents: "invar c \<Longrightarrow> distinct (ents c)"
  using ents_sorted strict_sorted_iff by blast

theorem binSearch_eq_lookup:
  assumes "invar c" "NUL \<notin> set p"
  shows "binSearch (get c) (len c) umid p = Inr (lookup_path (ents c) p)"
proof -
  obtain r where r: "binSearch (get c) (len c) umid p = Inr r"
    "r = -1 \<or> 0 \<le> r \<and> r < len c \<and> ents c ! nat r = (findDepth p, p)"
    using binSearch_returns [OF assms] by blast
  show ?thesis
  proof (cases "0 < findDepth p \<and> (findDepth p, p) \<in> set (ents c)")
    case True
    then obtain k where k: "k < length (ents c)" "ents c ! k = (findDepth p, p)"
      by (auto simp: in_set_conv_nth)
    then have "binSearch (get c) (len c) umid p = Inr (int k)"
      using binSearch_finds [OF assms, of "int k"] True len_ents [OF assms(1)] by simp
    with k True linear_search_nth [OF distinct_ents [OF assms(1)] k] show ?thesis
      by (simp add: lookup_path_def)
  next
    case False
    have "nat r < length (ents c)" if "0 \<le> r" "r < len c"
      using that len_ents [OF assms(1)] by simp
    with False r(2) have "r = -1 \<or> findDepth p \<le> 0"
      by (metis linorder_not_le nth_mem)
    with r(1) False show ?thesis
      by (auto simp: lookup_path_def linear_search_absent binSearch_def)
  qed
qed

lemma dir_range:
  assumes "invar c" "0 \<le> low" "low < len c" "ents c ! nat low = (d, p)"
    and k: "low < k" "k \<le> len c"
      "\<forall>j. low < j \<and> j < k \<longrightarrow> fst (ents c ! nat j) = d \<and> prefix p (snd (ents c ! nat j))"
      "k < len c \<longrightarrow> \<not> (fst (ents c ! nat k) = d \<and> prefix p (snd (ents c ! nat k)))"
    and j: "0 \<le> j" "j < len c"
  shows "fst (ents c ! nat j) = d \<and> strict_prefix p (snd (ents c ! nat j)) \<longleftrightarrow> low < j \<and> j < k"
proof
  assume inside: "low < j \<and> j < k"
  moreover have "(d, p) < ents c ! nat j"
    using nth_less [OF assms(1,2), of j] inside j assms(4) by simp
  ultimately show "fst (ents c ! nat j) = d \<and> strict_prefix p (snd (ents c ! nat j))"
    using k(3) by (auto simp: strict_prefix_def less_prod_def')
next
  assume a: "fst (ents c ! nat j) = d \<and> strict_prefix p (snd (ents c ! nat j))"
  have pj: "p < snd (ents c ! nat j)"
    using a prefix_less_list [of p "snd (ents c ! nat j)"] by (auto simp: strict_prefix_def order_less_le)
  have "low < j"
  proof (rule ccontr)
    assume "\<not> low < j"
    then consider "j = low" | "j < low" by linarith
    then show False
    proof cases
      case 1
      with pj assms(4) show False by simp
    next
      case 2
      with nth_less [OF assms(1) j(1), of low] assms(3,4) a pj show False
        by (auto simp: less_prod_def')
    qed
  qed
  moreover have "j < k"
  proof (rule ccontr)
    assume "\<not> j < k"
    then have kl: "k \<le> j" "k < len c"
      using j by auto
    have "fst (ents c ! nat k) = d"
      using depth_mono [OF assms(1), of low k] depth_mono [OF assms(1), of k j] k kl a assms(2,4) j
      by simp
    moreover have "p \<le> snd (ents c ! nat k)"
      using nth_less [OF assms(1,2), of k] k(1) kl(2) assms(4) calculation by (auto simp: less_prod_def')
    moreover have "snd (ents c ! nat k) \<le> snd (ents c ! nat j)"
      using nth_less [OF assms(1), of k j] kl j k(1) assms(2) a calculation(1)
      by (cases "k = j") (auto simp: less_prod_def')
    ultimately have "prefix p (snd (ents c ! nat k))"
      using prefix_between a by (auto simp: strict_prefix_def)
    with k(4) kl(2) \<open>fst (ents c ! nat k) = d\<close> show False by simp
  qed
  ultimately show "low < j \<and> j < k" by simp
qed

theorem get_directory_contents_lists:
  assumes "invar c" "NUL \<notin> set p" "p \<noteq> []" "last p = slash" "0 < findDepth p"
    and "0 \<le> low" "low < len c" "ents c ! nat low = (findDepth p, p)"
  shows "\<exists>high. get_directory_contents (get c) (len c) umid p = Inr (0, Some low, Some high) \<and>
           low \<le> high \<and> high < len c \<and> dir_locations (ents c) p = [low + 1..high]"
proof -
  obtain k where k: "dir_loop (get c) (len c) (findDepth p) p low = Inr (Some k)" "low < k" "k \<le> len c"
    "\<forall>j. low < j \<and> j < k \<longrightarrow> fst (ents c ! nat j) = findDepth p \<and> prefix p (snd (ents c ! nat j))"
    "k < len c \<longrightarrow> \<not> (fst (ents c ! nat k) = findDepth p \<and> prefix p (snd (ents c ! nat k)))"
    using dir_loop_returns [OF assms(1,2), of low "findDepth p"] assms(6,7) by auto
  have "binSearch (get c) (len c) umid p = Inr low"
    using binSearch_finds assms by blast
  then have "get_directory_contents (get c) (len c) umid p = Inr (0, Some low, Some (k - 1))"
    using assms k(1) by (simp add: get_directory_contents_def)
  moreover have "dir_locations (ents c) p = filter (\<lambda>i. low < i \<and> i \<le> k - 1) [0..len c - 1]"
    unfolding dir_locations_def len_ents [OF assms(1), symmetric]
    by (rule filter_cong [OF refl]) (use dir_range [OF assms(1,6-8) k(2-5)] in auto)
  ultimately show ?thesis
    using filter_upto_interval [of low "k - 1" "len c"] k(2,3) assms(6) by auto
qed

theorem get_directory_contents_absent:
  assumes "invar c" "NUL \<notin> set p" "(findDepth p, p) \<notin> set (ents c)" "p \<noteq> []" "last p = slash"
  shows "get_directory_contents (get c) (len c) umid p = Inr (- ENOENT, Some (-1), None)"
  using assms
  by (simp add: get_directory_contents_def binSearch_eq_lookup lookup_path_def linear_search_absent)

end

section \<open>The reader of \<open>catalogfs\<close>\<close>

text \<open>Paths come out of a C string, so they hold no NUL.\<close>

lemma scan_digits_suffix: "scan_digits b acc s = (n, r) \<Longrightarrow> set r \<subseteq> set s"
  by (induction b acc s rule: scan_digits.induct) (auto split: if_splits)

lemma skip_ws_subset: "set (skip_ws s) \<subseteq> set s"
  by (auto simp: skip_ws_def dest: set_dropWhileD)

lemma scan_number_subset: "scan_number b s = Some (v, r) \<Longrightarrow> set r \<subseteq> set s"
  using skip_ws_subset [of s]
  by (force simp: scan_number_def scan_unsigned_def dest!: scan_digits_suffix
      split: list.splits if_splits)

lemma sscanf_string_subset: "sscanf ds s = Inr vs \<Longrightarrow> VS p \<in> set vs \<Longrightarrow> set p \<subseteq> set s"
proof (induction ds s arbitrary: vs rule: sscanf.induct)
qed (use skip_ws_subset scan_number_subset in
   \<open>fastforce simp: cons_val_def bind_res_eq_Inr not_set_def Let_def
      dest: set_takeWhileD in_set_dropD split: list.splits option.splits if_splits\<close>)+

lemma parse_entry_plain:
  assumes "parse_entry sep (cstr l) = Inr w"
  shows "NUL \<notin> set (wdf_file_path w)"
proof -
  obtain vs where vs: "sscanf (catalog_fmt sep) (cstr l) = Inr vs" "build_entry vs = Inr w"
    using assms by (auto simp: parse_entry_def bind_res_eq_Inr)
  then obtain p where p: "VS p \<in> set vs" "set (wdf_file_path w) \<subseteq> set p"
    by (fastforce simp: build_entry_def split_link_def Let_def dest: set_takeWhileD
        split: list.splits sval.splits if_splits)
  have "NUL \<notin> set (cstr l)"
    by (auto simp: cstr_def dest: set_takeWhileD)
  with p sscanf_string_subset [OF vs(1)] show ?thesis
    by blast
qed

lemma catalog_keys_plain:
  assumes "catalog_wf m" "e \<in> set (catalog_keys m)"
  shows "NUL \<notin> set (snd e)"
proof -
  obtain i where i: "i < nat (catalog_len m)" "e = catalog_keys m ! i"
    using assms(2) by (auto simp: in_set_conv_nth)
  with assms(1) have "parses (catalog_line m i)"
    by (auto simp: catalog_wf_def)
  then show ?thesis
    using i parse_entry_plain
    by (auto simp: nth_catalog_keys catalog_entries_def parses_def entry_of_line_def split: sum.splits)
qed

interpretation cat: catalog_reader getEntry_depth_filepath catalog_len catalog_keys catalog_wf
  by unfold_locales
    (auto simp: getEntry_depth_filepath_wf catalog_wf_len_int catalog_keys_plain
      dest: catalog_wf_len_pos)

interpretation lcat: leveled_catalog getEntry_depth_filepath catalog_len catalog_keys
  "\<lambda>m. catalog_wf m \<and> sorted (map fst (catalog_keys m))"
  by unfold_locales
    (auto intro: cat.get_entry cat.len_ents cat.len_in_int dest: cat.paths_plain catalog_wf_len_pos)

interpretation scat: sorted_catalog getEntry_depth_filepath catalog_len catalog_keys
  "\<lambda>m. catalog_wf m \<and> catalog_sorted m"
  by unfold_locales
    (auto simp: catalog_sorted_def intro: cat.get_entry cat.len_ents cat.len_in_int
      dest: cat.paths_plain catalog_wf_len_pos)

end
