(* ===== verification/Catalog_Fs.thy ===== *)
theory Catalog_Fs
  imports Catalog_Search
begin

text \<open>
  The file system operations of \<open>catalogfs.c\<close> on top of the search: attributes, directory listing
  and link destinations, the operations a read-only catalogue refuses, the operation table, and the
  validation of the environment in \<open>main\<close>. libfuse supplies the \<open>filler\<close> of a directory buffer,
  which is a parameter.
\<close>

section \<open>Refused and constant operations\<close>

type_synonym mode_t = "32 word"
type_synonym dev_t = "64 word"
type_synonym off_t = "64 word"
type_synonym size_t = nat

definition catalog_mknod :: "string \<Rightarrow> mode_t \<Rightarrow> dev_t \<Rightarrow> int" where
  "catalog_mknod path mode rdev = - EROFS"

definition catalog_mkdir :: "string \<Rightarrow> mode_t \<Rightarrow> int" where
  "catalog_mkdir path mode = - EROFS"

definition catalog_unlink :: "string \<Rightarrow> int" where
  "catalog_unlink path = - EROFS"

definition catalog_rmdir :: "string \<Rightarrow> int" where
  "catalog_rmdir path = - EROFS"

definition catalog_symlink :: "string \<Rightarrow> string \<Rightarrow> int" where
  "catalog_symlink source dest = - EROFS"

definition catalog_link :: "string \<Rightarrow> string \<Rightarrow> int" where
  "catalog_link source dest = - EROFS"

definition catalog_rename :: "string \<Rightarrow> string \<Rightarrow> int" where
  "catalog_rename source dest = - EROFS"

definition catalog_chmod :: "string \<Rightarrow> mode_t \<Rightarrow> int" where
  "catalog_chmod path mode = - EROFS"

definition catalog_chown :: "string \<Rightarrow> 32 word \<Rightarrow> 32 word \<Rightarrow> int" where
  "catalog_chown path uid gid = - EROFS"

definition catalog_truncate :: "string \<Rightarrow> off_t \<Rightarrow> int" where
  "catalog_truncate path sz = - EROFS"

definition catalog_utimens :: "string \<Rightarrow> 64 word \<times> 64 word \<Rightarrow> int" where
  "catalog_utimens path tv = - EROFS"

definition catalog_release :: "string \<Rightarrow> int" where
  "catalog_release path = 0"

definition catalog_releasedir :: "string \<Rightarrow> int" where
  "catalog_releasedir path = 0"

definition catalog_fsync :: "string \<Rightarrow> int \<Rightarrow> int" where
  "catalog_fsync path datasync = 0"

definition catalog_fsyncdir :: "string \<Rightarrow> int \<Rightarrow> int" where
  "catalog_fsyncdir path datasync = 0"

definition catalog_setxattr :: "string \<Rightarrow> string \<Rightarrow> string \<Rightarrow> size_t \<Rightarrow> int \<Rightarrow> int" where
  "catalog_setxattr path name value sz flags = - EROFS"

definition catalog_getxattr :: "string \<Rightarrow> string \<Rightarrow> size_t \<Rightarrow> int" where
  "catalog_getxattr path name sz = 0"

definition catalog_listxattr :: "string \<Rightarrow> size_t \<Rightarrow> int" where
  "catalog_listxattr path sz = 0"

definition catalog_removexattr :: "string \<Rightarrow> string \<Rightarrow> int" where
  "catalog_removexattr path name = - EROFS"

definition catalog_access :: "string \<Rightarrow> int \<Rightarrow> int" where
  "catalog_access path mode = 0"

definition catalog_open :: "string \<Rightarrow> int" where
  "catalog_open path = - EPERM"

definition catalog_read :: "string \<Rightarrow> size_t \<Rightarrow> off_t \<Rightarrow> int" where
  "catalog_read path sz offset = - EPERM"

definition catalog_write :: "string \<Rightarrow> string \<Rightarrow> size_t \<Rightarrow> off_t \<Rightarrow> int" where
  "catalog_write path buf sz offset = - EROFS"

definition catalog_opendir :: "string \<Rightarrow> int" where
  "catalog_opendir path = 0"

record statvfs =
  f_bsize :: nat
  f_frsize :: nat
  f_blocks :: nat
  f_bfree :: nat
  f_bavail :: nat
  f_files :: nat
  f_ffree :: nat
  f_favail :: nat
  f_fsid :: nat
  f_flag :: nat
  f_namemax :: nat

definition ST_RDONLY :: nat where "ST_RDONLY = 1"
definition ST_NOSUID :: nat where "ST_NOSUID = 2"
definition ST_NODEV :: nat where "ST_NODEV = 4"
definition ST_NOEXEC :: nat where "ST_NOEXEC = 8"

definition catalog_statfs :: "string \<Rightarrow> int \<times> statvfs" where
  "catalog_statfs path =
     (0, \<lparr>f_bsize = 0, f_frsize = 0, f_blocks = 0, f_bfree = 0, f_bavail = 0, f_files = 0,
          f_ffree = 0, f_favail = 0, f_fsid = 0,
          f_flag = or (or (or ST_RDONLY ST_NOSUID) ST_NODEV) ST_NOEXEC, f_namemax = 255\<rparr>)"

section \<open>Attributes\<close>

text \<open>What \<open>memset(st_data, 0, \<dots>)\<close> leaves.\<close>

definition stat_zero :: stat where
  "stat_zero = \<lparr>st_mode = 0, st_nlink = 0, st_uid = 0, st_gid = 0, st_size = 0, st_atime = 0,
                st_mtime = 0, st_ctime = 0\<rparr>"

text \<open>The return value and the record behind the pointer, which is left as it was on failure.\<close>

definition getattr_by_location :: "mount \<Rightarrow> int \<Rightarrow> stat \<Rightarrow> (int \<times> stat) res" where
  "getattr_by_location m location st_data =
     bind_res (getEntry_from_catalog m location)
       (\<lambda>r. case r of None \<Rightarrow> Inr (- ENOENT, st_data) | Some w \<Rightarrow> Inr (0, wdf_st_data w))"

definition binSearch_path :: "mount \<Rightarrow> int \<Rightarrow> string \<Rightarrow> int res" where
  "binSearch_path m umid path = binSearch (getEntry_depth_filepath m) (catalog_len m) umid path"

definition getattr_by_path :: "mount \<Rightarrow> int \<Rightarrow> string \<Rightarrow> stat \<Rightarrow> (int \<times> stat) res" where
  "getattr_by_path m umid path st_data =
     bind_res (binSearch_path m umid path) (\<lambda>location.
       if location < 0 then Inr (- ENOENT, st_data)
       else bind_res (getattr_by_location m location st_data)
              (\<lambda>(ret_val, st). if ret_val < 0 then Inr (- ENOENT, st) else Inr (0, st)))"

definition catalog_getattr :: "mount \<Rightarrow> int \<Rightarrow> string \<Rightarrow> (int \<times> stat) res" where
  "catalog_getattr m umid path = getattr_by_path m umid path stat_zero"

section \<open>Directories\<close>

text \<open>
  A \<open>filler\<close> puts a name with its attributes into the buffer; a non-zero result says the buffer is
  full. The loop counter of \<open>catalog_readdir\<close> is an \<open>int\<close>, so counting past \<open>INT_MAX\<close> is
  undefined.
\<close>

type_synonym 'b filler = "'b \<Rightarrow> string \<Rightarrow> stat option \<Rightarrow> 'b \<times> int"

function readdir_loop :: "mount \<Rightarrow> 'b filler \<Rightarrow> 'b \<Rightarrow> int \<Rightarrow> int \<Rightarrow> 'b res" where
  "readdir_loop m filler buf location high =
     (if location \<le> high then
        bind_res (getattr_by_location m location stat_zero) (\<lambda>(ret_val, st).
          bind_res (getEntry_filepath m location) (\<lambda>pathname.
            let (buf', full) =
              (case pathname of
                 None \<Rightarrow> (buf, 0)
               | Some p \<Rightarrow> if ret_val \<ge> 0 then filler buf (basename p) (Some st) else (buf, 0))
            in if full \<noteq> 0 then Inr buf'
               else if location = INT_MAX then Inl Undefined
               else readdir_loop m filler buf' (location + 1) high))
      else Inr buf)"
  by pat_completeness auto
termination
  by (relation "measure (\<lambda>(m, f, b, location, high). nat (high - location + 1))") auto

declare readdir_loop.simps [simp del]

text \<open>
  \<open>catalog_readdir\<close> appends a slash to its argument in place. \<open>cap\<close> is the size of the buffer that
  holds the path, with its terminating NUL: without room for one more byte the call writes behind it.
\<close>

definition catalog_readdir ::
  "mount \<Rightarrow> int \<Rightarrow> 'b filler \<Rightarrow> 'b \<Rightarrow> string \<Rightarrow> nat \<Rightarrow> (int \<times> 'b) res" where
  "catalog_readdir m umid filler buf path cap =
     (let buf1 = fst (filler buf ''.'' None); buf2 = fst (filler buf1 ''..'' None) in
      if strcmp path ''/'' \<noteq> 0 \<and> cap < length path + 2 then Inl Undefined
      else let path' = (if strcmp path ''/'' \<noteq> 0 then path @ ''/'' else path) in
        bind_res (get_directory_contents (getEntry_depth_filepath m) (catalog_len m) umid path')
          (\<lambda>(ret_val, low, high).
             if ret_val < 0 then Inr (- ENOENT, buf2)
             else case (low, high) of
               (Some low_index, Some high_index) \<Rightarrow>
                 if low_index < 0 \<or> high_index < 0 then Inr (- ENOENT, buf2)
                 else bind_res (readdir_loop m filler buf2 (wrap32 (low_index + 1)) high_index)
                        (\<lambda>buf3. Inr (0, buf3))
             | _ \<Rightarrow> Inl Undefined))"

section \<open>Links\<close>

text \<open>The return value and the \<open>size - 1\<close> bytes that \<open>strncpy\<close> stores into the caller's buffer.\<close>

definition catalog_readlink :: "mount \<Rightarrow> int \<Rightarrow> string \<Rightarrow> nat \<Rightarrow> (int \<times> string option) res" where
  "catalog_readlink m umid path sz =
     bind_res (binSearch_path m umid path) (\<lambda>location.
       if location < 0 then Inr (- ENOENT, None)
       else bind_res (getEntry_from_catalog m location) (\<lambda>r. case r of
         None \<Rightarrow> Inr (- ENOENT, None)
       | Some w \<Rightarrow>
           (case wdf_link_dest w of
              None \<Rightarrow> Inl Undefined
            | Some dest \<Rightarrow>
                if sz = 0 then Inl Undefined else Inr (0, Some (strncpy dest (sz - 1))))))"

section \<open>The operation table and \<open>main\<close>\<close>

definition catalog_destroy :: "mount \<Rightarrow> mount" where
  "catalog_destroy m = m"

datatype request =
  Getattr string | Access string int | Open string | Read string size_t off_t
| Write string string size_t off_t | Rename string string | Statfs string | Release string
| Releasedir string | Fsync string int | Fsyncdir string int | Opendir string | Readdir string nat
| Mkdir string mode_t | Rmdir string | Link string string | Readlink string nat
| Symlink string string | Unlink string | Mknod string mode_t dev_t | Chmod string mode_t
| Chown string "32 word" "32 word" | Utimens string "64 word \<times> 64 word" | Truncate string off_t
| Setxattr string string string size_t int | Getxattr string string size_t | Listxattr string size_t
| Removexattr string string

datatype 'b reply =
  Ret int | RetStat int stat | RetDir int 'b | RetBytes int "string option" | RetFs int statvfs

text \<open>The table \<open>catalog_operations\<close>: which function answers which request.\<close>

fun catalog_operations :: "mount \<Rightarrow> int \<Rightarrow> 'b filler \<Rightarrow> 'b \<Rightarrow> request \<Rightarrow> 'b reply res" where
  "catalog_operations m umid filler buf (Getattr p) =
     bind_res (catalog_getattr m umid p) (\<lambda>(r, st). Inr (RetStat r st))"
| "catalog_operations m umid filler buf (Access p md) = Inr (Ret (catalog_access p md))"
| "catalog_operations m umid filler buf (Open p) = Inr (Ret (catalog_open p))"
| "catalog_operations m umid filler buf (Read p n off) = Inr (Ret (catalog_read p n off))"
| "catalog_operations m umid filler buf (Write p b n off) = Inr (Ret (catalog_write p b n off))"
| "catalog_operations m umid filler buf (Rename p q) = Inr (Ret (catalog_rename p q))"
| "catalog_operations m umid filler buf (Statfs p) =
     (let (r, sf) = catalog_statfs p in Inr (RetFs r sf))"
| "catalog_operations m umid filler buf (Release p) = Inr (Ret (catalog_release p))"
| "catalog_operations m umid filler buf (Releasedir p) = Inr (Ret (catalog_releasedir p))"
| "catalog_operations m umid filler buf (Fsync p n) = Inr (Ret (catalog_fsync p n))"
| "catalog_operations m umid filler buf (Fsyncdir p n) = Inr (Ret (catalog_fsyncdir p n))"
| "catalog_operations m umid filler buf (Opendir p) = Inr (Ret (catalog_opendir p))"
| "catalog_operations m umid filler buf (Readdir p cap) =
     bind_res (catalog_readdir m umid filler buf p cap) (\<lambda>(r, b). Inr (RetDir r b))"
| "catalog_operations m umid filler buf (Mkdir p md) = Inr (Ret (catalog_mkdir p md))"
| "catalog_operations m umid filler buf (Rmdir p) = Inr (Ret (catalog_rmdir p))"
| "catalog_operations m umid filler buf (Link p q) = Inr (Ret (catalog_link p q))"
| "catalog_operations m umid filler buf (Readlink p n) =
     bind_res (catalog_readlink m umid p n) (\<lambda>(r, b). Inr (RetBytes r b))"
| "catalog_operations m umid filler buf (Symlink p q) = Inr (Ret (catalog_symlink p q))"
| "catalog_operations m umid filler buf (Unlink p) = Inr (Ret (catalog_unlink p))"
| "catalog_operations m umid filler buf (Mknod p md dev) = Inr (Ret (catalog_mknod p md dev))"
| "catalog_operations m umid filler buf (Chmod p md) = Inr (Ret (catalog_chmod p md))"
| "catalog_operations m umid filler buf (Chown p u g) = Inr (Ret (catalog_chown p u g))"
| "catalog_operations m umid filler buf (Utimens p tv) = Inr (Ret (catalog_utimens p tv))"
| "catalog_operations m umid filler buf (Truncate p n) = Inr (Ret (catalog_truncate p n))"
| "catalog_operations m umid filler buf (Setxattr p nm v n fl) =
     Inr (Ret (catalog_setxattr p nm v n fl))"
| "catalog_operations m umid filler buf (Getxattr p nm n) = Inr (Ret (catalog_getxattr p nm n))"
| "catalog_operations m umid filler buf (Listxattr p n) = Inr (Ret (catalog_listxattr p n))"
| "catalog_operations m umid filler buf (Removexattr p nm) = Inr (Ret (catalog_removexattr p nm))"

text \<open>
  \<open>main\<close>: the three environment variables, the checks on them, and then either \<open>exit(1)\<close> or the
  global state with which \<open>fuse_main\<close> is called. A variable that is not set leaves its global
  variable at the 0 it is initialised with.
\<close>

definition main :: "(string \<rightharpoonup> string) \<Rightarrow> (string \<rightharpoonup> inode) \<Rightarrow> mount res" where
  "main env files =
     (let err1 = (env ''CATALOGFS_CATALOG'' = None) in
      bind_res (case env ''CATALOGFS_ENTRY_SIZE'' of None \<Rightarrow> Inr (True, 0)
                | Some s \<Rightarrow> bind_res (atoi s) (\<lambda>n. Inr (err1, n))) (\<lambda>(err2, esize).
      bind_res (case env ''CATALOGFS_CATALOG_LEN'' of None \<Rightarrow> Inr (True, 0)
                | Some s \<Rightarrow> bind_res (atol s) (\<lambda>n. Inr (err2, n))) (\<lambda>(err3, clen).
        let err4 = (err3 \<or> esize < 13); err5 = (err4 \<or> clen \<le> 0) in
        if err5 then Inl (Exits 1)
        else case env ''CATALOGFS_CATALOG'' of
               None \<Rightarrow> Inl (Exits 1)
             | Some file_name \<Rightarrow>
                 Inr \<lparr>entry_size = esize, catalog_len = clen, catalogFile = file_name,
                      disk = files\<rparr>)))"

section \<open>Reference definitions\<close>

text \<open>Filling a buffer with a list of names until it is full.\<close>

fun fill_all :: "'b filler \<Rightarrow> 'b \<Rightarrow> (string \<times> stat option) list \<Rightarrow> 'b" where
  "fill_all filler buf [] = buf"
| "fill_all filler buf ((name, st) # es) =
     (let (buf', full) = filler buf name st in if full \<noteq> 0 then buf' else fill_all filler buf' es)"

text \<open>The name and attributes that a listing shows for the entry at a location.\<close>

definition dir_item :: "mount \<Rightarrow> int \<Rightarrow> string \<times> stat option" where
  "dir_item m i =
     (let w = catalog_entries m ! nat i in (basename (wdf_file_path w), Some (wdf_st_data w)))"

definition dir_path :: "string \<Rightarrow> string" where
  "dir_path p = (if p = ''/'' then p else p @ ''/'')"

text \<open>The requests that would change the file system.\<close>

fun modifies :: "request \<Rightarrow> bool" where
  "modifies (Write p b n off) = True"
| "modifies (Rename p q) = True"
| "modifies (Mkdir p md) = True"
| "modifies (Rmdir p) = True"
| "modifies (Link p q) = True"
| "modifies (Symlink p q) = True"
| "modifies (Unlink p) = True"
| "modifies (Mknod p md dev) = True"
| "modifies (Chmod p md) = True"
| "modifies (Chown p u g) = True"
| "modifies (Utimens p tv) = True"
| "modifies (Truncate p n) = True"
| "modifies (Setxattr p nm v n fl) = True"
| "modifies (Removexattr p nm) = True"
| "modifies _ = False"

text \<open>A small catalogue for the witnesses: a directory, a file and a link in the directory.\<close>

definition padded_line :: "nat \<Rightarrow> string \<Rightarrow> string \<Rightarrow> string" where
  "padded_line n attrs path =
     (let s = attrs @ [SOH] @ path in s @ replicate (n - 1 - length s) SOH @ [LF])"

definition ex_mount :: mount where
  "ex_mount =
     \<lparr>entry_size = 40, catalog_len = 5, catalogFile = ''/c'',
      disk = [''/c'' \<mapsto> Reg
        (padded_line 40 ''d 755 2 0 0 0 1 1 1 1 '' ''/'' @
         padded_line 40 ''d 755 2 0 0 0 1 1 1 1 '' ''/a'' @
         padded_line 40 ''f 644 1 5 6 7 1 2 3 1 '' ''/b'' @
         padded_line 40 ''d 755 2 0 0 0 1 1 1 2 '' ''/a/'' @
         padded_line 40 ''l 777 1 0 0 0 1 1 1 2 '' (''/a/l'' @ [STX] @ ''../b''))]\<rparr>"

text \<open>A filler that keeps every name and never reports a full buffer.\<close>

definition record_name :: "string list filler" where
  "record_name buf name st = (buf @ [name], 0)"

section \<open>Laws\<close>

lemma ex_mount_wf: "catalog_wf ex_mount"
  by code_simp

lemma ex_mount_sorted: "catalog_sorted ex_mount"
  by code_simp

lemma cstr_strncpy: "NUL \<notin> set s \<Longrightarrow> length s < n \<Longrightarrow> cstr (strncpy s n) = s"
proof -
  assume a: "NUL \<notin> set s" "length s < n"
  then obtain k where "replicate (n - length s) NUL = NUL # k"
    by (metis Suc_diff_Suc replicate_Suc)
  with a show ?thesis
    by (simp add: strncpy_def cstr_def takeWhile_append)
qed

lemma getEntry_filepath_wf:
  "catalog_wf m \<Longrightarrow> 0 \<le> i \<Longrightarrow> i < catalog_len m \<Longrightarrow>
     getEntry_filepath m i = Inr (Some (wdf_file_path (catalog_entries m ! nat i)))"
  by (simp add: getEntry_filepath_def getEntry_depth_filepath_wf nth_catalog_keys nat_less_iff)

lemma getattr_by_location_wf:
  "catalog_wf m \<Longrightarrow> 0 \<le> i \<Longrightarrow> i < catalog_len m \<Longrightarrow>
     getattr_by_location m i st = Inr (0, wdf_st_data (catalog_entries m ! nat i))"
  by (simp add: getattr_by_location_def getEntry_from_catalog_wf)

lemma linear_search_cases:
  "linear_search es k i = -1 \<or> (\<exists>j<length es. linear_search es k i = i + int j \<and> es ! j = k)"
proof (induction es arbitrary: i)
  case Nil
  then show ?case by simp
next
  case (Cons e es)
  show ?case
  proof (cases "e = k")
    case True
    then show ?thesis by auto
  next
    case False
    with Cons.IH [of "i + 1"] show ?thesis
      by (metis (no_types, opaque_lifting) Suc_less_eq add.assoc add.commute length_Cons
          linear_search.simps(2) nth_Cons_Suc of_nat_Suc)
  qed
qed

lemma lookup_path_cases:
  obtains "lookup_path es p = -1"
    | j where "j < length es" "lookup_path es p = int j" "es ! j = (findDepth p, p)" "0 < findDepth p"
  using linear_search_cases [of es "(findDepth p, p)" 0]
  by (cases "findDepth p \<le> 0") (auto simp: lookup_path_def)

lemma readdir_loop_wf:
  assumes "catalog_wf m" "0 \<le> location" "high < catalog_len m"
  shows "readdir_loop m filler buf location high =
           Inr (fill_all filler buf (map (dir_item m) [location..high]))"
  using assms
proof (induction m filler buf location high rule: readdir_loop.induct)
  case (1 m filler buf location high)
  note unfold = readdir_loop.simps [of m filler buf location high]
  show ?case
  proof (cases "location \<le> high")
    case False
    then show ?thesis by (simp add: unfold)
  next
    case True
    let ?w = "catalog_entries m ! nat location"
    obtain buf' full where f: "filler buf (basename (wdf_file_path ?w)) (Some (wdf_st_data ?w)) = (buf', full)"
      by fastforce
    have max: "location \<noteq> INT_MAX"
      using catalog_wf_len_int [OF "1.prems"(1)] "1.prems"(3) True by (auto simp: in_int_def)
    have at: "getattr_by_location m location stat_zero = Inr (0, wdf_st_data ?w)"
      "getEntry_filepath m location = Inr (Some (wdf_file_path ?w))"
      using "1.prems" True by (simp_all add: getattr_by_location_wf getEntry_filepath_wf)
    have step: "readdir_loop m filler buf location high =
        (if full \<noteq> 0 then Inr buf' else readdir_loop m filler buf' (location + 1) high)"
      using True max by (simp add: unfold at f)
    have list: "map (dir_item m) [location..high] =
        (basename (wdf_file_path ?w), Some (wdf_st_data ?w)) # map (dir_item m) [location + 1..high]"
      using True by (simp add: upto_rec1 dir_item_def Let_def)
    show ?thesis
    proof (cases "full = 0")
      case False
      then show ?thesis
        by (simp add: step list f)
    next
      case go: True
      have "readdir_loop m filler buf' (location + 1) high =
          Inr (fill_all filler buf' (map (dir_item m) [location + 1..high]))"
        by (rule "1.IH" [OF True at(1) refl at(2)]) (use go max f "1.prems" in auto)
      with go show ?thesis
        by (simp add: step list f)
    qed
  qed
qed

lemma strcmp_root [simp]: "NUL \<notin> set p \<Longrightarrow> strcmp p ''/'' = 0 \<longleftrightarrow> p = ''/''"
  by (simp add: strcmp_eq_0)

lemma getattr_wf:
  assumes "catalog_wf m" "catalog_sorted m" "NUL \<notin> set path"
  shows "catalog_getattr m umid path =
           (let i = lookup_path (catalog_keys m) path
            in if i < 0 then Inr (- ENOENT, stat_zero)
               else Inr (0, wdf_st_data (catalog_entries m ! nat i)))"
proof -
  have search: "binSearch_path m umid path = Inr (lookup_path (catalog_keys m) path)"
    unfolding binSearch_path_def using assms by (intro scat.binSearch_eq_lookup) auto
  show ?thesis
    by (cases rule: lookup_path_cases [of "catalog_keys m" path])
      (use assms(1) in \<open>simp_all add: catalog_getattr_def getattr_by_path_def search
        getattr_by_location_wf nat_less_iff\<close>)
qed

lemma getattr_lost: "binSearch_path m umid path = Inr (-1) \<Longrightarrow> catalog_getattr m umid path = Inr (- ENOENT, stat_zero)"
  by (simp add: catalog_getattr_def getattr_by_path_def)

text \<open>A catalogue with the depths in order that is not sorted loses one of its files.\<close>

lemma unsorted_loses:
  assumes "catalog_wf m" "sorted (map fst (catalog_keys m))" "distinct (catalog_keys m)" "\<not> catalog_sorted m"
    and "\<forall>e\<in>set (catalog_keys m). fst e = findDepth (snd e) \<and> 0 < fst e"
  shows "\<exists>e\<in>set (catalog_keys m). catalog_getattr m umid (snd e) = Inr (- ENOENT, stat_zero)"
  using lcat.complete_search_sorts [of m umid] assms getattr_lost unfolding catalog_sorted_def binSearch_path_def by blast

lemma readdir_wf:
  assumes "catalog_wf m" "catalog_sorted m" "NUL \<notin> set path" "0 < findDepth (dir_path path)"
    and "path = ''/'' \<or> length path + 2 \<le> cap" "(findDepth (dir_path path), dir_path path) \<in> set (catalog_keys m)"
  shows "catalog_readdir m umid filler buf path cap =
           Inr (0, fill_all filler (fst (filler (fst (filler buf ''.'' None)) ''..'' None))
                     (map (dir_item m) (dir_locations (catalog_keys m) (dir_path path))))"
proof -
  let ?p = "dir_path path"
  obtain k where k: "k < nat (catalog_len m)" "catalog_keys m ! k = (findDepth ?p, ?p)"
    using assms(6) by (auto simp: in_set_conv_nth)
  have kl: "int k < catalog_len m"
    using k(1) by linarith
  have p: "NUL \<notin> set ?p" "?p \<noteq> []" "last ?p = slash"
    using assms(3) by (auto simp: dir_path_def)
  obtain high where high:
    "get_directory_contents (getEntry_depth_filepath m) (catalog_len m) umid ?p = Inr (0, Some (int k), Some high)"
    "int k \<le> high" "high < catalog_len m" "dir_locations (catalog_keys m) ?p = [int k + 1..high]"
    using scat.get_directory_contents_lists [of m ?p "int k" umid] assms(1,2,4) p k kl by auto
  have "in_int (int k + 1)"
    using in_int_between [OF _ _ catalog_wf_len_int [OF assms(1)], of "int k + 1"] high by simp
  then have loop: "readdir_loop m filler b (wrap32 (int k + 1)) high =
      Inr (fill_all filler b (map (dir_item m) [int k + 1..high]))" for b
    using readdir_loop_wf [OF assms(1), of "int k + 1" high filler b] high by simp
  have "get_directory_contents (getEntry_depth_filepath m) (catalog_len m) umid
      (if strcmp path ''/'' \<noteq> 0 then path @ ''/'' else path) = Inr (0, Some (int k), Some high)"
    using high(1) assms(3) by (auto simp: dir_path_def)
  then show ?thesis
    using assms(3,5) high(2,4) by (auto simp: catalog_readdir_def Let_def loop)
qed

lemma readlink_wf:
  assumes "catalog_wf m" "catalog_sorted m" "NUL \<notin> set path" "0 < findDepth path"
    and "i < nat (catalog_len m)" "catalog_keys m ! i = (findDepth path, path)"
    and "wdf_link_dest (catalog_entries m ! i) = Some dest" "NUL \<notin> set dest" "length dest + 1 < sz"
  shows "\<exists>bytes. catalog_readlink m umid path sz = Inr (0, Some bytes) \<and> length bytes = sz - 1 \<and>
           cstr bytes = dest"
proof -
  have i: "int i < catalog_len m"
    using assms(5) by linarith
  then have "binSearch_path m umid path = Inr (int i)"
    unfolding binSearch_path_def using scat.binSearch_finds [of m path "int i" umid] assms by simp
  then have "catalog_readlink m umid path sz = Inr (0, Some (strncpy dest (sz - 1)))"
    using assms i by (simp add: catalog_readlink_def getEntry_from_catalog_wf)
  moreover have "length (strncpy dest (sz - 1)) = sz - 1"
    using assms(9) by (simp add: strncpy_def)
  ultimately show ?thesis
    using cstr_strncpy [of dest "sz - 1"] assms(8,9) by auto
qed

section \<open>Properties\<close>

text \<open>C18: on a well-formed and sorted catalogue, the two-phase binary search is the linear search:
  it returns the location of the entry with the path and its depth, and -1 when there is none.\<close>

theorem binSearch_is_lookup:
  assumes "catalog_wf m" "catalog_sorted m" "NUL \<notin> set path"
  shows "binSearch_path m umid path = Inr (lookup_path (catalog_keys m) path)"
  unfolding binSearch_path_def using assms by (intro scat.binSearch_eq_lookup) auto

theorem binSearch_is_lookup_witness:
  "binSearch_path ex_mount 0 ''/a/l'' = Inr 4"
  using binSearch_is_lookup [OF ex_mount_wf ex_mount_sorted, of "''/a/l''" 0] by code_simp

text \<open>C19: on a well-formed and sorted catalogue, \<open>getattr\<close> answers with the attributes of the
  entry of exactly this path, and with \<open>ENOENT\<close> and a zeroed record when the path is not listed.\<close>

theorem catalog_getattr_spec:
  assumes "catalog_wf m" "catalog_sorted m" "NUL \<notin> set path"
  shows "catalog_getattr m umid path =
           (let i = lookup_path (catalog_keys m) path
            in if i < 0 then Inr (- ENOENT, stat_zero)
               else Inr (0, wdf_st_data (catalog_entries m ! nat i)))"
  using assms by (rule getattr_wf)

theorem catalog_getattr_spec_witness:
  "catalog_getattr ex_mount 0 ''/a/l'' = Inr (0, wdf_st_data (catalog_entries ex_mount ! 4)) \<and>
   catalog_getattr ex_mount 0 ''/a/m'' = Inr (- ENOENT, stat_zero)"
  using catalog_getattr_spec [OF ex_mount_wf ex_mount_sorted, of "''/a/l''" 0]
    catalog_getattr_spec [OF ex_mount_wf ex_mount_sorted, of "''/a/m''" 0] by code_simp

text \<open>Whatever the order of the lines, a successful \<open>getattr\<close> returns the attributes of an
  entry of the requested path, and every other answer is \<open>ENOENT\<close>: no path ever gets the
  attributes of another.\<close>

theorem catalog_getattr_sound:
  assumes "catalog_wf m" "NUL \<notin> set path"
  shows "catalog_getattr m umid path = Inr (- ENOENT, stat_zero) \<or>
         (\<exists>w \<in> set (catalog_entries m). wdf_file_path w = path \<and> wdf_depth w = findDepth path \<and>
            catalog_getattr m umid path = Inr (0, wdf_st_data w))"
proof -
  obtain r where r: "binSearch_path m umid path = Inr r"
    "r = -1 \<or> 0 \<le> r \<and> r < catalog_len m \<and> catalog_keys m ! nat r = (findDepth path, path)"
    unfolding binSearch_path_def using cat.binSearch_returns [OF assms] by blast
  show ?thesis
  proof (cases "r = -1")
    case True
    with r(1) show ?thesis
      by (simp add: catalog_getattr_def getattr_by_path_def)
  next
    case False
    with r(2) have i: "0 \<le> r" "r < catalog_len m" "catalog_keys m ! nat r = (findDepth path, path)"
      by auto
    then have "catalog_entries m ! nat r \<in> set (catalog_entries m)"
      by (auto simp: nat_less_iff intro!: nth_mem)
    moreover have "catalog_getattr m umid path = Inr (0, wdf_st_data (catalog_entries m ! nat r))"
      using i assms(1) by (simp add: catalog_getattr_def getattr_by_path_def r(1) getattr_by_location_wf)
    moreover have "wdf_file_path (catalog_entries m ! nat r) = path"
      "wdf_depth (catalog_entries m ! nat r) = findDepth path"
      using i by (auto simp: nth_catalog_keys nat_less_iff)
    ultimately show ?thesis by blast
  qed
qed

theorem catalog_getattr_sound_witness:
  "catalog_getattr ex_mount 0 ''/b'' = Inr (- ENOENT, stat_zero) \<or>
   (\<exists>w \<in> set (catalog_entries ex_mount). wdf_file_path w = ''/b'' \<and> wdf_depth w = findDepth ''/b'' \<and>
      catalog_getattr ex_mount 0 ''/b'' = Inr (0, wdf_st_data w))"
  by (rule catalog_getattr_sound [OF ex_mount_wf]) simp

text \<open>C20: on a well-formed and sorted catalogue, listing a catalogued directory, which is the root or whose
  path has a spare byte in its buffer, fills the buffer of entries with \<open>.\<close>, \<open>..\<close> and then, until that
  buffer is full, the base name and attributes of each entry of the directory, in catalogue order and nothing
  else.\<close>

theorem catalog_readdir_lists:
  assumes "catalog_wf m" "catalog_sorted m" "NUL \<notin> set path" "0 < findDepth (dir_path path)"
    and "path = ''/'' \<or> length path + 2 \<le> cap" "(findDepth (dir_path path), dir_path path) \<in> set (catalog_keys m)"
  shows "catalog_readdir m umid filler buf path cap =
           Inr (0, fill_all filler (fst (filler (fst (filler buf ''.'' None)) ''..'' None))
                     (map (dir_item m) (dir_locations (catalog_keys m) (dir_path path))))"
  using assms by (rule readdir_wf)

theorem catalog_readdir_lists_witness:
  "catalog_readdir ex_mount 0 record_name [] ''/a'' 4 = Inr (0, [''.'', ''..'', ''l''])"
proof -
  have dir: "dir_path ''/a'' = ''/a/''" "0 < findDepth ''/a/''"
    "(findDepth ''/a/'', ''/a/'') \<in> set (catalog_keys ex_mount)"
    by code_simp+
  have "catalog_readdir ex_mount 0 record_name [] ''/a'' 4 =
      Inr (0, fill_all record_name
        (fst (record_name (fst (record_name [] ''.'' None)) ''..'' None))
        (map (dir_item ex_mount) (dir_locations (catalog_keys ex_mount) (dir_path ''/a''))))"
    by (rule catalog_readdir_lists [OF ex_mount_wf ex_mount_sorted]) (simp_all add: dir)
  also have "\<dots> = Inr (0, [''.'', ''..'', ''l''])"
    by code_simp
  finally show ?thesis .
qed

text \<open>\<open>readdir\<close> of any path but the root writes behind the path when its buffer has no spare
  byte, which is how \<open>get_path_name\<close> of libfuse allocates it (\<open>strdup\<close>).\<close>

theorem catalog_readdir_overruns_exact_buffer:
  assumes "NUL \<notin> set path" "path \<noteq> ''/''"
  shows "catalog_readdir m umid filler buf path (length path + 1) = Inl Undefined"
  using assms by (simp add: catalog_readdir_def Let_def)

theorem catalog_readdir_overruns_exact_buffer_witness:
  "catalog_readdir ex_mount 0 record_name [] ''/a'' 3 = Inl Undefined"
  using catalog_readdir_overruns_exact_buffer [of "''/a''" ex_mount 0 record_name "[]"]
  by (simp add: numeral_3_eq_3)

text \<open>Every request that would change the file system is answered with \<open>EROFS\<close>, and opening
  or reading a file with \<open>EPERM\<close>, whatever the catalogue holds.\<close>

theorem catalog_read_only:
  shows "(modifies req \<longrightarrow> catalog_operations m umid filler buf req = Inr (Ret (- EROFS))) \<and>
         (req = Open p \<or> req = Read p n off \<longrightarrow>
            catalog_operations m umid filler buf req = Inr (Ret (- EPERM)))"
  by (cases req)
    (simp_all add: catalog_write_def catalog_rename_def catalog_mkdir_def catalog_rmdir_def
      catalog_link_def catalog_symlink_def catalog_unlink_def catalog_mknod_def catalog_chmod_def
      catalog_chown_def catalog_utimens_def catalog_truncate_def catalog_setxattr_def
      catalog_removexattr_def catalog_open_def catalog_read_def)

theorem catalog_read_only_witness:
  "modifies (Unlink ''/a/l'') \<and>
   catalog_operations ex_mount 0 record_name [] (Unlink ''/a/l'') = Inr (Ret (- 30))"
  using catalog_read_only [of "Unlink ''/a/l''" ex_mount 0 record_name "[]"] by (simp add: EROFS_def)

text \<open>On a well-formed and sorted catalogue, \<open>readlink\<close> of a catalogued link stores the link
  destination as a terminated string whenever it fits the buffer.\<close>

theorem catalog_readlink_spec:
  assumes "catalog_wf m" "catalog_sorted m" "NUL \<notin> set path" "0 < findDepth path"
    and "i < nat (catalog_len m)" "catalog_keys m ! i = (findDepth path, path)"
    and "wdf_link_dest (catalog_entries m ! i) = Some dest" "NUL \<notin> set dest" "length dest + 1 < sz"
  shows "\<exists>bytes. catalog_readlink m umid path sz = Inr (0, Some bytes) \<and> length bytes = sz - 1 \<and>
           cstr bytes = dest"
  using assms by (rule readlink_wf)

theorem catalog_readlink_spec_witness:
  "\<exists>bytes. catalog_readlink ex_mount 0 ''/a/l'' 8 = Inr (0, Some bytes) \<and> length bytes = 7 \<and>
     cstr bytes = ''../b''"
proof -
  have e: "catalog_keys ex_mount ! 4 = (findDepth ''/a/l'', ''/a/l'')" "0 < findDepth ''/a/l''"
    "4 < nat (catalog_len ex_mount)" "wdf_link_dest (catalog_entries ex_mount ! 4) = Some ''../b''"
    by code_simp+
  show ?thesis
    using catalog_readlink_spec [OF ex_mount_wf ex_mount_sorted _ e(2,3,1,4), of 8 0] by simp
qed

text \<open>\<open>main\<close> starts the file system exactly when all three variables are set and hold an entry
  size of at least 13 and a positive number of entries; it then serves the named catalogue.\<close>

theorem main_starts_iff:
  "main env files = Inr m \<longleftrightarrow>
     (\<exists>s l. env ''CATALOGFS_ENTRY_SIZE'' = Some s \<and> env ''CATALOGFS_CATALOG_LEN'' = Some l \<and>
        env ''CATALOGFS_CATALOG'' = Some (catalogFile m) \<and> atoi s = Inr (entry_size m) \<and>
        atol l = Inr (catalog_len m) \<and> disk m = files \<and> 13 \<le> entry_size m \<and> 0 < catalog_len m)"
  (is "_ \<longleftrightarrow> ?set")
proof
  assume "main env files = Inr m"
  then show ?set
    by (auto simp: main_def Let_def bind_res_eq_Inr split: option.splits if_splits)
next
  assume ?set
  then show "main env files = Inr m"
    by (cases m) (auto simp: main_def Let_def)
qed

text \<open>The requests that libfuse may send: terminated paths, room for the slash of \<open>readdir\<close> and for a
  terminator in \<open>readlink\<close>.\<close>

definition request_ok :: "request \<Rightarrow> bool" where
  "request_ok req =
     (case req of
        Getattr p \<Rightarrow> NUL \<notin> set p
      | Readdir p cap \<Rightarrow> NUL \<notin> set p \<and> (p = ''/'' \<or> length p + 2 \<le> cap)
      | Readlink p sz \<Rightarrow> NUL \<notin> set p \<and> 0 < sz
      | _ \<Rightarrow> True)"

lemma search_returns:
  assumes "catalog_wf m" "NUL \<notin> set p"
  obtains "binSearch_path m umid p = Inr (-1)"
    | i where "binSearch_path m umid p = Inr i" "0 \<le> i" "i < catalog_len m"
  using cat.binSearch_returns [OF assms, of umid] unfolding binSearch_path_def by auto

lemma getattr_returns:
  assumes "catalog_wf m" "NUL \<notin> set p"
  shows "\<exists>a. catalog_getattr m umid p = Inr a"
  by (cases rule: search_returns [OF assms, of umid])
    (use assms in \<open>simp_all add: catalog_getattr_def getattr_by_path_def getattr_by_location_wf\<close>)

lemma readlink_returns:
  assumes "catalog_wf m" "NUL \<notin> set p" "\<forall>w\<in>set (catalog_entries m). wdf_link_dest w \<noteq> None" "0 < sz"
  shows "\<exists>a. catalog_readlink m umid p sz = Inr a"
proof (cases rule: search_returns [OF assms(1,2), of umid])
  case 1
  then show ?thesis by (simp add: catalog_readlink_def)
next
  case (2 i)
  then have "catalog_entries m ! nat i \<in> set (catalog_entries m)"
    by (intro nth_mem) simp
  then have "wdf_link_dest (catalog_entries m ! nat i) \<noteq> None"
    using assms(3) by blast
  with 2 assms(1,4) show ?thesis
    by (auto simp: catalog_readlink_def getEntry_from_catalog_wf)
qed

lemma get_directory_contents_returns:
  assumes "catalog_wf m" "NUL \<notin> set p"
  obtains r l h where "get_directory_contents (getEntry_depth_filepath m) (catalog_len m) umid p = Inr (r, l, h)" "r < 0"
    | l h where "get_directory_contents (getEntry_depth_filepath m) (catalog_len m) umid p = Inr (0, Some l, Some h)"
      "0 \<le> l" "l \<le> h" "h < catalog_len m"
proof (cases "p = [] \<or> last p \<noteq> slash")
  case True
  then show thesis
    using that(1) [of "-1"] by (simp add: get_directory_contents_def)
next
  case False
  show thesis
  proof (cases rule: search_returns [OF assms, of umid])
    case 1
    with False show thesis
      using that(1) [of "- ENOENT"] by (simp add: get_directory_contents_def binSearch_path_def ENOENT_def)
  next
    case (2 i)
    obtain k where k: "dir_loop (getEntry_depth_filepath m) (catalog_len m) (findDepth p) p i = Inr (Some k)"
      "i < k" "k \<le> catalog_len m"
      using cat.dir_loop_returns [OF assms, of i "findDepth p"] 2 by auto
    show thesis
    proof (cases "findDepth p \<le> 0")
      case True
      with False 2 show thesis
        using that(1) [of "- ENOENT"] by (simp add: get_directory_contents_def binSearch_path_def ENOENT_def)
    next
      case go: False
      with False 2 k show thesis
        using that(2) [of i "k - 1"] by (simp add: get_directory_contents_def binSearch_path_def)
    qed
  qed
qed

lemma readdir_returns:
  assumes "catalog_wf m" "NUL \<notin> set p" "p = ''/'' \<or> length p + 2 \<le> cap"
  shows "\<exists>a. catalog_readdir m umid filler buf p cap = Inr a"
proof -
  let ?p = "if strcmp p ''/'' \<noteq> 0 then p @ ''/'' else p"
  have plain: "NUL \<notin> set ?p"
    using assms(2) by simp
  have room: "\<not> (strcmp p ''/'' \<noteq> 0 \<and> cap < length p + 2)"
    using assms(2,3) by auto
  show ?thesis
  proof (cases rule: get_directory_contents_returns [OF assms(1) plain, of umid])
    case (1 r l h)
    with room show ?thesis
      by (auto simp: catalog_readdir_def Let_def)
  next
    case (2 l h)
    have "in_int (l + 1)"
      using in_int_between [OF _ _ catalog_wf_len_int [OF assms(1)], of "l + 1"] 2 by simp
    then have "wrap32 (l + 1) = l + 1"
      by simp
    with 2 room readdir_loop_wf [OF assms(1), of "l + 1" h filler] show ?thesis
      by (auto simp: catalog_readdir_def Let_def)
  qed
qed



text \<open>C27: the offset of a line is kept in an \<open>int\<close>: an entry that starts in the third or fourth
  gigabyte of the catalogue is never read, whatever the file holds.\<close>

theorem entries_behind_2GiB_unreadable:
  assumes "0 \<le> entry_size m" "length (catalogFile m) < 224" "disk m (catalogFile m) = Some node"
    and "INT_MAX < entry_size m * location" "entry_size m * location < 4294967296"
  shows "getEntry_from_catalog m location = Inr None"
proof -
  let ?x = "entry_size m * location"
  have "(?x + 2147483648) mod 4294967296 = ((?x - 2147483648) + 4294967296) mod 4294967296"
    by (simp add: add.commute)
  also have "\<dots> = ?x - 2147483648"
    unfolding mod_add_self2 using assms(4,5) by (intro mod_pos_pos_trivial) (simp_all add: INT_MAX_def)
  finally have "wrap32 ?x = ?x - 4294967296"
    by (simp add: wrap32_def)
  then have "wrap32 (entry_size m * location) < 0"
    using assms(5) by simp
  with assms(1-3) show ?thesis
    by (simp add: getEntry_from_catalog_def Let_def)
qed

theorem entries_behind_2GiB_unreadable_witness:
  "getEntry_from_catalog (ex_mount\<lparr>entry_size := 65536\<rparr>) 40000 = Inr None"
  by (rule entries_behind_2GiB_unreadable [of _ "the (disk ex_mount ''/c'')"])
    (simp_all add: ex_mount_def INT_MAX_def)

end
