(* ===== verification/Bf_Queue.thy ===== *)
theory Bf_Queue
  imports Prelude "HOL-Library.AList"
begin

text \<open>
  The breadth-first queue of \<open>generate_catalog.c\<close>, as the linked list it is: an explicit heap of
  cells, the two global pointers \<open>head\<close> and \<open>tail\<close>, and \<open>malloc\<close> as a function of the heap
  that the C library supplies. The locale \<open>fifo_queue\<close> is the contract the catalogue generator
  relies on, and the interpretation at the end shows that the pointer code keeps it.
\<close>

section \<open>Data\<close>

text \<open>A heap object is a cell \<open>struct bf_queue\<close> or a character buffer; address 0 is \<open>NULL\<close>.\<close>

datatype obj = Node (node_name: string) (node_next: nat) | Buf "string option"

type_synonym heap = "(nat \<times> obj) list"

record bf_queue =
  head :: nat
  tail :: nat
  cells :: heap
  malloc :: "heap \<Rightarrow> nat option"

section \<open>Operations\<close>

definition init_queue :: "bf_queue \<Rightarrow> bf_queue" where
  "init_queue q = q\<lparr>head := 0, tail := 0\<rparr>"

text \<open>\<open>free\<close> and a store to an address.\<close>

definition free :: "nat \<Rightarrow> bf_queue \<Rightarrow> bf_queue" where
  "free a q = q\<lparr>cells := AList.delete a (cells q)\<rparr>"

definition store :: "nat \<Rightarrow> obj \<Rightarrow> bf_queue \<Rightarrow> bf_queue" where
  "store a v q = q\<lparr>cells := AList.update a v (cells q)\<rparr>"

text \<open>
  \<open>insert_queue\<close>: -1 when \<open>malloc\<close> fails. The name is copied into an array of \<open>MAXPATHLEN\<close>
  bytes, and \<open>tail->next\<close> is written through the tail pointer.
\<close>

definition insert_queue :: "bf_queue \<Rightarrow> string \<Rightarrow> (int \<times> bf_queue) res" where
  "insert_queue q dirname =
     (case malloc q (cells q) of
        None \<Rightarrow> Inr (-1, q)
      | Some temp \<Rightarrow>
          if MAXPATHLEN \<le> length dirname then Inl Undefined
          else let q1 = store temp (Node dirname 0) q in
            if head q1 = 0 then Inr (0, q1\<lparr>head := temp, tail := temp\<rparr>)
            else (case map_of (cells q1) (tail q1) of
                    Some (Node s _) \<Rightarrow>
                      Inr (0, (store (tail q1) (Node s temp) q1)\<lparr>tail := temp\<rparr>)
                  | _ \<Rightarrow> Inl Undefined))"

text \<open>
  \<open>remove_queue\<close>: the address of a fresh buffer with the name of the first cell, or \<open>NULL\<close> (and
  the buffer is lost) when the queue is empty. A failed \<open>malloc\<close> is reported but not handled.
\<close>

definition remove_queue :: "bf_queue \<Rightarrow> (nat \<times> bf_queue) res" where
  "remove_queue q =
     (let dirname = malloc q (cells q);
          q1 = (case dirname of None \<Rightarrow> q | Some d \<Rightarrow> store d (Buf None) q) in
      if head q1 = 0 then Inr (0, q1)
      else (case map_of (cells q1) (head q1) of
              Some (Node s nxt) \<Rightarrow>
                (case dirname of
                   None \<Rightarrow> Inl Undefined
                 | Some d \<Rightarrow> Inr (d, free (head q1) (store d (Buf (Some s)) (q1\<lparr>head := nxt\<rparr>))))
            | _ \<Rightarrow> Inl Undefined))"

text \<open>
  How \<open>catalog_listing\<close> takes a directory from the queue: \<open>strcpy\<close> from the buffer, then
  \<open>free\<close>. A \<open>NULL\<close> result is reported and then copied from all the same.
\<close>

definition dequeue_dir :: "bf_queue \<Rightarrow> (string \<times> bf_queue) res" where
  "dequeue_dir q =
     bind_res (remove_queue q) (\<lambda>(d, q1).
       case map_of (cells q1) d of
         Some (Buf (Some s)) \<Rightarrow> if d = 0 then Inl Undefined else Inr (s, free d q1)
       | _ \<Rightarrow> Inl Undefined)"

text \<open>\<open>print_queue\<close>: the lines it prints, following at most \<open>n\<close> cells.\<close>

fun print_queue :: "nat \<Rightarrow> heap \<Rightarrow> nat \<Rightarrow> string list option" where
  "print_queue 0 h p = None"
| "print_queue (Suc n) h p =
     (if p = 0 then Some []
      else case map_of h p of
             Some (Node s nxt) \<Rightarrow>
               map_option (\<lambda>ls. (''DEBUG:printing queue='' @ s) # ls) (print_queue n h nxt)
           | _ \<Rightarrow> None)"

section \<open>The contract\<close>

text \<open>
  What the generator relies on: a first-in first-out queue of names. \<open>rep q xs\<close> says that the state
  \<open>q\<close> holds the names \<open>xs\<close>, and \<open>valid\<close> which names may be inserted.
\<close>

locale fifo_queue =
  fixes init :: "'q \<Rightarrow> 'q"
    and nonempty :: "'q \<Rightarrow> bool"
    and insert :: "'q \<Rightarrow> 'a \<Rightarrow> (int \<times> 'q) res"
    and remove :: "'q \<Rightarrow> ('a \<times> 'q) res"
    and ready :: "'q \<Rightarrow> bool"
    and valid :: "'a \<Rightarrow> bool"
    and rep :: "'q \<Rightarrow> 'a list \<Rightarrow> bool"
  assumes rep_init: "ready q \<Longrightarrow> rep (init q) []"
    and rep_nonempty: "rep q xs \<Longrightarrow> nonempty q \<longleftrightarrow> xs \<noteq> []"
    and rep_insert: "rep q xs \<Longrightarrow> valid x \<Longrightarrow> \<exists>q'. insert q x = Inr (0, q') \<and> rep q' (xs @ [x])"
    and rep_remove: "rep q (x # xs) \<Longrightarrow> \<exists>q'. remove q = Inr (x, q') \<and> rep q' xs"
begin

lemma rep_unique: "rep q xs \<Longrightarrow> rep q ys \<Longrightarrow> xs = ys"
proof (induction xs arbitrary: q ys)
  case Nil
  with rep_nonempty [of q "[]"] rep_nonempty [of q ys] show ?case by blast
next
  case (Cons x xs)
  with rep_nonempty [of q "x # xs"] rep_nonempty [of q ys] obtain y ys' where ys: "ys = y # ys'"
    by (cases ys) auto
  with rep_remove [OF Cons.prems(1)] rep_remove [of q y ys'] Cons.prems(2)
  obtain q' where "x = y" "rep q' xs" "rep q' ys'"
    by auto
  with Cons.IH ys show ?case by blast
qed

end

section \<open>The list in the heap\<close>

fun linked :: "heap \<Rightarrow> nat \<Rightarrow> (nat \<times> string) list \<Rightarrow> bool" where
  "linked h p [] \<longleftrightarrow> p = 0"
| "linked h p ((a, s) # xs) \<longleftrightarrow>
     p = a \<and> a \<noteq> 0 \<and> (\<exists>n. map_of h a = Some (Node s n) \<and> linked h n xs)"

definition good_malloc :: "(heap \<Rightarrow> nat option) \<Rightarrow> bool" where
  "good_malloc f \<longleftrightarrow> (\<forall>h. \<exists>a. f h = Some a \<and> a \<noteq> 0 \<and> map_of h a = None)"

definition queue_rep :: "bf_queue \<Rightarrow> string list \<Rightarrow> bool" where
  "queue_rep q names \<longleftrightarrow>
     good_malloc (malloc q) \<and>
     (\<exists>xs. map snd xs = names \<and> linked (cells q) (head q) xs \<and> distinct (map fst xs) \<and>
        (xs \<noteq> [] \<longrightarrow> tail q = fst (last xs)))"

definition short_name :: "string \<Rightarrow> bool" where
  "short_name s \<longleftrightarrow> length s < MAXPATHLEN"

text \<open>An allocator for the witnesses: one more than the largest address in use.\<close>

definition bump_malloc :: "heap \<Rightarrow> nat option" where
  "bump_malloc h = Some (Suc (fold max (map fst h) 0))"

definition empty_queue :: bf_queue where
  "empty_queue = \<lparr>head = 0, tail = 0, cells = [], malloc = bump_malloc\<rparr>"

lemma good_mallocE:
  assumes "good_malloc f"
  obtains a where "f h = Some a" "a \<noteq> 0" "map_of h a = None"
  using assms by (auto simp: good_malloc_def)

lemma linked_alloc: "linked h p xs \<Longrightarrow> a \<in> set (map fst xs) \<Longrightarrow> map_of h a \<noteq> None \<and> a \<noteq> 0"
  by (induction h p xs rule: linked.induct) auto

lemma linked_cong:
  "(\<forall>a\<in>set (map fst xs). map_of h' a = map_of h a) \<Longrightarrow> linked h' p xs \<longleftrightarrow> linked h p xs"
  by (induction h p xs rule: linked.induct) auto

lemma linked_update [simp]:
  "a \<notin> set (map fst xs) \<Longrightarrow> linked (AList.update a v h) p xs \<longleftrightarrow> linked h p xs"
  by (rule linked_cong) (auto simp: update_conv)

lemma linked_delete [simp]:
  "a \<notin> set (map fst xs) \<Longrightarrow> linked (AList.delete a h) p xs \<longleftrightarrow> linked h p xs"
  by (rule linked_cong) (auto simp: delete_conv)

lemma linked_null [simp]: "linked h 0 xs \<longleftrightarrow> xs = []"
  by (cases xs) auto

text \<open>Linking a fresh cell behind the last one.\<close>

lemma linked_snoc:
  assumes "linked h p xs" "xs \<noteq> []" "distinct (map fst xs)" "a \<notin> set (map fst xs)" "a \<noteq> 0"
    and "map_of h a = Some (Node s 0)"
    and "map_of h (fst (last xs)) = Some (Node t n)"
  shows "linked (AList.update (fst (last xs)) (Node t a) h) p (xs @ [(a, s)])"
  using assms
proof (induction xs arbitrary: p)
  case Nil
  then show ?case by simp
next
  case (Cons x xs)
  obtain b u where x: "x = (b, u)"
    by fastforce
  show ?case
  proof (cases xs)
    case Nil
    with Cons.prems x show ?thesis
      by (auto simp: update_conv)
  next
    case (Cons y ys)
    then obtain k where k: "map_of h b = Some (Node u k)" "linked h k xs"
      using Cons.prems(1) x by auto
    have ne: "fst (last xs) \<noteq> b"
      using Cons.prems(3) x Cons by auto
    have "linked (AList.update (fst (last xs)) (Node t a) h) k (xs @ [(a, s)])"
      using Cons.IH [OF k(2)] Cons.prems x Cons by auto
    with ne k(1) Cons.prems x Cons show ?thesis
      by (auto simp: update_conv)
  qed
qed

lemma linked_last:
  "linked h p xs \<Longrightarrow> xs \<noteq> [] \<Longrightarrow> \<exists>n. map_of h (fst (last xs)) = Some (Node (snd (last xs)) n)"
  by (induction h p xs rule: linked.induct) auto

lemma insert_queue_rep:
  assumes "queue_rep q names" "short_name s"
  shows "\<exists>q'. insert_queue q s = Inr (0, q') \<and> queue_rep q' (names @ [s])"
proof -
  obtain xs where xs: "map snd xs = names" "linked (cells q) (head q) xs" "distinct (map fst xs)"
    "xs \<noteq> [] \<longrightarrow> tail q = fst (last xs)" and good: "good_malloc (malloc q)"
    using assms(1) by (auto simp: queue_rep_def)
  obtain a where a: "malloc q (cells q) = Some a" "a \<noteq> 0" "map_of (cells q) a = None"
    using good_mallocE [OF good] .
  have new: "a \<notin> set (map fst xs)"
    using linked_alloc [OF xs(2), of a] a(3) by auto
  have len: "\<not> MAXPATHLEN \<le> length s"
    using assms(2) by (simp add: short_name_def)
  show ?thesis
  proof (cases "xs = []")
    case True
    with xs have "head q = 0" by simp
    with True a len xs good show ?thesis
      by (auto simp: insert_queue_def store_def queue_rep_def Let_def update_conv
          intro!: exI [of _ "[(a, s)]"])
  next
    case False
    then have h: "head q \<noteq> 0"
      using xs(2) by (cases xs) auto
    let ?h = "AList.update a (Node s 0) (cells q)"
    have link: "linked ?h (head q) xs"
      using xs(2) new by simp
    obtain t n where t: "map_of ?h (fst (last xs)) = Some (Node t n)"
      using linked_last [OF link False] by blast
    have "linked (AList.update (fst (last xs)) (Node t a) ?h) (head q) (xs @ [(a, s)])"
      by (rule linked_snoc [OF link False xs(3) new a(2) _ t]) (simp add: update_conv)
    then show ?thesis
      using False a len xs good h t new
      by (auto simp: insert_queue_def store_def queue_rep_def Let_def intro!: exI [of _ "xs @ [(a, s)]"])
  qed
qed

lemma dequeue_dir_rep:
  assumes "queue_rep q (s # names)"
  shows "\<exists>q'. dequeue_dir q = Inr (s, q') \<and> queue_rep q' names"
proof -
  obtain a ys where xs: "map snd ys = names" "linked (cells q) (head q) ((a, s) # ys)"
    "distinct (a # map fst ys)" "tail q = fst (last ((a, s) # ys))" and good: "good_malloc (malloc q)"
    using assms by (auto simp: queue_rep_def)
  then obtain n where n: "head q = a" "a \<noteq> 0" "map_of (cells q) a = Some (Node s n)" "linked (cells q) n ys"
    by auto
  obtain d where d: "malloc q (cells q) = Some d" "d \<noteq> 0" "map_of (cells q) d = None"
    using good_mallocE [OF good] .
  have ne: "a \<noteq> d" and fresh: "d \<notin> set (map fst ys)"
    using n(3) d(3) linked_alloc [OF n(4), of d] by auto
  let ?q = "q\<lparr>head := n, cells := AList.delete d (AList.delete a
      (AList.update d (Buf (Some s)) (AList.update d (Buf None) (cells q))))\<rparr>"
  have "dequeue_dir q = Inr (s, ?q)"
    using n d ne
    by (simp add: dequeue_dir_def remove_queue_def store_def free_def Let_def update_conv delete_conv)
  moreover have "queue_rep ?q names"
    using xs(1,3,4) n(4) fresh good
    by (auto simp: queue_rep_def intro!: exI [of _ ys])
  ultimately show ?thesis
    by blast
qed

interpretation bfq: fifo_queue init_queue "\<lambda>q. head q \<noteq> 0" insert_queue dequeue_dir
  "\<lambda>q. good_malloc (malloc q)" short_name queue_rep
proof unfold_locales
  fix q :: bf_queue
  assume "good_malloc (malloc q)"
  then show "queue_rep (init_queue q) []"
    by (auto simp: queue_rep_def init_queue_def)
next
  fix q xs
  assume "queue_rep q xs"
  then obtain ys where "map snd ys = xs" "linked (cells q) (head q) ys"
    by (auto simp: queue_rep_def)
  then show "head q \<noteq> 0 \<longleftrightarrow> xs \<noteq> []"
    by (cases ys) auto
qed (rule insert_queue_rep dequeue_dir_rep; assumption)+

lemma fold_max_ge: "x \<in> set xs \<or> x \<le> m \<Longrightarrow> x \<le> fold max xs (m :: nat)"
  by (induction xs arbitrary: m) (auto simp: max.coboundedI1 max.coboundedI2)

lemma good_bump_malloc: "good_malloc bump_malloc"
proof -
  have "map_of h (Suc (fold max (map fst h) 0)) = None" for h :: heap
  proof (rule ccontr)
    assume "map_of h (Suc (fold max (map fst h) 0)) \<noteq> None"
    then have "Suc (fold max (map fst h) 0) \<in> set (map fst h)"
      by (simp add: map_of_eq_None_iff)
    then have "Suc (fold max (map fst h) 0) \<le> fold max (map fst h) 0"
      by (intro fold_max_ge) simp
    then show False by simp
  qed
  then show ?thesis
    by (simp add: good_malloc_def bump_malloc_def)
qed

section \<open>Properties\<close>

text \<open>The names taken out of a queue one by one, until it is empty or \<open>n\<close> are out.\<close>

fun drain :: "nat \<Rightarrow> bf_queue \<Rightarrow> string list res" where
  "drain 0 q = Inr []"
| "drain (Suc n) q =
     (if head q = 0 then Inr []
      else bind_res (dequeue_dir q) (\<lambda>(s, q'). bind_res (drain n q') (\<lambda>ss. Inr (s # ss))))"

fun insert_all :: "bf_queue \<Rightarrow> string list \<Rightarrow> bf_queue res" where
  "insert_all q [] = Inr q"
| "insert_all q (s # ss) = bind_res (insert_queue q s) (\<lambda>(_, q'). insert_all q' ss)"

lemma insert_all_rep:
  "queue_rep q xs \<Longrightarrow> \<forall>s\<in>set ss. short_name s \<Longrightarrow>
     \<exists>q'. insert_all q ss = Inr q' \<and> queue_rep q' (xs @ ss)"
proof (induction ss arbitrary: q xs)
  case Nil
  then show ?case by simp
next
  case (Cons s ss)
  obtain q' where "insert_queue q s = Inr (0, q')" "queue_rep q' (xs @ [s])"
    using insert_queue_rep [OF Cons.prems(1), of s] Cons.prems(2) by auto
  with Cons.IH [of q' "xs @ [s]"] Cons.prems(2) show ?case
    by auto
qed

lemma drain_rep: "queue_rep q xs \<Longrightarrow> length xs \<le> n \<Longrightarrow> drain n q = Inr xs"
proof (induction n arbitrary: q xs)
  case 0
  then show ?case by simp
next
  case (Suc n)
  show ?case
  proof (cases xs)
    case Nil
    with Suc.prems bfq.rep_nonempty [OF Suc.prems(1)] show ?thesis by simp
  next
    case (Cons x ys)
    then obtain q' where "dequeue_dir q = Inr (x, q')" "queue_rep q' ys"
      using dequeue_dir_rep Suc.prems(1) by blast
    with Suc Cons bfq.rep_nonempty [OF Suc.prems(1)] show ?thesis by simp
  qed
qed

text \<open>C25: the pointer queue is first-in first-out: names inserted into an initialised queue come
  out in the order of insertion, with an allocator that returns unused addresses.\<close>

theorem queue_is_fifo:
  assumes "good_malloc (malloc q)" "\<forall>s\<in>set ss. length s < MAXPATHLEN"
  shows "bind_res (insert_all (init_queue q) ss) (drain (length ss)) = Inr ss"
proof -
  have "queue_rep (init_queue q) []"
    using bfq.rep_init assms(1) .
  moreover have "\<forall>s\<in>set ss. short_name s"
    using assms(2) by (simp add: short_name_def)
  ultimately obtain q' where "insert_all (init_queue q) ss = Inr q'" "queue_rep q' ss"
    using insert_all_rep [of "init_queue q" "[]" ss] by auto
  then show ?thesis
    by (simp add: drain_rep)
qed

theorem queue_is_fifo_witness:
  "bind_res (insert_all (init_queue empty_queue) [''/a'', ''/b'']) (drain 2) = Inr [''/a'', ''/b'']"
  using queue_is_fifo [of empty_queue "[''/a'', ''/b'']"] good_bump_malloc
  by (simp add: empty_queue_def MAXPATHLEN_def numeral_2_eq_2)

text \<open>\<open>print_queue\<close> follows the links of a queue to its end and prints every name, oldest first.\<close>

theorem print_queue_prints_all:
  assumes "queue_rep q names"
  shows "print_queue (Suc (length names)) (cells q) (head q) =
           Some (map (\<lambda>s. ''DEBUG:printing queue='' @ s) names)"
proof -
  have walk: "linked h p xs \<Longrightarrow> print_queue (Suc (length xs)) h p =
      Some (map (\<lambda>s. ''DEBUG:printing queue='' @ s) (map snd xs))" for h p xs
    by (induction h p xs rule: linked.induct) auto
  obtain xs where "map snd xs = names" "linked (cells q) (head q) xs"
    using assms by (auto simp: queue_rep_def)
  with walk [of "cells q" "head q" xs] show ?thesis
    by (auto simp del: print_queue.simps)
qed

theorem print_queue_prints_all_witness:
  "\<exists>q :: bf_queue. print_queue 2 (cells q) (head q) = Some [''DEBUG:printing queue=/a'']"
proof -
  obtain q where "queue_rep q [''/a'']"
    using insert_all_rep [OF bfq.rep_init, of empty_queue "[''/a'']"] good_bump_malloc
    by (auto simp: empty_queue_def short_name_def MAXPATHLEN_def)
  from print_queue_prints_all [OF this] show ?thesis
    by - (rule exI [of _ q], simp add: numeral_2_eq_2 del: print_queue.simps)
qed

end
