(* ===== verification/Generate_Catalog.thy ===== *)
theory Generate_Catalog
  imports Catalog_Entry Bf_Queue
begin

unbundle bit_operations_syntax

text \<open>
  The catalogue generator \<open>generate_catalog.c\<close>: the line printed for a file, the breadth-first walk
  over a directory with the queue of \<open>Bf_Queue\<close>, the padding of all lines to the same length, and
  \<open>main\<close>. The operating system is a parameter: the attributes of a path, the entries of a
  directory, the destination of a link, and whether a file can be opened for writing and renamed.
\<close>

section \<open>The operating system\<close>

record dirent =
  d_name :: string
  d_type :: nat

record os =
  os_lstat :: "string \<rightharpoonup> stat"
  os_readdir :: "string \<rightharpoonup> dirent list"
  os_readlink :: "string \<rightharpoonup> string"
  os_stat :: "string \<rightharpoonup> stat"
  os_fopen :: "string \<Rightarrow> bool"
  os_rename :: "string \<Rightarrow> string \<Rightarrow> bool"

definition DT_FIFO :: nat where "DT_FIFO = 1"
definition DT_CHR :: nat where "DT_CHR = 2"
definition DT_DIR :: nat where "DT_DIR = 4"
definition DT_BLK :: nat where "DT_BLK = 6"
definition DT_REG :: nat where "DT_REG = 8"
definition DT_LNK :: nat where "DT_LNK = 10"
definition DT_SOCK :: nat where "DT_SOCK = 12"

lemmas DT_defs = DT_FIFO_def DT_CHR_def DT_DIR_def DT_BLK_def DT_REG_def DT_LNK_def DT_SOCK_def

section \<open>Filters and \<open>scandir\<close>\<close>

definition filter_ent :: "dirent \<Rightarrow> int" where
  "filter_ent ent = (if strcmp (d_name ent) ''.'' = 0 \<or> strcmp (d_name ent) ''..'' = 0 then 0 else 1)"

definition filter_dir :: "dirent \<Rightarrow> int" where
  "filter_dir ent = (if d_type ent = DT_DIR then 1 else 0)"

text \<open>
  \<open>scandir\<close> with \<open>alphasort\<close>: the entries that the filter accepts, in the order of their names.
  The program never calls \<open>setlocale\<close>, so \<open>alphasort\<close> compares bytes.
\<close>

definition scandir :: "os \<Rightarrow> string \<Rightarrow> (dirent \<Rightarrow> int) \<Rightarrow> dirent list option" where
  "scandir w dir filt =
     map_option (\<lambda>es. sort_key d_name (filter (\<lambda>e. filt e \<noteq> 0) es)) (os_readdir w dir)"

section \<open>The line of a file\<close>

text \<open>The type letter: the \<open>switch\<close> over the file type bits, with \<open>f\<close> for every other type.\<close>

definition file_type :: "32 word \<Rightarrow> nat" where
  "file_type mode = unat (drop_bit 12 (mode AND 0xF000))"

definition type_char :: "32 word \<Rightarrow> char" where
  "type_char mode =
     (let temp = file_type mode in
      if temp = DT_FIFO then CHR ''p''
      else if temp = DT_CHR then CHR ''c''
      else if temp = DT_DIR then CHR ''d''
      else if temp = DT_BLK then CHR ''b''
      else if temp = DT_REG then CHR ''f''
      else if temp = DT_LNK then CHR ''l''
      else if temp = DT_SOCK then CHR ''s''
      else CHR ''f'')"

definition sp :: "string \<Rightarrow> string" where
  "sp s = s @ '' ''"

text \<open>The ten columns before the path, each followed by a blank.\<close>

definition entry_columns :: "char \<Rightarrow> stat \<Rightarrow> int \<Rightarrow> string" where
  "entry_columns c st depth =
     sp [c] @ sp (fmt_lo (unat (st_mode st AND 0xFFF))) @ sp (fmt_ld (sint (st_nlink st))) @
     sp (fmt_ld (uint (st_uid st))) @ sp (fmt_ld (uint (st_gid st))) @
     sp (fmt_ld (sint (st_size st))) @ sp (fmt_ld (sint (st_atime st))) @
     sp (fmt_ld (sint (st_mtime st))) @ sp (fmt_ld (sint (st_ctime st))) @ sp (fmt_ld depth)"

text \<open>
  \<open>print_entry_to_catalog\<close>: what is appended to the catalogue. The path is printed from behind the
  input directory, which it starts with.
\<close>

definition print_entry_to_catalog :: "stat \<Rightarrow> string \<Rightarrow> string \<Rightarrow> string \<Rightarrow> string res" where
  "print_entry_to_catalog st file_path link_dest input_dir =
     (if length input_dir = 0 then Inl (Exits (-1))
      else if length file_path < length input_dir then Inl Undefined
      else let c = type_char (st_mode st); p = drop (length input_dir) file_path;
               depth = findDepth p in
        if c = CHR ''l''
        then Inr (entry_columns c st depth @ [SOH] @ p @ [STX] @ link_dest @ [SOH, LF])
        else Inr (entry_columns c st depth @ [SOH] @ p @ [SOH, LF]))"

text \<open>
  \<open>print_to_catalog\<close>. A failed \<open>lstat\<close> is reported and the attributes are then copied from memory
  that was never written; a failed \<open>readlink\<close> stores a terminator at index -1.
\<close>

definition print_to_catalog :: "os \<Rightarrow> string \<Rightarrow> string \<Rightarrow> string res" where
  "print_to_catalog w path input_dir =
     (case os_lstat w path of
        None \<Rightarrow> Inl Undefined
      | Some st \<Rightarrow>
          if file_type (st_mode st) = DT_LNK
          then (case os_readlink w path of
                  None \<Rightarrow> Inl Undefined
                | Some dest \<Rightarrow>
                    print_entry_to_catalog st path (take (MAXPATHLEN - 1) dest) input_dir)
          else print_entry_to_catalog st path [] input_dir)"

section \<open>The walk\<close>

text \<open>\<open>strcat\<close> into an array of \<open>MAXPATHLEN\<close> bytes.\<close>

definition path_buf :: "string \<Rightarrow> string res" where
  "path_buf s = (if MAXPATHLEN \<le> length s then Inl Undefined else Inr s)"

text \<open>
  The loop over the entries of one directory: print the entry, and put a directory into the queue.
  A queue that could not take it is reported, and the directory is left out.
\<close>

fun scan_loop ::
  "('q \<Rightarrow> string \<Rightarrow> (int \<times> 'q) res) \<Rightarrow> os \<Rightarrow> string \<Rightarrow> string \<Rightarrow> dirent list \<Rightarrow> 'q \<times> string \<Rightarrow> ('q \<times> string) res"
where
  "scan_loop ins w input_dir current_dir [] (q, out) = Inr (q, out)"
| "scan_loop ins w input_dir current_dir (e # es) (q, out) =
     bind_res (path_buf (current_dir @ ''/'' @ d_name e)) (\<lambda>temp.
     bind_res (print_to_catalog w temp input_dir) (\<lambda>line.
       if d_type e = DT_DIR
       then bind_res (ins q temp)
              (\<lambda>(_, q'). scan_loop ins w input_dir current_dir es (q', out @ line))
       else scan_loop ins w input_dir current_dir es (q, out @ line)))"

text \<open>
  One round of the loop of \<open>catalog_listing\<close>: take a directory from the queue, print it with a
  slash, and scan it. A directory that cannot be read gives an error message, built in 256 bytes.
\<close>

definition listing_step ::
  "('q \<Rightarrow> string \<Rightarrow> (int \<times> 'q) res) \<Rightarrow> ('q \<Rightarrow> (string \<times> 'q) res) \<Rightarrow> os \<Rightarrow> string \<Rightarrow> 'q \<times> string \<Rightarrow>
     ('q \<times> string) res"
where
  "listing_step ins rem w input_dir = (\<lambda>(q, out).
     bind_res (rem q) (\<lambda>(current_dir, q1).
     bind_res (path_buf (current_dir @ ''/'')) (\<lambda>temp.
     bind_res (print_to_catalog w temp input_dir) (\<lambda>line.
       case scandir w current_dir filter_ent of
         None \<Rightarrow>
           if 256 \<le> length (''?ERROR:scandir return non-zero value. ?Input Directory='') + length current_dir
           then Inl Undefined else Inr (q1, out @ line)
       | Some es \<Rightarrow> scan_loop ins w input_dir current_dir es (q1, out @ line)))))"

text \<open>The loop, for at most \<open>n\<close> rounds: \<open>None\<close> when that is not enough.\<close>

fun listing_loop ::
  "nat \<Rightarrow> ('q \<Rightarrow> bool) \<Rightarrow> ('q \<Rightarrow> string \<Rightarrow> (int \<times> 'q) res) \<Rightarrow> ('q \<Rightarrow> (string \<times> 'q) res) \<Rightarrow> os \<Rightarrow>
     string \<Rightarrow> 'q \<times> string \<Rightarrow> string res option"
where
  "listing_loop 0 nonempty ins rem w input_dir s =
     (if nonempty (fst s) then None else Some (Inr (snd s)))"
| "listing_loop (Suc n) nonempty ins rem w input_dir s =
     (if nonempty (fst s)
      then (case listing_step ins rem w input_dir s of
              Inl e \<Rightarrow> Some (Inl e)
            | Inr s' \<Rightarrow> listing_loop n nonempty ins rem w input_dir s')
      else Some (Inr (snd s)))"

text \<open>\<open>catalog_listing\<close> on the pointer queue: the text it appends to the catalogue.\<close>

definition catalog_listing :: "nat \<Rightarrow> os \<Rightarrow> bf_queue \<Rightarrow> string \<Rightarrow> string res option" where
  "catalog_listing n w q0 input_dir =
     (if MAXPATHLEN \<le> length input_dir then Some (Inl Undefined)
      else case insert_queue (init_queue q0) input_dir of
             Inl e \<Rightarrow> Some (Inl e)
           | Inr (_, q1) \<Rightarrow>
               listing_loop n (\<lambda>q. head q \<noteq> 0) insert_queue dequeue_dir w input_dir (q1, []))"

section \<open>Padding\<close>

text \<open>
  \<open>pad_each_line\<close>: the length of the longest line, then every line without its newline, bytes 1 up to
  that length, and a newline. \<open>strlen\<close> stops at a NUL.
\<close>

definition max_line :: "string list \<Rightarrow> nat" where
  "max_line ls = fold (\<lambda>l m. if m < length l then length l else m) ls 0"

definition pad_line :: "nat \<Rightarrow> string \<Rightarrow> string" where
  "pad_line max_len line =
     (let n = length (cstr line) in
      take (n - 1) line @ replicate (max_len - n) SOH @ [LF])"

definition pad_each_line :: "string \<Rightarrow> string" where
  "pad_each_line content =
     (let ls = getlines content in concat (map (pad_line (max_line ls)) ls))"

section \<open>\<open>main\<close>\<close>

text \<open>An error message put together in a buffer of 256 bytes.\<close>

definition message :: "string \<Rightarrow> string \<Rightarrow> unit res" where
  "message txt arg = (if 256 \<le> length txt + length arg then Inl Undefined else Inr ())"

definition S_ISDIR :: "32 word \<Rightarrow> bool" where
  "S_ISDIR mode \<longleftrightarrow> mode AND 0xF000 = 0x4000"

text \<open>
  \<open>main\<close>: the exit status and the files it leaves. \<open>argv\<close> includes the name of the program. The
  message texts are those of the source, with the leading newline.
\<close>

definition gen_main ::
  "nat \<Rightarrow> os \<Rightarrow> bf_queue \<Rightarrow> (string \<rightharpoonup> string) \<Rightarrow> string list \<Rightarrow> (int \<times> (string \<rightharpoonup> string)) res option"
where
  "gen_main n w q0 files argv =
     (case argv of
        [prog, input_dir, catalog_file] \<Rightarrow>
          if MAXPATHLEN \<le> length input_dir \<or> MAXPATHLEN \<le> length catalog_file then Some (Inl Undefined)
          else if length input_dir \<le> 0 \<or> length catalog_file \<le> 0 then Some (Inr (-1, files))
          else case message ([LF] @ ''ERROR:Cannot get statistics of the directory:'') input_dir of
            Inl e \<Rightarrow> Some (Inl e)
          | Inr _ \<Rightarrow>
              (case os_stat w input_dir of
                 None \<Rightarrow> Some (Inr (-1, files))
               | Some st \<Rightarrow>
                   if \<not> S_ISDIR (st_mode st)
                   then (case message ([LF] @ ''ERROR:Not a directory:'') input_dir of
                           Inl e \<Rightarrow> Some (Inl e) | Inr _ \<Rightarrow> Some (Inr (-1, files)))
                   else case message ([LF] @ ''ERROR:Cannot open catalog file for writing:'') catalog_file of
                     Inl e \<Rightarrow> Some (Inl e)
                   | Inr _ \<Rightarrow>
                       let temp = catalog_file @ ''.temp'';
                           files1 = (if os_fopen w catalog_file then files(catalog_file \<mapsto> []) else files);
                           files2 = (if os_fopen w temp then files1(temp \<mapsto> []) else files1) in
                       if MAXPATHLEN \<le> length temp then Some (Inl Undefined)
                       else if \<not> os_fopen w catalog_file then Some (Inr (-1, files2))
                       else case catalog_listing n w q0 input_dir of
                         None \<Rightarrow> None
                       | Some (Inl e) \<Rightarrow> Some (Inl e)
                       | Some (Inr out) \<Rightarrow>
                           if \<not> os_fopen w temp then Some (Inl Undefined)
                           else let files3 = files2(catalog_file \<mapsto> out, temp \<mapsto> pad_each_line out) in
                             if 256 \<le> length ([LF] @ ''ERROR:Cannot rename file: to file:'')
                                        + length temp + length catalog_file
                             then Some (Inl Undefined)
                             else if os_rename w temp catalog_file
                             then Some (Inr (0, (files3(catalog_file \<mapsto> pad_each_line out))(temp := None)))
                             else Some (Inr (-1, files3)))
      | _ \<Rightarrow> Some (Inr (-1, files)))"

end
