(* ===== verification/Catalog_Format.thy ===== *)
theory Catalog_Format
  imports Generate_Catalog
begin

unbundle bit_operations_syntax

text \<open>
  The catalogue as a file format: what the generator prints for a file, padded to the common length,
  is read back by the file system with the same path, depth, link destination and attributes.
\<close>

section \<open>Reference definitions\<close>

text \<open>The path column: the path, and for a link the byte 2 and the destination.\<close>

definition path_column :: "char \<Rightarrow> string \<Rightarrow> string \<Rightarrow> string" where
  "path_column c p dest = (if c = CHR ''l'' then p @ [STX] @ dest else p)"

text \<open>Strings that survive the format: no separator, no line end, no terminator.\<close>

definition plain :: "string \<Rightarrow> bool" where
  "plain s \<longleftrightarrow> SOH \<notin> set s \<and> LF \<notin> set s \<and> NUL \<notin> set s"

definition entry_ok :: "char \<Rightarrow> string \<Rightarrow> string \<Rightarrow> bool" where
  "entry_ok c p dest \<longleftrightarrow>
     p \<noteq> [] \<and> plain p \<and> length (path_column c p dest) < MAXPATHLEN \<and>
     (c = CHR ''l'' \<longrightarrow> STX \<notin> set p \<and> plain dest)"

text \<open>The mode that the reader reconstructs from the type letter and the permission bits.\<close>

definition catalog_mode :: "32 word \<Rightarrow> 32 word" where
  "catalog_mode mode = ucast (mode_of_type (type_char mode) (ucast (mode AND 0xFFF)))"

text \<open>The seven file types that have a letter, and modes without bits above the file type.\<close>

definition known_type :: "32 word \<Rightarrow> bool" where
  "known_type mode \<longleftrightarrow>
     file_type mode \<in> {DT_FIFO, DT_CHR, DT_DIR, DT_BLK, DT_REG, DT_LNK, DT_SOCK} \<and> mode AND 0xFFFF = mode"

text \<open>The entry that the reader is meant to return for a file.\<close>

definition expected_entry :: "stat \<Rightarrow> string \<Rightarrow> string \<Rightarrow> stat_wdf" where
  "expected_entry st p dest =
     \<lparr>wdf_depth = findDepth p, wdf_file_path = p,
      wdf_st_data = st\<lparr>st_mode := catalog_mode (st_mode st)\<rparr>,
      wdf_link_dest = Some (if type_char (st_mode st) = CHR ''l'' then dest else [])\<rparr>"

text \<open>The line of a file without its newline.\<close>

definition entry_text :: "stat \<Rightarrow> string \<Rightarrow> string \<Rightarrow> string" where
  "entry_text st p dest =
     entry_columns (type_char (st_mode st)) st (findDepth p) @
     [SOH] @ path_column (type_char (st_mode st)) p dest @ [SOH]"

text \<open>The common length of the lines, and a line (without its newline) padded to it.\<close>

definition catalog_width :: "string list \<Rightarrow> nat" where
  "catalog_width ls = max_line (map (\<lambda>l. l @ [LF]) ls)"

definition padded :: "nat \<Rightarrow> string \<Rightarrow> string" where
  "padded w l = l @ replicate (w - Suc (length l)) SOH @ [LF]"

text \<open>The files of a catalogue, in order: attributes, path and link destination.\<close>

type_synonym item = "stat \<times> string \<times> string"

definition item_text :: "item \<Rightarrow> string" where
  "item_text = (\<lambda>(st, p, dest). entry_text st p dest)"

definition item_entry :: "item \<Rightarrow> stat_wdf" where
  "item_entry = (\<lambda>(st, p, dest). expected_entry st p dest)"

definition item_ok :: "item \<Rightarrow> bool" where
  "item_ok = (\<lambda>(st, p, dest). entry_ok (type_char (st_mode st)) p dest)"

definition catalog_text :: "item list \<Rightarrow> string" where
  "catalog_text its = concat (map (\<lambda>it. item_text it @ [LF]) its)"

text \<open>The mount of a padded catalogue: the state of \<open>catalogfs\<close> when its environment holds the width of the lines and their
  number.\<close>

definition mounted :: "string \<Rightarrow> item list \<Rightarrow> mount" where
  "mounted fname its =
     \<lparr>entry_size = int (catalog_width (map item_text its)), catalog_len = int (length its),
      catalogFile = fname, disk = [fname \<mapsto> Reg (pad_each_line (catalog_text its))]\<rparr>"

section \<open>Numbers\<close>

lemma in_long_sint [simp]: "in_long (sint (w :: 64 word))"
  using sint_greater_eq [of w] sint_less [of w]
  by (simp add: in_long_def LONG_MIN_def LONG_MAX_def)

lemma in_long_uint32 [simp]: "in_long (uint (w :: 32 word))"
proof -
  have "0 \<le> uint w" "uint w < 4294967296"
    using unsigned_less [of w, where 'a = int] by simp_all
  then show ?thesis
    unfolding in_long_def LONG_MIN_def LONG_MAX_def by linarith
qed

lemma findDepth_in_int: "length p < MAXPATHLEN \<Longrightarrow> in_int (findDepth p)"
proof -
  assume "length p < MAXPATHLEN"
  then have "length (filter (\<lambda>x. x = slash) p) < 4096"
    by (intro le_less_trans [OF length_filter_le]) (simp add: MAXPATHLEN_def)
  then show ?thesis
    by (auto simp: findDepth_def in_int_def INT_MIN_def INT_MAX_def split: list.splits if_splits)
qed

section \<open>Modes\<close>

lemma mode_masks:
  "(0xF000 :: 32 word) = push_bit 12 (mask 4)" "(0xFFF :: 32 word) = mask 12"
  "(0xFFFF :: 32 word) = mask 16"
  by (simp_all add: mask_eq_exp_minus_1 push_bit_eq_mult)

lemma type_bits: "mode AND 0xF000 = push_bit 12 (of_nat (file_type mode))"
  unfolding file_type_def mode_masks
  by (rule bit_word_eqI) (auto simp: bit_simps)

lemma ucast_or32: "(ucast ((s :: 64 word) OR ucast (w :: 32 word)) :: 32 word) = ucast s OR w"
  by (rule bit_word_eqI) (auto simp: bit_simps)

lemma mode_split: "(mode AND 0xF000) OR (mode AND 0xFFF) = (mode :: 32 word) AND 0xFFFF"
  unfolding mode_masks by (rule bit_word_eqI) (auto simp: bit_simps)

lemmas catalog_mode_defs = catalog_mode_def mode_of_type_def type_char_def ucast_or32 DT_defs S_IF_defs

lemma catalog_mode_known: "known_type mode \<Longrightarrow> catalog_mode mode = mode"
proof -
  assume k: "known_type mode"
  then have "catalog_mode mode = push_bit 12 (of_nat (file_type mode)) OR (mode AND 0xFFF)"
    by (auto simp: known_type_def catalog_mode_defs Let_def push_bit_eq_mult)
  also have "\<dots> = mode"
    using k mode_split [of mode] by (simp add: known_type_def type_bits)
  finally show ?thesis .
qed

section \<open>Reading back one line\<close>

lemma sscanf_entry:
  assumes "col \<noteq> []" "SOH \<notin> set col" "in_int depth"
  shows "sscanf (catalog_fmt SOH) (entry_columns c st depth @ [SOH] @ col @ SOH # rest) =
    Inr [VC c, VI (uint (st_mode st AND 0xFFF)), VI (sint (st_nlink st)),
         VI (uint (st_uid st)), VI (uint (st_gid st)), VI (sint (st_size st)),
         VI (sint (st_atime st)), VI (sint (st_mtime st)), VI (sint (st_ctime st)), VI depth,
         VS col]"
proof -
  have m: "uint (st_mode st AND 0xFFF) < 18446744073709551616"
    using unsigned_less [of "st_mode st AND 0xFFF", where 'a = int] by simp
  have "drop (length col) (col @ SOH # rest) = SOH # rest"
    by simp
  with assms m show ?thesis
    by (simp add: catalog_fmt_def entry_columns_def sp_def isspace_def)
qed

lemma split_link_column:
  "STX \<notin> set p \<Longrightarrow> split_link (p @ STX # dest) = (p, Some dest)"
  by (simp add: split_link_def Let_def takeWhile_append)

lemma type_char_plain [simp]:
  "type_char mode \<noteq> NUL" "NUL \<noteq> type_char mode" "type_char mode \<noteq> LF" "LF \<noteq> type_char mode"
  by (simp_all add: type_char_def Let_def)

lemma entry_text_plain:
  assumes "entry_ok (type_char (st_mode st)) p dest"
  shows "NUL \<notin> set (entry_text st p dest)" "LF \<notin> set (entry_text st p dest)"
  using assms
  by (auto simp: entry_text_def entry_columns_def sp_def path_column_def entry_ok_def plain_def)

lemma parse_entry_text:
  assumes "entry_ok (type_char (st_mode st)) p dest"
  shows "parse_entry SOH (entry_text st p dest @ rest) = Inr (expected_entry st p dest)"
proof -
  let ?c = "type_char (st_mode st)"
  have col: "path_column ?c p dest \<noteq> []" "SOH \<notin> set (path_column ?c p dest)"
    "\<not> MAXPATHLEN \<le> length (path_column ?c p dest)"
    using assms by (auto simp: entry_ok_def path_column_def plain_def)
  have "length p < MAXPATHLEN"
    using assms by (auto simp: entry_ok_def path_column_def split: if_splits)
  note scan = sscanf_entry [OF col(1,2) findDepth_in_int [OF this], of ?c st rest]
  have split: "(if ?c = CHR ''l'' then split_link (path_column ?c p dest)
      else (path_column ?c p dest, Some [])) = (p, Some (if ?c = CHR ''l'' then dest else []))"
    using assms by (auto simp: entry_ok_def path_column_def split_link_column)
  show ?thesis
    unfolding parse_entry_def entry_text_def
    using scan col(3) split
    by (simp add: build_entry_def expected_entry_def catalog_mode_def)
qed

section \<open>Padding\<close>

lemma max_line_foldl: "m \<le> fold (\<lambda>l m. if m < length l then length l else m) ls m"
  by (induction ls arbitrary: m) (auto intro: order_trans less_imp_le)

lemma max_line_ge: "l \<in> set ls \<Longrightarrow> length l \<le> max_line ls"
proof -
  have "l \<in> set ls \<Longrightarrow> length l \<le> fold (\<lambda>l m. if m < length l then length l else m) ls m" for m
  proof (induction ls arbitrary: m)
    case Nil
    then show ?case by simp
  next
    case (Cons k ls)
    then show ?case
      using max_line_foldl [of "length k" ls] max_line_foldl [of m ls] by fastforce
  qed
  then show "l \<in> set ls \<Longrightarrow> ?thesis"
    by (simp add: max_line_def)
qed

lemma pad_line_eq:
  assumes "NUL \<notin> set l"
  shows "pad_line w (l @ [LF]) = l @ replicate (w - Suc (length l)) SOH @ [LF]"
proof -
  have "cstr (l @ [LF]) = l @ [LF]"
    using assms by simp
  then show ?thesis
    by (simp add: pad_line_def Let_def)
qed

lemma length_padded: "l \<in> set ls \<Longrightarrow> length (padded (catalog_width ls) l) = catalog_width ls"
  using max_line_ge [of "l @ [LF]" "map (\<lambda>l. l @ [LF]) ls"] by (simp add: padded_def catalog_width_def)

lemma pad_each_line_eq:
  assumes "\<forall>l\<in>set ls. LF \<notin> set l \<and> NUL \<notin> set l"
  shows "pad_each_line (concat (map (\<lambda>l. l @ [LF]) ls)) = concat (map (padded (catalog_width ls)) ls)"
proof -
  have "getlines (concat (map (\<lambda>l. l @ [LF]) ls)) = map (\<lambda>l. l @ [LF]) ls"
    using assms by (intro getlines_concat) blast
  moreover have "map (pad_line (catalog_width ls)) (map (\<lambda>l. l @ [LF]) ls) = map (padded (catalog_width ls)) ls"
    using assms by (simp add: pad_line_eq padded_def)
  ultimately show ?thesis
    by (simp only: pad_each_line_def Let_def catalog_width_def)
qed

lemma getlines_padded:
  assumes "\<forall>l\<in>set ls. LF \<notin> set l \<and> NUL \<notin> set l"
  shows "getlines (pad_each_line (concat (map (\<lambda>l. l @ [LF]) ls))) = map (padded (catalog_width ls)) ls"
proof -
  let ?w = "catalog_width ls"
  let ?b = "\<lambda>l. l @ replicate (?w - Suc (length l)) SOH"
  have "map (padded ?w) ls = map (\<lambda>l. l @ [LF]) (map ?b ls)"
    by (simp add: padded_def)
  moreover have "\<forall>l\<in>set (map ?b ls). LF \<notin> set l"
    using assms by auto
  ultimately have "getlines (concat (map (padded ?w) ls)) = map (padded ?w) ls"
    by (metis getlines_concat)
  then show ?thesis
    using assms by (simp add: pad_each_line_eq)
qed

section \<open>Reading back a whole catalogue\<close>

lemma item_text_plain: "item_ok it \<Longrightarrow> LF \<notin> set (item_text it) \<and> NUL \<notin> set (item_text it)"
  by (cases it) (simp add: item_ok_def item_text_def entry_text_plain)

lemma parse_item:
  assumes "item_ok it"
  shows "parse_entry SOH (cstr (padded w (item_text it))) = Inr (item_entry it)"
proof -
  obtain st p dest where it: "it = (st, p, dest)"
    by (cases it)
  have "cstr (padded w (item_text it)) = padded w (item_text it)"
    using item_text_plain [OF assms] by (simp add: padded_def)
  with assms it show ?thesis
    by (simp add: item_ok_def item_text_def item_entry_def padded_def parse_entry_text)
qed

lemma item_text_long: "it \<in> set its \<Longrightarrow> 13 \<le> catalog_width (map item_text its)"
proof -
  assume it: "it \<in> set its"
  obtain st p dest where "it = (st, p, dest)"
    by (cases it)
  then have "13 \<le> length (item_text it)"
    by (simp add: item_text_def entry_text_def entry_columns_def sp_def)
  also have "\<dots> \<le> catalog_width (map item_text its)"
    using max_line_ge [of "item_text it @ [LF]" "map (\<lambda>l. l @ [LF]) (map item_text its)"] it
    by (auto simp: catalog_width_def)
  finally show ?thesis .
qed

lemma mounted_wf:
  assumes "its \<noteq> []" "\<forall>it\<in>set its. item_ok it" "length fname < 224"
    and "int (catalog_width (map item_text its)) * int (length its) \<le> INT_MAX"
  shows "catalog_wf (mounted fname its)" "catalog_entries (mounted fname its) = map item_entry its"
proof -
  let ?w = "catalog_width (map item_text its)"
  let ?m = "mounted fname its"
  let ?xs = "map (\<lambda>it. padded ?w (item_text it)) its"
  have "catalog_text its = concat (map (\<lambda>l. l @ [LF]) (map item_text its))"
    by (simp add: catalog_text_def comp_def)
  then have content: "pad_each_line (catalog_text its) = concat ?xs"
    using pad_each_line_eq [of "map item_text its"] assms(2) item_text_plain by (simp add: comp_def)
  have len: "\<forall>x\<in>set ?xs. length x = ?w"
    using length_padded [of _ "map item_text its"] by auto
  have line: "catalog_line ?m i = padded ?w (item_text (its ! i))" if "i < length its" for i
    using nth_chunk [OF len, of i] that by (simp add: catalog_line_def mounted_def content)
  have parse: "parse_entry SOH (cstr (catalog_line ?m i)) = Inr (item_entry (its ! i))" if "i < length its" for i
    using parse_item [of "its ! i" ?w] line [OF that] that assms(2) by simp
  obtain it where "it \<in> set its"
    using assms(1) by (cases its) auto
  then have "13 \<le> ?w"
    by (rule item_text_long)
  moreover have "length (concat ?xs) = ?w * length its"
    using length_concat_chunks [OF len] by simp
  ultimately show "catalog_wf ?m"
    using assms parse by (simp add: catalog_wf_def mounted_def content parses_def)
  show "catalog_entries ?m = map item_entry its"
  proof (rule nth_equalityI)
    have n: "catalog_len ?m = int (length its)"
      by (simp add: mounted_def)
    show "length (catalog_entries ?m) = length (map item_entry its)"
      by (simp add: n)
    show "catalog_entries ?m ! i = map item_entry its ! i" if "i < length (catalog_entries ?m)" for i
      using that parse by (simp add: catalog_entries_def entry_of_line_def n)
  qed
qed

lemma print_entry_eq:
  "dir \<noteq> [] \<Longrightarrow> print_entry_to_catalog st (dir @ p) dest dir = Inr (entry_text st p dest @ [LF])"
  by (simp add: print_entry_to_catalog_def entry_text_def path_column_def Let_def)

section \<open>Properties\<close>

text \<open>C24: what the generator prints for a file, padded to any width, is read back by the file system as the
  same file: path, depth, link destination and all eight attributes. The file has one of the seven types that
  have a letter, its path is not empty and fits into the column, path and destination are without the bytes 1,
  newline and NUL, and the path of a link is without the byte 2.\<close>

theorem print_then_read_entry:
  assumes "dir \<noteq> []" "known_type (st_mode st)" "entry_ok (type_char (st_mode st)) p dest"
  shows "\<exists>line. print_entry_to_catalog st (dir @ p) dest dir = Inr line \<and>
           parse_entry SOH (cstr (pad_line w line)) =
             Inr \<lparr>wdf_depth = findDepth p, wdf_file_path = p, wdf_st_data = st,
                  wdf_link_dest = Some (if type_char (st_mode st) = CHR ''l'' then dest else [])\<rparr>"
proof -
  have "print_entry_to_catalog st (dir @ p) dest dir = Inr (entry_text st p dest @ [LF])"
    using assms(1) by (rule print_entry_eq)
  moreover have "pad_line w (entry_text st p dest @ [LF]) = padded w (entry_text st p dest)"
    using entry_text_plain [OF assms(3)] by (simp add: pad_line_eq padded_def)
  moreover have "parse_entry SOH (cstr (padded w (entry_text st p dest))) = Inr (expected_entry st p dest)"
    using parse_item [of "(st, p, dest)" w] assms(3) by (simp add: item_ok_def item_text_def item_entry_def)
  ultimately show ?thesis
    using assms(2) by (simp add: expected_entry_def catalog_mode_known)
qed

definition ex_link :: stat where
  "ex_link = \<lparr>st_mode = 0xA1FF, st_nlink = 1, st_uid = 1000, st_gid = 100, st_size = 4, st_atime = -1,
               st_mtime = 1213105161, st_ctime = 0\<rparr>"

theorem print_then_read_entry_witness:
  "\<exists>line. print_entry_to_catalog ex_link ''/tmp/a/l'' ''../b'' ''/tmp'' = Inr line \<and>
     parse_entry SOH (cstr (pad_line 90 line)) =
       Inr \<lparr>wdf_depth = 2, wdf_file_path = ''/a/l'', wdf_st_data = ex_link, wdf_link_dest = Some ''../b''\<rparr>"
proof -
  have "known_type (st_mode ex_link)" "entry_ok (type_char (st_mode ex_link)) ''/a/l'' ''../b''"
    "type_char (st_mode ex_link) = CHR ''l''" "findDepth ''/a/l'' = 2"
    by code_simp+
  with print_then_read_entry [of "''/tmp''" ex_link "''/a/l''" "''../b''" 90] show ?thesis
    by simp
qed

text \<open>Padding gives every line of the catalogue the same length and keeps the lines in order.\<close>

theorem pad_each_line_uniform:
  assumes "\<forall>l\<in>set ls. LF \<notin> set l \<and> NUL \<notin> set l"
  shows "\<exists>ps. getlines (pad_each_line (concat (map (\<lambda>l. l @ [LF]) ls))) = ps \<and> length ps = length ls \<and>
           (\<forall>i<length ls. length (ps ! i) = catalog_width ls \<and> prefix (ls ! i) (ps ! i) \<and>
              set (butlast (drop (length (ls ! i)) (ps ! i))) \<subseteq> {SOH})"
  using getlines_padded [OF assms] length_padded [of _ ls] by (auto simp: padded_def butlast_append)

theorem pad_each_line_uniform_witness:
  "\<exists>ps. getlines (pad_each_line (concat (map (\<lambda>l. l @ [LF]) [''a'', ''bcd'']))) = ps \<and> length ps = 2 \<and>
     (\<forall>i<2. length (ps ! i) = 4)"
proof -
  have w: "catalog_width [''a'', ''bcd''] = 4"
    by code_simp
  show ?thesis
    using pad_each_line_uniform [of "[''a'', ''bcd'']"] unfolding w by auto
qed

end
