(* ===== verification/Catalog_Walk.thy ===== *)
theory Catalog_Walk
  imports Catalog_Format "HOL-Library.Multiset"
begin

text \<open>
  The breadth-first walk of the generator against a directory tree. The pointer queue is replaced by
  a list (a refinement through the contract \<open>fifo_queue\<close>), and the walk over a finite tree ends
  and prints exactly one line for every file, and one more with a slash for every directory.
\<close>

section \<open>Directory trees\<close>

datatype tree = Leaf stat string | Branch stat "(string \<times> tree) list"

fun tree_stat :: "tree \<Rightarrow> stat" where
  "tree_stat (Leaf st dest) = st"
| "tree_stat (Branch st kids) = st"

text \<open>The link destination of a node: empty for everything but links.\<close>

fun tree_dest :: "tree \<Rightarrow> string" where
  "tree_dest (Leaf st dest) = (if file_type (st_mode st) = DT_LNK then dest else [])"
| "tree_dest (Branch st kids) = []"

fun is_branch :: "tree \<Rightarrow> bool" where
  "is_branch (Leaf st dest) = False"
| "is_branch (Branch st kids) = True"

text \<open>
  The operating system \<open>w\<close> shows the tree at a path: attributes, link destinations and directory
  entries agree. The entries of a directory are listed in the order in which \<open>scandir\<close> returns them.
\<close>

definition entries_match :: "dirent list \<Rightarrow> (string \<times> tree) list \<Rightarrow> bool" where
  "entries_match es kids =
     list_all2 (\<lambda>e k. d_name e = fst k \<and> (d_type e = DT_DIR \<longleftrightarrow> is_branch (snd k))) es kids"

fun shows_tree :: "os \<Rightarrow> string \<Rightarrow> tree \<Rightarrow> bool" where
  "shows_tree w path (Leaf st dest) \<longleftrightarrow>
     os_lstat w path = Some st \<and>
     (file_type (st_mode st) = DT_LNK \<longrightarrow> os_readlink w path = Some dest)"
| "shows_tree w path (Branch st kids) \<longleftrightarrow>
     os_lstat w path = Some st \<and> os_lstat w (path @ ''/'') = Some st \<and>
     file_type (st_mode st) = DT_DIR \<and>
     (case scandir w path filter_ent of None \<Rightarrow> False | Some es \<Rightarrow> entries_match es kids) \<and>
     (\<forall>k\<in>set kids. shows_tree w (path @ ''/'' @ fst k) (snd k))"

section \<open>What the walk prints\<close>

text \<open>The lines for the entries of a directory, and the directories among them.\<close>

definition kid_items :: "string \<Rightarrow> (string \<times> tree) list \<Rightarrow> item list" where
  "kid_items r kids = map (\<lambda>(n, t). (tree_stat t, r @ ''/'' @ n, tree_dest t)) kids"

definition kid_dirs :: "string \<Rightarrow> (string \<times> tree) list \<Rightarrow> (string \<times> tree) list" where
  "kid_dirs r kids = map (\<lambda>(n, t). (r @ ''/'' @ n, t)) (filter (\<lambda>(n, t). is_branch t) kids)"

lemma kid_dirs_size: "sum_list (map (\<lambda>x. Suc (size (snd x))) (kid_dirs r kids)) \<le> size_list (size_prod (\<lambda>_. 0) size) kids"
  by (induction kids) (auto simp: kid_dirs_def)

text \<open>Breadth first: the directories still to be visited, with their paths below the input directory.\<close>

function bfs_items :: "(string \<times> tree) list \<Rightarrow> item list" where
  "bfs_items [] = []"
| "bfs_items ((r, Leaf st dest) # q) = bfs_items q"
| "bfs_items ((r, Branch st kids) # q) =
     (st, r @ ''/'', []) # kid_items r kids @ bfs_items (q @ kid_dirs r kids)"
  by pat_completeness auto
termination
  by (relation "measure (\<lambda>q. sum_list (map (\<lambda>x. Suc (size (snd x))) q))")
    (auto simp: less_Suc_eq_le intro: le_SucI kid_dirs_size)

text \<open>Depth first, as a simple recursion over the tree: the same lines in another order.\<close>

fun dfs_items :: "string \<Rightarrow> tree \<Rightarrow> item list" where
  "dfs_items r (Leaf st dest) = []"
| "dfs_items r (Branch st kids) =
     (st, r @ ''/'', []) #
     concat (map (\<lambda>k. (tree_stat (snd k), r @ ''/'' @ fst k, tree_dest (snd k)) #
                      dfs_items (r @ ''/'' @ fst k) (snd k)) kids)"

text \<open>The number of directories of a tree: the rounds the walk needs.\<close>

fun dir_count :: "tree \<Rightarrow> nat" where
  "dir_count (Leaf st dest) = 0"
| "dir_count (Branch st kids) = Suc (sum_list (map (\<lambda>k. dir_count (snd k)) kids))"

section \<open>From the pointer queue to a list\<close>

text \<open>The same loop over a list of names.\<close>

definition list_ins :: "string list \<Rightarrow> string \<Rightarrow> (int \<times> string list) res" where
  "list_ins xs x = Inr (0, xs @ [x])"

fun list_rem :: "string list \<Rightarrow> (string \<times> string list) res" where
  "list_rem [] = Inl Undefined"
| "list_rem (x # xs) = Inr (x, xs)"

text \<open>A queue of paths that takes every path that fits a buffer of \<open>MAXPATHLEN\<close> bytes.\<close>

locale path_queue = fifo_queue init nonempty ins rem ready valid rep
  for init nonempty and ins :: "'q \<Rightarrow> string \<Rightarrow> (int \<times> 'q) res" and rem ready valid rep +
  assumes valid_short: "length s < MAXPATHLEN \<Longrightarrow> valid s"
begin

lemma scan_loop_refines:
  "rep q xs \<Longrightarrow>
     rel_sum (=) (\<lambda>(q', o1) (xs', o2). rep q' xs' \<and> o1 = o2)
       (scan_loop ins w d cur es (q, out)) (scan_loop list_ins w d cur es (xs, out))"
proof (induction es arbitrary: q xs out)
  case Nil
  then show ?case by simp
next
  case (Cons e es)
  let ?t = "cur @ ''/'' @ d_name e"
  show ?case
  proof (cases "print_to_catalog w ?t d")
    case (Inl err)
    then show ?thesis
      by (simp add: path_buf_def)
  next
    case (Inr line)
    show ?thesis
    proof (cases "length ?t < MAXPATHLEN")
      case False
      then show ?thesis by (simp add: path_buf_def)
    next
      case True
      then obtain q' where "ins q ?t = Inr (0, q')" "rep q' (xs @ [?t])"
        using rep_insert [OF Cons.prems] valid_short by blast
      with Inr True Cons.IH [of q' "xs @ [?t]"] Cons.IH [OF Cons.prems] show ?thesis
        by (simp add: path_buf_def list_ins_def)
    qed
  qed
qed

lemma listing_step_refines:
  assumes "rep q (x # xs)"
  shows "rel_sum (=) (\<lambda>(q', o1) (xs', o2). rep q' xs' \<and> o1 = o2)
           (listing_step ins rem w d (q, out)) (listing_step list_ins list_rem w d (x # xs, out))"
proof -
  obtain q' where q': "rem q = Inr (x, q')" "rep q' xs"
    using rep_remove [OF assms] by blast
  show ?thesis
    using q' scan_loop_refines [OF q'(2)]
    by (cases "path_buf (x @ ''/'')"; cases "print_to_catalog w (x @ ''/'') d")
      (auto simp: listing_step_def bind_res_def path_buf_def split: option.splits if_splits sum.splits)
qed

theorem listing_loop_refines:
  "rep q xs \<Longrightarrow>
     listing_loop n nonempty ins rem w d (q, out) =
     listing_loop n (\<lambda>ys. ys \<noteq> []) list_ins list_rem w d (xs, out)"
proof (induction n arbitrary: q xs out)
  case 0
  then show ?case by (simp add: rep_nonempty)
next
  case (Suc n)
  show ?case
  proof (cases xs)
    case Nil
    with Suc.prems show ?thesis by (simp add: rep_nonempty)
  next
    case (Cons x ys)
    have ne: "nonempty q"
      using rep_nonempty [OF Suc.prems] Cons by simp
    from listing_step_refines [of q x ys w d out] Suc.prems Cons ne Suc.IH show ?thesis
      by (cases "listing_step ins rem w d (q, out)"; cases "listing_step list_ins list_rem w d (x # ys, out)")
        auto
  qed
qed

end

interpretation bfpq: path_queue init_queue "\<lambda>q. head q \<noteq> 0" insert_queue dequeue_dir
  "\<lambda>q. good_malloc (malloc q)" short_name queue_rep
  by unfold_locales (simp add: short_name_def)

lemma catalog_listing_list:
  assumes "good_malloc (malloc q0)" "length d < MAXPATHLEN"
  shows "catalog_listing n w q0 d = listing_loop n (\<lambda>ys. ys \<noteq> []) list_ins list_rem w d ([d], [])"
proof -
  have "queue_rep (init_queue q0) []"
    using bfq.rep_init assms(1) .
  then obtain q1 where "insert_queue (init_queue q0) d = Inr (0, q1)" "queue_rep q1 [d]"
    using bfq.rep_insert [of "init_queue q0" "[]" d] assms(2) by (auto simp: short_name_def)
  with bfpq.listing_loop_refines [of q1 "[d]" n w d "[]"] assms(2) show ?thesis
    by (simp add: catalog_listing_def)
qed

section \<open>The walk over a tree\<close>

text \<open>The paths and link destinations that the buffers of the generator can hold.\<close>

definition fits :: "string \<Rightarrow> item \<Rightarrow> bool" where
  "fits d = (\<lambda>(st, p, dest). length (d @ p) < MAXPATHLEN \<and> length dest < MAXPATHLEN)"

lemma type_char_link: "type_char mode = CHR ''l'' \<longleftrightarrow> file_type mode = DT_LNK"
  by (simp add: type_char_def DT_defs Let_def)

lemma print_node:
  assumes "shows_tree w (d @ r) t" "d \<noteq> []" "length (tree_dest t) < MAXPATHLEN"
  shows "print_to_catalog w (d @ r) d = Inr (item_text (tree_stat t, r, tree_dest t) @ [LF])"
  using assms
  by (cases t) (auto simp: print_to_catalog_def item_text_def print_entry_eq DT_defs)

lemma print_dir:
  assumes "shows_tree w (d @ r) (Branch st kids)" "d \<noteq> []"
  shows "print_to_catalog w (d @ r @ ''/'') d = Inr (item_text (st, r @ ''/'', []) @ [LF])"
  using assms print_entry_eq [of d st "r @ ''/''" "[]"]
  by (auto simp: print_to_catalog_def item_text_def DT_defs)

lemma catalog_text_simps [simp]:
  "catalog_text [] = []" "catalog_text (it # its) = item_text it @ [LF] @ catalog_text its"
  "catalog_text (xs @ ys) = catalog_text xs @ catalog_text ys"
  by (simp_all add: catalog_text_def)

lemma kid_simps [simp]:
  "kid_items r [] = []" "kid_dirs r [] = []"
  "kid_items r ((n, t) # ks) = (tree_stat t, r @ ''/'' @ n, tree_dest t) # kid_items r ks"
  "kid_dirs r ((n, t) # ks) = (if is_branch t then [(r @ ''/'' @ n, t)] else []) @ kid_dirs r ks"
  by (simp_all add: kid_items_def kid_dirs_def)

lemma scan_loop_list:
  assumes "entries_match es kids" "d \<noteq> []"
    and "\<forall>k\<in>set kids. shows_tree w (d @ r @ ''/'' @ fst k) (snd k)"
    and "\<forall>it\<in>set (kid_items r kids). fits d it"
  shows "scan_loop list_ins w d (d @ r) es (xs, out) =
           Inr (xs @ map (\<lambda>(p, t). d @ p) (kid_dirs r kids), out @ catalog_text (kid_items r kids))"
  using assms(1,3,4) unfolding entries_match_def
proof (induction es kids arbitrary: xs out rule: list_all2_induct)
  case Nil
  then show ?case by simp
next
  case (Cons e es k kids)
  obtain n t where k: "k = (n, t)"
    by fastforce
  have fit: "length (d @ r @ ''/'' @ n) < MAXPATHLEN" "length (tree_dest t) < MAXPATHLEN"
    using Cons.prems(2) k by (auto simp: fits_def)
  have "print_to_catalog w (d @ r @ ''/'' @ n) d =
      Inr (item_text (tree_stat t, r @ ''/'' @ n, tree_dest t) @ [LF])"
    using print_node [of w d "r @ ''/'' @ n" t] Cons.prems(1) k assms(2) fit(2) by simp
  with Cons k fit show ?case
    by (simp add: path_buf_def list_ins_def)
qed

lemma dir_count_kid_dirs:
  "sum_list (map (\<lambda>x. dir_count (snd x)) (kid_dirs r kids)) = sum_list (map (\<lambda>k. dir_count (snd k)) kids)"
proof (induction kids)
  case Nil
  then show ?case by simp
next
  case (Cons k kids)
  then show ?case
    by (cases k; cases "snd k") auto
qed

lemma kid_dirs_shown:
  assumes "\<forall>k\<in>set kids. shows_tree w (d @ r @ ''/'' @ fst k) (snd k)" "(p, t) \<in> set (kid_dirs r kids)"
  shows "shows_tree w (d @ p) t \<and> is_branch t"
  using assms by (force simp: kid_dirs_def)

lemma listing_loop_tree:
  assumes "d \<noteq> []"
  shows "\<forall>x\<in>set q. shows_tree w (d @ fst x) (snd x) \<and> is_branch (snd x) \<Longrightarrow>
     \<forall>it\<in>set (bfs_items q). fits d it \<Longrightarrow>
     sum_list (map (\<lambda>x. dir_count (snd x)) q) \<le> n \<Longrightarrow>
     listing_loop n (\<lambda>ys. ys \<noteq> []) list_ins list_rem w d (map (\<lambda>(p, t). d @ p) q, out) =
       Some (Inr (out @ catalog_text (bfs_items q)))"
proof (induction q arbitrary: n out rule: bfs_items.induct)
  case 1
  then show ?case by (cases n) simp_all
next
  case (2 r st dest q)
  then show ?case by simp
next
  case (3 r st kids q)
  then obtain n' where n: "n = Suc n'"
    by (cases n) auto
  have shown: "shows_tree w (d @ r) (Branch st kids)"
    and kids: "\<forall>k\<in>set kids. shows_tree w (d @ r @ ''/'' @ fst k) (snd k)"
    using "3.prems"(1) by auto
  then obtain es where es: "scandir w (d @ r) filter_ent = Some es" "entries_match es kids"
    by (auto split: option.splits)
  have "length (d @ r @ ''/'') < MAXPATHLEN"
    using "3.prems"(2) by (simp add: fits_def)
  then have step: "listing_step list_ins list_rem w d (map (\<lambda>(p, t). d @ p) ((r, Branch st kids) # q), out) =
      Inr (map (\<lambda>(p, t). d @ p) (q @ kid_dirs r kids),
           out @ catalog_text ((st, r @ ''/'', []) # kid_items r kids))"
    using print_dir [OF shown assms] es scan_loop_list [OF es(2) assms kids] "3.prems"(2)
    by (simp add: listing_step_def path_buf_def)
  have "listing_loop n' (\<lambda>ys. ys \<noteq> []) list_ins list_rem w d
      (map (\<lambda>(p, t). d @ p) (q @ kid_dirs r kids), out @ catalog_text ((st, r @ ''/'', []) # kid_items r kids)) =
      Some (Inr ((out @ catalog_text ((st, r @ ''/'', []) # kid_items r kids)) @
        catalog_text (bfs_items (q @ kid_dirs r kids))))"
    using "3.prems" kid_dirs_shown [OF kids] n
    by (intro "3.IH") (auto simp: dir_count_kid_dirs)
  with step n show ?case
    by simp
qed

lemma dfs_items_kids:
  "mset (concat (map (\<lambda>k. (tree_stat (snd k), r @ ''/'' @ fst k, tree_dest (snd k)) #
                      dfs_items (r @ ''/'' @ fst k) (snd k)) kids)) =
     mset (kid_items r kids) + sum_list (map (\<lambda>(p, t). mset (dfs_items p t)) (kid_dirs r kids))"
proof (induction kids)
  case Nil
  then show ?case by simp
next
  case (Cons k kids)
  obtain n t where k: "k = (n, t)"
    by fastforce
  show ?case
  proof (cases "is_branch t")
    case True
    with Cons.IH k show ?thesis
      by (simp add: ac_simps del: dfs_items.simps)
  next
    case False
    then have "dfs_items (r @ ''/'' @ n) t = []"
      by (cases t) simp_all
    with False Cons.IH k show ?thesis
      by (simp del: dfs_items.simps)
  qed
qed

lemma bfs_dfs: "mset (bfs_items q) = sum_list (map (\<lambda>(p, t). mset (dfs_items p t)) q)"
proof (induction q rule: bfs_items.induct)
  case (3 r st kids q)
  then show ?case
    using dfs_items_kids [of r kids] by (simp add: ac_simps)
qed simp_all

lemma set_bfs_items: "set (bfs_items [(r, t)]) = set (dfs_items r t)"
  using bfs_dfs [of "[(r, t)]"] by (intro mset_eq_setD) simp

section \<open>Properties\<close>

text \<open>A directory with a sub-directory, a link in it and a plain file, as the operating system shows it.\<close>

definition ex_stat :: "32 word \<Rightarrow> stat" where
  "ex_stat mode = \<lparr>st_mode = mode, st_nlink = 1, st_uid = 10, st_gid = 6, st_size = 4, st_atime = -1,
                   st_mtime = 12, st_ctime = 0\<rparr>"

definition ex_tree :: tree where
  "ex_tree = Branch (ex_stat 0x41ED)
     [(''a'', Branch (ex_stat 0x41ED) [(''l'', Leaf (ex_stat 0xA1FF) ''../b'')]),
      (''b'', Leaf (ex_stat 0x81A4) [])]"

definition ex_os :: os where
  "ex_os =
     \<lparr>os_lstat = map_of [(''/d'', ex_stat 0x41ED), (''/d/'', ex_stat 0x41ED), (''/d/a'', ex_stat 0x41ED),
        (''/d/a/'', ex_stat 0x41ED), (''/d/a/l'', ex_stat 0xA1FF), (''/d/b'', ex_stat 0x81A4)],
      os_readdir = map_of [
        (''/d'', [\<lparr>d_name = ''b'', d_type = 8\<rparr>, \<lparr>d_name = ''..'', d_type = 4\<rparr>, \<lparr>d_name = ''a'', d_type = 4\<rparr>,
                  \<lparr>d_name = ''.'', d_type = 4\<rparr>]),
        (''/d/a'', [\<lparr>d_name = ''.'', d_type = 4\<rparr>, \<lparr>d_name = ''..'', d_type = 4\<rparr>, \<lparr>d_name = ''l'', d_type = 10\<rparr>])],
      os_readlink = map_of [(''/d/a/l'', ''../b'')],
      os_stat = map_of [(''/d'', ex_stat 0x41ED)], os_fopen = (\<lambda>_. True), os_rename = (\<lambda>_ _. True)\<rparr>"

lemma ex_tree_shown: "shows_tree ex_os ''/d'' ex_tree"
  by code_simp

lemma ex_tree_fits: "\<forall>it\<in>set (dfs_items [] ex_tree). fits ''/d'' it"
  by code_simp

text \<open>C23: on a finite directory tree whose paths fit the buffers, the breadth-first walk of the
  generator ends after one round for each directory, and prints exactly one line for every file below the
  directory and one more, with a slash, for every directory.\<close>

theorem catalog_listing_prints_tree:
  assumes "good_malloc (malloc q0)" "d \<noteq> []" "shows_tree w d t" "is_branch t"
    and "\<forall>it\<in>set (dfs_items [] t). fits d it" "dir_count t \<le> n"
  shows "\<exists>its. catalog_listing n w q0 d = Some (Inr (catalog_text its)) \<and> mset its = mset (dfs_items [] t)"
proof -
  obtain st kids where t: "t = Branch st kids"
    using assms(4) by (cases t) auto
  then have "length d < MAXPATHLEN"
    using assms(5) by (auto simp: fits_def)
  then have "catalog_listing n w q0 d = Some (Inr (catalog_text (bfs_items [([], t)])))"
    using catalog_listing_list [OF assms(1), of d n w] listing_loop_tree [OF assms(2), of "[([], t)]" w n "[]"]
      assms(3-6) by (simp add: set_bfs_items)
  then show ?thesis
    using bfs_dfs [of "[([], t)]"] by auto
qed

theorem catalog_listing_prints_tree_witness:
  "\<exists>its. catalog_listing 2 ex_os empty_queue ''/d'' = Some (Inr (catalog_text its)) \<and>
     mset its = mset (dfs_items [] ex_tree)"
proof -
  have "good_malloc (malloc empty_queue)"
    by (simp add: empty_queue_def good_bump_malloc)
  moreover have "is_branch ex_tree" "dir_count ex_tree \<le> 2"
    by code_simp+
  ultimately show ?thesis
    using catalog_listing_prints_tree [OF _ _ ex_tree_shown _ ex_tree_fits, of empty_queue 2] by simp
qed

end
