(* ===== verification/Catalog_Order.thy ===== *)
theory Catalog_Order
  imports Catalog_Walk Catalog_Fs
begin

text \<open>
  The order of the generated lines. The file system searches the catalogue by depth and path, so the
  walk has to print the lines in that order. It does so exactly when no directory has two
  sub-directories whose names compare differently once the slash is appended.
\<close>

section \<open>Reference definitions\<close>

text \<open>The names of a directory, as any file system has them: distinct, not empty and without a slash.\<close>

fun proper_names :: "tree \<Rightarrow> bool" where
  "proper_names (Leaf st dest) \<longleftrightarrow> True"
| "proper_names (Branch st kids) \<longleftrightarrow>
     distinct (map fst kids) \<and> (\<forall>k\<in>set kids. fst k \<noteq> [] \<and> slash \<notin> set (fst k)) \<and>
     (\<forall>k\<in>set kids. proper_names (snd k))"

text \<open>The names of every directory in the order of \<open>scandir\<close>.\<close>

fun names_sorted :: "tree \<Rightarrow> bool" where
  "names_sorted (Leaf st dest) \<longleftrightarrow> True"
| "names_sorted (Branch st kids) \<longleftrightarrow>
     sorted_wrt (<) (map fst kids) \<and> (\<forall>k\<in>set kids. names_sorted (snd k))"

text \<open>The names of sub-directories stay in order with a slash appended.\<close>

fun siblings_ordered :: "tree \<Rightarrow> bool" where
  "siblings_ordered (Leaf st dest) \<longleftrightarrow> True"
| "siblings_ordered (Branch st kids) \<longleftrightarrow>
     sorted_wrt (<) (map (\<lambda>k. fst k @ ''/'') (filter (\<lambda>(n, t). is_branch t) kids)) \<and>
     (\<forall>k\<in>set kids. siblings_ordered (snd k))"

text \<open>The search key of a line.\<close>

definition item_key :: "item \<Rightarrow> int \<times> string" where
  "item_key = (\<lambda>(st, p, dest). (findDepth p, p))"

text \<open>The number of slashes of a path.\<close>

definition slashes :: "string \<Rightarrow> nat" where
  "slashes p = length (filter (\<lambda>c. c = slash) p)"

text \<open>Paths below the input directory are empty or start with a slash.\<close>

definition below :: "string \<Rightarrow> bool" where
  "below r \<longleftrightarrow> r = [] \<or> hd r = slash"

section \<open>Paths\<close>

lemma slashes_simps [simp]:
  "slashes [] = 0" "slashes (a @ b) = slashes a + slashes b"
  "slashes (c # a) = (if c = slash then Suc (slashes a) else slashes a)"
  "slash \<notin> set n \<Longrightarrow> slashes n = 0"
  by (auto simp: slashes_def filter_empty_conv)

lemma below_append [simp]: "below r \<Longrightarrow> below (r @ slash # n)"
  by (cases r) (auto simp: below_def)

lemma findDepth_below: "below r \<Longrightarrow> findDepth (r @ slash # n) = int (Suc (slashes r + slashes n))"
  by (cases r) (auto simp: below_def findDepth_def slashes_def)

lemma append_less_apart:
  "a < b \<Longrightarrow> \<not> prefix a b \<Longrightarrow> a @ x < (b :: string) @ y"
proof (induction a arbitrary: b)
  case Nil
  then show ?case by simp
next
  case (Cons c a)
  then obtain d b' where b: "b = d # b'"
    by (cases b) simp_all
  show ?case
  proof (cases "c = d")
    case True
    with Cons.prems b have "a @ x < b' @ y"
      by (intro Cons.IH) simp_all
    with True b show ?thesis by simp
  next
    case False
    with Cons.prems b show ?thesis by simp
  qed
qed

lemma dir_prefix_slashes:
  assumes "prefix (a @ ''/'') (b @ ''/'')" "a \<noteq> b"
  shows "slashes a < slashes b"
proof -
  obtain s where s: "b @ ''/'' = (a @ ''/'') @ s"
    using assms(1) by (auto simp: prefix_def)
  then have ne: "s \<noteq> []"
    using assms(2) by (cases "s = []") simp_all
  moreover have "last s = slash"
    using arg_cong [OF s, of last] ne by simp
  ultimately have "slash \<in> set s"
    using last_in_set [of s] by simp
  then have "0 < slashes s"
    by (auto simp: slashes_def filter_empty_conv)
  moreover have "slashes (b @ ''/'') = slashes (a @ ''/'') + slashes s"
    unfolding s by simp
  ultimately show ?thesis by simp
qed

lemma dir_less_apart:
  assumes "a @ ''/'' < b @ ''/''" "slashes b \<le> slashes a"
  shows "a @ slash # x < b @ slash # y"
proof -
  have "a \<noteq> b"
    using assms(1) by auto
  then have "\<not> prefix (a @ ''/'') (b @ ''/'')"
    using dir_prefix_slashes assms(2) by fastforce
  then show ?thesis
    using append_less_apart [OF assms(1), of x y] by simp
qed

section \<open>The queue keeps the order\<close>

text \<open>
  How two directories of the queue are related, the first of them inserted earlier: on the same level
  in path order, or the second one a level below and left of the first.
\<close>

definition dir_before :: "string \<Rightarrow> string \<Rightarrow> bool" where
  "dir_before a b \<longleftrightarrow>
     slashes a = slashes b \<and> a @ ''/'' < b @ ''/'' \<or>
     slashes b = Suc (slashes a) \<and> b @ ''/'' < a @ ''/''"

lemma dir_before_same:
  "dir_before r b \<Longrightarrow> slashes r = slashes b \<Longrightarrow> r @ slash # n < b @ slash # y"
  by (rule dir_less_apart) (simp_all add: dir_before_def)

lemma dir_before_deeper:
  "dir_before r b \<Longrightarrow> slashes r \<noteq> slashes b \<Longrightarrow> b @ slash # n < r @ slash # y"
  by (rule dir_less_apart) (simp_all add: dir_before_def)

lemma key_after:
  assumes "dir_before r b" "below r" "below b" "slash \<notin> set n"
  shows "(findDepth (r @ slash # n), r @ slash # n) < (findDepth (b @ slash # y), b @ slash # y)"
proof (cases "slashes r = slashes b")
  case True
  show ?thesis
    using dir_before_same [OF assms(1) True] True assms(2-4) by (simp add: findDepth_below)
next
  case False
  with assms show ?thesis
    by (simp add: findDepth_below dir_before_def)
qed

lemma key_after_child:
  assumes "below r" "slash \<notin> set n"
  shows "(findDepth (r @ slash # n), r @ slash # n) <
         (findDepth (r @ slash # k @ slash # y), r @ slash # k @ slash # y)"
  using assms findDepth_below [of "r @ slash # k" y] by (simp add: findDepth_below)

lemma dir_before_child:
  assumes "dir_before r b" "slash \<notin> set n"
  shows "dir_before b (r @ slash # n)"
proof (cases "slashes r = slashes b")
  case True
  show ?thesis
    using dir_before_same [OF assms(1) True, of "n @ ''/''" "[]"] True assms(2) by (simp add: dir_before_def)
next
  case False
  then show ?thesis
    using dir_before_deeper [OF assms(1) False, of "[]" "n @ ''/''"] assms by (simp add: dir_before_def)
qed

lemma dfs_items_below:
  "it \<in> set (dfs_items r t) \<Longrightarrow> \<exists>y. fst (snd it) = r @ slash # y"
proof (induction r t rule: dfs_items.induct)
  case (1 r st dest)
  then show ?case by simp
next
  case (2 r st kids)
  from "2.prems" consider "it = (st, r @ ''/'', [])"
    | k where "k \<in> set kids" "it = (tree_stat (snd k), r @ ''/'' @ fst k, tree_dest (snd k))"
    | k where "k \<in> set kids" "it \<in> set (dfs_items (r @ ''/'' @ fst k) (snd k))"
    by auto
  then show ?case
  proof cases
    case 3
    with "2.IH" [of k] show ?thesis by auto
  qed auto
qed

lemma bfs_items_below:
  assumes "it \<in> set (bfs_items q)"
  shows "\<exists>x\<in>set q. \<exists>y. fst (snd it) = fst x @ slash # y"
proof -
  have "set_mset (sum_list (map (\<lambda>(p, t). mset (dfs_items p t)) q)) = (\<Union>(p, t)\<in>set q. set (dfs_items p t))"
    by (induction q) auto
  then have "it \<in> (\<Union>(p, t)\<in>set q. set (dfs_items p t))"
    using assms bfs_dfs [of q] by (metis set_mset_mset)
  then obtain p t where x: "(p, t) \<in> set q" "it \<in> set (dfs_items p t)"
    by blast
  then show ?thesis
    using dfs_items_below [OF x(2)] by (intro bexI [OF _ x(1)]) simp
qed

lemma kid_dirs_elem:
  "x \<in> set (kid_dirs r kids) \<Longrightarrow> \<exists>n. (n, snd x) \<in> set kids \<and> is_branch (snd x) \<and> fst x = r @ slash # n"
  by (auto simp: kid_dirs_def)

text \<open>The key of the entry \<open>n\<close> of the directory \<open>r\<close>, and of the directory itself for the empty name.\<close>

definition entry_key :: "string \<Rightarrow> string \<Rightarrow> int \<times> string" where
  "entry_key r n = (findDepth (r @ slash # n), r @ slash # n)"

lemma item_keys_dir: "map item_key ((st, r @ ''/'', []) # kid_items r kids) = map (entry_key r) ([] # map fst kids)"
  by (simp add: item_key_def kid_items_def entry_key_def case_prod_unfold)

lemma entry_keys_sorted:
  assumes "below r" "sorted_wrt (<) ns" "\<forall>n\<in>set ns. n \<noteq> [] \<and> slash \<notin> set n"
  shows "sorted_wrt (<) (map (entry_key r) ([] # ns))"
proof -
  have "entry_key r n < entry_key r n'" if "n < n'" "slash \<notin> set n" "slash \<notin> set n'" for n n'
    using that assms(1) by (simp add: entry_key_def findDepth_below)
  moreover have "sorted_wrt (<) ([] # ns)"
  proof -
    have "[] < n" if "n \<in> set ns" for n
      using assms(3) that by (cases n) auto
    with assms(2) show ?thesis by simp
  qed
  moreover have "\<forall>n\<in>set ([] # ns). slash \<notin> set n"
    using assms(3) by simp
  ultimately show ?thesis
    unfolding sorted_wrt_map by (metis (no_types, lifting) sorted_wrt_mono_rel)
qed

lemma kid_dirs_sorted:
  assumes "sorted_wrt (<) (map (\<lambda>k. fst k @ ''/'') (filter (\<lambda>(n, t). is_branch t) kids))"
    and "\<forall>k\<in>set kids. slash \<notin> set (fst k)"
  shows "sorted_wrt (\<lambda>a b. dir_before (fst a) (fst b)) (kid_dirs r kids)"
proof -
  let ?ds = "filter (\<lambda>(n, t). is_branch t) kids"
  have "dir_before (r @ slash # fst a) (r @ slash # fst b)"
    if "fst a @ ''/'' < fst b @ ''/''" "a \<in> set ?ds" "b \<in> set ?ds" for a b
    using that assms(2) by (auto simp: dir_before_def)
  then have "sorted_wrt (\<lambda>a b. dir_before (r @ slash # fst a) (r @ slash # fst b)) ?ds"
    using assms(1) unfolding sorted_wrt_map by (metis (no_types, lifting) sorted_wrt_mono_rel)
  then show ?thesis
    by (simp add: kid_dirs_def sorted_wrt_map case_prod_unfold)
qed

text \<open>Whatever the names, the depths of the lines do not decrease: the queue holds one level, and behind it the next.\<close>

lemma bfs_depths_from:
  assumes "\<forall>x\<in>set q. below (fst x) \<and> n \<le> slashes (fst x)" "it \<in> set (bfs_items q)"
  shows "int (Suc n) \<le> findDepth (fst (snd it))"
proof -
  obtain x y where x: "x \<in> set q" "fst (snd it) = fst x @ slash # y"
    using bfs_items_below [OF assms(2)] by blast
  with assms(1) findDepth_below [of "fst x" y] show ?thesis
    by fastforce
qed

lemma bfs_depths_sorted:
  "sorted_wrt (\<lambda>a b. slashes (fst a) \<le> slashes (fst b) \<and> slashes (fst b) \<le> Suc (slashes (fst a))) q \<Longrightarrow>
   \<forall>x\<in>set q. below (fst x) \<and> proper_names (snd x) \<Longrightarrow>
   sorted (map (\<lambda>it. findDepth (fst (snd it))) (bfs_items q))"
proof (induction q rule: bfs_items.induct)
  case 1
  then show ?case by simp
next
  case (2 r st dest q)
  then show ?case by simp
next
  case (3 r st kids q)
  let ?q = "q @ kid_dirs r kids"
  have r: "below r" and names: "\<forall>k\<in>set kids. slash \<notin> set (fst k)" and kids: "\<forall>k\<in>set kids. proper_names (snd k)"
    using "3.prems"(2) by auto
  have kd: "below (fst x) \<and> proper_names (snd x) \<and> slashes (fst x) = Suc (slashes r)" if "x \<in> set (kid_dirs r kids)" for x
    using kid_dirs_elem [OF that] names kids r by force
  have old: "slashes r \<le> slashes (fst x) \<and> slashes (fst x) \<le> Suc (slashes r)" if "x \<in> set q" for x
    using "3.prems"(1) that by simp
  have "sorted_wrt (\<lambda>a b. slashes (fst a) \<le> slashes (fst b) \<and> slashes (fst b) \<le> Suc (slashes (fst a))) (kid_dirs r kids)"
    by (rule sorted_wrt_mono_rel [of _ "\<lambda>_ _. True"]) (auto simp: kd sorted_wrt_iff_nth_less)
  then have level: "sorted_wrt (\<lambda>a b. slashes (fst a) \<le> slashes (fst b) \<and> slashes (fst b) \<le> Suc (slashes (fst a))) ?q"
    using "3.prems"(1) old kd by (simp add: sorted_wrt_append)
  have ok: "\<forall>x\<in>set ?q. below (fst x) \<and> proper_names (snd x)"
    using "3.prems"(2) kd by auto
  have later: "int (Suc (slashes r)) \<le> findDepth (fst (snd it))" if "it \<in> set (bfs_items ?q)" for it
    by (rule bfs_depths_from [OF _ that]) (use ok old kd in auto)
  have here: "findDepth (fst (snd it)) = int (Suc (slashes r))" if "it \<in> set ((st, r @ ''/'', []) # kid_items r kids)" for it
  proof -
    have "\<exists>n. fst (snd it) = r @ slash # n \<and> slash \<notin> set n"
      using that names by (auto simp: kid_items_def)
    then show ?thesis
      using findDepth_below [OF r] by auto
  qed
  have "sorted_wrt (\<le>) (map (\<lambda>it. findDepth (fst (snd it))) ((st, r @ ''/'', []) # kid_items r kids))"
    unfolding sorted_wrt_map by (rule sorted_wrt_mono_rel [of _ "\<lambda>_ _. True"]) (simp_all only: here order_refl, simp add: sorted_wrt_iff_nth_less)
  then show ?case
    using "3.IH" [OF level ok] here later by (force simp: sorted_append)
qed

lemma bfs_keys_sorted:
  "sorted_wrt (\<lambda>a b. dir_before (fst a) (fst b)) q \<Longrightarrow>
   \<forall>x\<in>set q. below (fst x) \<and> proper_names (snd x) \<and> names_sorted (snd x) \<and> siblings_ordered (snd x) \<Longrightarrow>
   sorted_wrt (<) (map item_key (bfs_items q))"
proof (induction q rule: bfs_items.induct)
  case 1
  then show ?case by simp
next
  case (2 r st dest q)
  then show ?case by simp
next
  case (3 r st kids q)
  let ?q = "q @ kid_dirs r kids"
  have r: "below r" and names: "\<forall>k\<in>set kids. fst k \<noteq> [] \<and> slash \<notin> set (fst k)"
    and kids: "sorted_wrt (<) (map fst kids)"
      "sorted_wrt (<) (map (\<lambda>k. fst k @ ''/'') (filter (\<lambda>(n, t). is_branch t) kids))"
      "\<forall>k\<in>set kids. proper_names (snd k) \<and> names_sorted (snd k) \<and> siblings_ordered (snd k)"
    using "3.prems"(2) by auto
  have kd: "\<exists>n. fst x = r @ slash # n \<and> slash \<notin> set n \<and> below (fst x) \<and> proper_names (snd x) \<and>
      names_sorted (snd x) \<and> siblings_ordered (snd x)" if "x \<in> set (kid_dirs r kids)" for x
    using kid_dirs_elem [OF that] names kids(3) r by force
  have "sorted_wrt (\<lambda>a b. dir_before (fst a) (fst b)) ?q"
    unfolding sorted_wrt_append
    using "3.prems"(1) kid_dirs_sorted [OF kids(2)] names kd dir_before_child by fastforce
  moreover have "\<forall>x\<in>set ?q. below (fst x) \<and> proper_names (snd x) \<and> names_sorted (snd x) \<and> siblings_ordered (snd x)"
    using "3.prems"(2) kd by auto
  ultimately have rest: "sorted_wrt (<) (map item_key (bfs_items ?q))"
    by (rule "3.IH")
  have first: "sorted_wrt (<) (map (entry_key r) ([] # map fst kids))"
    using r kids(1) names by (intro entry_keys_sorted) auto
  have "entry_key r n < item_key it" if "n \<in> set ([] # map fst kids)" "it \<in> set (bfs_items ?q)" for n it
  proof -
    have n: "slash \<notin> set n"
      using that(1) names by auto
    obtain x y where x: "x \<in> set ?q" "fst (snd it) = fst x @ slash # y"
      using bfs_items_below [OF \<open>it \<in> set (bfs_items ?q)\<close>] by blast
    then have key: "item_key it = (findDepth (fst x @ slash # y), fst x @ slash # y)"
      by (simp add: item_key_def case_prod_unfold)
    show ?thesis
    proof (cases "x \<in> set q")
      case True
      with "3.prems" have "dir_before r (fst x)" "below (fst x)"
        by auto
      then show ?thesis
        unfolding key entry_key_def using r n by (intro key_after)
    next
      case False
      then have "x \<in> set (kid_dirs r kids)"
        using x(1) by simp
      then obtain k where "fst x = r @ slash # k"
        using kd by blast
      then show ?thesis
        unfolding key entry_key_def using key_after_child [OF r n, of k y] by simp
    qed
  qed
  moreover have "map item_key (bfs_items ((r, Branch st kids) # q)) =
      map (entry_key r) ([] # map fst kids) @ map item_key (bfs_items ?q)"
    using item_keys_dir [of st r kids] by simp
  ultimately show ?case
    using first rest by (auto simp only: sorted_wrt_append set_map)
qed

section \<open>The order is necessary\<close>

lemma dirs_in_order:
  "\<forall>x\<in>set q. is_branch (snd x) \<Longrightarrow>
     subseq (map (\<lambda>x. (tree_stat (snd x), fst x @ ''/'', [])) q) (bfs_items q)"
proof (induction q rule: bfs_items.induct)
  case (3 r st kids q)
  have "\<forall>x\<in>set (q @ kid_dirs r kids). is_branch (snd x)"
    using "3.prems" kid_dirs_elem by fastforce
  then have "subseq (map (\<lambda>x. (tree_stat (snd x), fst x @ ''/'', [])) (q @ kid_dirs r kids))
      (bfs_items (q @ kid_dirs r kids))"
    by (rule "3.IH")
  then have "subseq (map (\<lambda>x. (tree_stat (snd x), fst x @ ''/'', [])) q) (bfs_items (q @ kid_dirs r kids))"
    by (auto intro: subseq_order.trans [OF subseq_rev_drop_many [OF subseq_order.refl]])
  then show ?case
    by (simp add: subseq_drop_many)
qed simp_all

lemma sorted_wrt_subseq: "subseq xs ys \<Longrightarrow> sorted_wrt P (map f ys) \<Longrightarrow> sorted_wrt P (map f xs)"
  by (induction rule: list_emb.induct) (auto dest: list_emb_set)

lemma bfs_siblings_ordered:
  "sorted_wrt (<) (map item_key (bfs_items q)) \<Longrightarrow>
   \<forall>x\<in>set q. below (fst x) \<and> is_branch (snd x) \<and> proper_names (snd x) \<Longrightarrow>
   \<forall>x\<in>set q. siblings_ordered (snd x)"
proof (induction q rule: bfs_items.induct)
  case 1
  then show ?case by simp
next
  case (2 r st dest q)
  then show ?case by simp
next
  case (3 r st kids q)
  let ?ds = "filter (\<lambda>(n, t). is_branch t) kids"
  have r: "below r" and names: "\<forall>k\<in>set kids. slash \<notin> set (fst k)"
    and kids: "\<forall>k\<in>set kids. proper_names (snd k)"
    using "3.prems"(2) by auto
  have rest: "sorted_wrt (<) (map item_key (bfs_items (q @ kid_dirs r kids)))"
    using "3.prems"(1) by (simp add: sorted_wrt_append)
  have ok: "\<forall>x\<in>set (q @ kid_dirs r kids). below (fst x) \<and> is_branch (snd x) \<and> proper_names (snd x)"
    using "3.prems"(2) kid_dirs_elem [of _ r kids] r kids by force
  have safe: "\<forall>x\<in>set (q @ kid_dirs r kids). siblings_ordered (snd x)"
    by (rule "3.IH" [OF rest ok])
  have below_safe: "\<forall>k\<in>set kids. siblings_ordered (snd k)"
  proof
    fix k assume k: "k \<in> set kids"
    show "siblings_ordered (snd k)"
    proof (cases "is_branch (snd k)")
      case True
      with k have "(r @ ''/'' @ fst k, snd k) \<in> set (kid_dirs r kids)"
        by (force simp: kid_dirs_def)
      with safe show ?thesis
        using UnI2 by (metis set_append snd_conv)
    next
      case False
      then show ?thesis by (cases "snd k") auto
    qed
  qed
  have "sorted_wrt (<) (map item_key (map (\<lambda>x. (tree_stat (snd x), fst x @ ''/'', [])) (q @ kid_dirs r kids)))"
    using sorted_wrt_subseq [OF dirs_in_order rest] ok by blast
  then have "sorted_wrt (\<lambda>a b. item_key (tree_stat (snd a), fst a @ ''/'', []) < item_key (tree_stat (snd b), fst b @ ''/'', []))
      (kid_dirs r kids)"
    by (simp add: sorted_wrt_map sorted_wrt_append)
  then have "sorted_wrt (\<lambda>a b. entry_key (r @ slash # fst a) [] < entry_key (r @ slash # fst b) []) ?ds"
    by (simp add: kid_dirs_def sorted_wrt_map case_prod_unfold item_key_def entry_key_def)
  moreover have "fst a @ ''/'' < fst b @ ''/''"
    if "entry_key (r @ slash # fst a) [] < entry_key (r @ slash # fst b) []" "a \<in> set ?ds" "b \<in> set ?ds" for a b
  proof -
    have "slash \<notin> set (fst a)" "slash \<notin> set (fst b)"
      using that(2,3) names by auto
    with that(1) r findDepth_below [of "r @ slash # fst a" "[]"] findDepth_below [of "r @ slash # fst b" "[]"]
    show ?thesis by (simp add: entry_key_def)
  qed
  ultimately have "sorted_wrt (\<lambda>a b. fst a @ ''/'' < fst b @ ''/'') ?ds"
    by (metis (no_types, lifting) sorted_wrt_mono_rel)
  with below_safe safe show ?case
    by (simp add: sorted_wrt_map)
qed

section \<open>From the operating system to the order\<close>

lemma entries_match_names: "entries_match es kids \<Longrightarrow> map d_name es = map fst kids"
  unfolding entries_match_def by (induction rule: list_all2_induct) auto

lemma scandir_sorted: "scandir w path f = Some es \<Longrightarrow> sorted (map d_name es)"
  by (auto simp: scandir_def)

lemma shown_names_sorted: "shows_tree w path t \<Longrightarrow> proper_names t \<Longrightarrow> names_sorted t"
proof (induction w path t rule: shows_tree.induct)
  case (2 w path st kids)
  then obtain es where es: "scandir w path filter_ent = Some es" "entries_match es kids"
    by (auto split: option.splits)
  then have "sorted (map fst kids)"
    using scandir_sorted [OF es(1)] entries_match_names [OF es(2)] by simp
  with "2.prems"(2) have "sorted_wrt (<) (map fst kids)"
    by (simp add: strict_sorted_iff)
  with 2 show ?case
    by auto
qed simp

section \<open>Mounting a generated file\<close>

text \<open>The mount that serves a catalogue file of lines of equal length, and the environment from which \<open>main\<close> of \<open>catalogfs\<close>
  sets it up: the name of the file, the length of a line and the number of lines. The script \<open>catalogfsmount\<close> is meant to
  pass this environment, but the command that computes the length of a line is commented out in it.\<close>

definition mount_catalog :: "string \<Rightarrow> string \<Rightarrow> mount" where
  "mount_catalog fname content =
     \<lparr>entry_size = int (length (hd (getlines content))), catalog_len = int (length (getlines content)),
      catalogFile = fname, disk = [fname \<mapsto> Reg content]\<rparr>"

definition mount_env :: "string \<Rightarrow> string \<Rightarrow> string \<rightharpoonup> string" where
  "mount_env fname content =
     [''CATALOGFS_CATALOG'' \<mapsto> fname, ''CATALOGFS_ENTRY_SIZE'' \<mapsto> fmt_ld (int (length (hd (getlines content)))),
      ''CATALOGFS_CATALOG_LEN'' \<mapsto> fmt_ld (int (length (getlines content)))]"

lemma atoi_fmt_ld: "in_int x \<Longrightarrow> atoi (fmt_ld x) = Inr x"
  using scan_number_fmt_ld [of "[]" x] by (simp add: atoi_def)

lemma atol_fmt_ld: "in_long x \<Longrightarrow> atol (fmt_ld x) = Inr x"
  using scan_number_fmt_ld [of "[]" x] by (simp add: atol_def)

lemma main_mounts:
  assumes "catalog_wf (mount_catalog fname content)"
  shows "main (mount_env fname content) [fname \<mapsto> Reg content] = Inr (mount_catalog fname content)"
proof -
  let ?e = "int (length (hd (getlines content)))" and ?n = "int (length (getlines content))"
  have m: "entry_size (mount_catalog fname content) = ?e" "catalog_len (mount_catalog fname content) = ?n"
    by (simp_all add: mount_catalog_def)
  have wf: "13 \<le> ?e" "0 < ?n" "?e * ?n \<le> INT_MAX"
    using assms unfolding catalog_wf_def m by blast+
  have "?e * 1 \<le> ?e * ?n"
    by (rule mult_left_mono) (use wf(1,2) in linarith)+
  with wf(1,3) have e: "in_int ?e"
    unfolding in_int_def INT_MIN_def by linarith
  have "1 * ?n \<le> ?e * ?n"
    by (rule mult_right_mono) (use wf(1,2) in linarith)+
  with wf(2,3) have n: "in_long ?n"
    unfolding in_long_def LONG_MIN_def LONG_MAX_def INT_MAX_def by linarith
  show ?thesis
    using wf(1,2) by (simp add: main_def mount_env_def mount_catalog_def atoi_fmt_ld [OF e] atol_fmt_ld [OF n] Let_def)
qed

lemma catalog_text_lines: "catalog_text its = concat (map (\<lambda>l. l @ [LF]) (map item_text its))"
  by (simp add: catalog_text_def comp_def)

lemma mount_catalog_mounted:
  assumes "its \<noteq> []" "\<forall>it\<in>set its. item_ok it"
  shows "mount_catalog fname (pad_each_line (catalog_text its)) = mounted fname its"
proof -
  let ?ls = "map item_text its"
  let ?w = "catalog_width ?ls"
  have "\<forall>l\<in>set ?ls. LF \<notin> set l \<and> NUL \<notin> set l"
    using assms(2) item_text_plain by auto
  then have lines: "getlines (pad_each_line (concat (map (\<lambda>l. l @ [LF]) ?ls))) = map (padded ?w) ?ls"
    by (rule getlines_padded)
  obtain it its' where its: "its = it # its'"
    using assms(1) by (cases its) auto
  have "length (padded ?w (item_text it)) = ?w"
    using its by (intro length_padded) simp
  then show ?thesis
    using lines its by (simp add: mount_catalog_def mounted_def catalog_text_lines del: catalog_text_simps)
qed

lemma catalog_keys_mounted:
  assumes "its \<noteq> []" "\<forall>it\<in>set its. item_ok it" "length fname < 224"
    and "int (catalog_width (map item_text its)) * int (length its) \<le> INT_MAX"
  shows "catalog_keys (mounted fname its) = map item_key its"
  using mounted_wf(2) [OF assms]
  by (simp add: catalog_keys_def item_entry_def item_key_def expected_entry_def case_prod_unfold)

end
