(* ===== verification/Catalog_Roundtrip.thy ===== *)
theory Catalog_Roundtrip
  imports Catalog_Order
begin

text \<open>
  The two programs together: the catalogue that the generator writes for a directory, mounted by the
  file system. The lemmas relate the lines of the catalogue to the directories of the tree, and the
  locations that the file system lists for a directory to what \<open>scandir\<close> returned for it.
\<close>

section \<open>Reference definitions\<close>

text \<open>All directories of a tree with their paths.\<close>

fun tree_dirs :: "string \<Rightarrow> tree \<Rightarrow> (string \<times> tree) list" where
  "tree_dirs r (Leaf st dest) = []"
| "tree_dirs r (Branch st kids) =
     (r, Branch st kids) # concat (map (\<lambda>k. tree_dirs (r @ ''/'' @ fst k) (snd k)) kids)"

text \<open>The lines printed for one directory: itself with a slash, and its entries.\<close>

fun dir_items :: "string \<times> tree \<Rightarrow> item list" where
  "dir_items (r, Leaf st dest) = []"
| "dir_items (r, Branch st kids) = (st, r @ ''/'', []) # kid_items r kids"

text \<open>
  A directory tree that can be catalogued: the operating system shows it, the names are proper, and
  every path, destination and mode survives the format and fits the buffers.
\<close>

definition catalogable :: "os \<Rightarrow> string \<Rightarrow> tree \<Rightarrow> bool" where
  "catalogable w d t \<longleftrightarrow>
     d \<noteq> [] \<and> is_branch t \<and> proper_names t \<and> shows_tree w d t \<and>
     (\<forall>it\<in>set (dfs_items [] t). fits d it \<and> item_ok it \<and> known_type (st_mode (fst it)))"

text \<open>The size of the padded catalogue: one width for all lines. It has to stay below 2 GiB.\<close>

definition catalog_bytes :: "tree \<Rightarrow> int" where
  "catalog_bytes t = int (catalog_width (map item_text (dfs_items [] t))) * int (length (dfs_items [] t))"

section \<open>Lines and directories\<close>

lemma dfs_items_dirs: "set (dfs_items r t) = (\<Union>x\<in>set (tree_dirs r t). set (dir_items x))"
proof (induction r t rule: dfs_items.induct)
  case (2 r st kids)
  then show ?case
    by (auto simp: kid_items_def)
qed simp

lemma tree_dirs_shown:
  "shows_tree w (d @ r) t \<Longrightarrow> x \<in> set (tree_dirs r t) \<Longrightarrow> shows_tree w (d @ fst x) (snd x) \<and> is_branch (snd x)"
proof (induction r t rule: tree_dirs.induct)
  case (2 r st kids)
  then show ?case
    by fastforce
qed simp

lemma tree_dirs_proper:
  "proper_names t \<Longrightarrow> x \<in> set (tree_dirs r t) \<Longrightarrow> proper_names (snd x)"
  by (induction r t rule: tree_dirs.induct) fastforce+

lemma tree_dirs_below: "below r \<Longrightarrow> x \<in> set (tree_dirs r t) \<Longrightarrow> below (fst x)"
proof (induction r t rule: tree_dirs.induct)
  case (2 r st kids)
  then show ?case
    by fastforce
qed simp

lemma tree_dest_shown:
  "shows_tree w path t \<Longrightarrow>
     tree_dest t = (if file_type (st_mode (tree_stat t)) = DT_LNK then the (os_readlink w path) else [])"
  by (cases t) (auto simp: DT_defs)

lemma tree_stat_shown: "shows_tree w path t \<Longrightarrow> os_lstat w path = Some (tree_stat t)"
  by (cases t) auto

text \<open>Every line shows what the operating system says about its path.\<close>

lemma dfs_items_os:
  assumes "shows_tree w d t" "(st, p, dest) \<in> set (dfs_items [] t)"
  shows "os_lstat w (d @ p) = Some st \<and>
         (file_type (st_mode st) = DT_LNK \<longrightarrow> os_readlink w (d @ p) = Some dest)"
proof -
  obtain r t' where r: "(r, t') \<in> set (tree_dirs [] t)" "(st, p, dest) \<in> set (dir_items (r, t'))"
    using assms(2) unfolding dfs_items_dirs by fastforce
  then have shown: "shows_tree w (d @ r) t'" "is_branch t'"
    using tree_dirs_shown [of w d "[]" t "(r, t')"] assms(1) by simp_all
  then obtain st' kids where t': "t' = Branch st' kids"
    by (cases t') auto
  consider "st = st'" "p = r @ ''/''" "dest = []"
    | k where "k \<in> set kids" "st = tree_stat (snd k)" "p = r @ ''/'' @ fst k" "dest = tree_dest (snd k)"
    using r(2) t' by (auto simp: kid_items_def)
  then show ?thesis
  proof cases
    case 1
    with shown t' show ?thesis by (simp add: DT_defs)
  next
    case 2
    then have "shows_tree w (d @ p) (snd k)"
      using shown t' by auto
    then show ?thesis
      using 2 by (cases "snd k") (auto simp: DT_defs)
  qed
qed

text \<open>The line for a path, from what the operating system says about it.\<close>

definition os_item :: "os \<Rightarrow> string \<Rightarrow> string \<Rightarrow> item" where
  "os_item w d p =
     (let st = the (os_lstat w (d @ p))
      in (st, p, if file_type (st_mode st) = DT_LNK then the (os_readlink w (d @ p)) else []))"

lemma os_item_shown:
  "shows_tree w (d @ p) t \<Longrightarrow> os_item w d p = (tree_stat t, p, tree_dest t)"
  by (simp add: os_item_def Let_def tree_stat_shown tree_dest_shown)

lemma kid_items_os:
  assumes "shows_tree w (d @ r) (Branch st kids)" "scandir w (d @ r) filter_ent = Some es"
  shows "kid_items r kids = map (\<lambda>e. os_item w d (r @ slash # d_name e)) es"
proof -
  have "map d_name es = map fst kids"
    using assms by (intro entries_match_names) simp
  moreover have "kid_items r kids = map (\<lambda>n. os_item w d (r @ slash # n)) (map fst kids)"
    using assms(1) os_item_shown [of w d "r @ slash # _"]
    by (auto simp: kid_items_def case_prod_unfold)
  ultimately have "kid_items r kids = map (\<lambda>n. os_item w d (r @ slash # n)) (map d_name es)"
    by simp
  then show ?thesis
    by (simp only: map_map comp_def)
qed

lemma last_slash_split:
  assumes "a @ slash # x = b @ slash # y" "slash \<notin> set x" "slash \<notin> set y"
  shows "a = b \<and> x = y"
proof -
  have "basename (a @ slash # x) = basename (b @ slash # y)"
    by (simp only: assms(1))
  then have "x = y"
    using assms(2,3) by simp
  with assms(1) show ?thesis
    by simp
qed

lemma slashes_zero: "slashes s = 0 \<longleftrightarrow> slash \<notin> set s"
  by (auto simp: slashes_def filter_empty_conv)

lemma sorted_keys_unique:
  fixes f :: "'a \<Rightarrow> 'b :: linorder"
  assumes "sorted_wrt (<) (map f xs)" "sorted_wrt (<) (map f ys)" "set xs = set ys"
  shows "xs = ys"
proof -
  have eq: "map f xs = map f ys"
    using assms by (intro strict_sorted_equal) simp_all
  have "distinct (map f xs)"
    using assms(1) by (simp add: strict_sorted_iff)
  then have "inj_on f (set xs \<union> set ys)"
    using assms(3) by (simp add: distinct_map)
  with eq show ?thesis
    by (simp add: inj_on_map_eq_map)
qed

lemma filter_upto_nth:
  "map (\<lambda>i. f (xs ! nat i)) (filter (\<lambda>i. P (xs ! nat i)) [0..int (length xs) - 1]) = map f (filter P xs)"
proof -
  have "[0..int (length xs) - 1] = map int [0..<length xs]"
    by (rule nth_equalityI) simp_all
  then have "map (\<lambda>i. f (xs ! nat i)) (filter (\<lambda>i. P (xs ! nat i)) [0..int (length xs) - 1]) =
      map f (filter P (map ((!) xs) [0..<length xs]))"
    by (simp add: filter_map comp_def)
  then show ?thesis
    by (simp add: map_nth)
qed

section \<open>The entries of a directory\<close>

text \<open>An entry lies in the directory with path \<open>p\<close> (which ends with a slash).\<close>

definition inside :: "string \<Rightarrow> item \<Rightarrow> bool" where
  "inside p it \<longleftrightarrow> fst (item_key it) = findDepth p \<and> strict_prefix p (snd (item_key it))"

lemma inside_dir:
  assumes "below r"
  shows "inside (r @ ''/'') (st, p, dest) \<longleftrightarrow> (\<exists>n. p = r @ slash # n \<and> n \<noteq> [] \<and> slash \<notin> set n)"
  using assms findDepth_below [of r "[]"]
  by (auto simp: inside_def item_key_def strict_prefix_def prefix_def findDepth_below slashes_zero)

lemma inside_other_dir:
  assumes "inside (r @ ''/'') it" "it \<in> set (dir_items (r', Branch st kids))" "below r"
    and "\<forall>k\<in>set kids. slash \<notin> set (fst k)"
  shows "r' = r \<and> it \<in> set (kid_items r' kids)"
proof -
  obtain st' p dest where it: "it = (st', p, dest)"
    by (cases it)
  then obtain n where n: "p = r @ slash # n" "n \<noteq> []" "slash \<notin> set n"
    using assms(1,3) inside_dir by blast
  have "it \<noteq> (st, r' @ ''/'', [])"
    using it n last_in_set [OF n(2)] by (metis Pair_inject last.simps last_appendR last_snoc list.discI)
  then have kid: "it \<in> set (kid_items r' kids)"
    using assms(2) by simp
  then obtain n' where "p = r' @ slash # n'" "slash \<notin> set n'"
    using it assms(4) by (auto simp: kid_items_def)
  with n kid show ?thesis
    using last_slash_split by metis
qed

lemma inside_kid:
  "below r \<Longrightarrow> \<forall>k\<in>set kids. fst k \<noteq> [] \<and> slash \<notin> set (fst k) \<Longrightarrow> it \<in> set (kid_items r kids) \<Longrightarrow>
     inside (r @ ''/'') it"
  by (auto simp: kid_items_def inside_dir)

lemma proper_branch:
  "proper_names (Branch st kids) \<Longrightarrow> k \<in> set kids \<Longrightarrow> fst k \<noteq> [] \<and> slash \<notin> set (fst k)"
  by simp

lemma set_inside:
  assumes "shows_tree w d t" "proper_names t" "(r, Branch st kids) \<in> set (tree_dirs [] t)"
  shows "{it \<in> set (dfs_items [] t). inside (r @ ''/'') it} = set (kid_items r kids)"
proof -
  have r: "below r"
    using tree_dirs_below [OF _ assms(3)] by (simp add: below_def)
  have shown: "shows_tree w (d @ r) (Branch st kids)"
    using tree_dirs_shown [OF _ assms(3), of w d] assms(1) by simp
  have names: "\<forall>k\<in>set kids. fst k \<noteq> [] \<and> slash \<notin> set (fst k)"
    using tree_dirs_proper [OF assms(2,3)] by simp
  have "it \<in> set (kid_items r kids)" if it: "it \<in> set (dfs_items [] t)" "inside (r @ ''/'') it" for it
  proof -
    obtain r' t' where x: "(r', t') \<in> set (tree_dirs [] t)" "it \<in> set (dir_items (r', t'))"
      using it(1) unfolding dfs_items_dirs by fastforce
    then have shown': "shows_tree w (d @ r') t'" "is_branch t'" "proper_names t'"
      using tree_dirs_shown [OF _ x(1), of w d] assms(1) tree_dirs_proper [OF assms(2) x(1)] by simp_all
    then obtain st' kids' where t': "t' = Branch st' kids'"
      by (cases t') auto
    then have "r' = r" "it \<in> set (kid_items r' kids')"
      using inside_other_dir [OF it(2), of r' st' kids'] x(2) r shown'(3) by auto
    moreover have "kid_items r kids' = kid_items r kids" if "r' = r"
      using kid_items_os [of w d r st' kids'] kid_items_os [OF shown] shown shown'(1) t' that
      by (auto split: option.splits)
    ultimately show ?thesis by simp
  qed
  moreover have "it \<in> set (dfs_items [] t)" if "it \<in> set (kid_items r kids)" for it
    using that assms(3) unfolding dfs_items_dirs by force
  ultimately show ?thesis
    using inside_kid [OF r names] by blast
qed

section \<open>The generated catalogue\<close>

lemma max_line_Max: "max_line ls = Max (insert 0 (length ` set ls))"
proof -
  have "fold (\<lambda>l m. if m < length l then length l else m) ls m = fold max (map length ls) m" for m
    by (induction ls arbitrary: m) (auto simp: max_def)
  then show ?thesis
    using Max.set_eq_fold [of 0 "map length ls"] by (simp add: max_line_def)
qed

lemma catalog_width_cong: "set xs = set ys \<Longrightarrow> catalog_width xs = catalog_width ys"
  by (simp add: catalog_width_def max_line_Max)

abbreviation walk :: "tree \<Rightarrow> item list" where
  "walk t \<equiv> bfs_items [([], t)]"

lemma mset_walk: "mset (walk t) = mset (dfs_items [] t)"
  using bfs_dfs [of "[([], t)]"] by simp

lemma length_walk: "length (walk t) = length (dfs_items [] t)"
  using mset_walk mset_eq_length by blast

lemma walk_nonempty: "is_branch t \<Longrightarrow> walk t \<noteq> []"
  by (cases t) auto

lemma catalog_listing_walk:
  assumes "catalogable w d t" "good_malloc (malloc q0)" "dir_count t \<le> n"
  shows "catalog_listing n w q0 d = Some (Inr (catalog_text (walk t)))"
proof -
  have c: "d \<noteq> []" "is_branch t" "shows_tree w d t" "\<forall>it\<in>set (walk t). fits d it"
    using assms(1) by (auto simp: catalogable_def set_bfs_items)
  obtain st kids where "t = Branch st kids"
    using c(2) by (cases t) auto
  then have "length d < MAXPATHLEN"
    using c(4) by (simp add: fits_def)
  then show ?thesis
    using catalog_listing_list [OF assms(2), of d n w] listing_loop_tree [OF c(1), of "[([], t)]" w n "[]"]
      c assms(3) by simp
qed

text \<open>The conditions under which the generated catalogue can be mounted.\<close>

definition generated :: "os \<Rightarrow> string \<Rightarrow> tree \<Rightarrow> string \<Rightarrow> bool" where
  "generated w d t fname \<longleftrightarrow> catalogable w d t \<and> catalog_bytes t \<le> INT_MAX \<and> length fname < 224"

lemma generated_tree:
  assumes "generated w d t fname"
  shows "is_branch t" "proper_names t" "shows_tree w d t" "\<forall>it\<in>set (walk t). item_ok it"
  using assms by (auto simp: generated_def catalogable_def set_bfs_items)

lemma generated_width:
  assumes "generated w d t fname"
  shows "int (catalog_width (map item_text (walk t))) * int (length (walk t)) \<le> INT_MAX"
proof -
  have "catalog_width (map item_text (walk t)) = catalog_width (map item_text (dfs_items [] t))"
    by (rule catalog_width_cong) (simp add: set_bfs_items)
  then show ?thesis
    using assms by (simp add: generated_def catalog_bytes_def length_walk)
qed

lemma generated_mounted:
  assumes "generated w d t fname"
  shows "walk t \<noteq> []" "\<forall>it\<in>set (walk t). item_ok it" "length fname < 224"
    "int (catalog_width (map item_text (walk t))) * int (length (walk t)) \<le> INT_MAX"
  using assms walk_nonempty [OF generated_tree(1)] generated_tree(4) generated_width
  by (simp_all add: generated_def)

lemma generated_mount_eq:
  "generated w d t fname \<Longrightarrow>
     mount_catalog fname (pad_each_line (catalog_text (walk t))) = mounted fname (walk t)"
  using mount_catalog_mounted generated_mounted by blast

lemma generated_wf: "generated w d t fname \<Longrightarrow> catalog_wf (mounted fname (walk t))"
  by (rule mounted_wf(1) [OF generated_mounted])

lemma generated_entries:
  "generated w d t fname \<Longrightarrow> catalog_entries (mounted fname (walk t)) = map item_entry (walk t)"
  by (rule mounted_wf(2) [OF generated_mounted])

lemma generated_keys:
  "generated w d t fname \<Longrightarrow> catalog_keys (mounted fname (walk t)) = map item_key (walk t)"
  by (rule catalog_keys_mounted [OF generated_mounted])

lemma generated_sorted:
  assumes "generated w d t fname"
  shows "catalog_sorted (mounted fname (walk t)) \<longleftrightarrow> siblings_ordered t"
proof -
  have "names_sorted t"
    using shown_names_sorted generated_tree [OF assms] by blast
  then show ?thesis
    using bfs_keys_sorted [of "[([], t)]"] bfs_siblings_ordered [of "[([], t)]"] generated_tree [OF assms]
    by (auto simp: catalog_sorted_def generated_keys [OF assms] below_def)
qed

text \<open>No path has two lines.\<close>

lemma first_name:
  assumes "it \<in> set ((st, r @ ''/'' @ n, dest) # dfs_items (r @ ''/'' @ n) t)" "slash \<notin> set n"
  shows "takeWhile (\<lambda>c. c \<noteq> slash) (drop (Suc (length r)) (fst (snd it))) = n"
proof -
  have n: "\<forall>c\<in>set n. c \<noteq> slash"
    using assms(2) by auto
  consider "fst (snd it) = r @ ''/'' @ n" | y where "fst (snd it) = (r @ ''/'' @ n) @ slash # y"
    using assms(1) dfs_items_below [of it "r @ ''/'' @ n" t] by (cases "it = (st, r @ ''/'' @ n, dest)") auto
  then show ?thesis
  proof cases
    case 1
    with n show ?thesis
      by (simp add: takeWhile_eq_all_conv)
  next
    case 2
    then have "drop (Suc (length r)) (fst (snd it)) = n @ slash # y"
      by simp
    then show ?thesis
      using takeWhile_append2 [of n "\<lambda>c. c \<noteq> slash" "slash # y"] n by simp
  qed
qed

text \<open>The lines of one entry of a directory and of all that is below it.\<close>

definition kid_lines :: "string \<Rightarrow> string \<times> tree \<Rightarrow> item list" where
  "kid_lines r k = (tree_stat (snd k), r @ ''/'' @ fst k, tree_dest (snd k)) # dfs_items (r @ ''/'' @ fst k) (snd k)"

lemma kid_lines_first:
  "it \<in> set (kid_lines r k) \<Longrightarrow> slash \<notin> set (fst k) \<Longrightarrow> takeWhile (\<lambda>c. c \<noteq> slash) (drop (Suc (length r)) (fst (snd it))) = fst k"
  unfolding kid_lines_def by (rule first_name)

lemma kid_lines_distinct:
  assumes "distinct (map (\<lambda>it. fst (snd it)) (dfs_items (r @ ''/'' @ fst k) (snd k)))"
  shows "distinct (map (\<lambda>it. fst (snd it)) (kid_lines r k))"
proof -
  have "r @ ''/'' @ fst k \<notin> set (map (\<lambda>it. fst (snd it)) (dfs_items (r @ ''/'' @ fst k) (snd k)))"
  proof
    assume "r @ ''/'' @ fst k \<in> set (map (\<lambda>it. fst (snd it)) (dfs_items (r @ ''/'' @ fst k) (snd k)))"
    then obtain it where it: "r @ ''/'' @ fst k = fst (snd it)" "it \<in> set (dfs_items (r @ ''/'' @ fst k) (snd k))"
      unfolding set_map by (rule imageE)
    from dfs_items_below [OF it(2)] obtain y where "fst (snd it) = (r @ ''/'' @ fst k) @ slash # y"
      by blast
    with it(1) show False
      by simp
  qed
  with assms show ?thesis
    by (simp only: kid_lines_def list.map distinct.simps fst_conv snd_conv simp_thms not_False_eq_True)
qed

lemma kids_paths_distinct:
  "distinct (map fst kids) \<Longrightarrow> \<forall>k\<in>set kids. slash \<notin> set (fst k) \<Longrightarrow>
   \<forall>k\<in>set kids. distinct (map (\<lambda>it. fst (snd it)) (dfs_items (r @ ''/'' @ fst k) (snd k))) \<Longrightarrow>
   distinct (map (\<lambda>it. fst (snd it)) (concat (map (kid_lines r) kids)))"
proof (induction kids)
  case (Cons k kids)
  have ne: "fst (snd it) \<noteq> fst (snd jt)" if "it \<in> set (kid_lines r k)" "l \<in> set kids" "jt \<in> set (kid_lines r l)" for it jt l
  proof
    assume "fst (snd it) = fst (snd jt)"
    then have "fst k = fst l"
      using kid_lines_first [OF that(1)] kid_lines_first [OF that(3)] that(2) Cons.prems(2) by simp
    then show False
      using Cons.prems(1) that(2) by simp
  qed
  have apart: "set (map (\<lambda>it. fst (snd it)) (kid_lines r k)) \<inter> set (map (\<lambda>it. fst (snd it)) (concat (map (kid_lines r) kids))) = {}"
  proof (rule Int_emptyI)
    fix p
    assume a: "p \<in> set (map (\<lambda>it. fst (snd it)) (kid_lines r k))"
      and b: "p \<in> set (map (\<lambda>it. fst (snd it)) (concat (map (kid_lines r) kids)))"
    obtain it where it: "p = fst (snd it)" "it \<in> set (kid_lines r k)"
      using a unfolding set_map by (rule imageE)
    obtain jt where jt: "p = fst (snd jt)" "jt \<in> set (concat (map (kid_lines r) kids))"
      using b unfolding set_map by (rule imageE)
    obtain l where l: "l \<in> set kids" "jt \<in> set (kid_lines r l)"
      using jt(2) by (simp only: set_concat set_map) blast
    show False
      using ne [OF it(2) l] it(1) jt(1) by simp
  qed
  have "distinct (map (\<lambda>it. fst (snd it)) (kid_lines r k))"
    by (rule kid_lines_distinct) (use Cons.prems(3) in simp)
  moreover have "distinct (map (\<lambda>it. fst (snd it)) (concat (map (kid_lines r) kids)))"
    by (rule Cons.IH) (use Cons.prems in simp_all)
  ultimately show ?case
    using apart by (simp only: list.map concat.simps map_append distinct_append)
qed simp

lemma dfs_paths_distinct: "proper_names t \<Longrightarrow> distinct (map (\<lambda>it. fst (snd it)) (dfs_items r t))"
proof (induction r t rule: dfs_items.induct)
  case (2 r st kids)
  have items: "dfs_items r (Branch st kids) = (st, r @ ''/'', []) # concat (map (kid_lines r) kids)"
    by (simp add: kid_lines_def [abs_def])
  have ne: "r @ ''/'' \<noteq> fst (snd it)" if "k \<in> set kids" "it \<in> set (kid_lines r k)" for k it
  proof
    assume e: "r @ ''/'' = fst (snd it)"
    have "slash \<notin> set (fst k)" "fst k \<noteq> []"
      using "2.prems" that(1) by auto
    then show False
      using kid_lines_first [OF that(2)] by (simp add: e [symmetric])
  qed
  have new: "r @ ''/'' \<notin> set (map (\<lambda>it. fst (snd it)) (concat (map (kid_lines r) kids)))"
  proof
    assume b: "r @ ''/'' \<in> set (map (\<lambda>it. fst (snd it)) (concat (map (kid_lines r) kids)))"
    obtain jt where jt: "r @ ''/'' = fst (snd jt)" "jt \<in> set (concat (map (kid_lines r) kids))"
      using b unfolding set_map by (rule imageE)
    obtain l where l: "l \<in> set kids" "jt \<in> set (kid_lines r l)"
      using jt(2) by (simp only: set_concat set_map) blast
    show False
      using ne [OF l] jt(1) by simp
  qed
  have dist: "distinct (map (\<lambda>it. fst (snd it)) (concat (map (kid_lines r) kids)))"
    by (rule kids_paths_distinct) (use "2.prems" "2.IH" in simp_all)
  show ?case
    using new dist by (simp only: items list.map distinct.simps fst_conv snd_conv simp_thms not_False_eq_True)
qed simp

lemma generated_distinct:
  assumes "generated w d t fname"
  shows "distinct (map item_key (walk t))"
proof -
  have "mset (map (\<lambda>it. fst (snd it)) (walk t)) = mset (map (\<lambda>it. fst (snd it)) (dfs_items [] t))"
    by (simp add: mset_walk)
  then have "distinct (map (\<lambda>it. fst (snd it)) (walk t))"
    using dfs_paths_distinct [OF generated_tree(2) [OF assms]] mset_eq_imp_distinct_iff by blast
  moreover have "map (\<lambda>it. fst (snd it)) (walk t) = map snd (map item_key (walk t))"
    by (simp add: item_key_def case_prod_unfold)
  ultimately show ?thesis
    by (metis distinct_map)
qed

lemma generated_leveled:
  assumes "generated w d t fname"
  shows "sorted (map fst (map item_key (walk t)))"
proof -
  have "map fst (map item_key (walk t)) = map (\<lambda>it. findDepth (fst (snd it))) (walk t)"
    by (simp add: item_key_def case_prod_unfold)
  moreover have "sorted (map (\<lambda>it. findDepth (fst (snd it))) (walk t))"
    by (rule bfs_depths_sorted) (use generated_tree(2) [OF assms] in \<open>simp_all add: below_def\<close>)
  ultimately show ?thesis
    by (simp only:)
qed

lemma generated_entry:
  assumes "generated w d t fname" "(st, p, dest) \<in> set (walk t)"
  shows "os_lstat w (d @ p) = Some st" "item_entry (st, p, dest) =
     \<lparr>wdf_depth = findDepth p, wdf_file_path = p, wdf_st_data = st,
      wdf_link_dest = Some (if file_type (st_mode st) = DT_LNK then the (os_readlink w (d @ p)) else [])\<rparr>"
proof -
  have it: "(st, p, dest) \<in> set (dfs_items [] t)" "known_type (st_mode st)"
    using assms by (auto simp: set_bfs_items generated_def catalogable_def)
  note os = dfs_items_os [OF generated_tree(3) [OF assms(1)] it(1)]
  show "os_lstat w (d @ p) = Some st"
    using os by blast
  show "item_entry (st, p, dest) =
     \<lparr>wdf_depth = findDepth p, wdf_file_path = p, wdf_st_data = st,
      wdf_link_dest = Some (if file_type (st_mode st) = DT_LNK then the (os_readlink w (d @ p)) else [])\<rparr>"
    using os it(2) by (simp add: item_entry_def expected_entry_def catalog_mode_known type_char_link)
qed

lemma walk_path:
  assumes "generated w d t fname" "(st, p, dest) \<in> set (walk t)"
  shows "0 < findDepth p" "NUL \<notin> set p"
proof -
  obtain y where "p = [] @ slash # y"
    using dfs_items_below [of "(st, p, dest)" "[]" t] assms(2) by (auto simp: set_bfs_items)
  then show "0 < findDepth p"
    using findDepth_below [of "[]" y] by (simp add: below_def)
  show "NUL \<notin> set p"
    using generated_tree(4) [OF assms(1)] assms(2) by (auto simp: item_ok_def entry_ok_def plain_def)
qed

section \<open>Requests on the generated catalogue\<close>

lemma linear_search_found: "k \<in> set es \<Longrightarrow> 0 \<le> i \<Longrightarrow> linear_search es k i \<noteq> -1"
  by (induction es arbitrary: i) auto

text \<open>The paths of the catalogue.\<close>

definition listed :: "tree \<Rightarrow> string \<Rightarrow> bool" where
  "listed t p \<longleftrightarrow> p \<in> (\<lambda>it. fst (snd it)) ` set (dfs_items [] t)"

lemma lookup_listed:
  assumes "generated w d t fname"
  obtains "\<not> listed t p" "lookup_path (map item_key (walk t)) p = -1"
    | j st dest where "listed t p" "j < length (walk t)" "lookup_path (map item_key (walk t)) p = int j"
      "walk t ! j = (st, p, dest)"
proof (cases rule: lookup_path_cases [of "map item_key (walk t)" p])
  case 1
  have "\<not> listed t p"
  proof
    assume "listed t p"
    then obtain st dest where it: "(st, p, dest) \<in> set (walk t)"
      by (auto simp: listed_def set_bfs_items)
    then have "(findDepth p, p) \<in> set (map item_key (walk t))"
      by (force simp: item_key_def)
    then show False
      using 1 walk_path(1) [OF assms it] linear_search_found [of _ "map item_key (walk t)" 0]
      by (simp add: lookup_path_def)
  qed
  with 1 that(1) show thesis by blast
next
  case (2 j)
  obtain st q dest where it: "walk t ! j = (st, q, dest)"
    by (cases "walk t ! j")
  with 2 have "q = p"
    by (simp add: item_key_def)
  moreover have "listed t p"
    using nth_mem [of j "walk t"] 2(1) it \<open>q = p\<close> by (force simp: listed_def set_bfs_items)
  ultimately show thesis
    using that(2) 2 it by simp
qed

lemma generated_getattr:
  assumes "generated w d t fname" "siblings_ordered t" "NUL \<notin> set p"
  shows "catalog_getattr (mounted fname (walk t)) umid p =
           Inr (if listed t p then (0, the (os_lstat w (d @ p))) else (- ENOENT, stat_zero))"
proof -
  note gw = getattr_wf [OF generated_wf [OF assms(1)] _ assms(3), of umid]
  show ?thesis
  proof (cases rule: lookup_listed [OF assms(1), of p])
    case 1
    then show ?thesis
      using gw assms(2) by (simp add: generated_sorted [OF assms(1)] generated_keys [OF assms(1)])
  next
    case (2 j st dest)
    have "(st, p, dest) \<in> set (walk t)"
      using nth_mem [OF 2(2)] 2(4) by simp
    then show ?thesis
      using gw assms(2) 2 generated_entry [OF assms(1), of st p dest]
      by (simp add: generated_sorted [OF assms(1)] generated_keys [OF assms(1)] generated_entries [OF assms(1)])
  qed
qed

text \<open>When the names of some sub-directories do not stay in order with a slash appended, a file of the catalogue is lost.\<close>

lemma generated_loses:
  assumes "generated w d t fname" "\<not> siblings_ordered t"
  shows "\<exists>p. listed t p \<and> catalog_getattr (mounted fname (walk t)) umid p = Inr (- ENOENT, stat_zero)"
proof -
  have keys: "fst e = findDepth (snd e) \<and> 0 < fst e \<and> listed t (snd e)" if e: "e \<in> set (map item_key (walk t))" for e
  proof -
    obtain st p dest where it: "(st, p, dest) \<in> set (walk t)" "e = (findDepth p, p)"
      using e by (auto simp: item_key_def)
    then have "(st, p, dest) \<in> set (dfs_items [] t)"
      using mset_walk [of t] by (metis set_mset_mset)
    then have "listed t p"
      unfolding listed_def by force
    then show ?thesis
      using walk_path(1) [OF assms(1) it(1)] it(2) by simp
  qed
  have "\<exists>e\<in>set (map item_key (walk t)). catalog_getattr (mounted fname (walk t)) umid (snd e) = Inr (- ENOENT, stat_zero)"
    by (rule unsorted_loses [OF generated_wf [OF assms(1)], unfolded generated_keys [OF assms(1)], OF generated_leveled [OF assms(1)]
          generated_distinct [OF assms(1)]])
      (use assms(2) keys in \<open>blast | simp add: generated_sorted [OF assms(1)]\<close>)+
  with keys show ?thesis
    by blast
qed

lemma mounted_len: "catalog_len (mounted fname its) = int (length its)"
  by (simp add: mounted_def)

lemma generated_readlink:
  assumes "generated w d t fname" "siblings_ordered t" "listed t p"
    and "os_lstat w (d @ p) = Some st" "file_type (st_mode st) = DT_LNK"
    and "os_readlink w (d @ p) = Some dest" "length dest + 1 < sz"
  shows "\<exists>bytes. catalog_readlink (mounted fname (walk t)) umid p sz = Inr (0, Some bytes) \<and>
           length bytes = sz - 1 \<and> cstr bytes = dest"
proof -
  obtain st' dest' where "(st', p, dest') \<in> set (walk t)"
    using assms(3) by (auto simp: listed_def set_bfs_items)
  then obtain i where i: "i < length (walk t)" "walk t ! i = (st', p, dest')"
    by (auto simp: in_set_conv_nth)
  then have it: "(st', p, dest') \<in> set (walk t)"
    using nth_mem by metis
  have st': "st' = st"
    using generated_entry(1) [OF assms(1) it] assms(4) by simp
  have "dest' = dest"
    using dfs_items_os [OF generated_tree(3) [OF assms(1)], of st' p dest'] it assms(5,6) st'
    by (simp add: set_bfs_items)
  then have "NUL \<notin> set dest"
    using generated_tree(4) [OF assms(1)] it st' assms(5)
    by (auto simp: item_ok_def entry_ok_def plain_def type_char_link)
  moreover have "catalog_keys (mounted fname (walk t)) ! i = (findDepth p, p)"
    "i < nat (catalog_len (mounted fname (walk t)))"
    "wdf_link_dest (catalog_entries (mounted fname (walk t)) ! i) = Some dest"
    using i generated_entry(2) [OF assms(1) it] st' assms(5,6)
    by (simp_all add: generated_keys [OF assms(1)] generated_entries [OF assms(1)] item_key_def mounted_len)
  ultimately show ?thesis
    using readlink_wf [OF generated_wf [OF assms(1)] _ walk_path(2,1) [OF assms(1) it]] assms(2,7)
    by (simp add: generated_sorted [OF assms(1)])
qed

lemma dir_locations_items:
  "map g (dir_locations (map item_key its) p) = map g (filter (\<lambda>i. inside p (its ! nat i)) [0..int (length its) - 1])"
proof -
  have "dir_locations (map item_key its) p = filter (\<lambda>i. inside p (its ! nat i)) [0..int (length its) - 1]"
    unfolding dir_locations_def inside_def length_map by (rule filter_cong) (auto simp: nat_less_iff)
  then show ?thesis by simp
qed

lemma generated_inside:
  assumes "generated w d t fname" "siblings_ordered t" "(r, Branch st kids) \<in> set (tree_dirs [] t)"
  shows "filter (inside (r @ ''/'')) (walk t) = kid_items r kids"
proof (rule sorted_keys_unique [of item_key])
  note tree = generated_tree [OF assms(1)]
  have "sorted_wrt (<) (map item_key (walk t))"
    using generated_sorted [OF assms(1)] assms(2) by (simp add: catalog_sorted_def generated_keys [OF assms(1)])
  then show "sorted_wrt (<) (map item_key (filter (inside (r @ ''/'')) (walk t)))"
    by (rule sorted_wrt_subseq [rotated]) simp
  have "proper_names (Branch st kids)" "names_sorted (Branch st kids)" "below r"
    using tree_dirs_proper [OF tree(2) assms(3)] tree_dirs_shown [OF _ assms(3), of w d] tree(3)
      shown_names_sorted [of w "d @ r" "Branch st kids"] tree_dirs_below [OF _ assms(3)]
    by (auto simp: below_def)
  then have "sorted_wrt (<) (map item_key ((st, r @ ''/'', []) # kid_items r kids))"
    unfolding item_keys_dir by (intro entry_keys_sorted) auto
  then show "sorted_wrt (<) (map item_key (kid_items r kids))"
    by simp
  show "set (filter (inside (r @ ''/'')) (walk t)) = set (kid_items r kids)"
    using set_inside [OF tree(3,2) assms(3)] by (auto simp: set_bfs_items)
qed

lemma generated_dir_items:
  assumes "generated w d t fname" "siblings_ordered t" "(r, t') \<in> set (tree_dirs [] t)"
    and "scandir w (d @ r) filter_ent = Some es"
  shows "map (dir_item (mounted fname (walk t))) (dir_locations (map item_key (walk t)) (r @ ''/'')) =
           map (\<lambda>e. (d_name e, os_lstat w (d @ r @ ''/'' @ d_name e))) es"
proof -
  let ?m = "mounted fname (walk t)"
  let ?f = "\<lambda>it. (basename (fst (snd it)), Some (fst it))"
  have shown: "shows_tree w (d @ r) t'" "is_branch t'"
    using tree_dirs_shown [OF _ assms(3), of w d] generated_tree(3) [OF assms(1)] by simp_all
  then obtain st kids where t': "t' = Branch st kids"
    by (cases t') auto
  have item: "dir_item ?m i = ?f (walk t ! nat i)" if "i \<in> set [0..int (length (walk t)) - 1]" for i
  proof -
    have i: "nat i < length (walk t)"
      using that by auto
    obtain s p l where it: "walk t ! nat i = (s, p, l)"
      by (cases "walk t ! nat i")
    with nth_mem [OF i] have "(s, p, l) \<in> set (walk t)"
      by simp
    from generated_entry(2) [OF assms(1) this] it i show ?thesis
      by (simp add: dir_item_def generated_entries [OF assms(1)] Let_def)
  qed
  have "map (dir_item ?m) (dir_locations (map item_key (walk t)) (r @ ''/'')) =
      map (\<lambda>i. ?f (walk t ! nat i))
        (filter (\<lambda>i. inside (r @ ''/'') (walk t ! nat i)) [0..int (length (walk t)) - 1])"
    unfolding dir_locations_items using item by (intro map_cong) auto
  also have "\<dots> = map ?f (kid_items r kids)"
    using filter_upto_nth [of ?f "walk t" "inside (r @ ''/'')"] generated_inside [OF assms(1,2)] assms(3) t'
    by simp
  also have "\<dots> = map ?f (map (\<lambda>e. os_item w d (r @ slash # d_name e)) es)"
    using kid_items_os [OF shown(1) [unfolded t'] assms(4)] by simp
  also have "\<dots> = map (\<lambda>e. (d_name e, os_lstat w (d @ r @ ''/'' @ d_name e))) es"
  proof -
    have "?f (os_item w d (r @ slash # d_name e)) = (d_name e, os_lstat w (d @ r @ ''/'' @ d_name e))"
      if "e \<in> set es" for e
    proof -
      have "d_name e \<in> fst ` set kids"
        using entries_match_names [of es kids] shown(1) t' assms(4) that
        by (metis (no_types, lifting) image_eqI list.set_map option.simps(5) shows_tree.simps(2))
      then obtain k where k: "k \<in> set kids" "fst k = d_name e"
        by auto
      have "shows_tree w (d @ r @ ''/'' @ d_name e) (snd k)" "slash \<notin> set (d_name e)"
        using shown(1) t' k tree_dirs_proper [OF generated_tree(2) [OF assms(1)] assms(3)] by auto
      then show ?thesis
        using tree_stat_shown [of w "d @ r @ ''/'' @ d_name e" "snd k"] by (simp add: os_item_def Let_def)
    qed
    then show ?thesis by simp
  qed
  finally show ?thesis .
qed

lemma tree_dirs_path:
  "proper_names t \<Longrightarrow> x \<in> set (tree_dirs r t) \<Longrightarrow> fst x = r \<or> fst x \<noteq> [] \<and> last (fst x) \<noteq> slash"
proof (induction r t rule: tree_dirs.induct)
  case (2 r st kids)
  from "2.prems"(2) consider "fst x = r"
    | k where "k \<in> set kids" "x \<in> set (tree_dirs (r @ ''/'' @ fst k) (snd k))"
    by auto
  then show ?case
  proof cases
    case (2 k)
    have "fst k \<noteq> []" "slash \<notin> set (fst k)" "proper_names (snd k)"
      using "2.prems"(1) 2(1) by auto
    moreover from this have "last (r @ ''/'' @ fst k) \<noteq> slash"
      by (metis append_is_Nil_conv last_appendR last_in_set)
    ultimately show ?thesis
      using "2.IH" [OF 2(1) _ 2(2)] by auto
  qed simp
qed simp

text \<open>How a request names the directory: the root is a single slash.\<close>

definition request_path :: "string \<Rightarrow> string" where
  "request_path r = (if r = [] then ''/'' else r)"

lemma generated_readdir:
  assumes "generated w d t fname" "siblings_ordered t" "(r, t') \<in> set (tree_dirs [] t)"
    and "scandir w (d @ r) filter_ent = Some es" "r = [] \<or> length (request_path r) + 2 \<le> cap"
  shows "catalog_readdir (mounted fname (walk t)) umid filler buf (request_path r) cap =
           Inr (0, fill_all filler (fst (filler (fst (filler buf ''.'' None)) ''..'' None))
                     (map (\<lambda>e. (d_name e, os_lstat w (d @ r @ ''/'' @ d_name e))) es))"
proof -
  have "r = [] \<or> last r \<noteq> slash"
    using tree_dirs_path [OF generated_tree(2) [OF assms(1)] assms(3)] by auto
  then have "r \<noteq> ''/''"
    by auto
  then have dir: "dir_path (request_path r) = r @ ''/''"
    by (simp add: dir_path_def request_path_def)
  obtain st kids where t': "t' = Branch st kids"
    using tree_dirs_shown [OF _ assms(3), of w d] generated_tree(3) [OF assms(1)] by (cases t') simp_all
  then have it: "(st, r @ ''/'', []) \<in> set (walk t)"
    using assms(3) unfolding set_bfs_items dfs_items_dirs by force
  then have key: "(findDepth (r @ ''/''), r @ ''/'') \<in> set (map item_key (walk t))"
    by (force simp: item_key_def)
  have cap: "request_path r = ''/'' \<or> length (request_path r) + 2 \<le> cap"
    using assms(5) by (auto simp: request_path_def)
  have plain: "NUL \<notin> set (request_path r)"
    using walk_path(2) [OF assms(1) it] by (auto simp: request_path_def)
  show ?thesis
    using readdir_wf [OF generated_wf [OF assms(1)] _ plain, of cap umid filler buf] walk_path(1) [OF assms(1) it]
      assms(2) cap key generated_dir_items [OF assms(1-4)]
    by (simp add: generated_sorted [OF assms(1)] generated_keys [OF assms(1)] dir)
qed

section \<open>A run of the generator\<close>

text \<open>
  The surroundings of a successful run: the argument is a directory that the operating system lets the
  program read, both files can be opened and renamed, and the names fit the message buffers.
\<close>

definition can_generate :: "nat \<Rightarrow> os \<Rightarrow> bf_queue \<Rightarrow> string \<Rightarrow> tree \<Rightarrow> string \<Rightarrow> bool" where
  "can_generate n w q0 d t fname \<longleftrightarrow>
     generated w d t fname \<and> good_malloc (malloc q0) \<and> dir_count t \<le> n \<and>
     os_stat w d = Some (tree_stat t) \<and> os_fopen w fname \<and> os_fopen w (fname @ ''.temp'') \<and>
     os_rename w (fname @ ''.temp'') fname \<and>
     fname \<noteq> [] \<and> length d < 200 \<and> length fname < 100"

lemma S_ISDIR_file_type: "file_type mode = DT_DIR \<Longrightarrow> S_ISDIR mode"
  using type_bits [of mode] by (simp add: S_ISDIR_def DT_defs push_bit_eq_mult)

lemma gen_main_runs:
  assumes "can_generate n w q0 d t fname"
  shows "\<exists>files' content. gen_main n w q0 files [prog, d, fname] = Some (Inr (0, files')) \<and>
           files' fname = Some content \<and> files' (fname @ ''.temp'') = None \<and>
           (\<forall>f. f \<noteq> fname \<and> f \<noteq> fname @ ''.temp'' \<longrightarrow> files' f = files f) \<and>
           mount_catalog fname content = mounted fname (walk t)"
proof -
  have g: "generated w d t fname"
    using assms by (simp add: can_generate_def)
  have "catalog_listing n w q0 d = Some (Inr (catalog_text (walk t)))"
    using assms by (intro catalog_listing_walk) (auto simp: can_generate_def generated_def)
  moreover have "S_ISDIR (st_mode (tree_stat t))"
    using generated_tree(1,3) [OF g] by (cases t) (auto intro: S_ISDIR_file_type)
  moreover have "d \<noteq> []"
    using g by (simp add: generated_def catalogable_def)
  ultimately show ?thesis
    using assms generated_mount_eq [OF g]
    by (simp add: gen_main_def can_generate_def message_def Let_def MAXPATHLEN_def)
qed

end
