(* ===== verification/Binsearch_In_File.thy ===== *)
theory Binsearch_In_File
  imports Catalog_Search "HOL-Library.Code_Target_Nat"
begin

text \<open>
  The prototype \<open>binsearchinfile.c\<close> of the search: a catalogue of 14 lines of 84 bytes in
  \<open>catalog.list\<close>, with the byte 11 as separator. The loops are the ones of \<open>catalogfs.c\<close> and are
  instances of the functions of \<open>Catalog_Search\<close>; the reader, the directory listing and \<open>main\<close>
  differ. The messages that trace the search are not part of the result.
\<close>

section \<open>Data\<close>

record proto_wdf =
  pw_depth :: int
  pw_file_path :: string
  pw_st_data :: stat

definition ENTRY_SIZE :: int where "ENTRY_SIZE = 84"
definition CATALOG_LEN :: int where "CATALOG_LEN = 14"

text \<open>A line of the array \<open>catalog\<close>: the columns, the separator, the path, and \<open>n\<close> separators up to
  the newline.\<close>

definition proto_line :: "string \<Rightarrow> string \<Rightarrow> nat \<Rightarrow> string" where
  "proto_line cols path n = cols @ [VT] @ path @ replicate n VT @ [LF]"

definition proto_catalog :: "string list" where
  "proto_catalog =
     [proto_line ''d 0755 2 1001 1001 1000 1213101162 1213101161 1213113161 1 '' ''/'' 22,
      proto_line ''f 0701 1 0 1 2000 1213102162 1213102161 1213112161 1 '' ''/.hidden file 1'' 14,
      proto_line ''c 0760 1 111 121 22222 1213112162 1213112161 1213101161 1 '' ''/character special file'' 1,
      proto_line ''d 0702 2 108 7 3000 1213103162 1213103161 1213111161 1 '' ''/dir1'' 22,
      proto_line ''d 0705 2 122 127 6000 1213106162 1213106161 1213108161 1 '' ''/dir2'' 20,
      proto_line ''d 0702 2 108 7 3000 1213103162 1213103161 1213111161 2 '' ''/dir1/'' 21,
      proto_line ''f 0726 1 115 125 7000 1213107162 1213107161 1213107161 2 '' ''/dir1/.hidden file 2'' 5,
      proto_line ''p 0750 1 110 120 11111 1213111162 1213111161 1213102161 2 '' ''/dir1/fifo file'' 9,
      proto_line ''f 0703 1 1002 1002 4000 1213104162 1213104161 1213110161 2 '' ''/dir1/file 1'' 11,
      proto_line ''f 0704 1 41 41 5000 1213105162 1213105161 1213109111 2 '' ''/dir1/file 2'' 15,
      proto_line ''l 0710 1 119 29 9000 1213109162 1213109161 1213105161 2 '' ''/dir1/link file'' 11,
      proto_line ''d 0705 2 122 127 6000 1213106162 1213106161 1213108161 2 '' ''/dir2/'' 19,
      proto_line ''f 0747 1 117 126 8000 1213108162 1213108161 1213106161 2 '' ''/dir2/hello 2'' 12,
      proto_line ''s 0740 1 113 124 10000 1213110162 1213110161 1213103161 2 '' ''/dir2/semaphore file'' 4]"

section \<open>The reader\<close>

text \<open>
  The format \<open>%c %lo %ld %ld %ld %lld %lld %lld %lld %d \13%[^\13]s\13\n\<close>. The byte 11 is white
  space, so in a format it stands for any amount of white space.
\<close>

definition proto_fmt :: "directive list" where
  "proto_fmt =
     [Conv_c, WS, Conv_lo, WS, Conv_ld, WS, Conv_ld, WS, Conv_ld, WS, Conv_ld, WS, Conv_ld, WS,
      Conv_ld, WS, Conv_ld, WS, Conv_d, WS, WS, Conv_set VT, Lit CHR ''s'', WS, WS]"

definition proto_build_entry :: "sval list \<Rightarrow> proto_wdf res" where
  "proto_build_entry vs =
     (case vs of
        [VC c, VI mode, VI nlink, VI uid, VI gid, VI sz, VI atime, VI mtime, VI ctime, VI depth,
         VS path] \<Rightarrow>
          if MAXPATHLEN \<le> length path then Inl Undefined
          else Inr \<lparr>pw_depth = depth, pw_file_path = path,
                    pw_st_data =
                      \<lparr>st_mode = ucast (mode_of_type c (word_of_int mode)),
                       st_nlink = word_of_int nlink, st_uid = word_of_int uid,
                       st_gid = word_of_int gid, st_size = word_of_int sz,
                       st_atime = word_of_int atime, st_mtime = word_of_int mtime,
                       st_ctime = word_of_int ctime\<rparr>\<rparr>
      | _ \<Rightarrow> Inl Undefined)"

definition proto_parse_entry :: "string \<Rightarrow> proto_wdf res" where
  "proto_parse_entry entry = bind_res (sscanf proto_fmt entry) proto_build_entry"

text \<open>\<open>getEntry_from_catalog\<close>: \<open>None\<close> is the return value -1.\<close>

definition proto_getEntry_from_catalog :: "(string \<rightharpoonup> inode) \<Rightarrow> int \<Rightarrow> proto_wdf option res" where
  "proto_getEntry_from_catalog files location =
     (case files ''catalog.list'' of
        None \<Rightarrow> Inl (Exits (-1))
      | Some node \<Rightarrow>
          let offset = wrap32 (ENTRY_SIZE * location) in
          if offset < 0 then Inr None
          else case node of
            Dir \<Rightarrow> Inr None
          | Reg content \<Rightarrow>
              let entry = take (nat ENTRY_SIZE) (drop (nat offset) content) in
              if length entry < nat ENTRY_SIZE then Inl Undefined
              else bind_res (proto_parse_entry (cstr entry)) (\<lambda>w. Inr (Some w)))"

definition proto_getEntry_depth_filepath :: "(string \<rightharpoonup> inode) \<Rightarrow> int \<Rightarrow> (int \<times> string) option res" where
  "proto_getEntry_depth_filepath files location =
     bind_res (proto_getEntry_from_catalog files location)
       (\<lambda>r. case r of None \<Rightarrow> Inr None | Some w \<Rightarrow> Inr (Some (pw_depth w, pw_file_path w)))"

definition proto_getEntry_file_path :: "(string \<rightharpoonup> inode) \<Rightarrow> int \<Rightarrow> string option res" where
  "proto_getEntry_file_path files location =
     bind_res (proto_getEntry_depth_filepath files location)
       (\<lambda>r. case r of None \<Rightarrow> Inr None | Some (_, p) \<Rightarrow> Inr (Some p))"

section \<open>The search\<close>

text \<open>The three scans. The counters of the last two are \<open>int\<close> here, so \<open>mid\<close> is converted.\<close>

definition proto_find_index ::
  "(string \<rightharpoonup> inode) \<Rightarrow> int \<Rightarrow> int \<Rightarrow> int \<Rightarrow> int \<Rightarrow> int \<Rightarrow> (int \<times> int \<times> int \<times> int) option res" where
  "proto_find_index files = find_index (proto_getEntry_depth_filepath files)"

definition proto_find_lowest_index ::
  "(string \<rightharpoonup> inode) \<Rightarrow> int \<Rightarrow> int \<Rightarrow> int \<Rightarrow> int \<Rightarrow> (int \<times> int) option res" where
  "proto_find_lowest_index files d low mid depth =
     find_lowest_index (proto_getEntry_depth_filepath files) d low (wrap32 mid) depth"

definition proto_find_highest_index ::
  "(string \<rightharpoonup> inode) \<Rightarrow> int \<Rightarrow> int \<Rightarrow> int \<Rightarrow> int \<Rightarrow> (int \<times> int) option res" where
  "proto_find_highest_index files d high mid depth =
     find_highest_index (proto_getEntry_depth_filepath files) d high (wrap32 mid) depth"

definition proto_binSearch :: "(string \<rightharpoonup> inode) \<Rightarrow> int \<Rightarrow> string \<Rightarrow> int res" where
  "proto_binSearch files umid searchPath =
     (let d = findDepth searchPath in
      if d \<le> 0 then Inr (-1)
      else bind_res (proto_find_index files d 0 (CATALOG_LEN - 1) umid 1) (\<lambda>r1. case r1 of
        None \<Rightarrow> Inr (-1)
      | Some (low, high, mid, depth) \<Rightarrow>
          if low > high then Inr (-1)
          else bind_res (proto_find_lowest_index files d low mid depth) (\<lambda>r2. case r2 of
            None \<Rightarrow> Inr (-1)
          | Some (low', _) \<Rightarrow>
              bind_res (proto_find_highest_index files d high mid d) (\<lambda>r3. case r3 of
                None \<Rightarrow> Inr (-1)
              | Some (high', _) \<Rightarrow>
                  bind_res (path_loop (proto_getEntry_depth_filepath files) searchPath low' high')
                    (\<lambda>i. Inr (wrap32 i))))))"

text \<open>
  \<open>get_directory_contents\<close>: the return value and what is stored in \<open>low\<close> and \<open>high\<close>
  (\<open>None\<close> where nothing is stored). The loop stops at the literal 14.
\<close>

definition proto_get_directory_contents ::
  "(string \<rightharpoonup> inode) \<Rightarrow> int \<Rightarrow> string \<Rightarrow> (int \<times> int option \<times> int option) res" where
  "proto_get_directory_contents files umid path =
     (if path = [] \<or> last path \<noteq> slash then Inr (-1, Some (-1), Some (-1))
      else bind_res (proto_binSearch files umid path) (\<lambda>low.
        if low < 0 then Inr (-1, Some low, None)
        else if findDepth path \<le> 0 then Inr (-1, Some low, None)
        else bind_res (dir_loop (proto_getEntry_depth_filepath files) 14 (findDepth path) path low)
               (\<lambda>r. case r of
                  None \<Rightarrow> Inr (-1, Some low, None)
                | Some i \<Rightarrow> Inr (0, Some low, Some (i - 1)))))"

section \<open>\<open>main\<close>\<close>

text \<open>The format \<open>%*s\<close> (nine times) \<open>%*d\13%[^\13]s\13\<close>, which reads the path only.\<close>

definition proto_path_fmt :: "directive list" where
  "proto_path_fmt = replicate 9 Skip_s @ [Skip_d, WS, Conv_set VT, Lit CHR ''s'', WS]"

text \<open>
  The loop of \<open>main\<close>: for every line of the array its path, and the values of \<open>low\<close> and \<open>high\<close>
  that are printed (\<open>None\<close> for a variable that was never set). A line whose path cannot be read
  leaves the buffer as it was; the first one has to fill it.
\<close>

fun proto_main_loop ::
  "(string \<rightharpoonup> inode) \<Rightarrow> int \<Rightarrow> string list \<Rightarrow> string option \<Rightarrow> int option \<Rightarrow> int option \<Rightarrow>
     (string \<times> int option \<times> int option) list res" where
  "proto_main_loop files umid [] path low high = Inr []"
| "proto_main_loop files umid (l # ls) path low high =
     bind_res (sscanf proto_path_fmt l) (\<lambda>vs.
       case (case vs of [VS p] \<Rightarrow> Some p | _ \<Rightarrow> path) of
         None \<Rightarrow> Inl Undefined
       | Some p \<Rightarrow>
           if MAXPATHLEN \<le> length p then Inl Undefined
           else bind_res (proto_get_directory_contents files umid p) (\<lambda>(_, lo, hi).
             let low' = (case lo of None \<Rightarrow> low | _ \<Rightarrow> lo); high' = (case hi of None \<Rightarrow> high | _ \<Rightarrow> hi)
             in bind_res (proto_main_loop files umid ls (Some p) low' high')
                  (\<lambda>out. Inr ((p, low', high') # out))))"

definition proto_main :: "(string \<rightharpoonup> inode) \<Rightarrow> int \<Rightarrow> (string \<times> int option \<times> int option) list res" where
  "proto_main files umid = proto_main_loop files umid proto_catalog None None None"

section \<open>Well-formed catalogues of the prototype\<close>

definition proto_line_at :: "(string \<rightharpoonup> inode) \<Rightarrow> nat \<Rightarrow> string" where
  "proto_line_at files i =
     (case files ''catalog.list'' of
        Some (Reg content) \<Rightarrow> take 84 (drop (84 * i) content) | _ \<Rightarrow> [])"

definition proto_entry_at :: "(string \<rightharpoonup> inode) \<Rightarrow> nat \<Rightarrow> proto_wdf res" where
  "proto_entry_at files i = proto_parse_entry (cstr (proto_line_at files i))"

definition proto_keys :: "(string \<rightharpoonup> inode) \<Rightarrow> (int \<times> string) list" where
  "proto_keys files =
     map (\<lambda>i. case proto_entry_at files i of Inr w \<Rightarrow> (pw_depth w, pw_file_path w) | Inl _ \<Rightarrow> (-1, [])) [0..<14]"

definition proto_wf :: "(string \<rightharpoonup> inode) \<Rightarrow> bool" where
  "proto_wf files \<longleftrightarrow>
     (case files ''catalog.list'' of Some (Reg content) \<Rightarrow> 14 * 84 \<le> length content | _ \<Rightarrow> False) \<and>
     (\<forall>i\<in>{0..<14}. case proto_entry_at files i of Inr w \<Rightarrow> True | Inl _ \<Rightarrow> False)"

lemma proto_parse_plain:
  assumes "proto_parse_entry (cstr l) = Inr w"
  shows "NUL \<notin> set (pw_file_path w)"
proof -
  obtain vs where vs: "sscanf proto_fmt (cstr l) = Inr vs" "proto_build_entry vs = Inr w"
    using assms by (auto simp: proto_parse_entry_def bind_res_eq_Inr)
  then have "VS (pw_file_path w) \<in> set vs"
    by (fastforce simp: proto_build_entry_def split: list.splits sval.splits if_splits)
  moreover have "NUL \<notin> set (cstr l)"
    by (auto simp: cstr_def dest: set_takeWhileD)
  ultimately show ?thesis
    using sscanf_string_subset [OF vs(1)] by blast
qed

lemma proto_entry_wf:
  assumes "proto_wf files" "i < 14"
  obtains w where "proto_entry_at files i = Inr w" "proto_keys files ! i = (pw_depth w, pw_file_path w)"
    "proto_getEntry_from_catalog files (int i) = Inr (Some w)"
proof -
  obtain content where c: "files ''catalog.list'' = Some (Reg content)" "14 * 84 \<le> length content"
    using assms(1) by (auto simp: proto_wf_def split: option.splits inode.splits)
  have "case proto_entry_at files i of Inr w \<Rightarrow> True | Inl _ \<Rightarrow> False"
    using assms by (simp add: proto_wf_def)
  then obtain w where w: "proto_entry_at files i = Inr w"
    by (cases "proto_entry_at files i") simp_all
  have "in_int (84 * int i)"
    using assms(2) by (simp add: in_int_def INT_MIN_def INT_MAX_def)
  then have "wrap32 (84 * int i) = 84 * int i"
    by simp
  moreover have "nat (84 * int i) = 84 * i" "\<not> length content - 84 * i < 84"
    using c(2) assms(2) by simp_all
  ultimately have "proto_getEntry_from_catalog files (int i) = Inr (Some w)"
    using w c by (simp add: proto_getEntry_from_catalog_def ENTRY_SIZE_def proto_entry_at_def proto_line_at_def Let_def)
  moreover have "proto_keys files ! i = (pw_depth w, pw_file_path w)"
    using assms(2) w by (simp add: proto_keys_def)
  ultimately show thesis
    using that w by blast
qed

lemma proto_get_wf:
  assumes "proto_wf files" "0 \<le> i" "i < CATALOG_LEN"
  shows "proto_getEntry_depth_filepath files i = Inr (Some (proto_keys files ! nat i))"
proof -
  have "nat i < 14"
    using assms(3) by (simp add: CATALOG_LEN_def)
  then obtain w where "proto_keys files ! nat i = (pw_depth w, pw_file_path w)"
    "proto_getEntry_from_catalog files i = Inr (Some w)"
    using proto_entry_wf [OF assms(1), of "nat i"] assms(2) by auto
  then show ?thesis
    by (simp add: proto_getEntry_depth_filepath_def)
qed

lemma length_proto_keys [simp]: "length (proto_keys files) = 14"
  by (simp add: proto_keys_def)

lemma proto_keys_plain:
  assumes "proto_wf files" "e \<in> set (proto_keys files)"
  shows "NUL \<notin> set (snd e)"
proof -
  obtain i where i: "i < 14" "e = proto_keys files ! i"
    using assms(2) by (auto simp: in_set_conv_nth)
  then obtain w where "proto_entry_at files i = Inr w" "e = (pw_depth w, pw_file_path w)"
    using proto_entry_wf [OF assms(1) i(1)] by auto
  then show ?thesis
    using proto_parse_plain by (simp add: proto_entry_at_def)
qed

interpretation proto: catalog_reader proto_getEntry_depth_filepath "\<lambda>_. CATALOG_LEN" proto_keys proto_wf
  by unfold_locales
    (auto simp: proto_get_wf proto_keys_plain in_int_def INT_MIN_def INT_MAX_def CATALOG_LEN_def)

interpretation sproto: sorted_catalog proto_getEntry_depth_filepath "\<lambda>_. CATALOG_LEN" proto_keys
  "\<lambda>files. proto_wf files \<and> sorted_wrt (<) (proto_keys files)"
  by unfold_locales
    (auto simp: proto_get_wf in_int_def INT_MIN_def INT_MAX_def CATALOG_LEN_def dest: proto_keys_plain)

lemma proto_binSearch_eq:
  assumes "proto_wf files"
  shows "proto_binSearch files umid p = binSearch (proto_getEntry_depth_filepath files) CATALOG_LEN umid p"
proof -
  obtain l h m dp where r: "find_index (proto_getEntry_depth_filepath files) (findDepth p) 0 (CATALOG_LEN - 1) umid 1 =
      Inr (Some (l, h, m, dp))" "0 \<le> l" "h \<le> CATALOG_LEN - 1" "l \<le> h \<longrightarrow> l \<le> m \<and> m \<le> h"
    using proto.find_index_returns [OF assms, of 0 "CATALOG_LEN - 1" "findDepth p" umid 1] by auto
  have "wrap32 m = m" if "l \<le> h"
    using r(2-4) that by (intro wrap32_id) (auto simp: in_int_def INT_MIN_def INT_MAX_def CATALOG_LEN_def)
  then show ?thesis
    using r(1) unfolding proto_binSearch_def binSearch_def Let_def
    by (cases "l \<le> h") (simp_all add: proto_find_index_def proto_find_lowest_index_def
        proto_find_highest_index_def)
qed

lemma proto_get_directory_contents_eq:
  assumes "proto_wf files"
  shows "proto_get_directory_contents files umid p =
           bind_res (get_directory_contents (proto_getEntry_depth_filepath files) CATALOG_LEN umid p)
             (\<lambda>(r, l, h). Inr (if r < 0 then -1 else r, l, h))"
  unfolding proto_get_directory_contents_def get_directory_contents_def proto_binSearch_eq [OF assms]
  by (auto simp: CATALOG_LEN_def bind_res_def ENOENT_def split: sum.splits option.splits)

section \<open>The built-in catalogue\<close>

text \<open>The file that the array \<open>catalog\<close> describes.\<close>

definition proto_files :: "string \<rightharpoonup> inode" where
  "proto_files = [''catalog.list'' \<mapsto> Reg (concat proto_catalog)]"

text \<open>The key that a line gives, and the range that is printed for a path.\<close>

definition key_of :: "proto_wdf res \<Rightarrow> int \<times> string" where
  "key_of r = (case r of Inr w \<Rightarrow> (pw_depth w, pw_file_path w) | Inl _ \<Rightarrow> (-1, []))"

definition proto_range :: "(int \<times> string) list \<Rightarrow> string \<Rightarrow> int \<times> int" where
  "proto_range ks p =
     (if last p \<noteq> slash then (-1, -1)
      else let k = lookup_path ks p in (k, k + int (length (dir_locations ks p))))"

lemma proto_range_printed:
  assumes "proto_wf files" "sorted_wrt (<) (proto_keys files)" "p \<noteq> []" "NUL \<notin> set p" "0 < findDepth p"
    and "(findDepth p, p) \<in> set (proto_keys files)"
  shows "\<exists>r. proto_get_directory_contents files umid p =
           Inr (r, Some (fst (proto_range (proto_keys files) p)), Some (snd (proto_range (proto_keys files) p)))"
proof (cases "last p = slash")
  case False
  then show ?thesis
    by (simp add: proto_get_directory_contents_def proto_range_def)
next
  case True
  obtain k where k: "k < 14" "proto_keys files ! k = (findDepth p, p)"
    using assms(6) by (auto simp: in_set_conv_nth)
  obtain high where high:
    "get_directory_contents (proto_getEntry_depth_filepath files) CATALOG_LEN umid p = Inr (0, Some (int k), Some high)"
    "int k \<le> high" "dir_locations (proto_keys files) p = [int k + 1..high]"
    using sproto.get_directory_contents_lists [of files p "int k" umid] assms(1-5) True k
    by (auto simp: CATALOG_LEN_def)
  have "binSearch (proto_getEntry_depth_filepath files) CATALOG_LEN umid p = Inr (int k)"
    using sproto.binSearch_finds [of files p "int k" umid] assms(1-5) k by (simp add: CATALOG_LEN_def)
  then have "lookup_path (proto_keys files) p = int k"
    using sproto.binSearch_eq_lookup [of files p umid] assms(1,2,4) by simp
  with high True show ?thesis
    by (simp add: proto_get_directory_contents_eq [OF assms(1)] proto_range_def)
qed

lemma proto_entry_concat:
  assumes "\<forall>l\<in>set ls. length l = 84" "length ls = 14" "i < 14"
  shows "proto_entry_at [''catalog.list'' \<mapsto> Reg (concat ls)] i = proto_parse_entry (cstr (ls ! i))"
  using nth_chunk [OF assms(1), of i] assms(2,3) by (simp add: proto_entry_at_def proto_line_at_def)

lemma proto_keys_concat:
  assumes "\<forall>l\<in>set ls. length l = 84" "length ls = 14"
  shows "proto_keys [''catalog.list'' \<mapsto> Reg (concat ls)] = map (\<lambda>l. key_of (proto_parse_entry (cstr l))) ls"
proof (rule nth_equalityI)
  show "length (proto_keys [''catalog.list'' \<mapsto> Reg (concat ls)]) =
      length (map (\<lambda>l. key_of (proto_parse_entry (cstr l))) ls)"
    using assms(2) by simp
  fix i assume "i < length (proto_keys [''catalog.list'' \<mapsto> Reg (concat ls)])"
  then have i: "i < 14" by simp
  have "proto_keys [''catalog.list'' \<mapsto> Reg (concat ls)] ! i =
      key_of (proto_entry_at [''catalog.list'' \<mapsto> Reg (concat ls)] i)"
    unfolding proto_keys_def key_of_def using i by (subst nth_map) simp_all
  then show "proto_keys [''catalog.list'' \<mapsto> Reg (concat ls)] ! i =
      map (\<lambda>l. key_of (proto_parse_entry (cstr l))) ls ! i"
    using proto_entry_concat [OF assms i] assms(2) i by simp
qed

lemma proto_wf_concat:
  assumes "\<forall>l\<in>set ls. length l = 84" "length ls = 14"
    and "\<forall>l\<in>set ls. fst (key_of (proto_parse_entry (cstr l))) \<noteq> -1"
  shows "proto_wf [''catalog.list'' \<mapsto> Reg (concat ls)]"
proof -
  have "case proto_entry_at [''catalog.list'' \<mapsto> Reg (concat ls)] i of Inr w \<Rightarrow> True | Inl _ \<Rightarrow> False" if "i < 14" for i
  proof -
    have "fst (key_of (proto_parse_entry (cstr (ls ! i)))) \<noteq> -1"
      using assms(2,3) that by simp
    then show ?thesis
      using proto_entry_concat [OF assms(1,2) that]
      by (cases "proto_parse_entry (cstr (ls ! i))") (simp_all add: key_of_def)
  qed
  then show ?thesis
    using length_concat_chunks [OF assms(1)] assms(2) by (simp add: proto_wf_def del: atLeastLessThan_iff) simp
qed

definition proto_key_list :: "(int \<times> string) list" where
  "proto_key_list =
     [(1, ''/''), (1, ''/.hidden file 1''), (1, ''/character special file''), (1, ''/dir1''), (1, ''/dir2''),
      (2, ''/dir1/''), (2, ''/dir1/.hidden file 2''), (2, ''/dir1/fifo file''), (2, ''/dir1/file 1''),
      (2, ''/dir1/file 2''), (2, ''/dir1/link file''), (2, ''/dir2/''), (2, ''/dir2/hello 2''),
      (2, ''/dir2/semaphore file'')]"

lemma proto_catalog_keys:
  "map (\<lambda>l. key_of (proto_parse_entry (cstr l))) (take 5 proto_catalog) = take 5 proto_key_list"
  "map (\<lambda>l. key_of (proto_parse_entry (cstr l))) (take 5 (drop 5 proto_catalog)) = take 5 (drop 5 proto_key_list)"
  "map (\<lambda>l. key_of (proto_parse_entry (cstr l))) (drop 10 proto_catalog) = drop 10 proto_key_list"
  by code_simp+

lemma split_five: "xs = take 5 xs @ take 5 (drop 5 xs) @ drop 10 xs"
  by (metis add.commute append_take_drop_id drop_drop numeral_Bit0)

lemma proto_catalog_shape: "(\<forall>l\<in>set proto_catalog. length l = 84)" "length proto_catalog = 14"
  by code_simp+

lemma proto_files_keys: "proto_keys proto_files = proto_key_list"
proof -
  have "map (\<lambda>l. key_of (proto_parse_entry (cstr l))) proto_catalog = proto_key_list"
    by (subst (1 2) split_five) (simp only: map_append proto_catalog_keys)
  then show ?thesis
    by (simp only: proto_files_def proto_keys_concat [OF proto_catalog_shape])
qed

lemma proto_files_wf: "proto_wf proto_files"
proof -
  have keys: "map (\<lambda>l. key_of (proto_parse_entry (cstr l))) proto_catalog = proto_key_list"
    using proto_keys_concat [OF proto_catalog_shape] proto_files_keys by (simp add: proto_files_def)
  have "\<forall>k\<in>set proto_key_list. fst k \<noteq> -1"
    by code_simp
  then have "\<forall>l\<in>set proto_catalog. fst (key_of (proto_parse_entry (cstr l))) \<noteq> -1"
    unfolding keys [symmetric] by simp
  then show ?thesis
    unfolding proto_files_def by (rule proto_wf_concat [OF proto_catalog_shape])
qed

lemma proto_files_sorted: "sorted_wrt (<) (proto_keys proto_files)"
  unfolding proto_files_keys by code_simp

lemma proto_main_loop_lines:
  assumes "proto_wf files" "sorted_wrt (<) (proto_keys files)"
  shows "list_all2 (\<lambda>l p. sscanf proto_path_fmt l = Inr [VS p] \<and> length p < MAXPATHLEN \<and> p \<noteq> [] \<and> NUL \<notin> set p \<and>
            0 < findDepth p \<and> (findDepth p, p) \<in> set (proto_keys files)) ls ps \<Longrightarrow>
     proto_main_loop files umid ls q low high =
       Inr (map (\<lambda>p. (p, Some (fst (proto_range (proto_keys files) p)), Some (snd (proto_range (proto_keys files) p)))) ps)"
proof (induction ls ps arbitrary: q low high rule: list_all2_induct)
  case Nil
  then show ?case by simp
next
  case (Cons l ls p ps)
  obtain r where "proto_get_directory_contents files umid p =
      Inr (r, Some (fst (proto_range (proto_keys files) p)), Some (snd (proto_range (proto_keys files) p)))"
    using proto_range_printed [OF assms, of p umid] Cons.hyps by blast
  with Cons show ?case
    by simp
qed

lemma proto_catalog_paths:
  "list_all2 (\<lambda>l p. sscanf proto_path_fmt l = Inr [VS p]) proto_catalog (map snd proto_key_list)"
  by code_simp

section \<open>Properties\<close>

text \<open>On a sorted catalogue of 14 lines, the search of the prototype returns the location of the
  path, and -1 when the path is not listed.\<close>

theorem proto_binSearch_is_lookup:
  assumes "proto_wf files" "sorted_wrt (<) (proto_keys files)" "NUL \<notin> set p"
  shows "proto_binSearch files umid p = Inr (lookup_path (proto_keys files) p)"
  using sproto.binSearch_eq_lookup [of files p umid] assms by (simp add: proto_binSearch_eq)

theorem proto_binSearch_is_lookup_witness:
  "proto_binSearch proto_files 0 ''/dir1/file 2'' = Inr 9"
proof -
  have "lookup_path proto_key_list ''/dir1/file 2'' = 9"
    by code_simp
  then show ?thesis
    using proto_binSearch_is_lookup [OF proto_files_wf proto_files_sorted, of "''/dir1/file 2''" 0]
    by (simp add: proto_files_keys)
qed

text \<open>With \<open>catalog.list\<close> holding the lines of the array, \<open>main\<close> prints the range of entries
  of each of the three directories that are listed with a slash, and -1 for every other path.\<close>

theorem proto_main_prints_ranges:
  "proto_main proto_files umid =
     Inr (map (\<lambda>(p, lo, hi). (p, Some lo, Some hi))
       [(''/'', 0, 4), (''/.hidden file 1'', -1, -1), (''/character special file'', -1, -1),
        (''/dir1'', -1, -1), (''/dir2'', -1, -1), (''/dir1/'', 5, 10), (''/dir1/.hidden file 2'', -1, -1),
        (''/dir1/fifo file'', -1, -1), (''/dir1/file 1'', -1, -1), (''/dir1/file 2'', -1, -1),
        (''/dir1/link file'', -1, -1), (''/dir2/'', 11, 13), (''/dir2/hello 2'', -1, -1),
        (''/dir2/semaphore file'', -1, -1)])"
proof -
  have ok: "\<forall>p\<in>set (map snd proto_key_list). length p < MAXPATHLEN \<and> p \<noteq> [] \<and> NUL \<notin> set p \<and>
      0 < findDepth p \<and> (findDepth p, p) \<in> set proto_key_list"
    by code_simp
  have "list_all2 (\<lambda>l p. sscanf proto_path_fmt l = Inr [VS p] \<and> length p < MAXPATHLEN \<and> p \<noteq> [] \<and> NUL \<notin> set p \<and>
      0 < findDepth p \<and> (findDepth p, p) \<in> set (proto_keys proto_files)) proto_catalog (map snd proto_key_list)"
    using proto_catalog_paths ok unfolding proto_files_keys list_all2_conv_all_nth by (metis nth_mem)
  from proto_main_loop_lines [OF proto_files_wf proto_files_sorted this, of umid None None None] show ?thesis
    unfolding proto_main_def proto_files_keys by (rule trans) code_simp
qed

end
