(* ===== verification/Helper_Programs.thy ===== *)
theory Helper_Programs
  imports Catalog_Format "HOL-Library.Code_Target_Nat"
begin

unbundle bit_operations_syntax

text \<open>
  The small programs beside the file system: \<open>bytecount.c\<close> (which \<open>catalogfsmount\<close> runs to see
  whether all lines have the same length), the first version of the generator
  \<open>generate_catalog.old.c\<close>, and the experiments \<open>scanf.c\<close>, \<open>statfs.c\<close> and \<open>stat.c\<close>
  under \<open>helper/\<close>.
\<close>

section \<open>\<open>bytecount\<close>\<close>

text \<open>
  \<open>main\<close> of \<open>bytecount.c\<close>: the numbers it prints. The error message is formatted from
  \<open>input_file\<close> before that pointer is set; \<open>junk\<close> is the string it happens to point to, \<open>None\<close>
  when it cannot be read. \<open>printf\<close> converts the length of a line to \<open>int\<close>.
\<close>

definition bytecount_main :: "(string \<rightharpoonup> string) \<Rightarrow> string option \<Rightarrow> string list \<Rightarrow> int list res" where
  "bytecount_main files junk argv =
     (if length argv \<noteq> 2 then Inl (Exits (-1))
      else case junk of
        None \<Rightarrow> Inl Undefined
      | Some j \<Rightarrow>
          if 256 \<le> length ([LF] @ ''ERROR:Cannot open input file for reading:'') + length j then Inl Undefined
          else case files (argv ! 1) of
            None \<Rightarrow> Inl (Exits (-1))
          | Some content \<Rightarrow> Inr (map (\<lambda>l. wrap32 (int (length l))) (getlines content)))"

section \<open>The first generator\<close>

text \<open>
  \<open>struct dir_entries\<close> of \<open>generate_catalog.old.c\<close>. \<open>entry_name\<close> points into the buffer of the
  directory stream: it is \<open>None\<close> once \<open>closedir\<close> has freed the buffer.
\<close>

record dir_entry =
  entry_name :: "string option"
  entry_type :: nat

fun old_collect :: "dirent list \<Rightarrow> dir_entry list" where
  "old_collect [] = []"
| "old_collect (de # des) =
     (if strcmp (d_name de) ''.'' \<noteq> 0 \<and> strcmp (d_name de) ''..'' \<noteq> 0
      then \<lparr>entry_name = Some (d_name de), entry_type = d_type de\<rparr> # old_collect des
      else old_collect des)"

definition old_closedir :: "dir_entry list \<Rightarrow> dir_entry list" where
  "old_closedir es = map (\<lambda>e. e\<lparr>entry_name := None\<rparr>) es"

text \<open>\<open>directory_listing_sorted\<close>: the empty list is the \<open>NULL\<close> it returns.\<close>

definition directory_listing_sorted :: "os \<Rightarrow> string \<Rightarrow> dir_entry list" where
  "directory_listing_sorted w path =
     (case os_readdir w path of None \<Rightarrow> [] | Some des \<Rightarrow> old_closedir (old_collect des))"

fun old_print :: "dir_entry list \<Rightarrow> string res" where
  "old_print [] = Inr []"
| "old_print (e # es) =
     (case entry_name e of
        None \<Rightarrow> Inl Undefined
      | Some n \<Rightarrow>
          bind_res (old_print es) (\<lambda>out.
            Inr (''d_name='' @ n @ '',d_type='' @ fmt_ld (int (entry_type e)) @ [LF] @ out)))"

definition old_main :: "os \<Rightarrow> (int \<times> string) res" where
  "old_main w =
     (let head = directory_listing_sorted w ''/tmp/temp'' in
      if head = [] then Inr (1, ''Empty directory:/tmp/temp'' @ [LF])
      else bind_res (old_print head) (\<lambda>out. Inr (0, out)))"

section \<open>\<open>helper/scanf.c\<close>\<close>

definition scanf_entry :: string where
  "scanf_entry = ''l 0710 1 119 29 9000 1213109162 1213109161 1213105161 3 '' @ [SOH] @ ''/dir1/link file'' @
     [STX] @ ''/dir2 kkdskl'' @ [SOH, SOH, SOH, SOH, LF]"

text \<open>The number of values read, the depth, the path and the link destination that are printed.\<close>

definition scanf_main :: "string \<Rightarrow> (nat \<times> int \<times> string \<times> string) res" where
  "scanf_main entry =
     bind_res (sscanf (catalog_fmt SOH) entry) (\<lambda>vs.
       if length vs < 11 then Inl Undefined
       else case (vs ! 9, vs ! 10) of
         (VI depth, VS file_path) \<Rightarrow>
           if 50 \<le> length file_path then Inl Undefined
           else let temp = takeWhile (\<lambda>c. c \<noteq> STX) file_path; i = length temp + 1
                in Inr (length vs, depth, temp,
                        if length file_path \<noteq> length temp then drop i file_path else ''kgn'')
       | _ \<Rightarrow> Inl Undefined)"

section \<open>\<open>helper/statfs.c\<close>\<close>

definition statfs_entry :: string where
  "statfs_entry = ''p 0750 1 110 120 11111 1213111162 1213111161 1213102161 /dir1/fifo file'' @ [LF]"

text \<open>The format \<open>%c %lo %ld %ld %ld %lld %lld %lld %lld %[^\13]s\n\<close>.\<close>

definition statfs_fmt :: "directive list" where
  "statfs_fmt =
     [Conv_c, WS, Conv_lo, WS, Conv_ld, WS, Conv_ld, WS, Conv_ld, WS, Conv_ld, WS, Conv_ld, WS,
      Conv_ld, WS, Conv_ld, WS, Conv_set VT, Lit CHR ''s'', WS]"

definition statfs_main :: "string \<Rightarrow> string res" where
  "statfs_main entry =
     bind_res (sscanf statfs_fmt entry) (\<lambda>vs.
       case vs of
         [VC c, VI mode, VI nlink, VI uid, VI gid, VI sz, VI atime, VI mtime, VI ctime, VS path] \<Rightarrow>
           if MAXPATHLEN \<le> length path then Inl Undefined
           else Inr (entry @ [LF] @ ''c='' @ [c] @ '' mode='' @ fmt_lo (nat mode) @ '' nlink='' @ fmt_ld nlink @
                '' uid='' @ fmt_ld uid @ '' gid='' @ fmt_ld gid @ '' size='' @ fmt_ld sz @ '' atime='' @ fmt_ld atime @
                '' mtime='' @ fmt_ld mtime @ '' ctime='' @ fmt_ld ctime @ '' path=abc'' @ path @ ''abc'')
       | _ \<Rightarrow> Inl Undefined)"

section \<open>\<open>helper/stat.c\<close>\<close>

record full_stat = stat +
  st_ino :: "64 word"
  st_blksize :: "64 word"
  st_blocks :: "64 word"

text \<open>The \<open>switch\<close> over the file type.\<close>

definition type_name :: "32 word \<Rightarrow> string" where
  "type_name mode =
     (let t = mode AND 0xF000 in
      if t = 0x6000 then ''block device''
      else if t = 0x2000 then ''character device''
      else if t = 0x4000 then ''directory''
      else if t = 0x1000 then ''FIFO/pipe''
      else if t = 0xA000 then ''symlink''
      else if t = 0x8000 then ''regular file''
      else if t = 0xC000 then ''socket''
      else ''unknown?'')"

text \<open>
  \<open>main\<close> of \<open>stat.c\<close>: exit status and standard output. \<open>ctime\<close> is the function of the C library.
  A file whose attributes cannot be read ends the program with status 0.
\<close>

definition stat_main :: "(64 word \<Rightarrow> string) \<Rightarrow> (string \<rightharpoonup> full_stat) \<Rightarrow> string list \<Rightarrow> int \<times> string" where
  "stat_main ctime stat_of argv =
     (if length argv \<noteq> 2 then (1, [])
      else case stat_of (argv ! 1) of
        None \<Rightarrow> (0, [])
      | Some sb \<Rightarrow>
          (0, ''File type:                '' @ type_name (st_mode sb) @ [LF] @
              ''I-node number:            '' @ fmt_ld (sint (st_ino sb)) @ [LF] @
              ''Mode:                     '' @ fmt_lo (unat (st_mode sb)) @ '' (octal)'' @ [LF] @
              ''Link count:               '' @ fmt_ld (sint (st_nlink sb)) @ [LF] @
              ''Ownership:                UID='' @ fmt_ld (uint (st_uid sb)) @ ''   GID='' @
                fmt_ld (uint (st_gid sb)) @ [LF] @
              ''Preferred I/O block size: '' @ fmt_ld (sint (st_blksize sb)) @ '' bytes'' @ [LF] @
              ''File size:                '' @ fmt_ld (sint (st_size sb)) @ '' bytes'' @ [LF] @
              ''Blocks allocated:         '' @ fmt_ld (sint (st_blocks sb)) @ [LF] @
              ''Last inode change:        '' @ ctime (st_ctime sb) @
              ''Last file access:         '' @ ctime (st_atime sb) @
              ''Last file modification:   '' @ ctime (st_mtime sb)))"

section \<open>Laws\<close>

lemma old_print_closed: "es \<noteq> [] \<Longrightarrow> old_print (old_closedir es) = Inl Undefined"
  by (cases es) (simp_all add: old_closedir_def)

lemma old_collect_empty:
  "old_collect des = [] \<longleftrightarrow> filter (\<lambda>e. filter_ent e \<noteq> 0) des = []"
  by (induction des) (auto simp: filter_ent_def)

lemma type_name_letter:
  "type_char mode = CHR ''d'' \<longleftrightarrow> type_name mode = ''directory''"
proof -
  have "mode AND 0xF000 = 0x4000" if "file_type mode = 4"
    using type_bits [of mode, unfolded that] by (simp add: push_bit_eq_mult)
  moreover have "file_type mode = 4" if "mode AND 0xF000 = 0x4000"
    unfolding file_type_def that by simp
  moreover have "type_char mode = CHR ''d'' \<longleftrightarrow> file_type mode = 4"
    by (simp add: type_char_def Let_def DT_defs)
  moreover have "type_name mode = ''directory'' \<longleftrightarrow> mode AND 0xF000 = 0x4000"
    by (simp add: type_name_def Let_def)
  ultimately show ?thesis by blast
qed

section \<open>Properties\<close>

text \<open>\<open>bytecount\<close> run on a catalogue that \<open>pad_each_line\<close> has padded prints one and the same
  number for every line, which is what \<open>catalogfsmount\<close> checks before it mounts.\<close>

theorem bytecount_padded:
  assumes "\<forall>l\<in>set ls. LF \<notin> set l \<and> NUL \<notin> set l" "int (catalog_width ls) \<le> INT_MAX" "length junk < 200"
    and "files f = Some (pad_each_line (concat (map (\<lambda>l. l @ [LF]) ls)))"
  shows "bytecount_main files (Some junk) [prog, f] = Inr (replicate (length ls) (int (catalog_width ls)))"
proof -
  have "in_int (int (catalog_width ls))"
    using assms(2) by (simp add: in_int_def INT_MIN_def)
  then have "map (\<lambda>l. wrap32 (int (length l))) (map (padded (catalog_width ls)) ls) =
      replicate (length ls) (int (catalog_width ls))"
    by (intro nth_equalityI) (simp_all add: length_padded)
  with assms(3,4) getlines_padded [OF assms(1)] show ?thesis
    by (simp add: bytecount_main_def)
qed

theorem bytecount_padded_witness:
  "bytecount_main [''c'' \<mapsto> pad_each_line (concat (map (\<lambda>l. l @ [LF]) [''a'', ''bcd'']))] (Some []) [''bytecount'', ''c''] =
     Inr [4, 4]"
proof -
  have "catalog_width [''a'', ''bcd''] = 4"
    by code_simp
  then show ?thesis
    using bytecount_padded [of "[''a'', ''bcd'']" "[]"
        "[''c'' \<mapsto> pad_each_line (concat (map (\<lambda>l. l @ [LF]) [''a'', ''bcd'']))]" "''c''" "''bytecount''"]
    by (simp add: INT_MAX_def numeral_2_eq_2)
qed

text \<open>The first generator never lists a directory: with no entry but \<open>.\<close> and \<open>..\<close> it reports an
  empty directory, and otherwise it prints names from the buffer that \<open>closedir\<close> has freed.\<close>

theorem old_main_outcome:
  "old_main w =
     (case scandir w ''/tmp/temp'' filter_ent of
        Some (e # es) \<Rightarrow> Inl Undefined
      | _ \<Rightarrow> Inr (1, ''Empty directory:/tmp/temp'' @ [LF]))"
proof (cases "os_readdir w ''/tmp/temp''")
  case None
  then show ?thesis
    by (simp add: old_main_def directory_listing_sorted_def scandir_def)
next
  case (Some des)
  let ?s = "sort_key d_name (filter (\<lambda>e. filter_ent e \<noteq> 0) des)"
  have s: "scandir w ''/tmp/temp'' filter_ent = Some ?s"
    using Some by (simp add: scandir_def)
  have "?s = [] \<longleftrightarrow> old_collect des = []"
    unfolding old_collect_empty by (metis length_0_conv length_sort)
  then show ?thesis
    using Some s old_print_closed [of "old_collect des"]
    by (cases ?s) (auto simp: old_main_def directory_listing_sorted_def old_closedir_def)
qed

text \<open>\<open>scanf.c\<close> reads all eleven values of its entry and splits the path column at the byte 2.\<close>

theorem scanf_main_result:
  "scanf_main scanf_entry = Inr (11, 3, ''/dir1/link file'', ''/dir2 kkdskl'')"
  by code_simp

end
