(* ===== verification/Rofs.thy ===== *)
theory Rofs
  imports Catalog_Fs Generate_Catalog
begin

unbundle bit_operations_syntax

text \<open>
  The read-only file system \<open>other_fs/rofs/rofs.c\<close>, from which the mount script of the catalogue
  file system is adapted: every path is translated into the underlying tree, reading requests are passed
  on, and changing requests are refused. The system calls are a parameter: each returns an error
  number or its result. \<open>errno\<close> keeps the last error number, which \<open>callback_open\<close> reads.
\<close>

section \<open>The system calls\<close>

record rofs_dirent = dirent +
  d_ino :: "64 word"

record sys =
  sys_lstat :: "string \<Rightarrow> int + stat"
  sys_readlink :: "string \<Rightarrow> int + string"
  sys_readdir :: "string \<Rightarrow> int + rofs_dirent list"
  sys_open :: "string \<Rightarrow> 32 word \<Rightarrow> int option"
  sys_pread :: "string \<Rightarrow> size_t \<Rightarrow> off_t \<Rightarrow> int + string"
  sys_statvfs :: "string \<Rightarrow> int + statvfs"
  sys_access :: "string \<Rightarrow> int \<Rightarrow> int option"
  sys_lgetxattr :: "string \<Rightarrow> string \<Rightarrow> size_t \<Rightarrow> int + string"
  sys_llistxattr :: "string \<Rightarrow> size_t \<Rightarrow> int + string"

text \<open>The global state: the path of the underlying tree and \<open>errno\<close>.\<close>

record rofs =
  rw_path :: string
  errno :: int

definition O_WRONLY :: "32 word" where "O_WRONLY = 1"
definition O_RDWR :: "32 word" where "O_RDWR = 2"
definition O_CREAT :: "32 word" where "O_CREAT = 0x40"
definition O_EXCL :: "32 word" where "O_EXCL = 0x80"
definition O_TRUNC :: "32 word" where "O_TRUNC = 0x200"

section \<open>Paths\<close>

text \<open>
  \<open>translate_path\<close>. An empty \<open>rw_path\<close> makes it read the byte in front of the allocation.
\<close>

definition translate_path :: "rofs \<Rightarrow> string \<Rightarrow> string res" where
  "translate_path s path =
     (if rw_path s = [] then Inl Undefined
      else Inr ((if last (rw_path s) = slash then butlast (rw_path s) else rw_path s) @ path))"

text \<open>What the callbacks do with the outcome of a call: \<open>-errno\<close> after an error.\<close>

definition reply_with :: "rofs \<Rightarrow> int + 'a \<Rightarrow> ('a \<Rightarrow> int) \<Rightarrow> int \<times> 'a option \<times> rofs" where
  "reply_with s r ret =
     (case r of Inl e \<Rightarrow> (- e, None, s\<lparr>errno := e\<rparr>) | Inr x \<Rightarrow> (ret x, Some x, s))"

section \<open>Callbacks that read\<close>

definition callback_getattr :: "sys \<Rightarrow> rofs \<Rightarrow> string \<Rightarrow> (int \<times> stat option \<times> rofs) res" where
  "callback_getattr w s path =
     bind_res (translate_path s path) (\<lambda>p. Inr (reply_with s (sys_lstat w p) (\<lambda>_. 0)))"

text \<open>\<open>readlink\<close> is given room for \<open>size - 1\<close> bytes, and a terminator is stored behind them.\<close>

definition callback_readlink :: "sys \<Rightarrow> rofs \<Rightarrow> string \<Rightarrow> size_t \<Rightarrow> (int \<times> string option \<times> rofs) res" where
  "callback_readlink w s path sz =
     bind_res (translate_path s path) (\<lambda>p.
       if sz = 0 then Inl Undefined
       else Inr (reply_with s (map_sum id (take (sz - 1)) (sys_readlink w p)) (\<lambda>_. 0)))"

type_synonym 'b rofs_filler = "'b \<Rightarrow> string \<Rightarrow> 64 word \<times> 32 word \<Rightarrow> 'b \<times> int"

text \<open>The loop of \<open>callback_readdir\<close>: inode number and file type of every entry, until the buffer is full.\<close>

fun rofs_fill :: "'b rofs_filler \<Rightarrow> 'b \<Rightarrow> rofs_dirent list \<Rightarrow> 'b" where
  "rofs_fill filler buf [] = buf"
| "rofs_fill filler buf (de # des) =
     (let (buf', full) = filler buf (d_name de) (d_ino de, push_bit 12 (of_nat (d_type de)))
      in if full \<noteq> 0 then buf' else rofs_fill filler buf' des)"

definition callback_readdir :: "sys \<Rightarrow> rofs \<Rightarrow> 'b rofs_filler \<Rightarrow> 'b \<Rightarrow> string \<Rightarrow> (int \<times> 'b \<times> rofs) res" where
  "callback_readdir w s filler buf path =
     bind_res (translate_path s path) (\<lambda>p.
       case sys_readdir w p of
         Inl e \<Rightarrow> Inr (- e, buf, s\<lparr>errno := e\<rparr>)
       | Inr des \<Rightarrow> Inr (0, rofs_fill filler buf des, s))"

text \<open>
  \<open>callback_open\<close>: a request to write is answered with \<open>-errno\<close>, although no call has set it.
\<close>

definition callback_open :: "sys \<Rightarrow> rofs \<Rightarrow> string \<Rightarrow> 32 word \<Rightarrow> (int \<times> rofs) res" where
  "callback_open w s path flags =
     (if flags AND O_WRONLY \<noteq> 0 \<or> flags AND O_RDWR \<noteq> 0 \<or> flags AND O_CREAT \<noteq> 0 \<or>
         flags AND O_EXCL \<noteq> 0 \<or> flags AND O_TRUNC \<noteq> 0
      then Inr (- errno s, s)
      else bind_res (translate_path s path) (\<lambda>p.
        case sys_open w p flags of
          Some e \<Rightarrow> Inr (- e, s\<lparr>errno := e\<rparr>)
        | None \<Rightarrow> Inr (0, s)))"

text \<open>\<open>callback_read\<close>: \<open>open\<close> for reading, then \<open>pread\<close>; the number of bytes is an \<open>int\<close>.\<close>

definition callback_read :: "sys \<Rightarrow> rofs \<Rightarrow> string \<Rightarrow> size_t \<Rightarrow> off_t \<Rightarrow> (int \<times> string option \<times> rofs) res" where
  "callback_read w s path sz offset =
     bind_res (translate_path s path) (\<lambda>p.
       case sys_open w p 0 of
         Some e \<Rightarrow> Inr (- e, None, s\<lparr>errno := e\<rparr>)
       | None \<Rightarrow> Inr (reply_with s (sys_pread w p sz offset) (\<lambda>bytes. wrap32 (int (length bytes)))))"

definition callback_statfs :: "sys \<Rightarrow> rofs \<Rightarrow> string \<Rightarrow> (int \<times> statvfs option \<times> rofs) res" where
  "callback_statfs w s path =
     bind_res (translate_path s path) (\<lambda>p. Inr (reply_with s (sys_statvfs w p) (\<lambda>_. 0)))"

definition callback_release :: "string \<Rightarrow> int" where
  "callback_release path = 0"

definition callback_fsync :: "string \<Rightarrow> int \<Rightarrow> int" where
  "callback_fsync path crap = 0"

definition callback_access :: "sys \<Rightarrow> rofs \<Rightarrow> string \<Rightarrow> int \<Rightarrow> (int \<times> rofs) res" where
  "callback_access w s path mode =
     bind_res (translate_path s path) (\<lambda>p.
       case sys_access w p mode of
         Some e \<Rightarrow> Inr (- e, s\<lparr>errno := e\<rparr>)
       | None \<Rightarrow> Inr (0, s))"

definition callback_getxattr :: "sys \<Rightarrow> rofs \<Rightarrow> string \<Rightarrow> string \<Rightarrow> size_t \<Rightarrow> (int \<times> string option \<times> rofs) res" where
  "callback_getxattr w s path name sz =
     bind_res (translate_path s path) (\<lambda>p.
       Inr (reply_with s (sys_lgetxattr w p name sz) (\<lambda>v. wrap32 (int (length v)))))"

definition callback_listxattr :: "sys \<Rightarrow> rofs \<Rightarrow> string \<Rightarrow> size_t \<Rightarrow> (int \<times> string option \<times> rofs) res" where
  "callback_listxattr w s path sz =
     bind_res (translate_path s path) (\<lambda>p.
       Inr (reply_with s (sys_llistxattr w p sz) (\<lambda>v. wrap32 (int (length v)))))"

section \<open>Callbacks that refuse\<close>

definition callback_mknod :: "string \<Rightarrow> mode_t \<Rightarrow> dev_t \<Rightarrow> int" where
  "callback_mknod path mode rdev = - EPERM"

definition callback_mkdir :: "string \<Rightarrow> mode_t \<Rightarrow> int" where
  "callback_mkdir path mode = - EPERM"

definition callback_unlink :: "string \<Rightarrow> int" where
  "callback_unlink path = - EPERM"

definition callback_rmdir :: "string \<Rightarrow> int" where
  "callback_rmdir path = - EPERM"

definition callback_symlink :: "string \<Rightarrow> string \<Rightarrow> int" where
  "callback_symlink source dest = - EPERM"

definition callback_rename :: "string \<Rightarrow> string \<Rightarrow> int" where
  "callback_rename source dest = - EPERM"

definition callback_link :: "string \<Rightarrow> string \<Rightarrow> int" where
  "callback_link source dest = - EPERM"

definition callback_chmod :: "string \<Rightarrow> mode_t \<Rightarrow> int" where
  "callback_chmod path mode = - EPERM"

definition callback_chown :: "string \<Rightarrow> 32 word \<Rightarrow> 32 word \<Rightarrow> int" where
  "callback_chown path uid gid = - EPERM"

definition callback_truncate :: "string \<Rightarrow> off_t \<Rightarrow> int" where
  "callback_truncate path sz = - EPERM"

definition callback_utime :: "string \<Rightarrow> 64 word \<times> 64 word \<Rightarrow> int" where
  "callback_utime path buf = - EPERM"

definition callback_write :: "string \<Rightarrow> string \<Rightarrow> size_t \<Rightarrow> off_t \<Rightarrow> int" where
  "callback_write path buf sz offset = - EPERM"

definition callback_setxattr :: "string \<Rightarrow> string \<Rightarrow> string \<Rightarrow> size_t \<Rightarrow> int \<Rightarrow> int" where
  "callback_setxattr path name value sz flags = - EPERM"

definition callback_removexattr :: "string \<Rightarrow> string \<Rightarrow> int" where
  "callback_removexattr path name = - EPERM"

section \<open>The operation table and \<open>main\<close>\<close>

text \<open>The table \<open>callback_oper\<close>, for the requests of \<open>Catalog_Fs\<close>; \<open>open\<close> comes with its flags.
  There is no entry for \<open>opendir\<close>, \<open>releasedir\<close> and \<open>fsyncdir\<close>.\<close>

fun callback_oper :: "sys \<Rightarrow> rofs \<Rightarrow> 'b rofs_filler \<Rightarrow> 'b \<Rightarrow> 32 word \<Rightarrow> request \<Rightarrow> (int \<times> rofs) res option" where
  "callback_oper w s filler buf flags (Getattr p) =
     Some (bind_res (callback_getattr w s p) (\<lambda>(r, _, s'). Inr (r, s')))"
| "callback_oper w s filler buf flags (Readlink p n) =
     Some (bind_res (callback_readlink w s p n) (\<lambda>(r, _, s'). Inr (r, s')))"
| "callback_oper w s filler buf flags (Readdir p cap) =
     Some (bind_res (callback_readdir w s filler buf p) (\<lambda>(r, _, s'). Inr (r, s')))"
| "callback_oper w s filler buf flags (Mknod p md dev) = Some (Inr (callback_mknod p md dev, s))"
| "callback_oper w s filler buf flags (Mkdir p md) = Some (Inr (callback_mkdir p md, s))"
| "callback_oper w s filler buf flags (Symlink p q) = Some (Inr (callback_symlink p q, s))"
| "callback_oper w s filler buf flags (Unlink p) = Some (Inr (callback_unlink p, s))"
| "callback_oper w s filler buf flags (Rmdir p) = Some (Inr (callback_rmdir p, s))"
| "callback_oper w s filler buf flags (Rename p q) = Some (Inr (callback_rename p q, s))"
| "callback_oper w s filler buf flags (Link p q) = Some (Inr (callback_link p q, s))"
| "callback_oper w s filler buf flags (Chmod p md) = Some (Inr (callback_chmod p md, s))"
| "callback_oper w s filler buf flags (Chown p u g) = Some (Inr (callback_chown p u g, s))"
| "callback_oper w s filler buf flags (Truncate p n) = Some (Inr (callback_truncate p n, s))"
| "callback_oper w s filler buf flags (Utimens p tv) = Some (Inr (callback_utime p tv, s))"
| "callback_oper w s filler buf flags (Open p) = Some (callback_open w s p flags)"
| "callback_oper w s filler buf flags (Read p n off) =
     Some (bind_res (callback_read w s p n off) (\<lambda>(r, _, s'). Inr (r, s')))"
| "callback_oper w s filler buf flags (Write p b n off) = Some (Inr (callback_write p b n off, s))"
| "callback_oper w s filler buf flags (Statfs p) =
     Some (bind_res (callback_statfs w s p) (\<lambda>(r, _, s'). Inr (r, s')))"
| "callback_oper w s filler buf flags (Release p) = Some (Inr (callback_release p, s))"
| "callback_oper w s filler buf flags (Fsync p n) = Some (Inr (callback_fsync p n, s))"
| "callback_oper w s filler buf flags (Access p md) = Some (callback_access w s p md)"
| "callback_oper w s filler buf flags (Setxattr p nm v n fl) = Some (Inr (callback_setxattr p nm v n fl, s))"
| "callback_oper w s filler buf flags (Getxattr p nm n) =
     Some (bind_res (callback_getxattr w s p nm n) (\<lambda>(r, _, s'). Inr (r, s')))"
| "callback_oper w s filler buf flags (Listxattr p n) =
     Some (bind_res (callback_listxattr w s p n) (\<lambda>(r, _, s'). Inr (r, s')))"
| "callback_oper w s filler buf flags (Removexattr p nm) = Some (Inr (callback_removexattr p nm, s))"
| "callback_oper w s filler buf flags (Opendir p) = None"
| "callback_oper w s filler buf flags (Releasedir p) = None"
| "callback_oper w s filler buf flags (Fsyncdir p n) = None"

definition rofs_main :: "(string \<rightharpoonup> string) \<Rightarrow> rofs res" where
  "rofs_main env =
     (case env ''ROFS_RW_PATH'' of
        None \<Rightarrow> Inl (Exits 1)
      | Some p \<Rightarrow> Inr \<lparr>rw_path = p, errno = 0\<rparr>)"

section \<open>Properties\<close>

text \<open>A system on which every call fails with \<open>ENOENT\<close> but \<open>access\<close> and \<open>open\<close>.\<close>

definition ex_sys :: sys where
  "ex_sys = \<lparr>sys_lstat = (\<lambda>_. Inl ENOENT), sys_readlink = (\<lambda>_. Inl ENOENT), sys_readdir = (\<lambda>_. Inl ENOENT),
     sys_open = (\<lambda>_ _. None), sys_pread = (\<lambda>_ _ _. Inl ENOENT), sys_statvfs = (\<lambda>_. Inl ENOENT),
     sys_access = (\<lambda>_ _. None), sys_lgetxattr = (\<lambda>_ _ _. Inl ENOENT), sys_llistxattr = (\<lambda>_ _. Inl ENOENT)\<rparr>"

text \<open>Rofs refuses every request that would change the file system with \<open>EPERM\<close>, and leaves its
  state as it is.\<close>

theorem rofs_read_only:
  assumes "modifies req"
  shows "callback_oper w s filler buf flags req = Some (Inr (- EPERM, s))"
  using assms
  by (cases req)
    (simp_all add: callback_write_def callback_rename_def callback_mkdir_def callback_rmdir_def
      callback_link_def callback_symlink_def callback_unlink_def callback_mknod_def callback_chmod_def
      callback_chown_def callback_utime_def callback_truncate_def callback_setxattr_def
      callback_removexattr_def)

theorem rofs_read_only_witness:
  "callback_oper ex_sys \<lparr>rw_path = ''/rw'', errno = 0\<rparr> (\<lambda>b n st. (b @ [n], 0)) [] 0 (Unlink ''/f'') =
     Some (Inr (- EPERM, \<lparr>rw_path = ''/rw'', errno = 0\<rparr>))"
  by (rule rofs_read_only) simp

text \<open>\<open>translate_path\<close> never writes behind its allocation, which has \<open>strlen(path) +
  strlen(rw_path) + 1\<close> bytes, and two paths are never translated to the same path.\<close>

theorem translate_path_fits:
  assumes "rw_path s \<noteq> []"
  shows "\<exists>p. translate_path s path = Inr p \<and> length p + 1 \<le> length path + length (rw_path s) + 1 \<and>
           (\<forall>path'. translate_path s path' = Inr p \<longrightarrow> path' = path)"
  using assms by (simp add: translate_path_def)

theorem translate_path_fits_witness:
  "\<exists>p. translate_path \<lparr>rw_path = ''/rw/'', errno = 0\<rparr> ''/a'' = Inr p \<and> length p + 1 \<le> 7"
proof -
  have "rw_path \<lparr>rw_path = ''/rw/'', errno = 0\<rparr> \<noteq> []"
    by simp
  from translate_path_fits [OF this, of "''/a''"] obtain p where
    "translate_path \<lparr>rw_path = ''/rw/'', errno = 0\<rparr> ''/a'' = Inr p"
    "length p + 1 \<le> length ''/a'' + length (rw_path \<lparr>rw_path = ''/rw/'', errno = 0\<rparr>) + 1"
    by blast
  then show ?thesis
    by (intro exI [of _ p]) simp
qed

text \<open>Opening a file for writing is not refused with an error of its own: the answer is the error
  number of some earlier call, and success when there was none.\<close>

theorem rofs_open_for_writing:
  assumes "flags AND O_WRONLY \<noteq> 0 \<or> flags AND O_RDWR \<noteq> 0"
  shows "callback_open w s path flags = Inr (- errno s, s)"
  using assms by (auto simp: callback_open_def)

theorem rofs_open_for_writing_witness:
  "bind_res (rofs_main [''ROFS_RW_PATH'' \<mapsto> ''/rw'']) (\<lambda>s. callback_open ex_sys s ''/f'' 1) =
     Inr (0, \<lparr>rw_path = ''/rw'', errno = 0\<rparr>)"
  using rofs_open_for_writing [of 1 ex_sys "\<lparr>rw_path = ''/rw'', errno = 0\<rparr>" "''/f''"]
  by (simp add: rofs_main_def O_WRONLY_def)

end
