(* ===== verification/Fuse_Opt.thy ===== *)
theory Fuse_Opt
  imports Prelude
begin

text \<open>
  The option parser of libfuse, \<open>other_fs/fuse-2.7.3/lib/fuse_opt.c\<close>, through which the arguments of
  \<open>catalogfs\<close> and of every other file system pass. Allocation is modelled by an oracle that
  says which request fails. The processing function of the caller and the conversion that \<open>sscanf\<close>
  performs for the format of a template are parameters.
\<close>

section \<open>Data\<close>

text \<open>What a template stores into a variable of the caller.\<close>

datatype oval = OInt int | OStr string

type_synonym odata = "nat \<rightharpoonup> oval"

text \<open>The memory allocator: \<open>oom i\<close> says whether the \<open>i\<close>-th allocation fails.\<close>

record mem =
  oom :: "nat \<Rightarrow> bool"
  ticks :: nat

definition alloc :: "mem \<Rightarrow> bool \<times> mem" where
  "alloc m = (\<not> oom m (ticks m), m\<lparr>ticks := Suc (ticks m)\<rparr>)"

text \<open>\<open>struct fuse_args\<close>; \<open>argc\<close> is the length of the vector, and \<open>None\<close> is a vector that is \<open>NULL\<close>.\<close>

record fuse_args =
  args_argv :: "string list option"
  allocated :: bool

definition argc :: "fuse_args \<Rightarrow> nat" where
  "argc a = length (case args_argv a of None \<Rightarrow> [] | Some xs \<Rightarrow> xs)"

text \<open>\<open>struct fuse_opt\<close>; the offset -1 is \<open>None\<close>.\<close>

record fuse_opt =
  templ :: string
  opt_offset :: "nat option"
  opt_value :: int

type_synonym opt_proc = "odata \<Rightarrow> string \<Rightarrow> int \<Rightarrow> fuse_args \<Rightarrow> int \<times> odata \<times> fuse_args"

record fuse_opt_context =
  ctx_data :: odata
  ctx_opt :: "fuse_opt list"
  ctx_proc :: "opt_proc option"
  ctx_argctr :: nat
  ctx_argv :: "string list"
  ctx_outargs :: fuse_args
  ctx_opts :: "string option"
  ctx_nonopt :: nat
  ctx_mem :: mem
  ctx_scan :: "string \<Rightarrow> string \<Rightarrow> oval option"

definition FUSE_OPT_KEY_OPT :: int where "FUSE_OPT_KEY_OPT = -1"
definition FUSE_OPT_KEY_NONOPT :: int where "FUSE_OPT_KEY_NONOPT = -2"
definition FUSE_OPT_KEY_KEEP :: int where "FUSE_OPT_KEY_KEEP = -3"
definition FUSE_OPT_KEY_DISCARD :: int where "FUSE_OPT_KEY_DISCARD = -4"

lemmas key_defs = FUSE_OPT_KEY_OPT_def FUSE_OPT_KEY_NONOPT_def FUSE_OPT_KEY_KEEP_def FUSE_OPT_KEY_DISCARD_def

text \<open>A call of \<open>assert\<close> that fails aborts the process.\<close>

definition aborted :: fault where
  "aborted = Exits 134"

text \<open>Go on unless the result is -1.\<close>

definition unless_failed :: "(int \<times> 'c) res \<Rightarrow> ('c \<Rightarrow> (int \<times> 'c) res) \<Rightarrow> (int \<times> 'c) res" where
  "unless_failed r k = bind_res r (\<lambda>(x, c). if x = -1 then Inr (-1, c) else k c)"

section \<open>Argument vectors\<close>

definition fuse_opt_free_args :: "fuse_args \<Rightarrow> fuse_args" where
  "fuse_opt_free_args a = \<lparr>args_argv = None, allocated = False\<rparr>"

text \<open>\<open>realloc\<close> of the vector, \<open>strdup\<close> of the argument.\<close>

definition fuse_opt_add_arg :: "mem \<Rightarrow> fuse_args \<Rightarrow> string \<Rightarrow> (int \<times> mem \<times> fuse_args) res" where
  "fuse_opt_add_arg m a arg =
     (if args_argv a \<noteq> None \<and> \<not> allocated a then Inl aborted
      else let (ok1, m1) = alloc m; (ok2, m2) = (if ok1 then alloc m1 else (False, m1)) in
        if \<not> ok1 \<or> \<not> ok2 then Inr (-1, m2, a)
        else Inr (0, m2, \<lparr>args_argv = Some ((case args_argv a of None \<Rightarrow> [] | Some xs \<Rightarrow> xs) @ [arg]),
                          allocated = True\<rparr>))"

text \<open>The new argument is appended and then moved to its position.\<close>

definition fuse_opt_insert_arg :: "mem \<Rightarrow> fuse_args \<Rightarrow> nat \<Rightarrow> string \<Rightarrow> (int \<times> mem \<times> fuse_args) res" where
  "fuse_opt_insert_arg m a pos arg =
     (if argc a < pos then Inl aborted
      else bind_res (fuse_opt_add_arg m a arg) (\<lambda>(r, m1, a1).
        if r = -1 then Inr (-1, m1, a1)
        else if pos \<noteq> argc a1 - 1
        then let xs = the (args_argv a1); n = last xs; ys = butlast xs
             in Inr (0, m1, a1\<lparr>args_argv := Some (take pos ys @ [n] @ drop pos ys)\<rparr>)
        else Inr (0, m1, a1)))"

definition next_arg :: "fuse_opt_context \<Rightarrow> string \<Rightarrow> int \<times> fuse_opt_context" where
  "next_arg c opt =
     (if length (ctx_argv c) \<le> ctx_argctr c + 1 then (-1, c)
      else (0, c\<lparr>ctx_argctr := ctx_argctr c + 1\<rparr>))"

definition add_arg :: "fuse_opt_context \<Rightarrow> string \<Rightarrow> (int \<times> fuse_opt_context) res" where
  "add_arg c arg =
     bind_res (fuse_opt_add_arg (ctx_mem c) (ctx_outargs c) arg)
       (\<lambda>(r, m, a). Inr (r, c\<lparr>ctx_mem := m, ctx_outargs := a\<rparr>))"

definition fuse_opt_add_opt :: "mem \<Rightarrow> string option \<Rightarrow> string \<Rightarrow> int \<times> mem \<times> string option" where
  "fuse_opt_add_opt m opts opt =
     (let (ok, m1) = alloc m in
      if ok then (0, m1, Some (case opts of None \<Rightarrow> opt | Some s \<Rightarrow> s @ '','' @ opt)) else (-1, m1, opts))"

definition add_opt :: "fuse_opt_context \<Rightarrow> string \<Rightarrow> int \<times> fuse_opt_context" where
  "add_opt c opt =
     (let (r, m, os) = fuse_opt_add_opt (ctx_mem c) (ctx_opts c) opt in (r, c\<lparr>ctx_mem := m, ctx_opts := os\<rparr>))"

definition call_proc :: "fuse_opt_context \<Rightarrow> string \<Rightarrow> int \<Rightarrow> bool \<Rightarrow> (int \<times> fuse_opt_context) res" where
  "call_proc c arg key as_opt =
     (if key = FUSE_OPT_KEY_DISCARD then Inr (0, c)
      else let keep = (\<lambda>c. if as_opt then Inr (add_opt c arg) else add_arg c arg) in
        case ctx_proc c of
          None \<Rightarrow> keep c
        | Some proc \<Rightarrow>
            if key = FUSE_OPT_KEY_KEEP then keep c
            else let (r, d, a) = proc (ctx_data c) arg key (ctx_outargs c);
                     c1 = c\<lparr>ctx_data := d, ctx_outargs := a\<rparr> in
              if r = -1 \<or> r = 0 then Inr (r, c1) else keep c1)"

section \<open>Templates\<close>

definition strchr :: "string \<Rightarrow> char \<Rightarrow> nat option" where
  "strchr s c = (if c \<in> set s then Some (length (takeWhile (\<lambda>x. x \<noteq> c) s)) else None)"

text \<open>\<open>match_template\<close>: the position of the separator when the argument matches, 0 without one.\<close>

definition match_template :: "string \<Rightarrow> string \<Rightarrow> nat option" where
  "match_template t arg =
     (let sep = (case strchr t CHR ''='' of Some i \<Rightarrow> Some i | None \<Rightarrow> strchr t CHR '' '');
          whole = (if strcmp t arg = 0 then Some 0 else None) in
      case sep of
        None \<Rightarrow> whole
      | Some i \<Rightarrow>
          if drop (i + 1) t = [] \<or> t ! (i + 1) = CHR ''%''
          then let tlen = (if t ! i = CHR ''='' then i + 1 else i) in
            if tlen \<le> length arg \<and> strncmp arg t tlen = 0 then Some i else whole
          else whole)"

text \<open>The first matching template, the templates behind it, and the separator.\<close>

fun find_opt :: "fuse_opt list \<Rightarrow> string \<Rightarrow> (fuse_opt \<times> fuse_opt list \<times> nat) option" where
  "find_opt [] arg = None"
| "find_opt (opt # opts) arg =
     (case match_template (templ opt) arg of
        Some sep \<Rightarrow> Some (opt, opts, sep)
      | None \<Rightarrow> find_opt opts arg)"

definition fuse_opt_match :: "fuse_opt list \<Rightarrow> string \<Rightarrow> int" where
  "fuse_opt_match opts opt = (case find_opt opts opt of Some _ \<Rightarrow> 1 | None \<Rightarrow> 0)"

definition process_opt_param ::
  "fuse_opt_context \<Rightarrow> nat \<Rightarrow> string \<Rightarrow> string \<Rightarrow> string \<Rightarrow> (int \<times> fuse_opt_context) res" where
  "process_opt_param c var format param arg =
     (if format = [] \<or> hd format \<noteq> CHR ''%'' then Inl aborted
      else if 1 < length format \<and> format ! 1 = CHR ''s''
      then let (ok, m) = alloc (ctx_mem c); c1 = c\<lparr>ctx_mem := m\<rparr> in
        if ok then Inr (0, c1\<lparr>ctx_data := (ctx_data c1)(var \<mapsto> OStr param)\<rparr>) else Inr (-1, c1)
      else case ctx_scan c format param of
        None \<Rightarrow> Inr (-1, c)
      | Some v \<Rightarrow> Inr (0, c\<lparr>ctx_data := (ctx_data c)(var \<mapsto> v)\<rparr>))"

definition process_opt ::
  "fuse_opt_context \<Rightarrow> fuse_opt \<Rightarrow> nat \<Rightarrow> string \<Rightarrow> bool \<Rightarrow> (int \<times> fuse_opt_context) res" where
  "process_opt c opt sep arg as_opt =
     (case opt_offset opt of
        None \<Rightarrow> unless_failed (call_proc c arg (opt_value opt) as_opt) (\<lambda>c1. Inr (0, c1))
      | Some var \<Rightarrow>
          if sep \<noteq> 0 \<and> drop (sep + 1) (templ opt) \<noteq> []
          then unless_failed
                 (process_opt_param c var (drop (sep + 1) (templ opt))
                    (drop (if templ opt ! sep = CHR ''='' then sep + 1 else sep) arg) arg)
                 (\<lambda>c1. Inr (0, c1))
          else Inr (0, c\<lparr>ctx_data := (ctx_data c)(var \<mapsto> OInt (opt_value opt))\<rparr>))"

definition process_opt_sep_arg ::
  "fuse_opt_context \<Rightarrow> fuse_opt \<Rightarrow> nat \<Rightarrow> string \<Rightarrow> bool \<Rightarrow> (int \<times> fuse_opt_context) res" where
  "process_opt_sep_arg c opt sep arg as_opt =
     unless_failed (Inr (next_arg c arg)) (\<lambda>c1.
       let param = ctx_argv c1 ! ctx_argctr c1; (ok, m) = alloc (ctx_mem c1); c2 = c1\<lparr>ctx_mem := m\<rparr> in
       if \<not> ok then Inr (-1, c2) else process_opt c2 opt sep (take sep arg @ param) as_opt)"

lemma find_opt_shorter: "find_opt opts arg = Some (opt, rest, sep) \<Longrightarrow> length rest < length opts"
  by (induction opts) (auto split: option.splits)

text \<open>The loop over all matching templates. The position of the first match is given.\<close>

function process_matches ::
  "(fuse_opt \<times> fuse_opt list \<times> nat) option \<Rightarrow> fuse_opt_context \<Rightarrow> string \<Rightarrow> bool \<Rightarrow> (int \<times> fuse_opt_context) res"
where
  "process_matches None c arg as_opt = Inr (0, c)"
| "process_matches (Some (opt, opts, sep)) c arg as_opt =
     unless_failed
       (if sep \<noteq> 0 \<and> templ opt ! sep = CHR '' '' \<and> length arg = sep
        then process_opt_sep_arg c opt sep arg as_opt else process_opt c opt sep arg as_opt)
       (\<lambda>c1. process_matches (find_opt opts arg) c1 arg as_opt)"
  by pat_completeness auto

termination
  by (relation "measure (\<lambda>(m, c, arg, as_opt). case m of None \<Rightarrow> 0 | Some (opt, opts, sep) \<Rightarrow> Suc (length opts))")
    (auto split: option.splits dest: find_opt_shorter)

definition process_gopt :: "fuse_opt_context \<Rightarrow> string \<Rightarrow> bool \<Rightarrow> (int \<times> fuse_opt_context) res" where
  "process_gopt c arg as_opt =
     (case find_opt (ctx_opt c) arg of
        Some m \<Rightarrow> process_matches (Some m) c arg as_opt
      | None \<Rightarrow> call_proc c arg FUSE_OPT_KEY_OPT as_opt)"

section \<open>Groups and arguments\<close>

text \<open>The pieces of an option group, cut at the commas.\<close>

fun comma_pieces :: "string \<Rightarrow> string list" where
  "comma_pieces [] = [[]]"
| "comma_pieces (c # cs) =
     (if c = CHR '','' then [] # comma_pieces cs
      else case comma_pieces cs of [] \<Rightarrow> [[c]] | p # ps \<Rightarrow> (c # p) # ps)"

fun process_pieces :: "fuse_opt_context \<Rightarrow> string list \<Rightarrow> (int \<times> fuse_opt_context) res" where
  "process_pieces c [] = Inr (0, c)"
| "process_pieces c (p # ps) = unless_failed (process_gopt c p True) (\<lambda>c1. process_pieces c1 ps)"

definition process_real_option_group :: "fuse_opt_context \<Rightarrow> string \<Rightarrow> (int \<times> fuse_opt_context) res" where
  "process_real_option_group c opts = process_pieces c (comma_pieces opts)"

definition process_option_group :: "fuse_opt_context \<Rightarrow> string \<Rightarrow> (int \<times> fuse_opt_context) res" where
  "process_option_group c opts =
     (case strchr opts CHR '','' of
        None \<Rightarrow> process_gopt c opts True
      | Some _ \<Rightarrow>
          let (ok, m) = alloc (ctx_mem c); c1 = c\<lparr>ctx_mem := m\<rparr> in
          if \<not> ok then Inr (-1, c1) else process_real_option_group c1 opts)"

definition process_one :: "fuse_opt_context \<Rightarrow> string \<Rightarrow> (int \<times> fuse_opt_context) res" where
  "process_one c arg =
     (if ctx_nonopt c \<noteq> 0 \<or> arg = [] \<or> hd arg \<noteq> CHR ''-'' then call_proc c arg FUSE_OPT_KEY_NONOPT False
      else if 1 < length arg \<and> arg ! 1 = CHR ''o''
      then if 2 < length arg then process_option_group c (drop 2 arg)
           else unless_failed (Inr (next_arg c arg)) (\<lambda>c1. process_option_group c1 (ctx_argv c1 ! ctx_argctr c1))
      else if arg = ''--''
      then unless_failed (add_arg c arg) (\<lambda>c1. Inr (0, c1\<lparr>ctx_nonopt := argc (ctx_outargs c1)\<rparr>))
      else process_gopt c arg False)"

text \<open>The loop of \<open>opt_parse\<close>, for at most \<open>n\<close> rounds.\<close>

fun opt_loop :: "nat \<Rightarrow> fuse_opt_context \<Rightarrow> (int \<times> fuse_opt_context) res option" where
  "opt_loop 0 c = (if ctx_argctr c < length (ctx_argv c) then None else Some (Inr (0, c)))"
| "opt_loop (Suc n) c =
     (if ctx_argctr c < length (ctx_argv c)
      then case process_one c (ctx_argv c ! ctx_argctr c) of
             Inl e \<Rightarrow> Some (Inl e)
           | Inr (r, c1) \<Rightarrow>
               if r = -1 then Some (Inr (-1, c1))
               else opt_loop n (c1\<lparr>ctx_argctr := ctx_argctr c1 + 1\<rparr>)
      else Some (Inr (0, c)))"

text \<open>The end of \<open>opt_parse\<close>: the collected options in front, a last \<open>--\<close> dropped.\<close>

definition opt_finish :: "fuse_opt_context \<Rightarrow> (int \<times> fuse_opt_context) res" where
  "opt_finish c =
     unless_failed
       (case ctx_opts c of
          None \<Rightarrow> Inr (0, c)
        | Some os \<Rightarrow>
            unless_failed
              (bind_res (fuse_opt_insert_arg (ctx_mem c) (ctx_outargs c) 1 ''-o'')
                 (\<lambda>(r, m, a). Inr (r, c\<lparr>ctx_mem := m, ctx_outargs := a\<rparr>)))
              (\<lambda>c1. bind_res (fuse_opt_insert_arg (ctx_mem c1) (ctx_outargs c1) 2 os)
                 (\<lambda>(r, m, a). Inr (r, c1\<lparr>ctx_mem := m, ctx_outargs := a\<rparr>))))
       (\<lambda>c1. if ctx_nonopt c1 \<noteq> 0 \<and> ctx_nonopt c1 = argc (ctx_outargs c1)
             then Inr (0, c1\<lparr>ctx_outargs := (ctx_outargs c1)\<lparr>args_argv := map_option butlast (args_argv (ctx_outargs c1))\<rparr>\<rparr>)
             else Inr (0, c1))"

definition opt_parse :: "nat \<Rightarrow> fuse_opt_context \<Rightarrow> (int \<times> fuse_opt_context) res option" where
  "opt_parse n c =
     (case (if ctx_argv c = [] then Inr (0, c) else add_arg c (ctx_argv c ! 0)) of
        Inl e \<Rightarrow> Some (Inl e)
      | Inr (r, c1) \<Rightarrow>
          if r = -1 then Some (Inr (-1, c1))
          else case opt_loop n (c1\<lparr>ctx_argctr := 1\<rparr>) of
            None \<Rightarrow> None
          | Some res \<Rightarrow> Some (unless_failed res opt_finish))"

text \<open>
  \<open>fuse_opt_parse\<close>: the result, the caller's variables and the argument vector, which is replaced only
  on success.
\<close>

definition fuse_opt_parse ::
  "nat \<Rightarrow> (string \<Rightarrow> string \<Rightarrow> oval option) \<Rightarrow> mem \<Rightarrow> fuse_args \<Rightarrow> odata \<Rightarrow> fuse_opt list \<Rightarrow> opt_proc option \<Rightarrow>
     (int \<times> odata \<times> fuse_args) res option" where
  "fuse_opt_parse n scan m args data opts proc =
     (case args_argv args of
        None \<Rightarrow> Some (Inr (0, data, args))
      | Some av \<Rightarrow>
          if av = [] then Some (Inr (0, data, args))
          else map_option (\<lambda>r. bind_res r (\<lambda>(x, c).
                   Inr (x, ctx_data c, if x \<noteq> -1 then ctx_outargs c else args)))
            (opt_parse n
               \<lparr>ctx_data = data, ctx_opt = opts, ctx_proc = proc, ctx_argctr = 0, ctx_argv = av,
                ctx_outargs = \<lparr>args_argv = None, allocated = False\<rparr>, ctx_opts = None, ctx_nonopt = 0,
                ctx_mem = m, ctx_scan = scan\<rparr>))"

section \<open>No assertion fails\<close>

text \<open>
  The output vector once the program name is in it, the contexts that a step can lead to, and the
  processing functions that keep the vector usable.
\<close>

definition wf_out :: "fuse_args \<Rightarrow> bool" where
  "wf_out a \<longleftrightarrow> allocated a \<and> 0 < argc a"

definition proc_ok :: "opt_proc option \<Rightarrow> bool" where
  "proc_ok p \<longleftrightarrow> (\<forall>proc d arg key a. p = Some proc \<longrightarrow> wf_out a \<longrightarrow> wf_out (snd (snd (proc d arg key a))))"

definition follows :: "fuse_opt_context \<Rightarrow> fuse_opt_context \<Rightarrow> bool" where
  "follows c c' \<longleftrightarrow>
     ctx_argv c' = ctx_argv c \<and> ctx_argctr c \<le> ctx_argctr c' \<and> ctx_opt c' = ctx_opt c \<and>
     ctx_proc c' = ctx_proc c \<and> (wf_out (ctx_outargs c) \<longrightarrow> wf_out (ctx_outargs c'))"

definition safe :: "fuse_opt_context \<Rightarrow> (int \<times> fuse_opt_context) res \<Rightarrow> bool" where
  "safe c r \<longleftrightarrow> (\<exists>x c'. r = Inr (x, c') \<and> follows c c')"

lemma follows_refl [simp]: "follows c c"
  by (simp add: follows_def)

lemma follows_trans: "follows a b \<Longrightarrow> follows b c \<Longrightarrow> follows a c"
  by (auto simp: follows_def)

lemma safe_Inr [simp]: "safe c (Inr (x, c')) \<longleftrightarrow> follows c c'"
  by (simp add: safe_def)

lemma safe_mono: "follows a b \<Longrightarrow> safe b r \<Longrightarrow> safe a r"
  by (auto simp: safe_def intro: follows_trans)

lemma safe_unless_failed:
  assumes "safe c r" "\<And>c'. follows c c' \<Longrightarrow> safe c (k c')"
  shows "safe c (unless_failed r k)"
  using assms by (auto simp: safe_def unless_failed_def)

text \<open>The states in which options are processed.\<close>

definition running :: "fuse_opt_context \<Rightarrow> bool" where
  "running c \<longleftrightarrow> wf_out (ctx_outargs c) \<and> proc_ok (ctx_proc c)"

lemma running_follows: "running c \<Longrightarrow> follows c c' \<Longrightarrow> running c'"
  by (simp add: running_def follows_def)

lemma fuse_opt_add_arg_safe:
  assumes "allocated a \<or> args_argv a = None"
  shows "\<exists>r m' a'. fuse_opt_add_arg m a arg = Inr (r, m', a') \<and> (r = -1 \<and> a' = a \<or> r = 0 \<and> wf_out a' \<and> argc a' = Suc (argc a))"
  using assms by (auto simp: fuse_opt_add_arg_def alloc_def Let_def wf_out_def argc_def split: option.splits)

lemma add_arg_safe: "running c \<Longrightarrow> safe c (add_arg c arg)"
  using fuse_opt_add_arg_safe [of "ctx_outargs c" "ctx_mem c" arg]
  by (auto simp: add_arg_def running_def wf_out_def follows_def)

lemma add_opt_follows: "follows c (snd (add_opt c opt))"
  by (simp add: add_opt_def fuse_opt_add_opt_def alloc_def Let_def follows_def)

lemma add_opt_safe: "safe c (Inr (add_opt c opt))"
  using add_opt_follows [of c opt] by (cases "add_opt c opt") simp

lemma call_proc_safe:
  assumes "running c"
  shows "safe c (call_proc c arg key as_opt)"
proof (cases "ctx_proc c")
  case None
  then show ?thesis
    using add_arg_safe [OF assms] add_opt_safe by (simp add: call_proc_def)
next
  case (Some proc)
  obtain r d a where p: "proc (ctx_data c) arg key (ctx_outargs c) = (r, d, a)"
    by (metis prod_cases3)
  let ?c = "c\<lparr>ctx_data := d, ctx_outargs := a\<rparr>"
  have "wf_out (snd (snd (proc (ctx_data c) arg key (ctx_outargs c))))"
    using assms Some unfolding running_def proc_ok_def by blast
  then have f: "follows c ?c"
    using p by (simp add: follows_def)
  then have "safe c (add_arg ?c arg)" "safe c (Inr (add_opt ?c arg))"
    using add_arg_safe running_follows [OF assms f] add_opt_safe safe_mono by blast+
  then show ?thesis
    using Some p f add_arg_safe [OF assms] add_opt_safe by (simp add: call_proc_def Let_def)
qed

lemma next_arg_safe: "safe c (Inr (next_arg c opt))"
  by (simp add: next_arg_def follows_def)

text \<open>What the format of a matching template looks like.\<close>

definition sep_ok :: "fuse_opt \<Rightarrow> nat \<Rightarrow> bool" where
  "sep_ok opt sep \<longleftrightarrow> sep = 0 \<or> drop (sep + 1) (templ opt) = [] \<or> hd (drop (sep + 1) (templ opt)) = CHR ''%''"

lemma match_template_sep: "match_template (templ opt) arg = Some sep \<Longrightarrow> sep_ok opt sep"
  by (cases "Suc sep < length (templ opt)")
    (auto simp: match_template_def sep_ok_def Let_def hd_drop_conv_nth split: option.splits if_splits)

lemma find_opt_sep: "find_opt opts arg = Some (opt, rest, sep) \<Longrightarrow> sep_ok opt sep"
  by (induction opts) (auto split: option.splits dest: match_template_sep)

lemma process_opt_param_safe:
  "format \<noteq> [] \<Longrightarrow> hd format = CHR ''%'' \<Longrightarrow> safe c (process_opt_param c var format param arg)"
  by (auto simp: process_opt_param_def alloc_def Let_def follows_def split: option.splits)

lemma process_opt_safe:
  assumes "running c" "sep_ok opt sep"
  shows "safe c (process_opt c opt sep arg as_opt)"
proof (cases "opt_offset opt")
  case None
  then show ?thesis
    using call_proc_safe [OF assms(1)] by (auto simp: process_opt_def intro!: safe_unless_failed)
next
  case (Some var)
  show ?thesis
  proof (cases "sep \<noteq> 0 \<and> drop (sep + 1) (templ opt) \<noteq> []")
    case True
    then have "safe c (process_opt_param c var (drop (sep + 1) (templ opt)) param arg)" for param
      using assms(2) by (intro process_opt_param_safe) (auto simp: sep_ok_def)
    with Some True show ?thesis
      by (auto simp: process_opt_def intro!: safe_unless_failed)
  next
    case False
    with Some show ?thesis
      by (auto simp: process_opt_def follows_def)
  qed
qed

lemma process_opt_sep_arg_safe:
  assumes "running c" "sep_ok opt sep"
  shows "safe c (process_opt_sep_arg c opt sep arg as_opt)"
  unfolding process_opt_sep_arg_def
proof (rule safe_unless_failed [OF next_arg_safe])
  fix c1 assume f: "follows c c1"
  let ?m = "snd (alloc (ctx_mem c1))"
  have f2: "follows c (c1\<lparr>ctx_mem := ?m\<rparr>)"
    using f by (simp add: follows_def)
  have "safe c (process_opt (c1\<lparr>ctx_mem := ?m\<rparr>) opt sep a as_opt)" for a
    using safe_mono [OF f2 process_opt_safe [OF running_follows [OF assms(1) f2] assms(2)]] .
  with f2 show "safe c (let param = ctx_argv c1 ! ctx_argctr c1; (ok, m) = alloc (ctx_mem c1);
        c2 = c1\<lparr>ctx_mem := m\<rparr> in if \<not> ok then Inr (-1, c2) else process_opt c2 opt sep (take sep arg @ param) as_opt)"
    by (cases "alloc (ctx_mem c1)") (simp add: Let_def)
qed

lemma process_matches_safe:
  "running c \<Longrightarrow> (\<And>opt opts sep. m = Some (opt, opts, sep) \<Longrightarrow> sep_ok opt sep) \<Longrightarrow>
     safe c (process_matches m c arg as_opt)"
proof (induction m c arg as_opt rule: process_matches.induct)
  case (1 c arg as_opt)
  then show ?case by simp
next
  case (2 opt opts sep c arg as_opt)
  have ok: "sep_ok opt sep"
    using "2.prems"(2) by blast
  show ?case
    unfolding process_matches.simps
  proof (rule safe_unless_failed)
    show "safe c (if sep \<noteq> 0 \<and> templ opt ! sep = CHR '' '' \<and> length arg = sep
        then process_opt_sep_arg c opt sep arg as_opt else process_opt c opt sep arg as_opt)"
      using process_opt_sep_arg_safe [OF "2.prems"(1) ok] process_opt_safe [OF "2.prems"(1) ok] by simp
    show "safe c (process_matches (find_opt opts arg) c1 arg as_opt)" if f: "follows c c1" for c1
      by (rule safe_mono [OF f "2.IH"]) (use running_follows [OF "2.prems"(1) f] find_opt_sep in auto)
  qed
qed

lemma process_gopt_safe: "running c \<Longrightarrow> safe c (process_gopt c arg as_opt)"
proof (cases "find_opt (ctx_opt c) arg")
  case None
  then show "running c \<Longrightarrow> ?thesis"
    by (simp add: process_gopt_def call_proc_safe)
next
  case (Some m)
  moreover have "safe c (process_matches (Some m) c arg as_opt)" if "running c"
    using Some find_opt_sep by (intro process_matches_safe [OF that]) auto
  ultimately show "running c \<Longrightarrow> ?thesis"
    by (simp add: process_gopt_def del: process_matches.simps)
qed

lemma process_pieces_safe: "running c \<Longrightarrow> safe c (process_pieces c ps)"
proof (induction ps arbitrary: c)
  case Nil
  then show ?case by simp
next
  case (Cons p ps)
  show ?case
    unfolding process_pieces.simps
  proof (rule safe_unless_failed [OF process_gopt_safe [OF Cons.prems]])
    show "safe c (process_pieces c1 ps)" if "follows c c1" for c1
      using safe_mono [OF that Cons.IH] running_follows [OF Cons.prems that] by blast
  qed
qed

lemma process_option_group_safe:
  assumes "running c"
  shows "safe c (process_option_group c opts)"
proof -
  let ?c = "c\<lparr>ctx_mem := snd (alloc (ctx_mem c))\<rparr>"
  have f: "follows c ?c"
    by (simp add: follows_def)
  have "safe c (process_pieces ?c ps)" for ps
    using safe_mono [OF f process_pieces_safe [OF running_follows [OF assms f]]] .
  with f process_gopt_safe [OF assms] show ?thesis
    by (cases "alloc (ctx_mem c)")
      (auto simp: process_option_group_def process_real_option_group_def Let_def split: option.splits)
qed

lemma process_one_safe:
  assumes "running c"
  shows "safe c (process_one c arg)"
proof -
  have "safe c (unless_failed (Inr (next_arg c arg)) (\<lambda>c1. process_option_group c1 (ctx_argv c1 ! ctx_argctr c1)))"
  proof (rule safe_unless_failed [OF next_arg_safe])
    show "safe c (process_option_group c1 (ctx_argv c1 ! ctx_argctr c1))" if "follows c c1" for c1
      using safe_mono [OF that process_option_group_safe [OF running_follows [OF assms that]]] .
  qed
  moreover have "safe c (unless_failed (add_arg c arg) (\<lambda>c1. Inr (0, c1\<lparr>ctx_nonopt := argc (ctx_outargs c1)\<rparr>)))"
    by (rule safe_unless_failed [OF add_arg_safe [OF assms]]) (simp add: follows_def)
  ultimately show ?thesis
    using call_proc_safe [OF assms] process_option_group_safe [OF assms] process_gopt_safe [OF assms]
    by (auto simp: process_one_def)
qed

lemma opt_loop_safe:
  "running c \<Longrightarrow> length (ctx_argv c) - ctx_argctr c \<le> n \<Longrightarrow> \<exists>r. opt_loop n c = Some r \<and> safe c r"
proof (induction n arbitrary: c)
  case 0
  then show ?case by simp
next
  case (Suc n)
  show ?case
  proof (cases "ctx_argctr c < length (ctx_argv c)")
    case False
    then show ?thesis by simp
  next
    case True
    obtain x c1 where one: "process_one c (ctx_argv c ! ctx_argctr c) = Inr (x, c1)" "follows c c1"
      using process_one_safe [OF Suc.prems(1), unfolded safe_def] by blast
    let ?c = "c1\<lparr>ctx_argctr := ctx_argctr c1 + 1\<rparr>"
    have f: "follows c ?c" "length (ctx_argv ?c) - ctx_argctr ?c \<le> n"
      using one(2) Suc.prems(2) True by (auto simp: follows_def)
    then obtain r where "opt_loop n ?c = Some r" "safe ?c r"
      using Suc.IH [OF running_follows [OF Suc.prems(1) f(1)] f(2)] by blast
    with True one f(1) safe_mono show ?thesis
      by auto
  qed
qed

lemma fuse_opt_insert_arg_safe:
  assumes "wf_out a" "pos \<le> argc a"
  shows "\<exists>r m' a'. fuse_opt_insert_arg m a pos arg = Inr (r, m', a') \<and> wf_out a' \<and> (r \<noteq> -1 \<longrightarrow> argc a' = Suc (argc a))"
proof -
  obtain r m' a' where add: "fuse_opt_add_arg m a arg = Inr (r, m', a')"
    "r = -1 \<and> a' = a \<or> r = 0 \<and> wf_out a' \<and> argc a' = Suc (argc a)"
    using fuse_opt_add_arg_safe [of a m arg] assms(1) by (auto simp: wf_out_def)
  show ?thesis
  proof (cases "r = -1")
    case True
    with add assms show ?thesis
      by (auto simp: fuse_opt_insert_arg_def)
  next
    case False
    with add(2) have a': "wf_out a'" "argc a' = Suc (argc a)" "r = 0"
      by auto
    then obtain xs where xs: "args_argv a' = Some xs" "xs \<noteq> []" "length xs = Suc (argc a)"
      by (auto simp: wf_out_def argc_def split: option.splits)
    with a' False add(1) assms(2) show ?thesis
      by (auto simp: fuse_opt_insert_arg_def Let_def wf_out_def argc_def)
  qed
qed

lemma opt_finish_safe:
  assumes "running c"
  shows "\<exists>x c'. opt_finish c = Inr (x, c')"
proof (cases "ctx_opts c")
  case None
  then show ?thesis
    by (simp add: opt_finish_def unless_failed_def)
next
  case (Some os)
  have a: "wf_out (ctx_outargs c)" "1 \<le> argc (ctx_outargs c)"
    using assms by (auto simp: running_def wf_out_def)
  obtain r1 m1 a1 where i1: "fuse_opt_insert_arg (ctx_mem c) (ctx_outargs c) 1 ''-o'' = Inr (r1, m1, a1)"
    "wf_out a1" "r1 \<noteq> -1 \<longrightarrow> argc a1 = Suc (argc (ctx_outargs c))"
    using fuse_opt_insert_arg_safe [OF a, of "ctx_mem c" "''-o''"] by blast
  show ?thesis
  proof (cases "r1 = -1")
    case True
    with Some i1 show ?thesis
      by (simp add: opt_finish_def unless_failed_def)
  next
    case False
    then obtain r2 m2 a2 where "fuse_opt_insert_arg m1 a1 2 os = Inr (r2, m2, a2)"
      using fuse_opt_insert_arg_safe [OF i1(2), of 2 m1 os] i1(3) a(2) by auto
    with Some i1 False show ?thesis
      by (simp add: opt_finish_def unless_failed_def)
  qed
qed

lemma opt_parse_safe:
  assumes "proc_ok (ctx_proc c)" "ctx_outargs c = \<lparr>args_argv = None, allocated = False\<rparr>"
    and "ctx_argv c \<noteq> []" "length (ctx_argv c) \<le> n"
  shows "\<exists>x c'. opt_parse n c = Some (Inr (x, c'))"
proof -
  obtain r m a where add: "fuse_opt_add_arg (ctx_mem c) (ctx_outargs c) (ctx_argv c ! 0) = Inr (r, m, a)"
    "r = -1 \<or> r = 0 \<and> wf_out a"
    using fuse_opt_add_arg_safe [of "ctx_outargs c" "ctx_mem c" "ctx_argv c ! 0"] assms(2) by auto
  show ?thesis
  proof (cases "r = -1")
    case True
    with add assms(3) show ?thesis
      by (simp add: opt_parse_def add_arg_def)
  next
    case False
    let ?c = "c\<lparr>ctx_mem := m, ctx_outargs := a, ctx_argctr := 1\<rparr>"
    have run: "running ?c"
      using False add(2) assms(1) by (simp add: running_def)
    then obtain x c' where loop: "opt_loop n ?c = Some (Inr (x, c'))" "follows ?c c'"
      using opt_loop_safe [OF run, of n, unfolded safe_def] assms(4) by fastforce
    then obtain y c'' where "opt_finish c' = Inr (y, c'')"
      using opt_finish_safe running_follows [OF run] by blast
    with False add(1) loop(1) assms(3) show ?thesis
      by (simp add: opt_parse_def add_arg_def unless_failed_def)
  qed
qed

section \<open>Plain parsing\<close>

text \<open>
  What the parser is meant to do without templates and without a processing function: the arguments
  that stay, and the groups behind \<open>-o\<close>. \<open>None\<close> when the last \<open>-o\<close> has no argument.
\<close>

fun gather :: "string list \<Rightarrow> (string list \<times> string list) option" where
  "gather [] = Some ([], [])"
| "gather (a # args) =
     (if a = [] \<or> hd a \<noteq> CHR ''-'' then map_option (\<lambda>(k, g). (a # k, g)) (gather args)
      else if 1 < length a \<and> a ! 1 = CHR ''o''
      then if 2 < length a then map_option (\<lambda>(k, g). (k, drop 2 a # g)) (gather args)
           else (case args of
                   [] \<Rightarrow> None
                 | b # args' \<Rightarrow> map_option (\<lambda>(k, g). (k, b # g)) (gather args'))
      else if a = ''--'' then Some (a # args, [])
      else map_option (\<lambda>(k, g). (a # k, g)) (gather args))"

text \<open>Options joined by commas.\<close>

fun join_opts :: "string option \<Rightarrow> string list \<Rightarrow> string option" where
  "join_opts os [] = os"
| "join_opts os (g # gs) = join_opts (Some (case os of None \<Rightarrow> g | Some s \<Rightarrow> s @ '','' @ g)) gs"

text \<open>A \<open>--\<close> with nothing behind it is dropped.\<close>

definition strip_marker :: "string list \<Rightarrow> string list" where
  "strip_marker k = (if k \<noteq> [] \<and> last k = ''--'' \<and> ''--'' \<notin> set (butlast k) then butlast k else k)"

definition gathered :: "string \<Rightarrow> string list \<times> string list \<Rightarrow> string list" where
  "gathered prog = (\<lambda>(k, g).
     prog # (case join_opts None g of None \<Rightarrow> strip_marker k | Some os \<Rightarrow> [''-o'', os] @ k))"

text \<open>The visible part of a context that processes options without templates.\<close>

definition state_is ::
  "string list \<Rightarrow> odata \<Rightarrow> fuse_opt_context \<Rightarrow> string list \<Rightarrow> string option \<Rightarrow> nat \<Rightarrow> nat \<Rightarrow> bool" where
  "state_is av d c out opts no ctr \<longleftrightarrow>
     ctx_opt c = [] \<and> ctx_proc c = None \<and> (\<forall>i. \<not> oom (ctx_mem c) i) \<and> ctx_data c = d \<and> ctx_argv c = av \<and>
     ctx_outargs c = \<lparr>args_argv = Some out, allocated = True\<rparr> \<and> ctx_opts c = opts \<and> ctx_nonopt c = no \<and>
     ctx_argctr c = ctr"

lemma alloc_plain: "state_is av d c out opts no ctr \<Longrightarrow> fst (alloc (ctx_mem c)) = True"
  by (simp add: state_is_def alloc_def)

lemma state_is_alloc:
  "state_is av d c out opts no ctr \<Longrightarrow> state_is av d (c\<lparr>ctx_mem := snd (alloc (ctx_mem c))\<rparr>) out opts no ctr"
  by (simp add: state_is_def alloc_def)

lemma add_arg_state:
  assumes "state_is av d c out opts no ctr"
  obtains c' where "add_arg c a = Inr (0, c')" "state_is av d c' (out @ [a]) opts no ctr"
  using assms by (auto simp: add_arg_def fuse_opt_add_arg_def alloc_def Let_def state_is_def)

lemma add_opt_state:
  assumes "state_is av d c out opts no ctr"
  obtains c' where "add_opt c p = (0, c')" "state_is av d c' out (join_opts opts [p]) no ctr"
  using assms by (auto simp: add_opt_def fuse_opt_add_opt_def alloc_def Let_def state_is_def)

lemma keep_state:
  assumes "state_is av d c out opts no ctr" "key \<noteq> FUSE_OPT_KEY_DISCARD"
  obtains c' where "call_proc c a key False = Inr (0, c')" "state_is av d c' (out @ [a]) opts no ctr"
  using add_arg_state [OF assms(1), of a] assms by (auto simp: call_proc_def state_is_def)

lemma gopt_plain:
  "state_is av d c out opts no ctr \<Longrightarrow>
     process_gopt c p as_opt = (if as_opt then Inr (add_opt c p) else add_arg c p)"
  by (simp add: process_gopt_def call_proc_def state_is_def key_defs)

lemma gopt_state:
  assumes "state_is av d c out opts no ctr"
  shows "\<exists>c'. process_gopt c p True = Inr (0, c') \<and> state_is av d c' out (join_opts opts [p]) no ctr"
    "\<exists>c'. process_gopt c p False = Inr (0, c') \<and> state_is av d c' (out @ [p]) opts no ctr"
  unfolding gopt_plain [OF assms]
  by (metis add_opt_state [OF assms], metis add_arg_state [OF assms])

lemma join_opts_append: "join_opts os (xs @ ys) = join_opts (join_opts os xs) ys"
  by (induction xs arbitrary: os) auto

lemma pieces_state:
  "state_is av d c out opts no ctr \<Longrightarrow>
     \<exists>c'. process_pieces c ps = Inr (0, c') \<and> state_is av d c' out (join_opts opts ps) no ctr"
proof (induction ps arbitrary: c opts)
  case Nil
  then show ?case by simp
next
  case (Cons p ps)
  obtain c1 where c1: "process_gopt c p True = Inr (0, c1)" "state_is av d c1 out (join_opts opts [p]) no ctr"
    using gopt_state(1) [OF Cons.prems] by blast
  from Cons.IH [OF c1(2)] show ?case
    by (simp add: unless_failed_def c1(1))
qed

lemma comma_pieces_not_Nil [simp]: "comma_pieces s \<noteq> []"
  by (cases s) (auto split: list.splits)

lemma join_opts_head: "join_opts (Some (s @ t)) ps = map_option (\<lambda>u. s @ u) (join_opts (Some t) ps)"
  by (induction ps arbitrary: t) auto

lemma join_comma_pieces: "join_opts None (comma_pieces s) = Some s"
proof (induction s)
  case Nil
  then show ?case by simp
next
  case (Cons c s)
  obtain p ps where p: "comma_pieces s = p # ps"
    by (cases "comma_pieces s") auto
  with Cons.IH join_opts_head [of "[c]" p ps] join_opts_head [of "'',''" p ps] show ?case
    by simp
qed

lemma join_group: "join_opts os (comma_pieces s) = join_opts os [s]"
proof (cases os)
  case None
  then show ?thesis by (simp add: join_comma_pieces)
next
  case (Some t)
  obtain p ps where p: "comma_pieces s = p # ps"
    by (cases "comma_pieces s") auto
  with Some join_comma_pieces [of s] join_opts_head [of "t @ '',''" p ps] show ?thesis
    by simp
qed

lemma no_comma_pieces: "CHR '','' \<notin> set s \<Longrightarrow> comma_pieces s = [s]"
  by (induction s) auto

lemma group_state:
  assumes "state_is av d c out opts no ctr"
  shows "\<exists>c'. process_option_group c s = Inr (0, c') \<and> state_is av d c' out (join_opts opts [s]) no ctr"
proof (cases "CHR '','' \<in> set s")
  case False
  then show ?thesis
    using gopt_state(1) [OF assms, of s] by (simp add: process_option_group_def strchr_def)
next
  case True
  from pieces_state [OF state_is_alloc [OF assms], of "comma_pieces s"] obtain c' where
    "process_pieces (c\<lparr>ctx_mem := snd (alloc (ctx_mem c))\<rparr>) (comma_pieces s) = Inr (0, c')"
    "state_is av d c' out (join_opts opts [s]) no ctr"
    unfolding join_group by blast
  with True alloc_plain [OF assms] show ?thesis
    by (cases "alloc (ctx_mem c)")
      (auto simp: process_option_group_def process_real_option_group_def strchr_def Let_def)
qed

lemma loop_step:
  assumes "state_is av d c out opts no ctr" "ctr < length av" "process_one c (av ! ctr) = Inr (0, c1)"
    and "state_is av d c1 out1 opts1 no1 ctr1" "0 < n"
  obtains c2 where "opt_loop n c = opt_loop (n - 1) c2" "state_is av d c2 out1 opts1 no1 (Suc ctr1)"
proof
  let ?c = "c1\<lparr>ctx_argctr := Suc ctr1\<rparr>"
  show "opt_loop n c = opt_loop (n - 1) ?c"
    using assms by (cases n) (simp_all add: state_is_def)
  show "state_is av d ?c out1 opts1 no1 (Suc ctr1)"
    using assms(4) by (simp add: state_is_def)
qed

lemma process_one_nonopt:
  assumes "state_is av d c out opts no ctr" "no \<noteq> 0 \<or> a = [] \<or> hd a \<noteq> CHR ''-''"
  obtains c' where "process_one c a = Inr (0, c')" "state_is av d c' (out @ [a]) opts no ctr"
proof -
  obtain c' where "call_proc c a FUSE_OPT_KEY_NONOPT False = Inr (0, c')" "state_is av d c' (out @ [a]) opts no ctr"
    using keep_state [OF assms(1), of FUSE_OPT_KEY_NONOPT a] by (auto simp: key_defs)
  moreover have "ctx_nonopt c = no"
    using assms(1) by (simp add: state_is_def)
  ultimately show thesis
    using that assms(2) by (auto simp: process_one_def)
qed

lemma keep_loop:
  "state_is av d c out opts no ctr \<Longrightarrow> no \<noteq> 0 \<Longrightarrow> length av - ctr \<le> n \<Longrightarrow> ctr \<le> length av \<Longrightarrow>
     \<exists>c'. opt_loop n c = Some (Inr (0, c')) \<and> state_is av d c' (out @ drop ctr av) opts no (length av)"
proof (induction n arbitrary: c out ctr)
  case 0
  then show ?case by (auto simp: state_is_def)
next
  case (Suc n)
  show ?case
  proof (cases "ctr < length av")
    case False
    with Suc.prems show ?thesis by (auto simp: state_is_def)
  next
    case True
    obtain c1 where c1: "process_one c (av ! ctr) = Inr (0, c1)" "state_is av d c1 (out @ [av ! ctr]) opts no ctr"
      using process_one_nonopt [OF Suc.prems(1)] Suc.prems(2) by blast
    obtain c2 where c2: "opt_loop (Suc n) c = opt_loop n c2" "state_is av d c2 (out @ [av ! ctr]) opts no (Suc ctr)"
      using loop_step [OF Suc.prems(1) True c1, of "Suc n"] by auto
    have "drop ctr av = av ! ctr # drop (Suc ctr) av"
      using True by (simp add: Cons_nth_drop_Suc)
    with Suc.IH [OF c2(2) Suc.prems(2)] Suc.prems(3) True c2(1) show ?thesis
      by auto
  qed
qed

text \<open>The count that \<open>--\<close> leaves in \<open>nonopt\<close>: the arguments up to and including it.\<close>

definition marker_pos :: "nat \<Rightarrow> string list \<Rightarrow> nat" where
  "marker_pos n k = (if ''--'' \<in> set k then n + Suc (length (takeWhile (\<lambda>a. a \<noteq> ''--'') k)) else 0)"

lemma marker_pos_Cons: "a \<noteq> ''--'' \<Longrightarrow> marker_pos n (a # k) = marker_pos (Suc n) k"
  by (simp add: marker_pos_def)

definition loop_result :: "string list \<Rightarrow> odata \<Rightarrow> string list \<Rightarrow> string option \<Rightarrow>
    (string list \<times> string list) option \<Rightarrow> (int \<times> fuse_opt_context) res option \<Rightarrow> bool" where
  "loop_result av d out opts g r =
     (case g of
        None \<Rightarrow> (\<exists>c'. r = Some (Inr (-1, c')) \<and> ctx_data c' = d)
      | Some (k, gs) \<Rightarrow>
          (\<exists>c' ctr. r = Some (Inr (0, c')) \<and>
             state_is av d c' (out @ k) (join_opts opts gs) (marker_pos (length out) k) ctr))"

lemma loop_result_keep:
  "a \<noteq> ''--'' \<Longrightarrow> loop_result av d (out @ [a]) opts g r \<Longrightarrow>
     loop_result av d out opts (map_option (\<lambda>(k, g). (a # k, g)) g) r"
  by (auto simp: loop_result_def marker_pos_Cons split: option.splits)

lemma loop_result_group:
  "loop_result av d out (join_opts opts [b]) g r \<Longrightarrow>
     loop_result av d out opts (map_option (\<lambda>(k, g). (k, b # g)) g) r"
  by (auto simp: loop_result_def split: option.splits)

lemma process_one_group:
  assumes "state_is av d c out opts 0 ctr" "a \<noteq> []" "hd a = CHR ''-''" "2 < length a" "a ! 1 = CHR ''o''"
  obtains c' where "process_one c a = Inr (0, c')" "state_is av d c' out (join_opts opts [drop 2 a]) 0 ctr"
  using group_state [OF assms(1), of "drop 2 a"] assms by (auto simp: process_one_def state_is_def)

lemma process_one_next:
  assumes "state_is av d c out opts 0 ctr" "a \<noteq> []" "hd a = CHR ''-''" "\<not> 2 < length a" "1 < length a" "a ! 1 = CHR ''o''"
  shows "length av \<le> Suc ctr \<Longrightarrow> process_one c a = Inr (-1, c)"
    "Suc ctr < length av \<Longrightarrow>
       \<exists>c'. process_one c a = Inr (0, c') \<and> state_is av d c' out (join_opts opts [av ! Suc ctr]) 0 (Suc ctr)"
proof -
  assume "length av \<le> Suc ctr"
  with assms show "process_one c a = Inr (-1, c)"
    by (simp add: process_one_def state_is_def next_arg_def unless_failed_def)
next
  assume l: "Suc ctr < length av"
  let ?c = "c\<lparr>ctx_argctr := Suc ctr\<rparr>"
  have "state_is av d ?c out opts 0 (Suc ctr)"
    using assms(1) by (simp add: state_is_def)
  from group_state [OF this, of "av ! Suc ctr"] assms l
  show "\<exists>c'. process_one c a = Inr (0, c') \<and> state_is av d c' out (join_opts opts [av ! Suc ctr]) 0 (Suc ctr)"
    by (simp add: process_one_def state_is_def next_arg_def unless_failed_def)
qed

lemma process_one_marker:
  assumes "state_is av d c out opts 0 ctr"
  obtains c' where "process_one c ''--'' = Inr (0, c')" "state_is av d c' (out @ [''--'']) opts (Suc (length out)) ctr"
proof -
  obtain c1 where c1: "add_arg c ''--'' = Inr (0, c1)" "state_is av d c1 (out @ [''--'']) opts 0 ctr"
    using add_arg_state [OF assms] by blast
  let ?c = "c1\<lparr>ctx_nonopt := argc (ctx_outargs c1)\<rparr>"
  have "process_one c ''--'' = Inr (0, ?c)"
    using assms c1(1) by (simp add: process_one_def state_is_def unless_failed_def)
  moreover have "state_is av d ?c (out @ [''--'']) opts (Suc (length out)) ctr"
    using c1(2) by (simp add: state_is_def argc_def)
  ultimately show thesis
    by (rule that)
qed

lemma process_one_other:
  assumes "state_is av d c out opts 0 ctr" "a \<noteq> []" "hd a = CHR ''-''" "\<not> (1 < length a \<and> a ! 1 = CHR ''o'')" "a \<noteq> ''--''"
  obtains c' where "process_one c a = Inr (0, c')" "state_is av d c' (out @ [a]) opts 0 ctr"
  using gopt_state(2) [OF assms(1), of a] assms by (auto simp: process_one_def state_is_def)

lemma drop_eq_Cons:
  assumes "a # args = drop i av"
  shows "i < length av" "av ! i = a" "args = drop (Suc i) av"
proof -
  show i: "i < length av"
    using assms by (metis drop_all list.discI not_le)
  have "av ! i # drop (Suc i) av = a # args"
    using Cons_nth_drop_Suc [OF i] assms by (rule trans [OF _ sym])
  then show "av ! i = a" "args = drop (Suc i) av"
    by simp_all
qed

lemma opt_loop_gather:
  "state_is av d c out opts 0 ctr \<Longrightarrow> args = drop ctr av \<Longrightarrow> length args \<le> n \<Longrightarrow>
     loop_result av d out opts (gather args) (opt_loop n c)"
proof (induction args arbitrary: c out opts ctr n rule: gather.induct)
  case 1
  then have "opt_loop n c = Some (Inr (0, c))"
    by (cases n) (simp_all add: state_is_def)
  with 1 show ?case
    by (auto simp: loop_result_def marker_pos_def)
next
  case (2 a args)
  note st = "2.prems"(1)
  note at = drop_eq_Cons [OF "2.prems"(2)]
  have n: "0 < n" "length args \<le> n - 1"
    using "2.prems"(3) by auto
  consider (arg) "a = [] \<or> hd a \<noteq> CHR ''-''"
    | (group) "a \<noteq> []" "hd a = CHR ''-''" "2 < length a" "a ! 1 = CHR ''o''"
    | (sep) "a \<noteq> []" "hd a = CHR ''-''" "1 < length a" "\<not> 2 < length a" "a ! 1 = CHR ''o''"
    | (marker) "a = ''--''"
    | (opt) "a \<noteq> []" "hd a = CHR ''-''" "\<not> (1 < length a \<and> a ! 1 = CHR ''o'')" "a \<noteq> ''--''"
    by fastforce
  then show ?case
  proof cases
    case arg
    obtain c1 where c1: "process_one c a = Inr (0, c1)" "state_is av d c1 (out @ [a]) opts 0 ctr"
      using process_one_nonopt [OF st, of a] arg by blast
    obtain c2 where c2: "opt_loop n c = opt_loop (n - 1) c2" "state_is av d c2 (out @ [a]) opts 0 (Suc ctr)"
      using loop_step [OF st at(1) _ c1(2) n(1)] c1(1) at(2) by auto
    have "loop_result av d (out @ [a]) opts (gather args) (opt_loop n c)"
      unfolding c2(1) using "2.IH"(1) [OF arg c2(2) at(3) n(2)] .
    moreover have "a \<noteq> ''--''"
      using arg by auto
    ultimately show ?thesis
      using arg loop_result_keep by simp
  next
    case group
    obtain c1 where c1: "process_one c a = Inr (0, c1)" "state_is av d c1 out (join_opts opts [drop 2 a]) 0 ctr"
      using process_one_group [OF st group] by blast
    obtain c2 where c2: "opt_loop n c = opt_loop (n - 1) c2" "state_is av d c2 out (join_opts opts [drop 2 a]) 0 (Suc ctr)"
      using loop_step [OF st at(1) _ c1(2) n(1)] c1(1) at(2) by auto
    have "loop_result av d out (join_opts opts [drop 2 a]) (gather args) (opt_loop n c)"
      unfolding c2(1) using "2.IH"(2) [OF _ _ _ c2(2) at(3) n(2)] group by auto
    then show ?thesis
      using group loop_result_group [of av d out opts "drop 2 a"] by simp
  next
    case marker
    obtain c1 where c1: "process_one c a = Inr (0, c1)" "state_is av d c1 (out @ [a]) opts (Suc (length out)) ctr"
      using process_one_marker [OF st] marker by blast
    obtain c2 where c2: "opt_loop n c = opt_loop (n - 1) c2" "state_is av d c2 (out @ [a]) opts (Suc (length out)) (Suc ctr)"
      using loop_step [OF st at(1) _ c1(2) n(1)] c1(1) at(2) by auto
    from keep_loop [OF c2(2), of "n - 1"] n(2) at show ?thesis
      by (auto simp: marker loop_result_def c2(1) marker_pos_def)
  next
    case opt
    obtain c1 where c1: "process_one c a = Inr (0, c1)" "state_is av d c1 (out @ [a]) opts 0 ctr"
      using process_one_other [OF st opt] by blast
    obtain c2 where c2: "opt_loop n c = opt_loop (n - 1) c2" "state_is av d c2 (out @ [a]) opts 0 (Suc ctr)"
      using loop_step [OF st at(1) _ c1(2) n(1)] c1(1) at(2) by auto
    have "loop_result av d (out @ [a]) opts (gather args) (opt_loop n c)"
      unfolding c2(1) using "2.IH"(4) [OF _ _ _ c2(2) at(3) n(2)] opt by auto
    then show ?thesis
      using opt loop_result_keep [OF opt(4)] by auto
  next
    case sep
    note one = process_one_next [OF st sep(1,2,4,3,5)]
    show ?thesis
    proof (cases args)
      case Nil
      then have "process_one c a = Inr (-1, c)"
        using one(1) at(3) by (metis drop_eq_Nil2)
      moreover have "ctx_argctr c = ctr" "ctx_argv c = av" "ctx_data c = d"
        using st by (simp_all add: state_is_def)
      ultimately show ?thesis
        using sep Nil at n(1) by (cases n) (simp_all add: loop_result_def)
    next
      case (Cons b args')
      note at' = drop_eq_Cons [of b args' "Suc ctr" av, OF at(3) [unfolded Cons]]
      obtain c1 where c1: "process_one c a = Inr (0, c1)" "state_is av d c1 out (join_opts opts [b]) 0 (Suc ctr)"
        using one(2) [OF at'(1)] at'(2) by blast
      obtain c2 where c2: "opt_loop n c = opt_loop (n - 1) c2"
        "state_is av d c2 out (join_opts opts [b]) 0 (Suc (Suc ctr))"
        using loop_step [OF st at(1) _ c1(2) n(1)] c1(1) at(2) by auto
      have "loop_result av d out (join_opts opts [b]) (gather args') (opt_loop n c)"
        unfolding c2(1) using "2.IH"(3) [OF _ _ _ Cons c2(2) at'(3)] sep n(2) Cons by auto
      then show ?thesis
        using sep Cons loop_result_group [of av d out opts b] by simp
    qed
  qed
qed

lemma insert_arg_plain:
  assumes "\<forall>i. \<not> oom m i" "args_argv a = Some xs" "allocated a" "pos \<le> length xs"
  shows "\<exists>m'. fuse_opt_insert_arg m a pos arg =
           Inr (0, m', \<lparr>args_argv = Some (take pos xs @ [arg] @ drop pos xs), allocated = True\<rparr>) \<and>
         (\<forall>i. \<not> oom m' i)"
proof -
  let ?m = "m\<lparr>ticks := Suc (Suc (ticks m))\<rparr>"
  have "fuse_opt_add_arg m a arg = Inr (0, ?m, \<lparr>args_argv = Some (xs @ [arg]), allocated = True\<rparr>)"
    using assms by (simp add: fuse_opt_add_arg_def alloc_def)
  then show ?thesis
    using assms by (cases "pos = length xs") (auto simp: fuse_opt_insert_arg_def argc_def Let_def)
qed

lemma takeWhile_shorter: "x \<in> set xs \<Longrightarrow> \<not> P x \<Longrightarrow> length (takeWhile P xs) < length xs"
  by (induction xs) auto

lemma marker_last:
  "marker_pos (Suc 0) k = Suc (length k) \<longleftrightarrow> k \<noteq> [] \<and> last k = ''--'' \<and> ''--'' \<notin> set (butlast k)"
proof (induction k rule: rev_induct)
  case Nil
  then show ?case by (simp add: marker_pos_def)
next
  case (snoc a k)
  have "length (takeWhile (\<lambda>a. a \<noteq> ''--'') k) < length k" if "''--'' \<in> set k"
    using that by (rule takeWhile_shorter) simp
  moreover have "length (takeWhile (\<lambda>a. a \<noteq> ''--'') k) \<le> length k"
    by (rule length_takeWhile_le)
  ultimately show ?case
    by (cases "''--'' \<in> set k") (auto simp: marker_pos_def takeWhile_append)
qed

lemma marker_pos_le: "marker_pos n k \<le> n + length k"
proof (cases "''--'' \<in> set k")
  case True
  then have "length (takeWhile (\<lambda>a. a \<noteq> ''--'') k) < length k"
    by (rule takeWhile_shorter) simp
  then show ?thesis
    using True by (simp add: marker_pos_def)
qed (simp add: marker_pos_def)

lemma opt_finish_state:
  assumes "state_is av d c (prog # k) opts (marker_pos (Suc 0) k) ctr"
  shows "\<exists>c'. opt_finish c = Inr (0, c') \<and> ctx_data c' = d \<and>
           ctx_outargs c' = \<lparr>args_argv = Some (prog # (case opts of None \<Rightarrow> strip_marker k | Some os \<Rightarrow> [''-o'', os] @ k)),
                             allocated = True\<rparr>"
proof (cases opts)
  case None
  show ?thesis
    using None assms marker_last [of k]
    by (auto simp: opt_finish_def unless_failed_def state_is_def argc_def strip_marker_def)
next
  case (Some os)
  have good: "\<forall>i. \<not> oom (ctx_mem c) i" and out: "ctx_outargs c = \<lparr>args_argv = Some (prog # k), allocated = True\<rparr>"
    using assms by (simp_all add: state_is_def)
  obtain m1 where i1: "fuse_opt_insert_arg (ctx_mem c) (ctx_outargs c) 1 ''-o'' =
      Inr (0, m1, \<lparr>args_argv = Some (prog # ''-o'' # k), allocated = True\<rparr>)" "\<forall>i. \<not> oom m1 i"
    using insert_arg_plain [OF good, of "ctx_outargs c" "prog # k" 1 "''-o''"] out by auto
  obtain m2 where i2: "fuse_opt_insert_arg m1 \<lparr>args_argv = Some (prog # ''-o'' # k), allocated = True\<rparr> 2 os =
      Inr (0, m2, \<lparr>args_argv = Some (prog # ''-o'' # os # k), allocated = True\<rparr>)"
    using insert_arg_plain [OF i1(2), of "\<lparr>args_argv = Some (prog # ''-o'' # k), allocated = True\<rparr>"
        "prog # ''-o'' # k" 2 os] by (auto simp: numeral_2_eq_2)
  have "marker_pos (Suc 0) k \<noteq> Suc (Suc (Suc (length k)))"
    using marker_pos_le [of "Suc 0" k] by linarith
  with Some assms i1(1) i2 show ?thesis
    by (simp add: opt_finish_def unless_failed_def state_is_def argc_def)
qed

section \<open>Properties\<close>


definition good_mem :: mem where
  "good_mem = \<lparr>oom = (\<lambda>_. False), ticks = 0\<rparr>"


text \<open>C29: whatever the templates and the allocator do, and whatever the processing function does as long as it
  keeps the output vector allocated and with the program name in it (\<open>proc_ok\<close>), \<open>fuse_opt_parse\<close> ends, no
  assertion fails, and the argument vector of the caller is replaced only on success.\<close>

theorem fuse_opt_parse_safe:
  assumes "proc_ok proc" "args_argv args = Some av" "length av \<le> n"
  shows "\<exists>r d' args'. fuse_opt_parse n scan m args d opts proc = Some (Inr (r, d', args')) \<and> (r = -1 \<longrightarrow> args' = args)"
proof (cases "av = []")
  case True
  with assms(2) show ?thesis
    by (simp add: fuse_opt_parse_def)
next
  case False
  let ?c = "\<lparr>ctx_data = d, ctx_opt = opts, ctx_proc = proc, ctx_argctr = 0, ctx_argv = av,
    ctx_outargs = \<lparr>args_argv = None, allocated = False\<rparr>, ctx_opts = None, ctx_nonopt = 0, ctx_mem = m, ctx_scan = scan\<rparr>"
  obtain x c' where "opt_parse n ?c = Some (Inr (x, c'))"
    using opt_parse_safe [of ?c n] assms False by auto
  with assms(2) False show ?thesis
    by (simp add: fuse_opt_parse_def)
qed

text \<open>A template with a format, one without, and a processing function that keeps everything.\<close>

theorem fuse_opt_parse_safe_witness:
  "\<exists>r d' args'. fuse_opt_parse 3 (\<lambda>_ _. None) \<lparr>oom = (\<lambda>i. i = 5), ticks = 0\<rparr>
     \<lparr>args_argv = Some [''p'', ''-o'', ''max=x''], allocated = False\<rparr> Map.empty
     [\<lparr>templ = ''max=%u'', opt_offset = Some 0, opt_value = 0\<rparr>] (Some (\<lambda>d a k out. (1, d, out))) =
     Some (Inr (r, d', args')) \<and> (r = -1 \<longrightarrow> args' = \<lparr>args_argv = Some [''p'', ''-o'', ''max=x''], allocated = False\<rparr>)"
  by (rule fuse_opt_parse_safe [where av = "[''p'', ''-o'', ''max=x'']"]) (simp_all add: proc_ok_def)

end
