(* ===== verification/Fuse_Locks.thy ===== *)
theory Fuse_Locks
  imports Fuse_Opt
begin

text \<open>
  The list of file locks that libfuse keeps for a node (\<open>other_fs/fuse-2.7.3/lib/fuse.c\<close>): insertion splits,
  joins and removes the ranges of one owner. The lemmas show that the list stays sorted and joined for
  every owner, and that insertion sets the lock of exactly the bytes of its range.
\<close>

section \<open>Data\<close>

record lock =
  lk_type :: int
  lk_start :: int
  lk_end :: int
  lk_pid :: int
  lk_owner :: nat

record flock =
  fl_type :: int
  fl_start :: int
  fl_len :: int
  fl_pid :: int

definition F_RDLCK :: int where "F_RDLCK = 0"
definition F_WRLCK :: int where "F_WRLCK = 1"
definition F_UNLCK :: int where "F_UNLCK = 2"
definition OFFSET_MAX :: int where "OFFSET_MAX = 0x7fffffffffffffff"
definition ENOLCK :: int where "ENOLCK = 37"

lemmas lock_consts = F_RDLCK_def F_WRLCK_def F_UNLCK_def OFFSET_MAX_def

section \<open>Operations\<close>

definition conflicts :: "lock \<Rightarrow> lock \<Rightarrow> bool" where
  "conflicts lk l \<longleftrightarrow>
     lk_owner l \<noteq> lk_owner lk \<and> lk_start lk \<le> lk_end l \<and> lk_start l \<le> lk_end lk \<and>
     (lk_type l = F_WRLCK \<or> lk_type lk = F_WRLCK)"

definition locks_conflict :: "lock list \<Rightarrow> lock \<Rightarrow> lock option" where
  "locks_conflict ls lk = find (conflicts lk) ls"

text \<open>The end of \<open>locks_insert\<close>: the lock is copied to \<open>newl1\<close>, which \<open>n1\<close> says is not \<open>NULL\<close>.\<close>

definition put_lock :: "bool \<Rightarrow> lock \<Rightarrow> lock list \<Rightarrow> lock list res" where
  "put_lock n1 lk ls =
     (if lk_type lk \<noteq> F_UNLCK then (if n1 then Inr (lk # ls) else Inl Undefined) else Inr ls)"

definition skip_lock :: "lock \<Rightarrow> lock list res \<Rightarrow> lock list res" where
  "skip_lock l r = bind_res r (\<lambda>ls. Inr (l # ls))"

text \<open>The loop of \<open>locks_insert\<close>: \<open>n2\<close> says that \<open>newl2\<close> is not \<open>NULL\<close>.\<close>

function insert_loop :: "bool \<Rightarrow> bool \<Rightarrow> lock \<Rightarrow> lock list \<Rightarrow> lock list res" where
  "insert_loop n1 n2 lk [] = put_lock n1 lk []"
| "insert_loop n1 n2 lk (l # ls) =
     (if lk_owner l \<noteq> lk_owner lk then skip_lock l (insert_loop n1 n2 lk ls)
      else if lk_type lk = lk_type l then
        if lk_end l < lk_start lk - 1 then skip_lock l (insert_loop n1 n2 lk ls)
        else if lk_end lk < lk_start l - 1 then put_lock n1 lk (l # ls)
        else if lk_start l \<le> lk_start lk \<and> lk_end lk \<le> lk_end l then Inr (l # ls)
        else insert_loop n1 n2
               (lk\<lparr>lk_start := (if lk_start l < lk_start lk then lk_start l else lk_start lk),
                   lk_end := (if lk_end lk < lk_end l then lk_end l else lk_end lk)\<rparr>) ls
      else
        if lk_end l < lk_start lk then skip_lock l (insert_loop n1 n2 lk ls)
        else if lk_end lk < lk_start l then put_lock n1 lk (l # ls)
        else if lk_start lk \<le> lk_start l \<and> lk_end l \<le> lk_end lk then insert_loop n1 n2 lk ls
        else if lk_end l \<le> lk_end lk then skip_lock (l\<lparr>lk_end := lk_start lk - 1\<rparr>) (insert_loop n1 n2 lk ls)
        else if lk_start lk \<le> lk_start l then put_lock n1 lk (l\<lparr>lk_start := lk_end lk + 1\<rparr> # ls)
        else if \<not> n2 then Inl Undefined
        else skip_lock (l\<lparr>lk_end := lk_start lk - 1\<rparr>)
               (insert_loop n1 False lk (l\<lparr>lk_start := lk_end lk + 1\<rparr> # ls)))"
  by pat_completeness auto
termination
  by (relation "measure (\<lambda>(n1, n2, lk, ls). length ls + (if n2 then 1 else 0))") auto

definition locks_insert :: "mem \<Rightarrow> lock list \<Rightarrow> lock \<Rightarrow> (int \<times> mem \<times> lock list) res" where
  "locks_insert m ls lk =
     (let need = (lk_type lk \<noteq> F_UNLCK \<or> lk_start lk \<noteq> 0 \<or> lk_end lk \<noteq> OFFSET_MAX);
          (ok1, m1) = (if need then alloc m else (False, m));
          (ok2, m2) = (if need then alloc m1 else (False, m1)) in
      if need \<and> \<not> (ok1 \<and> ok2) then Inr (- ENOLCK, m2, ls)
      else bind_res (insert_loop ok1 ok2 lk ls) (\<lambda>ls'. Inr (0, m2, ls')))"

definition flock_to_lock :: "flock \<Rightarrow> lock res" where
  "flock_to_lock fl =
     (if fl_len fl \<noteq> 0 \<and> \<not> (in_long (fl_start fl + fl_len fl) \<and> in_long (fl_start fl + fl_len fl - 1)) then Inl Undefined
      else Inr \<lparr>lk_type = fl_type fl, lk_start = fl_start fl,
                lk_end = (if fl_len fl \<noteq> 0 then fl_start fl + fl_len fl - 1 else OFFSET_MAX),
                lk_pid = fl_pid fl, lk_owner = 0\<rparr>)"

definition lock_to_flock :: "lock \<Rightarrow> flock" where
  "lock_to_flock lk =
     \<lparr>fl_type = lk_type lk, fl_start = lk_start lk,
      fl_len = (if lk_end lk = OFFSET_MAX then 0 else lk_end lk - lk_start lk + 1), fl_pid = lk_pid lk\<rparr>"

section \<open>The list as a map from owners and bytes to locks\<close>

definition covers :: "lock \<Rightarrow> nat \<Rightarrow> int \<Rightarrow> bool" where
  "covers l ow x \<longleftrightarrow> lk_owner l = ow \<and> lk_start l \<le> x \<and> x \<le> lk_end l"

fun lock_at :: "lock list \<Rightarrow> nat \<Rightarrow> int \<Rightarrow> int option" where
  "lock_at [] ow x = None"
| "lock_at (l # ls) ow x = (if covers l ow x then Some (lk_type l) else lock_at ls ow x)"

text \<open>Locks of one owner are ordered and apart, and locks of one type do not touch.\<close>

definition before :: "lock \<Rightarrow> lock \<Rightarrow> bool" where
  "before l m \<longleftrightarrow>
     (lk_owner l = lk_owner m \<longrightarrow> lk_end l < lk_start m \<and> (lk_type l = lk_type m \<longrightarrow> lk_end l + 1 < lk_start m))"

definition range_ok :: "lock \<Rightarrow> bool" where
  "range_ok l \<longleftrightarrow> 0 \<le> lk_start l \<and> lk_start l \<le> lk_end l \<and> lk_end l \<le> OFFSET_MAX"

definition wf_locks :: "lock list \<Rightarrow> bool" where
  "wf_locks ls \<longleftrightarrow> sorted_wrt before ls \<and> (\<forall>l\<in>set ls. range_ok l \<and> lk_type l \<noteq> F_UNLCK)"

text \<open>The lock that a byte has after insertion of \<open>lk\<close>.\<close>

definition set_lock :: "lock \<Rightarrow> (nat \<Rightarrow> int \<Rightarrow> int option) \<Rightarrow> nat \<Rightarrow> int \<Rightarrow> int option" where
  "set_lock lk g ow x = (if covers lk ow x then (if lk_type lk = F_UNLCK then None else Some (lk_type lk)) else g ow x)"

section \<open>Insertion\<close>

lemma wf_locks_Cons:
  "wf_locks (l # ls) \<longleftrightarrow> (\<forall>m\<in>set ls. before l m) \<and> range_ok l \<and> lk_type l \<noteq> F_UNLCK \<and> wf_locks ls"
  by (auto simp: wf_locks_def)

text \<open>A lower bound for the locks of one owner, one byte more for the locks of one type.\<close>

definition lies_above :: "nat \<Rightarrow> int \<Rightarrow> int \<Rightarrow> lock \<Rightarrow> bool" where
  "lies_above ow t x m \<longleftrightarrow> (lk_owner m = ow \<longrightarrow> x < lk_start m \<and> (t = lk_type m \<longrightarrow> x + 1 < lk_start m))"

lemma before_above: "before l m \<longleftrightarrow> lies_above (lk_owner l) (lk_type l) (lk_end l) m"
  by (auto simp: before_def lies_above_def)

lemma lock_at_none: "\<forall>m\<in>set ls. lies_above ow t x m \<Longrightarrow> y \<le> x \<Longrightarrow> lock_at ls ow y = None"
  by (induction ls) (auto simp: lies_above_def covers_def)

text \<open>
  What an insertion into the rest of a list achieves: the result is well formed, has the new lock, and
  stays above every bound that the list and the new lock are above.
\<close>

definition inserted :: "lock \<Rightarrow> lock list \<Rightarrow> lock list \<Rightarrow> bool" where
  "inserted lk ls ls' \<longleftrightarrow>
     wf_locks ls' \<and> (\<forall>ow x. lock_at ls' ow x = set_lock lk (lock_at ls) ow x) \<and>
     (\<forall>ow t x. (\<forall>m\<in>set ls. lies_above ow t x m) \<and> lies_above ow t x lk \<longrightarrow> (\<forall>m\<in>set ls'. lies_above ow t x m))"

lemma insertedI:
  assumes "wf_locks ls'" "\<And>ow x. lock_at ls' ow x = set_lock lk (lock_at ls) ow x"
    and "\<And>ow t x. \<forall>m\<in>set ls. lies_above ow t x m \<Longrightarrow> lies_above ow t x lk \<Longrightarrow> \<forall>m\<in>set ls'. lies_above ow t x m"
  shows "inserted lk ls ls'"
  using assms by (auto simp: inserted_def)

text \<open>The lock goes in front of a list that is behind it.\<close>

lemma put_lock_inserted:
  assumes "wf_locks ls" "range_ok lk" "\<forall>m\<in>set ls. before lk m" "lk_type lk \<noteq> F_UNLCK \<longrightarrow> n1"
  shows "\<exists>ls'. put_lock n1 lk ls = Inr ls' \<and> inserted lk ls ls'"
proof (cases "lk_type lk = F_UNLCK")
  case True
  have "lock_at ls ow x = set_lock lk (lock_at ls) ow x" for ow x
    using True lock_at_none [of ls "lk_owner lk" "lk_type lk" "lk_end lk" x] assms(3)
    by (auto simp: set_lock_def covers_def before_above)
  with True assms(1) show ?thesis
    by (auto simp: put_lock_def intro: insertedI)
next
  case False
  have "inserted lk ls (lk # ls)"
    using False assms by (intro insertedI) (auto simp: wf_locks_Cons set_lock_def)
  with False assms(4) show ?thesis
    by (simp add: put_lock_def)
qed

lemma insertedD:
  assumes "inserted lk ls ls'"
  shows "wf_locks ls'" "lock_at ls' ow x = set_lock lk (lock_at ls) ow x"
    "\<forall>m\<in>set ls. lies_above ow t x m \<Longrightarrow> lies_above ow t x lk \<Longrightarrow> \<forall>m\<in>set ls'. lies_above ow t x m"
  using assms unfolding inserted_def by blast+

text \<open>A lock in front of the new one stays.\<close>

lemma skip_lock_inserted:
  assumes "\<exists>ls'. r = Inr ls' \<and> inserted lk ls ls'" "wf_locks (l # ls)" "before l lk"
  shows "\<exists>ls'. skip_lock l r = Inr ls' \<and> inserted lk (l # ls) ls'"
proof -
  obtain ls' where ls': "r = Inr ls'" "inserted lk ls ls'"
    using assms(1) by blast
  have l: "\<forall>m\<in>set ls. lies_above (lk_owner l) (lk_type l) (lk_end l) m" "lies_above (lk_owner l) (lk_type l) (lk_end l) lk"
    using assms(2,3) by (simp_all add: wf_locks_Cons before_above)
  have "wf_locks (l # ls')"
    using insertedD(3) [OF ls'(2) l] insertedD(1) [OF ls'(2)] assms(2) by (simp add: wf_locks_Cons before_above)
  moreover have "lock_at (l # ls') ow x = set_lock lk (lock_at (l # ls)) ow x" for ow x
  proof (cases "covers l ow x")
    case True
    then have "\<not> covers lk ow x"
      using assms(3) by (auto simp: covers_def before_def)
    with True show ?thesis
      by (simp add: set_lock_def)
  next
    case False
    then show ?thesis
      using insertedD(2) [OF ls'(2), of ow x] by (simp add: set_lock_def)
  qed
  moreover have "\<forall>m\<in>set (l # ls'). lies_above ow t x m" if "\<forall>m\<in>set (l # ls). lies_above ow t x m" "lies_above ow t x lk" for ow t x
    using that insertedD(3) [OF ls'(2), of ow t x] by simp
  ultimately have "inserted lk (l # ls) (l # ls')"
    by (rule insertedI)
  with ls'(1) show ?thesis
    by (simp add: skip_lock_def)
qed

text \<open>
  A lock of the same owner that the new one swallows, or is joined with to \<open>lk'\<close>, disappears.
\<close>

lemma drop_lock_inserted:
  assumes "\<exists>ls'. r = Inr ls' \<and> inserted lk' ls ls'" "lk_owner l = lk_owner lk"
    and "lk' = lk\<lparr>lk_start := a, lk_end := b\<rparr>" "a \<le> lk_start lk" "a \<le> lk_start l" "lk_end lk \<le> b" "lk_end l \<le> b"
    and "a = lk_start lk \<and> b = lk_end lk \<or>
         lk_type l = lk_type lk \<and> lk_type lk \<noteq> F_UNLCK \<and> (a = lk_start lk \<or> a = lk_start l) \<and>
         (\<forall>x. a \<le> x \<and> x \<le> b \<longrightarrow> covers lk (lk_owner lk) x \<or> covers l (lk_owner lk) x)"
  shows "\<exists>ls'. r = Inr ls' \<and> inserted lk (l # ls) ls'"
proof -
  obtain ls' where ls': "r = Inr ls'" "inserted lk' ls ls'"
    using assms(1) by blast
  have "lock_at ls' ow x = set_lock lk (lock_at (l # ls)) ow x" for ow x
  proof (cases "covers lk' ow x")
    case True
    then have ow: "ow = lk_owner lk" "a \<le> x" "x \<le> b"
      by (simp_all add: covers_def assms(3))
    then have "covers lk ow x \<or> lk_type lk \<noteq> F_UNLCK \<and> lk_type l = lk_type lk \<and> covers l ow x"
      using assms(8) by (auto simp: covers_def)
    then show ?thesis
      using insertedD(2) [OF ls'(2), of ow x] True by (auto simp: set_lock_def assms(3))
  next
    case False
    then have "\<not> covers lk ow x" "\<not> covers l ow x"
      using assms(2-7) by (auto simp: covers_def)
    with False show ?thesis
      using insertedD(2) [OF ls'(2), of ow x] by (simp add: set_lock_def)
  qed
  moreover have "\<forall>m\<in>set ls'. lies_above ow t x m" if "\<forall>m\<in>set (l # ls). lies_above ow t x m" "lies_above ow t x lk" for ow t x
  proof -
    have "lies_above ow t x lk'"
      using that assms(2,8) by (auto simp: lies_above_def assms(3))
    then show ?thesis
      using that(1) insertedD(3) [OF ls'(2), of ow t x] by simp
  qed
  ultimately have "inserted lk (l # ls) ls'"
    by (intro insertedI insertedD(1) [OF ls'(2)])
  with ls'(1) show ?thesis
    by blast
qed

text \<open>A lock of another type loses the bytes of the new one.\<close>

lemma cut_lock_inserted:
  assumes "\<exists>ls'. r = Inr ls' \<and> inserted lk (parts @ ls) ls'"
    and "\<And>ow x. \<not> covers lk ow x \<Longrightarrow> lock_at (parts @ ls) ow x = lock_at (l # ls) ow x"
    and "\<And>p. p \<in> set parts \<Longrightarrow> lk_owner p = lk_owner l \<and> lk_type p = lk_type l \<and> lk_start l \<le> lk_start p"
  shows "\<exists>ls'. r = Inr ls' \<and> inserted lk (l # ls) ls'"
proof -
  obtain ls' where ls': "r = Inr ls'" "inserted lk (parts @ ls) ls'"
    using assms(1) by blast
  have "lock_at ls' ow x = set_lock lk (lock_at (l # ls)) ow x" for ow x
    using insertedD(2) [OF ls'(2), of ow x] assms(2) [of ow x] by (simp add: set_lock_def)
  moreover have "\<forall>m\<in>set ls'. lies_above ow t x m" if "\<forall>m\<in>set (l # ls). lies_above ow t x m" "lies_above ow t x lk" for ow t x
  proof -
    have "lies_above ow t x p" if p: "p \<in> set parts" for p
      using assms(3) [OF p] \<open>\<forall>m\<in>set (l # ls). lies_above ow t x m\<close> by (auto simp: lies_above_def)
    with that(1) have "\<forall>m\<in>set (parts @ ls). lies_above ow t x m"
      by auto
    then show ?thesis
      using that(2) by (rule insertedD(3) [OF ls'(2)])
  qed
  ultimately have "inserted lk (l # ls) ls'"
    by (intro insertedI insertedD(1) [OF ls'(2)])
  with ls'(1) show ?thesis
    by blast
qed

lemma lock_at_cut:
  assumes "\<not> covers lk ow x" "lk_start lk \<le> lk_end l" "lk_start l \<le> lk_end lk" "lk_owner l = lk_owner lk"
  shows "lk_start l < lk_start lk \<Longrightarrow> lk_end l \<le> lk_end lk \<Longrightarrow>
           lock_at ([l\<lparr>lk_end := lk_start lk - 1\<rparr>] @ ls) ow x = lock_at (l # ls) ow x"
    "lk_start lk \<le> lk_start l \<Longrightarrow> lk_end lk < lk_end l \<Longrightarrow>
           lock_at ([l\<lparr>lk_start := lk_end lk + 1\<rparr>] @ ls) ow x = lock_at (l # ls) ow x"
    "lk_start l < lk_start lk \<Longrightarrow> lk_end lk < lk_end l \<Longrightarrow>
           lock_at ([l\<lparr>lk_end := lk_start lk - 1\<rparr>, l\<lparr>lk_start := lk_end lk + 1\<rparr>] @ ls) ow x = lock_at (l # ls) ow x"
  using assms by (auto simp: covers_def)

text \<open>No lock has to be split, so \<open>newl2\<close> is not needed.\<close>

definition no_split :: "lock \<Rightarrow> lock list \<Rightarrow> bool" where
  "no_split lk ls \<longleftrightarrow> (\<forall>l\<in>set ls. lk_owner l = lk_owner lk \<longrightarrow> lk_start lk \<le> lk_start l \<or> lk_end l \<le> lk_end lk)"

lemma insert_same_type:
  assumes "wf_locks (l # ls)" "range_ok lk" "lk_owner l = lk_owner lk" "lk_type lk = lk_type l"
    and "\<not> lk_end l < lk_start lk - 1" "\<not> lk_end lk < lk_start l - 1" "\<not> (lk_start l \<le> lk_start lk \<and> lk_end lk \<le> lk_end l)"
    and "\<exists>ls'. r = Inr ls' \<and> inserted (lk\<lparr>lk_start := (if lk_start l < lk_start lk then lk_start l else lk_start lk),
           lk_end := (if lk_end lk < lk_end l then lk_end l else lk_end lk)\<rparr>) ls ls'"
  shows "\<exists>ls'. r = Inr ls' \<and> inserted lk (l # ls) ls'"
proof (rule drop_lock_inserted [OF assms(8,3) refl])
  show "(if lk_start l < lk_start lk then lk_start l else lk_start lk) = lk_start lk \<and>
        (if lk_end lk < lk_end l then lk_end l else lk_end lk) = lk_end lk \<or>
      lk_type l = lk_type lk \<and> lk_type lk \<noteq> F_UNLCK \<and>
      ((if lk_start l < lk_start lk then lk_start l else lk_start lk) = lk_start lk \<or>
       (if lk_start l < lk_start lk then lk_start l else lk_start lk) = lk_start l) \<and>
      (\<forall>x. (if lk_start l < lk_start lk then lk_start l else lk_start lk) \<le> x \<and>
           x \<le> (if lk_end lk < lk_end l then lk_end l else lk_end lk) \<longrightarrow>
           covers lk (lk_owner lk) x \<or> covers l (lk_owner lk) x)"
    using assms(1,3-6) by (auto simp: covers_def wf_locks_Cons)
qed auto

lemma put_before:
  assumes "wf_locks (l # ls)" "lk_owner l = lk_owner lk" "lk_end lk < lk_start l"
    and "lk_type lk = lk_type l \<longrightarrow> lk_end lk < lk_start l - 1"
  shows "\<forall>m\<in>set (l # ls). before lk m"
  using assms by (auto simp: wf_locks_Cons before_def range_ok_def)

lemma insert_other_type:
  assumes "wf_locks (l # ls)" "range_ok lk" "lk_owner l = lk_owner lk" "lk_type lk \<noteq> lk_type l"
    and "\<not> lk_end l < lk_start lk" "\<not> lk_end lk < lk_start l" "\<not> (lk_start lk \<le> lk_start l \<and> lk_end l \<le> lk_end lk)"
    and "lk_type lk \<noteq> F_UNLCK \<longrightarrow> n1" "\<not> n2 \<longrightarrow> no_split lk (l # ls)"
    and "\<exists>ls'. insert_loop n1 n2 lk ls = Inr ls' \<and> inserted lk ls ls'"
    and "n2 \<Longrightarrow> lk_end lk < lk_end l \<Longrightarrow> \<exists>ls'. insert_loop n1 False lk (l\<lparr>lk_start := lk_end lk + 1\<rparr> # ls) = Inr ls' \<and>
           inserted lk (l\<lparr>lk_start := lk_end lk + 1\<rparr> # ls) ls'"
  shows "\<exists>ls'. insert_loop n1 n2 lk (l # ls) = Inr ls' \<and> inserted lk (l # ls) ls'"
proof -
  let ?a = "l\<lparr>lk_end := lk_start lk - 1\<rparr>" and ?b = "l\<lparr>lk_start := lk_end lk + 1\<rparr>"
  have eq: "insert_loop n1 n2 lk (l # ls) =
      (if lk_end l \<le> lk_end lk then skip_lock ?a (insert_loop n1 n2 lk ls)
       else if lk_start lk \<le> lk_start l then put_lock n1 lk (?b # ls)
       else if \<not> n2 then Inl Undefined else skip_lock ?a (insert_loop n1 False lk (?b # ls)))"
    using assms(3-7) by simp
  have overlap: "lk_start lk \<le> lk_end l" "lk_start l \<le> lk_end lk"
    using assms(5,6) by simp_all
  have rest: "\<forall>m\<in>set ls. before l m" "range_ok l" "lk_type l \<noteq> F_UNLCK" "wf_locks ls"
    using assms(1) by (simp_all add: wf_locks_Cons)
  consider (low) "lk_end l \<le> lk_end lk" "lk_start l < lk_start lk" | (high) "lk_end lk < lk_end l" "lk_start lk \<le> lk_start l"
    | (inside) "lk_end lk < lk_end l" "lk_start l < lk_start lk"
    using assms(7) by linarith
  then show ?thesis
  proof cases
    case low
    have "wf_locks (?a # ls)" "before ?a lk"
      using rest low(2) overlap assms(2,4) by (auto simp: wf_locks_Cons before_def range_ok_def)
    then have "\<exists>ls'. skip_lock ?a (insert_loop n1 n2 lk ls) = Inr ls' \<and> inserted lk ([?a] @ ls) ls'"
      using skip_lock_inserted [OF assms(10)] by simp
    then have "\<exists>ls'. skip_lock ?a (insert_loop n1 n2 lk ls) = Inr ls' \<and> inserted lk (l # ls) ls'"
      by (rule cut_lock_inserted) (auto simp: lock_at_cut [OF _ overlap assms(3)] low simp del: append.simps lock_at.simps)
    with low show ?thesis
      by (simp only: eq if_True)
  next
    case high
    have "wf_locks (?b # ls)" "\<forall>m\<in>set (?b # ls). before lk m"
      using rest high overlap assms(2,3,4) by (auto simp: wf_locks_Cons before_def range_ok_def)
    then have "\<exists>ls'. put_lock n1 lk (?b # ls) = Inr ls' \<and> inserted lk ([?b] @ ls) ls'"
      using put_lock_inserted [OF _ assms(2) _ assms(8)] by simp
    then have "\<exists>ls'. put_lock n1 lk (?b # ls) = Inr ls' \<and> inserted lk (l # ls) ls'"
      by (rule cut_lock_inserted)
        (use overlap in \<open>auto simp: lock_at_cut [OF _ overlap assms(3)] high simp del: append.simps lock_at.simps\<close>)
    with high show ?thesis
      by (simp add: eq del: insert_loop.simps)
  next
    case inside
    then have n2
      using assms(3,9) by (auto simp: no_split_def)
    have "wf_locks (?a # ?b # ls)" "before ?a lk"
      using rest inside overlap assms(2,4) by (auto simp: wf_locks_Cons before_def range_ok_def)
    then have "\<exists>ls'. skip_lock ?a (insert_loop n1 False lk (?b # ls)) = Inr ls' \<and> inserted lk ([?a, ?b] @ ls) ls'"
      using skip_lock_inserted [OF assms(11) [OF \<open>n2\<close> inside(1)]] by simp
    then have "\<exists>ls'. skip_lock ?a (insert_loop n1 False lk (?b # ls)) = Inr ls' \<and> inserted lk (l # ls) ls'"
      by (rule cut_lock_inserted)
        (use overlap in \<open>auto simp: lock_at_cut [OF _ overlap assms(3)] inside simp del: append.simps lock_at.simps\<close>)
    then show ?thesis
      using inside \<open>n2\<close> unfolding eq by (simp del: insert_loop.simps)
  qed
qed

lemma no_split_Cons: "no_split lk (l # ls) \<Longrightarrow> no_split lk ls"
  by (simp add: no_split_def)

lemma insert_own_same:
  assumes "wf_locks (l # ls)" "range_ok lk" "lk_owner l = lk_owner lk" "lk_type lk = lk_type l"
    and "lk_type lk \<noteq> F_UNLCK \<longrightarrow> n1" "\<not> n2 \<longrightarrow> no_split lk (l # ls)"
    and IH: "\<And>lk'. range_ok lk' \<Longrightarrow> lk_type lk' = lk_type lk \<Longrightarrow> \<not> n2 \<longrightarrow> no_split lk' ls \<Longrightarrow>
           \<exists>ls'. insert_loop n1 n2 lk' ls = Inr ls' \<and> inserted lk' ls ls'"
  shows "\<exists>ls'. insert_loop n1 n2 lk (l # ls) = Inr ls' \<and> inserted lk (l # ls) ls'"
proof -
  note own = assms(3) and type = assms(4)
  have skip: "\<exists>ls'. insert_loop n1 n2 lk ls = Inr ls' \<and> inserted lk ls ls'"
    using assms(6) by (intro IH assms(2) refl) (auto simp: no_split_def)
  have ok: "range_ok l" "lk_type l \<noteq> F_UNLCK"
    using assms(1) by (simp_all add: wf_locks_Cons)
  let ?lk = "lk\<lparr>lk_start := (if lk_start l < lk_start lk then lk_start l else lk_start lk),
                 lk_end := (if lk_end lk < lk_end l then lk_end l else lk_end lk)\<rparr>"
  consider (below) "lk_end l < lk_start lk - 1" | (behind) "\<not> lk_end l < lk_start lk - 1" "lk_end lk < lk_start l - 1"
    | (covered) "lk_start l \<le> lk_start lk" "lk_end lk \<le> lk_end l" "\<not> lk_end l < lk_start lk - 1" "\<not> lk_end lk < lk_start l - 1"
    | (join) "\<not> lk_end l < lk_start lk - 1" "\<not> lk_end lk < lk_start l - 1" "\<not> (lk_start l \<le> lk_start lk \<and> lk_end lk \<le> lk_end l)"
    by blast
  then show ?thesis
  proof cases
    case below
    then show ?thesis
      using skip_lock_inserted [OF skip assms(1)] own type by (simp add: before_def)
  next
    case behind
    then show ?thesis
      using put_lock_inserted [OF assms(1,2) put_before [OF assms(1) own] assms(5)] own type by simp
  next
    case covered
    have "inserted lk (l # ls) (l # ls)"
      using covered own type ok assms(1) by (intro insertedI) (auto simp: set_lock_def covers_def)
    with covered own type show ?thesis
      by simp
  next
    case join
    have "range_ok ?lk" "\<not> n2 \<longrightarrow> no_split ?lk ls"
      using assms(2,6) ok(1) by (auto simp: range_ok_def no_split_def)
    then have "\<exists>ls'. insert_loop n1 n2 ?lk ls = Inr ls' \<and> inserted ?lk ls ls'"
      by (intro IH) simp_all
    from insert_same_type [OF assms(1,2) own type join this] show ?thesis
      using join own type by auto
  qed
qed

lemma insert_own_other:
  assumes "wf_locks (l # ls)" "range_ok lk" "lk_owner l = lk_owner lk" "lk_type lk \<noteq> lk_type l"
    and "lk_type lk \<noteq> F_UNLCK \<longrightarrow> n1" "\<not> n2 \<longrightarrow> no_split lk (l # ls)"
    and skip: "\<exists>ls'. insert_loop n1 n2 lk ls = Inr ls' \<and> inserted lk ls ls'"
    and split: "n2 \<Longrightarrow> wf_locks (l\<lparr>lk_start := lk_end lk + 1\<rparr> # ls) \<Longrightarrow> no_split lk (l\<lparr>lk_start := lk_end lk + 1\<rparr> # ls) \<Longrightarrow>
           \<exists>ls'. insert_loop n1 False lk (l\<lparr>lk_start := lk_end lk + 1\<rparr> # ls) = Inr ls' \<and>
             inserted lk (l\<lparr>lk_start := lk_end lk + 1\<rparr> # ls) ls'"
  shows "\<exists>ls'. insert_loop n1 n2 lk (l # ls) = Inr ls' \<and> inserted lk (l # ls) ls'"
proof -
  note own = assms(3) and type = assms(4)
  consider (below) "lk_end l < lk_start lk" | (behind) "\<not> lk_end l < lk_start lk" "lk_end lk < lk_start l"
    | (swallow) "\<not> lk_end l < lk_start lk" "\<not> lk_end lk < lk_start l" "lk_start lk \<le> lk_start l \<and> lk_end l \<le> lk_end lk"
    | (cut) "\<not> lk_end l < lk_start lk" "\<not> lk_end lk < lk_start l" "\<not> (lk_start lk \<le> lk_start l \<and> lk_end l \<le> lk_end lk)"
    by blast
  then show ?thesis
  proof cases
    case below
    then show ?thesis
      using skip_lock_inserted [OF skip assms(1)] own type by (simp add: before_def)
  next
    case behind
    then show ?thesis
      using put_lock_inserted [OF assms(1,2) put_before [OF assms(1) own] assms(5)] own type by simp
  next
    case swallow
    have "\<exists>ls'. insert_loop n1 n2 lk ls = Inr ls' \<and> inserted lk (l # ls) ls'"
      using swallow by (intro drop_lock_inserted [OF skip own, where a = "lk_start lk" and b = "lk_end lk"]) simp_all
    with swallow own type show ?thesis
      by simp
  next
    case cut
    show ?thesis
    proof (rule insert_other_type [OF assms(1,2) own type cut assms(5,6) skip split])
      assume "lk_end lk < lk_end l"
      then show "wf_locks (l\<lparr>lk_start := lk_end lk + 1\<rparr> # ls)" "no_split lk (l\<lparr>lk_start := lk_end lk + 1\<rparr> # ls)"
        using assms(1,2,3) by (auto simp: wf_locks_Cons before_def range_ok_def no_split_def)
    qed
  qed
qed

lemma insert_loop_inserted:
  assumes "wf_locks ls" "range_ok lk" "lk_type lk \<noteq> F_UNLCK \<longrightarrow> n1" "\<not> n2 \<longrightarrow> no_split lk ls"
  shows "\<exists>ls'. insert_loop n1 n2 lk ls = Inr ls' \<and> inserted lk ls ls'"
  using assms
proof (induction "length ls + (if n2 then 1 else 0)" arbitrary: n2 lk ls rule: less_induct)
  case less
  show ?case
  proof (cases ls)
    case Nil
    then show ?thesis
      using put_lock_inserted [OF less.prems(1,2) _ less.prems(3)] by simp
  next
    case (Cons l rest)
    note wf = less.prems(1) [unfolded Cons] and ns = less.prems(4) [unfolded Cons]
    have IH: "\<exists>ls'. insert_loop n1 n2 lk' rest = Inr ls' \<and> inserted lk' rest ls'"
      if "range_ok lk'" "lk_type lk' = lk_type lk" "\<not> n2 \<longrightarrow> no_split lk' rest" for lk'
      using less.hyps [of rest n2 lk'] less.prems(3) wf that by (simp add: Cons wf_locks_Cons)
    have skip: "\<exists>ls'. insert_loop n1 n2 lk rest = Inr ls' \<and> inserted lk rest ls'"
      using ns by (intro IH less.prems(2) refl) (auto simp: no_split_def)
    have split: "\<exists>ls'. insert_loop n1 False lk (l' # rest) = Inr ls' \<and> inserted lk (l' # rest) ls'"
      if "n2" "wf_locks (l' # rest)" "no_split lk (l' # rest)" for l'
      using less.hyps [of "l' # rest" False lk] that less.prems(2,3) by (simp add: Cons del: insert_loop.simps)
    show ?thesis
    proof (cases "lk_owner l = lk_owner lk")
      case False
      then show ?thesis
        using skip_lock_inserted [OF skip wf] by (simp add: Cons before_def)
    next
      case own: True
      show ?thesis
        unfolding Cons
        by (cases "lk_type lk = lk_type l")
          (rule insert_own_same [OF wf less.prems(2) own _ less.prems(3) ns IH]
             insert_own_other [OF wf less.prems(2) own _ less.prems(3) ns skip split]; assumption)+
    qed
  qed
qed

section \<open>Conflicts\<close>

lemma lock_at_member: "wf_locks ls \<Longrightarrow> l \<in> set ls \<Longrightarrow> covers l ow x \<Longrightarrow> lock_at ls ow x = Some (lk_type l)"
proof (induction ls)
  case (Cons k ls)
  show ?case
  proof (cases "l = k")
    case False
    then have "before k l" "l \<in> set ls" "range_ok l"
      using Cons.prems by (auto simp: wf_locks_def)
    then have "\<not> covers k ow x"
      using Cons.prems(3) by (auto simp: before_def covers_def)
    with Cons \<open>l \<in> set ls\<close> show ?thesis
      by (simp add: wf_locks_Cons)
  qed (use Cons.prems(3) in simp)
qed simp

lemma lock_at_some: "lock_at ls ow x = Some t \<Longrightarrow> \<exists>l\<in>set ls. covers l ow x \<and> lk_type l = t"
  by (induction ls) (auto split: if_splits)

section \<open>Properties\<close>

text \<open>C35: inserting a lock into the sorted list of a node sets the lock of exactly the bytes of its range, for
  its owner, to its type (or to none when it unlocks), leaves all other bytes and owners alone, and keeps
  the list sorted, disjoint and joined. It fails, and then changes nothing, only when memory runs out.\<close>

theorem locks_insert_sets:
  assumes "wf_locks ls" "range_ok lk"
  shows "\<exists>m'. (\<exists>ls'. locks_insert m ls lk = Inr (0, m', ls') \<and> wf_locks ls' \<and>
                  (\<forall>ow x. lock_at ls' ow x =
                     (if covers lk ow x then (if lk_type lk = F_UNLCK then None else Some (lk_type lk)) else lock_at ls ow x))) \<or>
              locks_insert m ls lk = Inr (- ENOLCK, m', ls) \<and> (\<exists>t. oom m t)"
proof -
  define need where "need \<longleftrightarrow> lk_type lk \<noteq> F_UNLCK \<or> lk_start lk \<noteq> 0 \<or> lk_end lk \<noteq> OFFSET_MAX"
  let ?m1 = "snd (alloc m)" and ?ok1 = "need \<and> fst (alloc m)" and ?ok2 = "need \<and> fst (alloc (snd (alloc m)))"
  show ?thesis
  proof (cases "need \<and> \<not> (?ok1 \<and> ?ok2)")
    case True
    then have "locks_insert m ls lk = Inr (- ENOLCK, snd (alloc ?m1), ls)" "\<exists>t. oom m t"
      by (auto simp: locks_insert_def Let_def split_beta need_def alloc_def)
    then show ?thesis
      by blast
  next
    case False
    have "no_split lk ls" if "\<not> need"
      using that assms(1) by (auto simp: need_def no_split_def wf_locks_def range_ok_def)
    then have "\<exists>ls'. insert_loop ?ok1 ?ok2 lk ls = Inr ls' \<and> inserted lk ls ls'"
      using False by (intro insert_loop_inserted [OF assms]) (auto simp: need_def)
    then obtain ls' where ls': "insert_loop ?ok1 ?ok2 lk ls = Inr ls'" "inserted lk ls ls'"
      by blast
    have "\<exists>m'. locks_insert m ls lk = Inr (0, m', ls')"
      using False ls'(1) unfolding locks_insert_def need_def [symmetric]
      by (cases need) (auto simp: Let_def split_beta)
    then show ?thesis
      using insertedD(1,2) [OF ls'(2)] unfolding set_lock_def by blast
  qed
qed

definition ex_locks :: "lock list" where
  "ex_locks = [\<lparr>lk_type = F_WRLCK, lk_start = 0, lk_end = 99, lk_pid = 1, lk_owner = 7\<rparr>]"

theorem locks_insert_sets_witness:
  "\<exists>m' ls'. locks_insert \<lparr>oom = (\<lambda>_. False), ticks = 0\<rparr> ex_locks
      \<lparr>lk_type = F_UNLCK, lk_start = 10, lk_end = 19, lk_pid = 1, lk_owner = 7\<rparr> = Inr (0, m', ls') \<and> wf_locks ls' \<and>
     lock_at ls' 7 9 = Some F_WRLCK \<and> lock_at ls' 7 15 = None \<and> lock_at ls' 7 20 = Some F_WRLCK"
proof -
  let ?lk = "\<lparr>lk_type = F_UNLCK, lk_start = 10, lk_end = 19, lk_pid = 1, lk_owner = 7\<rparr>"
  have "wf_locks ex_locks" "range_ok ?lk"
    by (simp_all add: ex_locks_def wf_locks_def range_ok_def lock_consts)
  from locks_insert_sets [OF this, of "\<lparr>oom = (\<lambda>_. False), ticks = 0\<rparr>"] obtain m' ls' where
    "locks_insert \<lparr>oom = (\<lambda>_. False), ticks = 0\<rparr> ex_locks ?lk = Inr (0, m', ls')" "wf_locks ls'"
    "\<forall>ow x. lock_at ls' ow x = (if covers ?lk ow x then None else lock_at ex_locks ow x)"
    by auto
  then show ?thesis
    by (intro exI [of _ m'] exI [of _ ls']) (simp add: covers_def ex_locks_def lock_consts)
qed

text \<open>C36: \<open>locks_conflict\<close> finds a lock exactly when a byte of the range is locked by another owner, for
  writing or against a write, and it returns such a lock.\<close>

theorem locks_conflict_iff:
  assumes "wf_locks ls" "range_ok lk"
  shows "locks_conflict ls lk \<noteq> None \<longleftrightarrow>
           (\<exists>ow x t. ow \<noteq> lk_owner lk \<and> lk_start lk \<le> x \<and> x \<le> lk_end lk \<and> lock_at ls ow x = Some t \<and>
              (t = F_WRLCK \<or> lk_type lk = F_WRLCK))"
proof
  assume "locks_conflict ls lk \<noteq> None"
  then obtain l where l: "l \<in> set ls" "conflicts lk l"
    by (auto simp: locks_conflict_def find_None_iff)
  let ?x = "max (lk_start lk) (lk_start l)"
  have "covers l (lk_owner l) ?x" "lk_start lk \<le> ?x" "?x \<le> lk_end lk"
    using l assms by (auto simp: wf_locks_def range_ok_def conflicts_def covers_def)
  then show "\<exists>ow x t. ow \<noteq> lk_owner lk \<and> lk_start lk \<le> x \<and> x \<le> lk_end lk \<and> lock_at ls ow x = Some t \<and>
      (t = F_WRLCK \<or> lk_type lk = F_WRLCK)"
    using l(2) lock_at_member [OF assms(1) l(1)] unfolding conflicts_def by blast
next
  assume "\<exists>ow x t. ow \<noteq> lk_owner lk \<and> lk_start lk \<le> x \<and> x \<le> lk_end lk \<and> lock_at ls ow x = Some t \<and>
      (t = F_WRLCK \<or> lk_type lk = F_WRLCK)"
  then obtain l ow x where "l \<in> set ls" "covers l ow x" "ow \<noteq> lk_owner lk" "lk_start lk \<le> x" "x \<le> lk_end lk"
      "lk_type l = F_WRLCK \<or> lk_type lk = F_WRLCK"
    using lock_at_some by blast
  then have "l \<in> set ls" "conflicts lk l"
    by (auto simp: conflicts_def covers_def)
  then show "locks_conflict ls lk \<noteq> None"
    by (auto simp: locks_conflict_def find_None_iff)
qed

theorem locks_conflict_iff_witness:
  "locks_conflict ex_locks \<lparr>lk_type = F_RDLCK, lk_start = 99, lk_end = 120, lk_pid = 2, lk_owner = 8\<rparr> \<noteq> None"
proof -
  let ?lk = "\<lparr>lk_type = F_RDLCK, lk_start = 99, lk_end = 120, lk_pid = 2, lk_owner = 8\<rparr>"
  have "wf_locks ex_locks" "range_ok ?lk"
    by (simp_all add: ex_locks_def wf_locks_def range_ok_def lock_consts)
  moreover have "lock_at ex_locks 7 99 = Some F_WRLCK"
    by (simp add: ex_locks_def covers_def)
  ultimately show ?thesis
    using locks_conflict_iff [of ex_locks ?lk] by force
qed

text \<open>The kernel's description of a lock survives the conversion.\<close>

lemma flock_round_trip:
  assumes "0 \<le> fl_start fl" "0 \<le> fl_len fl" "fl_start fl + fl_len fl \<le> OFFSET_MAX"
  shows "\<exists>lk. flock_to_lock fl = Inr lk \<and> lock_to_flock lk = fl \<and> (fl_start fl \<le> OFFSET_MAX \<longrightarrow> range_ok lk)"
  using assms
  by (auto simp: flock_to_lock_def lock_to_flock_def in_long_def LONG_MIN_def LONG_MAX_def OFFSET_MAX_def range_ok_def)

end
