(* ===== verification/Fuse_Nodes.thy ===== *)
theory Fuse_Nodes
  imports Fuse_Locks
begin

text \<open>
  The node tables of libfuse, \<open>other_fs/fuse-2.7.3/lib/fuse.c\<close>: the kernel names files by inode number,
  and libfuse keeps a node for each of them, found by its number and by its parent and name, from which it
  builds the path that a file system such as \<open>catalogfs\<close> is called with. A node is an object of a heap,
  and the chain of a hash bucket is the list of its addresses. The mutex around every function is not
  modelled: the functions are the atomic steps it makes of them.
\<close>

section \<open>Data\<close>

text \<open>
  \<open>struct node\<close>. The links of the two chains are the tables below. The attribute cache keeps times in
  nanoseconds.
\<close>

record node =
  nd_id :: nat
  nd_generation :: nat
  nd_refctr :: int
  nd_parent :: "nat option"
  nd_name :: "string option"
  nd_nlookup :: nat
  nd_open_count :: int
  nd_is_hidden :: bool
  nd_stat_updated :: int
  nd_mtime :: int
  nd_size :: int
  nd_cache_valid :: bool
  nd_locks :: "lock list"

text \<open>
  \<open>struct fuse\<close>: the heap of nodes, the two tables, and the counter of inode numbers. \<open>fu_fresh\<close> is the
  address that the allocator would return, \<open>fu_mem\<close> says whether it has memory at all.
\<close>

record fuse =
  fu_nodes :: "nat \<rightharpoonup> node"
  fu_id_table :: "nat \<Rightarrow> nat list"
  fu_id_table_size :: nat
  fu_name_table :: "nat \<Rightarrow> nat list"
  fu_name_table_size :: nat
  fu_ctr :: nat
  fu_generation :: nat
  fu_hidectr :: nat
  fu_mem :: mem
  fu_fresh :: "(nat \<rightharpoonup> node) \<Rightarrow> nat"

definition FUSE_ROOT_ID :: nat where "FUSE_ROOT_ID = 1"
definition FUSE_UNKNOWN_INO :: nat where "FUSE_UNKNOWN_INO = 0xffffffff"
definition FUSE_MAX_PATH :: nat where "FUSE_MAX_PATH = 4096"
definition EBUSY :: int where "EBUSY = 16"
definition ENOMEM :: int where "ENOMEM = 12"

section \<open>Chains\<close>

text \<open>The first address of a chain whose node satisfies a test; reading a freed node is undefined.\<close>

fun find_chain :: "(nat \<rightharpoonup> node) \<Rightarrow> (node \<Rightarrow> bool res) \<Rightarrow> nat list \<Rightarrow> nat option res" where
  "find_chain h test [] = Inr None"
| "find_chain h test (a # as) =
     (case h a of
        None \<Rightarrow> Inl Undefined
      | Some n \<Rightarrow> bind_res (test n) (\<lambda>b. if b then Inr (Some a) else find_chain h test as))"

text \<open>The node an address points to.\<close>

definition deref :: "fuse \<Rightarrow> nat \<Rightarrow> node res" where
  "deref f a = (case fu_nodes f a of None \<Rightarrow> Inl Undefined | Some n \<Rightarrow> Inr n)"

definition set_node :: "fuse \<Rightarrow> nat \<Rightarrow> node \<Rightarrow> fuse" where
  "set_node f a n = f\<lparr>fu_nodes := (fu_nodes f)(a \<mapsto> n)\<rparr>"

section \<open>Operations\<close>

definition get_node_nocheck :: "fuse \<Rightarrow> nat \<Rightarrow> nat option res" where
  "get_node_nocheck f i =
     find_chain (fu_nodes f) (\<lambda>n. Inr (nd_id n = i)) (fu_id_table f (i mod fu_id_table_size f))"

definition get_node :: "fuse \<Rightarrow> nat \<Rightarrow> nat res" where
  "get_node f i =
     bind_res (get_node_nocheck f i) (\<lambda>r. case r of None \<Rightarrow> Inl aborted | Some a \<Rightarrow> Inr a)"

definition free_node :: "fuse \<Rightarrow> nat \<Rightarrow> fuse" where
  "free_node f a = f\<lparr>fu_nodes := (fu_nodes f)(a := None)\<rparr>"

definition unhash_id :: "fuse \<Rightarrow> nat \<Rightarrow> fuse res" where
  "unhash_id f a =
     bind_res (deref f a) (\<lambda>n.
       let hash = nd_id n mod fu_id_table_size f in
       Inr (f\<lparr>fu_id_table := (fu_id_table f)(hash := remove1 a (fu_id_table f hash))\<rparr>))"

definition hash_id :: "fuse \<Rightarrow> nat \<Rightarrow> fuse res" where
  "hash_id f a =
     bind_res (deref f a) (\<lambda>n.
       let hash = nd_id n mod fu_id_table_size f in
       Inr (f\<lparr>fu_id_table := (fu_id_table f)(hash := a # fu_id_table f hash)\<rparr>))"

text \<open>\<open>name_hash\<close>: 32-bit arithmetic on signed characters, and a 64-bit sum with the parent's number.\<close>

definition char_word :: "char \<Rightarrow> 32 word" where
  "char_word c = word_of_int (if of_char c < (128 :: int) then of_char c else of_char c - 256)"

definition name_hash :: "fuse \<Rightarrow> nat \<Rightarrow> string \<Rightarrow> nat" where
  "name_hash f pid name =
     (let hash = (case name of
                    [] \<Rightarrow> 0
                  | c # cs \<Rightarrow>
                      if char_word c = 0 then 0
                      else fold (\<lambda>c h. push_bit 5 h - h + char_word c) cs (char_word c))
      in (unat hash + pid) mod 2 ^ 64 mod fu_name_table_size f)"

definition delete_node :: "fuse \<Rightarrow> nat \<Rightarrow> fuse res" where
  "delete_node f a =
     bind_res (deref f a) (\<lambda>n.
       if nd_name n \<noteq> None then Inl aborted
       else bind_res (unhash_id f a) (\<lambda>f1. Inr (free_node f1 a)))"

definition unref_node :: "fuse \<Rightarrow> nat \<Rightarrow> fuse res" where
  "unref_node f a =
     bind_res (deref f a) (\<lambda>n.
       if nd_refctr n \<le> 0 then Inl aborted
       else let f1 = set_node f a (n\<lparr>nd_refctr := nd_refctr n - 1\<rparr>) in
         if nd_refctr n - 1 = 0 then delete_node f1 a else Inr f1)"

text \<open>\<open>unhash_name\<close>: the parent loses a reference, and may be freed by that.\<close>

definition unhash_name :: "fuse \<Rightarrow> nat \<Rightarrow> fuse res" where
  "unhash_name f a =
     bind_res (deref f a) (\<lambda>n.
       case nd_name n of
         None \<Rightarrow> Inr f
       | Some name \<Rightarrow>
           (case nd_parent n of
              None \<Rightarrow> Inl Undefined
            | Some p \<Rightarrow>
                bind_res (deref f p) (\<lambda>pn.
                  let hash = name_hash f (nd_id pn) name in
                  if a \<in> set (fu_name_table f hash)
                  then bind_res (unref_node
                         (f\<lparr>fu_name_table := (fu_name_table f)(hash := remove1 a (fu_name_table f hash))\<rparr>) p)
                       (\<lambda>f1. bind_res (deref f1 a) (\<lambda>n1.
                          Inr (set_node f1 a (n1\<lparr>nd_name := None, nd_parent := None\<rparr>))))
                  else Inl aborted)))"

definition hash_name :: "fuse \<Rightarrow> nat \<Rightarrow> nat \<Rightarrow> string \<Rightarrow> (int \<times> fuse) res" where
  "hash_name f a pid name =
     bind_res (get_node f pid) (\<lambda>p.
       let (ok, m) = alloc (fu_mem f); f1 = f\<lparr>fu_mem := m\<rparr> in
       if \<not> ok then Inr (-1, f1)
       else bind_res (deref f1 p) (\<lambda>pn.
         if nd_refctr pn \<ge> INT_MAX then Inl Undefined else
         let f2 = set_node f1 p (pn\<lparr>nd_refctr := nd_refctr pn + 1\<rparr>); hash = name_hash f pid name in
         bind_res (deref f2 a) (\<lambda>n.
           Inr (0, (set_node f2 a (n\<lparr>nd_name := Some name, nd_parent := Some p\<rparr>))
                     \<lparr>fu_name_table := (fu_name_table f2)(hash := a # fu_name_table f2 hash)\<rparr>))))"

text \<open>The loop of \<open>next_id\<close>, for at most \<open>k\<close> rounds: \<open>None\<close> when that is not enough.\<close>

fun next_id :: "nat \<Rightarrow> fuse \<Rightarrow> (nat \<times> fuse) res option" where
  "next_id 0 f = None"
| "next_id (Suc k) f =
     (let c = (fu_ctr f + 1) mod 2 ^ 32;
          f1 = f\<lparr>fu_ctr := c, fu_generation := (if c = 0 then (fu_generation f + 1) mod 2 ^ 32 else fu_generation f)\<rparr> in
      if c = 0 \<or> c = FUSE_UNKNOWN_INO then next_id k f1
      else case get_node_nocheck f1 c of
             Inl e \<Rightarrow> Some (Inl e)
           | Inr None \<Rightarrow> Some (Inr (c, f1))
           | Inr (Some _) \<Rightarrow> next_id k f1)"

definition lookup_node :: "fuse \<Rightarrow> nat \<Rightarrow> string \<Rightarrow> nat option res" where
  "lookup_node f pid name =
     find_chain (fu_nodes f)
       (\<lambda>n. case nd_parent n of
              None \<Rightarrow> Inl Undefined
            | Some p \<Rightarrow>
                bind_res (deref f p) (\<lambda>pn.
                  if nd_id pn = pid
                  then (case nd_name n of None \<Rightarrow> Inl Undefined | Some s \<Rightarrow> Inr (strcmp s name = 0))
                  else Inr False))
       (fu_name_table f (name_hash f pid name))"

text \<open>\<open>find_node\<close>: the node of a name, created when there is none. \<open>None\<close> is \<open>NULL\<close>.\<close>

definition new_node :: "nat \<Rightarrow> nat \<Rightarrow> node" where
  "new_node i gen =
     \<lparr>nd_id = i, nd_generation = gen, nd_refctr = 1, nd_parent = None, nd_name = None, nd_nlookup = 0,
      nd_open_count = 0, nd_is_hidden = False, nd_stat_updated = 0, nd_mtime = 0, nd_size = 0,
      nd_cache_valid = False, nd_locks = []\<rparr>"

definition count_lookup :: "fuse \<Rightarrow> nat \<Rightarrow> (nat option \<times> fuse) res" where
  "count_lookup f a =
     bind_res (deref f a) (\<lambda>n. Inr (Some a, set_node f a (n\<lparr>nd_nlookup := (nd_nlookup n + 1) mod 2 ^ 64\<rparr>)))"

definition find_node :: "nat \<Rightarrow> fuse \<Rightarrow> nat \<Rightarrow> string \<Rightarrow> (nat option \<times> fuse) res option" where
  "find_node k f pid name =
     (case lookup_node f pid name of
        Inl e \<Rightarrow> Some (Inl e)
      | Inr (Some a) \<Rightarrow> Some (count_lookup f a)
      | Inr None \<Rightarrow>
          let (ok, m) = alloc (fu_mem f); f1 = f\<lparr>fu_mem := m\<rparr> in
          if \<not> ok then Some (Inr (None, f1))
          else case next_id k f1 of
            None \<Rightarrow> None
          | Some r \<Rightarrow> Some (bind_res r (\<lambda>(i, f2).
              let a = fu_fresh f2 (fu_nodes f2); f3 = set_node f2 a (new_node i (fu_generation f2)) in
              bind_res (hash_name f3 a pid name) (\<lambda>(x, f4).
                if x = -1 then Inr (None, free_node f4 a)
                else bind_res (hash_id f4 a) (\<lambda>f5. count_lookup f5 a)))))"

text \<open>
  \<open>add_name\<close>: the name and a slash are put in front of the path. \<open>pos\<close> is the distance of the path from the
  start of the buffer.
\<close>

definition add_name :: "nat \<times> string \<Rightarrow> string \<Rightarrow> (nat \<times> string) option" where
  "add_name = (\<lambda>(pos, s) name.
     if pos \<le> length name then None else Some (pos - length name - 1, slash # name @ s))"

text \<open>The loop of \<open>get_path_name\<close> from a node to the root: \<open>None\<close> for \<open>NULL\<close>.\<close>

function path_up :: "fuse \<Rightarrow> nat option \<Rightarrow> nat \<times> string \<Rightarrow> string option res" where
  "path_up f None ps = Inr None"
| "path_up f (Some a) ps =
     (case fu_nodes f a of
        None \<Rightarrow> Inl Undefined
      | Some n \<Rightarrow>
          if nd_id n = FUSE_ROOT_ID then Inr (Some (snd ps))
          else case nd_name n of
            None \<Rightarrow> Inr None
          | Some name \<Rightarrow>
              (case add_name ps name of None \<Rightarrow> Inr None | Some ps' \<Rightarrow> path_up f (nd_parent n) ps'))"
  by pat_completeness auto
termination
  by (relation "measure (\<lambda>(f, a, ps). Suc (fst ps))") (auto simp: add_name_def split: prod.splits if_splits)

definition get_path_name :: "fuse \<Rightarrow> nat \<Rightarrow> string option \<Rightarrow> (string option \<times> fuse) res" where
  "get_path_name f i name =
     (case (case name of None \<Rightarrow> Some (FUSE_MAX_PATH - 1, []) | Some s \<Rightarrow> add_name (FUSE_MAX_PATH - 1, []) s) of
        None \<Rightarrow> Inr (None, f)
      | Some ps \<Rightarrow>
          bind_res (get_node f i) (\<lambda>a.
          bind_res (path_up f (Some a) ps) (\<lambda>r.
            case r of
              None \<Rightarrow> Inr (None, f)
            | Some s \<Rightarrow>
                let (ok, m) = alloc (fu_mem f) in
                Inr (if ok then Some (if s = [] then ''/'' else s) else None, f\<lparr>fu_mem := m\<rparr>))))"

definition get_path :: "fuse \<Rightarrow> nat \<Rightarrow> (string option \<times> fuse) res" where
  "get_path f i = get_path_name f i None"

definition forget_node :: "fuse \<Rightarrow> nat \<Rightarrow> nat \<Rightarrow> fuse res" where
  "forget_node f i n =
     (if i = FUSE_ROOT_ID then Inr f
      else bind_res (get_node f i) (\<lambda>a.
        bind_res (deref f a) (\<lambda>nd.
          if nd_nlookup nd < n then Inl aborted
          else let f1 = set_node f a (nd\<lparr>nd_nlookup := nd_nlookup nd - n\<rparr>) in
            if nd_nlookup nd - n = 0
            then bind_res (unhash_name f1 a) (\<lambda>f2. unref_node f2 a)
            else Inr f1)))"

definition remove_node :: "fuse \<Rightarrow> nat \<Rightarrow> string \<Rightarrow> fuse res" where
  "remove_node f dir name =
     bind_res (lookup_node f dir name) (\<lambda>r. case r of None \<Rightarrow> Inr f | Some a \<Rightarrow> unhash_name f a)"

definition rename_node :: "fuse \<Rightarrow> nat \<Rightarrow> string \<Rightarrow> nat \<Rightarrow> string \<Rightarrow> bool \<Rightarrow> (int \<times> fuse) res" where
  "rename_node f olddir oldname newdir newname hide =
     bind_res (lookup_node f olddir oldname) (\<lambda>r.
     bind_res (lookup_node f newdir newname) (\<lambda>r'.
       case r of
         None \<Rightarrow> Inr (0, f)
       | Some a \<Rightarrow>
           if r' \<noteq> None \<and> hide then Inr (- EBUSY, f)
           else bind_res (case r' of None \<Rightarrow> Inr f | Some b \<Rightarrow> unhash_name f b) (\<lambda>f1.
             bind_res (unhash_name f1 a) (\<lambda>f2.
             bind_res (hash_name f2 a newdir newname) (\<lambda>(x, f3).
               if x = -1 then Inr (- ENOMEM, f3)
               else if hide
               then bind_res (deref f3 a) (\<lambda>n. Inr (0, set_node f3 a (n\<lparr>nd_is_hidden := True\<rparr>)))
               else Inr (0, f3))))))"

text \<open>The node table that \<open>fuse_new\<close> sets up: the root, found by its number only.\<close>

definition fuse_new_nodes :: "mem \<Rightarrow> ((nat \<rightharpoonup> node) \<Rightarrow> nat) \<Rightarrow> nat \<Rightarrow> fuse" where
  "fuse_new_nodes m fresh root =
     \<lparr>fu_nodes = [root \<mapsto> (new_node FUSE_ROOT_ID 0)\<lparr>nd_name := Some ''/'', nd_nlookup := 1\<rparr>],
      fu_id_table = (\<lambda>_. [])(FUSE_ROOT_ID mod 14057 := [root]), fu_id_table_size = 14057,
      fu_name_table = (\<lambda>_. []), fu_name_table_size = 14057, fu_ctr = 0, fu_generation = 0, fu_hidectr = 0,
      fu_mem = m, fu_fresh = fresh\<rparr>"

end
