(* ===== verification/Fuse_Node_Laws.thy ===== *)
theory Fuse_Node_Laws
  imports Fuse_Nodes
begin

text \<open>
  The invariant of the node tables: both tables hold exactly the nodes they should, in distinct chains,
  numbers and names are unique, and the reference counter of a node counts its children and the
  references held from outside. The lemmas show that each primitive of \<open>fuse.c\<close> keeps it, frees no node
  that is still referenced, and never reaches an \<open>assert\<close> or \<open>abort\<close>.
\<close>

section \<open>The fields of all nodes\<close>

definition idm :: "fuse \<Rightarrow> nat \<rightharpoonup> nat" where
  "idm f = (\<lambda>a. map_option nd_id (fu_nodes f a))"

definition refm :: "fuse \<Rightarrow> nat \<rightharpoonup> int" where
  "refm f = (\<lambda>a. map_option nd_refctr (fu_nodes f a))"

definition parm :: "fuse \<Rightarrow> nat \<rightharpoonup> nat" where
  "parm f = (\<lambda>a. Option.bind (fu_nodes f a) nd_parent)"

definition namem :: "fuse \<Rightarrow> nat \<rightharpoonup> string" where
  "namem f = (\<lambda>a. Option.bind (fu_nodes f a) nd_name)"

lemmas field_defs = idm_def refm_def parm_def namem_def

named_theorems node_simps \<open>fields after an update of the heap or of a table\<close>

lemma fields_set_node [simp, node_simps]:
  "idm (set_node f a n) = (idm f)(a \<mapsto> nd_id n)"
  "refm (set_node f a n) = (refm f)(a \<mapsto> nd_refctr n)"
  "parm (set_node f a n) = (parm f)(a := nd_parent n)"
  "namem (set_node f a n) = (namem f)(a := nd_name n)"
  by (auto simp: field_defs set_node_def)

lemma fields_free_node [simp, node_simps]:
  "idm (free_node f a) = (idm f)(a := None)"
  "refm (free_node f a) = (refm f)(a := None)"
  "parm (free_node f a) = (parm f)(a := None)"
  "namem (free_node f a) = (namem f)(a := None)"
  by (auto simp: field_defs free_node_def)

lemma fields_tables [simp, node_simps]:
  "idm (f\<lparr>fu_id_table := t\<rparr>) = idm f" "idm (f\<lparr>fu_name_table := t\<rparr>) = idm f" "idm (f\<lparr>fu_mem := m\<rparr>) = idm f"
  "refm (f\<lparr>fu_id_table := t\<rparr>) = refm f" "refm (f\<lparr>fu_name_table := t\<rparr>) = refm f" "refm (f\<lparr>fu_mem := m\<rparr>) = refm f"
  "parm (f\<lparr>fu_id_table := t\<rparr>) = parm f" "parm (f\<lparr>fu_name_table := t\<rparr>) = parm f" "parm (f\<lparr>fu_mem := m\<rparr>) = parm f"
  "namem (f\<lparr>fu_id_table := t\<rparr>) = namem f" "namem (f\<lparr>fu_name_table := t\<rparr>) = namem f"
  "namem (f\<lparr>fu_mem := m\<rparr>) = namem f"
  by (simp_all add: field_defs)

lemma fields_counters [simp, node_simps]:
  "idm (f\<lparr>fu_ctr := c, fu_generation := g\<rparr>) = idm f" "refm (f\<lparr>fu_ctr := c, fu_generation := g\<rparr>) = refm f"
  "parm (f\<lparr>fu_ctr := c, fu_generation := g\<rparr>) = parm f" "namem (f\<lparr>fu_ctr := c, fu_generation := g\<rparr>) = namem f"
  by (simp_all add: field_defs)

lemma tables_set_node [simp, node_simps]:
  "fu_id_table (set_node f a n) = fu_id_table f" "fu_id_table_size (set_node f a n) = fu_id_table_size f"
  "fu_name_table (set_node f a n) = fu_name_table f" "fu_name_table_size (set_node f a n) = fu_name_table_size f"
  "fu_mem (set_node f a n) = fu_mem f" "fu_fresh (set_node f a n) = fu_fresh f"
  by (simp_all add: set_node_def)

lemma tables_free_node [simp, node_simps]:
  "fu_id_table (free_node f a) = fu_id_table f" "fu_id_table_size (free_node f a) = fu_id_table_size f"
  "fu_name_table (free_node f a) = fu_name_table f" "fu_name_table_size (free_node f a) = fu_name_table_size f"
  "fu_mem (free_node f a) = fu_mem f" "fu_fresh (free_node f a) = fu_fresh f"
  by (simp_all add: free_node_def)

lemma name_hash_size:
  "fu_name_table_size g = fu_name_table_size f \<Longrightarrow> name_hash g = name_hash f"
  by (simp add: name_hash_def fun_eq_iff)

lemma name_hash_updates [simp, node_simps]:
  "name_hash (set_node f a n) = name_hash f" "name_hash (free_node f a) = name_hash f"
  "name_hash (f\<lparr>fu_id_table := t\<rparr>) = name_hash f" "name_hash (f\<lparr>fu_name_table := t\<rparr>) = name_hash f"
  "name_hash (f\<lparr>fu_mem := m\<rparr>) = name_hash f"
  by (rule name_hash_size, simp)+

lemma nodes_set_node [simp, node_simps]: "fu_nodes (set_node f a n) = (fu_nodes f)(a \<mapsto> n)"
  by (simp add: set_node_def)

lemma nodes_free_node [simp, node_simps]: "fu_nodes (free_node f a) = (fu_nodes f)(a := None)"
  by (simp add: free_node_def)

lemma dom_fields: "dom (idm f) = dom (fu_nodes f)" "dom (refm f) = dom (fu_nodes f)"
  by (auto simp: field_defs)

lemma fields_at:
  "fu_nodes f a = Some n \<Longrightarrow>
     idm f a = Some (nd_id n) \<and> refm f a = Some (nd_refctr n) \<and> parm f a = nd_parent n \<and> namem f a = nd_name n"
  by (simp add: field_defs)

lemma idm_nodeE:
  assumes "idm f a = Some i"
  obtains n where "fu_nodes f a = Some n" "nd_id n = i" "refm f a = Some (nd_refctr n)" "parm f a = nd_parent n"
    "namem f a = nd_name n"
  using assms by (auto simp: field_defs)

section \<open>The invariant\<close>

definition ids_ok :: "fuse \<Rightarrow> bool" where
  "ids_ok f \<longleftrightarrow>
     (\<forall>k. distinct (fu_id_table f k) \<and>
          set (fu_id_table f k) = {a. \<exists>i. idm f a = Some i \<and> i mod fu_id_table_size f = k}) \<and>
     (\<forall>a b i. idm f a = Some i \<and> idm f b = Some i \<longrightarrow> a = b)"

definition chain_ok :: "fuse \<Rightarrow> nat \<Rightarrow> bool" where
  "chain_ok f k \<longleftrightarrow>
     distinct (fu_name_table f k) \<and>
     set (fu_name_table f k) =
       {a. \<exists>p i s. parm f a = Some p \<and> idm f p = Some i \<and> namem f a = Some s \<and> name_hash f i s = k}"

definition names_ok :: "fuse \<Rightarrow> bool" where
  "names_ok f \<longleftrightarrow>
     (\<forall>k. chain_ok f k) \<and>
     (\<forall>a p. parm f a = Some p \<longrightarrow>
        (\<exists>i. idm f p = Some i) \<and> (\<exists>s. namem f a = Some s \<and> NUL \<notin> set s) \<and> idm f a \<noteq> Some FUSE_ROOT_ID) \<and>
     (\<forall>a s. namem f a = Some s \<longrightarrow> parm f a \<noteq> None \<or> idm f a = Some FUSE_ROOT_ID) \<and>
     (\<forall>a b p. parm f a = Some p \<and> parm f b = Some p \<and> namem f a = namem f b \<longrightarrow> a = b)"

text \<open>\<open>R a\<close> is the number of references to a node that are not held by its children.\<close>

definition refs_ok :: "fuse \<Rightarrow> (nat \<Rightarrow> nat) \<Rightarrow> bool" where
  "refs_ok f R \<longleftrightarrow>
     finite (dom (idm f)) \<and>
     (\<forall>a r. refm f a = Some r \<longrightarrow> r = int (R a + card {b. parm f b = Some a}) \<and> 0 < r) \<and>
     (\<forall>a s. namem f a = Some s \<longrightarrow> 0 < R a) \<and>
     (\<exists>a s. idm f a = Some FUSE_ROOT_ID \<and> namem f a = Some s)"

definition tables_ok :: "fuse \<Rightarrow> (nat \<Rightarrow> nat) \<Rightarrow> bool" where
  "tables_ok f R \<longleftrightarrow> ids_ok f \<and> names_ok f \<and> refs_ok f R"

lemma tables_okD:
  assumes "tables_ok f R"
  shows "ids_ok f" "names_ok f" "refs_ok f R"
  using assms by (auto simp: tables_ok_def)

text \<open>The invariant looks at these fields and tables only.\<close>

lemma tables_ok_cong:
  assumes "idm g = idm f" "refm g = refm f" "parm g = parm f" "namem g = namem f"
    and "fu_id_table g = fu_id_table f" "fu_id_table_size g = fu_id_table_size f"
    and "fu_name_table g = fu_name_table f" "fu_name_table_size g = fu_name_table_size f"
  shows "tables_ok g = tables_ok f"
  by (rule ext)
    (simp only: tables_ok_def ids_ok_def names_ok_def chain_ok_def refs_ok_def assms name_hash_size [OF assms(8)])

lemma in_dom_fields:
  "refm f a = Some r \<Longrightarrow> a \<in> dom (idm f)" "parm f a = Some p \<Longrightarrow> a \<in> dom (idm f)" "namem f a = Some s \<Longrightarrow> a \<in> dom (idm f)"
  by (auto simp: field_defs bind_eq_Some_conv)

lemma tables_ok_refs:
  assumes "tables_ok f R" "\<And>a. a \<in> dom (idm f) \<Longrightarrow> R' a = R a"
  shows "tables_ok f R'"
proof -
  have "refs_ok f R'"
    using tables_okD(3) [OF assms(1)] assms(2) in_dom_fields [of f] unfolding refs_ok_def by simp
  with tables_okD [OF assms(1)] show ?thesis
    by (simp add: tables_ok_def)
qed

lemma finite_nodes: "tables_ok f R \<Longrightarrow> finite (dom (fu_nodes f))"
  by (simp add: tables_ok_def refs_ok_def dom_fields)

lemma finite_children: "tables_ok f R \<Longrightarrow> finite {b. parm f b = Some a}"
  by (rule finite_subset [OF _ finite_nodes]) (auto simp: parm_def bind_eq_Some_conv)

lemma idm_inj: "tables_ok f R \<Longrightarrow> idm f a = Some i \<Longrightarrow> idm f b = Some i \<Longrightarrow> a = b"
  by (simp add: tables_ok_def ids_ok_def)

lemma named_child:
  assumes "tables_ok f R" "parm f a = Some p"
  obtains i s where "idm f p = Some i" "namem f a = Some s" "NUL \<notin> set s" "idm f a \<noteq> Some FUSE_ROOT_ID"
  using assms unfolding tables_ok_def names_ok_def by blast

lemma id_table_set:
  "tables_ok f R \<Longrightarrow> set (fu_id_table f k) = {a. \<exists>i. idm f a = Some i \<and> i mod fu_id_table_size f = k}"
  by (simp only: tables_ok_def ids_ok_def)

lemma name_table_set:
  "tables_ok f R \<Longrightarrow> set (fu_name_table f k) =
     {a. \<exists>p i s. parm f a = Some p \<and> idm f p = Some i \<and> namem f a = Some s \<and> name_hash f i s = k}"
  by (simp only: tables_ok_def names_ok_def chain_ok_def)

lemma siblings_distinct:
  "tables_ok f R \<Longrightarrow> parm f a = Some p \<Longrightarrow> parm f b = Some p \<Longrightarrow> namem f a = namem f b \<Longrightarrow> a = b"
  unfolding tables_ok_def names_ok_def by blast

section \<open>Searching a chain\<close>

lemma find_chain_find:
  assumes "\<forall>a\<in>set as. \<exists>n. h a = Some n \<and> test n = Inr (P a)"
  shows "find_chain h test as = Inr (find P as)"
  using assms by (induction as) auto

lemma find_unique:
  assumes "a \<in> set as" "P a" "\<And>b. P b \<Longrightarrow> b = a"
  shows "find P as = Some a"
proof (cases "find P as")
  case None
  then show ?thesis
    using assms(1,2) by (simp add: find_None_iff)
next
  case (Some b)
  then have "P b"
    by (metis find_Some_iff)
  with Some show ?thesis
    using assms(3) by blast
qed

lemma get_node_nocheck_find:
  assumes "tables_ok f R"
  shows "get_node_nocheck f i = Inr (find (\<lambda>a. idm f a = Some i) (fu_id_table f (i mod fu_id_table_size f)))"
proof -
  have "\<exists>n. fu_nodes f a = Some n \<and> (Inr (nd_id n = i) :: bool res) = Inr (idm f a = Some i)"
    if a: "a \<in> set (fu_id_table f (i mod fu_id_table_size f))" for a
  proof -
    obtain j where "idm f a = Some j"
      using a by (auto simp: id_table_set [OF assms])
    then show ?thesis
      by (auto elim: idm_nodeE)
  qed
  then show ?thesis
    unfolding get_node_nocheck_def by (intro find_chain_find) blast
qed

lemma get_node_nocheck_found:
  assumes "tables_ok f R" "idm f a = Some i"
  shows "get_node_nocheck f i = Inr (Some a)"
proof -
  have "a \<in> set (fu_id_table f (i mod fu_id_table_size f))"
    using assms(2) by (simp add: id_table_set [OF assms(1)])
  then have "find (\<lambda>a. idm f a = Some i) (fu_id_table f (i mod fu_id_table_size f)) = Some a"
    using assms(2) idm_inj [OF assms(1) _ assms(2)] by (rule find_unique)
  then show ?thesis
    by (simp add: get_node_nocheck_find [OF assms(1)])
qed

lemma get_node_nocheck_missing:
  assumes "tables_ok f R" "i \<notin> ran (idm f)"
  shows "get_node_nocheck f i = Inr None"
  using assms(2) by (simp add: get_node_nocheck_find [OF assms(1)] find_None_iff ran_def)

lemma get_node_found: "tables_ok f R \<Longrightarrow> idm f a = Some i \<Longrightarrow> get_node f i = Inr a"
  by (simp add: get_node_def get_node_nocheck_found)

text \<open>The entry of a directory: the name, and the numbers of the directory and of the node.\<close>

definition entry :: "fuse \<Rightarrow> nat \<Rightarrow> string \<Rightarrow> nat \<Rightarrow> bool" where
  "entry f i s j \<longleftrightarrow> (\<exists>a p. parm f a = Some p \<and> namem f a = Some s \<and> idm f p = Some i \<and> idm f a = Some j)"

lemma lookup_node_find:
  assumes "tables_ok f R" "NUL \<notin> set s"
  shows "lookup_node f i s =
           Inr (find (\<lambda>a. \<exists>p. parm f a = Some p \<and> idm f p = Some i \<and> namem f a = Some s)
                  (fu_name_table f (name_hash f i s)))"
proof -
  let ?test = "\<lambda>n. case nd_parent n of None \<Rightarrow> Inl Undefined
     | Some p \<Rightarrow> bind_res (deref f p) (\<lambda>pn. if nd_id pn = i
         then (case nd_name n of None \<Rightarrow> Inl Undefined | Some s' \<Rightarrow> Inr (strcmp s' s = 0)) else Inr False)"
  have "\<exists>n. fu_nodes f a = Some n \<and>
      ?test n = Inr (\<exists>p. parm f a = Some p \<and> idm f p = Some i \<and> namem f a = Some s)"
    if a: "a \<in> set (fu_name_table f (name_hash f i s))" for a
  proof -
    obtain p where p: "parm f a = Some p"
      using a by (auto simp: name_table_set [OF assms(1)])
    obtain j s' where js: "idm f p = Some j" "namem f a = Some s'" "NUL \<notin> set s'"
      by (rule named_child [OF assms(1) p])
    obtain pn where pn: "fu_nodes f p = Some pn" "nd_id pn = j"
      using js(1) by (auto elim: idm_nodeE)
    obtain n where n: "fu_nodes f a = Some n" "nd_parent n = Some p" "nd_name n = Some s'"
      using p js(2) by (auto simp: field_defs bind_eq_Some_conv)
    show ?thesis
      using p js pn n by (simp add: deref_def strcmp_eq_0 [OF js(3) assms(2)])
  qed
  then show ?thesis
    unfolding lookup_node_def by (intro find_chain_find) blast
qed

lemma lookup_node_found:
  assumes "tables_ok f R" "parm f a = Some p" "idm f p = Some i" "namem f a = Some s"
  shows "lookup_node f i s = Inr (Some a)"
proof -
  let ?P = "\<lambda>a. \<exists>p. parm f a = Some p \<and> idm f p = Some i \<and> namem f a = Some s"
  have "NUL \<notin> set s"
    by (rule named_child [OF assms(1,2)]) (use assms(4) in simp)
  moreover have "a \<in> set (fu_name_table f (name_hash f i s))"
    unfolding name_table_set [OF assms(1)] using assms(2-4) by blast
  then have "find ?P (fu_name_table f (name_hash f i s)) = Some a"
  proof (rule find_unique)
    show "?P a"
      using assms(2-4) by blast
    show "b = a" if "?P b" for b
      using that assms(2-4) siblings_distinct [OF assms(1)] idm_inj [OF assms(1)] by metis
  qed
  ultimately show ?thesis
    by (simp add: lookup_node_find [OF assms(1)])
qed

lemma lookup_node_missing:
  assumes "tables_ok f R" "NUL \<notin> set s" "\<not> (\<exists>j. entry f i s j)"
  shows "lookup_node f i s = Inr None"
proof -
  have "\<not> (parm f a = Some p \<and> idm f p = Some i \<and> namem f a = Some s)" for a p
    using assms(3) in_dom_fields(2) [of f a] unfolding entry_def by blast
  then show ?thesis
    by (simp add: lookup_node_find [OF assms(1,2)] find_None_iff)
qed

section \<open>Losing a reference\<close>

lemma refctr_count:
  assumes "tables_ok f R" "fu_nodes f a = Some n"
  shows "nd_refctr n = int (R a + card {b. parm f b = Some a})" "0 < nd_refctr n"
  using assms(2) tables_okD(3) [OF assms(1)] by (auto simp: refs_ok_def refm_def)

lemma no_children:
  assumes "tables_ok f R" "fu_nodes f a = Some n" "nd_refctr n = 1" "0 < R a"
  shows "R a = 1" "parm f b \<noteq> Some a"
proof -
  have "R a = 1 \<and> card {b. parm f b = Some a} = 0"
    using refctr_count(1) [OF assms(1,2)] assms(3,4) by linarith
  then show "R a = 1" "parm f b \<noteq> Some a"
    using finite_children [OF assms(1), of a] by auto
qed

lemma unnamed_no_parent: "tables_ok f R \<Longrightarrow> namem f a = None \<Longrightarrow> parm f a = None"
  using named_child by (metis not_None_eq)

lemma ids_ok_delete:
  assumes "tables_ok f R" "idm f a = Some i"
    and "idm g = (idm f)(a := None)" "fu_id_table_size g = fu_id_table_size f"
    and "fu_id_table g = (fu_id_table f)(i mod fu_id_table_size f := remove1 a (fu_id_table f (i mod fu_id_table_size f)))"
  shows "ids_ok g"
  using tables_okD(1) [OF assms(1)] assms(2-5) by (auto simp: ids_ok_def)

lemma names_ok_other:
  assumes "tables_ok f R" "namem f a = None" "\<And>b. parm f b \<noteq> Some a"
    and "\<And>b. b \<noteq> a \<Longrightarrow> idm g b = idm f b" "parm g = parm f" "namem g = namem f"
    and "fu_name_table g = fu_name_table f" "fu_name_table_size g = fu_name_table_size f"
  shows "names_ok g"
proof -
  have eq: "idm g p = idm f p" "idm g b = idm f b" if "parm f b = Some p" for b p
    using that assms(3,4) unnamed_no_parent [OF assms(1,2)] by (metis option.distinct(1))+
  have named: "idm g b = idm f b" if "namem f b = Some s" for b s
    using that assms(2,4) by (metis option.distinct(1))
  have "chain_ok g k" for k
  proof -
    have "chain_ok f k"
      using tables_okD(2) [OF assms(1)] by (simp add: names_ok_def)
    moreover have "{b. \<exists>p i s. parm f b = Some p \<and> idm g p = Some i \<and> namem f b = Some s \<and> name_hash f i s = k}
      = {b. \<exists>p i s. parm f b = Some p \<and> idm f p = Some i \<and> namem f b = Some s \<and> name_hash f i s = k}"
      using eq by metis
    ultimately show ?thesis
      by (simp only: chain_ok_def assms(5-7) name_hash_size [OF assms(8)])
  qed
  moreover have "(\<exists>i. idm g p = Some i) \<and> (\<exists>s. namem f b = Some s \<and> NUL \<notin> set s) \<and> idm g b \<noteq> Some FUSE_ROOT_ID"
    if "parm f b = Some p" for b p
    using named_child [OF assms(1) that] eq [OF that] by metis
  moreover have "parm f b \<noteq> None \<or> idm g b = Some FUSE_ROOT_ID" if "namem f b = Some s" for b s
    using that tables_okD(2) [OF assms(1)] named unfolding names_ok_def by metis
  ultimately show ?thesis
    using siblings_distinct [OF assms(1)] unfolding names_ok_def assms(5,6) by blast
qed

lemma refs_ok_delete:
  assumes "tables_ok f R" "namem f a = None" "idm g = (idm f)(a := None)" "refm g = (refm f)(a := None)"
    and "parm g = parm f" "namem g = namem f"
  shows "refs_ok g (R(a := k))"
proof -
  note ok = tables_okD(3) [OF assms(1), unfolded refs_ok_def]
  have "finite (dom ((idm f)(a := None)))"
    using ok by simp
  moreover obtain b s where "idm f b = Some FUSE_ROOT_ID" "namem f b = Some s"
    using ok by blast
  moreover from this have "b \<noteq> a"
    using assms(2) by auto
  moreover have "0 < (R(a := k)) c" if "namem f c = Some s" for c s
    using that ok assms(2) by auto
  moreover have "r = int ((R(a := k)) c + card {b. parm f b = Some c}) \<and> 0 < r" if "((refm f)(a := None)) c = Some r" for c r
    using that ok by (auto split: if_splits)
  ultimately show ?thesis
    unfolding refs_ok_def assms by auto
qed

text \<open>The state after \<open>unref_node\<close>.\<close>

definition unreferenced :: "fuse \<Rightarrow> nat \<Rightarrow> node \<Rightarrow> fuse" where
  "unreferenced f a n =
     (let f1 = set_node f a (n\<lparr>nd_refctr := nd_refctr n - 1\<rparr>); hash = nd_id n mod fu_id_table_size f in
      if nd_refctr n = 1
      then free_node (f1\<lparr>fu_id_table := (fu_id_table f)(hash := remove1 a (fu_id_table f hash))\<rparr>) a
      else f1)"

lemma unref_node_eq:
  assumes "fu_nodes f a = Some n" "0 < nd_refctr n" "nd_refctr n = 1 \<longrightarrow> nd_name n = None"
  shows "unref_node f a = Inr (unreferenced f a n)"
  using assms by (auto simp: unref_node_def deref_def delete_node_def unhash_id_def unreferenced_def Let_def)

lemma unreferenced_ok:
  assumes "tables_ok f R" "fu_nodes f a = Some n" "0 < R a" "R a = 1 \<longrightarrow> nd_name n = None"
  shows "tables_ok (unreferenced f a n) (R(a := R a - 1))"
proof (cases "nd_refctr n = 1")
  case True
  have name: "namem f a = None" "parm f a = None"
    using assms no_children(1) [OF assms(1,2) True] fields_at [OF assms(2)] unnamed_no_parent [OF assms(1)] by auto
  have "tables_ok (unreferenced f a n) (R(a := R a - 1))"
    unfolding tables_ok_def unreferenced_def Let_def
    using True fields_at [OF assms(2)] name
    by (auto intro!: ids_ok_delete [OF assms(1)] names_ok_other [OF assms(1)] refs_ok_delete [OF assms(1)]
        simp: no_children(2) [OF assms(1,2) True assms(3)])
  then show ?thesis .
next
  case False
  let ?f = "unreferenced f a n"
  have f: "?f = set_node f a (n\<lparr>nd_refctr := nd_refctr n - 1\<rparr>)"
    using False by (simp add: unreferenced_def Let_def)
  have same: "idm ?f = idm f" "parm ?f = parm f" "namem ?f = namem f"
    using fields_at [OF assms(2)] by (auto simp: f fun_upd_idem)
  have "ids_ok ?f" "names_ok ?f"
    using tables_okD [OF assms(1)] same by (simp_all add: ids_ok_def names_ok_def chain_ok_def f)
  moreover have "refs_ok ?f (R(a := R a - 1))"
    using tables_okD(3) [OF assms(1)] refctr_count [OF assms(1,2)] assms fields_at [OF assms(2)] False
    unfolding refs_ok_def same by (auto simp: f)
  ultimately show ?thesis
    by (simp add: tables_ok_def)
qed

section \<open>Gaining and losing a name\<close>

lemma chain_okI:
  assumes "distinct (fu_name_table g k)"
    and "\<And>b. b \<in> set (fu_name_table g k) \<longleftrightarrow>
           (\<exists>p i s. parm g b = Some p \<and> idm g p = Some i \<and> namem g b = Some s \<and> name_hash g i s = k)"
  shows "chain_ok g k"
  using assms by (auto simp: chain_ok_def)

lemma chain_okD:
  assumes "tables_ok f R"
  shows "distinct (fu_name_table f k)"
    "b \<in> set (fu_name_table f k) \<longleftrightarrow>
       (\<exists>p i s. parm f b = Some p \<and> idm f p = Some i \<and> namem f b = Some s \<and> name_hash f i s = k)"
  using tables_okD(2) [OF assms] by (auto simp: names_ok_def chain_ok_def)

lemma names_ok_attach:
  assumes "tables_ok f R" "parm f a = None" "namem f a = None" "idm f a \<noteq> Some FUSE_ROOT_ID" "idm f p = Some i"
    and "NUL \<notin> set s" "\<And>b. parm f b = Some p \<Longrightarrow> namem f b \<noteq> Some s"
    and "idm g = idm f" "parm g = (parm f)(a \<mapsto> p)" "namem g = (namem f)(a \<mapsto> s)"
    and "fu_name_table g = (fu_name_table f)(name_hash f i s := a # fu_name_table f (name_hash f i s))"
    and "fu_name_table_size g = fu_name_table_size f"
  shows "names_ok g"
proof -
  have "chain_ok g k" for k
  proof (rule chain_okI)
    have "a \<notin> set (fu_name_table f k)" for k
      using chain_okD(2) [OF assms(1)] assms(2) by auto
    then show "distinct (fu_name_table g k)"
      using chain_okD(1) [OF assms(1)] by (simp add: assms(11))
    show "b \<in> set (fu_name_table g k) \<longleftrightarrow>
       (\<exists>p i s. parm g b = Some p \<and> idm g p = Some i \<and> namem g b = Some s \<and> name_hash g i s = k)" for b
      unfolding assms name_hash_size [OF assms(12)]
      using chain_okD(2) [OF assms(1), of b] assms(2,5) by (cases "b = a") auto
  qed
  moreover have "(\<exists>i. idm f q = Some i) \<and> (\<exists>s'. ((namem f)(a \<mapsto> s)) b = Some s' \<and> NUL \<notin> set s') \<and> idm f b \<noteq> Some FUSE_ROOT_ID"
    if "((parm f)(a \<mapsto> p)) b = Some q" for b q
  proof (cases "b = a")
    case False
    with that have "parm f b = Some q"
      by simp
    with False show ?thesis
      using named_child [OF assms(1)] by (metis fun_upd_other)
  qed (use that assms in auto)
  moreover have "((parm f)(a \<mapsto> p)) b \<noteq> None \<or> idm f b = Some FUSE_ROOT_ID" if "((namem f)(a \<mapsto> s)) b = Some s'" for b s'
    using that tables_okD(2) [OF assms(1)] unfolding names_ok_def by (metis fun_upd_apply option.distinct(1))
  moreover have "b = c" if "((parm f)(a \<mapsto> p)) b = Some q" "((parm f)(a \<mapsto> p)) c = Some q"
      "((namem f)(a \<mapsto> s)) b = ((namem f)(a \<mapsto> s)) c" for b c q
    using that siblings_distinct [OF assms(1), of b q c] assms(7) by (auto split: if_splits)
  ultimately show ?thesis
    unfolding names_ok_def assms by blast
qed

lemma refs_ok_attach:
  assumes "tables_ok f R" "parm f a = None" "0 < R a" "refm f p = Some x"
    and "idm g = idm f" "refm g = (refm f)(p \<mapsto> x + 1)" "parm g = (parm f)(a \<mapsto> p)" "namem g = (namem f)(a \<mapsto> s)"
  shows "refs_ok g R"
proof -
  note ok = tables_okD(3) [OF assms(1), unfolded refs_ok_def]
  have kids: "{b. ((parm f)(a \<mapsto> p)) b = Some c} = (if c = p then insert a {b. parm f b = Some c} else {b. parm f b = Some c})" for c
    using assms(2) by auto
  have "card {b. ((parm f)(a \<mapsto> p)) b = Some p} = Suc (card {b. parm f b = Some p})"
    unfolding kids using assms(2) finite_children [OF assms(1)] by simp
  moreover have "card {b. ((parm f)(a \<mapsto> p)) b = Some c} = card {b. parm f b = Some c}" if "c \<noteq> p" for c
    unfolding kids using that by simp
  moreover have "0 < x" "x = int (R p + card {b. parm f b = Some p})"
    using ok assms(4) by blast+
  ultimately have "r = int (R c + card {b. ((parm f)(a \<mapsto> p)) b = Some c}) \<and> 0 < r" if "((refm f)(p \<mapsto> x + 1)) c = Some r" for c r
    using that ok by (cases "c = p") auto
  moreover have "0 < R b" if "((namem f)(a \<mapsto> s)) b = Some s'" for b s'
    using that ok assms(3) by (auto split: if_splits)
  moreover have "\<exists>b s'. idm f b = Some FUSE_ROOT_ID \<and> ((namem f)(a \<mapsto> s)) b = Some s'"
    using ok by (metis fun_upd_apply)
  moreover have "finite (dom (idm f))"
    using ok by blast
  ultimately show ?thesis
    unfolding refs_ok_def assms by blast
qed

lemma names_ok_detach:
  assumes "tables_ok f R" "parm f a = Some p" "idm f p = Some i" "namem f a = Some s"
    and "idm g = idm f" "parm g = (parm f)(a := None)" "namem g = (namem f)(a := None)"
    and "fu_name_table g = (fu_name_table f)(name_hash f i s := remove1 a (fu_name_table f (name_hash f i s)))"
    and "fu_name_table_size g = fu_name_table_size f"
  shows "names_ok g"
proof -
  have "chain_ok g k" for k
  proof (rule chain_okI)
    show "distinct (fu_name_table g k)"
      using chain_okD(1) [OF assms(1)] by (simp add: assms(8))
    show "b \<in> set (fu_name_table g k) \<longleftrightarrow>
       (\<exists>p i s. parm g b = Some p \<and> idm g p = Some i \<and> namem g b = Some s \<and> name_hash g i s = k)" for b
      unfolding assms name_hash_size [OF assms(9)]
      using chain_okD [OF assms(1)] assms(2-4) by (cases "b = a") auto
  qed
  then show ?thesis
    using tables_okD(2) [OF assms(1)] unfolding names_ok_def assms by (auto split: if_splits)
qed

lemma refs_ok_detach:
  assumes "tables_ok f R" "parm f a = Some p" "idm f a \<noteq> Some FUSE_ROOT_ID"
    and "idm g = idm f" "refm g = refm f" "parm g = (parm f)(a := None)" "namem g = (namem f)(a := None)"
  shows "refs_ok g (R(p := R p + 1))"
proof -
  note ok = tables_okD(3) [OF assms(1), unfolded refs_ok_def]
  have kids: "{b. ((parm f)(a := None)) b = Some c} = (if c = p then {b. parm f b = Some c} - {a} else {b. parm f b = Some c})" for c
    using assms(2) by auto
  have less: "Suc (card {b. ((parm f)(a := None)) b = Some p}) = card {b. parm f b = Some p}"
    unfolding kids using assms(2) finite_children [OF assms(1), of p] card_Suc_Diff1 [of "{b. parm f b = Some p}" a]
    by simp
  have "(R(p := R p + 1)) c + card {b. ((parm f)(a := None)) b = Some c} = R c + card {b. parm f b = Some c}" for c
  proof (cases "c = p")
    case True
    show ?thesis
      unfolding True fun_upd_same using less by linarith
  next
    case False
    then show ?thesis
      unfolding kids by simp
  qed
  then have "r = int ((R(p := R p + 1)) c + card {b. ((parm f)(a := None)) b = Some c}) \<and> 0 < r" if "refm f c = Some r" for c r
    using that ok by metis
  moreover have "0 < (R(p := R p + 1)) b" if "((namem f)(a := None)) b = Some s'" for b s'
    using that ok by (auto split: if_splits)
  moreover have "\<exists>b s'. idm f b = Some FUSE_ROOT_ID \<and> ((namem f)(a := None)) b = Some s'"
    using ok assms(3) by (metis fun_upd_other)
  moreover have "finite (dom (idm f))"
    using ok by blast
  ultimately show ?thesis
    unfolding refs_ok_def assms by blast
qed

section \<open>Frames\<close>

definition lookm :: "fuse \<Rightarrow> nat \<rightharpoonup> nat" where
  "lookm f = (\<lambda>a. map_option nd_nlookup (fu_nodes f a))"

lemma lookm_updates [simp, node_simps]:
  "lookm (set_node f a n) = (lookm f)(a \<mapsto> nd_nlookup n)" "lookm (free_node f a) = (lookm f)(a := None)"
  "lookm (f\<lparr>fu_id_table := t\<rparr>) = lookm f" "lookm (f\<lparr>fu_name_table := t\<rparr>) = lookm f" "lookm (f\<lparr>fu_mem := m\<rparr>) = lookm f"
  "lookm (f\<lparr>fu_ctr := c, fu_generation := g\<rparr>) = lookm f"
  by (auto simp: lookm_def set_node_def free_node_def)

text \<open>
  \<open>g\<close> differs from \<open>f\<close> in the nodes and the tables only, and every node of \<open>g\<close> keeps its number and its
  count of lookups.
\<close>

definition shrinks :: "fuse \<Rightarrow> fuse \<Rightarrow> bool" where
  "shrinks f g \<longleftrightarrow>
     fu_id_table_size g = fu_id_table_size f \<and> fu_name_table_size g = fu_name_table_size f \<and>
     fu_fresh g = fu_fresh f \<and> fu_mem g = fu_mem f \<and> idm g \<subseteq>\<^sub>m idm f \<and> lookm g \<subseteq>\<^sub>m lookm f"

lemma shrinks_refl [simp]: "shrinks f f"
  by (simp add: shrinks_def)

lemma shrinks_trans: "shrinks f g \<Longrightarrow> shrinks g h \<Longrightarrow> shrinks f h"
  by (auto simp: shrinks_def intro: map_le_trans)

lemma shrinks_nodes:
  assumes "shrinks f g"
  shows "dom (fu_nodes g) \<subseteq> dom (fu_nodes f)"
  using assms by (simp add: shrinks_def map_le_implies_dom_le flip: dom_fields(1))

section \<open>unhash_name\<close>

definition detached :: "fuse \<Rightarrow> nat \<Rightarrow> node \<Rightarrow> nat \<Rightarrow> fuse" where
  "detached f a n hash =
     set_node (f\<lparr>fu_name_table := (fu_name_table f)(hash := remove1 a (fu_name_table f hash))\<rparr>) a
       (n\<lparr>nd_name := None, nd_parent := None\<rparr>)"

lemma detached_ok:
  assumes "tables_ok f R" "fu_nodes f a = Some n" "nd_parent n = Some p" "nd_name n = Some s" "idm f p = Some i"
  shows "tables_ok (detached f a n (name_hash f i s)) (R(p := R p + 1))"
proof -
  let ?g = "detached f a n (name_hash f i s)"
  have at: "parm f a = Some p" "namem f a = Some s" "idm f a = Some (nd_id n)" "refm f a = Some (nd_refctr n)"
    using assms(2-4) by (simp_all add: field_defs)
  have fields: "idm ?g = idm f" "refm ?g = refm f" "parm ?g = (parm f)(a := None)" "namem ?g = (namem f)(a := None)"
    using at by (simp_all add: detached_def fun_upd_idem)
  have tables: "fu_name_table ?g = (fu_name_table f)(name_hash f i s := remove1 a (fu_name_table f (name_hash f i s)))"
    "fu_name_table_size ?g = fu_name_table_size f" "fu_id_table ?g = fu_id_table f" "fu_id_table_size ?g = fu_id_table_size f"
    by (simp_all add: detached_def)
  have "ids_ok ?g"
    using tables_okD(1) [OF assms(1)] unfolding ids_ok_def fields tables .
  moreover have "names_ok ?g"
    by (rule names_ok_detach [OF assms(1) at(1) assms(5) at(2) fields(1,3,4) tables(1,2)])
  moreover have "refs_ok ?g (R(p := R p + 1))"
    using named_child [OF assms(1) at(1)] by (metis refs_ok_detach [OF assms(1) at(1) _ fields])
  ultimately show ?thesis
    by (simp add: tables_ok_def)
qed

lemma node_update_swap:
  "(n :: node)\<lparr>nd_refctr := r, nd_name := s, nd_parent := p\<rparr> = n\<lparr>nd_name := s, nd_parent := p, nd_refctr := r\<rparr>"
  by simp

lemma unhash_name_eq:
  assumes "tables_ok f R" "fu_nodes f a = Some n" "nd_parent n = Some p" "nd_name n = Some s" "fu_nodes f p = Some pn"
  shows "\<exists>pn'. fu_nodes (detached f a n (name_hash f (nd_id pn) s)) p = Some pn' \<and> nd_name pn' = (if p = a then None else nd_name pn) \<and>
           unhash_name f a = Inr (unreferenced (detached f a n (name_hash f (nd_id pn) s)) p pn')"
proof -
  let ?h = "name_hash f (nd_id pn) s"
  let ?f1 = "f\<lparr>fu_name_table := (fu_name_table f)(?h := remove1 a (fu_name_table f ?h))\<rparr>"
  have at: "parm f a = Some p" "namem f a = Some s" "idm f p = Some (nd_id pn)" "namem f p = nd_name pn"
    using assms(2-5) by (simp_all add: field_defs)
  have "a \<in> set (fu_name_table f ?h)"
    unfolding name_table_set [OF assms(1)] using at by blast
  have kid: "0 < card {b. parm f b = Some p}"
    using at(1) finite_children [OF assms(1), of p] by (auto simp: card_gt_0_iff)
  have R: "0 < R a" "nd_name pn \<noteq> None \<longrightarrow> 0 < R p"
    using tables_okD(3) [OF assms(1)] at(2,4) unfolding refs_ok_def by auto
  have one: "nd_refctr pn = 1 \<longrightarrow> nd_name pn = None \<and> p \<noteq> a"
    using refctr_count(1) [OF assms(1,5)] R kid by auto
  have "unref_node ?f1 p = Inr (unreferenced ?f1 p pn)"
    using one refctr_count(2) [OF assms(1,5)] assms(5) by (intro unref_node_eq) auto
  moreover have "(if p = a then pn\<lparr>nd_refctr := nd_refctr pn - 1\<rparr> else n) = the (fu_nodes (unreferenced ?f1 p pn) a)"
    "a \<in> dom (fu_nodes (unreferenced ?f1 p pn))"
    using one assms(2) by (auto simp: unreferenced_def Let_def)
  ultimately have u: "unhash_name f a = Inr (set_node (unreferenced ?f1 p pn) a
      ((if p = a then pn\<lparr>nd_refctr := nd_refctr pn - 1\<rparr> else n)\<lparr>nd_name := None, nd_parent := None\<rparr>))"
    using assms(2-5) \<open>a \<in> set (fu_name_table f ?h)\<close> by (auto simp: unhash_name_def deref_def Let_def)
  show ?thesis
  proof (cases "p = a")
    case True
    then show ?thesis
      using u one assms(2,5) by (auto simp: detached_def unreferenced_def Let_def set_node_def node_update_swap)
  next
    case False
    then show ?thesis
      using u assms(5) by (auto simp: detached_def unreferenced_def Let_def set_node_def free_node_def fun_upd_twist)
  qed
qed

lemma unreferenced_shrinks:
  assumes "fu_nodes f a = Some n"
  shows "shrinks f (unreferenced f a n)" "b \<noteq> a \<Longrightarrow> fu_nodes (unreferenced f a n) b = fu_nodes f b"
    "parm (unreferenced f a n) = (if nd_refctr n = 1 then (parm f)(a := None) else parm f)"
    "namem (unreferenced f a n) = (if nd_refctr n = 1 then (namem f)(a := None) else namem f)"
    "a \<in> dom (fu_nodes (unreferenced f a n)) \<longleftrightarrow> nd_refctr n \<noteq> 1"
  using assms by (auto simp: shrinks_def unreferenced_def Let_def map_le_def field_defs lookm_def split: if_splits)

lemma detached_shrinks:
  assumes "fu_nodes f a = Some n"
  shows "shrinks f (detached f a n k)" "dom (fu_nodes (detached f a n k)) = dom (fu_nodes f)"
    "parm (detached f a n k) = (parm f)(a := None)" "namem (detached f a n k) = (namem f)(a := None)"
  using assms by (auto simp: shrinks_def detached_def map_le_def field_defs lookm_def)

lemma unreferenced_gone:
  assumes "tables_ok f (R(p := R p + 1))" "fu_nodes f p = Some n" "R p = 0 \<longrightarrow> nd_name n = None" "nd_refctr n = 1"
  shows "R p = 0" "nd_name n = None" "nd_parent n = None"
proof -
  show "R p = 0"
    using no_children(1) [OF assms(1,2,4)] by simp
  with assms(3) show "nd_name n = None" "nd_parent n = None"
    using unnamed_no_parent [OF assms(1)] fields_at [OF assms(2)] by auto
qed

text \<open>
  \<open>unhash_name\<close> removes the name of the node, and perhaps its parent, but no node that is referenced from
  outside.
\<close>

definition unnamed :: "fuse \<Rightarrow> (nat \<Rightarrow> nat) \<Rightarrow> nat \<Rightarrow> fuse \<Rightarrow> bool" where
  "unnamed f R a g \<longleftrightarrow>
     tables_ok g R \<and> shrinks f g \<and> parm g = (parm f)(a := None) \<and> namem g = (namem f)(a := None) \<and>
     (\<forall>b\<in>dom (fu_nodes f). 0 < R b \<longrightarrow> b \<in> dom (fu_nodes g))"

lemma unhash_named:
  assumes "tables_ok f R" "fu_nodes f a = Some n" "nd_parent n = Some p" "nd_name n = Some s" "fu_nodes f p = Some pn"
  shows "\<exists>g. unhash_name f a = Inr g \<and> unnamed f R a g"
proof -
  let ?d = "detached f a n (name_hash f (nd_id pn) s)"
  obtain pn' where pn': "fu_nodes ?d p = Some pn'" "nd_name pn' = (if p = a then None else nd_name pn)"
      "unhash_name f a = Inr (unreferenced ?d p pn')"
    using unhash_name_eq [OF assms] by blast
  let ?R = "R(p := R p + 1)" and ?g = "unreferenced ?d p pn'"
  have d: "tables_ok ?d ?R"
    using fields_at [OF assms(5)] by (intro detached_ok [OF assms(1-4)]) simp
  have name: "R p = 0 \<longrightarrow> nd_name pn' = None"
    using tables_okD(3) [OF assms(1)] pn'(2) fields_at [OF assms(5)] unfolding refs_ok_def
    by (metis neq0_conv not_None_eq)
  note gone = unreferenced_gone [OF d pn'(1) name]
  have "tables_ok ?g (?R(p := ?R p - 1))"
    using name by (intro unreferenced_ok [OF d pn'(1)]) auto
  moreover have "?R(p := ?R p - 1) = R"
    by auto
  moreover have "shrinks f ?g"
    using detached_shrinks(1) [OF assms(2)] unreferenced_shrinks(1) [OF pn'(1)] by (rule shrinks_trans)
  moreover have "parm ?g = (parm f)(a := None)" "namem ?g = (namem f)(a := None)"
    using gone fields_at [OF pn'(1)] unreferenced_shrinks(3,4) [OF pn'(1)] detached_shrinks(3,4) [OF assms(2)]
    by (auto simp: fun_upd_idem)
  moreover have "b \<in> dom (fu_nodes ?g)" if b: "b \<in> dom (fu_nodes f)" "0 < R b" for b
  proof (cases "b = p")
    case True
    with b(2) gone(1) unreferenced_shrinks(5) [OF pn'(1)] show ?thesis
      by auto
  next
    case False
    have "b \<in> dom (fu_nodes ?d)"
      using b(1) detached_shrinks(2) [OF assms(2)] by simp
    with False show ?thesis
      by (simp add: dom_def unreferenced_shrinks(2) [OF pn'(1)])
  qed
  ultimately show ?thesis
    using pn'(3) by (simp add: unnamed_def)
qed

lemma unhash_name_ok:
  assumes "tables_ok f R" "idm f a = Some j" "j \<noteq> FUSE_ROOT_ID"
  shows "\<exists>g. unhash_name f a = Inr g \<and> unnamed f R a g"
proof -
  obtain n where n: "fu_nodes f a = Some n" "parm f a = nd_parent n" "namem f a = nd_name n"
    using idm_nodeE [OF assms(2)] by metis
  show ?thesis
  proof (cases "nd_name n")
    case None
    then have "parm f a = None"
      using n unnamed_no_parent [OF assms(1)] by simp
    with None n assms(1) show ?thesis
      by (simp add: unhash_name_def deref_def unnamed_def fun_upd_idem)
  next
    case (Some s)
    have "parm f a \<noteq> None"
      using tables_okD(2) [OF assms(1)] Some n(3) assms(2,3) unfolding names_ok_def by fastforce
    then obtain p where p: "nd_parent n = Some p"
      using n(2) by auto
    then obtain i where "idm f p = Some i"
      using n(2) by (auto elim: named_child [OF assms(1)])
    then obtain pn where "fu_nodes f p = Some pn"
      by (auto elim: idm_nodeE)
    then show ?thesis
      using unhash_named [OF assms(1) n(1) p Some] by blast
  qed
qed

text \<open>The entries that are left.\<close>

lemma unnamed_entries:
  assumes "tables_ok f R" "unnamed f R a g" "idm f a = Some j0"
  shows "entry g i s j \<longleftrightarrow> entry f i s j \<and> j \<noteq> j0"
proof
  note g = assms(2) [unfolded unnamed_def]
  have sub: "idm f b = Some k" if "idm g b = Some k" for b k
    using g that by (metis shrinks_def map_le_def domI)
  have keep: "idm g b = Some k" if "idm f b = Some k" "b \<in> dom (idm g)" for b k
    using g that by (metis shrinks_def map_le_def)
  {
    assume "entry g i s j"
    then obtain b p where b: "parm g b = Some p" "namem g b = Some s" "idm g p = Some i" "idm g b = Some j"
      by (auto simp: entry_def)
    then have ne: "b \<noteq> a" "parm f b = Some p" "namem f b = Some s"
      using g by (auto split: if_splits)
    then have "entry f i s j"
      using b sub unfolding entry_def by blast
    moreover have "j \<noteq> j0"
      using ne(1) idm_inj [OF assms(1) assms(3)] sub [OF b(4)] by blast
    ultimately show "entry f i s j \<and> j \<noteq> j0" ..
  next
    assume *: "entry f i s j \<and> j \<noteq> j0"
    then obtain b p where b: "parm f b = Some p" "namem f b = Some s" "idm f p = Some i" "idm f b = Some j"
      by (auto simp: entry_def)
    then have "b \<noteq> a"
      using * assms(3) by auto
    then have "parm g b = Some p" "namem g b = Some s"
      using b g by auto
    moreover from this have "p \<in> dom (idm g)" "b \<in> dom (idm g)"
      using g in_dom_fields(2) [of g b p] named_child [of g R b p] by blast+
    ultimately show "entry g i s j"
      using keep b unfolding entry_def by blast
  }
qed

end
