(* ===== verification/Fuse_Node_Ops.thy ===== *)
theory Fuse_Node_Ops
  imports Fuse_Node_Laws
begin

text \<open>
  The operations on the node tables as their callers see them: a directory cache of numbered entries
  with a count of lookups for each number. The kernel looks a name up, forgets lookups it holds, and has
  names removed and renamed; each operation does to the tables what it does to the cache, keeps the
  invariant, and returns.
\<close>

section \<open>A new number\<close>

lemma tables_ok_counters [simp]: "tables_ok (f\<lparr>fu_ctr := c, fu_generation := g\<rparr>) = tables_ok f"
  by (rule tables_ok_cong) simp_all

lemma tables_ok_mem [simp]: "tables_ok (f\<lparr>fu_mem := m\<rparr>) = tables_ok f"
  by (rule tables_ok_cong) simp_all

text \<open>The values of the counter that \<open>next_id\<close> skips.\<close>

definition taken :: "fuse \<Rightarrow> nat \<Rightarrow> bool" where
  "taken f c \<longleftrightarrow> c = 0 \<or> c = FUSE_UNKNOWN_INO \<or> c \<in> ran (idm f)"

lemma get_node_nocheck_known:
  assumes "tables_ok f R"
  shows "\<exists>r. get_node_nocheck f i = Inr r \<and> (r = None \<longleftrightarrow> i \<notin> ran (idm f))"
proof (cases "i \<in> ran (idm f)")
  case True
  then obtain a where "idm f a = Some i"
    by (auto simp: ran_def)
  with True show ?thesis
    by (simp add: get_node_nocheck_found [OF assms])
qed (simp add: get_node_nocheck_missing [OF assms])

lemma next_id_step:
  assumes "tables_ok f R"
  shows "\<exists>f1. fu_ctr f1 = (fu_ctr f + 1) mod 2 ^ 32 \<and> (\<exists>g. f1 = f\<lparr>fu_ctr := fu_ctr f1, fu_generation := g\<rparr>) \<and>
           next_id (Suc k) f = (if taken f (fu_ctr f1) then next_id k f1 else Some (Inr (fu_ctr f1, f1)))"
proof -
  define c where "c = (fu_ctr f + 1) mod 2 ^ 32"
  define g where "g = (if c = 0 then (fu_generation f + 1) mod 2 ^ 32 else fu_generation f)"
  define f1 where "f1 = f\<lparr>fu_ctr := c, fu_generation := g\<rparr>"
  have f1: "tables_ok f1 R" "idm f1 = idm f"
    using assms by (simp_all add: f1_def)
  then obtain r where r: "get_node_nocheck f1 c = Inr r" "r = None \<longleftrightarrow> c \<notin> ran (idm f)"
    using get_node_nocheck_known by metis
  have "next_id (Suc k) f = (if c = 0 \<or> c = FUSE_UNKNOWN_INO then next_id k f1
      else case get_node_nocheck f1 c of Inl e \<Rightarrow> Some (Inl e) | Inr None \<Rightarrow> Some (Inr (c, f1)) | Inr (Some _) \<Rightarrow> next_id k f1)"
    by (simp only: next_id.simps Let_def c_def g_def f1_def)
  also have "\<dots> = (if taken f c then next_id k f1 else Some (Inr (c, f1)))"
    using r by (cases r) (simp_all add: taken_def)
  finally show ?thesis
    by (intro exI [of _ f1]) (auto simp: f1_def c_def)
qed

lemma taken_counters [simp]: "taken (f\<lparr>fu_ctr := c, fu_generation := g\<rparr>) = taken f"
  by (simp add: taken_def fun_eq_iff)

text \<open>Within \<open>k\<close> rounds \<open>next_id\<close> finds a free number, or the next \<open>k\<close> numbers are taken.\<close>

lemma next_id_search:
  assumes "tables_ok f R"
  shows "(\<exists>c g. next_id k f = Some (Inr (c, f\<lparr>fu_ctr := c, fu_generation := g\<rparr>)) \<and> \<not> taken f c \<and> c < 2 ^ 32) \<or>
         (\<forall>j\<in>{1..k}. taken f ((fu_ctr f + j) mod 2 ^ 32))"
  using assms
proof (induction k arbitrary: f)
  case (Suc k)
  obtain f1 g where f1: "fu_ctr f1 = (fu_ctr f + 1) mod 2 ^ 32" "f1 = f\<lparr>fu_ctr := fu_ctr f1, fu_generation := g\<rparr>"
    "next_id (Suc k) f = (if taken f (fu_ctr f1) then next_id k f1 else Some (Inr (fu_ctr f1, f1)))"
    using next_id_step [OF Suc.prems] by blast
  show ?case
  proof (cases "taken f (fu_ctr f1)")
    case False
    with f1 show ?thesis
      by (metis mod_less_divisor zero_less_numeral zero_less_power)
  next
    case True
    have "tables_ok f1 R"
      using Suc.prems by (subst f1(2)) simp
    note IH = Suc.IH [OF this]
    have eq: "taken f1 = taken f"
      by (subst f1(2)) simp
    have upd: "f1\<lparr>fu_ctr := c, fu_generation := h\<rparr> = f\<lparr>fu_ctr := c, fu_generation := h\<rparr>" for c h
      by (subst f1(2)) simp
    from IH show ?thesis
    proof
      assume "\<exists>c g. next_id k f1 = Some (Inr (c, f1\<lparr>fu_ctr := c, fu_generation := g\<rparr>)) \<and> \<not> taken f1 c \<and> c < 2 ^ 32"
      with True f1(3) show ?thesis
        by (simp add: eq upd)
    next
      assume all: "\<forall>j\<in>{1..k}. taken f1 ((fu_ctr f1 + j) mod 2 ^ 32)"
      have "taken f ((fu_ctr f + j) mod 2 ^ 32)" if "j \<in> {1..Suc k}" for j
      proof (cases "j = 1")
        case True
        with \<open>taken f (fu_ctr f1)\<close> f1(1) show ?thesis
          by simp
      next
        case False
        then have "j - 1 \<in> {1..k}"
          using that by auto
        with all have "taken f1 ((fu_ctr f1 + (j - 1)) mod 2 ^ 32)" ..
        moreover have "(fu_ctr f1 + (j - 1)) mod 2 ^ 32 = (fu_ctr f + j) mod 2 ^ 32"
          using that mod_add_left_eq [of "fu_ctr f + 1" "2 ^ 32" "j - 1"] by (simp add: f1(1) del: mod_add_left_eq)
        ultimately show ?thesis
          by (simp add: eq)
      qed
      then show ?thesis
        by blast
    qed
  qed
qed simp

lemma next_id_more: "next_id k f = Some r \<Longrightarrow> next_id (k + d) f = Some r"
proof (induction k f rule: next_id.induct)
  case (2 k f)
  then show ?case
    by (auto simp: Let_def split: if_splits sum.splits option.splits)
qed simp

lemma card_taken:
  assumes "tables_ok f R"
  shows "finite {c. taken f c}" "card {c. taken f c} \<le> card (dom (fu_nodes f)) + 2"
proof -
  have eq: "{c. taken f c} = {0, FUSE_UNKNOWN_INO} \<union> (\<lambda>a. the (idm f a)) ` dom (idm f)"
    by (auto simp: taken_def ran_def image_iff) (metis domI option.sel)
  have fin: "finite (dom (idm f))"
    using finite_nodes [OF assms] by (simp add: dom_fields)
  then show "finite {c. taken f c}"
    by (simp add: eq)
  have "card {c. taken f c} \<le> card {0, FUSE_UNKNOWN_INO} + card ((\<lambda>a. the (idm f a)) ` dom (idm f))"
    unfolding eq by (rule card_Un_le)
  also have "\<dots> \<le> 2 + card (dom (idm f))"
    using card_image_le [OF fin, of "\<lambda>a. the (idm f a)"] by (simp add: card_insert_if)
  finally show "card {c. taken f c} \<le> card (dom (fu_nodes f)) + 2"
    by (simp add: dom_fields)
qed

lemma inj_on_mod: "k \<le> m \<Longrightarrow> inj_on (\<lambda>j. (c + j) mod m) {1..k :: nat}"
proof (rule inj_onI)
  fix i j assume "k \<le> m" and ij: "i \<in> {1..k}" "j \<in> {1..k}" "(c + i) mod m = (c + j) mod m"
  then show "i = j"
  proof (induction i j rule: linorder_wlog)
    case (le i j)
    then have "m dvd (c + j) - (c + i)"
      by (metis mod_eq_dvd_iff_nat add_left_mono)
    then have "m dvd j - i"
      by simp
    with le \<open>k \<le> m\<close> show ?case
      by (auto dest!: dvd_imp_le)
  qed auto
qed

lemma next_id_ok:
  assumes "tables_ok f R" "card (dom (fu_nodes f)) + 3 \<le> 2 ^ 32" "card (dom (fu_nodes f)) + 3 \<le> k"
  shows "\<exists>c g. next_id k f = Some (Inr (c, f\<lparr>fu_ctr := c, fu_generation := g\<rparr>)) \<and> \<not> taken f c \<and> c < 2 ^ 32"
proof -
  let ?n = "card (dom (fu_nodes f)) + 3"
  have "\<not> (\<forall>j\<in>{1..?n}. taken f ((fu_ctr f + j) mod 2 ^ 32))"
  proof
    assume "\<forall>j\<in>{1..?n}. taken f ((fu_ctr f + j) mod 2 ^ 32)"
    then have "(\<lambda>j. (fu_ctr f + j) mod 2 ^ 32) ` {1..?n} \<subseteq> {c. taken f c}"
      by blast
    from card_mono [OF card_taken(1) [OF assms(1)] this] have "?n \<le> card {c. taken f c}"
      using inj_on_mod [OF assms(2), of "fu_ctr f"] by (simp add: card_image)
    then show False
      using card_taken(2) [OF assms(1)] by linarith
  qed
  then obtain c g where c: "next_id ?n f = Some (Inr (c, f\<lparr>fu_ctr := c, fu_generation := g\<rparr>))" "\<not> taken f c" "c < 2 ^ 32"
    using next_id_search [OF assms(1), of ?n] by blast
  have "next_id k f = Some (Inr (c, f\<lparr>fu_ctr := c, fu_generation := g\<rparr>))"
    using next_id_more [OF c(1), of "k - ?n"] assms(3) by simp
  with c show ?thesis
    by blast
qed

section \<open>A new node\<close>

definition added :: "fuse \<Rightarrow> nat \<Rightarrow> nat \<Rightarrow> nat \<Rightarrow> fuse" where
  "added f a i g =
     (set_node f a (new_node i g))
       \<lparr>fu_id_table := (fu_id_table f)(i mod fu_id_table_size f := a # fu_id_table f (i mod fu_id_table_size f))\<rparr>"

lemma new_node_simps [simp]:
  "nd_id (new_node i g) = i" "nd_refctr (new_node i g) = 1" "nd_parent (new_node i g) = None"
  "nd_name (new_node i g) = None" "nd_nlookup (new_node i g) = 0"
  by (simp_all add: new_node_def)

lemma fresh_fields:
  assumes "a \<notin> dom (fu_nodes f)"
  shows "idm f a = None" "refm f a = None" "parm f a = None" "namem f a = None" "lookm f a = None"
  using assms by (auto simp: field_defs lookm_def domIff)

lemma added_ok:
  assumes "tables_ok f R" "a \<notin> dom (fu_nodes f)" "i \<notin> ran (idm f)"
  shows "tables_ok (added f a i g) (R(a := 1))"
proof -
  let ?f = "added f a i g"
  note fr = fresh_fields [OF assms(2)]
  have fields: "idm ?f = (idm f)(a \<mapsto> i)" "refm ?f = (refm f)(a \<mapsto> 1)" "parm ?f = parm f" "namem ?f = namem f"
    using fr by (simp_all add: added_def fun_upd_idem)
  have tables: "fu_name_table ?f = fu_name_table f" "fu_name_table_size ?f = fu_name_table_size f"
    "fu_id_table_size ?f = fu_id_table_size f"
    "fu_id_table ?f = (fu_id_table f)(i mod fu_id_table_size f := a # fu_id_table f (i mod fu_id_table_size f))"
    by (simp_all add: added_def)
  have notin: "a \<notin> set (fu_id_table f k)" for k
    using fr by (auto simp: id_table_set [OF assms(1)])
  have "ids_ok ?f"
    unfolding ids_ok_def fields tables
    using tables_okD(1) [OF assms(1)] notin assms(3) fr by (auto simp: ids_ok_def ran_def)
  moreover have kids: "parm f b \<noteq> Some a" for b
    using named_child [OF assms(1), of b a] fr(1) by force
  have "names_ok ?f"
    using kids fr fields tables by (intro names_ok_other [OF assms(1), of a]) auto
  moreover obtain b s where "idm f b = Some FUSE_ROOT_ID" "namem f b = Some s" "b \<noteq> a"
    using tables_okD(3) [OF assms(1)] fr(4) unfolding refs_ok_def by (metis option.distinct(1))
  then have "\<exists>b s. ((idm f)(a \<mapsto> i)) b = Some FUSE_ROOT_ID \<and> namem f b = Some s"
    by (metis fun_upd_other)
  then have "refs_ok ?f (R(a := 1))"
    using tables_okD(3) [OF assms(1)] kids fr unfolding refs_ok_def fields by auto
  ultimately show ?thesis
    by (simp add: tables_ok_def)
qed

section \<open>hash_name\<close>

definition hashed :: "fuse \<Rightarrow> nat \<Rightarrow> nat \<Rightarrow> nat \<Rightarrow> string \<Rightarrow> fuse" where
  "hashed f a p i s =
     (let f1 = f\<lparr>fu_mem := snd (alloc (fu_mem f))\<rparr>; pn = the (fu_nodes f p);
          f2 = set_node f1 p (pn\<lparr>nd_refctr := nd_refctr pn + 1\<rparr>); n = the (fu_nodes f2 a);
          hash = name_hash f i s in
      (set_node f2 a (n\<lparr>nd_name := Some s, nd_parent := Some p\<rparr>))
        \<lparr>fu_name_table := (fu_name_table f)(hash := a # fu_name_table f hash)\<rparr>)"

lemma hash_name_eq:
  assumes "get_node f i = Inr p" "fu_nodes f p = Some pn" "fu_nodes f a = Some n" "nd_refctr pn < INT_MAX"
    and "fst (alloc (fu_mem f))"
  shows "hash_name f a i s = Inr (0, hashed f a p i s)"
  using assms
  by (cases "alloc (fu_mem f)") (simp add: hash_name_def hashed_def deref_def Let_def split: if_splits)

lemma hash_name_oom:
  assumes "get_node f i = Inr p" "\<not> fst (alloc (fu_mem f))"
  shows "hash_name f a i s = Inr (-1, f\<lparr>fu_mem := snd (alloc (fu_mem f))\<rparr>)"
  using assms by (cases "alloc (fu_mem f)") (simp add: hash_name_def Let_def)

lemma hashed_fields:
  assumes "fu_nodes f p = Some pn" "fu_nodes f a = Some n"
  shows "idm (hashed f a p i s) = idm f" "refm (hashed f a p i s) = (refm f)(p \<mapsto> nd_refctr pn + 1)"
    "parm (hashed f a p i s) = (parm f)(a \<mapsto> p)" "namem (hashed f a p i s) = (namem f)(a \<mapsto> s)"
    "lookm (hashed f a p i s) = lookm f" "dom (fu_nodes (hashed f a p i s)) = dom (fu_nodes f)"
  using assms by (auto simp: hashed_def Let_def field_defs lookm_def)

lemma hashed_tables:
  "fu_id_table (hashed f a p i s) = fu_id_table f" "fu_id_table_size (hashed f a p i s) = fu_id_table_size f"
  "fu_name_table (hashed f a p i s) = (fu_name_table f)(name_hash f i s := a # fu_name_table f (name_hash f i s))"
  "fu_name_table_size (hashed f a p i s) = fu_name_table_size f" "fu_fresh (hashed f a p i s) = fu_fresh f"
  "fu_mem (hashed f a p i s) = snd (alloc (fu_mem f))"
  by (simp_all add: hashed_def Let_def)

lemma hashed_ok:
  assumes "tables_ok f R" "fu_nodes f a = Some n" "nd_name n = None" "nd_id n \<noteq> FUSE_ROOT_ID" "0 < R a"
    and "idm f p = Some i" "NUL \<notin> set s" "\<not> (\<exists>j. entry f i s j)"
  shows "tables_ok (hashed f a p i s) R"
proof -
  let ?g = "hashed f a p i s"
  obtain pn where pn: "fu_nodes f p = Some pn" "refm f p = Some (nd_refctr pn)"
    using assms(6) by (auto elim: idm_nodeE)
  have a: "namem f a = None" "parm f a = None" "idm f a \<noteq> Some FUSE_ROOT_ID"
    using assms(3,4) fields_at [OF assms(2)] unnamed_no_parent [OF assms(1), of a] by auto
  have free: "namem f b \<noteq> Some s" if "parm f b = Some p" for b
    using that assms(6,8) in_dom_fields(2) [OF that] by (auto simp: entry_def)
  note fields = hashed_fields [OF pn(1) assms(2), where i = i and s = s]
  have "ids_ok ?g"
    using tables_okD(1) [OF assms(1)] unfolding ids_ok_def fields hashed_tables .
  moreover have "names_ok ?g"
    by (rule names_ok_attach [OF assms(1) a(2,1,3) assms(6,7) free fields(1,3,4) hashed_tables(3,4)])
  moreover have "refs_ok ?g R"
    by (rule refs_ok_attach [OF assms(1) a(2) assms(5) pn(2) fields(1-4)])
  ultimately show ?thesis
    by (simp add: tables_ok_def)
qed

lemma hashed_entries:
  assumes "tables_ok f R" "fu_nodes f a = Some n" "nd_name n = None" "idm f p = Some i"
  shows "entry (hashed f a p i s) k t j \<longleftrightarrow> entry f k t j \<or> (k = i \<and> t = s \<and> j = nd_id n)"
proof -
  obtain pn where pn: "fu_nodes f p = Some pn"
    using assms(4) by (auto elim: idm_nodeE)
  have a: "namem f a = None" "idm f a = Some (nd_id n)"
    using assms(2,3) fields_at [OF assms(2)] by auto
  show ?thesis
  proof
    assume "entry (hashed f a p i s) k t j"
    then show "entry f k t j \<or> (k = i \<and> t = s \<and> j = nd_id n)"
      unfolding entry_def hashed_fields [OF pn assms(2)] using assms(4) a(2) by (auto split: if_splits)
  next
    assume "entry f k t j \<or> (k = i \<and> t = s \<and> j = nd_id n)"
    then show "entry (hashed f a p i s) k t j"
      using a assms(4) unfolding entry_def hashed_fields [OF pn assms(2)]
      by (metis fun_upd_apply option.distinct(1))
  qed
qed

text \<open>The directory has room for one more child, which every table of fewer than \<open>2^31 - 2\<close> nodes has.\<close>

definition room :: "fuse \<Rightarrow> bool" where
  "room f \<longleftrightarrow> int (card (dom (fu_nodes f))) + 1 < INT_MAX"

lemma room_refctr:
  assumes "tables_ok f R" "room f" "fu_nodes f p = Some pn" "R p \<le> 1"
  shows "nd_refctr pn < INT_MAX"
proof -
  have "card {b. parm f b = Some p} \<le> card (dom (fu_nodes f))"
    by (rule card_mono [OF finite_nodes [OF assms(1)]]) (auto simp: parm_def bind_eq_Some_conv)
  then show ?thesis
    using refctr_count(1) [OF assms(1,3)] assms(2,4) unfolding room_def by linarith
qed

section \<open>The directory cache\<close>

text \<open>What the kernel knows of the tables: numbered entries, and how often it holds each number.\<close>

record dcache =
  dc_entries :: "(nat \<times> string \<times> nat) set"
  dc_count :: "nat \<Rightarrow> nat"

definition nlookups :: "fuse \<Rightarrow> nat \<Rightarrow> nat" where
  "nlookups f i =
     (case get_node_nocheck f i of
        Inr (Some a) \<Rightarrow> (case fu_nodes f a of Some n \<Rightarrow> nd_nlookup n | None \<Rightarrow> 0)
      | _ \<Rightarrow> 0)"

definition dcache_of :: "fuse \<Rightarrow> dcache" where
  "dcache_of f = \<lparr>dc_entries = {(i, s, j). entry f i s j}, dc_count = nlookups f\<rparr>"

definition dc_lookup :: "nat \<Rightarrow> string \<Rightarrow> nat \<Rightarrow> dcache \<Rightarrow> dcache" where
  "dc_lookup i s j d = d\<lparr>dc_entries := insert (i, s, j) (dc_entries d), dc_count := (dc_count d)(j := dc_count d j + 1)\<rparr>"

definition dc_forget :: "nat \<Rightarrow> nat \<Rightarrow> dcache \<Rightarrow> dcache" where
  "dc_forget j n d =
     \<lparr>dc_entries = {e \<in> dc_entries d. dc_count d j = n \<longrightarrow> snd (snd e) \<noteq> j},
      dc_count = (dc_count d)(j := dc_count d j - n)\<rparr>"

definition dc_remove :: "nat \<Rightarrow> string \<Rightarrow> dcache \<Rightarrow> dcache" where
  "dc_remove i s d = d\<lparr>dc_entries := {e \<in> dc_entries d. fst e \<noteq> i \<or> fst (snd e) \<noteq> s}\<rparr>"

definition dc_rename :: "nat \<Rightarrow> string \<Rightarrow> nat \<Rightarrow> string \<Rightarrow> dcache \<Rightarrow> dcache" where
  "dc_rename i s i' s' d =
     d\<lparr>dc_entries := (let e = dc_entries d; moved = {j. (i, s, j) \<in> e} in
          if moved = {} then e
          else {x \<in> e. (fst x, fst (snd x)) \<noteq> (i, s) \<and> (fst x, fst (snd x)) \<noteq> (i', s')} \<union>
               {(i', s', j) |j. j \<in> moved})\<rparr>"

text \<open>Every node with lookups is referenced once from outside.\<close>

definition ext :: "fuse \<Rightarrow> nat \<Rightarrow> nat" where
  "ext f a = (case lookm f a of None \<Rightarrow> 0 | Some c \<Rightarrow> if c = 0 then 0 else 1)"

definition nodes_ok :: "fuse \<Rightarrow> bool" where
  "nodes_ok f \<longleftrightarrow> tables_ok f (ext f) \<and> (\<forall>h. finite (dom h) \<longrightarrow> fu_fresh f h \<notin> dom h)"

lemma nodes_okD: "nodes_ok f \<Longrightarrow> tables_ok f (ext f)"
  by (simp add: nodes_ok_def)

lemma ext_le [simp]: "ext f a \<le> 1"
  by (simp add: ext_def split: option.splits)

lemma nlookups_lookm:
  assumes "tables_ok f R" "idm f a = Some i"
  shows "lookm f a = Some (nlookups f i)"
proof -
  obtain n where "fu_nodes f a = Some n"
    using assms(2) by (auto elim: idm_nodeE)
  then show ?thesis
    by (simp add: nlookups_def get_node_nocheck_found [OF assms] lookm_def)
qed

lemma nlookups_unknown: "tables_ok f R \<Longrightarrow> i \<notin> ran (idm f) \<Longrightarrow> nlookups f i = 0"
  by (simp add: nlookups_def get_node_nocheck_missing)

lemma nlookups_pos:
  assumes "tables_ok f R" "0 < nlookups f i"
  obtains a where "idm f a = Some i"
  using assms(2) nlookups_unknown [OF assms(1), of i] by (fastforce simp: ran_def)

lemma entry_unique:
  assumes "tables_ok f R" "entry f i s j" "entry f i s k"
  shows "j = k"
proof -
  obtain a p b q where ab: "parm f a = Some p" "namem f a = Some s" "idm f p = Some i" "idm f a = Some j"
    "parm f b = Some q" "namem f b = Some s" "idm f q = Some i" "idm f b = Some k"
    using assms(2,3) by (auto simp: entry_def)
  then have "p = q"
    using idm_inj [OF assms(1)] by blast
  then have "a = b"
    using ab siblings_distinct [OF assms(1)] by metis
  with ab show ?thesis
    by simp
qed

text \<open>The counts of two states, compared node by node.\<close>

lemma nlookups_eqI:
  assumes "tables_ok f R" "tables_ok g R'" "\<And>a i. idm g a = Some i \<Longrightarrow> idm f a = Some i \<and> lookm g a = lookm f a"
    and "\<And>a i. idm f a = Some i \<Longrightarrow> idm g a = None \<Longrightarrow> nlookups f i = 0"
  shows "nlookups g = nlookups f"
proof
  fix i
  show "nlookups g i = nlookups f i"
  proof (cases "i \<in> ran (idm g)")
    case True
    then obtain a where a: "idm g a = Some i"
      by (auto simp: ran_def)
    then show ?thesis
      using assms(3) [OF a] nlookups_lookm [OF assms(1), of a i] nlookups_lookm [OF assms(2), of a i] by simp
  next
    case False
    have "nlookups f i = 0"
    proof (cases "i \<in> ran (idm f)")
      case True
      then obtain a where a: "idm f a = Some i"
        by (auto simp: ran_def)
      then have "idm g a = None"
        using False assms(3) [of a] by (cases "idm g a") (auto simp: ran_def)
      with a show ?thesis
        by (rule assms(4))
    qed (rule nlookups_unknown [OF assms(1)])
    with False show ?thesis
      by (simp add: nlookups_unknown [OF assms(2)])
  qed
qed

lemma nlookups_upd:
  assumes "tables_ok f R" "tables_ok g R'" "idm g = (idm f)(a \<mapsto> j)" "lookm g = (lookm f)(a \<mapsto> c)"
    and "idm f a = None \<or> idm f a = Some j"
  shows "nlookups g = (nlookups f)(j := c)"
proof
  fix i
  have a: "idm g a = Some j"
    by (simp add: assms(3))
  consider "i = j" | b where "i \<noteq> j" "idm f b = Some i" | "i \<noteq> j" "i \<notin> ran (idm f)"
    unfolding ran_def by blast
  then show "nlookups g i = ((nlookups f)(j := c)) i"
  proof cases
    case 1
    then show ?thesis
      using nlookups_lookm [OF assms(2) a] by (simp add: assms(4))
  next
    case (2 b)
    then have "b \<noteq> a"
      using assms(5) by auto
    with 2 show ?thesis
      using nlookups_lookm [OF assms(1), of b i] nlookups_lookm [OF assms(2), of b i] by (simp add: assms(3,4))
  next
    case 3
    then have "i \<notin> ran (idm g)"
      by (auto simp: assms(3) ran_def)
    with 3 show ?thesis
      by (simp add: nlookups_unknown [OF assms(1)] nlookups_unknown [OF assms(2)])
  qed
qed

lemma set_same_core:
  assumes "fu_nodes f a = Some n" "nd_id n' = nd_id n" "nd_refctr n' = nd_refctr n" "nd_parent n' = nd_parent n"
    "nd_name n' = nd_name n"
  shows "tables_ok (set_node f a n') = tables_ok f" "entry (set_node f a n') = entry f"
proof -
  have same: "idm (set_node f a n') = idm f" "refm (set_node f a n') = refm f" "parm (set_node f a n') = parm f"
    "namem (set_node f a n') = namem f"
    using fields_at [OF assms(1)] assms(2-5) by (simp_all add: fun_upd_idem)
  show "tables_ok (set_node f a n') = tables_ok f"
    by (rule tables_ok_cong) (use same in simp_all)
  show "entry (set_node f a n') = entry f"
    unfolding entry_def [abs_def] same ..
qed

section \<open>find_node\<close>

text \<open>The last step of \<open>find_node\<close>: one more lookup.\<close>

lemma count_lookup_ok:
  assumes "tables_ok f R" "idm f a = Some j" "R a = 1" "\<And>b. b \<noteq> a \<Longrightarrow> R b = ext f b" "nlookups f j + 1 < 2 ^ 64"
    and "\<forall>h. finite (dom h) \<longrightarrow> fu_fresh f h \<notin> dom h"
  shows "\<exists>g. count_lookup f a = Inr (Some a, g) \<and> nodes_ok g \<and> idm g = idm f \<and> entry g = entry f \<and>
           nlookups g = (nlookups f)(j := nlookups f j + 1)"
proof -
  obtain n where n: "fu_nodes f a = Some n"
    using assms(2) by (auto elim: idm_nodeE)
  have j: "nd_nlookup n = nlookups f j"
    using nlookups_lookm [OF assms(1,2)] n by (simp add: lookm_def)
  let ?g = "set_node f a (n\<lparr>nd_nlookup := nlookups f j + 1\<rparr>)"
  have g: "count_lookup f a = Inr (Some a, ?g)"
    using n j assms(5) by (simp add: count_lookup_def deref_def)
  have ok: "tables_ok ?g = tables_ok f" "entry ?g = entry f"
    by (rule set_same_core [OF n]; simp)+
  have "ext ?g b = R b" for b
    using assms(3,4) by (cases "b = a") (simp_all add: ext_def)
  then have "ext ?g = R"
    by blast
  then have "nodes_ok ?g"
    using ok assms(1,6) by (simp add: nodes_ok_def)
  moreover have id: "idm ?g = (idm f)(a \<mapsto> j)" "idm ?g = idm f"
    using fields_at [OF n] assms(2) by (simp_all add: fun_upd_idem)
  moreover have "nlookups ?g = (nlookups f)(j := nlookups f j + 1)"
    using assms(1,2) id ok(1) by (intro nlookups_upd [OF assms(1), of ?g R a]) simp_all
  ultimately show ?thesis
    using g ok by blast
qed

definition counts_small :: "fuse \<Rightarrow> bool" where
  "counts_small f \<longleftrightarrow> (\<forall>a c. lookm f a = Some c \<longrightarrow> c + 1 < 2 ^ 64)"

lemma counts_smallD:
  assumes "counts_small f" "tables_ok f R"
  shows "nlookups f i + 1 < 2 ^ 64"
proof (cases "i \<in> ran (idm f)")
  case True
  then obtain a where "idm f a = Some i"
    by (auto simp: ran_def)
  then show ?thesis
    using assms nlookups_lookm [OF assms(2)] unfolding counts_small_def by blast
qed (simp add: nlookups_unknown [OF assms(2)])

lemma find_node_found:
  assumes "nodes_ok f" "counts_small f" "entry f i s j"
  shows "\<exists>a g. find_node k f i s = Some (Inr (Some a, g)) \<and> nodes_ok g \<and> idm g a = Some j \<and>
           dcache_of g = dc_lookup i s j (dcache_of f)"
proof -
  note ok = nodes_okD [OF assms(1)]
  obtain a p where a: "parm f a = Some p" "namem f a = Some s" "idm f p = Some i" "idm f a = Some j"
    using assms(3) by (auto simp: entry_def)
  have "0 < ext f a"
    using tables_okD(3) [OF ok] a(2) unfolding refs_ok_def by blast
  then have "ext f a = 1"
    using ext_le [of f a] by linarith
  moreover have "\<forall>h. finite (dom h) \<longrightarrow> fu_fresh f h \<notin> dom h"
    using assms(1) by (simp add: nodes_ok_def)
  ultimately obtain g where g: "count_lookup f a = Inr (Some a, g)" "nodes_ok g" "idm g = idm f" "entry g = entry f"
      "nlookups g = (nlookups f)(j := nlookups f j + 1)"
    using count_lookup_ok [OF ok a(4) _ _ counts_smallD [OF assms(2) ok]] by blast
  have "find_node k f i s = Some (Inr (Some a, g))"
    by (simp add: find_node_def lookup_node_found [OF ok a(1,3,2)] g(1))
  moreover have "dcache_of g = dc_lookup i s j (dcache_of f)"
    using assms(3) by (auto simp: dcache_of_def dc_lookup_def g(4,5))
  ultimately show ?thesis
    using g(2,3) a(4) by (intro exI [of _ a] exI [of _ g]) simp
qed

lemma find_chain_cong: "\<forall>a\<in>set as. h a = h' a \<Longrightarrow> find_chain h t as = find_chain h' t as"
  by (induction as) (auto split: option.splits intro!: bind_res_cong)

lemma get_node_unhashed:
  assumes "tables_ok f R" "a \<notin> dom (fu_nodes f)" "idm f p = Some i"
  shows "get_node (set_node f a n) i = Inr p"
proof -
  have "a \<notin> set (fu_id_table f k)" for k
    using fresh_fields(1) [OF assms(2)] by (auto simp: id_table_set [OF assms(1)])
  then have "get_node_nocheck (set_node f a n) i = get_node_nocheck f i"
    unfolding get_node_nocheck_def by (auto intro!: find_chain_cong)
  then show ?thesis
    using get_node_nocheck_found [OF assms(1,3)] by (simp add: get_node_def)
qed

lemma name_hash_nodes: "name_hash (f\<lparr>fu_nodes := h\<rparr>) = name_hash f"
  by (rule name_hash_size) simp

lemma hash_id_hashed:
  assumes "p \<noteq> a" "fu_nodes f p = Some pn"
  shows "hash_id (hashed (set_node f a (new_node c g)) a p i s) a = Inr (hashed (added f a c g) a p i s)"
  using assms by (simp add: hash_id_def deref_def hashed_def added_def Let_def set_node_def name_hash_nodes)

text \<open>The state in which \<open>find_node\<close> counts the first lookup of a new node.\<close>

lemma new_node_hashed:
  assumes "nodes_ok f" "room f" "idm f p = Some i" "NUL \<notin> set s" "\<not> (\<exists>j. entry f i s j)"
    and "a \<notin> dom (fu_nodes f)" "c \<notin> ran (idm f)" "fst (alloc (fu_mem f))"
  shows "hash_name (set_node f a (new_node c g)) a i s = Inr (0, hashed (set_node f a (new_node c g)) a p i s)"
    "tables_ok (hashed (added f a c g) a p i s) ((ext f)(a := 1))"
    "entry (hashed (added f a c g) a p i s) k t j \<longleftrightarrow> entry f k t j \<or> (k = i \<and> t = s \<and> j = c)"
    "idm (hashed (added f a c g) a p i s) = (idm f)(a \<mapsto> c)" "lookm (hashed (added f a c g) a p i s) = (lookm f)(a \<mapsto> 0)"
proof -
  note ok = nodes_okD [OF assms(1)]
  note fr = fresh_fields [OF assms(6)]
  obtain pn where pn: "fu_nodes f p = Some pn"
    using assms(3) by (auto elim: idm_nodeE)
  have "p \<noteq> a"
    using pn assms(6) by auto
  have small: "nd_refctr pn < INT_MAX"
    by (rule room_refctr [OF ok assms(2) pn ext_le])
  show "hash_name (set_node f a (new_node c g)) a i s = Inr (0, hashed (set_node f a (new_node c g)) a p i s)"
    using get_node_unhashed [OF ok assms(6,3)] \<open>p \<noteq> a\<close> pn small assms(8) by (intro hash_name_eq [where pn = pn]) auto
  let ?f = "added f a c g"
  have ok': "tables_ok ?f ((ext f)(a := 1))"
    by (rule added_ok [OF ok assms(6,7)])
  have f: "fu_nodes ?f a = Some (new_node c g)" "fu_nodes ?f p = Some pn" "idm ?f p = Some i" "idm ?f = (idm f)(a \<mapsto> c)"
      "parm ?f = parm f" "namem ?f = namem f" "lookm ?f = (lookm f)(a \<mapsto> 0)"
    using pn \<open>p \<noteq> a\<close> assms(3) fr by (auto simp: added_def fun_upd_idem)
  have ent: "entry ?f = entry f"
    using fr unfolding entry_def f [abs_def] fun_eq_iff
    by (metis fun_upd_other in_dom_fields(2) domIff named_child ok option.distinct(1))
  have "c \<noteq> FUSE_ROOT_ID"
    using assms(7) tables_okD(3) [OF ok] unfolding refs_ok_def ran_def by blast
  then show "tables_ok (hashed ?f a p i s) ((ext f)(a := 1))"
    using hashed_ok [OF ok' f(1) _ _ _ f(3) assms(4)] assms(5) ent by simp
  show "entry (hashed ?f a p i s) k t j \<longleftrightarrow> entry f k t j \<or> (k = i \<and> t = s \<and> j = c)"
    using hashed_entries [OF ok' f(1) _ f(3)] by (simp add: ent)
  show "idm (hashed ?f a p i s) = (idm f)(a \<mapsto> c)" "lookm (hashed ?f a p i s) = (lookm f)(a \<mapsto> 0)"
    by (simp_all add: hashed_fields [OF f(2,1)] f)
qed

lemma entry_same_fields:
  "parm g = parm f \<Longrightarrow> namem g = namem f \<Longrightarrow> idm g = idm f \<Longrightarrow> entry g = entry f"
  by (simp add: entry_def fun_eq_iff)

text \<open>Two states with the same nodes and tables.\<close>

definition same_tables :: "fuse \<Rightarrow> fuse \<Rightarrow> bool" where
  "same_tables f g \<longleftrightarrow>
     fu_nodes g = fu_nodes f \<and> fu_id_table g = fu_id_table f \<and> fu_id_table_size g = fu_id_table_size f \<and>
     fu_name_table g = fu_name_table f \<and> fu_name_table_size g = fu_name_table_size f \<and> fu_fresh g = fu_fresh f"

lemma same_tables_updates [simp]:
  "same_tables f (f\<lparr>fu_mem := m\<rparr>)" "same_tables f (f\<lparr>fu_mem := m, fu_ctr := c, fu_generation := h\<rparr>)"
  by (simp_all add: same_tables_def)

lemma same_nodes_dcache:
  assumes "nodes_ok f" "same_tables f g"
  shows "nodes_ok g" "dcache_of g = dcache_of f" "idm g = idm f" "lookm g = lookm f"
    "entry g = entry f"
proof -
  note eq = assms(2) [unfolded same_tables_def]
  have same: "idm g = idm f" "refm g = refm f" "parm g = parm f" "namem g = namem f" "lookm g = lookm f"
    using eq by (simp_all add: field_defs lookm_def)
  have "tables_ok g = tables_ok f"
    using eq by (intro tables_ok_cong [OF same(1-4)]) simp_all
  moreover have ent: "ext g = ext f" "entry g = entry f"
    using entry_same_fields [OF same(3,4,1)] by (simp_all add: ext_def [abs_def] same(5))
  moreover have "nlookups g = nlookups f"
    using eq by (intro HOL.ext) (simp only: nlookups_def get_node_nocheck_def)
  ultimately show "nodes_ok g" "dcache_of g = dcache_of f" "idm g = idm f" "lookm g = lookm f"
    "entry g = entry f"
    using assms(1) eq same(1,5) by (simp_all add: nodes_ok_def dcache_of_def)
qed

lemma free_new_node: "a \<notin> dom (fu_nodes f) \<Longrightarrow> fu_nodes (free_node ((set_node f a n)\<lparr>fu_mem := m\<rparr>) a) = fu_nodes f"
  by (auto simp: fun_upd_idem domIff)

text \<open>\<open>find_node\<close> from the call of \<open>hash_name\<close> on.\<close>

definition hash_new :: "fuse \<Rightarrow> nat \<Rightarrow> nat \<Rightarrow> nat \<Rightarrow> nat \<Rightarrow> string \<Rightarrow> (nat option \<times> fuse) res" where
  "hash_new f a c h i s =
     bind_res (hash_name (set_node f a (new_node c h)) a i s) (\<lambda>(x, f4).
       if x = -1 then Inr (None, free_node f4 a) else bind_res (hash_id f4 a) (\<lambda>f5. count_lookup f5 a))"

lemma hash_new_node:
  assumes "nodes_ok f" "room f" "idm f p = Some i" "NUL \<notin> set s" "\<not> (\<exists>j. entry f i s j)"
    and "a \<notin> dom (fu_nodes f)" "c \<notin> ran (idm f)"
  shows "\<exists>r g. hash_new f a c h i s = Inr (r, g) \<and>
           nodes_ok g \<and>
           (case r of None \<Rightarrow> dcache_of g = dcache_of f \<and> \<not> fst (alloc (fu_mem f))
            | Some b \<Rightarrow> idm g b = Some c \<and> dcache_of g = dc_lookup i s c (dcache_of f))"
proof (cases "fst (alloc (fu_mem f))")
  case False
  let ?f = "set_node f a (new_node c h)"
  have oom: "hash_name ?f a i s = Inr (-1, ?f\<lparr>fu_mem := snd (alloc (fu_mem f))\<rparr>)"
    using hash_name_oom [OF get_node_unhashed [OF nodes_okD [OF assms(1)] assms(6,3)]] False by simp
  let ?g = "free_node (?f\<lparr>fu_mem := snd (alloc (fu_mem f))\<rparr>) a"
  have "nodes_ok ?g" "dcache_of ?g = dcache_of f"
    using free_new_node [OF assms(6)] by (intro same_nodes_dcache [OF assms(1)]; simp add: same_tables_def)+
  then show ?thesis
    using False oom by (intro exI [of _ None] exI [of _ ?g]) (simp add: hash_new_def)
next
  case True
  note ok = nodes_okD [OF assms(1)]
  let ?g = "hashed (added f a c h) a p i s"
  note g = new_node_hashed [OF assms True, where g = h]
  obtain pn where pn: "fu_nodes f p = Some pn" "p \<noteq> a"
    using assms(3) fresh_fields(1) [OF assms(6)] by (metis idm_nodeE option.distinct(1))
  have cnt: "nlookups ?g = (nlookups f)(c := 0)"
    using fresh_fields(1) [OF assms(6)] by (intro nlookups_upd [OF ok g(2,4,5)]) simp
  have fresh: "\<forall>h. finite (dom h) \<longrightarrow> fu_fresh ?g h \<notin> dom h"
    using assms(1) by (simp add: nodes_ok_def hashed_tables added_def)
  have ext: "((ext f)(a := 1)) b = ext ?g b" if "b \<noteq> a" for b
    using that by (simp add: ext_def g(5))
  obtain g' where g': "count_lookup ?g a = Inr (Some a, g')" "nodes_ok g'" "idm g' = idm ?g" "entry g' = entry ?g"
      "nlookups g' = (nlookups ?g)(c := nlookups ?g c + 1)"
    using count_lookup_ok [OF g(2), of a c, OF _ _ ext _ fresh] g(4) cnt by auto
  have "dcache_of g' = dc_lookup i s c (dcache_of f)"
    using nlookups_unknown [OF ok assms(7)]
    by (auto simp: dcache_of_def dc_lookup_def g'(4,5) g(3) cnt)
  then show ?thesis
    using g(1) hash_id_hashed [OF pn(2,1)] g' g(4) by (intro exI [of _ "Some a"] exI [of _ g']) (simp add: hash_new_def)
qed

text \<open>\<open>find_node\<close> up to there.\<close>

lemma find_node_alloc:
  assumes "nodes_ok f" "room f" "lookup_node f i s = Inr None" "card (dom (fu_nodes f)) + 3 \<le> k" "fst (alloc (fu_mem f))"
  shows "\<exists>c h f2 a. same_tables f f2 \<and> fu_mem f2 = snd (alloc (fu_mem f)) \<and> c \<notin> ran (idm f) \<and> a \<notin> dom (fu_nodes f) \<and>
           find_node k f i s = Some (hash_new f2 a c h i s)"
proof -
  note ok = nodes_okD [OF assms(1)]
  define f1 where "f1 = f\<lparr>fu_mem := snd (alloc (fu_mem f))\<rparr>"
  have "card (dom (fu_nodes f1)) + 3 \<le> 2 ^ 32" "card (dom (fu_nodes f1)) + 3 \<le> k" "tables_ok f1 (ext f)"
    using assms(2,4) ok by (simp_all add: room_def INT_MAX_def f1_def)
  then obtain c h where c: "next_id k f1 = Some (Inr (c, f1\<lparr>fu_ctr := c, fu_generation := h\<rparr>))" "\<not> taken f1 c"
    using next_id_ok [of f1 "ext f" k] by blast
  define f2 where "f2 = f1\<lparr>fu_ctr := c, fu_generation := h\<rparr>"
  define a where "a = fu_fresh f2 (fu_nodes f2)"
  have "find_node k f i s = Some (hash_new f2 a c (fu_generation f2) i s)"
    using assms(3,5) c(1) unfolding find_node_def a_def hash_new_def f2_def [symmetric]
    by (simp add: Let_def split_beta flip: f1_def a_def)
  moreover have "c \<notin> ran (idm f)"
    using c(2) by (simp add: taken_def f1_def)
  moreover have "a \<notin> dom (fu_nodes f)"
    using assms(1) finite_nodes [OF ok] by (simp add: nodes_ok_def a_def f2_def f1_def)
  moreover have "same_tables f f2" "fu_mem f2 = snd (alloc (fu_mem f))"
    by (simp_all add: f2_def f1_def same_tables_def)
  ultimately show ?thesis
    by blast
qed

lemma find_node_new:
  assumes "nodes_ok f" "room f" "idm f p = Some i" "NUL \<notin> set s" "\<not> (\<exists>j. entry f i s j)"
    and "card (dom (fu_nodes f)) + 3 \<le> k"
  shows "\<exists>r g. find_node k f i s = Some (Inr (r, g)) \<and> nodes_ok g \<and>
           (case r of None \<Rightarrow> dcache_of g = dcache_of f \<and> (\<exists>t. oom (fu_mem f) t)
            | Some a \<Rightarrow> \<exists>j. idm g a = Some j \<and> j \<notin> ran (idm f) \<and> dcache_of g = dc_lookup i s j (dcache_of f))"
proof -
  have miss: "lookup_node f i s = Inr None"
    by (rule lookup_node_missing [OF nodes_okD [OF assms(1)] assms(4,5)])
  have oom: "\<exists>t. oom (fu_mem f) t" if "\<not> fst (alloc (fu_mem f)) \<or> \<not> fst (alloc (snd (alloc (fu_mem f))))"
    using that by (auto simp: alloc_def)
  show ?thesis
  proof (cases "fst (alloc (fu_mem f))")
    case False
    let ?g = "f\<lparr>fu_mem := snd (alloc (fu_mem f))\<rparr>"
    have "find_node k f i s = Some (Inr (None, ?g))"
      using False by (simp add: find_node_def miss split_beta Let_def)
    moreover have "nodes_ok ?g" "dcache_of ?g = dcache_of f"
      by (rule same_nodes_dcache [OF assms(1)]; simp)+
    ultimately show ?thesis
      using False oom by (intro exI [of _ None] exI [of _ ?g]) simp
  next
    case True
    obtain c h f2 a where f2: "same_tables f f2" and new: "fu_mem f2 = snd (alloc (fu_mem f))" "c \<notin> ran (idm f)"
        "a \<notin> dom (fu_nodes f)" and find: "find_node k f i s = Some (hash_new f2 a c h i s)"
      using find_node_alloc [OF assms(1,2) miss assms(6) True] by blast
    note same = same_nodes_dcache [OF assms(1) f2]
    have pre: "room f2" "idm f2 p = Some i" "\<not> (\<exists>j. entry f2 i s j)" "a \<notin> dom (fu_nodes f2)" "c \<notin> ran (idm f2)"
      using assms(2,3,5) f2 same(3,5) new(2,3) by (simp_all add: room_def same_tables_def)
    obtain r g where g: "hash_new f2 a c h i s = Inr (r, g)" "nodes_ok g"
        "case r of None \<Rightarrow> dcache_of g = dcache_of f2 \<and> \<not> fst (alloc (fu_mem f2))
         | Some b \<Rightarrow> idm g b = Some c \<and> dcache_of g = dc_lookup i s c (dcache_of f2)"
      using hash_new_node [OF same(1) pre(1,2) assms(4) pre(3-5), of h] by blast
    then show ?thesis
      using oom new find by (intro exI [of _ r] exI [of _ g]) (simp add: same(2) split: option.splits)
  qed
qed

section \<open>Losing names and lookups\<close>

lemma shrinks_lookups:
  assumes "tables_ok f R" "tables_ok g R'" "shrinks f g"
    and "\<And>b. b \<in> dom (fu_nodes f) \<Longrightarrow> b \<notin> dom (fu_nodes g) \<Longrightarrow> lookm f b = Some 0"
  shows "nlookups g = nlookups f" "b \<in> dom (idm g) \<Longrightarrow> ext g b = ext f b"
proof -
  have sub: "idm f b = Some i \<and> lookm g b = lookm f b" if "idm g b = Some i" for b i
  proof -
    have "b \<in> dom (lookm g)" "b \<in> dom (idm g)"
      using that by (auto simp: idm_def lookm_def)
    moreover have "idm g \<subseteq>\<^sub>m idm f" "lookm g \<subseteq>\<^sub>m lookm f"
      using assms(3) by (simp_all add: shrinks_def)
    ultimately have "idm g b = idm f b" "lookm g b = lookm f b"
      unfolding map_le_def by blast+
    with that show ?thesis
      by simp
  qed
  have zero: "nlookups f i = 0" if "idm f b = Some i" "idm g b = None" for b i
    using that assms(4) [of b] nlookups_lookm [OF assms(1) that(1)] by (auto simp: domIff idm_def)
  show "nlookups g = nlookups f"
    by (rule nlookups_eqI [OF assms(1,2) sub zero])
  show "ext g b = ext f b" if "b \<in> dom (idm g)"
    using that sub by (auto simp: ext_def)
qed

lemma ext_lookm: "b \<in> dom (fu_nodes f) \<Longrightarrow> ext f b = 0 \<Longrightarrow> lookm f b = Some 0"
  by (auto simp: ext_def lookm_def split: if_splits)

lemma unhash_dcache:
  assumes "nodes_ok f" "idm f a = Some j" "j \<noteq> FUSE_ROOT_ID"
  shows "\<exists>g. unhash_name f a = Inr g \<and> nodes_ok g \<and> unnamed f (ext f) a g \<and>
           dcache_of g = (dcache_of f)\<lparr>dc_entries := {e \<in> dc_entries (dcache_of f). snd (snd e) \<noteq> j}\<rparr>"
proof -
  note ok = nodes_okD [OF assms(1)]
  obtain g where g: "unhash_name f a = Inr g" "unnamed f (ext f) a g"
    using unhash_name_ok [OF ok assms(2,3)] by blast
  note un = g(2) [unfolded unnamed_def]
  have gone: "lookm f b = Some 0" if "b \<in> dom (fu_nodes f)" "b \<notin> dom (fu_nodes g)" for b
    using un that ext_lookm by blast
  have ok': "tables_ok g (ext f)" and sh: "shrinks f g"
    using un by blast+
  note same = shrinks_lookups [OF ok ok' sh gone]
  have "tables_ok g (ext g)"
    by (rule tables_ok_refs [OF ok']) (rule same(2))
  then have "nodes_ok g"
    using assms(1) sh by (simp add: nodes_ok_def shrinks_def)
  moreover have "nlookups g = nlookups f"
    by (rule same(1))
  then have "dcache_of g = (dcache_of f)\<lparr>dc_entries := {e \<in> dc_entries (dcache_of f). snd (snd e) \<noteq> j}\<rparr>"
    using unnamed_entries [OF ok g(2) assms(2)] by (auto simp: dcache_of_def)
  ultimately show ?thesis
    using g by blast
qed

lemma entry_target_unique:
  assumes "tables_ok f R" "entry f i s j" "entry f k t j"
  shows "k = i \<and> t = s"
proof -
  obtain a p b q where "parm f a = Some p" "namem f a = Some s" "idm f p = Some i" "idm f a = Some j"
    "parm f b = Some q" "namem f b = Some t" "idm f q = Some k" "idm f b = Some j"
    using assms(2,3) by (auto simp: entry_def)
  moreover from this have "a = b"
    using idm_inj [OF assms(1)] by blast
  ultimately show ?thesis
    by simp
qed

lemma entry_node:
  assumes "tables_ok f R" "entry f i s j"
  obtains a where "lookup_node f i s = Inr (Some a)" "idm f a = Some j" "j \<noteq> FUSE_ROOT_ID"
proof -
  obtain a p where a: "parm f a = Some p" "namem f a = Some s" "idm f p = Some i" "idm f a = Some j"
    using assms(2) by (auto simp: entry_def)
  then have "j \<noteq> FUSE_ROOT_ID"
    using named_child [OF assms(1) a(1)] by auto
  with a that show thesis
    using lookup_node_found [OF assms(1) a(1,3,2)] by blast
qed

lemma entry_target_iff:
  assumes "tables_ok f R" "entry f i s j" "e \<in> dc_entries (dcache_of f)"
  shows "snd (snd e) \<noteq> j \<longleftrightarrow> (fst e, fst (snd e)) \<noteq> (i, s)"
proof -
  obtain k t l where e: "e = (k, t, l)"
    by (cases e)
  with assms(3) have "entry f k t l"
    by (simp add: dcache_of_def)
  then have "l \<noteq> j \<longleftrightarrow> \<not> (k = i \<and> t = s)"
    using entry_unique [OF assms(1,2), of l] entry_target_unique [OF assms(1,2), of k t] assms(2) by blast
  then show ?thesis
    by (simp add: e)
qed

lemma filter_set_cong: "(\<And>e. e \<in> E \<Longrightarrow> P e \<longleftrightarrow> Q e) \<Longrightarrow> {e \<in> E. P e} = {e \<in> E. Q e}"
  by blast

lemma remove_node_ok:
  assumes "nodes_ok f" "NUL \<notin> set s"
  shows "\<exists>g. remove_node f i s = Inr g \<and> nodes_ok g \<and> dcache_of g = dc_remove i s (dcache_of f)"
proof (cases "\<exists>j. entry f i s j")
  case True
  note ok = nodes_okD [OF assms(1)]
  from True obtain j where j: "entry f i s j"
    by blast
  then obtain a where a: "lookup_node f i s = Inr (Some a)" "idm f a = Some j" "j \<noteq> FUSE_ROOT_ID"
    by (rule entry_node [OF ok])
  obtain g where "unhash_name f a = Inr g" "nodes_ok g"
      "dcache_of g = (dcache_of f)\<lparr>dc_entries := {e \<in> dc_entries (dcache_of f). snd (snd e) \<noteq> j}\<rparr>"
    using unhash_dcache [OF assms(1) a(2,3)] by blast
  moreover have "{e \<in> dc_entries (dcache_of f). snd (snd e) \<noteq> j} =
      {e \<in> dc_entries (dcache_of f). (fst e, fst (snd e)) \<noteq> (i, s)}"
    by (rule filter_set_cong) (rule entry_target_iff [OF ok j])
  ultimately show ?thesis
    using a(1) by (intro exI [of _ g]) (simp add: remove_node_def dc_remove_def)
next
  case False
  then have "dcache_of f = dc_remove i s (dcache_of f)"
    by (auto simp: dcache_of_def dc_remove_def)
  then show ?thesis
    using lookup_node_missing [OF nodes_okD [OF assms(1)] assms(2) False] assms(1) by (simp add: remove_node_def)
qed

text \<open>The last reference from outside is dropped.\<close>

lemma unreferenced_entries:
  assumes "tables_ok f R" "fu_nodes f a = Some n" "0 < R a" "nd_name n = None"
  shows "entry (unreferenced f a n) = entry f"
proof (cases "nd_refctr n = 1")
  case True
  have none: "parm f a = None" "namem f a = None"
    using fields_at [OF assms(2)] assms(4) unnamed_no_parent [OF assms(1), of a] by auto
  have same: "parm (unreferenced f a n) = parm f" "namem (unreferenced f a n) = namem f"
    using none unreferenced_shrinks(3,4) [OF assms(2)] by (simp_all add: fun_upd_idem)
  have other: "idm (unreferenced f a n) b = idm f b" if "b \<noteq> a" for b
    using unreferenced_shrinks(2) [OF assms(2) that] by (simp add: idm_def)
  have "idm (unreferenced f a n) p = idm f p" "idm (unreferenced f a n) b = idm f b" if "parm f b = Some p" for b p
    using that none(1) no_children(2) [OF assms(1,2) True assms(3), of b] other by (metis option.distinct(1))+
  then show ?thesis
    unfolding entry_def fun_eq_iff same by metis
next
  case False
  then show ?thesis
    using fields_at [OF assms(2)]
    by (intro entry_same_fields) (simp_all add: unreferenced_def Let_def fun_upd_idem)
qed

lemma unhash_unref:
  assumes "tables_ok f R" "idm f a = Some j" "j \<noteq> FUSE_ROOT_ID" "R a = 1"
  shows "\<exists>g. bind_res (unhash_name f a) (\<lambda>f2. unref_node f2 a) = Inr g \<and> tables_ok g (R(a := 0)) \<and> shrinks f g \<and>
           (\<forall>b\<in>dom (fu_nodes f). b \<noteq> a \<and> 0 < R b \<longrightarrow> b \<in> dom (fu_nodes g)) \<and>
           (\<forall>i s k. entry g i s k \<longleftrightarrow> entry f i s k \<and> k \<noteq> j)"
proof -
  obtain g where g: "unhash_name f a = Inr g" "unnamed f R a g"
    using unhash_name_ok [OF assms(1-3)] by blast
  note un = g(2) [unfolded unnamed_def]
  obtain n where "fu_nodes f a = Some n"
    using assms(2) by (auto elim: idm_nodeE)
  then obtain m where m: "fu_nodes g a = Some m"
    using un assms(4) by force
  have m0: "nd_name m = None"
    using un fields_at [OF m] by simp
  have okg: "tables_ok g R"
    using un by blast
  let ?h = "unreferenced g a m"
  have "unref_node g a = Inr ?h"
    by (rule unref_node_eq [OF m refctr_count(2) [OF okg m]]) (simp add: m0)
  moreover have "tables_ok ?h (R(a := 0))"
    using unreferenced_ok [OF okg m] assms(4) m0 by simp
  moreover have "shrinks f ?h"
    using un unreferenced_shrinks(1) [OF m] shrinks_trans by blast
  moreover have "b \<in> dom (fu_nodes ?h)" if "b \<in> dom (fu_nodes f)" "b \<noteq> a" "0 < R b" for b
    using un that unreferenced_shrinks(2) [OF m that(2)] by (metis domIff)
  moreover have "entry ?h i s k \<longleftrightarrow> entry f i s k \<and> k \<noteq> j" for i s k
    using unreferenced_entries [OF okg m _ m0] unnamed_entries [OF assms(1) g(2) assms(2)] assms(4) by simp
  ultimately show ?thesis
    using g(1) by (intro exI [of _ ?h]) simp
qed

lemma drop_last_lookup:
  assumes "nodes_ok f" "fu_nodes f a = Some n" "nd_id n \<noteq> FUSE_ROOT_ID" "nd_nlookup n \<noteq> 0"
  shows "\<exists>g. bind_res (unhash_name (set_node f a (n\<lparr>nd_nlookup := 0\<rparr>)) a) (\<lambda>f2. unref_node f2 a) = Inr g \<and> nodes_ok g \<and>
           (\<forall>i s k. entry g i s k \<longleftrightarrow> entry f i s k \<and> k \<noteq> nd_id n) \<and> nlookups g = (nlookups f)(nd_id n := 0)"
proof -
  let ?f1 = "set_node f a (n\<lparr>nd_nlookup := 0\<rparr>)"
  note ok = nodes_okD [OF assms(1)]
  have same: "tables_ok ?f1 = tables_ok f" "entry ?f1 = entry f"
    by (rule set_same_core [OF assms(2)]; simp)+
  have ok1: "tables_ok ?f1 (ext f)" and R: "ext f a = 1"
    using ok same(1) assms(2,4) by (simp_all add: ext_def lookm_def)
  have id1: "idm ?f1 a = Some (nd_id n)" "idm ?f1 = (idm f)(a \<mapsto> nd_id n)" "idm f a = Some (nd_id n)"
    using fields_at [OF assms(2)] by simp_all
  obtain h where h: "bind_res (unhash_name ?f1 a) (\<lambda>f2. unref_node f2 a) = Inr h" "tables_ok h ((ext f)(a := 0))" "shrinks ?f1 h"
      "\<forall>b\<in>dom (fu_nodes ?f1). b \<noteq> a \<and> 0 < ext f b \<longrightarrow> b \<in> dom (fu_nodes h)"
      "\<forall>i s k. entry h i s k \<longleftrightarrow> entry ?f1 i s k \<and> k \<noteq> nd_id n"
    using unhash_unref [OF ok1 id1(1) assms(3) R] by blast
  have gone: "lookm ?f1 b = Some 0" if b: "b \<in> dom (fu_nodes ?f1)" "b \<notin> dom (fu_nodes h)" for b
  proof (cases "b = a")
    case False
    then have "ext f b = 0" "b \<in> dom (fu_nodes f)"
      using h(4) b by auto
    then show ?thesis
      using ext_lookm [of b f] False by simp
  qed simp
  note cnt = shrinks_lookups [OF ok1 h(2,3) gone]
  have ex: "ext h b = ((ext f)(a := 0)) b" if "b \<in> dom (idm h)" for b
    using cnt(2) [OF _ _ that] by (simp add: ext_def)
  have "tables_ok h (ext h)"
    by (rule tables_ok_refs [OF h(2)]) (rule ex)
  then have "nodes_ok h"
    using assms(1) h(3) by (simp add: nodes_ok_def shrinks_def)
  moreover have "nlookups ?f1 = (nlookups f)(nd_id n := 0)"
    using id1 by (intro nlookups_upd [OF ok ok1 id1(2)]) simp_all
  then have "nlookups h = (nlookups f)(nd_id n := 0)"
    using cnt(1) by simp
  ultimately show ?thesis
    using h(1,5) same(2) by (intro exI [of _ h]) simp
qed

lemma forget_node_ok:
  assumes "nodes_ok f" "j \<noteq> FUSE_ROOT_ID" "0 < nlookups f j" "n \<le> nlookups f j"
  shows "\<exists>g. forget_node f j n = Inr g \<and> nodes_ok g \<and> dcache_of g = dc_forget j n (dcache_of f)"
proof -
  note ok = nodes_okD [OF assms(1)]
  obtain a where a: "idm f a = Some j"
    by (rule nlookups_pos [OF ok assms(3)])
  obtain nd where nd: "fu_nodes f a = Some nd" "nd_id nd = j"
    using a by (auto elim: idm_nodeE)
  have c: "nd_nlookup nd = nlookups f j"
    using nlookups_lookm [OF ok a] nd(1) by (simp add: lookm_def)
  have run: "forget_node f j n =
      (if nlookups f j = n then bind_res (unhash_name (set_node f a (nd\<lparr>nd_nlookup := 0\<rparr>)) a) (\<lambda>f2. unref_node f2 a)
       else Inr (set_node f a (nd\<lparr>nd_nlookup := nlookups f j - n\<rparr>)))"
    using assms(2,4) nd(1) c by (simp add: forget_node_def get_node_found [OF ok a] deref_def Let_def)
  show ?thesis
  proof (cases "nlookups f j = n")
    case True
    then obtain g where "forget_node f j n = Inr g" "nodes_ok g"
      "\<forall>i s k. entry g i s k \<longleftrightarrow> entry f i s k \<and> k \<noteq> j" "nlookups g = (nlookups f)(j := 0)"
      using drop_last_lookup [OF assms(1) nd(1)] nd(2) assms(2,3) c run by auto
    with True show ?thesis
      by (intro exI [of _ g]) (auto simp: dcache_of_def dc_forget_def)
  next
    case False
    let ?g = "set_node f a (nd\<lparr>nd_nlookup := nlookups f j - n\<rparr>)"
    have same: "tables_ok ?g = tables_ok f" "entry ?g = entry f"
      by (rule set_same_core [OF nd(1)]; simp)+
    have "ext ?g b = ext f b" for b
      using False assms(3,4) nlookups_lookm [OF ok a] by (simp add: ext_def)
    then have "ext ?g = ext f"
      by blast
    then have "nodes_ok ?g"
      using assms(1) same(1) by (simp add: nodes_ok_def)
    moreover have "nlookups ?g = (nlookups f)(j := nlookups f j - n)"
      using a nd(2) by (intro nlookups_upd [OF ok nodes_okD [OF \<open>nodes_ok ?g\<close>], of a]) simp_all
    ultimately show ?thesis
      using False run same(2) by (intro exI [of _ ?g]) (auto simp: dcache_of_def dc_forget_def)
  qed
qed

section \<open>rename_node\<close>

lemma unnamed_keeps:
  assumes "unnamed f (ext f) a g" "b \<in> dom (fu_nodes f)" "0 < ext f b"
  shows "b \<in> dom (fu_nodes g)" "ext g b = ext f b" "idm g b = idm f b"
proof -
  show b: "b \<in> dom (fu_nodes g)"
    using assms by (simp add: unnamed_def)
  then have "b \<in> dom (idm g)" "b \<in> dom (lookm g)"
    by (auto simp: idm_def lookm_def)
  moreover have "idm g \<subseteq>\<^sub>m idm f" "lookm g \<subseteq>\<^sub>m lookm f"
    using assms(1) by (simp_all add: unnamed_def shrinks_def)
  ultimately have "idm g b = idm f b" "lookm g b = lookm f b"
    unfolding map_le_def by blast+
  then show "ext g b = ext f b" "idm g b = idm f b"
    by (simp_all add: ext_def)
qed

lemma named_ext:
  assumes "nodes_ok f" "entry f i s j" "idm f a = Some j"
  shows "0 < ext f a" "a \<in> dom (fu_nodes f)" "j \<noteq> FUSE_ROOT_ID"
proof -
  note ok = nodes_okD [OF assms(1)]
  obtain b p where b: "parm f b = Some p" "namem f b = Some s" "idm f b = Some j"
    using assms(2) by (auto simp: entry_def)
  then have "b = a"
    using idm_inj [OF ok] assms(3) by blast
  then show "0 < ext f a" "a \<in> dom (fu_nodes f)" "j \<noteq> FUSE_ROOT_ID"
    using b tables_okD(3) [OF ok] named_child [OF ok b(1)] unfolding refs_ok_def by (auto simp: idm_def)
qed

text \<open>The node at the new name, if there is one, and the moved node lose their names.\<close>

lemma rename_unhash:
  assumes "nodes_ok f" "entry f i s j" "idm f a = Some j" "NUL \<notin> set s'"
  shows "\<exists>r f1 f2. lookup_node f i' s' = Inr r \<and> (r \<noteq> None \<longleftrightarrow> (\<exists>k. entry f i' s' k)) \<and>
           (case r of None \<Rightarrow> Inr f | Some b \<Rightarrow> unhash_name f b) = Inr f1 \<and> unhash_name f1 a = Inr f2 \<and>
           nodes_ok f2 \<and> shrinks f f2 \<and> namem f2 a = None \<and> nlookups f2 = nlookups f \<and>
           (\<forall>b\<in>dom (fu_nodes f). 0 < ext f b \<longrightarrow> b \<in> dom (fu_nodes f2) \<and> idm f2 b = idm f b) \<and>
           dc_entries (dcache_of f2) =
             {x \<in> dc_entries (dcache_of f). (fst x, fst (snd x)) \<noteq> (i, s) \<and> (fst x, fst (snd x)) \<noteq> (i', s')}"
proof (cases "\<exists>k. entry f i' s' k")
  case False
  note ok = nodes_okD [OF assms(1)]
  obtain g where g: "unhash_name f a = Inr g" "nodes_ok g" "unnamed f (ext f) a g"
      "dcache_of g = (dcache_of f)\<lparr>dc_entries := {e \<in> dc_entries (dcache_of f). snd (snd e) \<noteq> j}\<rparr>"
    using unhash_dcache [OF assms(1,3) named_ext(3) [OF assms(1-3)]] by blast
  have "dc_entries (dcache_of g) = {e \<in> dc_entries (dcache_of f). snd (snd e) \<noteq> j}"
    by (simp add: g(4))
  also have "\<dots> = {x \<in> dc_entries (dcache_of f). (fst x, fst (snd x)) \<noteq> (i, s) \<and> (fst x, fst (snd x)) \<noteq> (i', s')}"
  proof (rule filter_set_cong)
    fix e assume e: "e \<in> dc_entries (dcache_of f)"
    then have "(fst e, fst (snd e)) \<noteq> (i', s')"
      using False by (auto simp: dcache_of_def)
    with entry_target_iff [OF ok assms(2) e]
    show "snd (snd e) \<noteq> j \<longleftrightarrow> (fst e, fst (snd e)) \<noteq> (i, s) \<and> (fst e, fst (snd e)) \<noteq> (i', s')"
      by blast
  qed
  finally have ents: "dc_entries (dcache_of g) =
      {x \<in> dc_entries (dcache_of f). (fst x, fst (snd x)) \<noteq> (i, s) \<and> (fst x, fst (snd x)) \<noteq> (i', s')}" .
  have "nlookups g = nlookups f"
    using arg_cong [OF g(4), of dc_count] by (simp add: dcache_of_def)
  moreover have "shrinks f g" "namem g a = None"
    using g(3) by (simp_all add: unnamed_def)
  ultimately show ?thesis
    using False g(1,2) ents unnamed_keeps [OF g(3)] lookup_node_missing [OF ok assms(4) False]
    by (intro exI [of _ None] exI [of _ f] exI [of _ g]) simp
next
  case True
  note ok = nodes_okD [OF assms(1)]
  from True obtain j' where j': "entry f i' s' j'"
    by blast
  obtain b where b: "lookup_node f i' s' = Inr (Some b)" "idm f b = Some j'" "j' \<noteq> FUSE_ROOT_ID"
    using j' by (rule entry_node [OF ok])
  obtain h where h: "unhash_name f b = Inr h" "nodes_ok h" "unnamed f (ext f) b h"
      "dcache_of h = (dcache_of f)\<lparr>dc_entries := {e \<in> dc_entries (dcache_of f). snd (snd e) \<noteq> j'}\<rparr>"
    using unhash_dcache [OF assms(1) b(2,3)] by blast
  have a: "idm h a = Some j"
    using unnamed_keeps(3) [OF h(3)] named_ext [OF assms(1-3)] assms(3) by simp
  obtain g where g: "unhash_name h a = Inr g" "nodes_ok g" "unnamed h (ext h) a g"
      "dcache_of g = (dcache_of h)\<lparr>dc_entries := {e \<in> dc_entries (dcache_of h). snd (snd e) \<noteq> j}\<rparr>"
    using unhash_dcache [OF h(2) a named_ext(3) [OF assms(1-3)]] by blast
  have "dc_entries (dcache_of g) =
      {x \<in> dc_entries (dcache_of f). (fst x, fst (snd x)) \<noteq> (i, s) \<and> (fst x, fst (snd x)) \<noteq> (i', s')}"
  proof -
    have "dc_entries (dcache_of g) = {e \<in> dc_entries (dcache_of f). snd (snd e) \<noteq> j' \<and> snd (snd e) \<noteq> j}"
      by (auto simp: g(4) h(4))
    also have "\<dots> = {x \<in> dc_entries (dcache_of f). (fst x, fst (snd x)) \<noteq> (i, s) \<and> (fst x, fst (snd x)) \<noteq> (i', s')}"
      using entry_target_iff [OF ok assms(2)] entry_target_iff [OF ok j'] by (intro filter_set_cong) blast
    finally show ?thesis .
  qed
  moreover have "nlookups g = nlookups f"
    using arg_cong [OF g(4), of dc_count] arg_cong [OF h(4), of dc_count] by (simp add: dcache_of_def)
  moreover have "shrinks f g" "namem g a = None"
    using h(3) g(3) shrinks_trans [of f h g] by (simp_all add: unnamed_def)
  moreover have "c \<in> dom (fu_nodes g) \<and> idm g c = idm f c" if "c \<in> dom (fu_nodes f)" "0 < ext f c" for c
    using unnamed_keeps [OF h(3) that] unnamed_keeps [OF g(3), of c] that(2) by simp
  ultimately show ?thesis
    using True g(1,2) h(1) b(1) by (intro exI [of _ "Some b"] exI [of _ h] exI [of _ g]) simp
qed

text \<open>The moved node gets its new name.\<close>

lemma rehash:
  assumes "nodes_ok f" "idm f a = Some j" "j \<noteq> FUSE_ROOT_ID" "namem f a = None" "0 < ext f a" "idm f p = Some i" "room f"
    and "NUL \<notin> set s" "\<not> (\<exists>k. entry f i s k)"
  shows "\<exists>e g. hash_name f a i s = Inr (e, g) \<and> nodes_ok g \<and> idm g a = Some j \<and>
           (if fst (alloc (fu_mem f))
            then e = 0 \<and> dcache_of g = (dcache_of f)\<lparr>dc_entries := insert (i, s, j) (dc_entries (dcache_of f))\<rparr>
            else e = -1 \<and> dcache_of g = dcache_of f)"
proof (cases "fst (alloc (fu_mem f))")
  case False
  let ?g = "f\<lparr>fu_mem := snd (alloc (fu_mem f))\<rparr>"
  have "nodes_ok ?g" "dcache_of ?g = dcache_of f"
    by (rule same_nodes_dcache [OF assms(1)]; simp)+
  with False hash_name_oom [OF get_node_found [OF nodes_okD [OF assms(1)] assms(6)] False] assms(2) show ?thesis
    by simp
next
  case True
  note ok = nodes_okD [OF assms(1)]
  obtain n where n: "fu_nodes f a = Some n" "nd_id n = j" "nd_name n = None"
    using assms(2,4) by (metis idm_nodeE)
  obtain pn where pn: "fu_nodes f p = Some pn"
    using assms(6) by (auto elim: idm_nodeE)
  let ?g = "hashed f a p i s"
  have run: "hash_name f a i s = Inr (0, ?g)"
    by (rule hash_name_eq [OF get_node_found [OF ok assms(6)] pn n(1) room_refctr [OF ok assms(7) pn ext_le] True])
  have okg: "tables_ok ?g (ext f)"
    using n(2) assms(3) by (intro hashed_ok [OF ok n(1,3) _ assms(5,6,8,9)]) blast
  note fields = hashed_fields [OF pn n(1), where i = i and s = s]
  have "ext ?g = ext f"
    by (rule HOL.ext) (simp add: ext_def fields(5))
  then have "nodes_ok ?g"
    using okg assms(1) by (simp add: nodes_ok_def hashed_tables)
  moreover have "nlookups ?g = nlookups f"
    by (rule nlookups_eqI [OF ok okg]) (simp_all add: fields)
  moreover have "entry ?g k t l \<longleftrightarrow> entry f k t l \<or> (k = i \<and> t = s \<and> l = j)" for k t l
    using hashed_entries [OF ok n(1,3) assms(6)] n(2) by simp
  ultimately show ?thesis
    using True run assms(2) by (intro exI [of _ 0] exI [of _ ?g]) (auto simp: dcache_of_def fields(1))
qed

lemma rename_keeps:
  assumes "nodes_ok f" "nodes_ok f2" "nlookups f2 = nlookups f"
    and "\<forall>b\<in>dom (fu_nodes f). 0 < ext f b \<longrightarrow> b \<in> dom (fu_nodes f2) \<and> idm f2 b = idm f b"
    and "idm f a = Some j" "0 < ext f a \<or> 0 < nlookups f j"
  shows "idm f2 a = Some j" "0 < ext f2 a"
proof -
  have look: "lookm f a = Some (nlookups f j)" and a: "a \<in> dom (fu_nodes f)"
    using nlookups_lookm [OF nodes_okD [OF assms(1)] assms(5)] assms(5) by (auto simp: idm_def)
  then have pos: "0 < ext f a" "0 < nlookups f j"
    using assms(6) by (auto simp: ext_def split: if_splits)
  with a assms(4,5) show id2: "idm f2 a = Some j"
    by simp
  show "0 < ext f2 a"
    using nlookups_lookm [OF nodes_okD [OF assms(2)] id2] pos(2) assms(3) by (simp add: ext_def)
qed

text \<open>The other fields of a node do not matter.\<close>

lemma set_other_fields:
  assumes "nodes_ok f" "fu_nodes f a = Some n" "nd_id n' = nd_id n" "nd_refctr n' = nd_refctr n" "nd_parent n' = nd_parent n"
    "nd_name n' = nd_name n" "nd_nlookup n' = nd_nlookup n"
  shows "nodes_ok (set_node f a n')" "dcache_of (set_node f a n') = dcache_of f" "idm (set_node f a n') = idm f"
    "lookm (set_node f a n') = lookm f" "dom (fu_nodes (set_node f a n')) = dom (fu_nodes f)"
proof -
  let ?g = "set_node f a n'"
  note same = set_same_core [OF assms(2-6)]
  show maps: "idm ?g = idm f" "lookm ?g = lookm f" "dom (fu_nodes ?g) = dom (fu_nodes f)"
    using assms(2,3,7) by (auto simp: idm_def lookm_def)
  have "ext ?g = ext f"
    by (rule HOL.ext) (simp only: ext_def maps)
  then show ok: "nodes_ok ?g"
    using assms(1) same(1) by (simp add: nodes_ok_def)
  have "nlookups ?g = nlookups f"
    by (rule nlookups_eqI [OF nodes_okD [OF assms(1)] nodes_okD [OF ok]]) (simp_all add: maps del: fields_set_node lookm_updates)
  then show "dcache_of ?g = dcache_of f"
    using same(2) by (simp add: dcache_of_def)
qed

lemma dc_rename_moved:
  assumes "{j. (i, s, j) \<in> dc_entries d} = {j}"
    and "e = {x \<in> dc_entries d. (fst x, fst (snd x)) \<noteq> (i, s) \<and> (fst x, fst (snd x)) \<noteq> (i', s')}"
  shows "d\<lparr>dc_entries := insert (i', s', j) e\<rparr> = dc_rename i s i' s' d" "d\<lparr>dc_entries := e\<rparr> = dc_remove i s (dc_remove i' s' d)"
  unfolding dc_rename_def dc_remove_def assms Let_def
  by (auto intro!: arg_cong [where f = "\<lambda>e. d\<lparr>dc_entries := e\<rparr>"])

text \<open>
  \<open>rename_node\<close>. When the name cannot be stored, the moved node stays without one: its path is then
  unknown, although the file system has already renamed the file.
\<close>

definition renamed :: "fuse \<Rightarrow> nat \<Rightarrow> string \<Rightarrow> nat \<Rightarrow> string \<Rightarrow> int \<Rightarrow> fuse \<Rightarrow> bool" where
  "renamed f i s i' s' e g \<longleftrightarrow>
     e = 0 \<and> dcache_of g = dc_rename i s i' s' (dcache_of f) \<or>
     e = - EBUSY \<and> (\<exists>k. entry f i' s' k) \<and> g = f \<or>
     e = - ENOMEM \<and> (\<exists>t. oom (fu_mem f) t) \<and> dcache_of g = dc_remove i s (dc_remove i' s' (dcache_of f))"

lemma rename_moved:
  assumes "nodes_ok f" "entry f i s j" "idm f a = Some j" "0 < nlookups f i'" "room f" "NUL \<notin> set s'"
    and f2: "nodes_ok f2" "shrinks f f2" "namem f2 a = None" "nlookups f2 = nlookups f"
      "\<forall>b\<in>dom (fu_nodes f). 0 < ext f b \<longrightarrow> b \<in> dom (fu_nodes f2) \<and> idm f2 b = idm f b"
      "dc_entries (dcache_of f2) =
         {x \<in> dc_entries (dcache_of f). (fst x, fst (snd x)) \<noteq> (i, s) \<and> (fst x, fst (snd x)) \<noteq> (i', s')}"
  shows "\<exists>e g. hash_name f2 a i' s' = Inr (e, g) \<and> nodes_ok g \<and> idm g a = Some j \<and>
           (e = -1 \<longrightarrow> renamed f i s i' s' (- ENOMEM) g) \<and> (e \<noteq> -1 \<longrightarrow> renamed f i s i' s' 0 g)"
proof -
  note ok = nodes_okD [OF assms(1)]
  note named = named_ext [OF assms(1-3)]
  obtain p where p: "idm f p = Some i'"
    by (rule nlookups_pos [OF ok assms(4)])
  note keeps = rename_keeps [OF assms(1) f2(1,4,5)]
  have pre: "idm f2 a = Some j" "idm f2 p = Some i'" "0 < ext f2 a"
    by (rule keeps [OF assms(3) disjI1 [OF named(1)]] keeps(1) [OF p disjI2 [OF assms(4)]])+
  have room: "room f2"
    using assms(5) card_mono [OF finite_nodes [OF ok] shrinks_nodes [OF f2(2)]] by (simp add: room_def)
  have "(i', s', k) \<notin> dc_entries (dcache_of f2)" for k
    unfolding f2(6) by simp
  then have free: "\<not> (\<exists>k. entry f2 i' s' k)"
    by (simp add: dcache_of_def)
  obtain e g where g: "hash_name f2 a i' s' = Inr (e, g)" "nodes_ok g" "idm g a = Some j"
      "if fst (alloc (fu_mem f2))
       then e = 0 \<and> dcache_of g = (dcache_of f2)\<lparr>dc_entries := insert (i', s', j) (dc_entries (dcache_of f2))\<rparr>
       else e = -1 \<and> dcache_of g = dcache_of f2"
    using rehash [OF f2(1) pre(1) named(3) f2(3) pre(3,2) room assms(6) free] by blast
  have d2: "(dcache_of f2)\<lparr>dc_entries := E\<rparr> = (dcache_of f)\<lparr>dc_entries := E\<rparr>" for E
    using f2(4) by (simp add: dcache_of_def)
  have "entry f i s k \<longleftrightarrow> k = j" for k
    using assms(2) entry_unique [OF ok assms(2), of k] by blast
  then have "{k. (i, s, k) \<in> dc_entries (dcache_of f)} = {j}"
    by (simp add: dcache_of_def)
  note dc = dc_rename_moved [OF this f2(6)]
  have rem: "dcache_of f2 = dc_remove i s (dc_remove i' s' (dcache_of f))"
    using dc(2) d2 [of "dc_entries (dcache_of f2)"] by simp
  show ?thesis
  proof (cases "fst (alloc (fu_mem f2))")
    case True
    with g(4) dc(1) have "e = 0" "dcache_of g = dc_rename i s i' s' (dcache_of f)"
      by (simp_all add: d2)
    then have "renamed f i s i' s' 0 g" "e \<noteq> -1"
      unfolding renamed_def by simp_all
    with g(1-3) show ?thesis
      by blast
  next
    case False
    with g(4) rem have "e = -1" "dcache_of g = dc_remove i s (dc_remove i' s' (dcache_of f))"
      by simp_all
    moreover have "\<exists>t. oom (fu_mem f) t"
      using False f2(2) by (auto simp: shrinks_def alloc_def)
    ultimately have "renamed f i s i' s' (- ENOMEM) g" "e = -1"
      unfolding renamed_def by simp_all
    with g(1-3) show ?thesis
      by blast
  qed
qed

lemma rename_node_ok:
  assumes "nodes_ok f" "NUL \<notin> set s" "NUL \<notin> set s'" "0 < nlookups f i'" "room f"
  shows "\<exists>e g. rename_node f i s i' s' hide = Inr (e, g) \<and> nodes_ok g \<and> renamed f i s i' s' e g \<and>
           (e = - EBUSY \<longleftrightarrow> hide \<and> (\<exists>j. entry f i s j) \<and> (\<exists>k. entry f i' s' k))"
proof (cases "\<exists>j. entry f i s j")
  case False
  note ok = nodes_okD [OF assms(1)]
  have "\<exists>r. lookup_node f i' s' = Inr r"
    using lookup_node_missing [OF ok assms(3), of i'] entry_node [OF ok, of i' s'] by metis
  moreover have "dc_rename i s i' s' (dcache_of f) = dcache_of f"
    using False by (simp add: dc_rename_def dcache_of_def)
  ultimately show ?thesis
    using lookup_node_missing [OF ok assms(2) False] assms(1) False
    by (intro exI [of _ 0] exI [of _ f]) (auto simp: rename_node_def renamed_def EBUSY_def)
next
  case True
  then obtain j where j: "entry f i s j"
    by blast
  then obtain a where a: "lookup_node f i s = Inr (Some a)" "idm f a = Some j"
    by (rule entry_node [OF nodes_okD [OF assms(1)]])
  obtain r f1 f2 where r: "lookup_node f i' s' = Inr r" "r \<noteq> None \<longleftrightarrow> (\<exists>k. entry f i' s' k)"
      "(case r of None \<Rightarrow> Inr f | Some b \<Rightarrow> unhash_name f b) = Inr f1" "unhash_name f1 a = Inr f2"
    and f2: "nodes_ok f2" "shrinks f f2" "namem f2 a = None" "nlookups f2 = nlookups f"
      "\<forall>b\<in>dom (fu_nodes f). 0 < ext f b \<longrightarrow> b \<in> dom (fu_nodes f2) \<and> idm f2 b = idm f b"
      "dc_entries (dcache_of f2) =
         {x \<in> dc_entries (dcache_of f). (fst x, fst (snd x)) \<noteq> (i, s) \<and> (fst x, fst (snd x)) \<noteq> (i', s')}"
    using rename_unhash [OF assms(1) j a(2) assms(3), of i'] by blast
  obtain e g where g: "hash_name f2 a i' s' = Inr (e, g)" "nodes_ok g" "idm g a = Some j"
      "e = -1 \<longrightarrow> renamed f i s i' s' (- ENOMEM) g" "e \<noteq> -1 \<longrightarrow> renamed f i s i' s' 0 g"
    using rename_moved [OF assms(1) j a(2) assms(4,5,3) f2] by blast
  obtain n where n: "fu_nodes g a = Some n"
    using g(3) by (auto elim: idm_nodeE)
  let ?h = "set_node g a (n\<lparr>nd_is_hidden := True\<rparr>)"
  have run: "rename_node f i s i' s' hide =
      (if r \<noteq> None \<and> hide then Inr (- EBUSY, f)
       else if e = -1 then Inr (- ENOMEM, g) else if hide then Inr (0, ?h) else Inr (0, g))"
    using a(1) r(1,3,4) g(1) n by (cases r) (simp_all add: rename_node_def deref_def)
  have h: "nodes_ok ?h" "dcache_of ?h = dcache_of g"
    by (rule set_other_fields [OF g(2) n]; simp)+
  show ?thesis
    unfolding run using assms(1) r(2) g(2,4,5) h True by (auto simp: renamed_def EBUSY_def ENOMEM_def)
qed

end
