(* ===== verification/Fuse_Paths.thy ===== *)
theory Fuse_Paths
  imports Fuse_Node_Ops
begin

text \<open>
  The paths that libfuse passes to the file system, and the kernel's use of the node tables as a state
  machine: from the tables that \<open>fuse_new\<close> sets up, any sequence of calls that holds the directories it
  names and forgets no more lookups than it made is served without an abort.
\<close>

section \<open>Paths\<close>

inductive has_path :: "fuse \<Rightarrow> nat \<Rightarrow> string \<Rightarrow> bool" for f where
  root: "has_path f FUSE_ROOT_ID []"
| child: "has_path f i s \<Longrightarrow> entry f i n j \<Longrightarrow> has_path f j (s @ slash # n)"

lemma entry_nodes:
  assumes "tables_ok f R" "entry f i s j" "idm f a = Some j"
  obtains p n where "fu_nodes f a = Some n" "nd_id n = j" "nd_parent n = Some p" "nd_name n = Some s" "idm f p = Some i"
    "j \<noteq> FUSE_ROOT_ID"
proof -
  obtain b p where b: "parm f b = Some p" "namem f b = Some s" "idm f p = Some i" "idm f b = Some j"
    using assms(2) by (auto simp: entry_def)
  then have "b = a"
    using idm_inj [OF assms(1)] assms(3) by blast
  then obtain n where "fu_nodes f a = Some n" "nd_id n = j" "nd_parent n = Some p" "nd_name n = Some s"
    using b by (metis idm_nodeE)
  moreover have "j \<noteq> FUSE_ROOT_ID"
    by (rule named_child [OF assms(1) b(1)]) (use b(4) in simp)
  ultimately show thesis
    using that b(3) by blast
qed

lemma path_up_has_path:
  assumes "tables_ok f R" "has_path f i s" "idm f a = Some i"
  shows "path_up f (Some a) (pos, t) = Inr (if length s \<le> pos then Some (s @ t) else None)"
  using assms(2,3)
proof (induction arbitrary: a pos t rule: has_path.induct)
  case root
  then show ?case
    by (auto elim: idm_nodeE)
next
  case (child i s n j)
  obtain p nd where nd: "fu_nodes f a = Some nd" "nd_id nd = j" "nd_parent nd = Some p" "nd_name nd = Some n"
      "idm f p = Some i" "j \<noteq> FUSE_ROOT_ID"
    by (rule entry_nodes [OF assms(1) child.hyps(2) child.prems])
  then show ?case
    using child.IH [OF nd(5)] by (auto simp: add_name_def)
qed

lemma named_parent:
  assumes "tables_ok f R" "namem f a = Some s" "idm f a \<noteq> Some FUSE_ROOT_ID"
  obtains p i where "parm f a = Some p" "idm f p = Some i"
proof -
  obtain p where p: "parm f a = Some p"
    using tables_okD(2) [OF assms(1)] assms(2,3) unfolding names_ok_def by blast
  show thesis
    by (rule named_child [OF assms(1) p]) (rule that [OF p])
qed

lemma path_up_found:
  assumes "tables_ok f R" "idm f a = Some i"
  shows "\<exists>r. path_up f (Some a) ps = Inr r \<and> (\<forall>u. r = Some u \<longrightarrow> (\<exists>s. has_path f i s \<and> u = s @ snd ps))"
  using assms(2)
proof (induction "fst ps" arbitrary: a i ps rule: less_induct)
  case less
  obtain n where n: "fu_nodes f a = Some n" "nd_id n = i" "parm f a = nd_parent n" "namem f a = nd_name n"
    using less.prems by (metis idm_nodeE)
  show ?case
  proof (cases "i = FUSE_ROOT_ID")
    case True
    then show ?thesis
      using n has_path.root by (auto intro!: exI [of _ "[]"])
  next
    case False
    show ?thesis
    proof (cases "nd_name n = None \<or> add_name ps (the (nd_name n)) = None")
      case True
      with n False show ?thesis
        by (cases "nd_name n") auto
    next
      case named: False
      then obtain s ps' where s: "nd_name n = Some s" "add_name ps s = Some ps'"
        by auto
      then have ps': "fst ps' < fst ps" "snd ps' = slash # s @ snd ps"
        by (auto simp: add_name_def split: prod.splits if_splits)
      obtain p j where p: "nd_parent n = Some p" "idm f p = Some j"
        using named_parent [OF assms(1), of a s] False n(3,4) s(1) less.prems by auto
      obtain r where r: "path_up f (Some p) ps' = Inr r" "\<And>u. r = Some u \<Longrightarrow> \<exists>s. has_path f j s \<and> u = s @ snd ps'"
        using less.hyps [OF ps'(1) p(2)] by blast
      have "entry f j s i"
        using n s p less.prems unfolding entry_def by metis
      then have "\<exists>s. has_path f i s \<and> u = s @ snd ps" if u: "r = Some u" for u
        using r(2) [OF u] ps'(2) has_path.child by fastforce
      then show ?thesis
        using False n s p(1) r(1) by auto
    qed
  qed
qed

text \<open>\<open>get_path_name\<close> returns the path of a directory and a name, when there is memory and the path is short enough.\<close>

definition path_string :: "string \<Rightarrow> string" where
  "path_string s = (if s = [] then ''/'' else s)"

definition suffix_of :: "string option \<Rightarrow> string" where
  "suffix_of name = (case name of None \<Rightarrow> [] | Some n \<Rightarrow> slash # n)"

lemma start_name:
  "(case name of None \<Rightarrow> Some (FUSE_MAX_PATH - 1, []) | Some s \<Rightarrow> add_name (FUSE_MAX_PATH - 1, []) s) =
     (if length (suffix_of name) < FUSE_MAX_PATH then Some (FUSE_MAX_PATH - 1 - length (suffix_of name), suffix_of name) else None)"
  by (auto simp: suffix_of_def add_name_def FUSE_MAX_PATH_def split: option.splits)

lemma path_up_iff:
  assumes "tables_ok f R" "idm f a = Some i" "length t < FUSE_MAX_PATH"
  shows "\<exists>r. path_up f (Some a) (FUSE_MAX_PATH - 1 - length t, t) = Inr r \<and>
           (\<forall>u. r = Some u \<longleftrightarrow> (\<exists>s. has_path f i s \<and> length (s @ t) < FUSE_MAX_PATH \<and> u = s @ t))"
proof -
  let ?ps = "(FUSE_MAX_PATH - 1 - length t, t)"
  obtain r where r: "path_up f (Some a) ?ps = Inr r" "\<And>u. r = Some u \<Longrightarrow> \<exists>s. has_path f i s \<and> u = s @ t"
    using path_up_found [OF assms(1,2), of ?ps] by auto
  have up: "r = (if length (s @ t) < FUSE_MAX_PATH then Some (s @ t) else None)" if "has_path f i s" for s
  proof -
    have "length s \<le> FUSE_MAX_PATH - 1 - length t \<longleftrightarrow> length (s @ t) < FUSE_MAX_PATH"
      using assms(3) by auto
    then show ?thesis
      using path_up_has_path [OF assms(1) that assms(2), of "FUSE_MAX_PATH - 1 - length t" t] r(1) by simp
  qed
  have "r = Some u \<longleftrightarrow> (\<exists>s. has_path f i s \<and> length (s @ t) < FUSE_MAX_PATH \<and> u = s @ t)" for u
  proof
    assume u: "r = Some u"
    then obtain s where "has_path f i s" "u = s @ t"
      using r(2) by blast
    then show "\<exists>s. has_path f i s \<and> length (s @ t) < FUSE_MAX_PATH \<and> u = s @ t"
      using up [of s] u by (intro exI [of _ s]) (simp split: if_splits)
  next
    assume "\<exists>s. has_path f i s \<and> length (s @ t) < FUSE_MAX_PATH \<and> u = s @ t"
    then show "r = Some u"
      using up by force
  qed
  with r(1) show ?thesis
    by blast
qed

lemma get_path_name_ok:
  assumes "nodes_ok f" "0 < nlookups f i"
  shows "\<exists>r g. get_path_name f i name = Inr (r, g) \<and> same_tables f g \<and>
           (fst (alloc (fu_mem f)) \<longrightarrow>
             (\<forall>u. r = Some u \<longleftrightarrow>
               (\<exists>s. has_path f i s \<and> length (s @ suffix_of name) < FUSE_MAX_PATH \<and> u = path_string (s @ suffix_of name)))) \<and>
           (\<not> fst (alloc (fu_mem f)) \<longrightarrow> r = None)"
proof -
  note ok = nodes_okD [OF assms(1)]
  obtain a where a: "idm f a = Some i"
    by (rule nlookups_pos [OF ok assms(2)])
  let ?t = "suffix_of name"
  show ?thesis
  proof (cases "length ?t < FUSE_MAX_PATH")
    case False
    then show ?thesis
      unfolding get_path_name_def start_name
      by (intro exI [of _ None] exI [of _ f]) (auto simp: same_tables_def)
  next
    case True
    obtain r where r: "path_up f (Some a) (FUSE_MAX_PATH - 1 - length ?t, ?t) = Inr r"
        "\<And>u. r = Some u \<longleftrightarrow> (\<exists>s. has_path f i s \<and> length (s @ ?t) < FUSE_MAX_PATH \<and> u = s @ ?t)"
      using path_up_iff [OF ok a True] by blast
    let ?r = "if fst (alloc (fu_mem f)) then map_option path_string r else None"
    have "\<exists>g. get_path_name f i name = Inr (?r, g) \<and> same_tables f g"
      unfolding get_path_name_def start_name using True r(1)
      by (cases r) (auto simp: get_node_found [OF ok a] path_string_def split_beta Let_def same_tables_def)
    moreover have "map_option path_string r = Some u \<longleftrightarrow> (\<exists>v. r = Some v \<and> u = path_string v)" for u
      by auto
    then have "map_option path_string r = Some u \<longleftrightarrow>
        (\<exists>s. has_path f i s \<and> length (s @ ?t) < FUSE_MAX_PATH \<and> u = path_string (s @ ?t))" for u
      unfolding r(2) by blast
    ultimately show ?thesis
      by auto
  qed
qed

lemma has_path_unique:
  assumes "tables_ok f R" "has_path f i s" "has_path f i t"
  shows "s = t"
proof -
  obtain a where a: "idm f a = Some i"
    using assms(2,1) by (cases rule: has_path.cases) (auto simp: tables_ok_def refs_ok_def entry_def)
  then show ?thesis
    using path_up_has_path [OF assms(1,2) a, of "length s + length t" "[]"]
      path_up_has_path [OF assms(1,3) a, of "length s + length t" "[]"] by simp
qed

section \<open>The kernel as a client\<close>

datatype node_call =
  Find_Node nat string | Forget_Node nat nat | Remove_Node nat string | Rename_Node nat string nat string bool

fun run_call :: "nat \<Rightarrow> fuse \<Rightarrow> node_call \<Rightarrow> fuse res option" where
  "run_call k f (Find_Node i s) = map_option (\<lambda>r. bind_res r (\<lambda>(_, g). Inr g)) (find_node k f i s)"
| "run_call k f (Forget_Node i n) = Some (forget_node f i n)"
| "run_call k f (Remove_Node i s) = Some (remove_node f i s)"
| "run_call k f (Rename_Node i s i' s' hide) = Some (bind_res (rename_node f i s i' s' hide) (\<lambda>(_, g). Inr g))"

text \<open>
  What the kernel keeps to: it names directories it holds, forgets at most the lookups it made, and the
  table stays within the width of its counters.
\<close>

fun permitted :: "fuse \<Rightarrow> node_call \<Rightarrow> bool" where
  "permitted f (Find_Node i s) \<longleftrightarrow> 0 < nlookups f i \<and> NUL \<notin> set s"
| "permitted f (Forget_Node i n) \<longleftrightarrow> i = FUSE_ROOT_ID \<or> 0 < nlookups f i \<and> n \<le> nlookups f i"
| "permitted f (Remove_Node i s) \<longleftrightarrow> NUL \<notin> set s"
| "permitted f (Rename_Node i s i' s' hide) \<longleftrightarrow> 0 < nlookups f i' \<and> NUL \<notin> set s \<and> NUL \<notin> set s'"

definition good_fresh :: "((nat \<rightharpoonup> node) \<Rightarrow> nat) \<Rightarrow> bool" where
  "good_fresh fresh \<longleftrightarrow> (\<forall>h. finite (dom h) \<longrightarrow> fresh h \<notin> dom h)"

inductive reached :: "nat \<Rightarrow> fuse \<Rightarrow> bool" for k where
  start: "good_fresh fresh \<Longrightarrow> reached k (fuse_new_nodes m fresh root)"
| call: "reached k f \<Longrightarrow> room f \<Longrightarrow> counts_small f \<Longrightarrow> permitted f c \<Longrightarrow> run_call k f c = Some (Inr g) \<Longrightarrow> reached k g"

lemma fuse_new_nodes_ok:
  assumes "good_fresh fresh"
  shows "nodes_ok (fuse_new_nodes m fresh root)" "nlookups (fuse_new_nodes m fresh root) FUSE_ROOT_ID = 1"
proof -
  let ?f = "fuse_new_nodes m fresh root"
  have maps: "idm ?f = [root \<mapsto> FUSE_ROOT_ID]" "refm ?f = [root \<mapsto> 1]" "parm ?f = Map.empty" "namem ?f = [root \<mapsto> ''/'']"
      "ext ?f root = 1"
    by (auto simp: field_defs fuse_new_nodes_def ext_def lookm_def)
  have "tables_ok ?f (ext ?f)"
    unfolding tables_ok_def ids_ok_def names_ok_def chain_ok_def refs_ok_def maps
    using maps(5) by (auto simp: fuse_new_nodes_def split: if_splits)
  then show ok: "nodes_ok ?f"
    using assms by (simp add: nodes_ok_def good_fresh_def fuse_new_nodes_def)
  have "lookm ?f root = Some 1"
    by (simp add: lookm_def fuse_new_nodes_def)
  then show "nlookups ?f FUSE_ROOT_ID = 1"
    using nlookups_lookm [OF nodes_okD [OF ok], of root FUSE_ROOT_ID] maps(1) by simp
qed

lemma find_node_ok:
  assumes "nodes_ok f" "room f" "counts_small f" "0 < nlookups f i" "NUL \<notin> set s" "card (dom (fu_nodes f)) + 3 \<le> k"
  shows "\<exists>r g. find_node k f i s = Some (Inr (r, g)) \<and> nodes_ok g \<and>
           (case r of
              None \<Rightarrow> dcache_of g = dcache_of f \<and> (\<exists>t. oom (fu_mem f) t)
            | Some a \<Rightarrow> \<exists>j. idm g a = Some j \<and> dcache_of g = dc_lookup i s j (dcache_of f) \<and>
                            ((\<exists>l. (i, s, l) \<in> dc_entries (dcache_of f)) \<longrightarrow> (i, s, j) \<in> dc_entries (dcache_of f)) \<and>
                            ((\<forall>l. (i, s, l) \<notin> dc_entries (dcache_of f)) \<longrightarrow> j \<notin> ran (idm f)))"
proof (cases "\<exists>l. entry f i s l")
  case True
  then obtain j where j: "entry f i s j"
    by blast
  then obtain a g where "find_node k f i s = Some (Inr (Some a, g))" "nodes_ok g" "idm g a = Some j"
      "dcache_of g = dc_lookup i s j (dcache_of f)"
    using find_node_found [OF assms(1,3) j, of k] by blast
  with j True show ?thesis
    by (intro exI [of _ "Some a"] exI [of _ g]) (auto simp: dcache_of_def)
next
  case False
  obtain p where p: "idm f p = Some i"
    by (rule nlookups_pos [OF nodes_okD [OF assms(1)] assms(4)])
  obtain r g where g: "find_node k f i s = Some (Inr (r, g))" "nodes_ok g"
      "case r of None \<Rightarrow> dcache_of g = dcache_of f \<and> (\<exists>t. oom (fu_mem f) t)
       | Some a \<Rightarrow> \<exists>j. idm g a = Some j \<and> j \<notin> ran (idm f) \<and> dcache_of g = dc_lookup i s j (dcache_of f)"
    using find_node_new [OF assms(1,2) p assms(5) False assms(6)] by blast
  have "(i, s, l) \<notin> dc_entries (dcache_of f)" for l
    using False by (simp add: dcache_of_def)
  with g show ?thesis
    by (intro exI [of _ r] exI [of _ g]) (auto split: option.splits)
qed

text \<open>Every permitted call returns and keeps the invariant.\<close>

lemma run_call_ok:
  assumes "nodes_ok f" "room f" "counts_small f" "permitted f c" "card (dom (fu_nodes f)) + 3 \<le> k"
  shows "\<exists>g. run_call k f c = Some (Inr g) \<and> nodes_ok g"
proof (cases c)
  case (Find_Node i s)
  then obtain r g where "find_node k f i s = Some (Inr (r, g))" "nodes_ok g"
    using find_node_ok [OF assms(1-3) _ _ assms(5), of i s] assms(4) by auto
  with Find_Node show ?thesis
    by simp
next
  case (Forget_Node i n)
  show ?thesis
  proof (cases "i = FUSE_ROOT_ID")
    case True
    with Forget_Node assms(1) show ?thesis
      by (simp add: forget_node_def)
  next
    case False
    then obtain g where "forget_node f i n = Inr g" "nodes_ok g"
      using forget_node_ok [OF assms(1) False, of n] assms(4) Forget_Node by auto
    with Forget_Node show ?thesis
      by simp
  qed
next
  case (Remove_Node i s)
  then obtain g where "remove_node f i s = Inr g" "nodes_ok g"
    using remove_node_ok [OF assms(1), of s i] assms(4) by auto
  with Remove_Node show ?thesis
    by simp
next
  case (Rename_Node i s i' s' hide)
  then obtain e g where "rename_node f i s i' s' hide = Inr (e, g)" "nodes_ok g"
    using rename_node_ok [OF assms(1) _ _ _ assms(2), of s s' i' i hide] assms(4) by auto
  with Rename_Node show ?thesis
    by simp
qed

lemma run_call_more:
  assumes "run_call k f c = Some r"
  shows "run_call (k + d) f c = Some r"
proof (cases c)
  case (Find_Node i s)
  then obtain x where "find_node k f i s = Some x" "r = bind_res x (\<lambda>(_, g). Inr g)"
    using assms by auto
  moreover have "find_node (k + d) f i s = Some x" if "find_node k f i s = Some x" for x
    using that unfolding find_node_def
    by (auto simp: Let_def next_id_more [where d = d] split: sum.splits option.splits prod.splits if_splits)
  ultimately show ?thesis
    using Find_Node by auto
qed (use assms in auto)

lemma reached_ok: "reached k f \<Longrightarrow> nodes_ok f"
proof (induction rule: reached.induct)
  case (start fresh m root)
  then show ?case
    by (rule fuse_new_nodes_ok)
next
  case (call f c g)
  obtain g' where "run_call (k + (card (dom (fu_nodes f)) + 3)) f c = Some (Inr g')" "nodes_ok g'"
    using run_call_ok [OF call.IH call.hyps(2-4), of "k + (card (dom (fu_nodes f)) + 3)"] by auto
  moreover have "run_call (k + (card (dom (fu_nodes f)) + 3)) f c = Some (Inr g)"
    by (rule run_call_more [OF call.hyps(5)])
  ultimately show ?case
    by simp
qed

lemma dcache_simps [simp]: "dc_count (dcache_of f) = nlookups f" "(i, s, j) \<in> dc_entries (dcache_of f) \<longleftrightarrow> entry f i s j"
  by (simp_all add: dcache_of_def)

text \<open>After a lookup of a name in a directory with a path, the node has the path of the name.\<close>

lemma has_path_mono: "has_path f i s \<Longrightarrow> (\<And>k t j. entry f k t j \<Longrightarrow> entry g k t j) \<Longrightarrow> has_path g i s"
  by (induction rule: has_path.induct) (auto intro: has_path.intros)

lemma lookup_has_path:
  assumes "dcache_of g = dc_lookup i n j (dcache_of f)" "has_path f i s"
  shows "has_path g j (s @ slash # n)"
proof -
  have "dc_entries (dcache_of g) = insert (i, n, j) (dc_entries (dcache_of f))"
    by (simp add: assms(1) dc_lookup_def)
  then have "entry g k t l \<longleftrightarrow> (k, t, l) = (i, n, j) \<or> entry f k t l" for k t l
    by (metis dcache_simps(2) insert_iff)
  then show ?thesis
    using has_path_mono [OF assms(2)] by (intro has_path.child) auto
qed

section \<open>An example\<close>

definition ex_fresh :: "(nat \<rightharpoonup> node) \<Rightarrow> nat" where
  "ex_fresh h = (LEAST a. a \<notin> dom h)"

definition ex_fuse :: fuse where
  "ex_fuse = fuse_new_nodes \<lparr>oom = (\<lambda>_. False), ticks = 0\<rparr> ex_fresh 7"

lemma good_ex_fresh: "good_fresh ex_fresh"
  unfolding good_fresh_def ex_fresh_def
  by (metis (mono_tags, lifting) LeastI_ex ex_new_if_finite infinite_UNIV_nat)

lemma ex_fuse_ok:
  "nodes_ok ex_fuse" "nlookups ex_fuse FUSE_ROOT_ID = 1" "room ex_fuse" "counts_small ex_fuse" "reached k ex_fuse"
  "card (dom (fu_nodes ex_fuse)) = 1"
proof -
  have dom: "dom (fu_nodes ex_fuse) = {7}" "lookm ex_fuse = [7 \<mapsto> 1]"
    by (auto simp: ex_fuse_def fuse_new_nodes_def lookm_def)
  show "nodes_ok ex_fuse" "nlookups ex_fuse FUSE_ROOT_ID = 1" "reached k ex_fuse"
    unfolding ex_fuse_def using fuse_new_nodes_ok [OF good_ex_fresh] reached.start [OF good_ex_fresh] by blast+
  show "room ex_fuse" "counts_small ex_fuse" "card (dom (fu_nodes ex_fuse)) = 1"
    using dom by (simp_all add: room_def counts_small_def INT_MAX_def)
qed

lemma ex_fuse_no_entry: "\<not> entry ex_fuse i s j"
  by (auto simp: entry_def ex_fuse_def fuse_new_nodes_def parm_def bind_eq_Some_conv split: if_splits)

lemma ex_lookup_result:
  assumes "\<exists>r g. find_node k ex_fuse FUSE_ROOT_ID s = Some (Inr (r, g)) \<and> nodes_ok g \<and>
           (case r of
              None \<Rightarrow> dcache_of g = dcache_of ex_fuse \<and> (\<exists>t. oom (fu_mem ex_fuse) t)
            | Some a \<Rightarrow> \<exists>j. idm g a = Some j \<and> dcache_of g = dc_lookup FUSE_ROOT_ID s j (dcache_of ex_fuse) \<and>
                ((\<exists>l. (FUSE_ROOT_ID, s, l) \<in> dc_entries (dcache_of ex_fuse)) \<longrightarrow> (FUSE_ROOT_ID, s, j) \<in> dc_entries (dcache_of ex_fuse)) \<and>
                ((\<forall>l. (FUSE_ROOT_ID, s, l) \<notin> dc_entries (dcache_of ex_fuse)) \<longrightarrow> j \<notin> ran (idm ex_fuse)))"
  shows "\<exists>a g j. find_node k ex_fuse FUSE_ROOT_ID s = Some (Inr (Some a, g)) \<and> nodes_ok g \<and> idm g a = Some j \<and>
     j \<noteq> FUSE_ROOT_ID \<and> entry g FUSE_ROOT_ID s j \<and> nlookups g j = 1 \<and> nlookups g FUSE_ROOT_ID = 1"
proof -
  have "\<not> oom (fu_mem ex_fuse) t" for t
    by (simp add: ex_fuse_def fuse_new_nodes_def)
  then obtain a g j where g: "find_node k ex_fuse FUSE_ROOT_ID s = Some (Inr (Some a, g))" "nodes_ok g" "idm g a = Some j"
      "j \<notin> ran (idm ex_fuse)" "dcache_of g = dc_lookup FUSE_ROOT_ID s j (dcache_of ex_fuse)"
    using assms ex_fuse_no_entry by (auto simp del: insert_iff split: option.splits)
  have root: "idm ex_fuse 7 = Some FUSE_ROOT_ID"
    by (simp add: ex_fuse_def fuse_new_nodes_def idm_def)
  then have "j \<noteq> FUSE_ROOT_ID"
    using g(4) by (auto simp: ran_def)
  moreover have "(FUSE_ROOT_ID, s, j) \<in> dc_entries (dcache_of g)" "dc_count (dcache_of g) = (nlookups ex_fuse)(j := 1)"
    using nlookups_unknown [OF nodes_okD [OF ex_fuse_ok(1)] g(4)] unfolding g(5) by (simp_all add: dc_lookup_def)
  then have "entry g FUSE_ROOT_ID s j" "nlookups g = (nlookups ex_fuse)(j := 1)"
    by simp_all
  ultimately show ?thesis
    using g(1-3) ex_fuse_ok(2) by (intro exI [of _ a] exI [of _ g] exI [of _ j]) simp
qed

lemma ex_lookup:
  assumes "NUL \<notin> set s"
  obtains g j where "nodes_ok g" "j \<noteq> FUSE_ROOT_ID" "entry g FUSE_ROOT_ID s j" "nlookups g j = 1"
proof -
  have "0 < nlookups ex_fuse FUSE_ROOT_ID" "card (dom (fu_nodes ex_fuse)) + 3 \<le> 4"
    using ex_fuse_ok by simp_all
  with find_node_ok [OF ex_fuse_ok(1,3,4) this(1) assms this(2)] that show thesis
    using ex_lookup_result by blast
qed

section \<open>Properties\<close>

text \<open>C31: \<open>find_node\<close> is a lookup in the directory cache: it returns the node of the name, a new one with a
  number that no node has when there is none, counts one more lookup of it, and fails, leaving the
  cache alone, only when memory runs out. The search for a number ends.\<close>

theorem find_node_refines:
  assumes "nodes_ok f" "room f" "counts_small f" "0 < nlookups f i" "NUL \<notin> set s" "card (dom (fu_nodes f)) + 3 \<le> k"
  shows "\<exists>r g. find_node k f i s = Some (Inr (r, g)) \<and> nodes_ok g \<and>
           (case r of
              None \<Rightarrow> dcache_of g = dcache_of f \<and> (\<exists>t. oom (fu_mem f) t)
            | Some a \<Rightarrow> \<exists>j. idm g a = Some j \<and> dcache_of g = dc_lookup i s j (dcache_of f) \<and>
                            ((\<exists>l. (i, s, l) \<in> dc_entries (dcache_of f)) \<longrightarrow> (i, s, j) \<in> dc_entries (dcache_of f)) \<and>
                            ((\<forall>l. (i, s, l) \<notin> dc_entries (dcache_of f)) \<longrightarrow> j \<notin> ran (idm f)))"
  using find_node_ok [OF assms] .

theorem find_node_refines_witness:
  "\<exists>a g j. find_node 4 ex_fuse FUSE_ROOT_ID ''a'' = Some (Inr (Some a, g)) \<and> nodes_ok g \<and> idm g a = Some j \<and>
     j \<noteq> FUSE_ROOT_ID \<and> entry g FUSE_ROOT_ID ''a'' j \<and> nlookups g j = 1 \<and> nlookups g FUSE_ROOT_ID = 1"
proof -
  have "0 < nlookups ex_fuse FUSE_ROOT_ID" "NUL \<notin> set ''a''" "card (dom (fu_nodes ex_fuse)) + 3 \<le> 4"
    using ex_fuse_ok by simp_all
  from find_node_refines [OF ex_fuse_ok(1,3,4) this] show ?thesis
    by (rule ex_lookup_result)
qed

text \<open>C32: \<open>forget_node\<close> gives lookups back: the count of the number drops, and with the last lookup its name
  leaves the directory cache. No other number with lookups loses its node.\<close>

theorem forget_node_refines:
  assumes "nodes_ok f" "j \<noteq> FUSE_ROOT_ID" "0 < nlookups f j" "n \<le> nlookups f j"
  shows "\<exists>g. forget_node f j n = Inr g \<and> nodes_ok g \<and> dcache_of g = dc_forget j n (dcache_of f)"
  using forget_node_ok [OF assms] .

theorem forget_node_refines_witness:
  "\<exists>f j g. entry f FUSE_ROOT_ID ''a'' j \<and> forget_node f j 1 = Inr g \<and> \<not> entry g FUSE_ROOT_ID ''a'' j"
proof -
  obtain f j where f: "nodes_ok f" "j \<noteq> FUSE_ROOT_ID" "entry f FUSE_ROOT_ID ''a'' j" "nlookups f j = 1"
    by (rule ex_lookup [of "''a''"]) simp_all
  then obtain g where g: "forget_node f j 1 = Inr g" "dcache_of g = dc_forget j 1 (dcache_of f)"
    using forget_node_refines [of f j 1] by auto
  have "(FUSE_ROOT_ID, ''a'', j) \<notin> dc_entries (dcache_of g)"
    unfolding g(2) using f(4) by (simp add: dc_forget_def)
  with f(3) g(1) show ?thesis
    by (simp add: dcache_of_def) blast
qed

text \<open>C33: \<open>rename_node\<close> moves the entry and drops the entry that it replaces. It refuses to do so, and leaves
  the tables alone, exactly when a file is to be hidden under a name that is taken already; and when memory runs
  out both entries are gone.\<close>

theorem rename_node_refines:
  assumes "nodes_ok f" "NUL \<notin> set s" "NUL \<notin> set s'" "0 < nlookups f i'" "room f"
  shows "\<exists>e g. rename_node f i s i' s' hide = Inr (e, g) \<and> nodes_ok g \<and>
           (e = 0 \<and> dcache_of g = dc_rename i s i' s' (dcache_of f) \<or>
            e = - EBUSY \<and> g = f \<or>
            e = - ENOMEM \<and> (\<exists>t. oom (fu_mem f) t) \<and> dcache_of g = dc_remove i s (dc_remove i' s' (dcache_of f))) \<and>
           (e = - EBUSY \<longleftrightarrow> hide \<and> (\<exists>j. entry f i s j) \<and> (\<exists>k. entry f i' s' k))"
  using rename_node_ok [OF assms, of i hide] unfolding renamed_def by blast

text \<open>C30: in every state that calls of the kernel lead to, every further call the kernel may make returns:
  no assertion fails, \<open>abort\<close> is not reached, no freed node is used, and the search for a number ends.\<close>

theorem node_calls_return:
  assumes "reached k f" "room f" "counts_small f" "permitted f c" "card (dom (fu_nodes f)) + 3 \<le> k"
  shows "\<exists>g. run_call k f c = Some (Inr g) \<and> nodes_ok g \<and> reached k g"
proof -
  obtain g where "run_call k f c = Some (Inr g)" "nodes_ok g"
    using run_call_ok [OF reached_ok [OF assms(1)] assms(2-5)] by blast
  with reached.call [OF assms(1-4)] show ?thesis
    by blast
qed

theorem node_calls_return_witness: "\<exists>g. run_call 4 ex_fuse (Find_Node FUSE_ROOT_ID ''a'') = Some (Inr g) \<and> reached 4 g"
proof -
  have "permitted ex_fuse (Find_Node FUSE_ROOT_ID ''a'')" "card (dom (fu_nodes ex_fuse)) + 3 \<le> 4"
    using ex_fuse_ok by simp_all
  from node_calls_return [OF ex_fuse_ok(5,3,4) this] show ?thesis
    by blast
qed

text \<open>C34: \<open>get_path\<close> of a node that is held returns the names from the root to it, or nothing when one of them
  is gone, the path has more than 4095 bytes or memory has run out; it always ends, also on a cycle
  of directories.\<close>

theorem get_path_returns_path:
  assumes "nodes_ok f" "0 < nlookups f i"
  shows "\<exists>r g. get_path f i = Inr (r, g) \<and> dcache_of g = dcache_of f \<and>
           (fst (alloc (fu_mem f)) \<longrightarrow>
             (\<forall>u. r = Some u \<longleftrightarrow> (\<exists>s. has_path f i s \<and> length s < FUSE_MAX_PATH \<and> u = path_string s))) \<and>
           (\<not> fst (alloc (fu_mem f)) \<longrightarrow> r = None)"
  using get_path_name_ok [OF assms, of None] same_nodes_dcache(2) [OF assms(1)]
  unfolding get_path_def by (fastforce simp: suffix_of_def)

theorem get_path_returns_path_witness: "\<exists>g. get_path ex_fuse FUSE_ROOT_ID = Inr (Some ''/'', g)"
proof -
  have "0 < nlookups ex_fuse FUSE_ROOT_ID" and al: "fst (alloc (fu_mem ex_fuse))"
    using ex_fuse_ok(2) by (simp_all add: ex_fuse_def fuse_new_nodes_def alloc_def)
  from get_path_returns_path [OF ex_fuse_ok(1) this(1)] al obtain r g where "get_path ex_fuse FUSE_ROOT_ID = Inr (r, g)"
    "\<forall>u. r = Some u \<longleftrightarrow> (\<exists>s. has_path ex_fuse FUSE_ROOT_ID s \<and> length s < FUSE_MAX_PATH \<and> u = path_string s)"
    by blast
  moreover have "\<exists>s. has_path ex_fuse FUSE_ROOT_ID s \<and> length s < FUSE_MAX_PATH \<and> ''/'' = path_string s"
    by (intro exI [of _ "[]"]) (simp add: has_path.root path_string_def FUSE_MAX_PATH_def)
  ultimately show ?thesis
    by metis
qed

text \<open>\<open>next_id\<close> ends within three rounds more than there are nodes, and returns a number from 1 to
  \<open>0xfffffffe\<close> that no node has.\<close>

theorem next_id_terminates:
  assumes "nodes_ok f" "card (dom (fu_nodes f)) + 3 \<le> 2 ^ 32"
  shows "\<exists>c g. next_id (card (dom (fu_nodes f)) + 3) f = Some (Inr (c, g)) \<and> c \<notin> ran (idm f) \<and>
           0 < c \<and> c < FUSE_UNKNOWN_INO \<and> dcache_of g = dcache_of f"
proof -
  obtain c h where c: "next_id (card (dom (fu_nodes f)) + 3) f = Some (Inr (c, f\<lparr>fu_ctr := c, fu_generation := h\<rparr>))"
      "\<not> taken f c" "c < 2 ^ 32"
    using next_id_ok [OF nodes_okD [OF assms(1)] assms(2) order_refl] by blast
  have "dcache_of (f\<lparr>fu_ctr := c, fu_generation := h\<rparr>) = dcache_of f"
    by (rule same_nodes_dcache [OF assms(1)]) (simp add: same_tables_def)
  with c show ?thesis
    by (auto simp: taken_def FUSE_UNKNOWN_INO_def)
qed

theorem next_id_terminates_witness: "\<exists>c g. next_id 4 ex_fuse = Some (Inr (c, g)) \<and> 0 < c"
proof -
  have "card (dom (fu_nodes ex_fuse)) + 3 = 4" "(4 :: nat) \<le> 2 ^ 32"
    using ex_fuse_ok(6) by simp_all
  with next_id_terminates [OF ex_fuse_ok(1)] show ?thesis
    by metis
qed

end
