(* ===== verification/Fuse_Fs.thy ===== *)
theory Fuse_Fs
  imports Fuse_Paths Catalog_Fs Complex_Main
begin

text \<open>
  The file system as libfuse sees it (\<open>other_fs/fuse-2.7.3/lib/fuse.c\<close>): the table of operations, each of
  which may be missing, and the functions \<open>fuse_fs_\<dots>\<close> that call them or return \<open>ENOSYS\<close>. The state of the
  file system is a parameter. A file system of the current interface (\<open>compat\<close> 0) is modelled.
\<close>

section \<open>Data\<close>

text \<open>\<open>struct stat\<close> with the inode number, and \<open>struct fuse_file_info\<close>.\<close>

record fattr =
  at_st :: stat
  at_ino :: nat

record fuse_file_info =
  fi_flags :: nat
  fi_fh :: nat
  fi_writepage :: bool
  fi_direct_io :: bool
  fi_keep_cache :: bool
  fi_flush :: bool
  fi_lock_owner :: nat

definition ENOSYS :: int where "ENOSYS = 38"
definition EIO :: int where "EIO = 5"

text \<open>\<open>struct fuse_operations\<close>. A function returns its result, what it stored and the state.\<close>

record 's fuse_operations =
  op_getattr :: "(string \<Rightarrow> 's \<Rightarrow> ((int \<times> fattr) \<times> 's) res) option"
  op_fgetattr :: "(string \<Rightarrow> fuse_file_info \<Rightarrow> 's \<Rightarrow> ((int \<times> fattr) \<times> 's) res) option"
  op_readlink :: "(string \<Rightarrow> nat \<Rightarrow> 's \<Rightarrow> ((int \<times> string option) \<times> 's) res) option"
  op_mknod :: "(string \<Rightarrow> mode_t \<Rightarrow> dev_t \<Rightarrow> 's \<Rightarrow> (int \<times> 's) res) option"
  op_mkdir :: "(string \<Rightarrow> mode_t \<Rightarrow> 's \<Rightarrow> (int \<times> 's) res) option"
  op_unlink :: "(string \<Rightarrow> 's \<Rightarrow> (int \<times> 's) res) option"
  op_rmdir :: "(string \<Rightarrow> 's \<Rightarrow> (int \<times> 's) res) option"
  op_symlink :: "(string \<Rightarrow> string \<Rightarrow> 's \<Rightarrow> (int \<times> 's) res) option"
  op_rename :: "(string \<Rightarrow> string \<Rightarrow> 's \<Rightarrow> (int \<times> 's) res) option"
  op_link :: "(string \<Rightarrow> string \<Rightarrow> 's \<Rightarrow> (int \<times> 's) res) option"
  op_chmod :: "(string \<Rightarrow> mode_t \<Rightarrow> 's \<Rightarrow> (int \<times> 's) res) option"
  op_chown :: "(string \<Rightarrow> 32 word \<Rightarrow> 32 word \<Rightarrow> 's \<Rightarrow> (int \<times> 's) res) option"
  op_truncate :: "(string \<Rightarrow> off_t \<Rightarrow> 's \<Rightarrow> (int \<times> 's) res) option"
  op_ftruncate :: "(string \<Rightarrow> off_t \<Rightarrow> fuse_file_info \<Rightarrow> 's \<Rightarrow> (int \<times> 's) res) option"
  op_utimens :: "(string \<Rightarrow> 64 word \<times> 64 word \<Rightarrow> 's \<Rightarrow> (int \<times> 's) res) option"
  op_utime :: "(string \<Rightarrow> 64 word \<times> 64 word \<Rightarrow> 's \<Rightarrow> (int \<times> 's) res) option"
  op_open :: "(string \<Rightarrow> fuse_file_info \<Rightarrow> 's \<Rightarrow> ((int \<times> fuse_file_info) \<times> 's) res) option"
  op_read :: "(string \<Rightarrow> nat \<Rightarrow> off_t \<Rightarrow> fuse_file_info \<Rightarrow> 's \<Rightarrow> ((int \<times> string) \<times> 's) res) option"
  op_write :: "(string \<Rightarrow> string \<Rightarrow> nat \<Rightarrow> off_t \<Rightarrow> fuse_file_info \<Rightarrow> 's \<Rightarrow> (int \<times> 's) res) option"
  op_statfs :: "(string \<Rightarrow> 's \<Rightarrow> ((int \<times> statvfs) \<times> 's) res) option"
  op_flush :: "(string option \<Rightarrow> fuse_file_info \<Rightarrow> 's \<Rightarrow> (int \<times> 's) res) option"
  op_release :: "(string \<Rightarrow> fuse_file_info \<Rightarrow> 's \<Rightarrow> (int \<times> 's) res) option"
  op_fsync :: "(string \<Rightarrow> int \<Rightarrow> fuse_file_info \<Rightarrow> 's \<Rightarrow> (int \<times> 's) res) option"
  op_setxattr :: "(string \<Rightarrow> string \<Rightarrow> string \<Rightarrow> nat \<Rightarrow> int \<Rightarrow> 's \<Rightarrow> (int \<times> 's) res) option"
  op_getxattr :: "(string \<Rightarrow> string \<Rightarrow> nat \<Rightarrow> 's \<Rightarrow> ((int \<times> string) \<times> 's) res) option"
  op_listxattr :: "(string \<Rightarrow> nat \<Rightarrow> 's \<Rightarrow> ((int \<times> string) \<times> 's) res) option"
  op_removexattr :: "(string \<Rightarrow> string \<Rightarrow> 's \<Rightarrow> (int \<times> 's) res) option"
  op_access :: "(string \<Rightarrow> int \<Rightarrow> 's \<Rightarrow> (int \<times> 's) res) option"
  op_create :: "(string \<Rightarrow> mode_t \<Rightarrow> fuse_file_info \<Rightarrow> 's \<Rightarrow> ((int \<times> fuse_file_info) \<times> 's) res) option"
  op_lock :: "(string option \<Rightarrow> fuse_file_info \<Rightarrow> int \<Rightarrow> flock \<Rightarrow> 's \<Rightarrow> ((int \<times> flock) \<times> 's) res) option"
  op_bmap :: "(string \<Rightarrow> nat \<Rightarrow> nat \<Rightarrow> 's \<Rightarrow> ((int \<times> nat) \<times> 's) res) option"

section \<open>Calls\<close>

text \<open>An operation of the table, or a default.\<close>

definition call_or :: "('s \<Rightarrow> ('a \<times> 's) res) option \<Rightarrow> 'a \<Rightarrow> 's \<Rightarrow> ('a \<times> 's) res" where
  "call_or g d s = (case g of None \<Rightarrow> Inr (d, s) | Some h \<Rightarrow> h s)"

definition no_attr :: fattr where
  "no_attr = \<lparr>at_st = stat_zero, at_ino = 0\<rparr>"

definition fuse_fs_getattr :: "'s fuse_operations \<Rightarrow> string \<Rightarrow> 's \<Rightarrow> ((int \<times> fattr) \<times> 's) res" where
  "fuse_fs_getattr p path = call_or (map_option (\<lambda>g. g path) (op_getattr p)) (- ENOSYS, no_attr)"

definition fuse_fs_fgetattr :: "'s fuse_operations \<Rightarrow> string \<Rightarrow> fuse_file_info \<Rightarrow> 's \<Rightarrow> ((int \<times> fattr) \<times> 's) res" where
  "fuse_fs_fgetattr p path fi =
     (case op_fgetattr p of Some g \<Rightarrow> g path fi
      | None \<Rightarrow> call_or (map_option (\<lambda>g. g path) (op_getattr p)) (- ENOSYS, no_attr))"

definition fuse_fs_rename :: "'s fuse_operations \<Rightarrow> string \<Rightarrow> string \<Rightarrow> 's \<Rightarrow> (int \<times> 's) res" where
  "fuse_fs_rename p oldpath newpath = call_or (map_option (\<lambda>g. g oldpath newpath) (op_rename p)) (- ENOSYS)"

definition fuse_fs_unlink :: "'s fuse_operations \<Rightarrow> string \<Rightarrow> 's \<Rightarrow> (int \<times> 's) res" where
  "fuse_fs_unlink p path = call_or (map_option (\<lambda>g. g path) (op_unlink p)) (- ENOSYS)"

definition fuse_fs_rmdir :: "'s fuse_operations \<Rightarrow> string \<Rightarrow> 's \<Rightarrow> (int \<times> 's) res" where
  "fuse_fs_rmdir p path = call_or (map_option (\<lambda>g. g path) (op_rmdir p)) (- ENOSYS)"

definition fuse_fs_symlink :: "'s fuse_operations \<Rightarrow> string \<Rightarrow> string \<Rightarrow> 's \<Rightarrow> (int \<times> 's) res" where
  "fuse_fs_symlink p linkname path = call_or (map_option (\<lambda>g. g linkname path) (op_symlink p)) (- ENOSYS)"

definition fuse_fs_link :: "'s fuse_operations \<Rightarrow> string \<Rightarrow> string \<Rightarrow> 's \<Rightarrow> (int \<times> 's) res" where
  "fuse_fs_link p oldpath newpath = call_or (map_option (\<lambda>g. g oldpath newpath) (op_link p)) (- ENOSYS)"

definition fuse_fs_release :: "'s fuse_operations \<Rightarrow> string \<Rightarrow> fuse_file_info \<Rightarrow> 's \<Rightarrow> (int \<times> 's) res" where
  "fuse_fs_release p path fi = call_or (map_option (\<lambda>g. g path fi) (op_release p)) 0"

definition fuse_fs_open :: "'s fuse_operations \<Rightarrow> string \<Rightarrow> fuse_file_info \<Rightarrow> 's \<Rightarrow> ((int \<times> fuse_file_info) \<times> 's) res" where
  "fuse_fs_open p path fi = call_or (map_option (\<lambda>g. g path fi) (op_open p)) (0, fi)"

text \<open>The buffer that a missing \<open>read\<close> leaves unwritten is of no interest, since the call has failed.\<close>

definition fuse_fs_read ::
  "'s fuse_operations \<Rightarrow> string \<Rightarrow> nat \<Rightarrow> off_t \<Rightarrow> fuse_file_info \<Rightarrow> 's \<Rightarrow> ((int \<times> string) \<times> 's) res" where
  "fuse_fs_read p path sz off fi = call_or (map_option (\<lambda>g. g path sz off fi) (op_read p)) (- ENOSYS, [])"

definition fuse_fs_write ::
  "'s fuse_operations \<Rightarrow> string \<Rightarrow> string \<Rightarrow> nat \<Rightarrow> off_t \<Rightarrow> fuse_file_info \<Rightarrow> 's \<Rightarrow> (int \<times> 's) res" where
  "fuse_fs_write p path buf sz off fi = call_or (map_option (\<lambda>g. g path buf sz off fi) (op_write p)) (- ENOSYS)"

definition fuse_fs_fsync :: "'s fuse_operations \<Rightarrow> string \<Rightarrow> int \<Rightarrow> fuse_file_info \<Rightarrow> 's \<Rightarrow> (int \<times> 's) res" where
  "fuse_fs_fsync p path datasync fi = call_or (map_option (\<lambda>g. g path datasync fi) (op_fsync p)) (- ENOSYS)"

definition fuse_fs_flush :: "'s fuse_operations \<Rightarrow> string option \<Rightarrow> fuse_file_info \<Rightarrow> 's \<Rightarrow> (int \<times> 's) res" where
  "fuse_fs_flush p path fi = call_or (map_option (\<lambda>g. g path fi) (op_flush p)) (- ENOSYS)"

definition statvfs_zero :: statvfs where
  "statvfs_zero = \<lparr>f_bsize = 0, f_frsize = 0, f_blocks = 0, f_bfree = 0, f_bavail = 0, f_files = 0, f_ffree = 0,
     f_favail = 0, f_fsid = 0, f_flag = 0, f_namemax = 0\<rparr>"

definition fuse_fs_statfs :: "'s fuse_operations \<Rightarrow> string \<Rightarrow> 's \<Rightarrow> ((int \<times> statvfs) \<times> 's) res" where
  "fuse_fs_statfs p path =
     call_or (map_option (\<lambda>g. g path) (op_statfs p)) (0, statvfs_zero\<lparr>f_namemax := 255, f_bsize := 512\<rparr>)"

definition fuse_fs_create ::
  "'s fuse_operations \<Rightarrow> string \<Rightarrow> mode_t \<Rightarrow> fuse_file_info \<Rightarrow> 's \<Rightarrow> ((int \<times> fuse_file_info) \<times> 's) res" where
  "fuse_fs_create p path mode fi = call_or (map_option (\<lambda>g. g path mode fi) (op_create p)) (- ENOSYS, fi)"

definition fuse_fs_lock ::
  "'s fuse_operations \<Rightarrow> string option \<Rightarrow> fuse_file_info \<Rightarrow> int \<Rightarrow> flock \<Rightarrow> 's \<Rightarrow> ((int \<times> flock) \<times> 's) res" where
  "fuse_fs_lock p path fi cmd fl = call_or (map_option (\<lambda>g. g path fi cmd fl) (op_lock p)) (- ENOSYS, fl)"

definition fuse_fs_chown :: "'s fuse_operations \<Rightarrow> string \<Rightarrow> 32 word \<Rightarrow> 32 word \<Rightarrow> 's \<Rightarrow> (int \<times> 's) res" where
  "fuse_fs_chown p path uid gid = call_or (map_option (\<lambda>g. g path uid gid) (op_chown p)) (- ENOSYS)"

definition fuse_fs_truncate :: "'s fuse_operations \<Rightarrow> string \<Rightarrow> off_t \<Rightarrow> 's \<Rightarrow> (int \<times> 's) res" where
  "fuse_fs_truncate p path sz = call_or (map_option (\<lambda>g. g path sz) (op_truncate p)) (- ENOSYS)"

definition fuse_fs_ftruncate :: "'s fuse_operations \<Rightarrow> string \<Rightarrow> off_t \<Rightarrow> fuse_file_info \<Rightarrow> 's \<Rightarrow> (int \<times> 's) res" where
  "fuse_fs_ftruncate p path sz fi =
     (case op_ftruncate p of Some g \<Rightarrow> g path sz fi
      | None \<Rightarrow> call_or (map_option (\<lambda>g. g path sz) (op_truncate p)) (- ENOSYS))"

definition fuse_fs_utimens :: "'s fuse_operations \<Rightarrow> string \<Rightarrow> 64 word \<times> 64 word \<Rightarrow> 's \<Rightarrow> (int \<times> 's) res" where
  "fuse_fs_utimens p path tv =
     (case op_utimens p of Some g \<Rightarrow> g path tv
      | None \<Rightarrow> call_or (map_option (\<lambda>g. g path tv) (op_utime p)) (- ENOSYS))"

definition fuse_fs_access :: "'s fuse_operations \<Rightarrow> string \<Rightarrow> int \<Rightarrow> 's \<Rightarrow> (int \<times> 's) res" where
  "fuse_fs_access p path msk = call_or (map_option (\<lambda>g. g path msk) (op_access p)) (- ENOSYS)"

definition fuse_fs_readlink :: "'s fuse_operations \<Rightarrow> string \<Rightarrow> nat \<Rightarrow> 's \<Rightarrow> ((int \<times> string option) \<times> 's) res" where
  "fuse_fs_readlink p path len = call_or (map_option (\<lambda>g. g path len) (op_readlink p)) (- ENOSYS, None)"

definition fuse_fs_mknod :: "'s fuse_operations \<Rightarrow> string \<Rightarrow> mode_t \<Rightarrow> dev_t \<Rightarrow> 's \<Rightarrow> (int \<times> 's) res" where
  "fuse_fs_mknod p path mode rdev = call_or (map_option (\<lambda>g. g path mode rdev) (op_mknod p)) (- ENOSYS)"

definition fuse_fs_mkdir :: "'s fuse_operations \<Rightarrow> string \<Rightarrow> mode_t \<Rightarrow> 's \<Rightarrow> (int \<times> 's) res" where
  "fuse_fs_mkdir p path mode = call_or (map_option (\<lambda>g. g path mode) (op_mkdir p)) (- ENOSYS)"

definition fuse_fs_chmod :: "'s fuse_operations \<Rightarrow> string \<Rightarrow> mode_t \<Rightarrow> 's \<Rightarrow> (int \<times> 's) res" where
  "fuse_fs_chmod p path mode = call_or (map_option (\<lambda>g. g path mode) (op_chmod p)) (- ENOSYS)"

definition fuse_fs_setxattr :: "'s fuse_operations \<Rightarrow> string \<Rightarrow> string \<Rightarrow> string \<Rightarrow> nat \<Rightarrow> int \<Rightarrow> 's \<Rightarrow> (int \<times> 's) res" where
  "fuse_fs_setxattr p path name val sz flags =
     call_or (map_option (\<lambda>g. g path name val sz flags) (op_setxattr p)) (- ENOSYS)"

definition fuse_fs_getxattr :: "'s fuse_operations \<Rightarrow> string \<Rightarrow> string \<Rightarrow> nat \<Rightarrow> 's \<Rightarrow> ((int \<times> string) \<times> 's) res" where
  "fuse_fs_getxattr p path name sz = call_or (map_option (\<lambda>g. g path name sz) (op_getxattr p)) (- ENOSYS, [])"

definition fuse_fs_listxattr :: "'s fuse_operations \<Rightarrow> string \<Rightarrow> nat \<Rightarrow> 's \<Rightarrow> ((int \<times> string) \<times> 's) res" where
  "fuse_fs_listxattr p path sz = call_or (map_option (\<lambda>g. g path sz) (op_listxattr p)) (- ENOSYS, [])"

definition fuse_fs_bmap :: "'s fuse_operations \<Rightarrow> string \<Rightarrow> nat \<Rightarrow> nat \<Rightarrow> 's \<Rightarrow> ((int \<times> nat) \<times> 's) res" where
  "fuse_fs_bmap p path blocksize idx = call_or (map_option (\<lambda>g. g path blocksize idx) (op_bmap p)) (- ENOSYS, idx)"

definition fuse_fs_removexattr :: "'s fuse_operations \<Rightarrow> string \<Rightarrow> string \<Rightarrow> 's \<Rightarrow> (int \<times> 's) res" where
  "fuse_fs_removexattr p path name = call_or (map_option (\<lambda>g. g path name) (op_removexattr p)) (- ENOSYS)"

end
