(* ===== verification/Fuse_Lib.thy ===== *)
theory Fuse_Lib
  imports Fuse_Fs
begin

text \<open>
  The request handlers of libfuse (\<open>fuse_lib_\<dots>\<close> of \<open>other_fs/fuse-2.7.3/lib/fuse.c\<close>): each finds the path of
  the node that the kernel names, calls the file system, keeps the node tables up to date, and replies.
  Interrupts, locking between threads and debug output are not modelled; a reply that the kernel does not
  take, because the request was interrupted, is the argument \<open>lost\<close>.
\<close>

section \<open>State\<close>

text \<open>\<open>struct fuse_config\<close>\<close>

record fuse_config =
  cf_uid :: "32 word"
  cf_gid :: "32 word"
  cf_umask :: "32 word"
  cf_entry_timeout :: rat
  cf_negative_timeout :: rat
  cf_attr_timeout :: rat
  cf_ac_attr_timeout :: rat
  cf_hard_remove :: bool
  cf_use_ino :: bool
  cf_readdir_ino :: bool
  cf_set_mode :: bool
  cf_set_uid :: bool
  cf_set_gid :: bool
  cf_direct_io :: bool
  cf_kernel_cache :: bool
  cf_auto_cache :: bool

text \<open>The library with its file system. \<open>lb_clock\<close> is what \<open>clock_gettime\<close> returns, in nanoseconds, when it
  is called for the \<open>lb_tick\<close>-th time: it fails for every clock that \<open>curr_time\<close> tries, or shows a time.\<close>

record 's lib =
  lb_f :: fuse
  lb_conf :: fuse_config
  lb_op :: "'s fuse_operations"
  lb_fs :: 's
  lb_clock :: "nat \<Rightarrow> int option"
  lb_tick :: nat

type_synonym ('s, 'a) act = "'s lib \<Rightarrow> ('a \<times> 's lib) res option"

definition ret_lib :: "'a \<Rightarrow> ('s, 'a) act" where
  "ret_lib x = (\<lambda>l. Some (Inr (x, l)))"

definition bind_lib :: "('s, 'a) act \<Rightarrow> ('a \<Rightarrow> ('s, 'b) act) \<Rightarrow> ('s, 'b) act" where
  "bind_lib m k = (\<lambda>l. case m l of None \<Rightarrow> None | Some (Inl e) \<Rightarrow> Some (Inl e) | Some (Inr (x, l1)) \<Rightarrow> k x l1)"

definition on_fs :: "('s fuse_operations \<Rightarrow> 's \<Rightarrow> ('a \<times> 's) res) \<Rightarrow> ('s, 'a) act" where
  "on_fs g = (\<lambda>l. Some (bind_res (g (lb_op l) (lb_fs l)) (\<lambda>(x, s). Inr (x, l\<lparr>lb_fs := s\<rparr>))))"

definition on_nodes :: "(fuse \<Rightarrow> ('a \<times> fuse) res) \<Rightarrow> ('s, 'a) act" where
  "on_nodes g = (\<lambda>l. Some (bind_res (g (lb_f l)) (\<lambda>(x, f). Inr (x, l\<lparr>lb_f := f\<rparr>))))"

definition on_nodes_fuel :: "(fuse \<Rightarrow> ('a \<times> fuse) res option) \<Rightarrow> ('s, 'a) act" where
  "on_nodes_fuel g = (\<lambda>l. map_option (\<lambda>r. bind_res r (\<lambda>(x, f). Inr (x, l\<lparr>lb_f := f\<rparr>))) (g (lb_f l)))"

definition get_conf :: "('s, fuse_config) act" where
  "get_conf = (\<lambda>l. Some (Inr (lb_conf l, l)))"

definition curr_time :: "('s, int) act" where
  "curr_time = (\<lambda>l. Some (case lb_clock l (lb_tick l) of
     None \<Rightarrow> Inl aborted
   | Some now \<Rightarrow> Inr (now, l\<lparr>lb_tick := lb_tick l + 1\<rparr>)))"

text \<open>A change of the node that an address points to.\<close>

definition change_node :: "nat \<Rightarrow> (node \<Rightarrow> node) \<Rightarrow> fuse \<Rightarrow> (node \<times> fuse) res" where
  "change_node a g f = bind_res (deref f a) (\<lambda>n. Inr (n, set_node f a (g n)))"

definition node_of :: "nat \<Rightarrow> fuse \<Rightarrow> (nat \<times> fuse) res" where
  "node_of i f = bind_res (get_node f i) (\<lambda>a. Inr (a, f))"

section \<open>Replies\<close>

text \<open>\<open>struct fuse_entry_param\<close>\<close>

record fuse_entry_param =
  ep_ino :: nat
  ep_generation :: nat
  ep_attr :: fattr
  ep_attr_timeout :: rat
  ep_entry_timeout :: rat

definition no_entry :: fuse_entry_param where
  "no_entry = \<lparr>ep_ino = 0, ep_generation = 0, ep_attr = no_attr, ep_attr_timeout = 0, ep_entry_timeout = 0\<rparr>"

datatype lib_reply =
  Reply_None | Reply_Err int | Reply_Entry fuse_entry_param | Reply_Attr fattr rat | Reply_Readlink string
| Reply_Open fuse_file_info | Reply_Create fuse_entry_param fuse_file_info | Reply_Write int | Reply_Buf string
| Reply_Statfs statvfs | Reply_Xattr int | Reply_Lock flock | Reply_Bmap nat

text \<open>\<open>fuse_reply_err\<close> takes the error number without its sign.\<close>

definition reply_err :: "int \<Rightarrow> ('s, lib_reply) act" where
  "reply_err err = ret_lib (Reply_Err (- err))"

definition forget_lib :: "nat \<Rightarrow> nat \<Rightarrow> ('s, unit) act" where
  "forget_lib i n = on_nodes (\<lambda>f. bind_res (forget_node f i n) (\<lambda>g. Inr ((), g)))"

definition reply_entry :: "bool \<Rightarrow> int \<times> fuse_entry_param \<Rightarrow> ('s, lib_reply) act" where
  "reply_entry lost = (\<lambda>(err, e).
     if err = 0
     then (if lost then bind_lib (forget_lib (ep_ino e) 1) (\<lambda>_. ret_lib (Reply_Entry e)) else ret_lib (Reply_Entry e))
     else reply_err err)"

section \<open>Attributes\<close>

definition S_IFMT :: "32 word" where "S_IFMT = 0xF000"
definition S_IFREG :: "32 word" where "S_IFREG = 0x8000"

definition S_ISREG :: "32 word \<Rightarrow> bool" where
  "S_ISREG mode \<longleftrightarrow> and mode S_IFMT = S_IFREG"

definition set_stat :: "fuse_config \<Rightarrow> nat \<Rightarrow> fattr \<Rightarrow> fattr" where
  "set_stat c i st =
     (let st1 = (if cf_use_ino c then st else st\<lparr>at_ino := i\<rparr>);
          st2 = (if cf_set_mode c
                 then st1\<lparr>at_st := (at_st st1)\<lparr>st_mode := or (and (st_mode (at_st st1)) S_IFMT) (and 0x1FF (not (cf_umask c)))\<rparr>\<rparr>
                 else st1);
          st3 = (if cf_set_uid c then st2\<lparr>at_st := (at_st st2)\<lparr>st_uid := cf_uid c\<rparr>\<rparr> else st2) in
      if cf_set_gid c then st3\<lparr>at_st := (at_st st3)\<lparr>st_gid := cf_gid c\<rparr>\<rparr> else st3)"

text \<open>The modification time of the model has no nanoseconds.\<close>

definition mtime_eq :: "fattr \<Rightarrow> int \<Rightarrow> bool" where
  "mtime_eq st t \<longleftrightarrow> sint (st_mtime (at_st st)) = t"

definition update_stat :: "nat \<Rightarrow> fattr \<Rightarrow> ('s, unit) act" where
  "update_stat a st =
     bind_lib curr_time (\<lambda>now.
     bind_lib (on_nodes (change_node a (\<lambda>n. n\<lparr>
       nd_cache_valid := nd_cache_valid n \<and> mtime_eq st (nd_mtime n) \<and> sint (st_size (at_st st)) = nd_size n,
       nd_mtime := sint (st_mtime (at_st st)), nd_size := sint (st_size (at_st st)), nd_stat_updated := now\<rparr>))) (\<lambda>_.
     ret_lib ()))"

definition auto_update :: "('s, nat) act \<Rightarrow> fattr \<Rightarrow> ('s, unit) act" where
  "auto_update node st =
     bind_lib get_conf (\<lambda>c. if cf_auto_cache c then bind_lib node (\<lambda>a. update_stat a st) else ret_lib ())"

text \<open>The end of \<open>lookup_path\<close>, for the node that was found.\<close>

definition fill_entry :: "nat \<Rightarrow> fattr \<Rightarrow> ('s, int \<times> fuse_entry_param) act" where
  "fill_entry a attr =
     bind_lib (on_nodes (change_node a (\<lambda>n. n))) (\<lambda>n.
     bind_lib get_conf (\<lambda>c.
     bind_lib (auto_update (ret_lib a) attr) (\<lambda>_.
       ret_lib (0, \<lparr>ep_ino = nd_id n, ep_generation = nd_generation n, ep_attr = set_stat c (nd_id n) attr,
                    ep_attr_timeout = cf_attr_timeout c, ep_entry_timeout = cf_entry_timeout c\<rparr>))))"

definition lookup_path ::
  "nat \<Rightarrow> nat \<Rightarrow> string \<Rightarrow> string \<Rightarrow> fuse_file_info option \<Rightarrow> ('s, int \<times> fuse_entry_param) act" where
  "lookup_path k nodeid name path fi =
     bind_lib (on_fs (\<lambda>p. case fi of Some x \<Rightarrow> fuse_fs_fgetattr p path x | None \<Rightarrow> fuse_fs_getattr p path)) (\<lambda>(res, attr).
       let e = no_entry\<lparr>ep_attr := attr\<rparr> in
       if res \<noteq> 0 then ret_lib (res, e)
       else bind_lib (on_nodes_fuel (\<lambda>f. find_node k f nodeid name)) (\<lambda>r.
         case r of None \<Rightarrow> ret_lib (- ENOMEM, e) | Some a \<Rightarrow> fill_entry a attr))"

section \<open>Requests on a path\<close>

text \<open>The path of a node, and of a name in it.\<close>

definition path_of :: "nat \<Rightarrow> string option \<Rightarrow> ('s, string option) act" where
  "path_of i name = on_nodes (\<lambda>f. get_path_name f i name)"

text \<open>Most handlers return \<open>ENOENT\<close> when the path is gone.\<close>

definition with_path :: "nat \<Rightarrow> string option \<Rightarrow> 'a \<Rightarrow> (string \<Rightarrow> ('s, 'a) act) \<Rightarrow> ('s, 'a) act" where
  "with_path i name d k = bind_lib (path_of i name) (\<lambda>r. case r of None \<Rightarrow> ret_lib d | Some path \<Rightarrow> k path)"

definition fuse_lib_lookup :: "nat \<Rightarrow> bool \<Rightarrow> nat \<Rightarrow> string \<Rightarrow> ('s, lib_reply) act" where
  "fuse_lib_lookup k lost parent name =
     bind_lib (with_path parent (Some name) (- ENOENT, no_entry) (\<lambda>path.
       bind_lib (lookup_path k parent name path None) (\<lambda>(err, e).
       bind_lib get_conf (\<lambda>c.
         if err = - ENOENT \<and> cf_negative_timeout c \<noteq> 0
         then ret_lib (0, e\<lparr>ep_ino := 0, ep_entry_timeout := cf_negative_timeout c\<rparr>)
         else ret_lib (err, e)))))
     (reply_entry lost)"

definition fuse_lib_forget :: "nat \<Rightarrow> nat \<Rightarrow> ('s, lib_reply) act" where
  "fuse_lib_forget i nlookup = bind_lib (forget_lib i nlookup) (\<lambda>_. ret_lib Reply_None)"

text \<open>The end of \<open>fuse_lib_getattr\<close> and \<open>fuse_lib_setattr\<close>.\<close>

definition reply_attr :: "nat \<Rightarrow> int \<times> fattr \<Rightarrow> ('s, lib_reply) act" where
  "reply_attr i = (\<lambda>(err, buf).
     if err = 0
     then bind_lib (auto_update (on_nodes (node_of i)) buf) (\<lambda>_.
          bind_lib get_conf (\<lambda>c. ret_lib (Reply_Attr (set_stat c i buf) (cf_attr_timeout c))))
     else reply_err err)"

definition fuse_lib_getattr :: "nat \<Rightarrow> ('s, lib_reply) act" where
  "fuse_lib_getattr i =
     bind_lib (with_path i None (- ENOENT, no_attr) (\<lambda>path. on_fs (\<lambda>p. fuse_fs_getattr p path))) (reply_attr i)"

text \<open>A call that is made only while there is no error.\<close>

definition unless_err :: "int \<Rightarrow> bool \<Rightarrow> ('s, int) act \<Rightarrow> ('s, int) act" where
  "unless_err err b m = (if err = 0 \<and> b then m else ret_lib err)"

definition FUSE_SET_ATTR_MODE :: nat where "FUSE_SET_ATTR_MODE = 0"
definition FUSE_SET_ATTR_UID :: nat where "FUSE_SET_ATTR_UID = 1"
definition FUSE_SET_ATTR_GID :: nat where "FUSE_SET_ATTR_GID = 2"
definition FUSE_SET_ATTR_SIZE :: nat where "FUSE_SET_ATTR_SIZE = 3"
definition FUSE_SET_ATTR_ATIME :: nat where "FUSE_SET_ATTR_ATIME = 4"
definition FUSE_SET_ATTR_MTIME :: nat where "FUSE_SET_ATTR_MTIME = 5"

definition fuse_lib_setattr :: "nat \<Rightarrow> stat \<Rightarrow> 32 word \<Rightarrow> fuse_file_info option \<Rightarrow> ('s, lib_reply) act" where
  "fuse_lib_setattr i attr valid fi =
     bind_lib (with_path i None (- ENOENT, no_attr) (\<lambda>path.
       bind_lib (unless_err 0 (bit valid FUSE_SET_ATTR_MODE) (on_fs (\<lambda>p. fuse_fs_chmod p path (st_mode attr)))) (\<lambda>err1.
       bind_lib (unless_err err1 (bit valid FUSE_SET_ATTR_UID \<or> bit valid FUSE_SET_ATTR_GID)
         (on_fs (\<lambda>p. fuse_fs_chown p path (if bit valid FUSE_SET_ATTR_UID then st_uid attr else - 1)
                                          (if bit valid FUSE_SET_ATTR_GID then st_gid attr else - 1)))) (\<lambda>err2.
       bind_lib (unless_err err2 (bit valid FUSE_SET_ATTR_SIZE)
         (on_fs (\<lambda>p. case fi of Some x \<Rightarrow> fuse_fs_ftruncate p path (st_size attr) x
                              | None \<Rightarrow> fuse_fs_truncate p path (st_size attr)))) (\<lambda>err3.
       bind_lib (unless_err err3 (bit valid FUSE_SET_ATTR_ATIME \<and> bit valid FUSE_SET_ATTR_MTIME)
         (on_fs (\<lambda>p. fuse_fs_utimens p path (st_atime attr, st_mtime attr)))) (\<lambda>err4.
         if err4 = 0 then on_fs (\<lambda>p. fuse_fs_getattr p path) else ret_lib (err4, no_attr)))))))
     (reply_attr i)"

text \<open>Handlers whose only reply is an error number.\<close>

definition path_request :: "nat \<Rightarrow> string option \<Rightarrow> ('s fuse_operations \<Rightarrow> string \<Rightarrow> 's \<Rightarrow> (int \<times> 's) res) \<Rightarrow> ('s, lib_reply) act" where
  "path_request i name g = bind_lib (with_path i name (- ENOENT) (\<lambda>path. on_fs (\<lambda>p. g p path))) reply_err"

definition fuse_lib_access :: "nat \<Rightarrow> int \<Rightarrow> ('s, lib_reply) act" where
  "fuse_lib_access i msk = path_request i None (\<lambda>p path. fuse_fs_access p path msk)"

definition PATH_MAX :: nat where "PATH_MAX = 4096"

text \<open>\<open>linkname[PATH_MAX]\<close> is set to NUL, and the reply ends at the first NUL. A link that was not written is undefined.\<close>

definition fuse_lib_readlink :: "nat \<Rightarrow> ('s, lib_reply) act" where
  "fuse_lib_readlink i =
     bind_lib (with_path i None (- ENOENT, None) (\<lambda>path. on_fs (\<lambda>p. fuse_fs_readlink p path (PATH_MAX + 1)))) (\<lambda>(err, r).
       if err = 0
       then (case r of None \<Rightarrow> (\<lambda>l. Some (Inl Undefined))
             | Some bytes \<Rightarrow> ret_lib (Reply_Readlink (cstr (take PATH_MAX bytes))))
       else reply_err err)"

section \<open>Creating and removing names\<close>

definition no_file_info :: fuse_file_info where
  "no_file_info = \<lparr>fi_flags = 0, fi_fh = 0, fi_writepage = False, fi_direct_io = False, fi_keep_cache = False, fi_flush = False, fi_lock_owner = 0\<rparr>"

text \<open>\<open>O_CREAT | O_EXCL | O_WRONLY\<close>\<close>

definition create_flags :: nat where "create_flags = 0xC1"

definition fuse_lib_mknod :: "nat \<Rightarrow> bool \<Rightarrow> nat \<Rightarrow> string \<Rightarrow> mode_t \<Rightarrow> dev_t \<Rightarrow> ('s, lib_reply) act" where
  "fuse_lib_mknod k lost parent name mode rdev =
     bind_lib (with_path parent (Some name) (- ENOENT, no_entry) (\<lambda>path.
       bind_lib
         (if S_ISREG mode
          then bind_lib (on_fs (\<lambda>p. fuse_fs_create p path mode (no_file_info\<lparr>fi_flags := create_flags\<rparr>))) (\<lambda>(err, fi).
                 if err = 0
                 then bind_lib (lookup_path k parent name path (Some fi)) (\<lambda>r.
                      bind_lib (on_fs (\<lambda>p. fuse_fs_release p path fi)) (\<lambda>_. ret_lib r))
                 else ret_lib (err, no_entry))
          else ret_lib (- ENOSYS, no_entry)) (\<lambda>(err, e).
         if err = - ENOSYS
         then bind_lib (on_fs (\<lambda>p. fuse_fs_mknod p path mode rdev)) (\<lambda>err1.
                if err1 = 0 then lookup_path k parent name path None else ret_lib (err1, e))
         else ret_lib (err, e))))
     (reply_entry lost)"

text \<open>A call of the file system, and a lookup of the new name when it has succeeded.\<close>

definition make_entry ::
  "nat \<Rightarrow> nat \<Rightarrow> string \<Rightarrow> string \<Rightarrow> ('s fuse_operations \<Rightarrow> 's \<Rightarrow> (int \<times> 's) res) \<Rightarrow> ('s, int \<times> fuse_entry_param) act" where
  "make_entry k parent name path g =
     bind_lib (on_fs g) (\<lambda>err. if err = 0 then lookup_path k parent name path None else ret_lib (err, no_entry))"

definition fuse_lib_mkdir :: "nat \<Rightarrow> bool \<Rightarrow> nat \<Rightarrow> string \<Rightarrow> mode_t \<Rightarrow> ('s, lib_reply) act" where
  "fuse_lib_mkdir k lost parent name mode =
     bind_lib (with_path parent (Some name) (- ENOENT, no_entry) (\<lambda>path.
       make_entry k parent name path (\<lambda>p. fuse_fs_mkdir p path mode))) (reply_entry lost)"

definition fuse_lib_symlink :: "nat \<Rightarrow> bool \<Rightarrow> string \<Rightarrow> nat \<Rightarrow> string \<Rightarrow> ('s, lib_reply) act" where
  "fuse_lib_symlink k lost linkname parent name =
     bind_lib (with_path parent (Some name) (- ENOENT, no_entry) (\<lambda>path.
       make_entry k parent name path (\<lambda>p. fuse_fs_symlink p linkname path))) (reply_entry lost)"

definition fuse_lib_link :: "nat \<Rightarrow> bool \<Rightarrow> nat \<Rightarrow> nat \<Rightarrow> string \<Rightarrow> ('s, lib_reply) act" where
  "fuse_lib_link k lost i newparent newname =
     bind_lib (with_path i None (- ENOENT, no_entry) (\<lambda>oldpath.
       with_path newparent (Some newname) (- ENOENT, no_entry) (\<lambda>newpath.
         make_entry k newparent newname newpath (\<lambda>p. fuse_fs_link p oldpath newpath)))) (reply_entry lost)"

definition is_open :: "nat \<Rightarrow> string \<Rightarrow> fuse \<Rightarrow> (bool \<times> fuse) res" where
  "is_open dir name f =
     bind_res (lookup_node f dir name) (\<lambda>r. case r of None \<Rightarrow> Inr (False, f)
       | Some a \<Rightarrow> bind_res (deref f a) (\<lambda>n. Inr (0 < nd_open_count n, f)))"

text \<open>\<open>%08x\<close> of a 32-bit number\<close>

definition hex_digit :: "nat \<Rightarrow> char" where
  "hex_digit d = ''0123456789abcdef'' ! (d mod 16)"

definition hex8 :: "nat \<Rightarrow> string" where
  "hex8 n = map (\<lambda>i. hex_digit (n div 16 ^ i)) (rev [0..<8])"

text \<open>The inner loop of \<open>hidden_name\<close>, for at most \<open>k\<close> rounds.\<close>

fun hidden_pick :: "nat \<Rightarrow> nat \<Rightarrow> nat \<Rightarrow> fuse \<Rightarrow> (string \<times> fuse) res option" where
  "hidden_pick 0 dir i f = None"
| "hidden_pick (Suc k) dir i f =
     (let c = (fu_hidectr f + 1) mod 2 ^ 32; f1 = f\<lparr>fu_hidectr := c\<rparr>;
          newname = ''.fuse_hidden'' @ hex8 (i mod 2 ^ 32) @ hex8 c in
      case lookup_node f1 dir newname of
        Inl e \<Rightarrow> Some (Inl e)
      | Inr None \<Rightarrow> Some (Inr (newname, f1))
      | Inr (Some _) \<Rightarrow> hidden_pick k dir i f1)"

text \<open>The outer loop: \<open>failctr\<close> more tries. The result is the new name and its path.\<close>

fun hidden_name :: "nat \<Rightarrow> nat \<Rightarrow> nat \<Rightarrow> string \<Rightarrow> ('s, (string \<times> string) option) act" where
  "hidden_name k 0 dir oldname = ret_lib None"
| "hidden_name k (Suc failctr) dir oldname =
     bind_lib (on_nodes (\<lambda>f. bind_res (lookup_node f dir oldname) (\<lambda>r. case r of None \<Rightarrow> Inr (None, f)
         | Some a \<Rightarrow> bind_res (deref f a) (\<lambda>n. Inr (Some (nd_id n), f))))) (\<lambda>r.
       case r of None \<Rightarrow> ret_lib None
       | Some i \<Rightarrow>
           bind_lib (on_nodes_fuel (hidden_pick k dir i)) (\<lambda>newname.
           with_path dir (Some newname) None (\<lambda>newpath.
             bind_lib (on_fs (\<lambda>p. fuse_fs_getattr p newpath)) (\<lambda>(res, buf).
               if res = - ENOENT then ret_lib (Some (newname, newpath))
               else if res = 0 then hidden_name k failctr dir oldname else ret_lib None))))"

definition hide_node :: "nat \<Rightarrow> string \<Rightarrow> nat \<Rightarrow> string \<Rightarrow> ('s, int) act" where
  "hide_node k oldpath dir oldname =
     bind_lib (hidden_name k 10 dir oldname) (\<lambda>r. case r of None \<Rightarrow> ret_lib (- EBUSY)
       | Some (newname, newpath) \<Rightarrow>
           bind_lib (on_fs (\<lambda>p. fuse_fs_rename p oldpath newpath)) (\<lambda>err.
             unless_err err True (on_nodes (\<lambda>f. rename_node f dir oldname dir newname True))))"

definition remove_lib :: "nat \<Rightarrow> string \<Rightarrow> ('s, int) act" where
  "remove_lib parent name = on_nodes (\<lambda>f. bind_res (remove_node f parent name) (\<lambda>g. Inr (0, g)))"

definition fuse_lib_unlink :: "nat \<Rightarrow> nat \<Rightarrow> string \<Rightarrow> ('s, lib_reply) act" where
  "fuse_lib_unlink k parent name =
     bind_lib (with_path parent (Some name) (- ENOENT) (\<lambda>path.
       bind_lib get_conf (\<lambda>c.
       bind_lib (if cf_hard_remove c then ret_lib False else on_nodes (is_open parent name)) (\<lambda>opened.
         if opened then hide_node k path parent name
         else bind_lib (on_fs (\<lambda>p. fuse_fs_unlink p path)) (\<lambda>err. unless_err err True (remove_lib parent name))))))
     reply_err"

definition fuse_lib_rmdir :: "nat \<Rightarrow> string \<Rightarrow> ('s, lib_reply) act" where
  "fuse_lib_rmdir parent name =
     bind_lib (with_path parent (Some name) (- ENOENT) (\<lambda>path.
       bind_lib (on_fs (\<lambda>p. fuse_fs_rmdir p path)) (\<lambda>err. unless_err err True (remove_lib parent name)))) reply_err"

definition fuse_lib_rename :: "nat \<Rightarrow> nat \<Rightarrow> string \<Rightarrow> nat \<Rightarrow> string \<Rightarrow> ('s, lib_reply) act" where
  "fuse_lib_rename k olddir oldname newdir newname =
     bind_lib (with_path olddir (Some oldname) (- ENOENT) (\<lambda>oldpath.
       with_path newdir (Some newname) (- ENOENT) (\<lambda>newpath.
         bind_lib get_conf (\<lambda>c.
         bind_lib (if cf_hard_remove c then ret_lib False else on_nodes (is_open newdir newname)) (\<lambda>opened.
         bind_lib (if opened then hide_node k newpath newdir newname else ret_lib 0) (\<lambda>err.
         bind_lib (unless_err err True (on_fs (\<lambda>p. fuse_fs_rename p oldpath newpath))) (\<lambda>err1.
           unless_err err1 True (on_nodes (\<lambda>f. rename_node f olddir oldname newdir newname False)))))))))
     reply_err"

section \<open>Open files\<close>

definition fuse_do_release :: "nat \<Rightarrow> string option \<Rightarrow> fuse_file_info \<Rightarrow> ('s, unit) act" where
  "fuse_do_release i path fi =
     bind_lib (on_fs (\<lambda>p. fuse_fs_release p (case path of None \<Rightarrow> ''-'' | Some s \<Rightarrow> s) fi)) (\<lambda>_.
     bind_lib (on_nodes (\<lambda>f.
       bind_res (get_node f i) (\<lambda>a.
       bind_res (deref f a) (\<lambda>n.
         if nd_open_count n \<le> 0 then Inl aborted
         else let last = (nd_is_hidden n \<and> nd_open_count n - 1 = 0) in
           Inr (last, set_node f a (n\<lparr>nd_open_count := nd_open_count n - 1,
                                      nd_is_hidden := (nd_is_hidden n \<and> \<not> last)\<rparr>)))))) (\<lambda>unlink_hidden.
       case path of
         None \<Rightarrow> ret_lib ()
       | Some s \<Rightarrow> if unlink_hidden then bind_lib (on_fs (\<lambda>p. fuse_fs_unlink p s)) (\<lambda>_. ret_lib ()) else ret_lib ()))"

text \<open>\<open>get_node(f, ino)->open_count++\<close>\<close>

definition count_open :: "nat \<Rightarrow> fuse \<Rightarrow> (unit \<times> fuse) res" where
  "count_open i f =
     bind_res (get_node f i) (\<lambda>a.
     bind_res (deref f a) (\<lambda>n.
       if nd_open_count n \<ge> INT_MAX then Inl Undefined
       else Inr ((), set_node f a (n\<lparr>nd_open_count := nd_open_count n + 1\<rparr>))))"

definition open_flags :: "fuse_config \<Rightarrow> fuse_file_info \<Rightarrow> fuse_file_info" where
  "open_flags c fi =
     fi\<lparr>fi_direct_io := (if cf_direct_io c then True else fi_direct_io fi),
        fi_keep_cache := (if cf_kernel_cache c then True else fi_keep_cache fi)\<rparr>"

definition fuse_lib_create :: "nat \<Rightarrow> bool \<Rightarrow> nat \<Rightarrow> string \<Rightarrow> mode_t \<Rightarrow> fuse_file_info \<Rightarrow> ('s, lib_reply) act" where
  "fuse_lib_create k lost parent name mode fi0 =
     bind_lib (path_of parent (Some name)) (\<lambda>r. case r of None \<Rightarrow> reply_err (- ENOENT)
       | Some path \<Rightarrow>
           bind_lib (on_fs (\<lambda>p. fuse_fs_create p path mode fi0)) (\<lambda>(err, fi).
             if err \<noteq> 0 then reply_err err
             else bind_lib (lookup_path k parent name path (Some fi)) (\<lambda>(err, e).
               if err \<noteq> 0 then bind_lib (on_fs (\<lambda>p. fuse_fs_release p path fi)) (\<lambda>_. reply_err err)
               else if \<not> S_ISREG (st_mode (at_st (ep_attr e)))
               then bind_lib (on_fs (\<lambda>p. fuse_fs_release p path fi)) (\<lambda>_.
                    bind_lib (forget_lib (ep_ino e) 1) (\<lambda>_. reply_err (- EIO)))
               else bind_lib get_conf (\<lambda>c. let fi1 = open_flags c fi in
                    bind_lib (on_nodes (count_open (ep_ino e))) (\<lambda>_.
                      if lost
                      then bind_lib (fuse_do_release (ep_ino e) (Some path) fi1) (\<lambda>_.
                           bind_lib (forget_lib (ep_ino e) 1) (\<lambda>_. ret_lib (Reply_Create e fi1)))
                      else ret_lib (Reply_Create e fi1))))))"

definition diff_timespec :: "int \<Rightarrow> int \<Rightarrow> rat" where
  "diff_timespec t1 t2 = of_int (t1 - t2) / 1000000000"

definition open_auto_cache :: "nat \<Rightarrow> string \<Rightarrow> fuse_file_info \<Rightarrow> ('s, fuse_file_info) act" where
  "open_auto_cache i path fi =
     bind_lib (on_nodes (node_of i)) (\<lambda>a.
     bind_lib (on_nodes (change_node a (\<lambda>n. n))) (\<lambda>n.
     bind_lib
       (if nd_cache_valid n
        then bind_lib curr_time (\<lambda>now. bind_lib get_conf (\<lambda>c.
               if diff_timespec now (nd_stat_updated n) > cf_ac_attr_timeout c
               then bind_lib (on_fs (\<lambda>p. fuse_fs_fgetattr p path fi)) (\<lambda>(err, st).
                      if err = 0 then update_stat a st
                      else bind_lib (on_nodes (change_node a (\<lambda>n. n\<lparr>nd_cache_valid := False\<rparr>))) (\<lambda>_. ret_lib ()))
               else ret_lib ()))
        else ret_lib ()) (\<lambda>_.
     bind_lib (on_nodes (change_node a (\<lambda>n. n\<lparr>nd_cache_valid := True\<rparr>))) (\<lambda>n1.
       ret_lib (if nd_cache_valid n1 then fi\<lparr>fi_keep_cache := True\<rparr> else fi)))))"

definition fuse_lib_open :: "bool \<Rightarrow> nat \<Rightarrow> fuse_file_info \<Rightarrow> ('s, lib_reply) act" where
  "fuse_lib_open lost i fi0 =
     bind_lib (path_of i None) (\<lambda>r. case r of None \<Rightarrow> reply_err (- ENOENT)
       | Some path \<Rightarrow>
           bind_lib (on_fs (\<lambda>p. fuse_fs_open p path fi0)) (\<lambda>(err, fi).
             if err \<noteq> 0 then reply_err err
             else bind_lib get_conf (\<lambda>c. let fi1 = open_flags c fi in
               bind_lib (if cf_auto_cache c then open_auto_cache i path fi1 else ret_lib fi1) (\<lambda>fi2.
               bind_lib (on_nodes (count_open i)) (\<lambda>_.
                 if lost then bind_lib (fuse_do_release i (Some path) fi2) (\<lambda>_. ret_lib (Reply_Open fi2))
                 else ret_lib (Reply_Open fi2))))))"

text \<open>\<open>malloc\<close> of a buffer of the library\<close>

definition alloc_lib :: "('s, bool) act" where
  "alloc_lib = on_nodes (\<lambda>f. let (ok, m) = alloc (fu_mem f) in Inr (ok, f\<lparr>fu_mem := m\<rparr>))"

text \<open>\<open>fuse_reply_buf\<close> of the first bytes of a buffer: to read behind it, or bytes never written, is undefined.\<close>

definition reply_buf :: "nat \<Rightarrow> int \<Rightarrow> string \<Rightarrow> ('s, lib_reply) act" where
  "reply_buf sz res bytes =
     (if nat res \<le> sz \<and> nat res \<le> length bytes then ret_lib (Reply_Buf (take (nat res) bytes))
      else (\<lambda>l. Some (Inl Undefined)))"

definition fuse_lib_read :: "nat \<Rightarrow> nat \<Rightarrow> off_t \<Rightarrow> fuse_file_info \<Rightarrow> ('s, lib_reply) act" where
  "fuse_lib_read i sz off fi =
     bind_lib alloc_lib (\<lambda>ok. if \<not> ok then reply_err (- ENOMEM)
       else bind_lib (with_path i None (- ENOENT, []) (\<lambda>path. on_fs (\<lambda>p. fuse_fs_read p path sz off fi))) (\<lambda>(res, buf).
         if 0 \<le> res then reply_buf sz res buf else reply_err res))"

definition fuse_lib_write :: "nat \<Rightarrow> string \<Rightarrow> nat \<Rightarrow> off_t \<Rightarrow> fuse_file_info \<Rightarrow> ('s, lib_reply) act" where
  "fuse_lib_write i buf sz off fi =
     bind_lib (with_path i None (- ENOENT) (\<lambda>path. on_fs (\<lambda>p. fuse_fs_write p path buf sz off fi))) (\<lambda>res.
       if 0 \<le> res then ret_lib (Reply_Write res) else reply_err res)"

definition fuse_lib_fsync :: "nat \<Rightarrow> int \<Rightarrow> fuse_file_info \<Rightarrow> ('s, lib_reply) act" where
  "fuse_lib_fsync i datasync fi = path_request i None (\<lambda>p path. fuse_fs_fsync p path datasync fi)"

section \<open>Other requests\<close>

definition fuse_lib_statfs :: "nat \<Rightarrow> ('s, lib_reply) act" where
  "fuse_lib_statfs i =
     bind_lib (if i = 0 then bind_lib alloc_lib (\<lambda>ok. ret_lib (if ok then Some ''/'' else None)) else path_of i None) (\<lambda>r.
     bind_lib (case r of None \<Rightarrow> ret_lib (if i = 0 then - ENOMEM else - ENOENT, statvfs_zero)
               | Some path \<Rightarrow> on_fs (\<lambda>p. fuse_fs_statfs p path)) (\<lambda>(err, buf).
       if err = 0 then ret_lib (Reply_Statfs buf) else reply_err err))"

definition fuse_lib_setxattr :: "nat \<Rightarrow> string \<Rightarrow> string \<Rightarrow> nat \<Rightarrow> int \<Rightarrow> ('s, lib_reply) act" where
  "fuse_lib_setxattr i name val sz flags = path_request i None (\<lambda>p path. fuse_fs_setxattr p path name val sz flags)"

text \<open>The common part of \<open>fuse_lib_getxattr\<close> and \<open>fuse_lib_listxattr\<close>.\<close>

definition xattr_request :: "nat \<Rightarrow> ('s, int \<times> string) act \<Rightarrow> ('s, lib_reply) act" where
  "xattr_request sz m =
     (if sz \<noteq> 0
      then bind_lib alloc_lib (\<lambda>ok. if \<not> ok then reply_err (- ENOMEM)
             else bind_lib m (\<lambda>(res, val). if 0 < res then reply_buf sz res val else reply_err res))
      else bind_lib m (\<lambda>(res, val). if 0 \<le> res then ret_lib (Reply_Xattr res) else reply_err res))"

definition common_getxattr :: "nat \<Rightarrow> string \<Rightarrow> nat \<Rightarrow> ('s, int \<times> string) act" where
  "common_getxattr i name sz = with_path i None (- ENOENT, []) (\<lambda>path. on_fs (\<lambda>p. fuse_fs_getxattr p path name sz))"

definition fuse_lib_getxattr :: "nat \<Rightarrow> string \<Rightarrow> nat \<Rightarrow> ('s, lib_reply) act" where
  "fuse_lib_getxattr i name sz = xattr_request sz (common_getxattr i name sz)"

definition common_listxattr :: "nat \<Rightarrow> nat \<Rightarrow> ('s, int \<times> string) act" where
  "common_listxattr i sz = with_path i None (- ENOENT, []) (\<lambda>path. on_fs (\<lambda>p. fuse_fs_listxattr p path sz))"

definition fuse_lib_listxattr :: "nat \<Rightarrow> nat \<Rightarrow> ('s, lib_reply) act" where
  "fuse_lib_listxattr i sz = xattr_request sz (common_listxattr i sz)"

definition fuse_lib_removexattr :: "nat \<Rightarrow> string \<Rightarrow> ('s, lib_reply) act" where
  "fuse_lib_removexattr i name = path_request i None (\<lambda>p path. fuse_fs_removexattr p path name)"

definition fuse_lib_bmap :: "nat \<Rightarrow> nat \<Rightarrow> nat \<Rightarrow> ('s, lib_reply) act" where
  "fuse_lib_bmap i blocksize idx =
     bind_lib (with_path i None (- ENOENT, idx) (\<lambda>path. on_fs (\<lambda>p. fuse_fs_bmap p path blocksize idx))) (\<lambda>(err, idx').
       if err = 0 then ret_lib (Reply_Bmap idx') else reply_err err)"

section \<open>File locks\<close>

definition F_GETLK :: int where "F_GETLK = 5"
definition F_SETLK :: int where "F_SETLK = 6"
definition F_SETLKW :: int where "F_SETLKW = 7"

text \<open>\<open>flock_to_lock(lock, &l); l.owner = fi->lock_owner; locks_insert(get_node(f, ino), &l)\<close>\<close>

definition insert_node_lock :: "nat \<Rightarrow> fuse_file_info \<Rightarrow> flock \<Rightarrow> fuse \<Rightarrow> (unit \<times> fuse) res" where
  "insert_node_lock i fi fl f =
     bind_res (flock_to_lock fl) (\<lambda>l.
     bind_res (get_node f i) (\<lambda>a.
     bind_res (deref f a) (\<lambda>n.
     bind_res (locks_insert (fu_mem f) (nd_locks n) (l\<lparr>lk_owner := fi_lock_owner fi\<rparr>)) (\<lambda>(_, m, ls).
       Inr ((), (set_node f a (n\<lparr>nd_locks := ls\<rparr>))\<lparr>fu_mem := m\<rparr>)))))"

definition fuse_flush_common :: "nat \<Rightarrow> string option \<Rightarrow> fuse_file_info \<Rightarrow> ('s, int) act" where
  "fuse_flush_common i path fi =
     bind_lib (on_fs (\<lambda>p. fuse_fs_flush p path fi)) (\<lambda>err.
     bind_lib (on_fs (\<lambda>p. fuse_fs_lock p path fi F_SETLK \<lparr>fl_type = F_UNLCK, fl_start = 0, fl_len = 0, fl_pid = 0\<rparr>)) (\<lambda>(errlock, fl).
       if errlock \<noteq> - ENOSYS
       then bind_lib (on_nodes (insert_node_lock i fi fl)) (\<lambda>_. ret_lib (if err = - ENOSYS then 0 else err))
       else ret_lib err))"

definition fuse_lib_release :: "nat \<Rightarrow> fuse_file_info \<Rightarrow> ('s, lib_reply) act" where
  "fuse_lib_release i fi =
     bind_lib (path_of i None) (\<lambda>path.
     bind_lib (if fi_flush fi
               then bind_lib (fuse_flush_common i path fi) (\<lambda>err. ret_lib (if err = - ENOSYS then 0 else err))
               else ret_lib 0) (\<lambda>err.
     bind_lib (fuse_do_release i path fi) (\<lambda>_. reply_err err)))"

definition fuse_lib_flush :: "nat \<Rightarrow> fuse_file_info \<Rightarrow> ('s, lib_reply) act" where
  "fuse_lib_flush i fi = bind_lib (path_of i None) (\<lambda>path. bind_lib (fuse_flush_common i path fi) reply_err)"

definition fuse_lock_common :: "nat \<Rightarrow> fuse_file_info \<Rightarrow> flock \<Rightarrow> int \<Rightarrow> ('s, int \<times> flock) act" where
  "fuse_lock_common i fi fl cmd =
     with_path i None (- ENOENT, fl) (\<lambda>path. on_fs (\<lambda>p. fuse_fs_lock p (Some path) fi cmd fl))"

definition fuse_lib_getlk :: "nat \<Rightarrow> fuse_file_info \<Rightarrow> flock \<Rightarrow> ('s, lib_reply) act" where
  "fuse_lib_getlk i fi fl =
     bind_lib (on_nodes (\<lambda>f.
       bind_res (flock_to_lock fl) (\<lambda>l.
       bind_res (get_node f i) (\<lambda>a.
       bind_res (deref f a) (\<lambda>n. Inr (locks_conflict (nd_locks n) (l\<lparr>lk_owner := fi_lock_owner fi\<rparr>), f)))))) (\<lambda>conflict.
     bind_lib (case conflict of Some l \<Rightarrow> ret_lib (0, lock_to_flock l) | None \<Rightarrow> fuse_lock_common i fi fl F_GETLK) (\<lambda>(err, fl').
       if err = 0 then ret_lib (Reply_Lock fl') else reply_err err))"

definition fuse_lib_setlk :: "nat \<Rightarrow> fuse_file_info \<Rightarrow> flock \<Rightarrow> bool \<Rightarrow> ('s, lib_reply) act" where
  "fuse_lib_setlk i fi fl wait =
     bind_lib (fuse_lock_common i fi fl (if wait then F_SETLKW else F_SETLK)) (\<lambda>(err, fl').
       if err = 0 then bind_lib (on_nodes (insert_node_lock i fi fl')) (\<lambda>_. reply_err 0) else reply_err err)"

section \<open>The table of handlers\<close>

text \<open>The requests of the kernel, and \<open>fuse_path_ops\<close>: which handler answers which request. The requests on
  open directories are in \<open>Fuse_Dir\<close>.\<close>

datatype lib_request =
  Lookup nat string | Forget nat nat | Get_Attr nat | Set_Attr nat stat "32 word" "fuse_file_info option"
| Check_Access nat int | Read_Link nat | Make_Node nat string mode_t dev_t | Make_Dir nat string mode_t
| Unlink_Name nat string | Remove_Dir nat string | Make_Symlink string nat string | Rename_Name nat string nat string
| Make_Link nat nat string | Create_File nat string mode_t fuse_file_info | Open_File nat fuse_file_info
| Read_File nat nat off_t fuse_file_info | Write_File nat string nat off_t fuse_file_info | Flush_File nat fuse_file_info
| Release_File nat fuse_file_info | Sync_File nat int fuse_file_info | Stat_Fs nat
| Set_Xattr nat string string nat int | Get_Xattr nat string nat | List_Xattr nat nat | Remove_Xattr nat string
| Get_Lock nat fuse_file_info flock | Set_Lock nat fuse_file_info flock bool | Map_Block nat nat nat

fun fuse_path_ops :: "nat \<Rightarrow> bool \<Rightarrow> lib_request \<Rightarrow> ('s, lib_reply) act" where
  "fuse_path_ops k lost (Lookup i s) = fuse_lib_lookup k lost i s"
| "fuse_path_ops k lost (Forget i n) = fuse_lib_forget i n"
| "fuse_path_ops k lost (Get_Attr i) = fuse_lib_getattr i"
| "fuse_path_ops k lost (Set_Attr i attr valid fi) = fuse_lib_setattr i attr valid fi"
| "fuse_path_ops k lost (Check_Access i msk) = fuse_lib_access i msk"
| "fuse_path_ops k lost (Read_Link i) = fuse_lib_readlink i"
| "fuse_path_ops k lost (Make_Node i s mode rdev) = fuse_lib_mknod k lost i s mode rdev"
| "fuse_path_ops k lost (Make_Dir i s mode) = fuse_lib_mkdir k lost i s mode"
| "fuse_path_ops k lost (Unlink_Name i s) = fuse_lib_unlink k i s"
| "fuse_path_ops k lost (Remove_Dir i s) = fuse_lib_rmdir i s"
| "fuse_path_ops k lost (Make_Symlink t i s) = fuse_lib_symlink k lost t i s"
| "fuse_path_ops k lost (Rename_Name i s j t) = fuse_lib_rename k i s j t"
| "fuse_path_ops k lost (Make_Link j i s) = fuse_lib_link k lost j i s"
| "fuse_path_ops k lost (Create_File i s mode fi) = fuse_lib_create k lost i s mode fi"
| "fuse_path_ops k lost (Open_File i fi) = fuse_lib_open lost i fi"
| "fuse_path_ops k lost (Read_File i sz off fi) = fuse_lib_read i sz off fi"
| "fuse_path_ops k lost (Write_File i buf sz off fi) = fuse_lib_write i buf sz off fi"
| "fuse_path_ops k lost (Flush_File i fi) = fuse_lib_flush i fi"
| "fuse_path_ops k lost (Release_File i fi) = fuse_lib_release i fi"
| "fuse_path_ops k lost (Sync_File i datasync fi) = fuse_lib_fsync i datasync fi"
| "fuse_path_ops k lost (Stat_Fs i) = fuse_lib_statfs i"
| "fuse_path_ops k lost (Set_Xattr i s v sz flags) = fuse_lib_setxattr i s v sz flags"
| "fuse_path_ops k lost (Get_Xattr i s sz) = fuse_lib_getxattr i s sz"
| "fuse_path_ops k lost (List_Xattr i sz) = fuse_lib_listxattr i sz"
| "fuse_path_ops k lost (Remove_Xattr i s) = fuse_lib_removexattr i s"
| "fuse_path_ops k lost (Get_Lock i fi fl) = fuse_lib_getlk i fi fl"
| "fuse_path_ops k lost (Set_Lock i fi fl wait) = fuse_lib_setlk i fi fl wait"
| "fuse_path_ops k lost (Map_Block i sz idx) = fuse_lib_bmap i sz idx"

end
