(* ===== verification/Fuse_Dir.thy ===== *)
theory Fuse_Dir
  imports Fuse_Lib
begin

text \<open>
  Open directories in libfuse (\<open>other_fs/fuse-2.7.3/lib/fuse.c\<close> and \<open>fuse_lowlevel.c\<close>): a handle keeps the
  entries that the file system has filled in, encoded as the kernel reads them, and \<open>fuse_lib_readdir\<close> replies
  with a piece of them. The handle, which the kernel gives back as a pointer in \<open>fh\<close>, is an argument and a
  result of the handlers; its mutex is not modelled.
\<close>

section \<open>Directory entries\<close>

text \<open>The bytes of a number in memory, lowest first, and the number that they show.\<close>

definition le_bytes :: "nat \<Rightarrow> nat \<Rightarrow> string" where
  "le_bytes k x = map (\<lambda>i. char_of (x div 256 ^ i mod 256)) [0..<k]"

primrec le_val :: "string \<Rightarrow> nat" where
  "le_val [] = 0"
| "le_val (c # cs) = of_char c + 256 * le_val cs"

definition FUSE_NAME_OFFSET :: nat where "FUSE_NAME_OFFSET = 24"

definition FUSE_DIRENT_ALIGN :: "64 word \<Rightarrow> 64 word" where
  "FUSE_DIRENT_ALIGN x = and (x + 8 - 1) (not (8 - 1))"

definition fuse_dirent_size :: "nat \<Rightarrow> nat" where
  "fuse_dirent_size namelen = unat (FUSE_DIRENT_ALIGN (word_of_nat (FUSE_NAME_OFFSET + namelen)))"

text \<open>The bytes that \<open>fuse_add_dirent\<close> stores: \<open>struct fuse_dirent\<close>, the name, and zeros up to the next entry.\<close>

definition fuse_add_dirent :: "string \<Rightarrow> fattr \<Rightarrow> off_t \<Rightarrow> string" where
  "fuse_add_dirent name stbuf off =
     (let namelen = length name; entlen = FUSE_NAME_OFFSET + namelen; entsize = fuse_dirent_size namelen; padlen = entsize - entlen in
      le_bytes 8 (at_ino stbuf) @ le_bytes 8 (unat off) @ le_bytes 4 namelen @
      le_bytes 4 (unat (drop_bit 12 (and (st_mode (at_st stbuf)) 0xF000))) @ name @ replicate padlen NUL)"

section \<open>Handles\<close>

text \<open>\<open>struct fuse_dh\<close>. \<open>dh_contents\<close> holds the bytes written so far of the \<open>dh_size\<close> bytes that are allocated.\<close>

record fuse_dh =
  dh_contents :: string
  dh_len :: nat
  dh_size :: nat
  dh_needlen :: nat
  dh_filled :: bool
  dh_fh :: nat
  dh_error :: int
  dh_nodeid :: nat

text \<open>The loop of \<open>extend_contents\<close>, on 32-bit numbers.\<close>

partial_function (option) grow :: "nat \<Rightarrow> nat \<Rightarrow> nat option" where
  [code]: "grow newsize minsize = (if newsize < minsize then grow (newsize * 2 mod 2 ^ 32) minsize else Some newsize)"

text \<open>The result is \<open>False\<close> when there is no memory. The handle comes with the allocator's state.\<close>

definition extend_contents :: "nat \<Rightarrow> fuse_dh \<times> mem \<Rightarrow> (bool \<times> fuse_dh \<times> mem) option" where
  "extend_contents minsize = (\<lambda>(dh, m).
     if minsize > dh_size dh
     then map_option (\<lambda>newsize.
            let (ok, m1) = alloc m in
            if ok then (True, dh\<lparr>dh_size := newsize\<rparr>, m1) else (False, dh\<lparr>dh_error := - ENOMEM\<rparr>, m1))
          (grow (if dh_size dh = 0 then 1024 else dh_size dh) minsize)
     else Some (True, dh, m))"

text \<open>Bytes at \<open>contents + len\<close>; outside the allocation that is undefined.\<close>

definition put_bytes :: "string \<Rightarrow> fuse_dh \<Rightarrow> fuse_dh res" where
  "put_bytes bytes dh =
     (if dh_len dh + length bytes \<le> dh_size dh
      then Inr (dh\<lparr>dh_contents := take (dh_len dh) (dh_contents dh) @ bytes @ drop (dh_len dh + length bytes) (dh_contents dh)\<rparr>)
      else Inl Undefined)"

text \<open>\<open>fuse_add_direntry\<close> into the handle, with \<open>bufsize\<close> bytes of room: the size of the entry, which is written
  if it fits.\<close>

definition fuse_add_direntry :: "nat \<Rightarrow> string \<Rightarrow> fattr \<Rightarrow> off_t \<Rightarrow> fuse_dh \<Rightarrow> (nat \<times> fuse_dh) res" where
  "fuse_add_direntry bufsize name stbuf off dh =
     (let entsize = fuse_dirent_size (length name) in
      if entsize \<le> bufsize
      then bind_res (put_bytes (fuse_add_dirent name stbuf off) dh) (\<lambda>dh1. Inr (entsize, dh1))
      else Inr (entsize, dh))"

text \<open>The inode number that an entry shows.\<close>

definition fill_ino :: "fuse_config \<Rightarrow> fuse \<Rightarrow> nat \<Rightarrow> string \<Rightarrow> nat \<Rightarrow> nat res" where
  "fill_ino c f dir name ino =
     (if cf_use_ino c then Inr ino
      else if cf_readdir_ino c
      then bind_res (lookup_node f dir name) (\<lambda>r. case r of
             None \<Rightarrow> Inr FUSE_UNKNOWN_INO | Some a \<Rightarrow> bind_res (deref f a) (\<lambda>n. Inr (nd_id n)))
      else Inr FUSE_UNKNOWN_INO)"

text \<open>\<open>fill_dir\<close>: \<open>None\<close> is the loop of \<open>extend_contents\<close> that does not end.\<close>

definition fill_dir ::
  "fuse_config \<Rightarrow> fuse \<Rightarrow> fuse_dh \<times> mem \<Rightarrow> string \<Rightarrow> fattr option \<Rightarrow> off_t \<Rightarrow> ((fuse_dh \<times> mem) \<times> int) res option" where
  "fill_dir c f dm name statp off =
     (let st0 = (case statp of Some st \<Rightarrow> st | None \<Rightarrow> no_attr\<lparr>at_ino := FUSE_UNKNOWN_INO\<rparr>) in
      case fill_ino c f (dh_nodeid (fst dm)) name (at_ino st0) of
        Inl e \<Rightarrow> Some (Inl e)
      | Inr ino \<Rightarrow>
          let stbuf = st0\<lparr>at_ino := ino\<rparr> in
          if off \<noteq> 0
          then map_option (\<lambda>(ok, dh, m).
                 if \<not> ok then Inr ((dh, m), 1)
                 else let dh1 = dh\<lparr>dh_filled := False\<rparr> in
                   bind_res (fuse_add_direntry (nat ((int (dh_needlen dh1) - int (dh_len dh1)) mod 2 ^ 32)) name stbuf off dh1)
                     (\<lambda>(entsize, dh2).
                        let newlen = dh_len dh2 + entsize in
                        if newlen > dh_needlen dh2 then Inr ((dh2, m), 1)
                        else Inr ((dh2\<lparr>dh_len := newlen mod 2 ^ 32\<rparr>, m), 0)))
               (extend_contents (dh_needlen (fst dm)) dm)
          else let newlen = dh_len (fst dm) + fuse_dirent_size (length name) in
               map_option (\<lambda>(ok, dh, m).
                 if \<not> ok then Inr ((dh, m), 1)
                 else bind_res (fuse_add_direntry (nat ((int (dh_size dh) - int (dh_len dh)) mod 2 ^ 32)) name stbuf (word_of_nat newlen) dh)
                   (\<lambda>(_, dh1). Inr ((dh1\<lparr>dh_len := newlen mod 2 ^ 32\<rparr>, m), 0)))
               (extend_contents (newlen mod 2 ^ 32) dm))"

section \<open>Calls of the file system\<close>

text \<open>
  The operations on directories of \<open>struct fuse_operations\<close>. \<open>'b\<close> is what the filler fills. \<open>readdir\<close> is told
  how many bytes the buffer of the path has.
\<close>

type_synonym 'b dir_filler = "'b \<Rightarrow> string \<Rightarrow> fattr option \<Rightarrow> off_t \<Rightarrow> 'b \<times> int"

record ('s, 'b) dir_operations =
  op_opendir :: "(string \<Rightarrow> fuse_file_info \<Rightarrow> 's \<Rightarrow> ((int \<times> fuse_file_info) \<times> 's) res) option"
  op_readdir :: "(string \<Rightarrow> nat \<Rightarrow> 'b \<Rightarrow> 'b dir_filler \<Rightarrow> off_t \<Rightarrow> fuse_file_info \<Rightarrow> 's \<Rightarrow> ((int \<times> 'b) \<times> 's) res) option"
  op_getdir :: "(string \<Rightarrow> nat \<Rightarrow> 'b \<Rightarrow> ('b \<Rightarrow> string \<Rightarrow> int \<Rightarrow> nat \<Rightarrow> 'b \<times> int) \<Rightarrow> 's \<Rightarrow> ((int \<times> 'b) \<times> 's) res) option"
  op_releasedir :: "(string \<Rightarrow> fuse_file_info \<Rightarrow> 's \<Rightarrow> (int \<times> 's) res) option"
  op_fsyncdir :: "(string \<Rightarrow> int \<Rightarrow> fuse_file_info \<Rightarrow> 's \<Rightarrow> (int \<times> 's) res) option"

definition fuse_fs_opendir :: "('s, 'b) dir_operations \<Rightarrow> string \<Rightarrow> fuse_file_info \<Rightarrow> 's \<Rightarrow> ((int \<times> fuse_file_info) \<times> 's) res" where
  "fuse_fs_opendir d path fi = call_or (map_option (\<lambda>g. g path fi) (op_opendir d)) (0, fi)"

definition fuse_fs_releasedir :: "('s, 'b) dir_operations \<Rightarrow> string \<Rightarrow> fuse_file_info \<Rightarrow> 's \<Rightarrow> (int \<times> 's) res" where
  "fuse_fs_releasedir d path fi = call_or (map_option (\<lambda>g. g path fi) (op_releasedir d)) 0"

definition fuse_fs_fsyncdir :: "('s, 'b) dir_operations \<Rightarrow> string \<Rightarrow> int \<Rightarrow> fuse_file_info \<Rightarrow> 's \<Rightarrow> (int \<times> 's) res" where
  "fuse_fs_fsyncdir d path datasync fi = call_or (map_option (\<lambda>g. g path datasync fi) (op_fsyncdir d)) (- ENOSYS)"

definition fill_dir_old :: "'b dir_filler \<Rightarrow> 'b \<Rightarrow> string \<Rightarrow> int \<Rightarrow> nat \<Rightarrow> 'b \<times> int" where
  "fill_dir_old filler buf name type ino =
     (let (buf1, res) = filler buf name (Some \<lparr>at_st = stat_zero\<lparr>st_mode := word_of_int (type * 4096)\<rparr>, at_ino = ino\<rparr>) 0 in
      (buf1, if res \<noteq> 0 then - ENOMEM else 0))"

definition fuse_fs_readdir ::
  "('s, 'b) dir_operations \<Rightarrow> string \<Rightarrow> nat \<Rightarrow> 'b \<Rightarrow> 'b dir_filler \<Rightarrow> off_t \<Rightarrow> fuse_file_info \<Rightarrow> 's \<Rightarrow> ((int \<times> 'b) \<times> 's) res" where
  "fuse_fs_readdir d path cap buf filler off fi s =
     (case op_readdir d of
        Some g \<Rightarrow> g path cap buf filler off fi s
      | None \<Rightarrow> (case op_getdir d of
          Some g \<Rightarrow> g path cap buf (fill_dir_old filler) s
        | None \<Rightarrow> Inr ((- ENOSYS, buf), s)))"

section \<open>Handlers\<close>

text \<open>What the filler fills: the handle and the allocator, once \<open>fill_dir\<close> has neither failed nor hung.\<close>

type_synonym dir_buf = "(fuse_dh \<times> mem) res option"

definition dh_filler :: "fuse_config \<Rightarrow> fuse \<Rightarrow> dir_buf dir_filler" where
  "dh_filler c f b name st off =
     (case b of
        Some (Inr dm) \<Rightarrow>
          (case fill_dir c f dm name st off of
             Some (Inr (dm1, r)) \<Rightarrow> (Some (Inr dm1), r)
           | Some (Inl e) \<Rightarrow> (Some (Inl e), 1)
           | None \<Rightarrow> (None, 1))
      | _ \<Rightarrow> (b, 1))"

definition get_dirhandle :: "fuse_dh \<Rightarrow> fuse_file_info" where
  "get_dirhandle dh = no_file_info\<lparr>fi_fh := dh_fh dh\<rparr>"

definition new_dirhandle :: "nat \<Rightarrow> fuse_dh" where
  "new_dirhandle i = \<lparr>dh_contents = [], dh_len = 0, dh_size = 0, dh_needlen = 0, dh_filled = False, dh_fh = 0, dh_error = 0, dh_nodeid = i\<rparr>"

text \<open>The handle lives on if the kernel takes the reply.\<close>

definition fuse_lib_opendir :: "('s, dir_buf) dir_operations \<Rightarrow> bool \<Rightarrow> nat \<Rightarrow> nat \<Rightarrow> ('s, lib_reply \<times> fuse_dh option) act" where
  "fuse_lib_opendir d lost i flags =
     bind_lib alloc_lib (\<lambda>ok. if \<not> ok then bind_lib (reply_err (- ENOMEM)) (\<lambda>r. ret_lib (r, None))
     else let fi0 = no_file_info\<lparr>fi_flags := flags\<rparr> in
       bind_lib (path_of i None) (\<lambda>r. case r of None \<Rightarrow> bind_lib (reply_err (- ENOENT)) (\<lambda>r. ret_lib (r, None))
       | Some path \<Rightarrow>
           bind_lib (on_fs (\<lambda>_. fuse_fs_opendir d path fi0)) (\<lambda>(err, fi).
             if err \<noteq> 0 then bind_lib (reply_err err) (\<lambda>r. ret_lib (r, None))
             else let dh = (new_dirhandle i)\<lparr>dh_fh := fi_fh fi\<rparr> in
               if lost then bind_lib (on_fs (\<lambda>_. fuse_fs_releasedir d path fi)) (\<lambda>_. ret_lib (Reply_Open fi0, None))
               else ret_lib (Reply_Open fi0, Some dh))))"

text \<open>The path that \<open>readdir\<close> gets is the copy that \<open>strdup\<close> made.\<close>

definition readdir_fill ::
  "('s, dir_buf) dir_operations \<Rightarrow> nat \<Rightarrow> nat \<Rightarrow> off_t \<Rightarrow> fuse_dh \<Rightarrow> fuse_file_info \<Rightarrow> ('s, int \<times> fuse_dh) act" where
  "readdir_fill d i sz off dh fi =
     with_path i None (- ENOENT, dh) (\<lambda>path l.
       let dh1 = dh\<lparr>dh_len := 0, dh_error := 0, dh_needlen := sz mod 2 ^ 32, dh_filled := True\<rparr> in
       case fuse_fs_readdir d path (length path + 1) (Some (Inr (dh1, fu_mem (lb_f l)))) (dh_filler (lb_conf l) (lb_f l)) off fi (lb_fs l) of
         Inl e \<Rightarrow> Some (Inl e)
       | Inr ((err, b), s) \<Rightarrow>
           map_option (\<lambda>r. bind_res r (\<lambda>(dh2, m).
             let err1 = (if err = 0 then dh_error dh2 else err);
                 dh3 = (if err1 \<noteq> 0 then dh2\<lparr>dh_filled := False\<rparr> else dh2) in
             Inr ((err1, dh3), l\<lparr>lb_fs := s, lb_f := (lb_f l)\<lparr>fu_mem := m\<rparr>\<rparr>))) b)"

text \<open>The bytes of the reply; those before the buffer or behind what was written are undefined.\<close>

definition reply_piece :: "fuse_dh \<Rightarrow> int \<Rightarrow> nat \<Rightarrow> ('s, lib_reply \<times> fuse_dh) act" where
  "reply_piece dh off sz =
     (if sz = 0 then ret_lib (Reply_Buf [], dh)
      else if 0 \<le> off \<and> nat off + sz \<le> length (dh_contents dh)
      then ret_lib (Reply_Buf (take sz (drop (nat off) (dh_contents dh))), dh)
      else (\<lambda>l. Some (Inl Undefined)))"

text \<open>\<open>off\<close> is signed, and the sum \<open>off + size\<close> is not.\<close>

definition fuse_lib_readdir :: "('s, dir_buf) dir_operations \<Rightarrow> nat \<Rightarrow> nat \<Rightarrow> off_t \<Rightarrow> fuse_dh \<Rightarrow> ('s, lib_reply \<times> fuse_dh) act" where
  "fuse_lib_readdir d i sz off dh0 =
     (let fi = get_dirhandle dh0; dh1 = (if off = 0 then dh0\<lparr>dh_filled := False\<rparr> else dh0) in
      bind_lib (if dh_filled dh1 then ret_lib (0, dh1) else readdir_fill d i sz off dh1 fi) (\<lambda>(err, dh).
        if err \<noteq> 0 then bind_lib (reply_err err) (\<lambda>r. ret_lib (r, dh))
        else if dh_filled dh
        then (if sint off < int (dh_len dh)
              then reply_piece dh (sint off)
                     (if unat (off + word_of_nat sz) > dh_len dh then unat (word_of_nat (dh_len dh) - off) else sz)
              else reply_piece dh (sint off) 0)
        else reply_piece dh 0 (dh_len dh)))"

definition fuse_lib_releasedir :: "('s, dir_buf) dir_operations \<Rightarrow> nat \<Rightarrow> fuse_dh \<Rightarrow> ('s, lib_reply) act" where
  "fuse_lib_releasedir d i dh =
     bind_lib (path_of i None) (\<lambda>r.
     bind_lib (on_fs (\<lambda>_. fuse_fs_releasedir d (case r of Some path \<Rightarrow> path | None \<Rightarrow> ''-'') (get_dirhandle dh))) (\<lambda>_.
       reply_err 0))"

definition fuse_lib_fsyncdir :: "('s, dir_buf) dir_operations \<Rightarrow> nat \<Rightarrow> int \<Rightarrow> fuse_dh \<Rightarrow> ('s, lib_reply) act" where
  "fuse_lib_fsyncdir d i datasync dh =
     bind_lib (with_path i None (- ENOENT) (\<lambda>path. on_fs (\<lambda>_. fuse_fs_fsyncdir d path datasync (get_dirhandle dh)))) reply_err"

end
