(* ===== verification/Fuse_Lib_Laws.thy ===== *)
theory Fuse_Lib_Laws
  imports Fuse_Lib
begin

text \<open>
  Reasoning about the request handlers of \<open>Fuse_Lib\<close>: a weakest precondition for the steps of a handler, the
  invariant that the handlers keep, and what the calls on the node tables do to the open counts.
\<close>

section \<open>Weakest preconditions\<close>

definition wp :: "('s, 'a) act \<Rightarrow> 's lib \<Rightarrow> ('a \<Rightarrow> 's lib \<Rightarrow> bool) \<Rightarrow> bool" where
  "wp m l Q \<longleftrightarrow> (\<exists>x l'. m l = Some (Inr (x, l')) \<and> Q x l')"

named_theorems wp_intro \<open>rules for the steps of a handler\<close>

lemma wp_ret [wp_intro]: "Q x l \<Longrightarrow> wp (ret_lib x) l Q"
  by (simp add: wp_def ret_lib_def)

lemma wp_bind [wp_intro]: "wp m l (\<lambda>x l1. wp (k x) l1 Q) \<Longrightarrow> wp (bind_lib m k) l Q"
  by (auto simp: wp_def bind_lib_def)

lemma wp_mono: "wp m l P \<Longrightarrow> (\<And>x l1. P x l1 \<Longrightarrow> Q x l1) \<Longrightarrow> wp m l Q"
  by (auto simp: wp_def)

lemma wp_get_conf [wp_intro]: "Q (lb_conf l) l \<Longrightarrow> wp get_conf l Q"
  by (simp add: wp_def get_conf_def)

lemma wp_curr_time: "lb_clock l (lb_tick l) = Some t \<Longrightarrow> Q t (l\<lparr>lb_tick := lb_tick l + 1\<rparr>) \<Longrightarrow> wp curr_time l Q"
  by (simp add: wp_def curr_time_def)

lemma wp_reply_err [wp_intro]: "Q (Reply_Err (- err)) l \<Longrightarrow> wp (reply_err err) l Q"
  by (simp add: reply_err_def wp_ret)

lemma wp_on_nodes: "g (lb_f l) = Inr (x, f) \<Longrightarrow> Q x (l\<lparr>lb_f := f\<rparr>) \<Longrightarrow> wp (on_nodes g) l Q"
  by (simp add: wp_def on_nodes_def)

lemma wp_on_nodes_fuel: "g (lb_f l) = Some (Inr (x, f)) \<Longrightarrow> Q x (l\<lparr>lb_f := f\<rparr>) \<Longrightarrow> wp (on_nodes_fuel g) l Q"
  by (simp add: wp_def on_nodes_fuel_def)

lemma wp_on_fs: "g (lb_op l) (lb_fs l) = Inr (x, s) \<Longrightarrow> Q x (l\<lparr>lb_fs := s\<rparr>) \<Longrightarrow> wp (on_fs g) l Q"
  by (simp add: wp_def on_fs_def)

lemma wp_if [wp_intro]: "(b \<Longrightarrow> wp m l Q) \<Longrightarrow> (\<not> b \<Longrightarrow> wp n l Q) \<Longrightarrow> wp (if b then m else n) l Q"
  by simp

lemma wp_unless_err [wp_intro]:
  "(err = 0 \<Longrightarrow> b \<Longrightarrow> wp m l Q) \<Longrightarrow> (err \<noteq> 0 \<or> \<not> b \<Longrightarrow> Q err l) \<Longrightarrow> wp (unless_err err b m) l Q"
  by (auto simp: unless_err_def intro: wp_ret)

section \<open>States\<close>

text \<open>A node without the fields of the attribute cache.\<close>

definition core :: "node \<Rightarrow> node" where
  "core n = n\<lparr>nd_stat_updated := 0, nd_mtime := 0, nd_size := 0, nd_cache_valid := False\<rparr>"

text \<open>The node tables agree but for the attribute cache, the counters and the memory that has been used.\<close>

definition same_core :: "fuse \<Rightarrow> fuse \<Rightarrow> bool" where
  "same_core f g \<longleftrightarrow>
     (\<forall>a. map_option core (fu_nodes g a) = map_option core (fu_nodes f a)) \<and>
     fu_id_table g = fu_id_table f \<and> fu_id_table_size g = fu_id_table_size f \<and>
     fu_name_table g = fu_name_table f \<and> fu_name_table_size g = fu_name_table_size f \<and> fu_fresh g = fu_fresh f \<and>
     oom (fu_mem g) = oom (fu_mem f)"

lemma same_core_refl [simp]: "same_core f f"
  by (simp add: same_core_def)

lemma same_core_trans: "same_core f g \<Longrightarrow> same_core g h \<Longrightarrow> same_core f h"
  by (simp add: same_core_def)

lemma same_tables_core: "same_tables f g \<Longrightarrow> oom (fu_mem g) = oom (fu_mem f) \<Longrightarrow> same_core f g"
  by (simp add: same_core_def same_tables_def)

lemma same_core_set: "fu_nodes f a = Some n \<Longrightarrow> core n' = core n \<Longrightarrow> same_core f (set_node f a n')"
  by (simp add: same_core_def set_node_def)

definition openm :: "fuse \<Rightarrow> nat \<rightharpoonup> int" where
  "openm f a = map_option nd_open_count (fu_nodes f a)"

lemma core_fields:
  "nd_id (core n) = nd_id n" "nd_refctr (core n) = nd_refctr n" "nd_parent (core n) = nd_parent n"
  "nd_name (core n) = nd_name n" "nd_nlookup (core n) = nd_nlookup n" "nd_open_count (core n) = nd_open_count n"
  by (simp_all add: core_def)

lemma same_core_field:
  assumes "same_core f g" "\<And>n. h (core n) = h n"
  shows "map_option h (fu_nodes g a) = map_option h (fu_nodes f a)"
proof -
  have "map_option h (map_option core (fu_nodes g a)) = map_option h (map_option core (fu_nodes f a))"
    using assms(1) unfolding same_core_def by metis
  then show ?thesis
    by (simp add: option.map_comp comp_def assms(2))
qed

lemma bind_field: "Option.bind x h = Option.bind (map_option h x) (\<lambda>y. y)"
  by (cases x) simp_all

lemma same_core_maps:
  assumes "same_core f g"
  shows "idm g = idm f" "refm g = refm f" "parm g = parm f" "namem g = namem f" "lookm g = lookm f" "openm g = openm f"
    "dom (fu_nodes g) = dom (fu_nodes f)"
proof -
  note field = same_core_field [OF assms]
  show maps: "idm g = idm f" "refm g = refm f" "lookm g = lookm f" "openm g = openm f"
    by (rule HOL.ext; simp only: idm_def refm_def lookm_def openm_def; rule field; simp add: core_fields)+
  show "parm g = parm f" "namem g = namem f"
    by (rule HOL.ext; simp only: parm_def namem_def; subst (1 2) bind_field;
        rule arg_cong [of _ _ "\<lambda>x. Option.bind x (\<lambda>y. y)"]; rule field; simp add: core_fields)+
  show "dom (fu_nodes g) = dom (fu_nodes f)"
    using dom_fields(1) [of f] dom_fields(1) [of g] maps(1) by simp
qed

lemma same_core_ok:
  assumes "nodes_ok f" "same_core f g"
  shows "nodes_ok g" "dcache_of g = dcache_of f" "entry g = entry f" "nlookups g = nlookups f" "room g = room f"
    "counts_small g = counts_small f" "has_path g = has_path f"
proof -
  note eq = assms(2) [unfolded same_core_def]
  note same = same_core_maps [OF assms(2)]
  have t: "tables_ok g = tables_ok f"
    using eq by (intro tables_ok_cong [OF same(1-4)]) simp_all
  moreover have ext: "ext g = ext f"
    by (rule HOL.ext) (simp only: ext_def same(5))
  ultimately show ok: "nodes_ok g"
    using assms(1) eq by (simp add: nodes_ok_def)
  show ent: "entry g = entry f"
    by (rule entry_same_fields [OF same(3,4,1)])
  show look: "nlookups g = nlookups f"
    by (rule nlookups_eqI [OF nodes_okD [OF assms(1)] nodes_okD [OF ok]]) (simp_all add: same)
  show "dcache_of g = dcache_of f"
    by (simp add: dcache_of_def ent look)
  show "room g = room f" "counts_small g = counts_small f"
    by (simp_all add: room_def counts_small_def same)
  show "has_path g = has_path f"
    using ent by (auto simp: fun_eq_iff intro: has_path_mono)
qed

text \<open>How often a file is open.\<close>

definition opens_ok :: "fuse \<Rightarrow> bool" where
  "opens_ok f \<longleftrightarrow> (\<forall>a c. openm f a = Some c \<longrightarrow> 0 \<le> c)"

definition opens_small :: "fuse \<Rightarrow> bool" where
  "opens_small f \<longleftrightarrow> (\<forall>a c. openm f a = Some c \<longrightarrow> c < INT_MAX)"

text \<open>The invariant: the node tables are in order, no file is open a negative number of times, the clock works, and the file system is the one given.\<close>

definition lib_inv :: "'s fuse_operations \<Rightarrow> ('s \<Rightarrow> bool) \<Rightarrow> 's lib \<Rightarrow> bool" where
  "lib_inv p ok l \<longleftrightarrow> nodes_ok (lb_f l) \<and> opens_ok (lb_f l) \<and> lb_op l = p \<and> ok (lb_fs l) \<and> (\<forall>t. lb_clock l t \<noteq> None)"

text \<open>Nothing has happened to the node tables, but for the attribute cache.\<close>

definition quiet :: "('s \<Rightarrow> bool) \<Rightarrow> 's lib \<Rightarrow> 's lib \<Rightarrow> bool" where
  "quiet ok l l' \<longleftrightarrow>
     same_core (lb_f l) (lb_f l') \<and> lb_op l' = lb_op l \<and> lb_conf l' = lb_conf l \<and> lb_clock l' = lb_clock l \<and> ok (lb_fs l')"

lemma quiet_refl: "lib_inv p ok l \<Longrightarrow> quiet ok l l"
  by (simp add: quiet_def lib_inv_def)

lemma quiet_trans: "quiet ok l l1 \<Longrightarrow> quiet ok l1 l2 \<Longrightarrow> quiet ok l l2"
  by (auto simp: quiet_def intro: same_core_trans)

lemma quiet_updates [simp]:
  "quiet ok l l1 \<Longrightarrow> ok s \<Longrightarrow> quiet ok l (l1\<lparr>lb_fs := s\<rparr>)" "quiet ok l (l1\<lparr>lb_tick := t\<rparr>) = quiet ok l l1"
  by (simp_all add: quiet_def)

lemma quiet_nodes: "quiet ok l l1 \<Longrightarrow> same_core (lb_f l1) f \<Longrightarrow> quiet ok l (l1\<lparr>lb_f := f\<rparr>)"
  by (auto simp: quiet_def intro: same_core_trans)

lemma quiet_inv:
  assumes "lib_inv p ok l" "quiet ok l l'"
  shows "lib_inv p ok l'" "nlookups (lb_f l') = nlookups (lb_f l)" "room (lb_f l') = room (lb_f l)"
    "counts_small (lb_f l') = counts_small (lb_f l)" "dom (fu_nodes (lb_f l')) = dom (fu_nodes (lb_f l))"
    "idm (lb_f l') = idm (lb_f l)" "openm (lb_f l') = openm (lb_f l)"
proof -
  have f: "nodes_ok (lb_f l)" "same_core (lb_f l) (lb_f l')"
    using assms by (simp_all add: lib_inv_def quiet_def)
  show "lib_inv p ok l'"
    using assms same_core_ok(1) [OF f] same_core_maps(6) [OF f(2)] by (simp add: lib_inv_def quiet_def opens_ok_def)
  show "nlookups (lb_f l') = nlookups (lb_f l)" "room (lb_f l') = room (lb_f l)"
    "counts_small (lb_f l') = counts_small (lb_f l)" "dom (fu_nodes (lb_f l')) = dom (fu_nodes (lb_f l))"
    "idm (lb_f l') = idm (lb_f l)" "openm (lb_f l') = openm (lb_f l)"
    using same_core_ok(4-6) [OF f] same_core_maps [OF f(2)] by simp_all
qed

lemma has_path_plain:
  assumes "tables_ok f R" "has_path f i s"
  shows "NUL \<notin> set s"
  using assms(2)
proof (induction rule: has_path.induct)
  case (child i s n j)
  have "NUL \<notin> set n"
    using child.hyps(2) by (auto simp: entry_def elim: named_child [OF assms(1)])
  with child.IH show ?case
    by simp
qed simp

lemma bind_res_InrE: "bind_res r k = Inr y \<Longrightarrow> (\<And>x. r = Inr x \<Longrightarrow> k x = Inr y \<Longrightarrow> P) \<Longrightarrow> P"
  by (cases r) simp_all

lemma alloc_oom [simp]: "oom (snd (alloc m)) = oom m"
  by (simp add: alloc_def)

lemma get_path_name_mem: "get_path_name f i name = Inr (r, g) \<Longrightarrow> oom (fu_mem g) = oom (fu_mem f)"
  by (auto simp: get_path_name_def split_beta Let_def elim!: bind_res_InrE split: option.splits)

section \<open>Open counts\<close>

text \<open>Calls on the node tables leave the open counts alone; new nodes are not open, and only \<open>find_node\<close> makes one.\<close>

definition opens_within :: "fuse \<Rightarrow> fuse \<Rightarrow> bool" where
  "opens_within f g \<longleftrightarrow> (\<forall>a c. openm g a = Some c \<longrightarrow> c = 0 \<or> openm f a = Some c)"

definition no_more :: "fuse \<Rightarrow> fuse \<Rightarrow> bool" where
  "no_more f g \<longleftrightarrow> (\<forall>a c. openm g a = Some c \<longrightarrow> openm f a = Some c)"

lemma no_more_refl [simp]: "no_more f f"
  by (simp add: no_more_def)

lemma no_more_trans: "no_more f g \<Longrightarrow> no_more g h \<Longrightarrow> no_more f h"
  by (auto simp: no_more_def)

lemma no_more_within: "no_more f g \<Longrightarrow> opens_within f g"
  by (auto simp: no_more_def opens_within_def)

lemma no_more_dom: "no_more f g \<Longrightarrow> dom (fu_nodes g) \<subseteq> dom (fu_nodes f)"
  by (force simp: no_more_def openm_def)

lemma no_more_tables [simp]:
  "no_more f (g\<lparr>fu_name_table := t\<rparr>) = no_more f g" "no_more f (g\<lparr>fu_id_table := t\<rparr>) = no_more f g"
  "no_more f (g\<lparr>fu_mem := m\<rparr>) = no_more f g" "no_more (f\<lparr>fu_mem := m\<rparr>) g = no_more f g"
  "no_more (f\<lparr>fu_name_table := t\<rparr>) g = no_more f g"
  by (simp_all add: no_more_def openm_def)

lemma no_more_set: "no_more f g \<Longrightarrow> openm g a = Some (nd_open_count n) \<Longrightarrow> no_more f (set_node g a n)"
  by (auto simp: no_more_def openm_def split: if_splits)

lemma no_more_after_set: "no_more (set_node f a n) g \<Longrightarrow> openm f a = Some (nd_open_count n) \<Longrightarrow> no_more f g"
  by (rule no_more_trans [OF no_more_set [OF no_more_refl]])

lemma openm_node: "fu_nodes f a = Some n \<Longrightarrow> openm f a = Some (nd_open_count n)"
  by (simp add: openm_def)

lemma no_more_free: "no_more f g \<Longrightarrow> no_more f (free_node g a)"
  by (auto simp: no_more_def openm_def split: if_splits)

lemma deref_InrE: "deref f a = Inr n \<Longrightarrow> (fu_nodes f a = Some n \<Longrightarrow> P) \<Longrightarrow> P"
  by (simp add: deref_def split: option.splits)

lemma no_more_delete: "delete_node f a = Inr g \<Longrightarrow> no_more f g"
  by (auto simp: delete_node_def unhash_id_def Let_def intro!: no_more_free elim!: bind_res_InrE split: if_splits)

lemma no_more_unref:
  assumes "unref_node f a = Inr g"
  shows "no_more f g"
proof -
  obtain n where n: "fu_nodes f a = Some n" "if nd_refctr n - 1 = 0 then delete_node (set_node f a (n\<lparr>nd_refctr := nd_refctr n - 1\<rparr>)) a = Inr g
      else g = set_node f a (n\<lparr>nd_refctr := nd_refctr n - 1\<rparr>)"
    using assms by (auto simp: unref_node_def Let_def elim!: bind_res_InrE deref_InrE split: if_splits)
  have "openm f a = Some (nd_open_count (n\<lparr>nd_refctr := nd_refctr n - 1\<rparr>))"
    by (simp add: openm_node [OF n(1)])
  then show ?thesis
    using n(2) by (cases "nd_refctr n - 1 = 0") (auto intro: no_more_set no_more_after_set [OF no_more_delete])
qed

lemma no_more_unhash: "unhash_name f a = Inr g \<Longrightarrow> no_more f g"
  by (auto simp: unhash_name_def Let_def elim!: bind_res_InrE deref_InrE split: if_splits option.splits
      dest!: no_more_unref intro!: no_more_set simp: openm_node)

lemma no_more_hash: "hash_name f a i s = Inr (x, g) \<Longrightarrow> no_more f g"
  by (auto simp: hash_name_def Let_def split_beta elim!: bind_res_InrE deref_InrE split: if_splits
      intro!: no_more_set simp: openm_def)

lemma no_more_forget: "forget_node f i n = Inr g \<Longrightarrow> no_more f g"
  by (auto simp: forget_node_def Let_def elim!: bind_res_InrE deref_InrE split: if_splits
      dest!: no_more_unref no_more_unhash intro!: no_more_set simp: openm_node)
    (rule no_more_trans, erule no_more_after_set, simp_all add: openm_node)

lemma no_more_remove: "remove_node f i s = Inr g \<Longrightarrow> no_more f g"
  by (auto simp: remove_node_def elim!: bind_res_InrE split: option.splits dest: no_more_unhash)

lemma no_more_rename: "rename_node f i s i' s' hide = Inr (e, g) \<Longrightarrow> no_more f g"
  by (auto simp: rename_node_def elim!: bind_res_InrE deref_InrE split: option.splits if_splits
      dest!: no_more_unhash no_more_hash intro!: no_more_set simp: openm_node) (blast intro: no_more_trans)+

lemma next_id_nodes: "next_id k f = Some (Inr (c, g)) \<Longrightarrow> fu_nodes g = fu_nodes f"
  by (induction k arbitrary: f) (auto simp: Let_def split: if_splits sum.splits option.splits)

lemma opens_within_count: "count_lookup f a = Inr (r, g) \<Longrightarrow> no_more f g"
  by (auto simp: count_lookup_def elim!: bind_res_InrE deref_InrE intro!: no_more_set simp: openm_node)

lemma no_more_hash_id: "hash_id f a = Inr g \<Longrightarrow> no_more f g"
  by (auto simp: hash_id_def Let_def elim!: bind_res_InrE)

lemma openm_set: "openm (set_node f a n) = (openm f)(a \<mapsto> nd_open_count n)"
  by (auto simp: openm_def)

lemma within_new: "fu_nodes f2 = fu_nodes f \<Longrightarrow> no_more (set_node f2 a (new_node i c)) g \<Longrightarrow> opens_within f g"
  by (auto simp: no_more_def opens_within_def openm_set new_node_def openm_def [of f] openm_def [of f2] split: if_splits)

lemma within_find:
  assumes "find_node k f i s = Some (Inr (r, g))"
  shows "opens_within f g"
proof (cases "lookup_node f i s")
  case (Inr q)
  show ?thesis
  proof (cases q)
    case (Some a)
    with Inr assms show ?thesis
      by (auto simp: find_node_def intro: no_more_within opens_within_count)
  next
    case None
    let ?f1 = "f\<lparr>fu_mem := snd (alloc (fu_mem f))\<rparr>"
    show ?thesis
    proof (cases "fst (alloc (fu_mem f))")
      case False
      with Inr None assms show ?thesis
        by (auto simp: find_node_def split_beta Let_def intro: no_more_within)
    next
      case True
      then obtain j f2 x f4 where new: "next_id k ?f1 = Some (Inr (j, f2))"
          "hash_name (set_node f2 (fu_fresh f2 (fu_nodes f2)) (new_node j (fu_generation f2))) (fu_fresh f2 (fu_nodes f2)) i s = Inr (x, f4)"
          "if x = -1 then g = free_node f4 (fu_fresh f2 (fu_nodes f2))
           else bind_res (hash_id f4 (fu_fresh f2 (fu_nodes f2))) (\<lambda>f5. count_lookup f5 (fu_fresh f2 (fu_nodes f2))) = Inr (r, g)"
        using Inr None assms
        by (auto simp: find_node_def split_beta Let_def elim!: bind_res_InrE split: option.splits if_splits)
      have "no_more f4 g"
        using new(3) by (auto split: if_splits elim!: bind_res_InrE intro: no_more_free
            dest!: no_more_hash_id opens_within_count intro: no_more_trans)
      with no_more_hash [OF new(2)] have "no_more (set_node f2 (fu_fresh f2 (fu_nodes f2)) (new_node j (fu_generation f2))) g"
        by (rule no_more_trans)
      then show ?thesis
        by (rule within_new [rotated]) (simp add: next_id_nodes [OF new(1)])
    qed
  qed
qed (use assms in \<open>simp add: find_node_def\<close>)

lemma within_opens:
  assumes "opens_within f g"
  shows "opens_ok f \<Longrightarrow> opens_ok g" "opens_small f \<Longrightarrow> opens_small g"
proof -
  have "c = 0 \<or> openm f a = Some c" if "openm g a = Some c" for a c
    using assms that by (simp add: opens_within_def)
  then show "opens_ok f \<Longrightarrow> opens_ok g" "opens_small f \<Longrightarrow> opens_small g"
    unfolding opens_ok_def opens_small_def INT_MAX_def by fastforce+
qed

end
