(* ===== verification/Fuse_Steps.thy ===== *)
theory Fuse_Steps
  imports Fuse_Lib_Laws
begin

text \<open>
  Rules for the parts that the request handlers of libfuse are made of: actions that leave the node tables
  alone, lookups that enter a name, open counts, and the names of hidden files.
\<close>

section \<open>Actions that leave the tables alone\<close>

text \<open>From every state like \<open>l0\<close> the action returns a value with \<open>P\<close>, in a state like \<open>l0\<close>.\<close>

definition steps :: "('s \<Rightarrow> bool) \<Rightarrow> 's lib \<Rightarrow> ('s, 'a) act \<Rightarrow> ('a \<Rightarrow> bool) \<Rightarrow> bool" where
  "steps ok l0 m P \<longleftrightarrow> (\<forall>l. quiet ok l0 l \<longrightarrow> wp m l (\<lambda>x l1. quiet ok l0 l1 \<and> P x))"

named_theorems steps_intro \<open>rules for actions that leave the tables alone\<close>

lemma steps_weaken: "steps ok l0 m P \<Longrightarrow> (\<And>x. P x \<Longrightarrow> Q x) \<Longrightarrow> steps ok l0 m Q"
  by (auto simp: steps_def intro: wp_mono)

lemma steps_wp: "steps ok l0 m P \<Longrightarrow> quiet ok l0 l \<Longrightarrow> (\<And>x l1. quiet ok l0 l1 \<Longrightarrow> P x \<Longrightarrow> Q x l1) \<Longrightarrow> wp m l Q"
  by (auto simp: steps_def intro: wp_mono)

lemma steps_ret [steps_intro]: "P x \<Longrightarrow> steps ok l0 (ret_lib x) P"
  by (simp add: steps_def wp_def ret_lib_def)

lemma steps_err [steps_intro]: "P (Reply_Err (- err)) \<Longrightarrow> steps ok l0 (reply_err err) P"
  by (simp add: reply_err_def steps_ret)

lemma steps_bindP: "steps ok l0 m P \<Longrightarrow> (\<And>x. P x \<Longrightarrow> steps ok l0 (k x) R) \<Longrightarrow> steps ok l0 (bind_lib m k) R"
  unfolding steps_def by (blast intro: wp_bind wp_mono)

lemma steps_bind [steps_intro]:
  "steps ok l0 m (\<lambda>_. True) \<Longrightarrow> (\<And>x. steps ok l0 (k x) R) \<Longrightarrow> steps ok l0 (bind_lib m k) R"
  by (rule steps_bindP)

lemma steps_get_conf [steps_intro]: "P (lb_conf l0) \<Longrightarrow> steps ok l0 get_conf P"
  by (auto simp: steps_def quiet_def intro: wp_get_conf)

lemma steps_if [steps_intro]:
  "(b \<Longrightarrow> steps ok l0 m P) \<Longrightarrow> (\<not> b \<Longrightarrow> steps ok l0 n P) \<Longrightarrow> steps ok l0 (if b then m else n) P"
  by simp

lemma steps_prod [steps_intro]:
  "(\<And>a b. x = (a, b) \<Longrightarrow> steps ok l0 (f a b) P) \<Longrightarrow> steps ok l0 (case x of (a, b) \<Rightarrow> f a b) P"
  by (cases x) simp

lemma steps_option [steps_intro]:
  "(x = None \<Longrightarrow> steps ok l0 m P) \<Longrightarrow> (\<And>a. x = Some a \<Longrightarrow> steps ok l0 (f a) P) \<Longrightarrow>
   steps ok l0 (case x of None \<Rightarrow> m | Some a \<Rightarrow> f a) P"
  by (cases x) simp_all

lemma steps_unless_err [steps_intro]:
  "(err = 0 \<Longrightarrow> b \<Longrightarrow> steps ok l0 m P) \<Longrightarrow> P err \<Longrightarrow> steps ok l0 (unless_err err b m) P"
  by (simp add: unless_err_def steps_ret)

lemma steps_nodes:
  assumes "\<And>f. same_core (lb_f l0) f \<Longrightarrow> \<exists>x g. h f = Inr (x, g) \<and> same_core f g \<and> P x"
  shows "steps ok l0 (on_nodes h) P"
  unfolding steps_def
proof (intro allI impI)
  fix l
  assume q: "quiet ok l0 l"
  then obtain x g where g: "h (lb_f l) = Inr (x, g)" "same_core (lb_f l) g" "P x"
    using assms [of "lb_f l"] unfolding quiet_def by blast
  show "wp (on_nodes h) l (\<lambda>x l1. quiet ok l0 l1 \<and> P x)"
    by (rule wp_on_nodes [where g = h and l = l, OF g(1)]) (use quiet_nodes [OF q g(2)] g(3) in simp)
qed

lemma steps_nodes_fuel:
  assumes "\<And>f. same_core (lb_f l0) f \<Longrightarrow> \<exists>x g. h f = Some (Inr (x, g)) \<and> same_core f g \<and> P x"
  shows "steps ok l0 (on_nodes_fuel h) P"
  unfolding steps_def
proof (intro allI impI)
  fix l
  assume q: "quiet ok l0 l"
  then obtain x g where g: "h (lb_f l) = Some (Inr (x, g))" "same_core (lb_f l) g" "P x"
    using assms [of "lb_f l"] unfolding quiet_def by blast
  show "wp (on_nodes_fuel h) l (\<lambda>x l1. quiet ok l0 l1 \<and> P x)"
    by (rule wp_on_nodes_fuel [where g = h and l = l, OF g(1)]) (use quiet_nodes [OF q g(2)] g(3) in simp)
qed

section \<open>The file system\<close>

text \<open>A call of the file system in a good state returns, leaves a good state, and its result satisfies \<open>P\<close>.\<close>

definition answers :: "('s \<Rightarrow> bool) \<Rightarrow> ('s \<Rightarrow> ('a \<times> 's) res) \<Rightarrow> ('a \<Rightarrow> bool) \<Rightarrow> bool" where
  "answers ok g P \<longleftrightarrow> (\<forall>s. ok s \<longrightarrow> (\<exists>x s'. g s = Inr (x, s') \<and> ok s' \<and> P x))"

lemma steps_fsP:
  assumes "lib_inv p ok l0" "answers ok (g p) P"
  shows "steps ok l0 (on_fs g) P"
  unfolding steps_def
proof (intro allI impI)
  fix l
  assume q: "quiet ok l0 l"
  then have "ok (lb_fs l)" "lb_op l = p"
    using assms(1) by (simp_all add: quiet_def lib_inv_def)
  then obtain x s where s: "g (lb_op l) (lb_fs l) = Inr (x, s)" "ok s" "P x"
    using assms(2) unfolding answers_def by blast
  show "wp (on_fs g) l (\<lambda>x l1. quiet ok l0 l1 \<and> P x)"
    by (rule wp_on_fs [where g = g and l = l, OF s(1)]) (use q s(2,3) in simp)
qed

lemma steps_fs: "lib_inv p ok l0 \<Longrightarrow> answers ok (g p) (\<lambda>_. True) \<Longrightarrow> steps ok l0 (on_fs g) (\<lambda>_. True)"
  by (rule steps_fsP)

lemma steps_alloc [steps_intro]: "(\<And>b. P b) \<Longrightarrow> steps ok l0 alloc_lib P"
  unfolding alloc_lib_def by (rule steps_nodes) (simp add: split_beta same_tables_core)

lemma steps_curr_time: "lib_inv p ok l0 \<Longrightarrow> steps ok l0 curr_time (\<lambda>_. True)"
  unfolding steps_def
proof (intro allI impI)
  fix l
  assume "lib_inv p ok l0" "quiet ok l0 l"
  then obtain t where t: "lb_clock l (lb_tick l) = Some t" and q: "quiet ok l0 l"
    by (auto simp: quiet_def lib_inv_def)
  show "wp curr_time l (\<lambda>x l1. quiet ok l0 l1 \<and> True)"
    by (rule wp_curr_time [OF t]) (simp add: q)
qed

section \<open>Paths and nodes\<close>

lemma steps_path_of:
  assumes "lib_inv p ok l0" "0 < nlookups (lb_f l0) i" "\<forall>n. name = Some n \<longrightarrow> NUL \<notin> set n"
  shows "steps ok l0 (path_of i name) (\<lambda>r. \<forall>u. r = Some u \<longrightarrow> NUL \<notin> set u)"
  unfolding path_of_def
proof (rule steps_nodes)
  fix f
  assume c: "same_core (lb_f l0) f"
  have n0: "nodes_ok (lb_f l0)"
    using assms(1) by (simp add: lib_inv_def)
  have ok: "nodes_ok f" "0 < nlookups f i"
    using same_core_ok [OF n0 c] assms(2) by simp_all
  obtain r g where g: "get_path_name f i name = Inr (r, g)" "same_tables f g"
      "\<And>u. fst (alloc (fu_mem f)) \<Longrightarrow> r = Some u \<Longrightarrow> \<exists>s. has_path f i s \<and> u = path_string (s @ suffix_of name)"
      "\<not> fst (alloc (fu_mem f)) \<Longrightarrow> r = None"
    using get_path_name_ok [OF ok, of name] by metis
  have "NUL \<notin> set u" if u: "r = Some u" for u
  proof -
    obtain s where "has_path f i s" "u = path_string (s @ suffix_of name)"
      using g(3,4) u by (cases "fst (alloc (fu_mem f))") auto
    then show ?thesis
      using has_path_plain [OF nodes_okD [OF ok(1)]] assms(3)
      by (auto simp: path_string_def suffix_of_def split: option.splits if_splits)
  qed
  with g(1) same_tables_core [OF g(2) get_path_name_mem [OF g(1)]]
  show "\<exists>x g. get_path_name f i name = Inr (x, g) \<and> same_core f g \<and> (\<forall>u. x = Some u \<longrightarrow> NUL \<notin> set u)"
    by blast
qed

lemma steps_with_path:
  assumes "lib_inv p ok l0" "0 < nlookups (lb_f l0) i" "\<forall>n. name = Some n \<longrightarrow> NUL \<notin> set n"
    and "P d" "\<And>u. NUL \<notin> set u \<Longrightarrow> steps ok l0 (k u) P"
  shows "steps ok l0 (with_path i name d k) P"
  unfolding with_path_def
  by (rule steps_bindP [OF steps_path_of [OF assms(1-3)]]) (auto intro: steps_intro assms(4,5))

lemma steps_node_of:
  assumes "lib_inv p ok l0" "0 < nlookups (lb_f l0) i"
  shows "steps ok l0 (on_nodes (node_of i)) (\<lambda>a. idm (lb_f l0) a = Some i)"
proof (rule steps_nodes)
  fix f
  assume c: "same_core (lb_f l0) f"
  have n0: "nodes_ok (lb_f l0)"
    using assms(1) by (simp add: lib_inv_def)
  have ok: "tables_ok f (ext f)"
    by (rule nodes_okD [OF same_core_ok(1) [OF n0 c]])
  obtain a where a: "idm (lb_f l0) a = Some i"
    by (rule nlookups_pos [OF nodes_okD [OF n0] assms(2)])
  then have "get_node f i = Inr a"
    by (intro get_node_found [OF ok]) (simp add: same_core_maps [OF c])
  with a show "\<exists>x g. node_of i f = Inr (x, g) \<and> same_core f g \<and> idm (lb_f l0) x = Some i"
    by (simp add: node_of_def)
qed

lemma steps_change:
  assumes "idm (lb_f l0) a = Some i" "\<And>n. core (h n) = core n"
  shows "steps ok l0 (on_nodes (change_node a h)) (\<lambda>n. nd_id n = i)"
proof (rule steps_nodes)
  fix f
  assume c: "same_core (lb_f l0) f"
  then obtain n where n: "fu_nodes f a = Some n" "nd_id n = i"
    using assms(1) same_core_maps(1) [OF c] idm_nodeE by metis
  then show "\<exists>x g. change_node a h f = Inr (x, g) \<and> same_core f g \<and> nd_id x = i"
    by (simp add: change_node_def deref_def same_core_set [OF n(1) assms(2)])
qed

lemma steps_update_stat:
  assumes "lib_inv p ok l0" "idm (lb_f l0) a = Some i"
  shows "steps ok l0 (update_stat a st) (\<lambda>_. True)"
  unfolding update_stat_def
  by (intro steps_intro steps_curr_time [OF assms(1)] steps_weaken [OF steps_change [OF assms(2)]])
    (simp_all add: core_def)

lemma steps_auto_update:
  assumes "lib_inv p ok l0" "steps ok l0 m (\<lambda>a. idm (lb_f l0) a = Some i)"
  shows "steps ok l0 (auto_update m st) (\<lambda>_. True)"
  unfolding auto_update_def
  by (intro steps_intro steps_bindP [OF assms(2)] steps_update_stat [OF assms(1)]) simp_all

lemma steps_reply_attr:
  assumes "lib_inv p ok l0" "0 < nlookups (lb_f l0) i"
  shows "steps ok l0 (reply_attr i r) (\<lambda>_. True)"
  unfolding reply_attr_def
  by (intro steps_intro steps_auto_update [OF assms(1) steps_node_of [OF assms]]) simp_all

lemma steps_reply_buf: "nat res \<le> sz \<Longrightarrow> nat res \<le> length bytes \<Longrightarrow> steps ok l0 (reply_buf sz res bytes) (\<lambda>_. True)"
  by (simp add: reply_buf_def steps_ret)

section \<open>Entering a name\<close>

text \<open>There is room for one more node, one more lookup and one more open, and enough fuel to number the node.\<close>

definition lib_ready :: "nat \<Rightarrow> 's fuse_operations \<Rightarrow> ('s \<Rightarrow> bool) \<Rightarrow> 's lib \<Rightarrow> bool" where
  "lib_ready k p ok l \<longleftrightarrow>
     lib_inv p ok l \<and> room (lb_f l) \<and> counts_small (lb_f l) \<and> opens_small (lb_f l) \<and> card (dom (fu_nodes (lb_f l))) + 3 \<le> k"

lemma lib_readyD: "lib_ready k p ok l \<Longrightarrow> lib_inv p ok l"
  by (simp add: lib_ready_def)

lemma quiet_ready: "lib_ready k p ok l \<Longrightarrow> quiet ok l l' \<Longrightarrow> lib_ready k p ok l'"
  using quiet_inv [of p ok l l'] by (simp add: lib_ready_def opens_small_def)

text \<open>What a lookup leaves: on success a held number, and on most errors nothing.\<close>

definition entry_post :: "'s fuse_operations \<Rightarrow> ('s \<Rightarrow> bool) \<Rightarrow> 's lib \<Rightarrow> int \<times> fuse_entry_param \<Rightarrow> 's lib \<Rightarrow> bool" where
  "entry_post p ok l0 = (\<lambda>(err, e) l.
     lib_inv p ok l \<and> lb_conf l = lb_conf l0 \<and> opens_small (lb_f l) \<and>
     (err = 0 \<longrightarrow> ep_ino e \<noteq> FUSE_ROOT_ID \<and> 0 < nlookups (lb_f l) (ep_ino e)) \<and>
     (err \<noteq> 0 \<longrightarrow> err \<noteq> - ENOMEM \<longrightarrow> quiet ok l0 l))"

lemma wp_case_option:
  "(x = None \<Longrightarrow> wp m l Q) \<Longrightarrow> (\<And>a. x = Some a \<Longrightarrow> wp (f a) l Q) \<Longrightarrow> wp (case x of None \<Rightarrow> m | Some a \<Rightarrow> f a) l Q"
  by (cases x) simp_all

lemma wp_case_prod: "(\<And>a b. x = (a, b) \<Longrightarrow> wp (f a b) l Q) \<Longrightarrow> wp (case x of (a, b) \<Rightarrow> f a b) l Q"
  by (cases x) simp

lemma entry_post_quiet:
  assumes "entry_post p ok l0 r l" "quiet ok l l'"
  shows "entry_post p ok l0 r l'"
proof -
  have "lib_inv p ok l"
    using assms(1) by (simp add: entry_post_def split_beta)
  from quiet_inv [OF this assms(2)] show ?thesis
    using assms quiet_trans [of ok l0 l l'] by (auto simp: entry_post_def split_beta opens_small_def quiet_def)
qed

lemma entry_post_error:
  "lib_ready k p ok l0 \<Longrightarrow> quiet ok l0 l \<Longrightarrow> err \<noteq> 0 \<Longrightarrow> entry_post p ok l0 (err, e) l"
  using quiet_ready [of k p ok l0 l] by (simp add: entry_post_def lib_ready_def quiet_def)

lemma entry_post_no_memory:
  "lib_inv p ok l \<Longrightarrow> lb_conf l = lb_conf l0 \<Longrightarrow> opens_small (lb_f l) \<Longrightarrow> entry_post p ok l0 (- ENOMEM, e) l"
  by (simp add: entry_post_def ENOMEM_def)

lemma wp_with_path:
  assumes "lib_inv p ok l0" "0 < nlookups (lb_f l0) i" "\<forall>n. name = Some n \<longrightarrow> NUL \<notin> set n" "quiet ok l0 l"
    and "\<And>l1. quiet ok l0 l1 \<Longrightarrow> Q d l1" "\<And>u l1. NUL \<notin> set u \<Longrightarrow> quiet ok l0 l1 \<Longrightarrow> wp (k u) l1 Q"
  shows "wp (with_path i name d k) l Q"
  unfolding with_path_def
  by (rule wp_bind, rule steps_wp [OF steps_path_of [OF assms(1-3)] assms(4)])
    (auto split: option.splits intro: wp_ret assms(5,6))

lemma wp_fs:
  assumes "lib_inv p ok l0" "answers ok (g p) (\<lambda>_. True)" "quiet ok l0 l" "\<And>x l1. quiet ok l0 l1 \<Longrightarrow> Q x l1"
  shows "wp (on_fs g) l Q"
  by (rule steps_wp [OF steps_fs [where g = g, OF assms(1,2)] assms(3)]) (rule assms(4))

lemma wp_find_node:
  assumes "lib_ready k p ok l" "0 < nlookups (lb_f l) i" "NUL \<notin> set name"
    and "\<And>l1. lib_inv p ok l1 \<Longrightarrow> lb_conf l1 = lb_conf l \<Longrightarrow> opens_small (lb_f l1) \<Longrightarrow> Q None l1"
    and "\<And>l1 a j. lib_inv p ok l1 \<Longrightarrow> lb_conf l1 = lb_conf l \<Longrightarrow> opens_small (lb_f l1) \<Longrightarrow> idm (lb_f l1) a = Some j \<Longrightarrow>
           j \<noteq> FUSE_ROOT_ID \<Longrightarrow> 0 < nlookups (lb_f l1) j \<Longrightarrow> Q (Some a) l1"
  shows "wp (on_nodes_fuel (\<lambda>f. find_node k f i name)) l Q"
proof -
  have r: "nodes_ok (lb_f l)" "room (lb_f l)" "counts_small (lb_f l)" "card (dom (fu_nodes (lb_f l))) + 3 \<le> k"
    using assms(1) by (simp_all add: lib_ready_def lib_inv_def)
  obtain q g where g: "find_node k (lb_f l) i name = Some (Inr (q, g))" "nodes_ok g"
      "\<And>a. q = Some a \<Longrightarrow> \<exists>j. idm g a = Some j \<and> dcache_of g = dc_lookup i name j (dcache_of (lb_f l))"
    using find_node_ok [OF r(1-3) assms(2,3) r(4)] by fastforce
  let ?l1 = "l\<lparr>lb_f := g\<rparr>"
  have l1: "lib_inv p ok ?l1" "lb_conf ?l1 = lb_conf l" "opens_small (lb_f ?l1)"
    using assms(1) g(2) within_opens [OF within_find [OF g(1)]] by (simp_all add: lib_ready_def lib_inv_def)
  have "Q q ?l1"
  proof (cases q)
    case None
    with assms(4) [OF l1] show ?thesis
      by simp
  next
    case (Some a)
    then obtain j where j: "idm g a = Some j" "dcache_of g = dc_lookup i name j (dcache_of (lb_f l))"
      using g(3) by blast
    then have "0 < dc_count (dcache_of g) j" "(i, name, j) \<in> dc_entries (dcache_of g)"
      by (simp_all add: dc_lookup_def)
    then have "0 < nlookups g j" "entry g i name j"
      by (simp_all add: dcache_of_def)
    moreover from this(2) have "j \<noteq> FUSE_ROOT_ID"
      using entry_node [OF nodes_okD [OF g(2)]] by metis
    ultimately show ?thesis
      using assms(5) [OF l1, of a j] j(1) Some by simp
  qed
  with g(1) show ?thesis
    by (intro wp_on_nodes_fuel) auto
qed

lemma wp_forget_lib:
  assumes "lib_inv p ok l" "i = FUSE_ROOT_ID \<or> 0 < nlookups (lb_f l) i \<and> n \<le> nlookups (lb_f l) i"
    and "\<And>l1. lib_inv p ok l1 \<Longrightarrow> Q () l1"
  shows "wp (forget_lib i n) l Q"
proof -
  obtain g where g: "forget_node (lb_f l) i n = Inr g" "nodes_ok g"
  proof (cases "i = FUSE_ROOT_ID")
    case True
    then show thesis
      using assms(1) by (intro that [of "lb_f l"]) (simp_all add: forget_node_def lib_inv_def)
  next
    case False
    then show thesis
      using assms(1,2) forget_node_ok [of "lb_f l" i n] that by (auto simp: lib_inv_def)
  qed
  have "opens_ok g"
    using assms(1) within_opens(1) [OF no_more_within [OF no_more_forget [OF g(1)]]] by (simp add: lib_inv_def)
  then show ?thesis
    unfolding forget_lib_def using assms(1,3) g by (intro wp_on_nodes) (auto simp: lib_inv_def)
qed

lemma wp_reply_entry:
  assumes "entry_post p ok l0 r l"
  shows "wp (reply_entry lost r) l (\<lambda>_ l1. lib_inv p ok l1)"
  using assms
  by (cases r) (auto simp: reply_entry_def entry_post_def intro!: wp_intro wp_forget_lib)

lemma steps_fill_entry:
  assumes "lib_inv p ok l" "idm (lb_f l) a = Some j"
  shows "steps ok l (fill_entry a attr) (\<lambda>r. fst r = 0 \<and> ep_ino (snd r) = j)"
  unfolding fill_entry_def
  by (rule steps_bindP [OF steps_change [OF assms(2)]])
    (intro steps_intro steps_auto_update [OF assms(1)] | simp add: assms(2))+

lemma wp_fill_entry:
  assumes "lib_inv p ok l1" "lb_conf l1 = lb_conf l0" "opens_small (lb_f l1)" "idm (lb_f l1) a = Some j"
    "j \<noteq> FUSE_ROOT_ID" "0 < nlookups (lb_f l1) j"
  shows "wp (fill_entry a attr) l1 (entry_post p ok l0)"
proof (rule steps_wp [OF steps_fill_entry [OF assms(1,4)] quiet_refl [OF assms(1)]])
  fix r :: "int \<times> fuse_entry_param" and l2
  assume r: "quiet ok l1 l2" "fst r = 0 \<and> ep_ino (snd r) = j"
  then have "entry_post p ok l0 r l1"
    using assms by (simp add: entry_post_def split_beta)
  with r(1) show "entry_post p ok l0 r l2"
    by (blast intro: entry_post_quiet)
qed

section \<open>Open files\<close>

definition opened :: "fuse \<Rightarrow> nat \<Rightarrow> bool" where
  "opened f i \<longleftrightarrow> (\<exists>a c. idm f a = Some i \<and> openm f a = Some c \<and> 0 < c)"

lemma quiet_opened: "lib_inv p ok l \<Longrightarrow> quiet ok l l' \<Longrightarrow> opened (lb_f l') = opened (lb_f l)"
  by (simp add: opened_def [abs_def] quiet_inv)

text \<open>A node whose open count has been set.\<close>

lemma set_open_count:
  assumes "lib_inv p ok l" "fu_nodes (lb_f l) a = Some n" "0 \<le> c"
    and "nd_id n' = nd_id n" "nd_refctr n' = nd_refctr n" "nd_parent n' = nd_parent n" "nd_name n' = nd_name n"
      "nd_nlookup n' = nd_nlookup n" "nd_open_count n' = c"
  shows "lib_inv p ok (l\<lparr>lb_f := set_node (lb_f l) a n'\<rparr>)" "nlookups (set_node (lb_f l) a n') = nlookups (lb_f l)"
    "idm (set_node (lb_f l) a n') = idm (lb_f l)"
proof -
  note inv = assms(1) [unfolded lib_inv_def]
  have ok: "nodes_ok (lb_f l)"
    using inv by blast
  note same = set_other_fields [OF ok assms(2,4-8)]
  have "opens_ok (set_node (lb_f l) a n')"
    using inv assms(3,9) by (auto simp: opens_ok_def openm_set split: if_splits)
  then show "lib_inv p ok (l\<lparr>lb_f := set_node (lb_f l) a n'\<rparr>)"
    using inv same(1) by (simp add: lib_inv_def)
  show "nlookups (set_node (lb_f l) a n') = nlookups (lb_f l)"
    using arg_cong [OF same(2), of dc_count] by (simp add: dcache_of_def)
  show "idm (set_node (lb_f l) a n') = idm (lb_f l)"
    by (rule same(3))
qed

lemma held_node:
  assumes "lib_inv p ok l" "0 < nlookups (lb_f l) i"
  obtains a n where "get_node (lb_f l) i = Inr a" "fu_nodes (lb_f l) a = Some n" "idm (lb_f l) a = Some i"
    "0 \<le> nd_open_count n" "opened (lb_f l) i \<longleftrightarrow> 0 < nd_open_count n"
proof -
  have ok: "tables_ok (lb_f l) (ext (lb_f l))"
    using assms(1) by (simp add: lib_inv_def nodes_ok_def)
  obtain a where a: "idm (lb_f l) a = Some i"
    by (rule nlookups_pos [OF ok assms(2)])
  then obtain n where n: "fu_nodes (lb_f l) a = Some n"
    by (auto elim: idm_nodeE)
  have "0 \<le> nd_open_count n"
    using assms(1) openm_node [OF n] by (auto simp: lib_inv_def opens_ok_def)
  moreover have "opened (lb_f l) i \<longleftrightarrow> 0 < nd_open_count n"
    unfolding opened_def using idm_inj [OF ok a] a openm_node [OF n] by (metis option.inject)
  ultimately show thesis
    using that get_node_found [OF ok a] n a by blast
qed

lemma wp_count_open:
  assumes "lib_inv p ok l" "0 < nlookups (lb_f l) i" "opens_small (lb_f l)"
    and "\<And>l1. lib_inv p ok l1 \<Longrightarrow> nlookups (lb_f l1) = nlookups (lb_f l) \<Longrightarrow> opened (lb_f l1) i \<Longrightarrow> Q () l1"
  shows "wp (on_nodes (count_open i)) l Q"
proof (rule held_node [OF assms(1,2)])
  fix a n
  assume a: "get_node (lb_f l) i = Inr a" "fu_nodes (lb_f l) a = Some n" "idm (lb_f l) a = Some i" "0 \<le> nd_open_count n"
  let ?n = "n\<lparr>nd_open_count := nd_open_count n + 1\<rparr>"
  let ?l = "l\<lparr>lb_f := set_node (lb_f l) a ?n\<rparr>"
  have small: "\<not> INT_MAX \<le> nd_open_count n"
    using assms(3) openm_node [OF a(2)] by (simp add: opens_small_def not_le)
  have run: "count_open i (lb_f l) = Inr ((), set_node (lb_f l) a ?n)"
    using small by (simp add: count_open_def a(1,2) deref_def)
  note set = set_open_count [OF assms(1) a(2), of "nd_open_count n + 1" ?n]
  have "opened (set_node (lb_f l) a ?n) i"
    unfolding opened_def using set(3) a(3,4) by (intro exI [of _ a]) (simp add: openm_set)
  then have "Q () ?l"
    using set(1,2) a(4) by (intro assms(4)) simp_all
  with run show ?thesis
    by (intro wp_on_nodes) auto
qed

text \<open>The assertion of \<open>fuse_do_release\<close> and the decrement.\<close>

lemma wp_close:
  assumes "lib_inv p ok l" "0 < nlookups (lb_f l) i" "opened (lb_f l) i"
    and "\<And>x l1. lib_inv p ok l1 \<Longrightarrow> nlookups (lb_f l1) = nlookups (lb_f l) \<Longrightarrow> Q x l1"
  shows "wp (on_nodes (\<lambda>f.
       bind_res (get_node f i) (\<lambda>a.
       bind_res (deref f a) (\<lambda>n.
         if nd_open_count n \<le> 0 then Inl aborted
         else let last = (nd_is_hidden n \<and> nd_open_count n - 1 = 0) in
           Inr (last, set_node f a (n\<lparr>nd_open_count := nd_open_count n - 1,
                                      nd_is_hidden := (nd_is_hidden n \<and> \<not> last)\<rparr>)))))) l Q"
proof (rule held_node [OF assms(1,2)])
  fix a n
  assume a: "get_node (lb_f l) i = Inr a" "fu_nodes (lb_f l) a = Some n" "idm (lb_f l) a = Some i" "0 \<le> nd_open_count n"
    "opened (lb_f l) i \<longleftrightarrow> 0 < nd_open_count n"
  have pos: "0 < nd_open_count n"
    using a(5) assms(3) by simp
  let ?last = "nd_is_hidden n \<and> nd_open_count n - 1 = 0"
  let ?n = "n\<lparr>nd_open_count := nd_open_count n - 1, nd_is_hidden := (nd_is_hidden n \<and> \<not> ?last)\<rparr>"
  have "Q ?last (l\<lparr>lb_f := set_node (lb_f l) a ?n\<rparr>)"
    using set_open_count [OF assms(1) a(2), of "nd_open_count n - 1" ?n] pos by (intro assms(4)) simp_all
  then show ?thesis
    using pos by (intro wp_on_nodes) (auto simp: a(1,2) deref_def Let_def)
qed

section \<open>Hidden names\<close>

lemma renamed_nlookups: "renamed f i s i' s' e g \<Longrightarrow> nlookups g = nlookups f"
proof -
  assume "renamed f i s i' s' e g"
  moreover have "dc_count (dc_rename i s i' s' d) = dc_count d" "dc_count (dc_remove i s (dc_remove i' s' d)) = dc_count d" for d
    by (simp_all add: dc_rename_def dc_remove_def)
  ultimately have "dc_count (dcache_of g) = dc_count (dcache_of f)"
    unfolding renamed_def by metis
  then show ?thesis
    by (simp add: dcache_of_def)
qed

lemma hex_digit_eq: "hex_digit m = hex_digit n \<longleftrightarrow> m mod 16 = n mod 16"
proof -
  have "distinct ''0123456789abcdef''"
    by simp
  then show ?thesis
    unfolding hex_digit_def by (subst nth_eq_iff_index_eq) auto
qed

lemma digits_eq:
  "(\<And>i. i < d \<Longrightarrow> (m div 16 ^ i) mod 16 = (n div 16 ^ i) mod 16) \<Longrightarrow> m mod 16 ^ d = n mod (16 :: nat) ^ d"
proof (induction d)
  case (Suc d)
  have "m mod 16 ^ d = n mod 16 ^ d"
    using Suc by simp
  then show ?case
    using Suc.prems [of d] mod_mult2_eq [of m "16 ^ d" 16] mod_mult2_eq [of n "16 ^ d" 16] by (simp add: mult.commute)
qed simp

lemma hex8_inj:
  assumes "hex8 m = hex8 n" "m < 2 ^ 32" "n < 2 ^ 32"
  shows "m = n"
proof -
  have "m mod 16 ^ 8 = n mod 16 ^ 8"
  proof (rule digits_eq)
    fix i :: nat
    assume "i < 8"
    then have "i \<in> set (rev [0..<8])"
      by simp
    with assms(1) have "hex_digit (m div 16 ^ i) = hex_digit (n div 16 ^ i)"
      unfolding hex8_def map_eq_conv by blast
    then show "(m div 16 ^ i) mod 16 = (n div 16 ^ i) mod 16"
      by (simp add: hex_digit_eq)
  qed
  moreover have "(16 :: nat) ^ 8 = 2 ^ 32"
    by simp
  ultimately show ?thesis
    using assms(2,3) by simp
qed

definition hidden_at :: "nat \<Rightarrow> nat \<Rightarrow> string" where
  "hidden_at i c = ''.fuse_hidden'' @ hex8 (i mod 2 ^ 32) @ hex8 (c mod 2 ^ 32)"

lemma hex_digit_plain: "hex_digit d \<noteq> NUL"
proof -
  have "hex_digit d \<in> set ''0123456789abcdef''"
    unfolding hex_digit_def by (intro nth_mem) simp
  then show ?thesis
    by auto
qed

lemma hidden_at_plain: "NUL \<notin> set (hidden_at i c)"
proof -
  have "NUL \<notin> set (hex8 n)" for n
    unfolding hex8_def set_map using hex_digit_plain by (metis imageE)
  then show ?thesis
    by (simp add: hidden_at_def)
qed

lemma hidden_at_inj: "hidden_at i c = hidden_at i d \<Longrightarrow> c mod 2 ^ 32 = d mod 2 ^ 32"
  by (rule hex8_inj) (simp_all add: hidden_at_def)

lemma lookup_node_hidectr [simp]: "lookup_node (f\<lparr>fu_hidectr := c\<rparr>) = lookup_node f"
proof -
  have hash: "name_hash (f\<lparr>fu_hidectr := c\<rparr>) = name_hash f"
    by (rule name_hash_size) simp
  have deref: "deref (f\<lparr>fu_hidectr := c\<rparr>) = deref f"
    by (rule HOL.ext) (simp add: deref_def)
  show ?thesis
    by (intro HOL.ext) (unfold lookup_node_def hash deref, simp)
qed

lemma lookup_node_total:
  assumes "tables_ok f R" "NUL \<notin> set s"
  obtains "lookup_node f i s = Inr None" "\<not> (\<exists>j. entry f i s j)"
    | a j where "lookup_node f i s = Inr (Some a)" "entry f i s j" "idm f a = Some j"
proof (cases "\<exists>j. entry f i s j")
  case True
  then show thesis
    using that(2) entry_node [OF assms(1)] by metis
next
  case False
  then show thesis
    using that(1) lookup_node_missing [OF assms] by blast
qed

text \<open>The search stops at the first number whose name is not in the directory.\<close>

lemma hidden_pick_search:
  assumes "tables_ok f R"
  shows "(\<exists>c. hidden_pick k dir i f = Some (Inr (hidden_at i c, f\<lparr>fu_hidectr := c\<rparr>))) \<or>
         (\<forall>j\<in>{1..k}. \<exists>x. entry f dir (hidden_at i (fu_hidectr f + j)) x)"
  using assms
proof (induction k arbitrary: f)
  case (Suc k)
  let ?c = "(fu_hidectr f + 1) mod 2 ^ 32"
  let ?f = "f\<lparr>fu_hidectr := ?c\<rparr>"
  have name: "''.fuse_hidden'' @ hex8 (i mod 2 ^ 32) @ hex8 ?c = hidden_at i ?c"
    "hidden_at i (fu_hidectr f + 1) = hidden_at i ?c"
    by (simp_all add: hidden_at_def)
  have same: "same_tables f ?f"
    by (simp add: same_tables_def)
  have ok: "tables_ok ?f R"
    using Suc.prems by (subst tables_ok_cong [of ?f f]) (simp_all add: field_defs)
  have ent: "entry ?f = entry f"
    by (rule entry_same_fields) (simp_all add: field_defs)
  show ?case
  proof (cases rule: lookup_node_total [OF Suc.prems hidden_at_plain, of dir i ?c])
    case 1
    then have "hidden_pick (Suc k) dir i f = Some (Inr (hidden_at i ?c, ?f))"
      by (simp add: Let_def name del: hidden_pick.simps(1)) (simp add: name [simplified])
    then show ?thesis
      by blast
  next
    case (2 a x)
    then have step: "hidden_pick (Suc k) dir i f = hidden_pick k dir i ?f"
      by (simp add: Let_def) (simp add: name [simplified])
    have "(\<forall>j\<in>{1..Suc k}. \<exists>x. entry f dir (hidden_at i (fu_hidectr f + j)) x)"
      if all: "\<forall>j\<in>{1..k}. \<exists>x. entry ?f dir (hidden_at i (fu_hidectr ?f + j)) x"
    proof
      fix j
      assume j: "j \<in> {1..Suc k}"
      show "\<exists>x. entry f dir (hidden_at i (fu_hidectr f + j)) x"
      proof (cases "j = 1")
        case True
        with 2 name(2) show ?thesis
          by auto
      next
        case False
        with j have "j - 1 \<in> {1..k}"
          by auto
        with all ent have "\<exists>x. entry f dir (hidden_at i (?c + (j - 1))) x"
          by simp
        moreover have "hidden_at i (?c + (j - 1)) = hidden_at i (fu_hidectr f + j)"
          using j by (cases j) (simp_all add: hidden_at_def mod_add_left_eq)
        ultimately show ?thesis
          by simp
      qed
    qed
    moreover have "(\<exists>c. hidden_pick k dir i ?f = Some (Inr (hidden_at i c, f\<lparr>fu_hidectr := c\<rparr>))) \<or>
        (\<forall>j\<in>{1..k}. \<exists>x. entry ?f dir (hidden_at i (fu_hidectr ?f + j)) x)"
      using Suc.IH [OF ok] by simp
    ultimately show ?thesis
      unfolding step by blast
  qed
qed simp

lemma hidden_pick_more: "hidden_pick k dir i f = Some r \<Longrightarrow> hidden_pick (k + d) dir i f = Some r"
proof (induction k arbitrary: f)
  case (Suc k)
  then show ?case
    by (auto simp: Let_def split: sum.splits option.splits)
qed simp

lemma hidden_pick_ok:
  assumes "tables_ok f R" "card (dom (fu_nodes f)) < k" "k \<le> 2 ^ 32"
  shows "\<exists>c. hidden_pick k dir i f = Some (Inr (hidden_at i c, f\<lparr>fu_hidectr := c\<rparr>))"
proof -
  let ?name = "\<lambda>j. hidden_at i (fu_hidectr f + j)"
  have "\<not> (\<forall>j\<in>{1..k}. \<exists>x. entry f dir (?name j) x)"
  proof
    assume "\<forall>j\<in>{1..k}. \<exists>x. entry f dir (?name j) x"
    then obtain t where t: "\<And>j. j \<in> {1..k} \<Longrightarrow> entry f dir (?name j) (t j)"
      by metis
    have "inj_on t {1..k}"
    proof (rule inj_onI)
      fix j l
      assume jl: "j \<in> {1..k}" "l \<in> {1..k}" "t j = t l"
      then have "?name j = ?name l"
        using entry_target_unique [OF assms(1) t [OF jl(1)]] t [OF jl(2)] by metis
      then have "(fu_hidectr f + j) mod 2 ^ 32 = (fu_hidectr f + l) mod 2 ^ 32"
        by (rule hidden_at_inj)
      then show "j = l"
        using inj_on_mod [OF assms(3), of "fu_hidectr f"] jl(1,2) by (auto dest: inj_onD)
    qed
    then have "k = card (t ` {1..k})"
      by (simp add: card_image)
    also have "\<dots> \<le> card ((\<lambda>a. the (idm f a)) ` dom (idm f))"
    proof (rule card_mono)
      show "t ` {1..k} \<subseteq> (\<lambda>a. the (idm f a)) ` dom (idm f)"
        using t by (force simp: entry_def image_iff)
    qed (use finite_nodes [OF assms(1)] in \<open>simp add: dom_fields\<close>)
    also have "\<dots> \<le> card (dom (fu_nodes f))"
      using finite_nodes [OF assms(1)] card_image_le [of "dom (idm f)"] by (simp add: dom_fields)
    finally have "k \<le> card (dom (fu_nodes f))" .
    then show False
      using assms(2) by simp
  qed
  then show ?thesis
    using hidden_pick_search [OF assms(1), of k dir i] by blast
qed

text \<open>Looking a name up.\<close>

lemma same_core_lookup:
  assumes "lib_inv p ok l0" "same_core (lb_f l0) f" "NUL \<notin> set s"
  obtains "lookup_node f i s = Inr None" "\<not> (\<exists>j. entry (lb_f l0) i s j)"
    | a n where "lookup_node f i s = Inr (Some a)" "fu_nodes f a = Some n"
proof -
  have n0: "nodes_ok (lb_f l0)"
    using assms(1) by (simp add: lib_inv_def)
  note f = same_core_ok [OF n0 assms(2)]
  show thesis
    by (rule lookup_node_total [OF nodes_okD [OF f(1)] assms(3), of i]) (use that f(3) idm_nodeE in metis)+
qed

lemma steps_is_open:
  assumes "lib_inv p ok l0" "NUL \<notin> set s"
  shows "steps ok l0 (on_nodes (is_open i s)) (\<lambda>_. True)"
proof (rule steps_nodes)
  fix f
  assume "same_core (lb_f l0) f"
  then show "\<exists>x g. is_open i s f = Inr (x, g) \<and> same_core f g \<and> True"
    by (cases rule: same_core_lookup [OF assms(1) _ assms(2), of f i]) (auto simp: is_open_def deref_def)
qed

lemma steps_hidden_pick:
  assumes "lib_ready k p ok l0"
  shows "steps ok l0 (on_nodes_fuel (hidden_pick k dir i)) (\<lambda>s. NUL \<notin> set s)"
proof (rule steps_nodes_fuel)
  fix f
  assume c: "same_core (lb_f l0) f"
  let ?k = "card (dom (fu_nodes f)) + 1"
  have n0: "nodes_ok (lb_f l0)" "room (lb_f l0)" "card (dom (fu_nodes (lb_f l0))) + 3 \<le> k"
    using assms by (simp_all add: lib_ready_def lib_inv_def)
  have k: "?k \<le> 2 ^ 32" "?k \<le> k"
    using n0(2,3) same_core_maps(7) [OF c] by (simp_all add: room_def INT_MAX_def)
  obtain h where "hidden_pick ?k dir i f = Some (Inr (hidden_at i h, f\<lparr>fu_hidectr := h\<rparr>))"
    using hidden_pick_ok [OF nodes_okD [OF same_core_ok(1) [OF n0(1) c]], of ?k dir i] k(1) by auto
  then have "hidden_pick k dir i f = Some (Inr (hidden_at i h, f\<lparr>fu_hidectr := h\<rparr>))"
    using hidden_pick_more [of ?k dir i f _ "k - ?k"] k(2) by simp
  then show "\<exists>x g. hidden_pick k dir i f = Some (Inr (x, g)) \<and> same_core f g \<and> NUL \<notin> set x"
    using hidden_at_plain by (auto simp: same_core_def)
qed

end
