(* ===== verification/Fuse_Dir_Laws.thy ===== *)
theory Fuse_Dir_Laws
  imports Fuse_Dir Fuse_Steps
begin

text \<open>
  What libfuse promises of an open directory: the growing of the buffer ends exactly up to two gigabytes, an
  entry that is filled in lies inside the allocation, and the entries of a listing stand one behind the other,
  each with the offset at which the next one starts.
\<close>

section \<open>Encoding\<close>

lemma le_bytes_0 [simp]: "le_bytes 0 x = []"
  by (simp add: le_bytes_def)

lemma le_bytes_Suc [simp]: "le_bytes (Suc k) x = char_of (x mod 256) # le_bytes k (x div 256)"
  by (simp add: le_bytes_def upt_rec [of 0] map_Suc_upt [symmetric] div_mult2_eq del: upt_Suc)

lemma length_le_bytes [simp]: "length (le_bytes k x) = k"
  by (simp add: le_bytes_def)

lemma le_val_bytes: "le_val (le_bytes k x) = x mod 256 ^ k"
  by (induction k arbitrary: x) (simp_all add: mod_mult2_eq)

lemma unat_less_word: "unat (x :: 'a::len word) < 2 ^ LENGTH('a)"
  by (rule unsigned_less)

lemma align_down: "unat (and x (- 8) :: 64 word) = unat x div 8 * 8"
proof -
  have "(- 8 :: 64 word) = not (mask 3)"
    by (simp add: mask_eq_decr_exp not_eq_complement)
  moreover have "and x (not (mask 3)) = push_bit 3 (drop_bit 3 x)"
    by (rule bit_eqI) (auto simp: bit_simps)
  ultimately have "and x (- 8) = push_bit 3 (drop_bit 3 x)"
    by simp
  moreover have "unat (push_bit 3 (drop_bit 3 x)) = take_bit 64 (unat x div 8 * 8)"
    by (simp only: unsigned_push_bit_eq unat_drop_bit_eq) (simp add: push_bit_eq_mult drop_bit_eq_div)
  moreover have "unat x div 8 * 8 < 2 ^ 64"
    using unat_less_word [of x] by simp
  ultimately show ?thesis
    by (simp add: take_bit_nat_eq_self)
qed

lemma fuse_dirent_size_eq:
  assumes "n < 2 ^ 32"
  shows "fuse_dirent_size n = (n + 31) div 8 * 8"
proof -
  have "unat (word_of_nat (24 + n) + 8 - 1 :: 64 word) = n + 31"
  proof -
    have "(word_of_nat (24 + n) + 8 - 1 :: 64 word) = word_of_nat (n + 31)"
      by simp
    then show ?thesis
      using assms by (simp only: unat_of_nat) simp
  qed
  then show ?thesis
    by (simp add: fuse_dirent_size_def FUSE_DIRENT_ALIGN_def FUSE_NAME_OFFSET_def align_down)
qed

lemma fuse_dirent_size_bounds:
  assumes "n < 2 ^ 32"
  shows "24 + n \<le> fuse_dirent_size n" "fuse_dirent_size n \<le> n + 31"
  using fuse_dirent_size_eq [OF assms] by linarith+

lemma length_fuse_add_dirent:
  assumes "length name < 2 ^ 32"
  shows "length (fuse_add_dirent name st off) = fuse_dirent_size (length name)"
  using fuse_dirent_size_bounds(1) [OF assms] by (simp add: fuse_add_dirent_def Let_def FUSE_NAME_OFFSET_def)

section \<open>Growing\<close>

text \<open>The sizes that the buffer takes.\<close>

definition size_ok :: "nat \<Rightarrow> bool" where
  "size_ok n \<longleftrightarrow> (\<exists>k\<le>21. n = 1024 * 2 ^ k)"

lemma grow_stuck: "\<exists>r. grow 0 minsize = Some r \<Longrightarrow> minsize = 0"
proof -
  have "grow n m = Some r \<Longrightarrow> n = 0 \<longrightarrow> m = 0" for n m r
    by (rule grow.raw_induct [of "\<lambda>n m r. n = 0 \<longrightarrow> m = 0"]) (auto split: if_splits)
  then show "\<exists>r. grow 0 minsize = Some r \<Longrightarrow> minsize = 0"
    by blast
qed

lemma grow_steps:
  assumes "k \<le> 21" "minsize \<le> 2 ^ 31"
  shows "\<exists>r. grow (1024 * 2 ^ k) minsize = Some r \<and> size_ok r \<and> minsize \<le> r \<and> 1024 * 2 ^ k \<le> r"
  using assms(1)
proof (induction "21 - k" arbitrary: k)
  case 0
  then have "(1024 * 2 ^ k :: nat) = 2 ^ 31" "k = 21"
    by simp_all
  then show ?case
    using assms(2) by (subst grow.simps) (auto simp: size_ok_def)
next
  case (Suc x)
  then have k: "Suc k \<le> 21" "x = 21 - Suc k"
    by simp_all
  show ?case
  proof (cases "1024 * 2 ^ k < minsize")
    case True
    have "(1024 * 2 ^ Suc k :: nat) \<le> 1024 * 2 ^ 21"
      by (rule mult_left_mono [OF power_increasing]) (use k in simp_all)
    then have "1024 * 2 ^ k * 2 mod 2 ^ 32 = (1024 * 2 ^ Suc k :: nat)"
      by (subst mod_less) simp_all
    with True have "grow (1024 * 2 ^ k) minsize = grow (1024 * 2 ^ Suc k) minsize"
      by (subst grow.simps) simp
    with Suc.hyps(1) [OF k(2,1)] show ?thesis
      by auto
  next
    case False
    then show ?thesis
      using Suc.prems by (subst grow.simps) (auto simp: size_ok_def)
  qed
qed

lemma grow_hangs:
  assumes "k \<le> 21" "2 ^ 31 < minsize"
  shows "grow (1024 * 2 ^ k) minsize = None"
  using assms(1)
proof (induction "21 - k" arbitrary: k)
  case 0
  then have "(1024 * 2 ^ k :: nat) = 2 ^ 31"
    by simp
  then have "grow (1024 * 2 ^ k) minsize = grow 0 minsize"
    using assms(2) by (subst grow.simps) simp
  then show ?case
    using grow_stuck [of minsize] assms(2) by (cases "grow 0 minsize") auto
next
  case (Suc x)
  then have k: "Suc k \<le> 21" "x = 21 - Suc k"
    by simp_all
  have "(1024 * 2 ^ Suc k :: nat) \<le> 1024 * 2 ^ 21"
    by (rule mult_left_mono [OF power_increasing]) (use k in simp_all)
  then have "1024 * 2 ^ k < minsize" and "1024 * 2 ^ k * 2 mod 2 ^ 32 = (1024 * 2 ^ Suc k :: nat)"
    using assms(2) by simp_all
  then have "grow (1024 * 2 ^ k) minsize = grow (1024 * 2 ^ Suc k) minsize"
    by (subst grow.simps) simp
  with Suc.hyps(1) [OF k(2,1)] show ?case
    by simp
qed

text \<open>\<open>extend_contents\<close> returns for every size up to two gigabytes, with room for it, and it never returns for
  a larger one that the buffer does not have: the new size wraps around to 0, which no doubling increases.\<close>

theorem extend_contents_returns_iff:
  assumes "dh_size dh = 0 \<or> size_ok (dh_size dh)" "dh_size dh < minsize"
  shows "(case extend_contents minsize (dh, m) of
            None \<Rightarrow> 2 ^ 31 < minsize
          | Some (ok, dh', m') \<Rightarrow> minsize \<le> 2 ^ 31 \<and> ok = fst (alloc m) \<and>
              (if ok then minsize \<le> dh_size dh' \<and> size_ok (dh_size dh') \<and> dh_contents dh' = dh_contents dh
               else dh' = dh\<lparr>dh_error := - ENOMEM\<rparr>))"
proof -
  obtain k where k: "k \<le> 21" "(if dh_size dh = 0 then 1024 else dh_size dh) = 1024 * 2 ^ k"
    using assms(1) by (cases "dh_size dh = 0") (auto simp: size_ok_def intro: that [of 0] that)
  show ?thesis
  proof (cases "minsize \<le> 2 ^ 31")
    case True
    with grow_steps [OF k(1) True] assms(2) k(2) show ?thesis
      by (auto simp: extend_contents_def split: prod.splits)
  next
    case False
    with grow_hangs [OF k(1)] assms(2) k(2) show ?thesis
      by (simp add: extend_contents_def)
  qed
qed

theorem extend_contents_returns_iff_witness:
  "extend_contents (2 ^ 31 + 1) (new_dirhandle 1, \<lparr>oom = (\<lambda>_. False), ticks = 0\<rparr>) = None \<and>
   (\<exists>dh m. extend_contents 1025 (new_dirhandle 1, \<lparr>oom = (\<lambda>_. False), ticks = 0\<rparr>) = Some (True, dh, m) \<and> 1025 \<le> dh_size dh)"
  using extend_contents_returns_iff [of "new_dirhandle 1" "2 ^ 31 + 1" "\<lparr>oom = (\<lambda>_. False), ticks = 0\<rparr>"]
    extend_contents_returns_iff [of "new_dirhandle 1" 1025 "\<lparr>oom = (\<lambda>_. False), ticks = 0\<rparr>"]
  by (auto simp: new_dirhandle_def alloc_def split: option.splits)

section \<open>Filling\<close>

text \<open>A handle whose entries lie inside the allocation.\<close>

definition dh_ok :: "fuse_dh \<Rightarrow> bool" where
  "dh_ok dh \<longleftrightarrow> (dh_size dh = 0 \<or> size_ok (dh_size dh)) \<and> dh_len dh \<le> length (dh_contents dh) \<and> length (dh_contents dh) \<le> dh_size dh"

lemma size_ok_le: "size_ok n \<Longrightarrow> n \<le> 2 ^ 31"
proof -
  assume "size_ok n"
  then obtain k where "k \<le> 21" "n = 1024 * 2 ^ k"
    by (auto simp: size_ok_def)
  then have "n \<le> 1024 * 2 ^ 21"
    using power_increasing [of k 21 "2 :: nat"] by simp
  then show "n \<le> 2 ^ 31"
    by simp
qed

lemma extend_contents_ok:
  assumes "dh_ok dh" "minsize \<le> 2 ^ 31" "\<forall>t. \<not> oom m t"
  obtains n m' where "extend_contents minsize (dh, m) = Some (True, dh\<lparr>dh_size := n\<rparr>, m')" "oom m' = oom m" "minsize \<le> n"
    "dh_ok (dh\<lparr>dh_size := n\<rparr>)" "n \<le> 2 ^ 31"
proof (cases "dh_size dh < minsize")
  case False
  have "dh_size dh \<le> 2 ^ 31"
    using assms(1) size_ok_le by (auto simp: dh_ok_def)
  then show thesis
    using False assms(1) that [of "dh_size dh" m] by (simp add: extend_contents_def)
next
  case True
  obtain k where k: "k \<le> 21" "(if dh_size dh = 0 then 1024 else dh_size dh) = 1024 * 2 ^ k"
    using assms(1) by (cases "dh_size dh = 0") (auto simp: dh_ok_def size_ok_def intro: that [of 0] that)
  obtain r where r: "grow (1024 * 2 ^ k) minsize = Some r" "size_ok r" "minsize \<le> r"
    using grow_steps [OF k(1) assms(2)] by blast
  show thesis
    by (rule that [of r "snd (alloc m)"])
      (use True assms k(2) r size_ok_le in \<open>auto simp: extend_contents_def alloc_def dh_ok_def\<close>)
qed

lemma fill_ino_total:
  assumes "nodes_ok f" "NUL \<notin> set name"
  shows "\<exists>ino. fill_ino c f dir name x = Inr ino"
proof (cases rule: lookup_node_total [OF nodes_okD [OF assms(1)] assms(2), of dir])
  case 1
  then show ?thesis
    by (simp add: fill_ino_def)
next
  case (2 a j)
  then show ?thesis
    by (auto simp: fill_ino_def deref_def idm_def split: option.splits)
qed

text \<open>The attributes that an entry is written with.\<close>

definition shown :: "fuse_config \<Rightarrow> fuse \<Rightarrow> nat \<Rightarrow> string \<Rightarrow> fattr option \<Rightarrow> fattr" where
  "shown c f dir name statp =
     (let st0 = (case statp of Some st \<Rightarrow> st | None \<Rightarrow> no_attr\<lparr>at_ino := FUSE_UNKNOWN_INO\<rparr>) in
      case fill_ino c f dir name (at_ino st0) of Inr ino \<Rightarrow> st0\<lparr>at_ino := ino\<rparr> | Inl e \<Rightarrow> st0)"

lemma fill_dir_appends:
  assumes "dh_ok dh" "\<forall>t. \<not> oom m t" "nodes_ok f" "NUL \<notin> set name" "length name < 2 ^ 32"
    and "dh_len dh + fuse_dirent_size (length name) \<le> 2 ^ 31"
  defines "n \<equiv> dh_len dh + fuse_dirent_size (length name)"
  obtains dh' m' where "fill_dir c f (dh, m) name statp 0 = Some (Inr ((dh', m'), 0))" "dh_ok dh'" "oom m' = oom m"
    "dh_len dh' = n" "dh_filled dh' = dh_filled dh" "dh_error dh' = dh_error dh" "dh_nodeid dh' = dh_nodeid dh" "dh_fh dh' = dh_fh dh"
    "take n (dh_contents dh') =
       take (dh_len dh) (dh_contents dh) @ fuse_add_dirent name (shown c f (dh_nodeid dh) name statp) (word_of_nat n)"
proof -
  let ?st0 = "case statp of Some st \<Rightarrow> st | None \<Rightarrow> no_attr\<lparr>at_ino := FUSE_UNKNOWN_INO\<rparr>"
  obtain ino where ino: "fill_ino c f (dh_nodeid dh) name (at_ino ?st0) = Inr ino"
    using fill_ino_total [OF assms(3,4)] by blast
  have n: "n \<le> 2 ^ 31" "n mod 4294967296 = n"
    using assms(6) by (simp_all add: n_def)
  obtain sz m' where ext: "extend_contents n (dh, m) = Some (True, dh\<lparr>dh_size := sz\<rparr>, m')" "oom m' = oom m" "n \<le> sz"
      "dh_ok (dh\<lparr>dh_size := sz\<rparr>)" "sz \<le> 2 ^ 31"
    by (rule extend_contents_ok [OF assms(1) n(1) assms(2)])
  let ?bytes = "fuse_add_dirent name (shown c f (dh_nodeid dh) name statp) (word_of_nat n)"
  have len: "length ?bytes = fuse_dirent_size (length name)" "dh_len dh + length ?bytes = n"
    using length_fuse_add_dirent [OF assms(5)] by (simp_all add: n_def)
  let ?dh' = "dh\<lparr>dh_size := sz, dh_contents := take (dh_len dh) (dh_contents dh) @ ?bytes @ drop n (dh_contents dh), dh_len := n\<rparr>"
  have room: "nat ((int sz - int (dh_len dh)) mod 2 ^ 32) = sz - dh_len dh"
  proof -
    have "(int sz - int (dh_len dh)) mod 2 ^ 32 = int (sz - dh_len dh)"
      using ext(3,5) by (subst mod_pos_pos_trivial) (simp_all add: n_def of_nat_diff)
    then show ?thesis
      by simp
  qed
  have "fuse_dirent_size (length name) \<le> sz - dh_len dh"
    using ext(3) by (simp add: n_def)
  then have "fill_dir c f (dh, m) name statp 0 = Some (Inr ((?dh', m'), 0))"
    using ino ext(1,3) room len(2)
    by (simp add: fill_dir_def Let_def n_def [symmetric] n(2) fuse_add_direntry_def put_bytes_def shown_def)
  moreover have "dh_ok ?dh'"
    using ext(3,4) len(2) by (auto simp: dh_ok_def)
  ultimately show thesis
    using that [of ?dh' m'] ext(2) len assms(1) by (simp add: dh_ok_def min_absorb2 n_def)
qed

text \<open>The bytes of a listing that starts at the offset \<open>o\<close> of the buffer.\<close>

primrec dirents :: "fuse_config \<Rightarrow> fuse \<Rightarrow> nat \<Rightarrow> nat \<Rightarrow> (string \<times> fattr option) list \<Rightarrow> string" where
  "dirents c f dir pos [] = []"
| "dirents c f dir pos (x # xs) =
     (let pos' = pos + fuse_dirent_size (length (fst x)) in
      fuse_add_dirent (fst x) (shown c f dir (fst x) (snd x)) (word_of_nat pos') @ dirents c f dir pos' xs)"

definition dirents_size :: "(string \<times> fattr option) list \<Rightarrow> nat" where
  "dirents_size xs = sum_list (map (\<lambda>x. fuse_dirent_size (length (fst x))) xs)"

lemma dirents_size_simps [simp]: "dirents_size [] = 0"
  "dirents_size (x # xs) = fuse_dirent_size (length (fst x)) + dirents_size xs"
  "dirents_size (xs @ ys) = dirents_size xs + dirents_size ys"
  by (simp_all add: dirents_size_def)

text \<open>Names that can be entries.\<close>

definition name_ok :: "string \<Rightarrow> bool" where
  "name_ok s \<longleftrightarrow> NUL \<notin> set s \<and> 0 < length s \<and> length s \<le> 1024"

lemma length_dirents: "\<forall>x\<in>set xs. name_ok (fst x) \<Longrightarrow> length (dirents c f dir pos xs) = dirents_size xs"
  by (induction xs arbitrary: pos) (simp_all add: Let_def length_fuse_add_dirent name_ok_def)

lemma dirents_append: "dirents c f dir pos (xs @ ys) = dirents c f dir pos xs @ dirents c f dir (pos + dirents_size xs) ys"
  by (induction xs arbitrary: pos) (simp_all add: Let_def add.assoc)

text \<open>A file system that fills in names one after the other, as long as the filler takes them.\<close>

fun fill_seq :: "'b dir_filler \<Rightarrow> 'b \<Rightarrow> (string \<times> fattr option) list \<Rightarrow> 'b option" where
  "fill_seq filler b [] = Some b"
| "fill_seq filler b ((name, st) # xs) = (let (b1, r) = filler b name st 0 in if r \<noteq> 0 then None else fill_seq filler b1 xs)"

lemma fill_seq_dirents:
  assumes "dh_ok dh" "\<forall>t. \<not> oom m t" "nodes_ok f" "\<forall>x\<in>set xs. name_ok (fst x)" "dh_len dh + dirents_size xs \<le> 2 ^ 31"
  shows "\<exists>dh' m'. fill_seq (dh_filler c f) (Some (Inr (dh, m))) xs = Some (Some (Inr (dh', m'))) \<and> dh_ok dh' \<and> oom m' = oom m \<and>
           dh_len dh' = dh_len dh + dirents_size xs \<and> dh_filled dh' = dh_filled dh \<and> dh_error dh' = dh_error dh \<and>
           dh_nodeid dh' = dh_nodeid dh \<and> dh_fh dh' = dh_fh dh \<and>
           take (dh_len dh') (dh_contents dh') =
             take (dh_len dh) (dh_contents dh) @ dirents c f (dh_nodeid dh) (dh_len dh) xs"
  using assms
proof (induction xs arbitrary: dh m)
  case (Cons x xs)
  obtain name st where x: "x = (name, st)"
    by (cases x)
  have name: "NUL \<notin> set name" "length name < 2 ^ 32" "dh_len dh + fuse_dirent_size (length name) \<le> 2 ^ 31"
    using Cons.prems(4,5) by (auto simp: x name_ok_def)
  obtain dh1 m1 where one: "fill_dir c f (dh, m) name st 0 = Some (Inr ((dh1, m1), 0))" "dh_ok dh1" "oom m1 = oom m"
      "dh_len dh1 = dh_len dh + fuse_dirent_size (length name)" "dh_filled dh1 = dh_filled dh" "dh_error dh1 = dh_error dh"
      "dh_nodeid dh1 = dh_nodeid dh" "dh_fh dh1 = dh_fh dh"
      "take (dh_len dh + fuse_dirent_size (length name)) (dh_contents dh1) =
         take (dh_len dh) (dh_contents dh) @ fuse_add_dirent name (shown c f (dh_nodeid dh) name st)
           (word_of_nat (dh_len dh + fuse_dirent_size (length name)))"
    by (rule fill_dir_appends [OF Cons.prems(1-3) name])
  have "\<forall>t. \<not> oom m1 t" "\<forall>x\<in>set xs. name_ok (fst x)" "dh_len dh1 + dirents_size xs \<le> 2 ^ 31"
    using Cons.prems one(3,4) by (simp_all add: x)
  from Cons.IH [OF one(2) this(1) Cons.prems(3) this(2,3)] show ?case
    using one by (auto simp: x dh_filler_def Let_def add.assoc)
qed simp

section \<open>Safety\<close>

lemma extend_contents_safe:
  assumes "dh_ok dh" "extend_contents n (dh, m) = Some (ok, dh', m')"
  shows "dh_ok dh' \<and> dh_len dh' = dh_len dh \<and> dh_needlen dh' = dh_needlen dh \<and> dh_nodeid dh' = dh_nodeid dh \<and>
           dh_contents dh' = dh_contents dh \<and> dh_size dh' \<le> 2 ^ 31 \<and> (ok \<longrightarrow> n \<le> dh_size dh')"
proof (cases "dh_size dh < n")
  case False
  then show ?thesis
    using assms size_ok_le by (auto simp: extend_contents_def dh_ok_def)
next
  case True
  obtain k where k: "k \<le> 21" "(if dh_size dh = 0 then 1024 else dh_size dh) = 1024 * 2 ^ k"
    using assms(1) by (cases "dh_size dh = 0") (auto simp: dh_ok_def size_ok_def intro: that [of 0] that)
  have le: "n \<le> 2 ^ 31"
    using grow_hangs [OF k(1), of n] assms(2) True k(2) by (cases "n \<le> 2 ^ 31") (simp_all add: extend_contents_def)
  obtain r where r: "grow (1024 * 2 ^ k) n = Some r" "size_ok r" "n \<le> r"
    using grow_steps [OF k(1) le] by blast
  show ?thesis
    using assms True k(2) r size_ok_le by (auto simp: extend_contents_def dh_ok_def alloc_def split: if_splits)
qed

lemma fuse_add_direntry_safe:
  assumes "dh_ok dh" "length name < 2 ^ 31" "dh_len dh + bufsize \<le> dh_size dh"
  obtains dh' where "fuse_add_direntry bufsize name st off dh = Inr (fuse_dirent_size (length name), dh')" "dh_ok dh'"
    "dh_len dh' = dh_len dh" "dh_needlen dh' = dh_needlen dh" "dh_size dh' = dh_size dh" "dh_nodeid dh' = dh_nodeid dh"
    "take (dh_len dh) (dh_contents dh') = take (dh_len dh) (dh_contents dh)"
    "fuse_dirent_size (length name) \<le> bufsize \<Longrightarrow> dh_len dh + fuse_dirent_size (length name) \<le> length (dh_contents dh') \<and>
       take (dh_len dh + fuse_dirent_size (length name)) (dh_contents dh') = take (dh_len dh) (dh_contents dh) @ fuse_add_dirent name st off"
proof (cases "fuse_dirent_size (length name) \<le> bufsize")
  case True
  let ?b = "fuse_add_dirent name st off"
  let ?dh = "dh\<lparr>dh_contents := take (dh_len dh) (dh_contents dh) @ ?b @ drop (dh_len dh + length ?b) (dh_contents dh)\<rparr>"
  have len: "length ?b = fuse_dirent_size (length name)"
    by (rule length_fuse_add_dirent) (use assms(2) in simp)
  show thesis
    by (rule that [of ?dh]) (use True assms(1,3) len in \<open>auto simp: fuse_add_direntry_def Let_def put_bytes_def dh_ok_def\<close>)
next
  case False
  then show thesis
    using assms(1) by (intro that [of dh]) (simp_all add: fuse_add_direntry_def)
qed

text \<open>C38: \<open>fill_dir\<close> keeps a handle well formed, with or without memory: it never writes outside the
  allocation. The entries that are stored already stay as they are; an entry that is taken is stored behind them
  with the offset of the next one, or the offset that the file system gave, and one that is refused leaves their
  length alone. A file system that passes offsets must not have filled in more than the kernel asked for.\<close>

theorem fill_dir_keeps_handle:
  assumes "dh_ok dh" "nodes_ok f" "NUL \<notin> set name" "length name < 2 ^ 30" "off = 0 \<or> dh_len dh \<le> dh_needlen dh"
  shows "(case fill_dir c f (dh, m) name statp off of
            None \<Rightarrow> True
          | Some (Inl _) \<Rightarrow> False
          | Some (Inr ((dh', m'), full)) \<Rightarrow> dh_ok dh' \<and> take (dh_len dh) (dh_contents dh') = take (dh_len dh) (dh_contents dh) \<and>
              (if full \<noteq> 0 then dh_len dh' = dh_len dh
               else dh_len dh' = dh_len dh + fuse_dirent_size (length name) \<and>
                 (\<exists>st. take (dh_len dh') (dh_contents dh') =
                    take (dh_len dh) (dh_contents dh) @ fuse_add_dirent name st (if off = 0 then word_of_nat (dh_len dh') else off))) \<and>
              (off = 0 \<or> dh_len dh' \<le> dh_needlen dh'))"
proof -
  let ?st0 = "case statp of Some st \<Rightarrow> st | None \<Rightarrow> no_attr\<lparr>at_ino := FUSE_UNKNOWN_INO\<rparr>" and ?e = "fuse_dirent_size (length name)"
  obtain ino where ino: "fill_ino c f (dh_nodeid dh) name (at_ino ?st0) = Inr ino"
    using fill_ino_total [OF assms(2,3)] by blast
  have e: "?e \<le> 2 ^ 30 + 31" "length name < 2 ^ 31"
    using assms(4) fuse_dirent_size_bounds(2) [of "length name"] by simp_all
  have len: "dh_len dh \<le> 2 ^ 31"
    using assms(1) size_ok_le by (fastforce simp: dh_ok_def)
  let ?n = "if off = 0 then dh_len dh + ?e else dh_needlen dh"
  have n: "(dh_len dh + ?e) mod 4294967296 = dh_len dh + ?e"
    using e(1) len by simp
  show ?thesis
  proof (cases "extend_contents ?n (dh, m)")
    case None
    then show ?thesis
      by (auto simp: fill_dir_def Let_def ino n split: if_splits)
  next
    case (Some r)
    obtain ok dh1 m1 where r: "r = (ok, dh1, m1)"
      by (cases r)
    note ext = extend_contents_safe [OF assms(1) Some [unfolded r]]
    show ?thesis
    proof (cases ok)
      case False
      then show ?thesis
        using Some r ext assms(5) by (auto simp: fill_dir_def Let_def ino n split: if_splits)
    next
      case True
      define dh2 where "dh2 = (if off = 0 then dh1 else dh1\<lparr>dh_filled := False\<rparr>)"
      define buf where "buf = (if off = 0 then dh_size dh1 - dh_len dh1 else dh_needlen dh1 - dh_len dh1)"
      have dh2: "dh_ok dh2" "dh_len dh2 = dh_len dh" "dh_needlen dh2 = dh_needlen dh" "dh_size dh2 = dh_size dh1" "dh_len dh2 + buf \<le> dh_size dh2"
        using ext True assms(5) by (auto simp: dh2_def buf_def dh_ok_def)
      have room: "nat ((int (if off = 0 then dh_size dh2 else dh_needlen dh2) - int (dh_len dh2)) mod 4294967296) = buf"
      proof -
        have "int (if off = 0 then dh_size dh2 else dh_needlen dh2) - int (dh_len dh2) = int buf" "buf < 4294967296"
          using ext True assms(5) dh2 by (auto simp: buf_def dh_ok_def)
        then show ?thesis
          by simp
      qed
      show ?thesis
        by (rule fuse_add_direntry_safe [OF dh2(1) e(2) dh2(5), of "?st0\<lparr>at_ino := ino\<rparr>" "if off = 0 then word_of_nat (dh_len dh + ?e) else off"])
          (use Some r True ext dh2 room assms(5) in \<open>auto simp: fill_dir_def Let_def ino n dh2_def buf_def dh_ok_def split: if_splits\<close>)
    qed
  qed
qed

theorem fill_dir_keeps_handle_witness:
  "case fill_dir \<lparr>cf_uid = 0, cf_gid = 0, cf_umask = 0, cf_entry_timeout = 1, cf_negative_timeout = 0, cf_attr_timeout = 1,
       cf_ac_attr_timeout = 1, cf_hard_remove = False, cf_use_ino = False, cf_readdir_ino = True, cf_set_mode = False,
       cf_set_uid = False, cf_set_gid = False, cf_direct_io = False, cf_kernel_cache = False, cf_auto_cache = False\<rparr>
       ex_fuse (new_dirhandle 1, \<lparr>oom = (\<lambda>_. True), ticks = 0\<rparr>) ''a'' None 0 of
     None \<Rightarrow> True | Some (Inl _) \<Rightarrow> False
   | Some (Inr ((dh', m'), full)) \<Rightarrow> dh_ok dh' \<and>
       take (dh_len (new_dirhandle 1)) (dh_contents dh') = take (dh_len (new_dirhandle 1)) (dh_contents (new_dirhandle 1)) \<and>
       (if full \<noteq> 0 then dh_len dh' = dh_len (new_dirhandle 1)
        else dh_len dh' = dh_len (new_dirhandle 1) + fuse_dirent_size (length ''a'') \<and>
          (\<exists>st. take (dh_len dh') (dh_contents dh') = take (dh_len (new_dirhandle 1)) (dh_contents (new_dirhandle 1)) @
             fuse_add_dirent ''a'' st (if (0 :: off_t) = 0 then word_of_nat (dh_len dh') else 0))) \<and>
       ((0 :: off_t) = 0 \<or> dh_len dh' \<le> dh_needlen dh')"
  by (rule fill_dir_keeps_handle) (use ex_fuse_ok in \<open>simp_all add: new_dirhandle_def dh_ok_def\<close>)

end
