(* ===== verification/Fuse_Requests.thy ===== *)
theory Fuse_Requests
  imports Fuse_Steps
begin

text \<open>
  Every request of the kernel is answered: with a file system whose operations return, each handler of
  libfuse replies without an abort or undefined behaviour and keeps the invariant of the node tables. What
  libfuse expects of a file system is the locale \<open>answering_fs\<close>.
\<close>

section \<open>The kernel's requests\<close>

text \<open>
  What the kernel keeps to: it names numbers it holds and terminated strings, gives back no more lookups than
  it made, releases only open files, and asks for locks with a range that exists. A lookup whose reply is lost
  is covered when negative lookups are not cached.
\<close>

fun allowed :: "bool \<Rightarrow> 's lib \<Rightarrow> lib_request \<Rightarrow> bool" where
  "allowed lost l (Lookup i s) \<longleftrightarrow> 0 < nlookups (lb_f l) i \<and> NUL \<notin> set s \<and> (lost \<longrightarrow> cf_negative_timeout (lb_conf l) = 0)"
| "allowed lost l (Forget i n) \<longleftrightarrow> i = FUSE_ROOT_ID \<or> 0 < nlookups (lb_f l) i \<and> n \<le> nlookups (lb_f l) i"
| "allowed lost l (Get_Attr i) \<longleftrightarrow> 0 < nlookups (lb_f l) i"
| "allowed lost l (Set_Attr i attr valid fi) \<longleftrightarrow> 0 < nlookups (lb_f l) i"
| "allowed lost l (Check_Access i msk) \<longleftrightarrow> 0 < nlookups (lb_f l) i"
| "allowed lost l (Read_Link i) \<longleftrightarrow> 0 < nlookups (lb_f l) i"
| "allowed lost l (Make_Node i s mode rdev) \<longleftrightarrow> 0 < nlookups (lb_f l) i \<and> NUL \<notin> set s"
| "allowed lost l (Make_Dir i s mode) \<longleftrightarrow> 0 < nlookups (lb_f l) i \<and> NUL \<notin> set s"
| "allowed lost l (Unlink_Name i s) \<longleftrightarrow> 0 < nlookups (lb_f l) i \<and> NUL \<notin> set s"
| "allowed lost l (Remove_Dir i s) \<longleftrightarrow> 0 < nlookups (lb_f l) i \<and> NUL \<notin> set s"
| "allowed lost l (Make_Symlink t i s) \<longleftrightarrow> 0 < nlookups (lb_f l) i \<and> NUL \<notin> set s \<and> NUL \<notin> set t"
| "allowed lost l (Rename_Name i s j t) \<longleftrightarrow>
     0 < nlookups (lb_f l) i \<and> 0 < nlookups (lb_f l) j \<and> NUL \<notin> set s \<and> NUL \<notin> set t"
| "allowed lost l (Make_Link j i s) \<longleftrightarrow> 0 < nlookups (lb_f l) j \<and> 0 < nlookups (lb_f l) i \<and> NUL \<notin> set s"
| "allowed lost l (Create_File i s mode fi) \<longleftrightarrow> 0 < nlookups (lb_f l) i \<and> NUL \<notin> set s"
| "allowed lost l (Open_File i fi) \<longleftrightarrow> 0 < nlookups (lb_f l) i"
| "allowed lost l (Read_File i sz off fi) \<longleftrightarrow> 0 < nlookups (lb_f l) i"
| "allowed lost l (Write_File i buf sz off fi) \<longleftrightarrow> 0 < nlookups (lb_f l) i"
| "allowed lost l (Flush_File i fi) \<longleftrightarrow> 0 < nlookups (lb_f l) i"
| "allowed lost l (Release_File i fi) \<longleftrightarrow> 0 < nlookups (lb_f l) i \<and> opened (lb_f l) i"
| "allowed lost l (Sync_File i datasync fi) \<longleftrightarrow> 0 < nlookups (lb_f l) i"
| "allowed lost l (Stat_Fs i) \<longleftrightarrow> i = 0 \<or> 0 < nlookups (lb_f l) i"
| "allowed lost l (Set_Xattr i s v sz flags) \<longleftrightarrow> 0 < nlookups (lb_f l) i"
| "allowed lost l (Get_Xattr i s sz) \<longleftrightarrow> 0 < nlookups (lb_f l) i"
| "allowed lost l (List_Xattr i sz) \<longleftrightarrow> 0 < nlookups (lb_f l) i"
| "allowed lost l (Remove_Xattr i s) \<longleftrightarrow> 0 < nlookups (lb_f l) i"
| "allowed lost l (Get_Lock i fi fl) \<longleftrightarrow> 0 < nlookups (lb_f l) i \<and> (\<exists>lk. flock_to_lock fl = Inr lk)"
| "allowed lost l (Set_Lock i fi fl wait) \<longleftrightarrow> 0 < nlookups (lb_f l) i"
| "allowed lost l (Map_Block i sz idx) \<longleftrightarrow> 0 < nlookups (lb_f l) i"

section \<open>What libfuse expects of a file system\<close>

text \<open>
  Each call returns on a terminated path. \<open>read\<close> and the calls for extended attributes return no more bytes
  than they were asked for and have stored what they return, and \<open>readlink\<close> has stored a link when it succeeds.
  A file system without locks of its own is assumed.
\<close>

definition fits_buf :: "nat \<Rightarrow> int \<times> string \<Rightarrow> bool" where
  "fits_buf sz = (\<lambda>(res, buf). nat res \<le> sz \<and> nat res \<le> length buf)"

locale answering_fs =
  fixes p :: "'s fuse_operations" and ok :: "'s \<Rightarrow> bool"
  assumes getattr: "NUL \<notin> set path \<Longrightarrow> answers ok (fuse_fs_getattr p path) (\<lambda>_. True)"
    and fgetattr: "NUL \<notin> set path \<Longrightarrow> answers ok (fuse_fs_fgetattr p path fi) (\<lambda>_. True)"
    and rename: "NUL \<notin> set path \<Longrightarrow> NUL \<notin> set path' \<Longrightarrow> answers ok (fuse_fs_rename p path path') (\<lambda>_. True)"
    and unlink: "NUL \<notin> set path \<Longrightarrow> answers ok (fuse_fs_unlink p path) (\<lambda>_. True)"
    and rmdir: "NUL \<notin> set path \<Longrightarrow> answers ok (fuse_fs_rmdir p path) (\<lambda>_. True)"
    and symlink: "NUL \<notin> set path \<Longrightarrow> NUL \<notin> set path' \<Longrightarrow> answers ok (fuse_fs_symlink p path path') (\<lambda>_. True)"
    and link: "NUL \<notin> set path \<Longrightarrow> NUL \<notin> set path' \<Longrightarrow> answers ok (fuse_fs_link p path path') (\<lambda>_. True)"
    and release: "NUL \<notin> set path \<Longrightarrow> answers ok (fuse_fs_release p path fi) (\<lambda>_. True)"
    and open_file: "NUL \<notin> set path \<Longrightarrow> answers ok (fuse_fs_open p path fi) (\<lambda>_. True)"
    and read: "NUL \<notin> set path \<Longrightarrow> answers ok (fuse_fs_read p path sz off fi) (fits_buf sz)"
    and write_file: "NUL \<notin> set path \<Longrightarrow> answers ok (fuse_fs_write p path buf sz off fi) (\<lambda>_. True)"
    and fsync: "NUL \<notin> set path \<Longrightarrow> answers ok (fuse_fs_fsync p path datasync fi) (\<lambda>_. True)"
    and flush: "\<forall>s. name = Some s \<longrightarrow> NUL \<notin> set s \<Longrightarrow> answers ok (fuse_fs_flush p name fi) (\<lambda>_. True)"
    and statfs: "NUL \<notin> set path \<Longrightarrow> answers ok (fuse_fs_statfs p path) (\<lambda>_. True)"
    and create: "NUL \<notin> set path \<Longrightarrow> answers ok (fuse_fs_create p path mode fi) (\<lambda>_. True)"
    and no_lock: "op_lock p = None"
    and chmod: "NUL \<notin> set path \<Longrightarrow> answers ok (fuse_fs_chmod p path mode) (\<lambda>_. True)"
    and chown: "NUL \<notin> set path \<Longrightarrow> answers ok (fuse_fs_chown p path uid gid) (\<lambda>_. True)"
    and truncate: "NUL \<notin> set path \<Longrightarrow> answers ok (fuse_fs_truncate p path len) (\<lambda>_. True)"
    and ftruncate: "NUL \<notin> set path \<Longrightarrow> answers ok (fuse_fs_ftruncate p path len fi) (\<lambda>_. True)"
    and utimens: "NUL \<notin> set path \<Longrightarrow> answers ok (fuse_fs_utimens p path tv) (\<lambda>_. True)"
    and access: "NUL \<notin> set path \<Longrightarrow> answers ok (fuse_fs_access p path msk) (\<lambda>_. True)"
    and readlink: "NUL \<notin> set path \<Longrightarrow> 0 < sz \<Longrightarrow> answers ok (fuse_fs_readlink p path sz) (\<lambda>(err, r). err = 0 \<longrightarrow> r \<noteq> None)"
    and mknod: "NUL \<notin> set path \<Longrightarrow> answers ok (fuse_fs_mknod p path mode rdev) (\<lambda>_. True)"
    and mkdir: "NUL \<notin> set path \<Longrightarrow> answers ok (fuse_fs_mkdir p path mode) (\<lambda>_. True)"
    and setxattr: "NUL \<notin> set path \<Longrightarrow> answers ok (fuse_fs_setxattr p path name' val sz flags) (\<lambda>_. True)"
    and getxattr: "NUL \<notin> set path \<Longrightarrow> answers ok (fuse_fs_getxattr p path name' sz) (\<lambda>r. sz \<noteq> 0 \<longrightarrow> fits_buf sz r)"
    and listxattr: "NUL \<notin> set path \<Longrightarrow> answers ok (fuse_fs_listxattr p path sz) (\<lambda>r. sz \<noteq> 0 \<longrightarrow> fits_buf sz r)"
    and removexattr: "NUL \<notin> set path \<Longrightarrow> answers ok (fuse_fs_removexattr p path name') (\<lambda>_. True)"
    and bmap: "NUL \<notin> set path \<Longrightarrow> answers ok (fuse_fs_bmap p path sz idx) (\<lambda>_. True)"
begin

lemma lock_refused: "answers ok (fuse_fs_lock p name fi cmd fl) (\<lambda>(err, _). err = - ENOSYS)"
  by (simp add: answers_def fuse_fs_lock_def call_or_def no_lock)

lemma steps_lock:
  assumes "lib_inv p ok l0"
  shows "steps ok l0 (on_fs (\<lambda>p. fuse_fs_lock p name fi cmd fl)) (\<lambda>(err, _). err = - ENOSYS)"
  by (rule steps_fsP [OF assms]) (rule lock_refused)

lemma steps_path_request:
  assumes "lib_inv p ok l0" "0 < nlookups (lb_f l0) i" "\<And>u. NUL \<notin> set u \<Longrightarrow> answers ok (g p u) (\<lambda>_. True)"
  shows "steps ok l0 (path_request i None g) (\<lambda>_. True)"
  unfolding path_request_def
  by (intro steps_intro steps_with_path [OF assms(1,2)] steps_fs [OF assms(1)] assms(3)) simp_all

lemma steps_getattr:
  assumes "lib_inv p ok l0" "0 < nlookups (lb_f l0) i"
  shows "steps ok l0 (fuse_lib_getattr i) (\<lambda>_. True)"
  unfolding fuse_lib_getattr_def
  by (intro steps_intro steps_with_path [OF assms] steps_fs [OF assms(1)] getattr steps_reply_attr [OF assms]) simp_all

lemma steps_setattr:
  assumes "lib_inv p ok l0" "0 < nlookups (lb_f l0) i"
  shows "steps ok l0 (fuse_lib_setattr i attr valid fi) (\<lambda>_. True)"
  unfolding fuse_lib_setattr_def
  by (intro steps_intro steps_with_path [OF assms] steps_fs [OF assms(1)] getattr chmod chown utimens steps_reply_attr [OF assms])
    (auto split: option.splits intro: truncate ftruncate)

lemma steps_readlink:
  assumes "lib_inv p ok l0" "0 < nlookups (lb_f l0) i"
  shows "steps ok l0 (fuse_lib_readlink i) (\<lambda>_. True)"
  unfolding fuse_lib_readlink_def
proof (rule steps_bindP)
  show "steps ok l0 (with_path i None (- ENOENT, None) (\<lambda>path. on_fs (\<lambda>p. fuse_fs_readlink p path (PATH_MAX + 1))))
      (\<lambda>(err, r). err = 0 \<longrightarrow> r \<noteq> None)"
    by (intro steps_with_path [OF assms] steps_fsP [OF assms(1)] readlink) (simp_all add: ENOENT_def)
qed (auto intro!: steps_intro split: option.splits)

lemma steps_read:
  assumes "lib_inv p ok l0" "0 < nlookups (lb_f l0) i"
  shows "steps ok l0 (fuse_lib_read i sz off fi) (\<lambda>_. True)"
proof -
  have "steps ok l0 (with_path i None (- ENOENT, []) (\<lambda>path. on_fs (\<lambda>p. fuse_fs_read p path sz off fi))) (fits_buf sz)"
    by (intro steps_with_path [OF assms] steps_fsP [OF assms(1)] read) (simp_all add: fits_buf_def ENOENT_def)
  then show ?thesis
    unfolding fuse_lib_read_def
    by (intro steps_bind steps_alloc steps_if steps_err steps_bindP [where P = "fits_buf sz"] steps_prod steps_reply_buf)
      (auto simp: fits_buf_def)
qed

lemma steps_write:
  assumes "lib_inv p ok l0" "0 < nlookups (lb_f l0) i"
  shows "steps ok l0 (fuse_lib_write i buf sz off fi) (\<lambda>_. True)"
  unfolding fuse_lib_write_def by (intro steps_intro steps_with_path [OF assms] steps_fs [OF assms(1)] write_file) simp_all

lemma steps_statfs:
  assumes "lib_inv p ok l0" "i = 0 \<or> 0 < nlookups (lb_f l0) i"
  shows "steps ok l0 (fuse_lib_statfs i) (\<lambda>_. True)"
proof -
  let ?P = "\<lambda>r. \<forall>u. r = Some u \<longrightarrow> NUL \<notin> set u"
  have "steps ok l0 (if i = 0 then bind_lib alloc_lib (\<lambda>b. ret_lib (if b then Some ''/'' else None)) else path_of i None) ?P"
    using assms(2) by (intro steps_intro steps_path_of [OF assms(1)]) (auto split: if_splits)
  then show ?thesis
    unfolding fuse_lib_statfs_def
    by (rule steps_bindP) (intro steps_intro steps_fs [OF assms(1)] statfs; simp)
qed

lemma steps_xattr:
  assumes "steps ok l0 m (\<lambda>r. sz \<noteq> 0 \<longrightarrow> fits_buf sz r)"
  shows "steps ok l0 (xattr_request sz m) (\<lambda>_. True)"
  unfolding xattr_request_def
  by (intro steps_if steps_bind steps_alloc steps_err steps_bindP [OF assms] steps_prod steps_ret steps_reply_buf)
    (auto simp: fits_buf_def)

lemma steps_getxattr:
  assumes "lib_inv p ok l0" "0 < nlookups (lb_f l0) i"
  shows "steps ok l0 (fuse_lib_getxattr i name' sz) (\<lambda>_. True)"
  unfolding fuse_lib_getxattr_def common_getxattr_def
  by (intro steps_xattr steps_with_path [OF assms] steps_fsP [OF assms(1)] getxattr) (simp_all add: fits_buf_def ENOENT_def)

lemma steps_listxattr:
  assumes "lib_inv p ok l0" "0 < nlookups (lb_f l0) i"
  shows "steps ok l0 (fuse_lib_listxattr i sz) (\<lambda>_. True)"
  unfolding fuse_lib_listxattr_def common_listxattr_def
  by (intro steps_xattr steps_with_path [OF assms] steps_fsP [OF assms(1)] listxattr) (simp_all add: fits_buf_def ENOENT_def)

lemma steps_bmap:
  assumes "lib_inv p ok l0" "0 < nlookups (lb_f l0) i"
  shows "steps ok l0 (fuse_lib_bmap i blocksize idx) (\<lambda>_. True)"
  unfolding fuse_lib_bmap_def by (intro steps_intro steps_with_path [OF assms] steps_fs [OF assms(1)] bmap) simp_all

lemma steps_flush_common:
  assumes "lib_inv p ok l0" "\<forall>s. name = Some s \<longrightarrow> NUL \<notin> set s"
  shows "steps ok l0 (fuse_flush_common i name fi) (\<lambda>_. True)"
  unfolding fuse_flush_common_def
  by (intro steps_bind steps_bindP [OF steps_lock [OF assms(1)]] steps_fs [OF assms(1)] flush [OF assms(2)])
    (auto intro: steps_ret)

lemma steps_flush:
  assumes "lib_inv p ok l0" "0 < nlookups (lb_f l0) i"
  shows "steps ok l0 (fuse_lib_flush i fi) (\<lambda>_. True)"
  unfolding fuse_lib_flush_def
  by (intro steps_bindP [OF steps_path_of [OF assms]] steps_bind steps_flush_common [OF assms(1)] steps_err) simp_all

lemma steps_lock_common:
  assumes "lib_inv p ok l0" "0 < nlookups (lb_f l0) i"
  shows "steps ok l0 (fuse_lock_common i fi fl cmd) (\<lambda>(err, _). err \<noteq> 0)"
  unfolding fuse_lock_common_def
  by (intro steps_with_path [OF assms] steps_weaken [OF steps_lock [OF assms(1)]])
    (auto simp: ENOENT_def ENOSYS_def)

lemma steps_setlk:
  assumes "lib_inv p ok l0" "0 < nlookups (lb_f l0) i"
  shows "steps ok l0 (fuse_lib_setlk i fi fl wait) (\<lambda>_. True)"
  unfolding fuse_lib_setlk_def
  by (rule steps_bindP [OF steps_lock_common [OF assms]]) (auto intro: steps_err)

lemma steps_getlk:
  assumes "lib_inv p ok l0" "0 < nlookups (lb_f l0) i" "flock_to_lock fl = Inr lk"
  shows "steps ok l0 (fuse_lib_getlk i fi fl) (\<lambda>_. True)"
  unfolding fuse_lib_getlk_def
proof (rule steps_bind, rule steps_nodes)
  fix f
  assume c: "same_core (lb_f l0) f"
  have n0: "nodes_ok (lb_f l0)"
    using assms(1) by (simp add: lib_inv_def)
  have f: "nodes_ok f" "0 < nlookups f i"
    using same_core_ok [OF n0 c] assms(2) by simp_all
  obtain a where a: "idm f a = Some i"
    by (rule nlookups_pos [OF nodes_okD [OF f(1)] f(2)])
  then obtain n where n: "fu_nodes f a = Some n"
    by (auto elim: idm_nodeE)
  show "\<exists>x g. bind_res (flock_to_lock fl) (\<lambda>l. bind_res (get_node f i) (\<lambda>a. bind_res (deref f a) (\<lambda>n.
      Inr (locks_conflict (nd_locks n) (l\<lparr>lk_owner := fi_lock_owner fi\<rparr>), f)))) = Inr (x, g) \<and> same_core f g \<and> True"
    by (simp add: assms(3) get_node_found [OF nodes_okD [OF f(1)] a] deref_def n)
qed (intro steps_intro steps_weaken [OF steps_lock_common [OF assms(1,2)]]; simp)

section \<open>Handlers that enter a name\<close>

lemma wp_lookup_path:
  assumes "lib_ready k p ok l0" "quiet ok l0 l" "0 < nlookups (lb_f l0) i" "NUL \<notin> set name" "NUL \<notin> set path"
  shows "wp (lookup_path k i name path fi) l (entry_post p ok l0)"
proof -
  let ?attr = "on_fs (\<lambda>p. case fi of Some x \<Rightarrow> fuse_fs_fgetattr p path x | None \<Rightarrow> fuse_fs_getattr p path)"
  have attr: "steps ok l0 ?attr (\<lambda>_. True)"
    using getattr [OF assms(5)] fgetattr [OF assms(5)] by (intro steps_fs [OF lib_readyD [OF assms(1)]]) (cases fi; simp)
  have find: "wp (bind_lib (on_nodes_fuel (\<lambda>f. find_node k f i name)) (\<lambda>r. case r of None \<Rightarrow> ret_lib (- ENOMEM, e) | Some a \<Rightarrow> fill_entry a st))
      l1 (entry_post p ok l0)" if q: "quiet ok l0 l1" for l1 e st
  proof -
    have "nlookups (lb_f l1) = nlookups (lb_f l0)" "lb_conf l1 = lb_conf l0"
      using quiet_inv(2) [OF lib_readyD [OF assms(1)] q] q by (simp_all add: quiet_def)
    then show ?thesis
      by (intro wp_bind wp_find_node [OF quiet_ready [OF assms(1) q] _ assms(4)])
        (auto simp: assms(3) intro!: wp_ret wp_fill_entry entry_post_no_memory)
  qed
  show ?thesis
    unfolding lookup_path_def Let_def
    by (rule wp_bind, rule steps_wp [OF attr assms(2)])
      (auto split: prod.splits intro!: wp_if wp_ret find entry_post_error [OF assms(1)])
qed

lemma wp_lookup:
  assumes "lib_ready k p ok l0" "0 < nlookups (lb_f l0) i" "NUL \<notin> set name" "lost \<longrightarrow> cf_negative_timeout (lb_conf l0) = 0"
  shows "wp (fuse_lib_lookup k lost i name) l0 (\<lambda>_ l. lib_inv p ok l)"
proof -
  note inv = lib_readyD [OF assms(1)]
  let ?Q = "\<lambda>r l. wp (reply_entry lost r) l (\<lambda>_ l. lib_inv p ok l)"
  have reply: "wp (bind_lib get_conf (\<lambda>c. if err = - ENOENT \<and> cf_negative_timeout c \<noteq> 0
         then ret_lib (0, e\<lparr>ep_ino := 0, ep_entry_timeout := cf_negative_timeout c\<rparr>) else ret_lib (err, e))) l ?Q"
    if post: "entry_post p ok l0 (err, e) l" for err e l
  proof (cases "err = - ENOENT \<and> cf_negative_timeout (lb_conf l0) \<noteq> 0")
    case True
    then have "lib_inv p ok l" "\<not> lost" "lb_conf l = lb_conf l0"
      using post assms(4) by (auto simp: entry_post_def)
    with True show ?thesis
      by (intro wp_intro) (auto simp: reply_entry_def intro: wp_ret)
  next
    case False
    moreover have "lb_conf l = lb_conf l0"
      using post by (simp add: entry_post_def)
    ultimately show ?thesis
      using wp_reply_entry [OF post] by (intro wp_intro) auto
  qed
  have none: "?Q (- ENOENT, no_entry) l" if "quiet ok l0 l" for l
    by (rule wp_reply_entry [OF entry_post_error [OF assms(1) that]]) (simp add: ENOENT_def)
  show ?thesis
    unfolding fuse_lib_lookup_def
  proof (rule wp_bind, rule wp_with_path [OF inv assms(2) _ quiet_refl [OF inv]])
    fix u l1
    assume "NUL \<notin> set u" "quiet ok l0 l1"
    then have "wp (lookup_path k i name u None) l1 (entry_post p ok l0)"
      by (rule wp_lookup_path [OF assms(1) _ assms(2,3), rotated])
    then show "wp (bind_lib (lookup_path k i name u None) (\<lambda>(err, e). bind_lib get_conf (\<lambda>c.
        if err = - ENOENT \<and> cf_negative_timeout c \<noteq> 0
        then ret_lib (0, e\<lparr>ep_ino := 0, ep_entry_timeout := cf_negative_timeout c\<rparr>) else ret_lib (err, e)))) l1 ?Q"
      by (intro wp_bind) (auto split: prod.splits elim!: wp_mono intro: reply)
  qed (use none assms(3) in auto)
qed

text \<open>The rest of a handler, from the path of the new name on.\<close>

lemma wp_enter:
  assumes "lib_ready k p ok l0" "0 < nlookups (lb_f l0) i" "NUL \<notin> set name"
    and "\<And>u l. NUL \<notin> set u \<Longrightarrow> quiet ok l0 l \<Longrightarrow> wp (m u) l (entry_post p ok l0)"
  shows "wp (with_path i (Some name) (- ENOENT, no_entry) m) l0 (entry_post p ok l0)"
  by (rule wp_with_path [OF lib_readyD [OF assms(1)] assms(2) _ quiet_refl [OF lib_readyD [OF assms(1)]]])
    (use assms(3,4) entry_post_error [OF assms(1)] in \<open>auto simp: ENOENT_def\<close>)

lemma wp_entered: "wp m l (entry_post p ok l0) \<Longrightarrow> wp (bind_lib m (reply_entry lost)) l (\<lambda>_ l. lib_inv p ok l)"
  by (rule wp_bind) (auto elim!: wp_mono intro: wp_reply_entry)

lemma wp_make_entry:
  assumes "lib_ready k p ok l0" "quiet ok l0 l" "0 < nlookups (lb_f l0) i" "NUL \<notin> set name" "NUL \<notin> set path"
    "answers ok (g p) (\<lambda>_. True)"
  shows "wp (make_entry k i name path g) l (entry_post p ok l0)"
  unfolding make_entry_def
  by (rule wp_bind, rule wp_fs [where g = g, OF lib_readyD [OF assms(1)] assms(6,2)])
    (auto intro!: wp_if wp_ret wp_lookup_path [OF assms(1) _ assms(3-5)] entry_post_error [OF assms(1)])

lemma wp_mkdir:
  assumes "lib_ready k p ok l0" "0 < nlookups (lb_f l0) i" "NUL \<notin> set name"
  shows "wp (fuse_lib_mkdir k lost i name mode) l0 (\<lambda>_ l. lib_inv p ok l)"
  unfolding fuse_lib_mkdir_def
  by (rule wp_entered, rule wp_enter [OF assms], rule wp_make_entry [OF assms(1) _ assms(2,3)]) (simp_all add: mkdir)

lemma wp_symlink:
  assumes "lib_ready k p ok l0" "0 < nlookups (lb_f l0) i" "NUL \<notin> set name" "NUL \<notin> set linkname"
  shows "wp (fuse_lib_symlink k lost linkname i name) l0 (\<lambda>_ l. lib_inv p ok l)"
  unfolding fuse_lib_symlink_def
  by (rule wp_entered, rule wp_enter [OF assms(1-3)], rule wp_make_entry [OF assms(1) _ assms(2,3)]) (simp_all add: symlink assms(4))

lemma wp_link:
  assumes "lib_ready k p ok l0" "0 < nlookups (lb_f l0) j" "0 < nlookups (lb_f l0) i" "NUL \<notin> set name"
  shows "wp (fuse_lib_link k lost j i name) l0 (\<lambda>_ l. lib_inv p ok l)"
  unfolding fuse_lib_link_def
proof (rule wp_entered, rule wp_with_path [OF lib_readyD [OF assms(1)] assms(2) _ quiet_refl [OF lib_readyD [OF assms(1)]]])
  fix u l1
  assume u: "NUL \<notin> set u" "quiet ok l0 l1"
  show "wp (with_path i (Some name) (- ENOENT, no_entry) (\<lambda>newpath. make_entry k i name newpath (\<lambda>p. fuse_fs_link p u newpath)))
      l1 (entry_post p ok l0)"
    by (rule wp_with_path [OF lib_readyD [OF assms(1)] assms(3) _ u(2)])
      (use assms u in \<open>auto simp: ENOENT_def intro!: entry_post_error [OF assms(1)] wp_make_entry [OF assms(1)] link\<close>)
qed (auto simp: ENOENT_def intro!: entry_post_error [OF assms(1)])

lemma wp_create_node:
  assumes "lib_ready k p ok l0" "quiet ok l0 l" "0 < nlookups (lb_f l0) i" "NUL \<notin> set name" "NUL \<notin> set path"
  shows "wp (bind_lib (on_fs (\<lambda>p. fuse_fs_create p path mode fi0)) (\<lambda>(err, fi).
           if err = 0
           then bind_lib (lookup_path k i name path (Some fi)) (\<lambda>r. bind_lib (on_fs (\<lambda>p. fuse_fs_release p path fi)) (\<lambda>_. ret_lib r))
           else ret_lib (err, no_entry))) l (entry_post p ok l0)"
proof -
  have rel: "wp (bind_lib (on_fs (\<lambda>p. fuse_fs_release p path fi)) (\<lambda>_. ret_lib r)) l1 (entry_post p ok l0)"
    if post: "entry_post p ok l0 r l1" for r l1 fi
  proof -
    have inv: "lib_inv p ok l1"
      using post by (simp add: entry_post_def split_beta)
    show ?thesis
      by (rule wp_bind, rule wp_fs [OF inv _ quiet_refl [OF inv]], rule release [OF assms(5)])
        (rule wp_ret, rule entry_post_quiet [OF post])
  qed
  show ?thesis
    by (rule wp_bind, rule wp_fs [OF lib_readyD [OF assms(1)] _ assms(2)], rule create [OF assms(5)])
      (auto split: prod.splits intro!: wp_if wp_bind wp_ret entry_post_error [OF assms(1)] rel
        wp_mono [OF wp_lookup_path [OF assms(1) _ assms(3-5)]])
qed

lemma wp_mknod:
  assumes "lib_ready k p ok l0" "0 < nlookups (lb_f l0) i" "NUL \<notin> set name"
  shows "wp (fuse_lib_mknod k lost i name mode rdev) l0 (\<lambda>_ l. lib_inv p ok l)"
  unfolding fuse_lib_mknod_def
proof (rule wp_entered, rule wp_enter [OF assms], rule wp_bind)
  fix u l
  assume u: "NUL \<notin> set u" "quiet ok l0 l"
  have second: "wp (if err = - ENOSYS
         then bind_lib (on_fs (\<lambda>p. fuse_fs_mknod p u mode rdev)) (\<lambda>err1.
                if err1 = 0 then lookup_path k i name u None else ret_lib (err1, e))
         else ret_lib (err, e)) l1 (entry_post p ok l0)" if post: "entry_post p ok l0 (err, e) l1" for err e l1
  proof (rule wp_if)
    assume "err = - ENOSYS"
    then have q: "quiet ok l0 l1"
      using post by (simp add: entry_post_def ENOSYS_def ENOMEM_def)
    show "wp (bind_lib (on_fs (\<lambda>p. fuse_fs_mknod p u mode rdev)) (\<lambda>err1.
                if err1 = 0 then lookup_path k i name u None else ret_lib (err1, e))) l1 (entry_post p ok l0)"
      by (rule wp_bind, rule wp_fs [OF lib_readyD [OF assms(1)] _ q], rule mknod [OF u(1)])
        (auto intro!: wp_if wp_ret wp_lookup_path [OF assms(1) _ assms(2,3) u(1)] entry_post_error [OF assms(1)])
  qed (auto intro: wp_ret post)
  have "wp (if S_ISREG mode
          then bind_lib (on_fs (\<lambda>p. fuse_fs_create p u mode (no_file_info\<lparr>fi_flags := create_flags\<rparr>))) (\<lambda>(err, fi).
                 if err = 0
                 then bind_lib (lookup_path k i name u (Some fi)) (\<lambda>r.
                      bind_lib (on_fs (\<lambda>p. fuse_fs_release p u fi)) (\<lambda>_. ret_lib r))
                 else ret_lib (err, no_entry))
          else ret_lib (- ENOSYS, no_entry)) l (entry_post p ok l0)"
    by (intro wp_if wp_create_node [OF assms(1) u(2) assms(2,3) u(1)] wp_ret entry_post_error [OF assms(1) u(2)])
      (simp add: ENOSYS_def)
  then show "wp (if S_ISREG mode
          then bind_lib (on_fs (\<lambda>p. fuse_fs_create p u mode (no_file_info\<lparr>fi_flags := create_flags\<rparr>))) (\<lambda>(err, fi).
                 if err = 0
                 then bind_lib (lookup_path k i name u (Some fi)) (\<lambda>r.
                      bind_lib (on_fs (\<lambda>p. fuse_fs_release p u fi)) (\<lambda>_. ret_lib r))
                 else ret_lib (err, no_entry))
          else ret_lib (- ENOSYS, no_entry)) l (\<lambda>x l1. wp (case x of (err, e) \<Rightarrow> if err = - ENOSYS
         then bind_lib (on_fs (\<lambda>p. fuse_fs_mknod p u mode rdev)) (\<lambda>err1.
                if err1 = 0 then lookup_path k i name u None else ret_lib (err1, e))
         else ret_lib (err, e)) l1 (entry_post p ok l0))"
    by (rule wp_mono) (simp only: split_paired_all prod.case second)
qed

lemma wp_do_release:
  assumes "lib_inv p ok l" "0 < nlookups (lb_f l) i" "opened (lb_f l) i" "\<forall>s. path = Some s \<longrightarrow> NUL \<notin> set s"
    and "\<And>l1. lib_inv p ok l1 \<Longrightarrow> nlookups (lb_f l1) = nlookups (lb_f l) \<Longrightarrow> Q () l1"
  shows "wp (fuse_do_release i path fi) l Q"
  unfolding fuse_do_release_def
proof (rule wp_bind, rule wp_fs [OF assms(1) _ quiet_refl [OF assms(1)]])
  show "answers ok (fuse_fs_release p (case path of None \<Rightarrow> ''-'' | Some s \<Rightarrow> s) fi) (\<lambda>_. True)"
    using assms(4) by (intro release) (auto split: option.splits)
next
  fix l1
  assume q: "quiet ok l l1"
  note inv1 = quiet_inv [OF assms(1) q]
  have unlinked: "wp (case path of None \<Rightarrow> ret_lib ()
       | Some s \<Rightarrow> if u then bind_lib (on_fs (\<lambda>p. fuse_fs_unlink p s)) (\<lambda>_. ret_lib ()) else ret_lib ()) l2 Q"
    if l2: "lib_inv p ok l2" "nlookups (lb_f l2) = nlookups (lb_f l)" for u l2
  proof -
    have "wp (on_fs (\<lambda>p. fuse_fs_unlink p s)) l2 (\<lambda>_ l. wp (ret_lib ()) l Q)" if "path = Some s" for s
      by (rule wp_fs [OF l2(1) _ quiet_refl [OF l2(1)]], rule unlink)
        (use assms(4) that in \<open>auto intro!: wp_ret assms(5) simp: quiet_inv [OF l2(1)] l2(2)\<close>)
    then show ?thesis
      using assms(5) [OF l2] by (auto split: option.splits intro!: wp_intro)
  qed
  show "wp (bind_lib (on_nodes (\<lambda>f.
       bind_res (get_node f i) (\<lambda>a.
       bind_res (deref f a) (\<lambda>n.
         if nd_open_count n \<le> 0 then Inl aborted
         else let last = (nd_is_hidden n \<and> nd_open_count n - 1 = 0) in
           Inr (last, set_node f a (n\<lparr>nd_open_count := nd_open_count n - 1,
                                      nd_is_hidden := (nd_is_hidden n \<and> \<not> last)\<rparr>)))))) (\<lambda>unlink_hidden.
       case path of
         None \<Rightarrow> ret_lib ()
       | Some s \<Rightarrow> if unlink_hidden then bind_lib (on_fs (\<lambda>p. fuse_fs_unlink p s)) (\<lambda>_. ret_lib ()) else ret_lib ())) l1 Q"
    by (rule wp_bind, rule wp_close [OF inv1(1)])
      (use assms(2,3) quiet_opened [OF assms(1) q] unlinked in \<open>simp_all add: inv1(2)\<close>)
qed

lemma wp_release:
  assumes "lib_inv p ok l0" "0 < nlookups (lb_f l0) i" "opened (lb_f l0) i"
  shows "wp (fuse_lib_release i fi) l0 (\<lambda>_ l. lib_inv p ok l)"
  unfolding fuse_lib_release_def
proof (rule wp_bind, rule steps_wp [OF steps_path_of [OF assms(1,2)] quiet_refl [OF assms(1)]])
  fix path l1
  assume path: "quiet ok l0 l1" "\<forall>u. path = Some u \<longrightarrow> NUL \<notin> set u"
  have "steps ok l0 (if fi_flush fi then bind_lib (fuse_flush_common i path fi) (\<lambda>err. ret_lib (if err = - ENOSYS then 0 else err))
      else ret_lib 0) (\<lambda>_. True)"
    by (intro steps_intro steps_flush_common [OF assms(1) path(2)]) simp_all
  then show "wp (bind_lib (if fi_flush fi then bind_lib (fuse_flush_common i path fi) (\<lambda>err. ret_lib (if err = - ENOSYS then 0 else err))
      else ret_lib 0) (\<lambda>err. bind_lib (fuse_do_release i path fi) (\<lambda>_. reply_err err))) l1 (\<lambda>_ l. lib_inv p ok l)"
    by (intro wp_bind, elim steps_wp [OF _ path(1)])
      (use assms path in \<open>auto intro!: wp_bind wp_do_release wp_reply_err simp: quiet_inv [OF assms(1)] quiet_opened [OF assms(1)]\<close>)
qed simp

lemma steps_open_auto_cache:
  assumes "lib_inv p ok l0" "0 < nlookups (lb_f l0) i" "NUL \<notin> set path"
  shows "steps ok l0 (open_auto_cache i path fi) (\<lambda>_. True)"
  unfolding open_auto_cache_def
proof (rule steps_bindP [OF steps_node_of [OF assms(1,2)]])
  fix a
  assume a: "idm (lb_f l0) a = Some i"
  show "steps ok l0 (bind_lib (on_nodes (change_node a (\<lambda>n. n))) (\<lambda>n.
     bind_lib
       (if nd_cache_valid n
        then bind_lib curr_time (\<lambda>now. bind_lib get_conf (\<lambda>c.
               if diff_timespec now (nd_stat_updated n) > cf_ac_attr_timeout c
               then bind_lib (on_fs (\<lambda>p. fuse_fs_fgetattr p path fi)) (\<lambda>(err, st).
                      if err = 0 then update_stat a st
                      else bind_lib (on_nodes (change_node a (\<lambda>n. n\<lparr>nd_cache_valid := False\<rparr>))) (\<lambda>_. ret_lib ()))
               else ret_lib ()))
        else ret_lib ()) (\<lambda>_.
     bind_lib (on_nodes (change_node a (\<lambda>n. n\<lparr>nd_cache_valid := True\<rparr>))) (\<lambda>n1.
       ret_lib (if nd_cache_valid n1 then fi\<lparr>fi_keep_cache := True\<rparr> else fi))))) (\<lambda>_. True)"
    by (intro steps_intro steps_weaken [OF steps_change [OF a]] steps_curr_time [OF assms(1)] steps_fs [OF assms(1)]
        fgetattr assms(3) steps_update_stat [OF assms(1) a]) (simp_all add: core_def)
qed

lemma wp_open:
  assumes "lib_ready k p ok l0" "0 < nlookups (lb_f l0) i"
  shows "wp (fuse_lib_open lost i fi0) l0 (\<lambda>_ l. lib_inv p ok l)"
proof -
  note inv = lib_readyD [OF assms(1)]
  have counted: "wp (bind_lib (on_nodes (count_open i)) (\<lambda>_.
      if lost then bind_lib (fuse_do_release i (Some path) fi2) (\<lambda>_. ret_lib (Reply_Open fi2)) else ret_lib (Reply_Open fi2))) l
      (\<lambda>_ l. lib_inv p ok l)" if q: "quiet ok l0 l" and path: "NUL \<notin> set path" for l fi2 path
    using assms(2) quiet_ready [OF assms(1) q] quiet_inv [OF inv q] path
    by (intro wp_bind wp_count_open) (auto simp: lib_ready_def intro!: wp_intro wp_do_release)
  have cached: "steps ok l0 (if cf_auto_cache c then open_auto_cache i path fi else ret_lib fi) (\<lambda>_. True)"
    if "NUL \<notin> set path" for c path fi
    by (intro steps_if steps_open_auto_cache [OF inv assms(2) that] steps_ret) simp
  have opened: "wp (if err \<noteq> 0 then reply_err err
             else bind_lib get_conf (\<lambda>c. let fi1 = open_flags c fi in
               bind_lib (if cf_auto_cache c then open_auto_cache i path fi1 else ret_lib fi1) (\<lambda>fi2.
               bind_lib (on_nodes (count_open i)) (\<lambda>_.
                 if lost then bind_lib (fuse_do_release i (Some path) fi2) (\<lambda>_. ret_lib (Reply_Open fi2))
                 else ret_lib (Reply_Open fi2))))) l (\<lambda>_ l. lib_inv p ok l)"
    if "quiet ok l0 l" "NUL \<notin> set path" for err fi l path
    unfolding Let_def
    by (rule wp_if, rule wp_reply_err, rule quiet_inv [OF inv that(1)],
        rule wp_bind, rule wp_get_conf, rule wp_bind, rule steps_wp [OF cached [OF that(2)] that(1)], erule counted, rule that(2))
  show ?thesis
    unfolding fuse_lib_open_def
  proof (rule wp_bind, rule steps_wp [OF steps_path_of [OF inv assms(2)] quiet_refl [OF inv]])
    fix path l1
    assume "quiet ok l0 l1" "\<forall>u. path = Some u \<longrightarrow> NUL \<notin> set u"
    then show "wp (case path of None \<Rightarrow> reply_err (- ENOENT)
       | Some path \<Rightarrow> bind_lib (on_fs (\<lambda>p. fuse_fs_open p path fi0)) (\<lambda>(err, fi).
             if err \<noteq> 0 then reply_err err
             else bind_lib get_conf (\<lambda>c. let fi1 = open_flags c fi in
               bind_lib (if cf_auto_cache c then open_auto_cache i path fi1 else ret_lib fi1) (\<lambda>fi2.
               bind_lib (on_nodes (count_open i)) (\<lambda>_.
                 if lost then bind_lib (fuse_do_release i (Some path) fi2) (\<lambda>_. ret_lib (Reply_Open fi2))
                 else ret_lib (Reply_Open fi2)))))) l1 (\<lambda>_ l. lib_inv p ok l)"
      by (cases path) (auto simp only: option.case prod.case split_paired_all option.inject
          intro!: wp_reply_err quiet_inv [OF inv] wp_bind wp_fs [OF inv] open_file opened)
  qed simp
qed

lemma wp_created:
  assumes "entry_post p ok l0 (err, e) l" "NUL \<notin> set path"
  shows "wp (if err \<noteq> 0 then bind_lib (on_fs (\<lambda>p. fuse_fs_release p path fi)) (\<lambda>_. reply_err err)
      else if \<not> S_ISREG (st_mode (at_st (ep_attr e)))
      then bind_lib (on_fs (\<lambda>p. fuse_fs_release p path fi)) (\<lambda>_.
           bind_lib (forget_lib (ep_ino e) 1) (\<lambda>_. reply_err (- EIO)))
      else bind_lib get_conf (\<lambda>c. let fi1 = open_flags c fi in
           bind_lib (on_nodes (count_open (ep_ino e))) (\<lambda>_.
             if lost
             then bind_lib (fuse_do_release (ep_ino e) (Some path) fi1) (\<lambda>_.
                  bind_lib (forget_lib (ep_ino e) 1) (\<lambda>_. ret_lib (Reply_Create e fi1)))
             else ret_lib (Reply_Create e fi1)))) l (\<lambda>_ l. lib_inv p ok l)"
proof -
  have inv: "lib_inv p ok l" and small: "opens_small (lb_f l)"
    using assms(1) by (simp_all add: entry_post_def)
  have held: "ep_ino e \<noteq> FUSE_ROOT_ID" "0 < nlookups (lb_f l) (ep_ino e)" if "err = 0"
    using assms(1) that by (simp_all add: entry_post_def)
  have released: "wp (bind_lib (on_fs (\<lambda>p. fuse_fs_release p path fi)) k) l Q"
    if "\<And>x l1. quiet ok l l1 \<Longrightarrow> wp (k x) l1 Q" for k :: "int \<Rightarrow> ('s, 'b) act" and Q
    by (rule wp_bind, rule wp_fs [OF inv _ quiet_refl [OF inv]], rule release [OF assms(2)]) (rule that)
  show ?thesis
    unfolding Let_def
    by (intro wp_if released wp_bind wp_get_conf wp_reply_err wp_count_open [OF inv _ small] wp_do_release wp_forget_lib wp_ret)
      (use held assms(2) in \<open>auto simp: quiet_inv [OF inv] Suc_leI\<close>)
qed

lemma wp_create:
  assumes "lib_ready k p ok l0" "0 < nlookups (lb_f l0) i" "NUL \<notin> set name"
  shows "wp (fuse_lib_create k lost i name mode fi0) l0 (\<lambda>_ l. lib_inv p ok l)"
proof -
  note inv = lib_readyD [OF assms(1)]
  have named: "\<forall>n. Some name = Some n \<longrightarrow> NUL \<notin> set n"
    using assms(3) by simp
  show ?thesis
    unfolding fuse_lib_create_def
  proof (rule wp_bind, rule steps_wp [OF steps_path_of [OF inv assms(2) named] quiet_refl [OF inv]], rule wp_case_option)
    fix path l1
    show "wp (reply_err (- ENOENT)) l1 (\<lambda>_ l. lib_inv p ok l)" if "quiet ok l0 l1"
      by (rule wp_reply_err, rule quiet_inv [OF inv that])
  next
    fix path l1 u
    assume q: "quiet ok l0 l1" and "\<forall>u. path = Some u \<longrightarrow> NUL \<notin> set u" "path = Some u"
    then have u: "NUL \<notin> set u"
      by simp
    show "wp (bind_lib (on_fs (\<lambda>p. fuse_fs_create p u mode fi0)) (\<lambda>(err, fi).
             if err \<noteq> 0 then reply_err err
             else bind_lib (lookup_path k i name u (Some fi)) (\<lambda>(err, e).
               if err \<noteq> 0 then bind_lib (on_fs (\<lambda>p. fuse_fs_release p u fi)) (\<lambda>_. reply_err err)
               else if \<not> S_ISREG (st_mode (at_st (ep_attr e)))
               then bind_lib (on_fs (\<lambda>p. fuse_fs_release p u fi)) (\<lambda>_.
                    bind_lib (forget_lib (ep_ino e) 1) (\<lambda>_. reply_err (- EIO)))
               else bind_lib get_conf (\<lambda>c. let fi1 = open_flags c fi in
                    bind_lib (on_nodes (count_open (ep_ino e))) (\<lambda>_.
                      if lost
                      then bind_lib (fuse_do_release (ep_ino e) (Some u) fi1) (\<lambda>_.
                           bind_lib (forget_lib (ep_ino e) 1) (\<lambda>_. ret_lib (Reply_Create e fi1)))
                      else ret_lib (Reply_Create e fi1)))))) l1 (\<lambda>_ l. lib_inv p ok l)"
      by (rule wp_bind, rule wp_fs [OF inv _ q], rule create [OF u], rule wp_case_prod, rule wp_if, rule wp_reply_err,
          erule quiet_inv [OF inv], rule wp_bind, rule wp_mono, erule wp_lookup_path [OF assms(1) _ assms(2,3) u],
          rule wp_case_prod, rule wp_created [OF _ u], simp)
  qed
qed

section \<open>Handlers that remove or move a name\<close>

lemma wp_remove_lib:
  assumes "lib_inv p ok l" "NUL \<notin> set name"
  shows "wp (remove_lib i name) l (\<lambda>_ l. lib_inv p ok l)"
proof -
  obtain g where g: "remove_node (lb_f l) i name = Inr g" "nodes_ok g"
    using remove_node_ok [of "lb_f l" name i] assms by (auto simp: lib_inv_def)
  have "opens_ok g"
    using assms(1) within_opens(1) [OF no_more_within [OF no_more_remove [OF g(1)]]] by (simp add: lib_inv_def)
  then show ?thesis
    unfolding remove_lib_def using assms(1) g by (intro wp_on_nodes) (auto simp: lib_inv_def)
qed

lemma wp_rename_node:
  assumes "lib_inv p ok l" "NUL \<notin> set s" "NUL \<notin> set s'" "0 < nlookups (lb_f l) j" "room (lb_f l)"
    and "\<And>e l1. lib_inv p ok l1 \<Longrightarrow> nlookups (lb_f l1) = nlookups (lb_f l) \<Longrightarrow> room (lb_f l1) \<Longrightarrow> lb_conf l1 = lb_conf l \<Longrightarrow> Q e l1"
  shows "wp (on_nodes (\<lambda>f. rename_node f i s j s' hide)) l Q"
proof -
  have ok: "nodes_ok (lb_f l)"
    using assms(1) by (simp add: lib_inv_def)
  obtain e g where g: "rename_node (lb_f l) i s j s' hide = Inr (e, g)" "nodes_ok g" "renamed (lb_f l) i s j s' e g"
    using rename_node_ok [OF ok assms(2-5)] by blast
  note less = no_more_rename [OF g(1)]
  have "opens_ok g"
    using assms(1) within_opens(1) [OF no_more_within [OF less]] by (simp add: lib_inv_def)
  moreover have "card (dom (fu_nodes g)) \<le> card (dom (fu_nodes (lb_f l)))"
    by (rule card_mono [OF finite_nodes [OF nodes_okD [OF ok]] no_more_dom [OF less]])
  then have "room g"
    using assms(5) by (simp add: room_def)
  moreover have "nlookups g = nlookups (lb_f l)"
    using g(3) by (rule renamed_nlookups)
  ultimately show ?thesis
    using assms(1) g by (intro wp_on_nodes) (auto simp: lib_inv_def intro!: assms(6))
qed

lemma steps_hidden_name:
  assumes "lib_ready k p ok l0" "0 < nlookups (lb_f l0) dir" "NUL \<notin> set oldname"
  shows "steps ok l0 (hidden_name k n dir oldname) (\<lambda>r. \<forall>s u. r = Some (s, u) \<longrightarrow> NUL \<notin> set s \<and> NUL \<notin> set u)"
proof (induction n)
  case (Suc n)
  note inv = lib_readyD [OF assms(1)]
  have find: "steps ok l0 (on_nodes (\<lambda>f. bind_res (lookup_node f dir oldname) (\<lambda>r. case r of None \<Rightarrow> Inr (None, f)
         | Some a \<Rightarrow> bind_res (deref f a) (\<lambda>n. Inr (Some (nd_id n), f))))) (\<lambda>_. True)"
  proof (rule steps_nodes)
    fix f
    assume "same_core (lb_f l0) f"
    then show "\<exists>x g. bind_res (lookup_node f dir oldname) (\<lambda>r. case r of None \<Rightarrow> Inr (None, f)
         | Some a \<Rightarrow> bind_res (deref f a) (\<lambda>n. Inr (Some (nd_id n), f))) = Inr (x, g) \<and> same_core f g \<and> True"
      by (cases rule: same_core_lookup [OF inv _ assms(3), of f dir]) (simp_all add: deref_def)
  qed
  have checked: "steps ok l0 (bind_lib (on_fs (\<lambda>p. fuse_fs_getattr p u)) (\<lambda>(res, buf).
               if res = - ENOENT then ret_lib (Some (s, u))
               else if res = 0 then hidden_name k n dir oldname else ret_lib None))
      (\<lambda>r. \<forall>s u. r = Some (s, u) \<longrightarrow> NUL \<notin> set s \<and> NUL \<notin> set u)" if "NUL \<notin> set s" "NUL \<notin> set u" for s u
    by (rule steps_bind, rule steps_fs [OF inv], rule getattr [OF that(2)])
      (intro steps_prod steps_if steps_ret Suc.IH; use that in simp)
  have named: "\<forall>n. Some s = Some n \<longrightarrow> NUL \<notin> set n" if "NUL \<notin> set s" for s
    using that by simp
  show ?case
    unfolding hidden_name.simps
    by (rule steps_bind [OF find], rule steps_option, rule steps_ret, simp, rule steps_bindP [OF steps_hidden_pick [OF assms(1)]],
        rule steps_with_path [OF inv assms(2) named], assumption, simp, rule checked)
qed (simp add: steps_ret)

lemma wp_hide_node:
  assumes "lib_ready k p ok l0" "0 < nlookups (lb_f l0) dir" "NUL \<notin> set oldname" "NUL \<notin> set oldpath" "quiet ok l0 l"
    and "\<And>e l1. lib_inv p ok l1 \<Longrightarrow> nlookups (lb_f l1) = nlookups (lb_f l0) \<Longrightarrow> room (lb_f l1) \<Longrightarrow> Q e l1"
  shows "wp (hide_node k oldpath dir oldname) l Q"
proof -
  note inv = lib_readyD [OF assms(1)]
  have room: "room (lb_f l0)"
    using assms(1) by (simp add: lib_ready_def)
  have same: "Q e l1" if "quiet ok l0 l1" for e l1
    by (rule assms(6)) (use quiet_inv [OF inv that] room in simp_all)
  have moved: "wp (on_nodes (\<lambda>f. rename_node f dir oldname dir s True)) l1 Q" if "quiet ok l0 l1" "NUL \<notin> set s" for l1 s
    by (rule wp_rename_node) (use quiet_inv [OF inv that(1)] assms(2,3,6) that(2) room in simp_all)
  have hidden: "wp (bind_lib (on_fs (\<lambda>p. fuse_fs_rename p oldpath u)) (\<lambda>err.
        unless_err err True (on_nodes (\<lambda>f. rename_node f dir oldname dir s True)))) l1 Q"
    if "quiet ok l0 l1" "NUL \<notin> set s" "NUL \<notin> set u" for s u l1
    by (rule wp_bind, rule wp_fs [OF inv _ that(1)], rule rename [OF assms(4) that(3)])
      (intro wp_unless_err moved same that(2); assumption)
  show ?thesis
    unfolding hide_node_def
    by (rule wp_bind, rule steps_wp [OF steps_hidden_name [OF assms(1-3)] assms(5)])
      (auto intro!: wp_case_option wp_ret same hidden split: option.splits)
qed

lemma wp_unlink:
  assumes "lib_ready k p ok l0" "0 < nlookups (lb_f l0) i" "NUL \<notin> set name"
  shows "wp (fuse_lib_unlink k i name) l0 (\<lambda>_ l. lib_inv p ok l)"
proof -
  note inv = lib_readyD [OF assms(1)]
  let ?Q = "\<lambda>e l. wp (reply_err e) l (\<lambda>_ l. lib_inv p ok l)"
  have reply: "?Q e l" if "lib_inv p ok l" for e l
    using that by (rule wp_reply_err)
  have removed: "wp (bind_lib (on_fs (\<lambda>p. fuse_fs_unlink p u)) (\<lambda>err. unless_err err True (remove_lib i name))) l ?Q"
    if "quiet ok l0 l" "NUL \<notin> set u" for l u
    by (rule wp_bind, rule wp_fs [OF inv _ that(1)], rule unlink [OF that(2)], rule wp_unless_err, rule wp_mono, rule wp_remove_lib)
      (use quiet_inv(1) [OF inv] assms(3) reply in auto)
  have checked: "steps ok l0 (if cf_hard_remove c then ret_lib False else on_nodes (is_open i name)) (\<lambda>_. True)" for c
    by (intro steps_if steps_ret steps_is_open [OF inv assms(3)]) simp
  have named: "\<forall>n. Some name = Some n \<longrightarrow> NUL \<notin> set n"
    using assms(3) by simp
  show ?thesis
    unfolding fuse_lib_unlink_def
    by (rule wp_bind, rule wp_with_path [OF inv assms(2) named quiet_refl [OF inv]], rule reply, erule quiet_inv [OF inv],
        rule wp_bind, rule wp_get_conf, rule wp_bind, rule steps_wp [OF checked], assumption, rule wp_if,
        rule wp_hide_node [OF assms], assumption, assumption, erule reply, rule removed)
qed

lemma wp_rmdir:
  assumes "lib_inv p ok l0" "0 < nlookups (lb_f l0) i" "NUL \<notin> set name"
  shows "wp (fuse_lib_rmdir i name) l0 (\<lambda>_ l. lib_inv p ok l)"
proof -
  note inv = assms(1)
  have named: "\<forall>n. Some name = Some n \<longrightarrow> NUL \<notin> set n"
    using assms(3) by simp
  show ?thesis
    unfolding fuse_lib_rmdir_def
    by (rule wp_bind, rule wp_with_path [OF inv assms(2) named quiet_refl [OF inv]], rule wp_reply_err, erule quiet_inv [OF inv],
        rule wp_bind, rule wp_fs [OF inv], erule rmdir, assumption, rule wp_unless_err, rule wp_mono, rule wp_remove_lib)
      (use quiet_inv(1) [OF inv] assms(3) in \<open>auto intro: wp_reply_err\<close>)
qed

lemma wp_rename:
  assumes "lib_ready k p ok l0" "0 < nlookups (lb_f l0) i" "0 < nlookups (lb_f l0) j" "NUL \<notin> set s" "NUL \<notin> set s'"
  shows "wp (fuse_lib_rename k i s j s') l0 (\<lambda>_ l. lib_inv p ok l)"
proof -
  note inv = lib_readyD [OF assms(1)]
  let ?Q = "\<lambda>e l. wp (reply_err e) l (\<lambda>_ l. lib_inv p ok l)"
  have reply: "?Q e l" if "lib_inv p ok l" for e l
    using that by (rule wp_reply_err)
  have room: "room (lb_f l0)"
    using assms(1) by (simp add: lib_ready_def)
  have moved: "wp (bind_lib (unless_err err True (on_fs (\<lambda>p. fuse_fs_rename p u u'))) (\<lambda>err1.
           unless_err err1 True (on_nodes (\<lambda>f. rename_node f i s j s' False)))) l ?Q"
    if l: "lib_inv p ok l" "nlookups (lb_f l) = nlookups (lb_f l0)" "room (lb_f l)" and u: "NUL \<notin> set u" "NUL \<notin> set u'" for err l u u'
  proof -
    have "steps ok l (unless_err err True (on_fs (\<lambda>p. fuse_fs_rename p u u'))) (\<lambda>_. True)"
      by (intro steps_unless_err steps_fs [OF l(1)] rename u) simp
    then show ?thesis
      by (rule wp_bind [OF steps_wp [OF _ quiet_refl [OF l(1)]]])
        (intro wp_unless_err wp_rename_node reply; use quiet_inv [OF l(1)] l assms(3-5) in simp)
  qed
  have checked: "steps ok l0 (if cf_hard_remove c then ret_lib False else on_nodes (is_open j s')) (\<lambda>_. True)" for c
    by (intro steps_if steps_ret steps_is_open [OF inv assms(5)]) simp
  have named: "\<forall>n. Some s = Some n \<longrightarrow> NUL \<notin> set n" "\<forall>n. Some s' = Some n \<longrightarrow> NUL \<notin> set n"
    using assms(4,5) by simp_all
  have hidden: "wp (bind_lib (if b then hide_node k u' j s' else ret_lib 0) (\<lambda>err.
         bind_lib (unless_err err True (on_fs (\<lambda>p. fuse_fs_rename p u u'))) (\<lambda>err1.
           unless_err err1 True (on_nodes (\<lambda>f. rename_node f i s j s' False))))) l ?Q"
    if "quiet ok l0 l" "NUL \<notin> set u" "NUL \<notin> set u'" for b l u u'
    by (rule wp_bind, rule wp_if, rule wp_hide_node [OF assms(1,3,5) that(3,1)], erule moved, assumption, assumption, rule that, rule that,
        rule wp_ret, rule moved) (use quiet_inv [OF inv that(1)] room that in simp_all)
  show ?thesis
    unfolding fuse_lib_rename_def
    by (rule wp_bind, rule wp_with_path [OF inv assms(2) named(1) quiet_refl [OF inv]], rule reply, erule quiet_inv [OF inv],
        rule wp_with_path [OF inv assms(3) named(2)], assumption, rule reply, erule quiet_inv [OF inv],
        rule wp_bind, rule wp_get_conf, rule wp_bind, rule steps_wp [OF checked], assumption, rule hidden)
qed

text \<open>The handlers that leave the tables alone, together.\<close>

lemma steps_path_ops:
  assumes "lib_inv p ok l"
  shows "allowed lost l (Get_Attr i) \<Longrightarrow> steps ok l (fuse_path_ops k lost (Get_Attr i)) (\<lambda>_. True)"
    "allowed lost l (Set_Attr i attr valid fi') \<Longrightarrow> steps ok l (fuse_path_ops k lost (Set_Attr i attr valid fi')) (\<lambda>_. True)"
    "allowed lost l (Check_Access i msk) \<Longrightarrow> steps ok l (fuse_path_ops k lost (Check_Access i msk)) (\<lambda>_. True)"
    "allowed lost l (Read_Link i) \<Longrightarrow> steps ok l (fuse_path_ops k lost (Read_Link i)) (\<lambda>_. True)"
    "allowed lost l (Read_File i sz off fi) \<Longrightarrow> steps ok l (fuse_path_ops k lost (Read_File i sz off fi)) (\<lambda>_. True)"
    "allowed lost l (Write_File i buf sz off fi) \<Longrightarrow> steps ok l (fuse_path_ops k lost (Write_File i buf sz off fi)) (\<lambda>_. True)"
    "allowed lost l (Flush_File i fi) \<Longrightarrow> steps ok l (fuse_path_ops k lost (Flush_File i fi)) (\<lambda>_. True)"
    "allowed lost l (Sync_File i datasync fi) \<Longrightarrow> steps ok l (fuse_path_ops k lost (Sync_File i datasync fi)) (\<lambda>_. True)"
    "allowed lost l (Stat_Fs i) \<Longrightarrow> steps ok l (fuse_path_ops k lost (Stat_Fs i)) (\<lambda>_. True)"
    "allowed lost l (Set_Xattr i s v sz flags) \<Longrightarrow> steps ok l (fuse_path_ops k lost (Set_Xattr i s v sz flags)) (\<lambda>_. True)"
    "allowed lost l (Get_Xattr i s sz) \<Longrightarrow> steps ok l (fuse_path_ops k lost (Get_Xattr i s sz)) (\<lambda>_. True)"
    "allowed lost l (List_Xattr i sz) \<Longrightarrow> steps ok l (fuse_path_ops k lost (List_Xattr i sz)) (\<lambda>_. True)"
    "allowed lost l (Remove_Xattr i s) \<Longrightarrow> steps ok l (fuse_path_ops k lost (Remove_Xattr i s)) (\<lambda>_. True)"
    "allowed lost l (Get_Lock i fi fl) \<Longrightarrow> steps ok l (fuse_path_ops k lost (Get_Lock i fi fl)) (\<lambda>_. True)"
    "allowed lost l (Set_Lock i fi fl wait) \<Longrightarrow> steps ok l (fuse_path_ops k lost (Set_Lock i fi fl wait)) (\<lambda>_. True)"
    "allowed lost l (Map_Block i sz idx) \<Longrightarrow> steps ok l (fuse_path_ops k lost (Map_Block i sz idx)) (\<lambda>_. True)"
  using assms
  by (auto simp: fuse_lib_access_def fuse_lib_fsync_def fuse_lib_setxattr_def fuse_lib_removexattr_def
      intro!: steps_path_request access fsync setxattr removexattr steps_getattr steps_setattr steps_readlink steps_read
        steps_write steps_flush steps_statfs steps_getxattr steps_listxattr steps_setlk steps_bmap intro: steps_getlk)

lemma steps_inv:
  assumes "lib_inv p ok l" "steps ok l m P"
  shows "wp m l (\<lambda>_ l. lib_inv p ok l)"
  by (rule steps_wp [OF assms(2) quiet_refl [OF assms(1)]]) (rule quiet_inv [OF assms(1)])

lemma wp_forget:
  assumes "lib_inv p ok l" "i = FUSE_ROOT_ID \<or> 0 < nlookups (lb_f l) i \<and> n \<le> nlookups (lb_f l) i"
  shows "wp (fuse_lib_forget i n) l (\<lambda>_ l. lib_inv p ok l)"
  unfolding fuse_lib_forget_def by (rule wp_bind, rule wp_forget_lib [OF assms], erule wp_ret)

lemma wp_path_ops:
  assumes "lib_ready k p ok l" "allowed lost l req"
  shows "wp (fuse_path_ops k lost req) l (\<lambda>_ l. lib_inv p ok l)"
proof -
  note inv = lib_readyD [OF assms(1)]
  note quiet_ops = steps_path_ops [OF inv, THEN steps_inv [OF inv]]
  show ?thesis
    using assms(2)
    by (cases req)
      (auto simp only: fuse_path_ops.simps(1,2,7-15,19) allowed.simps(1,2,7-15,19)
        intro!: wp_lookup wp_forget wp_mknod wp_mkdir wp_unlink wp_rmdir wp_symlink wp_rename wp_link wp_create wp_open wp_release
          assms(1) inv quiet_ops)
qed

end

end
