(* ===== verification/Fuse_Resolve.thy ===== *)
theory Fuse_Resolve
  imports Fuse_Requests
begin

text \<open>
  The kernel's way from a path to a number: one lookup for every name. With memory, the lookups of a path that
  the file system knows succeed one after the other, and the attributes of the last number are those that
  the file system reports for the path.
\<close>

section \<open>The size of the tables\<close>

text \<open>At most \<open>c\<close> nodes, none of them looked up more than \<open>c\<close> times, none open, and memory.\<close>

definition light :: "nat \<Rightarrow> fuse \<Rightarrow> bool" where
  "light c f \<longleftrightarrow>
     card (dom (fu_nodes f)) \<le> c \<and> (\<forall>i. nlookups f i \<le> c) \<and> (\<forall>a x. openm f a = Some x \<longrightarrow> x = 0) \<and> (\<forall>t. \<not> oom (fu_mem f) t)"

lemma next_id_mem: "next_id k f = Some (Inr (c, g)) \<Longrightarrow> fu_mem g = fu_mem f"
  by (induction k arbitrary: f) (auto simp: Let_def split: if_splits sum.splits option.splits)

lemma hash_name_mem: "hash_name f a i s = Inr (x, g) \<Longrightarrow> oom (fu_mem g) = oom (fu_mem f)"
  by (auto simp: hash_name_def Let_def split_beta set_node_def elim!: bind_res_InrE split: if_splits)

lemma count_lookup_same: "count_lookup f a = Inr (r, g) \<Longrightarrow> fu_mem g = fu_mem f \<and> dom (fu_nodes g) = dom (fu_nodes f)"
  by (auto simp: count_lookup_def set_node_def elim!: bind_res_InrE deref_InrE split: if_splits)

lemma hash_id_same: "hash_id f a = Inr g \<Longrightarrow> fu_mem g = fu_mem f \<and> fu_nodes g = fu_nodes f"
  by (auto simp: hash_id_def Let_def elim!: bind_res_InrE)

lemma find_node_grows:
  assumes "find_node k f i s = Some (Inr (r, g))"
  shows "oom (fu_mem g) = oom (fu_mem f) \<and> (\<exists>a. dom (fu_nodes g) \<subseteq> insert a (dom (fu_nodes f)))"
proof (cases "lookup_node f i s")
  case (Inr q)
  show ?thesis
  proof (cases "q \<noteq> None \<or> \<not> fst (alloc (fu_mem f))")
    case True
    with Inr assms show ?thesis
      by (cases q) (auto simp: find_node_def split_beta Let_def dest!: count_lookup_same)
  next
    case False
    let ?f1 = "f\<lparr>fu_mem := snd (alloc (fu_mem f))\<rparr>"
    from False Inr assms obtain j f2 x f4 where new: "next_id k ?f1 = Some (Inr (j, f2))"
        "hash_name (set_node f2 (fu_fresh f2 (fu_nodes f2)) (new_node j (fu_generation f2))) (fu_fresh f2 (fu_nodes f2)) i s = Inr (x, f4)"
        "if x = -1 then g = free_node f4 (fu_fresh f2 (fu_nodes f2))
         else bind_res (hash_id f4 (fu_fresh f2 (fu_nodes f2))) (\<lambda>f5. count_lookup f5 (fu_fresh f2 (fu_nodes f2))) = Inr (r, g)"
      by (auto simp: find_node_def split_beta Let_def elim!: bind_res_InrE split: option.splits if_splits)
    have "oom (fu_mem f4) = oom (fu_mem f)"
      using hash_name_mem [OF new(2)] next_id_mem [OF new(1)] by (simp add: set_node_def)
    moreover have "dom (fu_nodes f4) \<subseteq> insert (fu_fresh f2 (fu_nodes f2)) (dom (fu_nodes f))"
      using no_more_dom [OF no_more_hash [OF new(2)]] next_id_nodes [OF new(1)] by auto
    moreover have "fu_mem g = fu_mem f4 \<and> dom (fu_nodes g) \<subseteq> dom (fu_nodes f4)"
    proof (cases "x = -1")
      case True
      with new(3) show ?thesis
        by (auto simp: free_node_def split: if_splits)
    next
      case False
      with new(3) obtain f5 where "hash_id f4 (fu_fresh f2 (fu_nodes f2)) = Inr f5" "count_lookup f5 (fu_fresh f2 (fu_nodes f2)) = Inr (r, g)"
        by (auto elim!: bind_res_InrE)
      from hash_id_same [OF this(1)] count_lookup_same [OF this(2)] show ?thesis
        by simp
    qed
    ultimately show ?thesis
      by (metis subset_trans)
  qed
qed (use assms in \<open>simp add: find_node_def\<close>)

lemma same_core_light:
  assumes "nodes_ok f" "same_core f g"
  shows "light c g = light c f"
  using same_core_ok(4) [OF assms] same_core_maps [OF assms(2)] assms(2) by (simp add: light_def same_core_def)

lemma light_ready:
  assumes "lib_inv p ok l" "light c (lb_f l)" "c + 3 \<le> k" "int c + 1 < INT_MAX"
  shows "lib_ready k p ok l"
proof -
  have "n + 1 < 2 ^ 64" if a: "lookm (lb_f l) a = Some n" for a n
  proof -
    obtain i where "idm (lb_f l) a = Some i"
      using a by (auto simp: lookm_def idm_def)
    then have "n = nlookups (lb_f l) i"
      using nlookups_lookm [OF nodes_okD] assms(1) a by (metis lib_inv_def option.inject)
    then have "n \<le> c"
      using assms(2) by (simp add: light_def)
    then show ?thesis
      using assms(4) by (simp add: INT_MAX_def)
  qed
  then have "counts_small (lb_f l)"
    by (simp add: counts_small_def)
  moreover have "opens_small (lb_f l)"
    using assms(2) unfolding opens_small_def light_def INT_MAX_def by fastforce
  ultimately show ?thesis
    using assms by (auto simp: lib_ready_def room_def light_def)
qed

lemma light_find:
  assumes "nodes_ok f" "light c f" "find_node k f i s = Some (Inr (r, g))" "dcache_of g = dc_lookup i s j (dcache_of f)"
  shows "light (Suc c) g"
proof -
  obtain a where g: "oom (fu_mem g) = oom (fu_mem f)" "dom (fu_nodes g) \<subseteq> insert a (dom (fu_nodes f))"
    using find_node_grows [OF assms(3)] by blast
  have fin: "finite (dom (fu_nodes f))"
    by (rule finite_nodes [OF nodes_okD [OF assms(1)]])
  have "card (dom (fu_nodes g)) \<le> card (insert a (dom (fu_nodes f)))"
    by (rule card_mono [OF _ g(2)]) (simp add: fin)
  then have "card (dom (fu_nodes g)) \<le> Suc c"
    using assms(2) card_insert_le_m1 [of "Suc c" "dom (fu_nodes f)" a] by (simp add: light_def)
  moreover have "nlookups g x \<le> Suc c" for x
  proof -
    have "dc_count (dcache_of g) x \<le> Suc (dc_count (dcache_of f) x)"
      by (simp add: assms(4) dc_lookup_def)
    then show ?thesis
      using assms(2) le_trans by (fastforce simp: dcache_of_def light_def)
  qed
  moreover have "\<forall>a x. openm g a = Some x \<longrightarrow> x = 0"
    using assms(2) within_find [OF assms(3)] unfolding light_def opens_within_def by blast
  ultimately show ?thesis
    using assms(2) g(1) by (simp add: light_def)
qed

text \<open>The file \<open>a\<close> of the root is moved to \<open>b\<close>, and cannot be hidden under its own name.\<close>

theorem rename_node_refines_witness:
  "\<exists>f j g. entry f FUSE_ROOT_ID ''a'' j \<and> rename_node f FUSE_ROOT_ID ''a'' FUSE_ROOT_ID ''b'' False = Inr (0, g) \<and>
     entry g FUSE_ROOT_ID ''b'' j \<and> rename_node f FUSE_ROOT_ID ''a'' FUSE_ROOT_ID ''a'' True = Inr (- EBUSY, f)"
proof -
  have pre: "0 < nlookups ex_fuse FUSE_ROOT_ID" "NUL \<notin> set ''a''" "card (dom (fu_nodes ex_fuse)) + 3 \<le> 4"
    using ex_fuse_ok by simp_all
  obtain a f j where f: "find_node 4 ex_fuse FUSE_ROOT_ID ''a'' = Some (Inr (Some a, f))" "nodes_ok f"
      "entry f FUSE_ROOT_ID ''a'' j" "nlookups f FUSE_ROOT_ID = 1"
    using ex_lookup_result [OF find_node_ok [OF ex_fuse_ok(1,3,4) pre]] by blast
  obtain b where b: "oom (fu_mem f) = oom (fu_mem ex_fuse)" "dom (fu_nodes f) \<subseteq> insert b (dom (fu_nodes ex_fuse))"
    using find_node_grows [OF f(1)] by blast
  have "card (dom (fu_nodes f)) \<le> card (insert b (dom (fu_nodes ex_fuse)))"
    by (rule card_mono [OF _ b(2)]) (simp add: finite_nodes [OF nodes_okD [OF ex_fuse_ok(1)]])
  also have "\<dots> \<le> 2"
    using card_insert_le_m1 [of 2 "dom (fu_nodes ex_fuse)" b] ex_fuse_ok(6) by simp
  finally have room: "room f"
    by (simp add: room_def INT_MAX_def)
  have mem: "\<not> oom (fu_mem f) t" for t
    by (simp add: b(1) ex_fuse_def fuse_new_nodes_def)
  note ren = rename_node_refines [OF f(2) pre(2) _ _ room, of _ FUSE_ROOT_ID FUSE_ROOT_ID]
  obtain g where g: "rename_node f FUSE_ROOT_ID ''a'' FUSE_ROOT_ID ''b'' False = Inr (0, g)"
      "dcache_of g = dc_rename FUSE_ROOT_ID ''a'' FUSE_ROOT_ID ''b'' (dcache_of f)"
    using ren [of "''b''" False] f(4) mem by auto
  have "(FUSE_ROOT_ID, ''b'', j) \<in> dc_entries (dcache_of g)"
    using f(3) unfolding g(2) by (auto simp: dc_rename_def Let_def)
  moreover have "rename_node f FUSE_ROOT_ID ''a'' FUSE_ROOT_ID ''a'' True = Inr (- EBUSY, f)"
    using ren [of "''a''" True] f(3,4) mem by (auto simp: EBUSY_def)
  ultimately show ?thesis
    using f(3) g(1) by auto
qed

section \<open>One lookup\<close>

text \<open>\<open>knows p m\<close>: the operations are \<open>p\<close> and the file system stays in the state \<open>m\<close>.\<close>

definition knows :: "'s fuse_operations \<Rightarrow> 's \<Rightarrow> fuse_config \<Rightarrow> nat \<Rightarrow> nat \<Rightarrow> string \<Rightarrow> 's lib \<Rightarrow> bool" where
  "knows p m conf c i s l \<longleftrightarrow>
     lib_inv p (\<lambda>x. x = m) l \<and> lb_conf l = conf \<and> light c (lb_f l) \<and> has_path (lb_f l) i s \<and> 0 < nlookups (lb_f l) i"

lemma knows_quiet:
  assumes "knows p m conf c i s l" "quiet (\<lambda>x. x = m) l l'"
  shows "knows p m conf c i s l'"
proof -
  have l: "lib_inv p (\<lambda>x. x = m) l"
    using assms(1) by (simp add: knows_def)
  have "nodes_ok (lb_f l)" "same_core (lb_f l) (lb_f l')"
    using l assms(2) by (simp_all add: lib_inv_def quiet_def)
  from same_core_light [OF this] same_core_ok(7) [OF this] show ?thesis
    using assms quiet_inv [OF l assms(2)] by (simp add: knows_def quiet_def)
qed

lemma wp_path_known:
  assumes "knows p m conf c i s l" "length (s @ suffix_of name) < FUSE_MAX_PATH"
    and "\<And>l1. knows p m conf c i s l1 \<Longrightarrow> quiet (\<lambda>x. x = m) l l1 \<Longrightarrow> wp (k (path_string (s @ suffix_of name))) l1 Q"
  shows "wp (with_path i name d k) l Q"
proof -
  note l = assms(1) [unfolded knows_def lib_inv_def]
  obtain r g where g: "get_path_name (lb_f l) i name = Inr (r, g)" "same_tables (lb_f l) g"
      "r = Some (path_string (s @ suffix_of name))"
  proof -
    have "fst (alloc (fu_mem (lb_f l)))"
      using l by (simp add: light_def alloc_def)
    moreover have "nodes_ok (lb_f l)" "0 < nlookups (lb_f l) i" "has_path (lb_f l) i s"
      using l by simp_all
    ultimately show thesis
      using get_path_name_ok [of "lb_f l" i name] assms(2) that by metis
  qed
  have "quiet (\<lambda>x. x = m) l (l\<lparr>lb_f := g\<rparr>)"
    using same_tables_core [OF g(2) get_path_name_mem [OF g(1)]] l by (simp add: quiet_def)
  from assms(3) [OF knows_quiet [OF assms(1) this] this] show ?thesis
    unfolding with_path_def path_of_def using g(1,3) by (intro wp_bind wp_on_nodes) auto
qed

lemma wp_getattr_known:
  assumes "knows p m conf c i s l" "fuse_fs_getattr p path m = Inr (x, m)"
    and "\<And>l1. knows p m conf c i s l1 \<Longrightarrow> Q x l1"
  shows "wp (on_fs (\<lambda>p. fuse_fs_getattr p path)) l Q"
proof -
  have l: "lb_op l = p" "lb_fs l = m"
    using assms(1) by (simp_all add: knows_def lib_inv_def)
  have "l\<lparr>lb_fs := m\<rparr> = l"
    using l(2) by simp
  then show ?thesis
    using assms l by (intro wp_on_fs) auto
qed

lemma wp_find_known:
  assumes "knows p m conf c i s l" "NUL \<notin> set n" "c + 3 \<le> k" "int c + 1 < INT_MAX"
    and "\<And>l1 a j. knows p m conf (Suc c) j (s @ slash # n) l1 \<Longrightarrow> idm (lb_f l1) a = Some j \<Longrightarrow> Q (Some a) l1"
  shows "wp (on_nodes_fuel (\<lambda>f. find_node k f i n)) l Q"
proof -
  note l = assms(1) [unfolded knows_def lib_inv_def]
  have inv: "lib_inv p (\<lambda>x. x = m) l"
    using assms(1) by (simp add: knows_def)
  have ready: "lib_ready k p (\<lambda>x. x = m) l"
    using light_ready [OF inv _ assms(3,4)] l by blast
  then have f: "nodes_ok (lb_f l)" "room (lb_f l)" "counts_small (lb_f l)" "0 < nlookups (lb_f l) i"
      "card (dom (fu_nodes (lb_f l))) + 3 \<le> k"
    using l by (simp_all add: lib_ready_def)
  obtain r g where g: "find_node k (lb_f l) i n = Some (Inr (r, g))" "nodes_ok g"
      "case r of None \<Rightarrow> \<exists>t. oom (fu_mem (lb_f l)) t | Some a \<Rightarrow> \<exists>j. idm g a = Some j \<and> dcache_of g = dc_lookup i n j (dcache_of (lb_f l))"
    using find_node_ok [OF f(1-4) assms(2) f(5)] by (fastforce split: option.splits)
  obtain a j where a: "r = Some a" "idm g a = Some j" "dcache_of g = dc_lookup i n j (dcache_of (lb_f l))"
    using g(3) l by (auto simp: light_def split: option.splits)
  let ?l = "l\<lparr>lb_f := g\<rparr>"
  have d: "0 < dc_count (dcache_of g) j" "(i, n, j) \<in> dc_entries (dcache_of g)" "dc_entries (dcache_of (lb_f l)) \<subseteq> dc_entries (dcache_of g)"
    by (auto simp: a(3) dc_lookup_def)
  then have "has_path g i s"
    using l by (auto intro: has_path_mono simp: dcache_of_def)
  then have "has_path g j (s @ slash # n)"
    using d(2) by (intro has_path.child) (simp_all add: dcache_of_def)
  moreover have "opens_ok g"
    using within_opens(1) [OF within_find [OF g(1)]] l by simp
  ultimately have "knows p m conf (Suc c) j (s @ slash # n) ?l"
    using l light_find [OF f(1) _ g(1) a(3)] d(1) g(2) by (simp add: knows_def lib_inv_def dcache_of_def)
  from assms(5) [OF this] a(1,2) g(1) show ?thesis
    by (intro wp_on_nodes_fuel) auto
qed

lemma wp_lookup_known:
  assumes "knows p m conf c i s l" "NUL \<notin> set n" "c + 3 \<le> k" "int c + 1 < INT_MAX" "length (s @ slash # n) < FUSE_MAX_PATH"
    and "fuse_fs_getattr p (s @ slash # n) m = Inr ((0, st), m)"
    and "\<And>e l1. knows p m conf (Suc c) (ep_ino e) (s @ slash # n) l1 \<Longrightarrow> Q (Reply_Entry e) l1"
  shows "wp (fuse_lib_lookup k False i n) l Q"
proof -
  have filled: "wp (fill_entry a st) l1 (\<lambda>r l2. fst r = 0 \<and> knows p m conf (Suc c) (ep_ino (snd r)) (s @ slash # n) l2)"
    if l1: "knows p m conf (Suc c) j (s @ slash # n) l1" "idm (lb_f l1) a = Some j" for l1 a j
  proof -
    have inv: "lib_inv p (\<lambda>x. x = m) l1"
      using l1(1) by (simp add: knows_def)
    show ?thesis
      by (rule steps_wp [OF steps_fill_entry [OF inv l1(2)] quiet_refl [OF inv]]) (use knows_quiet [OF l1(1)] in auto)
  qed
  have looked: "wp (Fuse_Lib.lookup_path k i n (s @ slash # n) None) l1
      (\<lambda>r l2. fst r = 0 \<and> knows p m conf (Suc c) (ep_ino (snd r)) (s @ slash # n) l2)" if "knows p m conf c i s l1" for l1
    unfolding lookup_path_def Let_def option.case
    by (rule wp_bind, rule wp_getattr_known [OF that assms(6)])
      (simp, rule wp_bind, rule wp_find_known [OF _ assms(2-4)], assumption, simp, erule filled)
  have "path_string (s @ suffix_of (Some n)) = s @ slash # n" "length (s @ suffix_of (Some n)) < FUSE_MAX_PATH"
    using assms(5) by (simp_all add: path_string_def suffix_of_def)
  then show ?thesis
    unfolding fuse_lib_lookup_def
    by (intro wp_bind wp_path_known [OF assms(1)])
      (auto intro!: wp_bind wp_get_conf wp_mono [OF looked] wp_ret assms(7) simp: reply_entry_def ENOENT_def)
qed

section \<open>A path\<close>

text \<open>The kernel looks the names of a path up one by one, and asks for the attributes of the last number.\<close>

primrec resolve :: "nat \<Rightarrow> string list \<Rightarrow> nat \<Rightarrow> ('s, nat option) act" where
  "resolve k [] i = ret_lib (Some i)"
| "resolve k (n # ns) i =
     bind_lib (fuse_lib_lookup k False i n) (\<lambda>r. case r of Reply_Entry e \<Rightarrow> resolve k ns (ep_ino e) | _ \<Rightarrow> ret_lib None)"

definition kernel_stat :: "nat \<Rightarrow> string list \<Rightarrow> ('s, lib_reply) act" where
  "kernel_stat k ns =
     bind_lib (resolve k ns FUSE_ROOT_ID) (\<lambda>r. case r of None \<Rightarrow> ret_lib (Reply_Err ENOENT) | Some i \<Rightarrow> fuse_lib_getattr i)"

definition names_path :: "string list \<Rightarrow> string" where
  "names_path ns = concat (map (\<lambda>n. slash # n) ns)"

lemma names_path_simps [simp]: "names_path [] = []" "names_path (n # ns) = slash # n @ names_path ns"
  "names_path (ms @ ns) = names_path ms @ names_path ns"
  by (simp_all add: names_path_def)

lemma names_path_length: "length ns \<le> length (names_path ns)"
  by (induction ns) simp_all

lemma wp_resolve_known:
  assumes "knows p m conf c i s l" "\<forall>n\<in>set ns. NUL \<notin> set n" "c + length ns + 3 \<le> k" "int (c + length ns) + 1 < INT_MAX"
    and "length (s @ names_path ns) < FUSE_MAX_PATH"
    and "\<And>j. 0 < j \<Longrightarrow> j \<le> length ns \<Longrightarrow> \<exists>st. fuse_fs_getattr p (s @ names_path (take j ns)) m = Inr ((0, st), m)"
    and "\<And>i' l1. knows p m conf (c + length ns) i' (s @ names_path ns) l1 \<Longrightarrow> Q (Some i') l1"
  shows "wp (resolve k ns i) l Q"
  using assms
proof (induction ns arbitrary: c i s l)
  case Nil
  then show ?case
    by (simp add: wp_ret)
next
  case (Cons n ns)
  obtain st where st: "fuse_fs_getattr p (s @ slash # n) m = Inr ((0, st), m)"
    using Cons.prems(6) [of 1] by auto
  have known: "\<exists>st. fuse_fs_getattr p ((s @ slash # n) @ names_path (take j ns)) m = Inr ((0, st), m)"
    if "0 < j" "j \<le> length ns" for j
    using Cons.prems(6) [of "Suc j"] that by simp
  show ?case
    unfolding resolve.simps
  proof (rule wp_bind, rule wp_lookup_known [OF Cons.prems(1)])
    fix e :: fuse_entry_param and l1
    assume e: "knows p m conf (Suc c) (ep_ino e) (s @ slash # n) l1"
    show "wp (case Reply_Entry e of Reply_Entry e \<Rightarrow> resolve k ns (ep_ino e) | _ \<Rightarrow> ret_lib None) l1 Q"
      unfolding lib_reply.case
      by (rule Cons.IH [OF e]) (use Cons.prems known in auto)
  qed (use Cons.prems st in auto)
qed

lemma wp_getattr_reply:
  assumes "knows p m conf c i s l" "length s < FUSE_MAX_PATH" "fuse_fs_getattr p (path_string s) m = Inr ((0, st), m)"
  shows "wp (fuse_lib_getattr i) l (\<lambda>r l1. r = Reply_Attr (set_stat conf i st) (cf_attr_timeout conf))"
proof -
  have attr: "wp (reply_attr i (0, st)) l1 (\<lambda>r l1. r = Reply_Attr (set_stat conf i st) (cf_attr_timeout conf))"
    if l1: "knows p m conf c i s l1" for l1
  proof -
    have inv: "lib_inv p (\<lambda>x. x = m) l1" "0 < nlookups (lb_f l1) i" "lb_conf l1 = conf"
      using l1 by (simp_all add: knows_def)
    have "steps (\<lambda>x. x = m) l1 (reply_attr i (0, st)) (\<lambda>r. r = Reply_Attr (set_stat conf i st) (cf_attr_timeout conf))"
      unfolding reply_attr_def prod.case if_True simp_thms
      by (intro steps_bind steps_auto_update [OF inv(1) steps_node_of [OF inv(1,2)]] steps_bindP [OF steps_get_conf] steps_ret)
        (simp_all add: inv(3))
    then show ?thesis
      by (rule steps_wp [OF _ quiet_refl [OF inv(1)]])
  qed
  have "path_string (s @ suffix_of None) = path_string s" "length (s @ suffix_of None) < FUSE_MAX_PATH"
    using assms(2) by (simp_all add: suffix_of_def)
  then show ?thesis
    unfolding fuse_lib_getattr_def
    by (intro wp_bind wp_path_known [OF assms(1)]) (auto intro!: wp_getattr_known [OF _ assms(3)] attr)
qed

text \<open>The library as \<open>fuse_new\<close> leaves it.\<close>

definition fuse_start ::
  "mem \<Rightarrow> ((nat \<rightharpoonup> node) \<Rightarrow> nat) \<Rightarrow> nat \<Rightarrow> fuse_config \<Rightarrow> (nat \<Rightarrow> int option) \<Rightarrow> 's fuse_operations \<Rightarrow> 's \<Rightarrow> 's lib" where
  "fuse_start mem fresh root0 conf clock p m =
     \<lparr>lb_f = fuse_new_nodes mem fresh root0, lb_conf = conf, lb_op = p, lb_fs = m, lb_clock = clock, lb_tick = 0\<rparr>"

lemma nlookups_new: "good_fresh fresh \<Longrightarrow> nlookups (fuse_new_nodes mem fresh root0) i = (if i = FUSE_ROOT_ID then 1 else 0)"
  using fuse_new_nodes_ok [of fresh mem root0] nlookups_unknown [OF nodes_okD, of "fuse_new_nodes mem fresh root0" i]
  by (auto simp: idm_def fuse_new_nodes_def ran_def)

lemma start_inv:
  assumes "good_fresh fresh" "\<forall>t. clock t \<noteq> None" "ok m"
  shows "lib_inv p ok (fuse_start mem fresh root0 conf clock p m)"
  using fuse_new_nodes_ok(1) [OF assms(1)] assms(2,3)
  by (simp add: lib_inv_def fuse_start_def opens_ok_def openm_def fuse_new_nodes_def new_node_def)

lemma start_knows:
  assumes "good_fresh fresh" "\<forall>t. clock t \<noteq> None" "\<forall>t. \<not> oom mem t"
  shows "knows p m conf 1 FUSE_ROOT_ID [] (fuse_start mem fresh root0 conf clock p m)"
  using start_inv [OF assms(1,2), of "\<lambda>x. x = m" m p mem root0 conf] assms(3) nlookups_new [OF assms(1)]
  by (auto simp: knows_def fuse_start_def light_def openm_def fuse_new_nodes_def new_node_def dom_def has_path.root)

lemma kernel_stat_known:
  assumes "good_fresh fresh" "\<forall>t. clock t \<noteq> None" "\<forall>t. \<not> oom mem t"
    and "\<forall>n\<in>set ns. NUL \<notin> set n" "length ns + 4 \<le> k" "length (names_path ns) < FUSE_MAX_PATH"
    and "\<And>j. j \<le> length ns \<Longrightarrow> fuse_fs_getattr p (path_string (names_path (take j ns))) m = Inr ((0, attr j), m)"
  shows "\<exists>i l. kernel_stat k ns (fuse_start mem fresh root0 conf clock p m) =
           Some (Inr (Reply_Attr (set_stat conf i (attr (length ns))) (cf_attr_timeout conf), l))"
proof -
  let ?l = "fuse_start mem fresh root0 conf clock p m"
  have small: "int (1 + length ns) + 1 < INT_MAX"
    using assms(6) names_path_length [of ns] by (simp add: INT_MAX_def FUSE_MAX_PATH_def)
  have "wp (kernel_stat k ns) ?l (\<lambda>r _. \<exists>i. r = Reply_Attr (set_stat conf i (attr (length ns))) (cf_attr_timeout conf))"
    unfolding kernel_stat_def
  proof (rule wp_bind, rule wp_resolve_known [OF start_knows [OF assms(1-3)] assms(4)])
    fix i' l1
    assume "knows p m conf (1 + length ns) i' ([] @ names_path ns) l1"
    then have "wp (fuse_lib_getattr i') l1 (\<lambda>r l1. r = Reply_Attr (set_stat conf i' (attr (length ns))) (cf_attr_timeout conf))"
      by (rule wp_getattr_reply) (use assms(6) assms(7) [of "length ns"] in simp_all)
    then show "wp (case Some i' of None \<Rightarrow> ret_lib (Reply_Err ENOENT) | Some i \<Rightarrow> fuse_lib_getattr i) l1
        (\<lambda>r _. \<exists>i. r = Reply_Attr (set_stat conf i (attr (length ns))) (cf_attr_timeout conf))"
      by (auto elim: wp_mono)
  next
    fix j
    assume j: "0 < j" "j \<le> length ns"
    then have "path_string (names_path (take j ns)) = names_path (take j ns)"
      by (cases ns; cases j) (simp_all add: path_string_def)
    then show "\<exists>st. fuse_fs_getattr p ([] @ names_path (take j ns)) m = Inr ((0, st), m)"
      using assms(7) [OF j(2)] by simp
  qed (use assms(5,6) small in simp_all)
  then show ?thesis
    by (auto simp: wp_def)
qed

section \<open>Sequences of requests\<close>

text \<open>The counters of the library can take one more node, lookup and open.\<close>

definition has_room :: "nat \<Rightarrow> 's lib \<Rightarrow> bool" where
  "has_room k l \<longleftrightarrow>
     room (lb_f l) \<and> counts_small (lb_f l) \<and> opens_small (lb_f l) \<and> card (dom (fu_nodes (lb_f l))) + 3 \<le> k"

text \<open>The states that requests lead to from \<open>fuse_new\<close>.\<close>

inductive served :: "nat \<Rightarrow> 's fuse_operations \<Rightarrow> ('s \<Rightarrow> bool) \<Rightarrow> 's lib \<Rightarrow> bool" for k p ok where
  start: "good_fresh fresh \<Longrightarrow> \<forall>t. clock t \<noteq> None \<Longrightarrow> ok m \<Longrightarrow> served k p ok (fuse_start mem fresh root0 conf clock p m)"
| request: "served k p ok l \<Longrightarrow> has_room k l \<Longrightarrow> allowed lost l req \<Longrightarrow>
    fuse_path_ops k lost req l = Some (Inr (r, l')) \<Longrightarrow> served k p ok l'"

context answering_fs
begin

lemma served_inv: "served k p ok l \<Longrightarrow> lib_inv p ok l"
proof (induction rule: served.induct)
  case (start fresh clock m mem root0 conf)
  then show ?case
    by (rule start_inv)
next
  case (request l lost req r l')
  then have "lib_ready k p ok l"
    by (simp add: lib_ready_def has_room_def)
  from wp_path_ops [OF this request.hyps(3)] request.hyps(4) show ?case
    by (simp add: wp_def)
qed

lemma served_request:
  assumes "served k p ok l" "has_room k l" "allowed lost l req"
  shows "\<exists>r l'. fuse_path_ops k lost req l = Some (Inr (r, l')) \<and> nodes_ok (lb_f l') \<and> served k p ok l'"
proof -
  have "lib_ready k p ok l"
    using served_inv [OF assms(1)] assms(2) by (simp add: lib_ready_def has_room_def)
  then obtain r l' where "fuse_path_ops k lost req l = Some (Inr (r, l'))" "lib_inv p ok l'"
    using wp_path_ops [OF _ assms(3)] unfolding wp_def by blast
  with served.request [OF assms] show ?thesis
    by (auto simp: lib_inv_def)
qed

end

end
