(* ===== verification/Kernel_Dir.thy ===== *)
theory Kernel_Dir
  imports Fuse_Dir_Laws Fuse_Resolve
begin

text \<open>
  Reading a directory on the kernel's side (\<open>other_fs/fuse-2.7.3/kernel/dir.c\<close>): a page of entries is asked
  for and taken apart. Calls that ask page after page see every entry that the file system has filled in,
  in its order, exactly once.
\<close>

section \<open>The kernel\<close>

definition FUSE_NAME_MAX :: nat where "FUSE_NAME_MAX = 1024"
definition PAGE_SIZE :: nat where "PAGE_SIZE = 4096"

text \<open>The fields of \<open>struct fuse_dirent\<close> at the start of a buffer.\<close>

definition dirent_ino :: "string \<Rightarrow> nat" where "dirent_ino buf = le_val (take 8 buf)"
definition dirent_off :: "string \<Rightarrow> nat" where "dirent_off buf = le_val (take 8 (drop 8 buf))"
definition dirent_namelen :: "string \<Rightarrow> nat" where "dirent_namelen buf = le_val (take 4 (drop 16 buf))"
definition dirent_type :: "string \<Rightarrow> nat" where "dirent_type buf = le_val (take 4 (drop 20 buf))"

text \<open>\<open>filldir\<close> of the caller gets the name, the position, the inode number and the type, and says whether it has
  no more room.\<close>

type_synonym 'd filldir = "'d \<Rightarrow> string \<Rightarrow> nat \<Rightarrow> nat \<Rightarrow> nat \<Rightarrow> 'd \<times> bool"

text \<open>The result is the error number, \<open>file->f_pos\<close>, and what was filled.\<close>

function parse_dirfile :: "'d filldir \<Rightarrow> string \<Rightarrow> nat \<Rightarrow> 'd \<Rightarrow> int \<times> nat \<times> 'd" where
  "parse_dirfile filldir buf f_pos dst =
     (if length buf < FUSE_NAME_OFFSET then (0, f_pos, dst)
      else let namelen = dirent_namelen buf; reclen = fuse_dirent_size namelen in
        if namelen = 0 \<or> namelen > FUSE_NAME_MAX then (- EIO, f_pos, dst)
        else if reclen > length buf then (0, f_pos, dst)
        else let (dst1, over) = filldir dst (take namelen (drop FUSE_NAME_OFFSET buf)) f_pos (dirent_ino buf) (dirent_type buf) in
          if over then (0, f_pos, dst1)
          else parse_dirfile filldir (drop reclen buf) (dirent_off buf) dst1)"
  by pat_completeness auto
termination
proof (relation "measure (\<lambda>(_, buf, _, _). length buf)", goal_cases)
  case (2 filldir buf f_pos dst x xa y xb ya)
  then have "dirent_namelen buf < 2 ^ 32"
    by (simp add: FUSE_NAME_MAX_def)
  from fuse_dirent_size_bounds(1) [OF this] 2 show ?case
    by (simp add: FUSE_NAME_OFFSET_def)
qed simp

declare parse_dirfile.simps [simp del]

text \<open>
  \<open>fuse_readdir\<close>. The state of the inode and of the kernel's memory are arguments: \<open>bad\<close>, the error of
  \<open>fuse_get_req\<close> if there is one, and whether there is a page. \<open>send\<close> sends the request and returns
  the reply of the file system.
\<close>

definition fuse_readdir ::
  "bool \<Rightarrow> int option \<Rightarrow> bool \<Rightarrow> (nat \<Rightarrow> nat \<Rightarrow> ('s, (int \<times> string) \<times> 'h) act) \<Rightarrow> 'h \<Rightarrow> 'd filldir \<Rightarrow> nat \<Rightarrow> 'd \<Rightarrow>
   ('s, (int \<times> nat \<times> 'd) \<times> 'h) act" where
  "fuse_readdir bad req_err page send h filldir f_pos dst =
     (if bad then ret_lib ((- EIO, f_pos, dst), h)
      else case req_err of Some e \<Rightarrow> ret_lib ((e, f_pos, dst), h)
      | None \<Rightarrow>
          if \<not> page then ret_lib ((- ENOMEM, f_pos, dst), h)
          else bind_lib (send f_pos PAGE_SIZE) (\<lambda>((err, buf), h1).
            if err \<noteq> 0 then ret_lib ((err, f_pos, dst), h1)
            else ret_lib (parse_dirfile filldir buf f_pos dst, h1)))"

text \<open>The request reaches \<open>fuse_lib_readdir\<close>.\<close>

definition send_readdir :: "('s, dir_buf) dir_operations \<Rightarrow> nat \<Rightarrow> fuse_dh \<Rightarrow> nat \<Rightarrow> nat \<Rightarrow> ('s, (int \<times> string) \<times> fuse_dh) act" where
  "send_readdir d i dh pos sz =
     bind_lib (fuse_lib_readdir d i sz (word_of_nat pos) dh) (\<lambda>(r, dh1).
       ret_lib (case r of Reply_Buf buf \<Rightarrow> (0, buf) | Reply_Err e \<Rightarrow> (- e, []) | _ \<Rightarrow> (0, []), dh1))"

text \<open>A caller that keeps all names, and reads until nothing more comes.\<close>

definition keep_name :: "(string \<times> nat) list filldir" where
  "keep_name dst name pos ino type = (dst @ [(name, type)], False)"

primrec read_all :: "nat \<Rightarrow> ('s, dir_buf) dir_operations \<Rightarrow> nat \<Rightarrow> fuse_dh \<Rightarrow> nat \<Rightarrow> (string \<times> nat) list \<Rightarrow>
    ('s, int \<times> (string \<times> nat) list) act" where
  "read_all 0 d i dh pos acc = ret_lib (0, acc)"
| "read_all (Suc n) d i dh pos acc =
     bind_lib (fuse_readdir False None True (send_readdir d i dh) dh keep_name pos acc) (\<lambda>((err, pos1, acc1), dh1).
       if err \<noteq> 0 \<or> pos1 = pos then ret_lib (err, acc1) else read_all n d i dh1 pos1 acc1)"

text \<open>Opening a directory and reading it to the end.\<close>

definition list_dir :: "nat \<Rightarrow> ('s, dir_buf) dir_operations \<Rightarrow> nat \<Rightarrow> ('s, int \<times> (string \<times> nat) list) act" where
  "list_dir n d i =
     bind_lib (fuse_lib_opendir d False i 0) (\<lambda>(r, h).
       case h of
         None \<Rightarrow> ret_lib (case r of Reply_Err e \<Rightarrow> - e | _ \<Rightarrow> 0, [])
       | Some dh \<Rightarrow> read_all n d i dh 0 [])"

section \<open>Parsing\<close>

text \<open>How many entries, with their sizes, are whole within \<open>n\<close> bytes.\<close>

fun whole :: "nat \<Rightarrow> (string \<times> fattr option) list \<Rightarrow> nat" where
  "whole n [] = 0"
| "whole n (x # xs) = (let e = fuse_dirent_size (length (fst x)) in if e \<le> n then Suc (whole (n - e) xs) else 0)"

text \<open>The type that an entry shows.\<close>

definition type_bits :: "fattr option \<Rightarrow> nat" where
  "type_bits st = unat (drop_bit 12 (and (case st of None \<Rightarrow> 0 | Some a \<Rightarrow> st_mode (at_st a)) 0xF000))"

lemma dirent_fields:
  fixes pos :: nat and st :: fattr and rest :: string
  assumes "length name \<le> 1024" "pos < 2 ^ 64" "24 \<le> n"
  defines "buf \<equiv> take n (fuse_add_dirent name st (word_of_nat pos) @ rest)"
  shows "dirent_off buf = pos" "dirent_namelen buf = length name"
    "dirent_type buf = unat (drop_bit 12 (and (st_mode (at_st st)) 0xF000))"
proof -
  let ?type = "unat (drop_bit 12 (and (st_mode (at_st st)) 0xF000))"
  have type: "?type < 2 ^ 32"
    using unat_less_word [of "drop_bit 12 (and (st_mode (at_st st)) 0xF000)"] by simp
  have add: "fuse_add_dirent name st (word_of_nat pos) @ rest = le_bytes 8 (at_ino st) @ le_bytes 8 pos @ le_bytes 4 (length name) @
      le_bytes 4 ?type @ name @ replicate (fuse_dirent_size (length name) - (24 + length name)) NUL @ rest"
    using assms(2) by (simp add: fuse_add_dirent_def Let_def FUSE_NAME_OFFSET_def unat_of_nat)
  show "dirent_off buf = pos" "dirent_namelen buf = length name" "dirent_type buf = ?type"
    using assms(1-3) type by (simp_all only: buf_def add dirent_off_def dirent_namelen_def dirent_type_def) (simp_all add: drop_take le_val_bytes)
qed

lemma dirent_name:
  assumes "24 + length name \<le> n"
  shows "take (length name) (drop FUSE_NAME_OFFSET (take n (fuse_add_dirent name st off @ rest))) = name"
  using assms by (simp add: fuse_add_dirent_def Let_def FUSE_NAME_OFFSET_def drop_take)

lemma shown_mode: "st_mode (at_st (shown c f dir name st)) = (case st of None \<Rightarrow> 0 | Some a \<Rightarrow> st_mode (at_st a))"
  by (simp add: shown_def Let_def no_attr_def stat_zero_def split: option.splits sum.splits)

lemma parse_short: "length buf < 24 \<Longrightarrow> parse_dirfile g buf pos acc = (0, pos, acc)"
  by (subst parse_dirfile.simps) (simp add: FUSE_NAME_OFFSET_def)

lemma parse_cut:
  "0 < dirent_namelen buf \<Longrightarrow> dirent_namelen buf \<le> 1024 \<Longrightarrow> length buf < fuse_dirent_size (dirent_namelen buf) \<Longrightarrow>
   parse_dirfile g buf pos acc = (0, pos, acc)"
  by (subst parse_dirfile.simps) (simp add: FUSE_NAME_MAX_def)

lemma parse_one:
  assumes "24 \<le> length buf" "0 < dirent_namelen buf" "dirent_namelen buf \<le> 1024" "fuse_dirent_size (dirent_namelen buf) \<le> length buf"
  shows "parse_dirfile keep_name buf pos acc =
           parse_dirfile keep_name (drop (fuse_dirent_size (dirent_namelen buf)) buf) (dirent_off buf)
             (acc @ [(take (dirent_namelen buf) (drop FUSE_NAME_OFFSET buf), dirent_type buf)])"
  using assms by (subst parse_dirfile.simps) (simp add: FUSE_NAME_MAX_def FUSE_NAME_OFFSET_def keep_name_def Let_def)

lemma parse_page:
  assumes "\<forall>x\<in>set xs. name_ok (fst x)" "pos + dirents_size xs < 2 ^ 64"
  shows "parse_dirfile keep_name (take n (dirents c f dir pos xs)) pos acc =
           (0, pos + dirents_size (take (whole n xs) xs), acc @ map (\<lambda>x. (fst x, type_bits (snd x))) (take (whole n xs) xs))"
  using assms
proof (induction xs arbitrary: n pos acc)
  case Nil
  then show ?case
    by (simp add: parse_dirfile.simps FUSE_NAME_OFFSET_def)
next
  case (Cons x xs)
  let ?name = "fst x" and ?e = "fuse_dirent_size (length (fst x))"
  let ?E = "fuse_add_dirent ?name (shown c f dir ?name (snd x)) (word_of_nat (pos + ?e))"
  let ?R = "dirents c f dir (pos + ?e) xs"
  let ?buf = "take n (?E @ ?R)"
  have name: "0 < length ?name" "length ?name \<le> 1024"
    using Cons.prems(1) by (simp_all add: name_ok_def)
  then have len: "length ?E = ?e" "24 + length ?name \<le> ?e"
    using fuse_dirent_size_bounds(1) [of "length ?name"] by (simp_all add: length_fuse_add_dirent)
  have cons: "dirents c f dir pos (x # xs) = ?E @ ?R"
    by (simp add: Let_def)
  consider "n < 24" | "24 \<le> n" "n < ?e" | "?e \<le> n"
    by linarith
  then show ?case
  proof cases
    case 1
    then have "parse_dirfile keep_name ?buf pos acc = (0, pos, acc)"
      by (intro parse_short) (simp only: length_take min_less_iff_disj simp_thms)
    with 1 len show ?thesis
      unfolding cons by simp
  next
    case 2
    have "dirent_namelen ?buf = length ?name"
      by (rule dirent_fields(2)) (use name 2 Cons.prems(2) in simp_all)
    moreover have "length ?buf = n"
      using 2 len by simp
    ultimately have "parse_dirfile keep_name ?buf pos acc = (0, pos, acc)"
      using 2 name by (intro parse_cut) simp_all
    with 2 show ?thesis
      unfolding cons by simp
  next
    case 3
    have n: "24 \<le> n" "24 + length ?name \<le> n" "pos + ?e < 2 ^ 64"
      using 3 len Cons.prems(2) by simp_all
    note fields = dirent_fields [OF name(2) n(3,1), of "shown c f dir ?name (snd x)" ?R] dirent_name [OF n(2), of "shown c f dir ?name (snd x)" _ ?R]
    have whole: "24 \<le> length ?buf" "?e \<le> length ?buf"
      using len 3 n(1) by simp_all
    have drop: "drop ?e ?buf = take (n - ?e) ?R"
      using len 3 by simp
    have "parse_dirfile keep_name ?buf pos acc =
        parse_dirfile keep_name (take (n - ?e) ?R) (pos + ?e) (acc @ [(?name, type_bits (snd x))])"
      using parse_one [of ?buf pos acc] whole name by (simp only: fields drop shown_mode type_bits_def)
    moreover have "pos + ?e + dirents_size xs < 2 ^ 64"
      using Cons.prems(2) by simp
    ultimately show ?thesis
      unfolding cons using Cons.IH [of "pos + ?e" "n - ?e"] Cons.prems(1) 3 by (simp add: Let_def add.assoc)
  qed
qed

lemma whole_page:
  assumes "xs \<noteq> []" "name_ok (fst (hd xs))"
  shows "0 < whole PAGE_SIZE xs"
proof (cases xs)
  case (Cons x ys)
  then show ?thesis
    using assms(2) fuse_dirent_size_bounds(2) [of "length (fst x)"] by (simp add: Let_def PAGE_SIZE_def name_ok_def)
qed (use assms(1) in simp)

section \<open>Replies\<close>

text \<open>The handle holds the entries \<open>xs\<close>.\<close>

definition holds :: "fuse_config \<Rightarrow> fuse \<Rightarrow> nat \<Rightarrow> (string \<times> fattr option) list \<Rightarrow> fuse_dh \<Rightarrow> bool" where
  "holds c f i xs dh \<longleftrightarrow>
     dh_filled dh \<and> dh_len dh = dirents_size xs \<and> dh_len dh \<le> length (dh_contents dh) \<and>
     take (dh_len dh) (dh_contents dh) = dirents c f i 0 xs"

lemma holds_filled: "holds c f i xs dh \<Longrightarrow> dh_filled dh"
  by (simp add: holds_def)

text \<open>The last part of \<open>fuse_lib_readdir\<close>.\<close>

definition reply_filled :: "fuse_dh \<Rightarrow> off_t \<Rightarrow> nat \<Rightarrow> ('s, lib_reply \<times> fuse_dh) act" where
  "reply_filled dh off sz =
     (if sint off < int (dh_len dh)
      then reply_piece dh (sint off)
             (if unat (off + word_of_nat sz) > dh_len dh then unat (word_of_nat (dh_len dh) - off) else sz)
      else reply_piece dh (sint off) 0)"

lemma unat_off: "n < 2 ^ 64 \<Longrightarrow> unat (word_of_nat n :: off_t) = n"
  by (simp add: unat_of_nat)

lemma small_off:
  assumes "pos \<le> 2 ^ 31"
  shows "sint (word_of_nat pos :: off_t) = int pos" "unat (word_of_nat pos :: off_t) = pos"
    "pos \<le> n \<Longrightarrow> n \<le> 2 ^ 31 \<Longrightarrow> unat (word_of_nat n - word_of_nat pos :: off_t) = n - pos"
    "(word_of_nat pos :: off_t) = 0 \<longleftrightarrow> pos = 0"
proof -
  show u: "unat (word_of_nat pos :: off_t) = pos"
    using assms by (simp add: unat_of_nat)
  show "sint (word_of_nat pos :: off_t) = int pos"
    using assms by (simp add: signed_of_nat signed_take_bit_int_eq_self)
  show "unat (word_of_nat n - word_of_nat pos :: off_t) = n - pos" if "pos \<le> n" "n \<le> 2 ^ 31"
  proof -
    have "(word_of_nat n - word_of_nat pos :: off_t) = word_of_nat (n - pos)"
      using that(1) by (simp add: of_nat_diff)
    moreover have "n - pos < 2 ^ 64"
      using that(2) by simp
    ultimately show ?thesis
      using unat_off by metis
  qed
  show "(word_of_nat pos :: off_t) = 0 \<longleftrightarrow> pos = 0"
    using u by (cases "pos = 0") auto
qed

lemma reply_filled_page:
  assumes "holds c f i xs dh" "\<forall>x\<in>set xs. name_ok (fst x)" "dirents_size xs \<le> 2 ^ 31" "xs = ys @ zs"
  shows "reply_filled dh (word_of_nat (dirents_size ys)) PAGE_SIZE l =
           Some (Inr ((Reply_Buf (take PAGE_SIZE (dirents c f i (dirents_size ys) zs)), dh), l))"
proof -
  let ?pos = "dirents_size ys"
  have pos: "?pos \<le> dh_len dh" "dh_len dh \<le> 2 ^ 31" "?pos \<le> 2 ^ 31" "dh_len dh - ?pos = dirents_size zs"
    using assms by (simp_all add: holds_def)
  have "drop ?pos (dirents c f i 0 xs) = dirents c f i ?pos zs"
    using assms(2,4) by (simp add: dirents_append length_dirents)
  then have drop: "take (dirents_size zs) (drop ?pos (dh_contents dh)) = dirents c f i ?pos zs"
    using assms(1) pos(1,4) by (metis drop_take holds_def)
  have len: "length (dirents c f i ?pos zs) = dirents_size zs"
    by (rule length_dirents) (use assms(2,4) in simp)
  have sum: "unat (word_of_nat ?pos + word_of_nat PAGE_SIZE :: off_t) = ?pos + PAGE_SIZE"
    by (subst of_nat_add [symmetric], rule unat_off) (use pos(3) in \<open>simp add: PAGE_SIZE_def\<close>)
  show ?thesis
  proof (cases "?pos + PAGE_SIZE > dh_len dh")
    case True
    then have short: "dirents_size zs \<le> PAGE_SIZE"
      using pos by linarith
    have "reply_filled dh (word_of_nat ?pos) PAGE_SIZE l =
        (if dirents_size zs = 0 then ret_lib (Reply_Buf [], dh) l
         else ret_lib (Reply_Buf (take (dirents_size zs) (drop ?pos (dh_contents dh))), dh) l)"
      using True pos small_off [OF pos(3)] sum assms(1) by (auto simp: reply_filled_def reply_piece_def holds_def)
    with short drop len show ?thesis
      by (auto simp: ret_lib_def)
  next
    case False
    then have long: "PAGE_SIZE \<le> dirents_size zs" "?pos + PAGE_SIZE \<le> length (dh_contents dh)" "?pos < dh_len dh"
      using pos assms(1) by (auto simp: holds_def PAGE_SIZE_def)
    then have "reply_filled dh (word_of_nat ?pos) PAGE_SIZE l = ret_lib (Reply_Buf (take PAGE_SIZE (drop ?pos (dh_contents dh))), dh) l"
      using False pos small_off [OF pos(3)] sum by (simp add: reply_filled_def reply_piece_def)
    moreover have "take PAGE_SIZE (drop ?pos (dh_contents dh)) = take PAGE_SIZE (dirents c f i ?pos zs)"
      using long(1) by (simp add: drop [symmetric] min_absorb1)
    ultimately show ?thesis
      by (simp add: ret_lib_def)
  qed
qed

lemma dirents_size_pos:
  assumes "xs \<noteq> []" "\<forall>x\<in>set xs. name_ok (fst x)"
  shows "0 < dirents_size xs"
  using assms fuse_dirent_size_bounds(1) [of "length (fst (hd xs))"] by (cases xs) (simp_all add: name_ok_def)

lemma readdir_next:
  assumes "holds c f i xs dh" "\<forall>x\<in>set xs. name_ok (fst x)" "dirents_size xs \<le> 2 ^ 31" "xs = ys @ zs" "ys \<noteq> []"
  shows "fuse_lib_readdir d i PAGE_SIZE (word_of_nat (dirents_size ys)) dh l =
           Some (Inr ((Reply_Buf (take PAGE_SIZE (dirents c f i (dirents_size ys) zs)), dh), l))"
proof -
  have "0 < dirents_size ys"
    by (rule dirents_size_pos) (use assms(2,4,5) in auto)
  moreover have "dirents_size ys \<le> 2 ^ 31"
    using assms(3,4) by simp
  ultimately have "(word_of_nat (dirents_size ys) :: off_t) \<noteq> 0"
    using small_off(4) [of "dirents_size ys"] by simp
  moreover have "dh_filled dh"
    using assms(1) by (simp add: holds_def)
  ultimately have "fuse_lib_readdir d i PAGE_SIZE (word_of_nat (dirents_size ys)) dh l = reply_filled dh (word_of_nat (dirents_size ys)) PAGE_SIZE l"
    by (simp add: fuse_lib_readdir_def reply_filled_def Let_def bind_lib_def ret_lib_def)
  then show ?thesis
    by (simp add: reply_filled_page [OF assms(1-4)])
qed

section \<open>Reading to the end\<close>

definition kept :: "(string \<times> fattr option) list \<Rightarrow> (string \<times> nat) list" where
  "kept xs = map (\<lambda>x. (fst x, type_bits (snd x))) xs"

lemma kept_simps [simp]: "kept [] = []" "kept (xs @ ys) = kept xs @ kept ys"
  by (simp_all add: kept_def)

text \<open>One call of \<open>fuse_readdir\<close>, when the reply is a page of the entries.\<close>

lemma readdir_page:
  assumes "fuse_lib_readdir d i PAGE_SIZE (word_of_nat pos) dh l =
      Some (Inr ((Reply_Buf (take PAGE_SIZE (dirents c f i pos zs)), dh'), l'))"
    and "\<forall>x\<in>set zs. name_ok (fst x)" "pos + dirents_size zs < 2 ^ 64"
  shows "fuse_readdir False None True (send_readdir d i dh) dh keep_name pos acc l =
      Some (Inr (((0, pos + dirents_size (take (whole PAGE_SIZE zs) zs), acc @ kept (take (whole PAGE_SIZE zs) zs)), dh'), l'))"
  using assms(1) parse_page [OF assms(2,3), of PAGE_SIZE c f i acc]
  by (simp add: fuse_readdir_def send_readdir_def bind_lib_def ret_lib_def kept_def)

lemma read_all_rest:
  assumes "holds c f i xs dh" "\<forall>x\<in>set xs. name_ok (fst x)" "dirents_size xs \<le> 2 ^ 31"
    and "xs = ys @ zs" "ys \<noteq> []" "length zs \<le> n"
  shows "read_all n d i dh (dirents_size ys) acc l = Some (Inr ((0, acc @ kept zs), l))"
  using assms(4-)
proof (induction n arbitrary: ys zs acc)
  case 0
  then show ?case
    by (simp add: ret_lib_def)
next
  case (Suc n)
  let ?w = "whole PAGE_SIZE zs"
  have zs: "\<forall>x\<in>set zs. name_ok (fst x)" "dirents_size ys + dirents_size zs < 2 ^ 64"
    using assms(2,3) Suc.prems(1) by auto
  have page: "fuse_readdir False None True (send_readdir d i dh) dh keep_name (dirents_size ys) acc l =
      Some (Inr (((0, dirents_size ys + dirents_size (take ?w zs), acc @ kept (take ?w zs)), dh), l))"
    by (rule readdir_page [OF readdir_next [OF assms(1-3) Suc.prems(1,2)] zs])
  show ?case
  proof (cases "zs = []")
    case True
    with page show ?thesis
      by (simp add: bind_lib_def ret_lib_def)
  next
    case False
    have w: "0 < ?w"
      by (rule whole_page) (use False zs(1) in auto)
    then have "0 < dirents_size (take ?w zs)"
      using False zs(1) by (intro dirents_size_pos) (auto dest: in_set_takeD)
    then have "read_all (Suc n) d i dh (dirents_size ys) acc l =
        read_all n d i dh (dirents_size (ys @ take ?w zs)) (acc @ kept (take ?w zs)) l"
      using page by (simp add: bind_lib_def)
    also have "\<dots> = Some (Inr ((0, (acc @ kept (take ?w zs)) @ kept (drop ?w zs)), l))"
      by (rule Suc.IH) (use Suc.prems w False in auto)
    finally show ?thesis
      using kept_simps(2) [of "take ?w zs" "drop ?w zs"] by simp
  qed
qed

text \<open>
  A file system that fills the names of a directory in one after the other, without offsets: \<open>lists m path xs\<close>
  says that in the state \<open>m\<close> they are \<open>xs\<close>.
\<close>

locale listing_fs =
  fixes d :: "('s, dir_buf) dir_operations"
    and lists :: "'s \<Rightarrow> string \<Rightarrow> (string \<times> fattr option) list \<Rightarrow> bool"
  assumes readdir_fills: "lists m path xs \<Longrightarrow> fill_seq filler b xs = Some b' \<Longrightarrow>
      fuse_fs_readdir d path (length path + 1) b filler off fi m = Inr ((0, b'), m)"
    and opendir_grants: "lists m path xs \<Longrightarrow> \<exists>fi'. fuse_fs_opendir d path fi m = Inr ((0, fi'), m)"
begin

lemma readdir_first:
  assumes "knows p m conf c i s l" "length s < FUSE_MAX_PATH" "lists m (path_string s) xs"
    and "\<forall>x\<in>set xs. name_ok (fst x)" "dirents_size xs \<le> 2 ^ 31" "dh_ok dh" "dh_nodeid dh = i"
  shows "wp (fuse_lib_readdir d i PAGE_SIZE 0 dh) l (\<lambda>(r, dh') l'.
           \<exists>f. r = Reply_Buf (take PAGE_SIZE (dirents conf f i 0 xs)) \<and> holds conf f i xs dh' \<and> knows p m conf c i s l')"
proof -
  let ?dh = "dh\<lparr>dh_len := 0, dh_error := 0, dh_needlen := PAGE_SIZE mod 2 ^ 32, dh_filled := True\<rparr>"
  have filled: "wp (readdir_fill d i PAGE_SIZE 0 (dh\<lparr>dh_filled := False\<rparr>) fi) l
      (\<lambda>(err, dh') l'. \<exists>f. err = 0 \<and> holds conf f i xs dh' \<and> knows p m conf c i s l')" for fi
    unfolding readdir_fill_def
  proof (rule wp_path_known [OF assms(1)])
    fix l1
    assume l1: "knows p m conf c i s l1"
    then have k: "lb_fs l1 = m" "lb_conf l1 = conf" "nodes_ok (lb_f l1)" "\<forall>t. \<not> oom (fu_mem (lb_f l1)) t"
      by (simp_all add: knows_def lib_inv_def light_def)
    have "dh_ok ?dh" "dh_len ?dh + dirents_size xs \<le> 2 ^ 31"
      using assms(5,6) by (simp_all add: dh_ok_def)
    from fill_seq_dirents [OF this(1) k(4,3) assms(4) this(2), of conf] obtain dh' m' where
      fill: "fill_seq (dh_filler conf (lb_f l1)) (Some (Inr (?dh, fu_mem (lb_f l1)))) xs = Some (Some (Inr (dh', m')))"
        "dh_ok dh'" "oom m' = oom (fu_mem (lb_f l1))" "dh_len dh' = dirents_size xs" "dh_filled dh'" "dh_error dh' = 0"
        "take (dh_len dh') (dh_contents dh') = dirents conf (lb_f l1) i 0 xs"
      using assms(7) by auto
    let ?l = "l1\<lparr>lb_fs := m, lb_f := (lb_f l1)\<lparr>fu_mem := m'\<rparr>\<rparr>"
    have "quiet (\<lambda>x. x = m) l1 ?l"
      using fill(3) k(1) by (simp add: quiet_def same_core_def)
    then have "knows p m conf c i s ?l"
      by (rule knows_quiet [OF l1])
    moreover have "holds conf (lb_f l1) i xs dh'"
      using fill by (simp add: holds_def dh_ok_def)
    ultimately show "wp (\<lambda>l. let dh1 = dh\<lparr>dh_filled := False, dh_len := 0, dh_error := 0, dh_needlen := PAGE_SIZE mod 2 ^ 32, dh_filled := True\<rparr> in
       case fuse_fs_readdir d (path_string (s @ suffix_of None)) (length (path_string (s @ suffix_of None)) + 1) (Some (Inr (dh1, fu_mem (lb_f l))))
          (dh_filler (lb_conf l) (lb_f l)) 0 fi (lb_fs l) of
         Inl e \<Rightarrow> Some (Inl e)
       | Inr ((err, b), s) \<Rightarrow>
           map_option (\<lambda>r. bind_res r (\<lambda>(dh2, m).
             let err1 = (if err = 0 then dh_error dh2 else err);
                 dh3 = (if err1 \<noteq> 0 then dh2\<lparr>dh_filled := False\<rparr> else dh2) in
             Inr ((err1, dh3), l\<lparr>lb_fs := s, lb_f := (lb_f l)\<lparr>fu_mem := m\<rparr>\<rparr>))) b) l1
        (\<lambda>(err, dh') l'. \<exists>f. err = 0 \<and> holds conf f i xs dh' \<and> knows p m conf c i s l')"
      using readdir_fills [OF _ fill(1), of m "path_string s" 0 fi] assms(3) fill(6)
      by (auto simp: wp_def k suffix_of_def)
  qed (use assms(2) in \<open>simp add: suffix_of_def\<close>)
  have reply: "wp (reply_filled dh' 0 PAGE_SIZE) l'
      (\<lambda>(r, dh'') l''. \<exists>f. r = Reply_Buf (take PAGE_SIZE (dirents conf f i 0 xs)) \<and> holds conf f i xs dh'' \<and> knows p m conf c i s l'')"
    if "holds conf f i xs dh'" "knows p m conf c i s l'" for f dh' l'
    using reply_filled_page [OF that(1) assms(4,5), of "[]" xs l'] that by (auto simp: wp_def)
  show ?thesis
    unfolding fuse_lib_readdir_def Let_def reply_filled_def [symmetric]
    by (rule wp_bind, simp, rule wp_mono [OF filled]) (auto dest: holds_filled intro: reply)
qed

lemma opendir_opens:
  assumes "knows p m conf c i s l" "length s < FUSE_MAX_PATH" "lists m (path_string s) xs"
  shows "wp (fuse_lib_opendir d False i flags) l (\<lambda>(r, h) l'. \<exists>dh. h = Some dh \<and> dh_ok dh \<and> dh_nodeid dh = i \<and> knows p m conf c i s l')"
proof -
  have err: "bind_lib (reply_err e) (\<lambda>r. ret_lib (r, None)) = ret_lib (Reply_Err (- e), None)" for e
    by (simp add: HOL.ext bind_lib_def ret_lib_def reply_err_def)
  let ?l = "l\<lparr>lb_f := (lb_f l)\<lparr>fu_mem := snd (alloc (fu_mem (lb_f l)))\<rparr>\<rparr>"
  have l: "\<forall>t. \<not> oom (fu_mem (lb_f l)) t" "lb_fs l = m"
    using assms(1) by (simp_all add: knows_def light_def lib_inv_def)
  then have "quiet (\<lambda>x. x = m) l ?l"
    by (simp add: quiet_def same_core_def alloc_def)
  then have known: "knows p m conf c i s ?l"
    by (rule knows_quiet [OF assms(1)])
  have ok: "wp (k True) ?l Q \<Longrightarrow> wp (bind_lib alloc_lib k) l Q" for k :: "bool \<Rightarrow> ('s, 'x) act" and Q
    using l(1) by (simp add: alloc_lib_def on_nodes_def alloc_def Let_def wp_def bind_lib_def)
  show ?thesis
    unfolding fuse_lib_opendir_def Let_def err with_path_def [symmetric]
  proof (rule ok, unfold not_True_eq_False if_False, rule wp_path_known [OF known])
    fix l1
    assume l1: "knows p m conf c i s l1"
    then have fs: "lb_fs l1 = m"
      by (simp add: knows_def lib_inv_def)
    then have "quiet (\<lambda>x. x = m) l1 (l1\<lparr>lb_fs := m\<rparr>)"
      by (simp add: quiet_def same_core_def)
    then have same: "knows p m conf c i s (l1\<lparr>lb_fs := m\<rparr>)"
      by (rule knows_quiet [OF l1])
    obtain fi where "fuse_fs_opendir d (path_string s) (no_file_info\<lparr>fi_flags := flags\<rparr>) m = Inr ((0, fi), m)"
      using opendir_grants [OF assms(3)] by blast
    then show "wp (bind_lib (on_fs (\<lambda>_. fuse_fs_opendir d (path_string (s @ suffix_of None)) (no_file_info\<lparr>fi_flags := flags\<rparr>))) (\<lambda>(e, fi).
        if e \<noteq> 0 then ret_lib (Reply_Err (- e), None)
        else ret_lib (Reply_Open (no_file_info\<lparr>fi_flags := flags\<rparr>), Some ((new_dirhandle i)\<lparr>dh_fh := fi_fh fi\<rparr>)))) l1
      (\<lambda>(r, h) l'. \<exists>dh. h = Some dh \<and> dh_ok dh \<and> dh_nodeid dh = i \<and> knows p m conf c i s l')"
      using same by (simp add: wp_def bind_lib_def on_fs_def ret_lib_def fs suffix_of_def new_dirhandle_def dh_ok_def)
  qed (use assms(2) in \<open>simp add: suffix_of_def\<close>)
qed

lemma list_dir_lists:
  assumes "knows p m conf c i s l" "length s < FUSE_MAX_PATH" "lists m (path_string s) xs"
    and "\<forall>x\<in>set xs. name_ok (fst x)" "dirents_size xs \<le> 2 ^ 31" "length xs \<le> n"
  shows "wp (list_dir (Suc n) d i) l (\<lambda>r l'. r = (0, kept xs))"
proof -
  have "wp (read_all (Suc n) d i dh 0 []) l1 (\<lambda>r l'. r = (0, kept xs))"
    if dh: "dh_ok dh" "dh_nodeid dh = i" "knows p m conf c i s l1" for dh l1
  proof -
    obtain f dh' l' where first: "fuse_lib_readdir d i PAGE_SIZE 0 dh l1 = Some (Inr ((Reply_Buf (take PAGE_SIZE (dirents conf f i 0 xs)), dh'), l'))"
        "holds conf f i xs dh'"
      using readdir_first [OF dh(3) assms(2-5) dh(1,2)] by (auto simp: wp_def)
    let ?w = "whole PAGE_SIZE xs"
    have page: "fuse_readdir False None True (send_readdir d i dh) dh keep_name 0 [] l1 =
        Some (Inr (((0, dirents_size (take ?w xs), kept (take ?w xs)), dh'), l'))"
      using readdir_page [of d i 0 dh l1 conf f xs dh' l' "[]"] first(1) assms(4,5) by simp
    show ?thesis
    proof (cases "xs = []")
      case True
      with page show ?thesis
        by (simp add: wp_def bind_lib_def ret_lib_def)
    next
      case False
      have w: "0 < ?w"
        by (rule whole_page) (use False assms(4) in auto)
      then have "0 < dirents_size (take ?w xs)"
        using False assms(4) by (intro dirents_size_pos) (auto dest: in_set_takeD)
      moreover have "read_all n d i dh' (dirents_size (take ?w xs)) (kept (take ?w xs)) l' =
          Some (Inr ((0, kept (take ?w xs) @ kept (drop ?w xs)), l'))"
        by (rule read_all_rest [OF first(2) assms(4,5)]) (use w False assms(6) in auto)
      ultimately show ?thesis
        using page kept_simps(2) [of "take ?w xs" "drop ?w xs"] by (simp add: wp_def bind_lib_def)
    qed
  qed
  then show ?thesis
    unfolding list_dir_def
    by (intro wp_bind wp_mono [OF opendir_opens [OF assms(1-3)]]) (auto split: prod.splits)
qed

end

end
