(* ===== verification/Catalog_Mount.thy ===== *)
theory Catalog_Mount
  imports Fuse_Resolve Catalog_Roundtrip
begin

text \<open>
  \<open>catalogfs\<close> under libfuse: the table \<open>catalog_operations\<close> as libfuse sees it meets what libfuse expects of a
  file system, so that every request of the kernel is answered, and a path of a generated catalogue resolves
  to the attributes that \<open>lstat\<close> returned.
\<close>

section \<open>The table of operations\<close>

text \<open>
  \<open>static struct fuse_operations catalog_operations\<close>. The entries for extended attributes are compiled in with
  \<open>HAVE_XATTR\<close> only (\<open>xattr\<close>). The inode number of an attribute record stays 0 from the \<open>memset\<close>.
\<close>

definition catalog_oper :: "bool \<Rightarrow> int \<Rightarrow> mount fuse_operations" where
  "catalog_oper xattr umid =
     \<lparr>op_getattr = Some (\<lambda>path m. bind_res (catalog_getattr m umid path) (\<lambda>(r, st). Inr ((r, \<lparr>at_st = st, at_ino = 0\<rparr>), m))),
      op_fgetattr = None,
      op_readlink = Some (\<lambda>path sz m. bind_res (catalog_readlink m umid path sz) (\<lambda>r. Inr (r, m))),
      op_mknod = Some (\<lambda>path mode rdev m. Inr (catalog_mknod path mode rdev, m)),
      op_mkdir = Some (\<lambda>path mode m. Inr (catalog_mkdir path mode, m)),
      op_unlink = Some (\<lambda>path m. Inr (catalog_unlink path, m)),
      op_rmdir = Some (\<lambda>path m. Inr (catalog_rmdir path, m)),
      op_symlink = Some (\<lambda>source dest m. Inr (catalog_symlink source dest, m)),
      op_rename = Some (\<lambda>source dest m. Inr (catalog_rename source dest, m)),
      op_link = Some (\<lambda>source dest m. Inr (catalog_link source dest, m)),
      op_chmod = Some (\<lambda>path mode m. Inr (catalog_chmod path mode, m)),
      op_chown = Some (\<lambda>path uid gid m. Inr (catalog_chown path uid gid, m)),
      op_truncate = Some (\<lambda>path sz m. Inr (catalog_truncate path sz, m)),
      op_ftruncate = None,
      op_utimens = Some (\<lambda>path tv m. Inr (catalog_utimens path tv, m)),
      op_utime = None,
      op_open = Some (\<lambda>path fi m. Inr ((catalog_open path, fi), m)),
      op_read = Some (\<lambda>path sz off fi m. Inr ((catalog_read path sz off, []), m)),
      op_write = Some (\<lambda>path buf sz off fi m. Inr (catalog_write path buf sz off, m)),
      op_statfs = Some (\<lambda>path m. Inr (catalog_statfs path, m)),
      op_flush = None,
      op_release = Some (\<lambda>path fi m. Inr (catalog_release path, m)),
      op_fsync = Some (\<lambda>path datasync fi m. Inr (catalog_fsync path datasync, m)),
      op_setxattr = (if xattr then Some (\<lambda>path name val sz flags m. Inr (catalog_setxattr path name val sz flags, m)) else None),
      op_getxattr = (if xattr then Some (\<lambda>path name sz m. Inr ((catalog_getxattr path name sz, []), m)) else None),
      op_listxattr = (if xattr then Some (\<lambda>path sz m. Inr ((catalog_listxattr path sz, []), m)) else None),
      op_removexattr = (if xattr then Some (\<lambda>path name m. Inr (catalog_removexattr path name, m)) else None),
      op_access = Some (\<lambda>path md m. Inr (catalog_access path md, m)),
      op_create = None, op_lock = None, op_bmap = None\<rparr>"

definition catalog_ok :: "mount \<Rightarrow> bool" where
  "catalog_ok m \<longleftrightarrow> catalog_wf m \<and> (\<forall>w\<in>set (catalog_entries m). wdf_link_dest w \<noteq> None)"

lemma readlink_stores:
  assumes "catalog_ok m" "NUL \<notin> set p" "0 < sz"
  shows "\<exists>err r. catalog_readlink m umid p sz = Inr (err, r) \<and> (err = 0 \<longrightarrow> r \<noteq> None)"
proof -
  obtain a where "catalog_readlink m umid p sz = Inr a"
    using readlink_returns [of m p sz umid] assms by (auto simp: catalog_ok_def)
  then show ?thesis
    by (auto simp: catalog_readlink_def bind_res_def ENOENT_def split: sum.splits option.splits if_splits)
qed

lemmas fuse_fs_defs =
  fuse_fs_getattr_def fuse_fs_fgetattr_def fuse_fs_rename_def fuse_fs_unlink_def fuse_fs_rmdir_def fuse_fs_symlink_def
  fuse_fs_link_def fuse_fs_release_def fuse_fs_open_def fuse_fs_read_def fuse_fs_write_def fuse_fs_fsync_def
  fuse_fs_flush_def fuse_fs_statfs_def fuse_fs_create_def fuse_fs_chmod_def fuse_fs_chown_def fuse_fs_truncate_def
  fuse_fs_ftruncate_def fuse_fs_utimens_def fuse_fs_access_def fuse_fs_readlink_def fuse_fs_mknod_def
  fuse_fs_mkdir_def fuse_fs_setxattr_def fuse_fs_getxattr_def fuse_fs_listxattr_def fuse_fs_removexattr_def
  fuse_fs_bmap_def

lemma catalog_getattr_answers:
  assumes "NUL \<notin> set path"
  shows "answers catalog_ok (fuse_fs_getattr (catalog_oper xattr umid) path) (\<lambda>_. True)"
  unfolding answers_def
proof (intro allI impI)
  fix m
  assume m: "catalog_ok m"
  then obtain r st where "catalog_getattr m umid path = Inr (r, st)"
    using getattr_returns [of m path umid] assms by (auto simp: catalog_ok_def)
  with m show "\<exists>x s'. fuse_fs_getattr (catalog_oper xattr umid) path m = Inr (x, s') \<and> catalog_ok s' \<and> True"
    by (simp add: fuse_fs_getattr_def catalog_oper_def call_or_def)
qed

lemma catalog_readlink_answers:
  assumes "NUL \<notin> set path" "0 < sz"
  shows "answers catalog_ok (fuse_fs_readlink (catalog_oper xattr umid) path sz) (\<lambda>(err, r). err = 0 \<longrightarrow> r \<noteq> None)"
  unfolding answers_def
proof (intro allI impI)
  fix m
  assume m: "catalog_ok m"
  then obtain err r where "catalog_readlink m umid path sz = Inr (err, r)" "err = 0 \<longrightarrow> r \<noteq> None"
    using readlink_stores [OF _ assms, of m umid] by blast
  with m show "\<exists>x s'. fuse_fs_readlink (catalog_oper xattr umid) path sz m = Inr (x, s') \<and> catalog_ok s' \<and>
      (case x of (err, r) \<Rightarrow> err = 0 \<longrightarrow> r \<noteq> None)"
    by (simp add: fuse_fs_readlink_def catalog_oper_def call_or_def)
qed

interpretation cfs: answering_fs "catalog_oper xattr umid" catalog_ok for xattr umid
proof unfold_locales
  fix path :: string and sz :: nat
  show "NUL \<notin> set path \<Longrightarrow> answers catalog_ok (fuse_fs_getattr (catalog_oper xattr umid) path) (\<lambda>_. True)"
    by (rule catalog_getattr_answers)
  show "NUL \<notin> set path \<Longrightarrow> answers catalog_ok (fuse_fs_fgetattr (catalog_oper xattr umid) path fi) (\<lambda>_. True)" for fi
    using catalog_getattr_answers [of path xattr umid]
    by (simp add: fuse_fs_fgetattr_def fuse_fs_getattr_def catalog_oper_def call_or_def)
  show "NUL \<notin> set path \<Longrightarrow> 0 < sz \<Longrightarrow>
      answers catalog_ok (fuse_fs_readlink (catalog_oper xattr umid) path sz) (\<lambda>(err, r). err = 0 \<longrightarrow> r \<noteq> None)"
    by (rule catalog_readlink_answers)
qed (auto simp: answers_def fuse_fs_defs catalog_oper_def call_or_def fits_buf_def catalog_read_def ENOSYS_def EPERM_def
    catalog_getxattr_def catalog_listxattr_def)

section \<open>Paths of a directory tree\<close>

text \<open>What the names lead to.\<close>

fun tree_at :: "tree \<Rightarrow> string list \<Rightarrow> tree option" where
  "tree_at t [] = Some t"
| "tree_at (Branch st kids) (n # ns) = Option.bind (map_of kids n) (\<lambda>t. tree_at t ns)"
| "tree_at (Leaf st dest) (n # ns) = None"

lemma tree_at_step:
  assumes "tree_at t (n # ns) = Some u"
  obtains st kids t' where "t = Branch st kids" "(n, t') \<in> set kids" "tree_at t' ns = Some u"
  using assms by (cases t) (auto simp: bind_eq_Some_conv dest: map_of_SomeD)

lemma tree_at_take: "tree_at t ns = Some u \<Longrightarrow> \<exists>v. tree_at t (take j ns) = Some v"
proof (induction t ns arbitrary: j rule: tree_at.induct)
  case (2 st kids n ns)
  then show ?case
    by (cases j) (auto simp: bind_eq_Some_conv)
qed auto

lemma tree_at_item:
  "tree_at t ns = Some u \<Longrightarrow> ns \<noteq> [] \<Longrightarrow> (tree_stat u, r @ names_path ns, tree_dest u) \<in> set (dfs_items r t)"
proof (induction ns arbitrary: r t)
  case (Cons n ns)
  obtain st kids t' where t: "t = Branch st kids" "(n, t') \<in> set kids" "tree_at t' ns = Some u"
    by (rule tree_at_step [OF Cons.prems(1)])
  have "(tree_stat u, r @ names_path (n # ns), tree_dest u) \<in>
      set ((tree_stat t', r @ ''/'' @ n, tree_dest t') # dfs_items (r @ ''/'' @ n) t')"
    using Cons.IH [OF t(3), of "r @ ''/'' @ n"] t(3) by (cases "ns = []") auto
  then show ?case
    using t(1,2) by (auto intro!: bexI [of _ "(n, t')"])
qed simp

lemma tree_at_os: "shows_tree w d t \<Longrightarrow> tree_at t ns = Some u \<Longrightarrow> shows_tree w (d @ names_path ns) u"
proof (induction ns arbitrary: d t)
  case (Cons n ns)
  obtain st kids t' where t: "t = Branch st kids" "(n, t') \<in> set kids" "tree_at t' ns = Some u"
    by (rule tree_at_step [OF Cons.prems(2)])
  then have "shows_tree w (d @ ''/'' @ n) t'"
    using Cons.prems(1) by fastforce
  from Cons.IH [OF this t(3)] show ?case
    by simp
qed simp

lemma shows_tree_lstat: "shows_tree w d t \<Longrightarrow> os_lstat w d = Some (tree_stat t)"
  by (cases t) auto

text \<open>\<open>getattr\<close> of a path of the tree, as libfuse passes it.\<close>

lemma tree_at_getattr:
  assumes "generated w d t fname" "siblings_ordered t" "tree_at t ns = Some u" "\<forall>n\<in>set ns. NUL \<notin> set n"
  shows "fuse_fs_getattr (catalog_oper xattr umid) (path_string (names_path ns)) (mounted fname (walk t)) =
           Inr ((0, \<lparr>at_st = tree_stat u, at_ino = 0\<rparr>), mounted fname (walk t))"
proof -
  let ?p = "path_string (names_path ns)"
  note g = generated_tree [OF assms(1)]
  have "listed t ?p \<and> os_lstat w (d @ ?p) = Some (tree_stat u)"
  proof (cases "ns = []")
    case True
    obtain st kids where "t = Branch st kids"
      using g(1) by (cases t) auto
    then show ?thesis
      using True assms(3) g(3) by (auto simp: path_string_def listed_def)
  next
    case False
    then have "?p = names_path ns"
      by (cases ns) (simp_all add: path_string_def)
    then show ?thesis
      using tree_at_item [OF assms(3) False, of "[]"] shows_tree_lstat [OF tree_at_os [OF g(3) assms(3)]]
      by (auto simp: listed_def image_iff intro!: bexI)
  qed
  moreover have "NUL \<notin> set ?p"
    using assms(4) by (auto simp: path_string_def names_path_def)
  ultimately show ?thesis
    using generated_getattr [OF assms(1,2), of ?p umid] by (simp add: fuse_fs_getattr_def catalog_oper_def call_or_def)
qed

lemma tree_at_plain:
  assumes "generated w d t fname" "tree_at t ns = Some u"
  shows "\<forall>n\<in>set ns. NUL \<notin> set n"
proof (cases "ns = []")
  case False
  from tree_at_item [OF assms(2) False, of "[]"] have "(tree_stat u, names_path ns, tree_dest u) \<in> set (walk t)"
    by (simp add: set_bfs_items)
  then have "NUL \<notin> set (names_path ns)"
    using generated_tree(4) [OF assms(1)] by (fastforce simp: item_ok_def entry_ok_def plain_def)
  then show ?thesis
    by (auto simp: names_path_def split: if_splits)
qed simp

lemma tree_at_short:
  assumes "generated w d t fname" "tree_at t ns = Some u"
  shows "length (names_path ns) < FUSE_MAX_PATH"
proof (cases "ns = []")
  case False
  from tree_at_item [OF assms(2) False, of "[]"] have "(tree_stat u, names_path ns, tree_dest u) \<in> set (walk t)"
    by (simp add: set_bfs_items)
  then have "length (path_column (type_char (st_mode (tree_stat u))) (names_path ns) (tree_dest u)) < MAXPATHLEN"
    using generated_tree(4) [OF assms(1)] by (fastforce simp: item_ok_def entry_ok_def)
  then show ?thesis
    by (simp add: path_column_def MAXPATHLEN_def FUSE_MAX_PATH_def split: if_splits)
qed (simp add: FUSE_MAX_PATH_def)

section \<open>Example\<close>

definition ex_conf :: fuse_config where
  "ex_conf = \<lparr>cf_uid = 0, cf_gid = 0, cf_umask = 0, cf_entry_timeout = 1, cf_negative_timeout = 1, cf_attr_timeout = 1,
     cf_ac_attr_timeout = 1, cf_hard_remove = False, cf_use_ino = False, cf_readdir_ino = False, cf_set_mode = False, cf_set_uid = False,
     cf_set_gid = False, cf_direct_io = False, cf_kernel_cache = False, cf_auto_cache = False\<rparr>"

definition ex_memory :: mem where
  "ex_memory = \<lparr>oom = (\<lambda>_. False), ticks = 0\<rparr>"

definition ex_clock :: "nat \<Rightarrow> int option" where
  "ex_clock t = Some (int t)"

definition ex_lib :: "mount \<Rightarrow> mount lib" where
  "ex_lib m = fuse_start ex_memory ex_fresh 7 ex_conf ex_clock (catalog_oper True 0) m"

lemma ex_lib_room: "has_room 4 (ex_lib m)" "nlookups (lb_f (ex_lib m)) FUSE_ROOT_ID = 1"
proof -
  have f: "lb_f (ex_lib m) = ex_fuse"
    by (simp add: ex_lib_def fuse_start_def ex_fuse_def ex_memory_def)
  have "opens_small ex_fuse"
    by (auto simp: opens_small_def openm_def ex_fuse_def fuse_new_nodes_def new_node_def INT_MAX_def split: if_splits)
  then show "has_room 4 (ex_lib m)" "nlookups (lb_f (ex_lib m)) FUSE_ROOT_ID = 1"
    using ex_fuse_ok by (simp_all add: has_room_def f)
qed

lemma ex_mount_ok: "catalog_ok ex_mount"
proof -
  have "\<forall>w\<in>set (catalog_entries ex_mount). wdf_link_dest w \<noteq> None"
    by code_simp
  with ex_mount_wf show ?thesis
    by (simp add: catalog_ok_def)
qed

section \<open>Requests to a mounted catalogue\<close>



text \<open>C39: a lookup of a name that is not in the catalogue, interrupted while negative entries are cached, aborts
  the process: \<open>reply_entry\<close> gives the lookup of the number 0 back, which no node has.\<close>

theorem lost_negative_lookup_aborts:
  assumes "good_fresh fresh" "\<forall>t. clock t \<noteq> None" "\<forall>t. \<not> oom mem t" "cf_negative_timeout conf \<noteq> 0"
    and "NUL \<notin> set n" "length n + 1 < FUSE_MAX_PATH" "catalog_getattr m umid (slash # n) = Inr (- ENOENT, st)"
  shows "fuse_lib_lookup k True FUSE_ROOT_ID n (fuse_start mem fresh root0 conf clock (catalog_oper xattr umid) m) = Some (Inl aborted)"
proof -
  let ?p = "catalog_oper xattr umid"
  let ?l = "fuse_start mem fresh root0 conf clock ?p m"
  note known = start_knows [OF assms(1-3), of ?p m conf root0]
  have inv: "lib_inv ?p (\<lambda>x. x = m) ?l"
    using known by (simp add: knows_def)
  have miss: "fuse_fs_getattr ?p (slash # n) m = Inr ((- ENOENT, \<lparr>at_st = st, at_ino = 0\<rparr>), m)"
    using assms(7) by (simp add: fuse_fs_getattr_def catalog_oper_def call_or_def)
  let ?first = "with_path FUSE_ROOT_ID (Some n) (- ENOENT, no_entry) (\<lambda>path.
       bind_lib (Fuse_Lib.lookup_path k FUSE_ROOT_ID n path None) (\<lambda>(err, e).
       bind_lib get_conf (\<lambda>c.
         if err = - ENOENT \<and> cf_negative_timeout c \<noteq> 0
         then ret_lib (0, e\<lparr>ep_ino := 0, ep_entry_timeout := cf_negative_timeout c\<rparr>)
         else ret_lib (err, e))))"
  have "wp ?first ?l (\<lambda>r l1. (\<exists>e. r = (0, e) \<and> ep_ino e = 0) \<and> quiet (\<lambda>x. x = m) ?l l1)"
  proof (rule wp_path_known [OF known])
    fix l1
    assume l1: "knows ?p m conf 1 FUSE_ROOT_ID [] l1" "quiet (\<lambda>x. x = m) ?l l1"
    have "lb_op l1 = ?p" "lb_fs l1 = m" "lb_conf l1 = conf"
      using l1(1) by (simp_all add: knows_def lib_inv_def)
    then show "wp (bind_lib (Fuse_Lib.lookup_path k FUSE_ROOT_ID n (path_string ([] @ suffix_of (Some n))) None) (\<lambda>(err, e).
        bind_lib get_conf (\<lambda>c. if err = - ENOENT \<and> cf_negative_timeout c \<noteq> 0
         then ret_lib (0, e\<lparr>ep_ino := 0, ep_entry_timeout := cf_negative_timeout c\<rparr>)
         else ret_lib (err, e)))) l1 (\<lambda>r l1. (\<exists>e. r = (0, e) \<and> ep_ino e = 0) \<and> quiet (\<lambda>x. x = m) ?l l1)"
      using l1(2) miss assms(4)
      by (simp add: wp_def bind_lib_def lookup_path_def on_fs_def path_string_def suffix_of_def Let_def ret_lib_def get_conf_def ENOENT_def)
  qed (use assms(6) in \<open>simp add: suffix_of_def\<close>)
  then obtain e l1 where first: "?first ?l = Some (Inr ((0, e), l1))" "ep_ino e = 0" "quiet (\<lambda>x. x = m) ?l l1"
    by (auto simp: wp_def)
  have ok: "nodes_ok (lb_f l1)" "idm (lb_f l1) = idm (lb_f ?l)"
    using quiet_inv [OF inv first(3)] by (simp_all add: lib_inv_def)
  then have "get_node_nocheck (lb_f l1) 0 = Inr None"
    by (intro get_node_nocheck_missing [OF nodes_okD [OF ok(1)]])
      (auto simp: ran_def idm_def fuse_start_def fuse_new_nodes_def new_node_def FUSE_ROOT_ID_def split: if_splits)
  then have "reply_entry True (0, e) l1 = Some (Inl aborted)"
    by (simp add: reply_entry_def bind_lib_def forget_lib_def on_nodes_def forget_node_def get_node_def first(2) FUSE_ROOT_ID_def)
  then show ?thesis
    unfolding fuse_lib_lookup_def using first(1) by (simp add: bind_lib_def)
qed

theorem lost_negative_lookup_aborts_witness: "fuse_lib_lookup 4 True FUSE_ROOT_ID ''x'' (ex_lib ex_mount) = Some (Inl aborted)"
proof -
  have "catalog_getattr ex_mount 0 (slash # ''x'') = Inr (- ENOENT, stat_zero)"
    by code_simp
  then show ?thesis
    unfolding ex_lib_def
    by (intro lost_negative_lookup_aborts [OF good_ex_fresh])
      (simp_all add: ex_clock_def ex_memory_def ex_conf_def FUSE_MAX_PATH_def)
qed

end
