(* ===== verification/Subdir.thy ===== *)
theory Subdir
  imports Fuse_Dir
begin

text \<open>
  The module \<open>subdir\<close> of libfuse (\<open>other_fs/fuse-2.7.3/lib/modules/subdir.c\<close>): a file system that puts a base
  directory in front of every path, calls the next file system, and can turn absolute links into relative ones.
  The state is the memory allocator and the state of the next file system.
\<close>

section \<open>Paths\<close>

text \<open>\<open>struct subdir\<close>, without the next file system.\<close>

record subdir =
  sd_base :: string
  sd_baselen :: nat
  sd_rellinks :: int

text \<open>The new path with the size of its allocation, whose length is a 32-bit number.\<close>

definition subdir_addpath :: "subdir \<Rightarrow> string \<Rightarrow> mem \<Rightarrow> ((string \<times> nat) option \<times> mem) res" where
  "subdir_addpath d path m =
     (let newlen = (sd_baselen d + length path) mod 2 ^ 32; sz = (newlen + 2) mod 2 ^ 32; (ok, m1) = alloc m in
      if \<not> ok then Inr (None, m1)
      else let path1 = (case path of c # cs \<Rightarrow> if c = slash then cs else path | [] \<Rightarrow> []); newpath = sd_base d @ path1 in
        if sz < length newpath + 1 \<or> newpath = [] \<and> sz < 2 then Inl Undefined
        else Inr (Some (if newpath = [] then ''.'' else newpath, sz), m1))"

text \<open>What every operation does: it builds the path, or fails with \<open>ENOMEM\<close>.\<close>

definition with_newpath :: "subdir \<Rightarrow> string \<Rightarrow> 'a \<Rightarrow> (string \<Rightarrow> nat \<Rightarrow> 's \<Rightarrow> ('a \<times> 's) res) \<Rightarrow> mem \<times> 's \<Rightarrow> ('a \<times> mem \<times> 's) res" where
  "with_newpath d path fail g = (\<lambda>(m, s).
     bind_res (subdir_addpath d path m) (\<lambda>(r, m1). case r of
       None \<Rightarrow> Inr (fail, m1, s)
     | Some (newpath, sz) \<Rightarrow> bind_res (g newpath sz s) (\<lambda>(x, s1). Inr (x, m1, s1))))"

text \<open>Two paths are built, and the call is made when both are there.\<close>

definition with_newpaths :: "subdir \<Rightarrow> string \<Rightarrow> string \<Rightarrow> (string \<Rightarrow> string \<Rightarrow> 's \<Rightarrow> (int \<times> 's) res) \<Rightarrow> mem \<times> 's \<Rightarrow> (int \<times> mem \<times> 's) res" where
  "with_newpaths d from to g = (\<lambda>(m, s).
     bind_res (subdir_addpath d from m) (\<lambda>(r1, m1).
     bind_res (subdir_addpath d to m1) (\<lambda>(r2, m2). case (r1, r2) of
       (Some (newfrom, _), Some (newto, _)) \<Rightarrow> bind_res (g newfrom newto s) (\<lambda>(x, s1). Inr (x, m2, s1))
     | _ \<Rightarrow> Inr (- ENOMEM, m2, s))))"

text \<open>\<open>flush\<close> and \<open>lock\<close> may be called without a path, of which \<open>subdir_addpath\<close> would take the length.\<close>

definition with_newpath_null ::
  "subdir \<Rightarrow> string option \<Rightarrow> 'a \<Rightarrow> (string \<Rightarrow> nat \<Rightarrow> 's \<Rightarrow> ('a \<times> 's) res) \<Rightarrow> mem \<times> 's \<Rightarrow> ('a \<times> mem \<times> 's) res" where
  "with_newpath_null d path fail g ms = (case path of None \<Rightarrow> Inl Undefined | Some p \<Rightarrow> with_newpath d p fail g ms)"

section \<open>Links\<close>

text \<open>The second loop of \<open>count_components\<close>.\<close>

definition skip_slashes :: "string \<Rightarrow> string" where
  "skip_slashes p = dropWhile (\<lambda>c. c = slash) p"

definition skip_name :: "string \<Rightarrow> string" where
  "skip_name p = dropWhile (\<lambda>c. c \<noteq> slash) p"

lemma skip_le: "length (skip_slashes p) \<le> length p" "length (skip_name p) \<le> length p"
  by (simp_all add: skip_slashes_def skip_name_def length_dropWhile_le)

lemma skip_less: "p \<noteq> [] \<Longrightarrow> length (skip_slashes (skip_name p)) < length p"
proof (cases p)
  case (Cons c cs)
  show ?thesis
  proof (cases "c = slash")
    case True
    then have "skip_slashes (skip_name p) = skip_slashes cs"
      by (simp add: Cons skip_slashes_def skip_name_def)
    then show ?thesis
      using skip_le(1) [of cs] by (simp add: Cons)
  next
    case False
    then have "skip_name p = skip_name cs"
      by (simp add: Cons skip_name_def)
    then show ?thesis
      using skip_le(1) [of "skip_name cs"] skip_le(2) [of cs] by (simp add: Cons)
  qed
qed simp

function count_loop :: "string \<Rightarrow> nat" where
  "count_loop p = (if p = [] then 0 else Suc (count_loop (skip_slashes (skip_name p))))"
  by pat_completeness auto
termination
  by (relation "measure length") (simp_all add: skip_less)

declare count_loop.simps [simp del]

definition count_components :: "string \<Rightarrow> nat" where
  "count_components p = count_loop (skip_slashes p)"

text \<open>The inner loop of \<open>strip_common\<close>, and the condition of the outer one.\<close>

fun skip_equal :: "string \<Rightarrow> string \<Rightarrow> string \<times> string" where
  "skip_equal (a # as) (b # bs) = (if a = b \<and> a \<noteq> slash then skip_equal as bs else (a # as, b # bs))"
| "skip_equal s t = (s, t)"

definition more_common :: "string \<Rightarrow> string \<Rightarrow> bool" where
  "more_common s t \<longleftrightarrow>
     s \<noteq> [] \<and> t \<noteq> [] \<and> hd s = hd t \<or> s = [] \<and> t \<noteq> [] \<and> hd t = slash \<or> s \<noteq> [] \<and> hd s = slash \<and> t = []"

lemma skip_equal_prefix: "\<exists>c. s = c @ fst (skip_equal s t) \<and> t = c @ snd (skip_equal s t) \<and> slash \<notin> set c"
proof (induction s t rule: skip_equal.induct)
  case (1 a as b bs)
  show ?case
  proof (cases "a = b \<and> a \<noteq> slash")
    case True
    with 1 obtain c where "as = c @ fst (skip_equal as bs)" "bs = c @ snd (skip_equal as bs)" "slash \<notin> set c"
      by blast
    with True show ?thesis
      by (intro exI [of _ "a # c"]) auto
  qed auto
qed simp_all

lemma skip_equal_stops:
  "skip_equal s t = (a # as, a # bs) \<Longrightarrow> a = slash"
  by (induction s t rule: skip_equal.induct) (auto split: if_splits)

lemma skip_slashes_hd: "skip_slashes p \<noteq> [] \<Longrightarrow> hd (skip_slashes p) \<noteq> slash"
  unfolding skip_slashes_def by (rule hd_dropWhile)

text \<open>With more in common, the part that was skipped is a whole name.\<close>

lemma more_common_name:
  assumes "more_common (fst (skip_equal s t)) (snd (skip_equal s t))" "s = skip_slashes s'" "t = skip_slashes t'"
  obtains c where "c \<noteq> []" "slash \<notin> set c" "s = c @ fst (skip_equal s t)" "t = c @ snd (skip_equal s t)"
    "fst (skip_equal s t) = [] \<or> hd (fst (skip_equal s t)) = slash" "snd (skip_equal s t) = [] \<or> hd (snd (skip_equal s t)) = slash"
proof -
  obtain c where c: "s = c @ fst (skip_equal s t)" "t = c @ snd (skip_equal s t)" "slash \<notin> set c"
    using skip_equal_prefix by blast
  obtain x y where xy: "skip_equal s t = (x, y)"
    by (cases "skip_equal s t")
  have ends: "fst (skip_equal s t) = [] \<or> hd (fst (skip_equal s t)) = slash" "snd (skip_equal s t) = [] \<or> hd (snd (skip_equal s t)) = slash"
    using assms(1) skip_equal_stops [of s t] by (cases x; cases y; simp add: more_common_def xy)+
  have "c \<noteq> []"
  proof
    assume "c = []"
    then have "fst (skip_equal s t) = s" "snd (skip_equal s t) = t"
      using c by simp_all
    with ends have "s = [] \<or> hd s = slash" "t = [] \<or> hd t = slash" "more_common s t"
      using assms(1) by simp_all
    then show False
      using assms(2,3) skip_slashes_hd [of s'] skip_slashes_hd [of t'] by (auto simp: more_common_def)
  qed
  with c ends that show thesis
    by blast
qed

function strip_common :: "string \<Rightarrow> string \<Rightarrow> string \<times> string" where
  "strip_common s t =
     (let s1 = skip_slashes s; t1 = skip_slashes t; r = skip_equal s1 t1 in
      if more_common (fst r) (snd r) then strip_common (fst r) (snd r) else (s1, t1))"
  by pat_completeness auto
termination
proof (relation "measure (\<lambda>(s, t). length s + length t)")
  fix s t s1 t1 r
  assume r: "s1 = skip_slashes s" "t1 = skip_slashes t" "r = skip_equal s1 t1" "more_common (fst r) (snd r)"
  obtain c where c: "c \<noteq> []" "s1 = c @ fst r" "t1 = c @ snd r"
    using more_common_name [of s1 t1 s t] r by blast
  then have "length (fst r) < length s1" "length (snd r) < length t1"
    by (metis length_append length_greater_0_conv less_add_same_cancel2)+
  then show "((fst r, snd r), s, t) \<in> measure (\<lambda>(s, t). length s + length t)"
    using skip_le(1) [of s] skip_le(1) [of t] r(1,2) by (simp add: split_beta)
qed simp

declare strip_common.simps [simp del]

text \<open>
  The bytes of the buffer afterwards. A destination without NUL is taken to be undefined, since the next file
  system has left the last byte of the buffer unwritten.
\<close>

definition transform_symlink :: "subdir \<Rightarrow> string \<Rightarrow> string \<Rightarrow> nat \<Rightarrow> string res" where
  "transform_symlink d path buf sz =
     (if buf = [] then Inl Undefined
      else if hd buf \<noteq> slash \<or> sd_base d = [] \<or> hd (sd_base d) \<noteq> slash then Inr buf
      else if NUL \<notin> set buf then Inl Undefined
      else let (l, path1) = strip_common (cstr buf) path in
        if length (cstr buf) - length l < sd_baselen d then Inr buf
        else if count_components path1 = 0 then Inr buf
        else let dotdots = count_components path1 - 1; llen = length l in
          if dotdots * 3 + llen + 2 > sz then Inr buf
          else let new = concat (replicate dotdots ''../'') @ (if llen \<noteq> 0 then l else if dotdots = 0 then ''.'' else []) in
            Inr (new @ [NUL] @ drop (length new + 1) buf))"

section \<open>Operations\<close>

text \<open>Every operation calls the next file system \<open>p\<close> with the new path.\<close>

definition subdir_getattr :: "subdir \<Rightarrow> 's fuse_operations \<Rightarrow> string \<Rightarrow> mem \<times> 's \<Rightarrow> ((int \<times> fattr) \<times> mem \<times> 's) res" where
  "subdir_getattr d p path = with_newpath d path ((- ENOMEM, no_attr)) (\<lambda>newpath sz0. fuse_fs_getattr p newpath)"

definition subdir_fgetattr :: "subdir \<Rightarrow> 's fuse_operations \<Rightarrow> string \<Rightarrow> fuse_file_info \<Rightarrow> mem \<times> 's \<Rightarrow> ((int \<times> fattr) \<times> mem \<times> 's) res" where
  "subdir_fgetattr d p path fi = with_newpath d path ((- ENOMEM, no_attr)) (\<lambda>newpath sz0. fuse_fs_fgetattr p newpath fi)"

definition subdir_access :: "subdir \<Rightarrow> 's fuse_operations \<Rightarrow> string \<Rightarrow> int \<Rightarrow> mem \<times> 's \<Rightarrow> (int \<times> mem \<times> 's) res" where
  "subdir_access d p path msk = with_newpath d path (- ENOMEM) (\<lambda>newpath sz0. fuse_fs_access p newpath msk)"

definition subdir_mknod :: "subdir \<Rightarrow> 's fuse_operations \<Rightarrow> string \<Rightarrow> mode_t \<Rightarrow> dev_t \<Rightarrow> mem \<times> 's \<Rightarrow> (int \<times> mem \<times> 's) res" where
  "subdir_mknod d p path mode rdev = with_newpath d path (- ENOMEM) (\<lambda>newpath sz0. fuse_fs_mknod p newpath mode rdev)"

definition subdir_mkdir :: "subdir \<Rightarrow> 's fuse_operations \<Rightarrow> string \<Rightarrow> mode_t \<Rightarrow> mem \<times> 's \<Rightarrow> (int \<times> mem \<times> 's) res" where
  "subdir_mkdir d p path mode = with_newpath d path (- ENOMEM) (\<lambda>newpath sz0. fuse_fs_mkdir p newpath mode)"

definition subdir_unlink :: "subdir \<Rightarrow> 's fuse_operations \<Rightarrow> string \<Rightarrow> mem \<times> 's \<Rightarrow> (int \<times> mem \<times> 's) res" where
  "subdir_unlink d p path = with_newpath d path (- ENOMEM) (\<lambda>newpath sz0. fuse_fs_unlink p newpath)"

definition subdir_rmdir :: "subdir \<Rightarrow> 's fuse_operations \<Rightarrow> string \<Rightarrow> mem \<times> 's \<Rightarrow> (int \<times> mem \<times> 's) res" where
  "subdir_rmdir d p path = with_newpath d path (- ENOMEM) (\<lambda>newpath sz0. fuse_fs_rmdir p newpath)"

definition subdir_chmod :: "subdir \<Rightarrow> 's fuse_operations \<Rightarrow> string \<Rightarrow> mode_t \<Rightarrow> mem \<times> 's \<Rightarrow> (int \<times> mem \<times> 's) res" where
  "subdir_chmod d p path mode = with_newpath d path (- ENOMEM) (\<lambda>newpath sz0. fuse_fs_chmod p newpath mode)"

definition subdir_chown :: "subdir \<Rightarrow> 's fuse_operations \<Rightarrow> string \<Rightarrow> 32 word \<Rightarrow> 32 word \<Rightarrow> mem \<times> 's \<Rightarrow> (int \<times> mem \<times> 's) res" where
  "subdir_chown d p path uid gid = with_newpath d path (- ENOMEM) (\<lambda>newpath sz0. fuse_fs_chown p newpath uid gid)"

definition subdir_truncate :: "subdir \<Rightarrow> 's fuse_operations \<Rightarrow> string \<Rightarrow> off_t \<Rightarrow> mem \<times> 's \<Rightarrow> (int \<times> mem \<times> 's) res" where
  "subdir_truncate d p path sz = with_newpath d path (- ENOMEM) (\<lambda>newpath sz0. fuse_fs_truncate p newpath sz)"

definition subdir_ftruncate :: "subdir \<Rightarrow> 's fuse_operations \<Rightarrow> string \<Rightarrow> off_t \<Rightarrow> fuse_file_info \<Rightarrow> mem \<times> 's \<Rightarrow> (int \<times> mem \<times> 's) res" where
  "subdir_ftruncate d p path sz fi = with_newpath d path (- ENOMEM) (\<lambda>newpath sz0. fuse_fs_ftruncate p newpath sz fi)"

definition subdir_utimens :: "subdir \<Rightarrow> 's fuse_operations \<Rightarrow> string \<Rightarrow> 64 word \<times> 64 word \<Rightarrow> mem \<times> 's \<Rightarrow> (int \<times> mem \<times> 's) res" where
  "subdir_utimens d p path ts = with_newpath d path (- ENOMEM) (\<lambda>newpath sz0. fuse_fs_utimens p newpath ts)"

definition subdir_create :: "subdir \<Rightarrow> 's fuse_operations \<Rightarrow> string \<Rightarrow> mode_t \<Rightarrow> fuse_file_info \<Rightarrow> mem \<times> 's \<Rightarrow> ((int \<times> fuse_file_info) \<times> mem \<times> 's) res" where
  "subdir_create d p path mode fi = with_newpath d path ((- ENOMEM, fi)) (\<lambda>newpath sz0. fuse_fs_create p newpath mode fi)"

definition subdir_open :: "subdir \<Rightarrow> 's fuse_operations \<Rightarrow> string \<Rightarrow> fuse_file_info \<Rightarrow> mem \<times> 's \<Rightarrow> ((int \<times> fuse_file_info) \<times> mem \<times> 's) res" where
  "subdir_open d p path fi = with_newpath d path ((- ENOMEM, fi)) (\<lambda>newpath sz0. fuse_fs_open p newpath fi)"

definition subdir_read :: "subdir \<Rightarrow> 's fuse_operations \<Rightarrow> string \<Rightarrow> nat \<Rightarrow> off_t \<Rightarrow> fuse_file_info \<Rightarrow> mem \<times> 's \<Rightarrow> ((int \<times> string) \<times> mem \<times> 's) res" where
  "subdir_read d p path sz off fi = with_newpath d path ((- ENOMEM, [])) (\<lambda>newpath sz0. fuse_fs_read p newpath sz off fi)"

definition subdir_write :: "subdir \<Rightarrow> 's fuse_operations \<Rightarrow> string \<Rightarrow> string \<Rightarrow> nat \<Rightarrow> off_t \<Rightarrow> fuse_file_info \<Rightarrow> mem \<times> 's \<Rightarrow> (int \<times> mem \<times> 's) res" where
  "subdir_write d p path buf sz off fi = with_newpath d path (- ENOMEM) (\<lambda>newpath sz0. fuse_fs_write p newpath buf sz off fi)"

definition subdir_statfs :: "subdir \<Rightarrow> 's fuse_operations \<Rightarrow> string \<Rightarrow> mem \<times> 's \<Rightarrow> ((int \<times> statvfs) \<times> mem \<times> 's) res" where
  "subdir_statfs d p path = with_newpath d path ((- ENOMEM, statvfs_zero)) (\<lambda>newpath sz0. fuse_fs_statfs p newpath)"

definition subdir_release :: "subdir \<Rightarrow> 's fuse_operations \<Rightarrow> string \<Rightarrow> fuse_file_info \<Rightarrow> mem \<times> 's \<Rightarrow> (int \<times> mem \<times> 's) res" where
  "subdir_release d p path fi = with_newpath d path (- ENOMEM) (\<lambda>newpath sz0. fuse_fs_release p newpath fi)"

definition subdir_fsync :: "subdir \<Rightarrow> 's fuse_operations \<Rightarrow> string \<Rightarrow> int \<Rightarrow> fuse_file_info \<Rightarrow> mem \<times> 's \<Rightarrow> (int \<times> mem \<times> 's) res" where
  "subdir_fsync d p path datasync fi = with_newpath d path (- ENOMEM) (\<lambda>newpath sz0. fuse_fs_fsync p newpath datasync fi)"

definition subdir_setxattr :: "subdir \<Rightarrow> 's fuse_operations \<Rightarrow> string \<Rightarrow> string \<Rightarrow> string \<Rightarrow> nat \<Rightarrow> int \<Rightarrow> mem \<times> 's \<Rightarrow> (int \<times> mem \<times> 's) res" where
  "subdir_setxattr d p path name val sz flags = with_newpath d path (- ENOMEM) (\<lambda>newpath sz0. fuse_fs_setxattr p newpath name val sz flags)"

definition subdir_getxattr :: "subdir \<Rightarrow> 's fuse_operations \<Rightarrow> string \<Rightarrow> string \<Rightarrow> nat \<Rightarrow> mem \<times> 's \<Rightarrow> ((int \<times> string) \<times> mem \<times> 's) res" where
  "subdir_getxattr d p path name sz = with_newpath d path ((- ENOMEM, [])) (\<lambda>newpath sz0. fuse_fs_getxattr p newpath name sz)"

definition subdir_listxattr :: "subdir \<Rightarrow> 's fuse_operations \<Rightarrow> string \<Rightarrow> nat \<Rightarrow> mem \<times> 's \<Rightarrow> ((int \<times> string) \<times> mem \<times> 's) res" where
  "subdir_listxattr d p path sz = with_newpath d path ((- ENOMEM, [])) (\<lambda>newpath sz0. fuse_fs_listxattr p newpath sz)"

definition subdir_removexattr :: "subdir \<Rightarrow> 's fuse_operations \<Rightarrow> string \<Rightarrow> string \<Rightarrow> mem \<times> 's \<Rightarrow> (int \<times> mem \<times> 's) res" where
  "subdir_removexattr d p path name = with_newpath d path (- ENOMEM) (\<lambda>newpath sz0. fuse_fs_removexattr p newpath name)"

definition subdir_bmap :: "subdir \<Rightarrow> 's fuse_operations \<Rightarrow> string \<Rightarrow> nat \<Rightarrow> nat \<Rightarrow> mem \<times> 's \<Rightarrow> ((int \<times> nat) \<times> mem \<times> 's) res" where
  "subdir_bmap d p path sz idx = with_newpath d path ((- ENOMEM, idx)) (\<lambda>newpath sz0. fuse_fs_bmap p newpath sz idx)"

definition subdir_symlink :: "subdir \<Rightarrow> 's fuse_operations \<Rightarrow> string \<Rightarrow> string \<Rightarrow> mem \<times> 's \<Rightarrow> (int \<times> mem \<times> 's) res" where
  "subdir_symlink d p from path = with_newpath d path (- ENOMEM) (\<lambda>newpath sz0. fuse_fs_symlink p from newpath)"

definition subdir_rename :: "subdir \<Rightarrow> 's fuse_operations \<Rightarrow> string \<Rightarrow> string \<Rightarrow> mem \<times> 's \<Rightarrow> (int \<times> mem \<times> 's) res" where
  "subdir_rename d p from to = with_newpaths d from to (fuse_fs_rename p)"

definition subdir_link :: "subdir \<Rightarrow> 's fuse_operations \<Rightarrow> string \<Rightarrow> string \<Rightarrow> mem \<times> 's \<Rightarrow> (int \<times> mem \<times> 's) res" where
  "subdir_link d p from to = with_newpaths d from to (fuse_fs_link p)"

definition subdir_flush :: "subdir \<Rightarrow> 's fuse_operations \<Rightarrow> string option \<Rightarrow> fuse_file_info \<Rightarrow> mem \<times> 's \<Rightarrow> (int \<times> mem \<times> 's) res" where
  "subdir_flush d p path fi = with_newpath_null d path (- ENOMEM) (\<lambda>newpath sz0. fuse_fs_flush p (Some newpath) fi)"

definition subdir_lock ::
  "subdir \<Rightarrow> 's fuse_operations \<Rightarrow> string option \<Rightarrow> fuse_file_info \<Rightarrow> int \<Rightarrow> flock \<Rightarrow> mem \<times> 's \<Rightarrow> ((int \<times> flock) \<times> mem \<times> 's) res" where
  "subdir_lock d p path fi cmd fl =
     with_newpath_null d path (- ENOMEM, fl) (\<lambda>newpath sz0. fuse_fs_lock p (Some newpath) fi cmd fl)"

definition subdir_readlink :: "subdir \<Rightarrow> 's fuse_operations \<Rightarrow> string \<Rightarrow> nat \<Rightarrow> mem \<times> 's \<Rightarrow> ((int \<times> string option) \<times> mem \<times> 's) res" where
  "subdir_readlink d p path sz = with_newpath d path (- ENOMEM, None) (\<lambda>newpath sz0 s.
     bind_res (fuse_fs_readlink p newpath sz s) (\<lambda>((err, r), s1).
       if err = 0 \<and> sd_rellinks d \<noteq> 0
       then (case r of
               None \<Rightarrow> Inl Undefined
             | Some buf \<Rightarrow> bind_res (transform_symlink d newpath buf sz) (\<lambda>buf1. Inr ((err, Some buf1), s1)))
       else Inr ((err, r), s1)))"

definition subdir_opendir :: "subdir \<Rightarrow> ('s, 'b) dir_operations \<Rightarrow> string \<Rightarrow> fuse_file_info \<Rightarrow> mem \<times> 's \<Rightarrow> ((int \<times> fuse_file_info) \<times> mem \<times> 's) res" where
  "subdir_opendir d q path fi = with_newpath d path (- ENOMEM, fi) (\<lambda>newpath sz0. fuse_fs_opendir q newpath fi)"

definition subdir_readdir ::
  "subdir \<Rightarrow> ('s, 'b) dir_operations \<Rightarrow> string \<Rightarrow> 'b \<Rightarrow> 'b dir_filler \<Rightarrow> off_t \<Rightarrow> fuse_file_info \<Rightarrow> mem \<times> 's \<Rightarrow> ((int \<times> 'b) \<times> mem \<times> 's) res" where
  "subdir_readdir d q path buf filler off fi =
     with_newpath d path (- ENOMEM, buf) (\<lambda>newpath sz0. fuse_fs_readdir q newpath sz0 buf filler off fi)"

definition subdir_releasedir :: "subdir \<Rightarrow> ('s, 'b) dir_operations \<Rightarrow> string \<Rightarrow> fuse_file_info \<Rightarrow> mem \<times> 's \<Rightarrow> (int \<times> mem \<times> 's) res" where
  "subdir_releasedir d q path fi = with_newpath d path (- ENOMEM) (\<lambda>newpath sz0. fuse_fs_releasedir q newpath fi)"

definition subdir_fsyncdir :: "subdir \<Rightarrow> ('s, 'b) dir_operations \<Rightarrow> string \<Rightarrow> int \<Rightarrow> fuse_file_info \<Rightarrow> mem \<times> 's \<Rightarrow> (int \<times> mem \<times> 's) res" where
  "subdir_fsyncdir d q path datasync fi = with_newpath d path (- ENOMEM) (\<lambda>newpath sz0. fuse_fs_fsyncdir q newpath datasync fi)"

text \<open>The table of operations; those on directories are a table of their own.\<close>

definition subdir_oper :: "subdir \<Rightarrow> 's fuse_operations \<Rightarrow> (mem \<times> 's) fuse_operations" where
  "subdir_oper d p =
     \<lparr>op_getattr = Some (subdir_getattr d p),
      op_fgetattr = Some (subdir_fgetattr d p),
      op_readlink = Some (subdir_readlink d p),
      op_mknod = Some (subdir_mknod d p),
      op_mkdir = Some (subdir_mkdir d p),
      op_unlink = Some (subdir_unlink d p),
      op_rmdir = Some (subdir_rmdir d p),
      op_symlink = Some (subdir_symlink d p),
      op_rename = Some (subdir_rename d p),
      op_link = Some (subdir_link d p),
      op_chmod = Some (subdir_chmod d p),
      op_chown = Some (subdir_chown d p),
      op_truncate = Some (subdir_truncate d p),
      op_ftruncate = Some (subdir_ftruncate d p),
      op_utimens = Some (subdir_utimens d p),
      op_utime = None,
      op_open = Some (subdir_open d p),
      op_read = Some (subdir_read d p),
      op_write = Some (subdir_write d p),
      op_statfs = Some (subdir_statfs d p),
      op_flush = Some (subdir_flush d p),
      op_release = Some (subdir_release d p),
      op_fsync = Some (subdir_fsync d p),
      op_setxattr = Some (subdir_setxattr d p),
      op_getxattr = Some (subdir_getxattr d p),
      op_listxattr = Some (subdir_listxattr d p),
      op_removexattr = Some (subdir_removexattr d p),
      op_access = Some (subdir_access d p),
      op_create = Some (subdir_create d p),
      op_lock = Some (subdir_lock d p),
      op_bmap = Some (subdir_bmap d p)\<rparr>"

definition subdir_dir_oper :: "subdir \<Rightarrow> ('s, 'b) dir_operations \<Rightarrow> (mem \<times> 's, 'b) dir_operations" where
  "subdir_dir_oper d q =
     \<lparr>op_opendir = Some (subdir_opendir d q),
      op_readdir = Some (\<lambda>path cap. subdir_readdir d q path),
      op_getdir = None,
      op_releasedir = Some (subdir_releasedir d q),
      op_fsyncdir = Some (subdir_fsyncdir d q)\<rparr>"

section \<open>Options\<close>

text \<open>The variables of \<open>struct subdir\<close> by their offsets.\<close>

definition off_base :: nat where "off_base = 0"
definition off_rellinks :: nat where "off_rellinks = 16"

definition subdir_opts :: "fuse_opt list" where
  "subdir_opts =
     [\<lparr>templ = ''-h'', opt_offset = None, opt_value = 0\<rparr>,
      \<lparr>templ = ''--help'', opt_offset = None, opt_value = 0\<rparr>,
      \<lparr>templ = ''subdir=%s'', opt_offset = Some off_base, opt_value = 0\<rparr>,
      \<lparr>templ = ''rellinks'', opt_offset = Some off_rellinks, opt_value = 1\<rparr>,
      \<lparr>templ = ''norellinks'', opt_offset = Some off_rellinks, opt_value = 0\<rparr>]"

definition subdir_opt_proc :: opt_proc where
  "subdir_opt_proc data arg key outargs = (if key = 0 then (-1, data, outargs) else (1, data, outargs))"

text \<open>The part of \<open>subdir_new\<close> behind the options, with \<open>nnext\<close> as the number of the next file systems and \<open>m\<close> as
  the allocator: the new \<open>struct subdir\<close>, or \<open>None\<close> for \<open>NULL\<close>.\<close>

definition subdir_finish :: "odata \<Rightarrow> nat \<Rightarrow> mem \<Rightarrow> subdir option" where
  "subdir_finish data nnext m =
     (if nnext \<noteq> 1 then None
      else case data off_base of
        Some (OStr base) \<Rightarrow>
          let rell = (case data off_rellinks of Some (OInt x) \<Rightarrow> x | _ \<Rightarrow> 0);
              add = (base \<noteq> [] \<and> last base \<noteq> slash);
              (ok1, m1) = (if add then alloc m else (True, m));
              base1 = (if add then base @ ''/'' else base);
              (ok2, m2) = alloc m1 in
          if \<not> ok1 \<or> \<not> ok2 then None
          else Some \<lparr>sd_base = base1, sd_baselen = length base1, sd_rellinks = rell\<rparr>
      | _ \<Rightarrow> None)"

text \<open>\<open>subdir_new\<close>: \<open>m\<close> is the allocator of \<open>fuse_opt_parse\<close>, \<open>m1\<close> that of the other allocations. The memory that
  \<open>calloc\<close> clears has neither a base nor \<open>rellinks\<close>.\<close>

definition subdir_new ::
  "nat \<Rightarrow> (string \<Rightarrow> string \<Rightarrow> oval option) \<Rightarrow> mem \<Rightarrow> mem \<Rightarrow> fuse_args \<Rightarrow> nat \<Rightarrow> subdir option res option" where
  "subdir_new n scan m m1 args nnext =
     (let (ok, m2) = alloc m1 in
      if \<not> ok then Some (Inr None)
      else map_option (\<lambda>res. bind_res res (\<lambda>(r, data, args1). Inr (if r = -1 then None else subdir_finish data nnext m2)))
        (fuse_opt_parse n scan m args Map.empty subdir_opts (Some subdir_opt_proc)))"

section \<open>Components\<close>

text \<open>The names of a path.\<close>

function components :: "string \<Rightarrow> string list" where
  "components p =
     (let q = skip_slashes p in
      if q = [] then [] else takeWhile (\<lambda>c. c \<noteq> slash) q # components (skip_name q))"
  by pat_completeness auto
termination
proof (relation "measure length")
  fix p q
  assume q: "q = skip_slashes p" "q \<noteq> []"
  then obtain c cs where c: "q = c # cs" "c \<noteq> slash"
    using skip_slashes_hd [of p] by (metis list.collapse)
  then have "skip_name q = skip_name cs"
    by (simp add: skip_name_def)
  then have "length (skip_name q) < length q"
    using skip_le(2) [of cs] c(1) by simp
  then show "(skip_name q, p) \<in> measure length"
    using skip_le(1) [of p] q(1) by simp
qed simp

declare components.simps [simp del]

lemma components_Nil [simp]: "components [] = []"
  by (simp add: components.simps skip_slashes_def)

lemma components_slash [simp]: "components (slash # p) = components p"
  by (simp add: components.simps [of "slash # p"] components.simps [of p] skip_slashes_def)

lemma skip_slashes_idem [simp]: "skip_slashes (skip_slashes p) = skip_slashes p"
  by (simp add: skip_slashes_def dropWhile_idem)

lemma components_skip [simp]: "components (skip_slashes p) = components p"
  by (simp add: components.simps [of "skip_slashes p"] components.simps [of p])

lemma components_name:
  assumes "c \<noteq> []" "slash \<notin> set c" "p = [] \<or> hd p = slash"
  shows "components (c @ p) = c # components p"
proof -
  have skip: "skip_slashes (c @ p) = c @ p"
    using assms(1,2) by (cases c) (auto simp: skip_slashes_def)
  have no: "x \<noteq> slash" if "x \<in> set c" for x
    using assms(2) that by blast
  have "takeWhile (\<lambda>x. x \<noteq> slash) p = []" "dropWhile (\<lambda>x. x \<noteq> slash) p = p"
    using assms(3) by (cases p; simp)+
  then have "takeWhile (\<lambda>x. x \<noteq> slash) (c @ p) = c" "skip_name (c @ p) = p"
    using takeWhile_append2 [of c "\<lambda>x. x \<noteq> slash" p, OF no] dropWhile_append2 [of c "\<lambda>x. x \<noteq> slash" p, OF no]
    by (simp_all add: skip_name_def)
  with skip show ?thesis
    using assms(1) by (simp add: components.simps [of "c @ p"])
qed

lemma count_loop_components: "count_loop (skip_slashes p) = length (components p)"
proof (induction p rule: components.induct)
  case (1 p)
  then show ?case
    by (simp add: components.simps [of p] count_loop.simps [of "skip_slashes p"] Let_def)
qed

lemma count_components_eq: "count_components p = length (components p)"
  by (simp add: count_components_def count_loop_components)

lemma strip_common_components:
  "\<exists>pre. components s = pre @ components (fst (strip_common s t)) \<and> components t = pre @ components (snd (strip_common s t))"
proof (induction s t rule: strip_common.induct)
  case (1 s t)
  let ?r = "skip_equal (skip_slashes s) (skip_slashes t)"
  show ?case
  proof (cases "more_common (fst ?r) (snd ?r)")
    case True
    obtain c where c: "c \<noteq> []" "slash \<notin> set c" "skip_slashes s = c @ fst ?r" "skip_slashes t = c @ snd ?r"
        "fst ?r = [] \<or> hd (fst ?r) = slash" "snd ?r = [] \<or> hd (snd ?r) = slash"
      by (rule more_common_name [OF True refl refl])
    have "components s = c # components (fst ?r)" "components t = c # components (snd ?r)"
      using components_name [OF c(1,2,5)] components_name [OF c(1,2,6)] c(3,4) components_skip [of s] components_skip [of t] by simp_all
    moreover have "strip_common s t = strip_common (fst ?r) (snd ?r)"
      using True by (simp add: strip_common.simps [of s t] Let_def)
    moreover obtain pre where "components (fst ?r) = pre @ components (fst (strip_common (fst ?r) (snd ?r)))"
        "components (snd ?r) = pre @ components (snd (strip_common (fst ?r) (snd ?r)))"
      using "1.IH" [OF refl refl refl True] by blast
    ultimately show ?thesis
      by (intro exI [of _ "c # pre"]) simp
  next
    case False
    then show ?thesis
      by (simp add: strip_common.simps [of s t] Let_def)
  qed
qed

lemma skip_slashes_suffix: "suffix (skip_slashes p) p"
  unfolding skip_slashes_def by (rule suffix_dropWhile)

lemma strip_common_suffix: "suffix (fst (strip_common s t)) s \<and> (fst (strip_common s t) = [] \<or> hd (fst (strip_common s t)) \<noteq> slash)"
proof (induction s t rule: strip_common.induct)
  case (1 s t)
  let ?r = "skip_equal (skip_slashes s) (skip_slashes t)"
  have "suffix (fst ?r) (skip_slashes s)"
    using skip_equal_prefix [of "skip_slashes s" "skip_slashes t"] suffixI by blast
  then have suf: "suffix (fst ?r) s"
    using skip_slashes_suffix suffix_order.trans by blast
  show ?case
  proof (cases "more_common (fst ?r) (snd ?r)")
    case True
    then have "strip_common s t = strip_common (fst ?r) (snd ?r)"
      by (simp add: strip_common.simps [of s t] Let_def)
    with "1.IH" [OF refl refl refl True] suf show ?thesis
      using suffix_order.trans by metis
  next
    case False
    then show ?thesis
      using skip_slashes_hd [of s] skip_slashes_suffix [of s] by (auto simp: strip_common.simps [of s t] Let_def)
  qed
qed

text \<open>Where a link leads to, name by name from a directory.\<close>

definition walk_name :: "string list \<Rightarrow> string \<Rightarrow> string list" where
  "walk_name dir n = (if n = ''.'' then dir else if n = ''..'' then butlast dir else dir @ [n])"

definition link_target :: "string list \<Rightarrow> string \<Rightarrow> string list" where
  "link_target dir l = foldl walk_name dir (components l)"

lemma foldl_plain: "''.'' \<notin> set ns \<Longrightarrow> ''..'' \<notin> set ns \<Longrightarrow> foldl walk_name dir ns = dir @ ns"
  by (induction ns arbitrary: dir) (auto simp: walk_name_def)

lemma foldl_up: "n \<le> length ds \<Longrightarrow> foldl walk_name (dir @ ds) (replicate n ''..'') = dir @ take (length ds - n) ds"
proof (induction n arbitrary: ds)
  case (Suc n)
  then have "ds \<noteq> []" "n \<le> length (butlast ds)"
    by auto
  then have "foldl walk_name (dir @ ds) (replicate (Suc n) ''..'') = foldl walk_name (dir @ butlast ds) (replicate n ''..'')"
    by (simp add: walk_name_def butlast_append)
  also have "\<dots> = dir @ take (length (butlast ds) - n) (butlast ds)"
    by (rule Suc.IH) fact
  also have "\<dots> = dir @ take (length ds - Suc n) ds"
    using Suc.prems by (simp add: take_butlast)
  finally show ?case .
qed simp

lemma components_ups: "components (concat (replicate n ''../'') @ p) = replicate n ''..'' @ components p"
proof (induction n)
  case (Suc n)
  have "components (''..'' @ slash # (concat (replicate n ''../'') @ p)) = ''..'' # components (slash # (concat (replicate n ''../'') @ p))"
    by (rule components_name) simp_all
  with Suc show ?case
    by simp
qed simp

text \<open>The relative link: \<open>n\<close> steps up, and the rest of the destination.\<close>

definition rel_link :: "nat \<Rightarrow> string \<Rightarrow> string" where
  "rel_link n l = concat (replicate n ''../'') @ (if l \<noteq> [] then l else if n = 0 then ''.'' else [])"

lemma rel_link_simps:
  "length (rel_link n l) = 3 * n + (if l \<noteq> [] then length l else if n = 0 then 1 else 0)"
  "rel_link n l \<noteq> []"
  "NUL \<notin> set l \<Longrightarrow> NUL \<notin> set (rel_link n l)"
  "l = [] \<or> hd l \<noteq> slash \<Longrightarrow> hd (rel_link n l) \<noteq> slash"
  by (cases n; auto simp: rel_link_def length_concat sum_list_replicate)+

lemma rel_link_target:
  assumes "''.'' \<notin> set pre" "''..'' \<notin> set pre" "ds \<noteq> []"
  shows "link_target (butlast (pre @ ds)) (rel_link (length ds - 1) l) = foldl walk_name [] (pre @ components l)"
proof -
  let ?n = "length ds - 1"
  have up: "foldl walk_name (butlast (pre @ ds)) (replicate ?n ''..'') = pre"
    using foldl_up [of ?n "butlast ds" pre] assms(3) by (simp add: butlast_append)
  have dot: "components ''.'' = [''.'']"
    using components_name [of "''.''" "[]"] by simp
  have "foldl walk_name (butlast (pre @ ds)) (components (rel_link ?n l)) = foldl walk_name pre (components l)"
    using up by (auto simp: rel_link_def components_ups dot walk_name_def foldl_append)
  moreover have "foldl walk_name [] pre = pre"
    using foldl_plain [of pre "[]"] assms(1,2) by simp
  ultimately show ?thesis
    by (simp add: link_target_def)
qed

text \<open>C37: with \<open>rellinks\<close>, a link that is transformed becomes relative, fits into the buffer, and leads from the
  directory of the link to the same place as before; every other link is left alone.\<close>

theorem transform_symlink_target:
  assumes "buf \<noteq> []" "NUL \<in> set buf" "''.'' \<notin> set (components path)" "''..'' \<notin> set (components path)"
  shows "\<exists>buf'. transform_symlink d path buf sz = Inr buf' \<and>
           (buf' = buf \<or>
            hd (cstr buf') \<noteq> slash \<and> length (cstr buf') < sz \<and>
            link_target (butlast (components path)) (cstr buf') = link_target [] (cstr buf))"
proof -
  define l q where "l = fst (strip_common (cstr buf) path)" and "q = snd (strip_common (cstr buf) path)"
  let ?n = "count_components q - 1"
  let ?new = "rel_link ?n l @ [NUL] @ drop (length (rel_link ?n l) + 1) buf"
  obtain pre where pre: "components (cstr buf) = pre @ components l" "components path = pre @ components q"
    using strip_common_components [of "cstr buf" path] by (auto simp: l_def q_def)
  have suf: "suffix l (cstr buf)" "l = [] \<or> hd l \<noteq> slash"
    using strip_common_suffix [of "cstr buf" path] by (simp_all add: l_def)
  have "NUL \<notin> set (cstr buf)"
    by (auto simp: cstr_def dest: set_takeWhileD)
  then have "NUL \<notin> set l"
    using suf(1) by (auto simp: suffix_def)
  then have new: "cstr ?new = rel_link ?n l"
    using cstr_stop [OF rel_link_simps(3)] by simp
  have "transform_symlink d path buf sz = Inr buf \<or>
      transform_symlink d path buf sz = Inr ?new \<and> count_components q \<noteq> 0 \<and> 3 * ?n + length l + 2 \<le> sz"
    using assms(1,2) by (auto simp: transform_symlink_def split_beta Let_def l_def [symmetric] q_def [symmetric] rel_link_def)
  then show ?thesis
  proof (elim disjE conjE)
    assume t: "transform_symlink d path buf sz = Inr ?new" "count_components q \<noteq> 0" "3 * ?n + length l + 2 \<le> sz"
    have "link_target (butlast (pre @ components q)) (rel_link (length (components q) - 1) l) = foldl walk_name [] (pre @ components l)"
      by (rule rel_link_target) (use assms(3,4) pre(2) t(2) in \<open>auto simp: count_components_eq\<close>)
    then have "link_target (butlast (components path)) (cstr ?new) = link_target [] (cstr buf)"
      unfolding new by (simp add: pre link_target_def count_components_eq)
    moreover have "hd (cstr ?new) \<noteq> slash" "length (cstr ?new) < sz"
      unfolding new using rel_link_simps(1) [of ?n l] rel_link_simps(4) [OF suf(2)] t(3) by auto
    ultimately show ?thesis
      using t(1) by blast
  qed auto
qed

theorem transform_symlink_target_witness:
  "transform_symlink \<lparr>sd_base = ''/b/'', sd_baselen = 3, sd_rellinks = 1\<rparr> ''/b/x/y'' (''/b/z/k'' @ [NUL]) 4097 =
     Inr (''../z/k'' @ [NUL]) \<and>
   link_target [''b'', ''x''] ''../z/k'' = link_target [] ''/b/z/k''"
proof -
  have t: "transform_symlink \<lparr>sd_base = ''/b/'', sd_baselen = 3, sd_rellinks = 1\<rparr> ''/b/x/y'' (''/b/z/k'' @ [NUL]) 4097 =
      Inr (''../z/k'' @ [NUL])"
    by code_simp
  have c: "components ''/b/x/y'' = [''b'', ''x'', ''y'']" "cstr (''../z/k'' @ [NUL]) = ''../z/k''" "cstr (''/b/z/k'' @ [NUL]) = ''/b/z/k''"
    by code_simp+
  have "\<exists>buf'. transform_symlink \<lparr>sd_base = ''/b/'', sd_baselen = 3, sd_rellinks = 1\<rparr> ''/b/x/y'' (''/b/z/k'' @ [NUL]) 4097 = Inr buf' \<and>
      (buf' = ''/b/z/k'' @ [NUL] \<or> hd (cstr buf') \<noteq> slash \<and> length (cstr buf') < 4097 \<and>
       link_target (butlast (components ''/b/x/y'')) (cstr buf') = link_target [] (cstr (''/b/z/k'' @ [NUL])))"
    by (rule transform_symlink_target) (simp_all add: c del: components_slash)
  with t c show ?thesis
    by auto
qed

text \<open>The test that a link stays below the base counts bytes: slashes in front make up for names.\<close>

theorem transform_symlink_outside_base:
  "transform_symlink \<lparr>sd_base = ''/b/'', sd_baselen = 3, sd_rellinks = 1\<rparr> ''/b/x/y'' (''////etc'' @ [NUL]) 4097 =
     Inr (''../../etc'' @ [NUL])"
  by code_simp

section \<open>New file systems\<close>

text \<open>A base is empty or ends with a slash, and its length is known.\<close>

definition subdir_ok :: "subdir \<Rightarrow> bool" where
  "subdir_ok d \<longleftrightarrow> (sd_base d = [] \<or> last (sd_base d) = slash) \<and> sd_baselen d = length (sd_base d)"

lemma subdir_finish_ok: "subdir_finish data nnext m = Some d \<Longrightarrow> subdir_ok d"
  by (auto simp: subdir_finish_def subdir_ok_def split_beta Let_def split: if_splits option.splits oval.splits)

lemma subdir_new_ok: "subdir_new n scan m m1 args nnext = Some (Inr (Some d)) \<Longrightarrow> subdir_ok d"
  by (auto simp: subdir_new_def split_beta res_simps split: if_splits dest: subdir_finish_ok)

text \<open>With memory, the next file system gets the base followed by the path, and two bytes more than it takes.\<close>

lemma subdir_addpath_room:
  assumes "subdir_ok d" "\<not> oom m (ticks m)" "length (sd_base d) + length p + 3 < 2 ^ 32"
  shows "subdir_addpath d (slash # p) m =
           Inr (Some (if sd_base d @ p = [] then ''.'' else sd_base d @ p, length (sd_base d @ p) + 3), m\<lparr>ticks := Suc (ticks m)\<rparr>)"
  using assms by (simp add: subdir_addpath_def subdir_ok_def alloc_def Let_def)

lemma subdir_flush_null: "fuse_fs_flush (subdir_oper d p) None fi ms = Inl Undefined"
  by (simp add: fuse_fs_flush_def call_or_def subdir_oper_def subdir_flush_def with_newpath_null_def)

end
