(* ===== verification/Catalog_Listing.thy ===== *)
theory Catalog_Listing
  imports Kernel_Dir Catalog_Mount Subdir
begin

text \<open>
  Listing a directory of a mounted catalogue, from the kernel's \<open>fuse_readdir\<close> through libfuse to
  \<open>catalog_readdir\<close> and back: the root directory is listed completely, and every other directory makes
  \<open>catalog_readdir\<close> write behind the path that libfuse has allocated.
\<close>

section \<open>The operations on directories\<close>

text \<open>Their part of \<open>catalog_operations\<close>. The offset that \<open>catalog_readdir\<close> passes to the filler is 0.\<close>

definition catalog_dir_oper :: "int \<Rightarrow> (mount, 'b) dir_operations" where
  "catalog_dir_oper umid =
     \<lparr>op_opendir = Some (\<lambda>path fi m. Inr ((catalog_opendir path, fi), m)),
      op_readdir = Some (\<lambda>path cap buf filler off fi m.
        bind_res (catalog_readdir m umid (\<lambda>b name st. filler b name (map_option (\<lambda>x. \<lparr>at_st = x, at_ino = 0\<rparr>) st) 0) buf path cap)
          (\<lambda>r. Inr (r, m))),
      op_getdir = None,
      op_releasedir = Some (\<lambda>path fi m. Inr (catalog_releasedir path, m)),
      op_fsyncdir = Some (\<lambda>path datasync fi m. Inr (catalog_fsyncdir path datasync, m))\<rparr>"

text \<open>The names that \<open>catalog_readdir\<close> fills in for the root.\<close>

definition with_ino :: "stat option \<Rightarrow> fattr option" where
  "with_ino = map_option (\<lambda>x. \<lparr>at_st = x, at_ino = 0\<rparr>)"

definition root_items :: "(string \<times> stat option) list \<Rightarrow> (string \<times> fattr option) list" where
  "root_items es = (''.'', None) # (''..'', None) # map (\<lambda>(s, st). (s, with_ino st)) es"

definition lists_root :: "mount \<Rightarrow> string \<Rightarrow> (string \<times> fattr option) list \<Rightarrow> bool" where
  "lists_root m path xs \<longleftrightarrow>
     catalog_wf m \<and> catalog_sorted m \<and> path = ''/'' \<and> (findDepth ''/'', ''/'') \<in> set (catalog_keys m) \<and>
     xs = root_items (map (dir_item m) (dir_locations (catalog_keys m) ''/''))"

lemma fill_seq_all:
  assumes "fill_seq filler b (map (\<lambda>(s, st). (s, with_ino st)) es) = Some b'"
  shows "fill_all (\<lambda>b name st. filler b name (with_ino st) 0) b es = b'"
  using assms by (induction es arbitrary: b) (auto simp: split_beta Let_def split: if_splits)

lemma fill_seq_root:
  assumes "fill_seq filler b (root_items es) = Some b'"
  defines "g \<equiv> \<lambda>b name st. filler b name (with_ino st) 0"
  shows "fill_all g (fst (g (fst (g b ''.'' None)) ''..'' None)) es = b'"
  using assms fill_seq_all [of filler "fst (filler (fst (filler b ''.'' None 0)) ''..'' None 0)" es b']
  by (auto simp: root_items_def with_ino_def split_beta Let_def split: if_splits)

interpretation croot: listing_fs "catalog_dir_oper umid" lists_root for umid
proof unfold_locales
  fix m path xs and filler :: "dir_buf dir_filler" and b b' off fi
  assume l: "lists_root m path xs" and f: "fill_seq filler b xs = Some b'"
  let ?g = "\<lambda>b name st. filler b name (with_ino st) 0"
  have "catalog_readdir m umid ?g b ''/'' 2 =
      Inr (0, fill_all ?g (fst (?g (fst (?g b ''.'' None)) ''..'' None)) (map (dir_item m) (dir_locations (catalog_keys m) (dir_path ''/''))))"
    using l by (intro readdir_wf) (simp_all add: lists_root_def dir_path_def findDepth_def)
  then show "fuse_fs_readdir (catalog_dir_oper umid) path (length path + 1) b filler off fi m = Inr ((0, b'), m)"
    using l f fill_seq_root [of filler b _ b']
    by (simp add: lists_root_def fuse_fs_readdir_def catalog_dir_oper_def with_ino_def dir_path_def numeral_2_eq_2)
next
  fix m path xs fi
  show "\<exists>fi'. fuse_fs_opendir (catalog_dir_oper umid) path fi m = Inr ((0, fi'), m)"
    by (simp add: fuse_fs_opendir_def catalog_dir_oper_def call_or_def catalog_opendir_def)
qed

section \<open>Other directories\<close>

text \<open>The path that \<open>get_path\<close> returns has no spare byte.\<close>

lemma readdir_overruns:
  assumes "path \<noteq> ''/''" "NUL \<notin> set path"
  shows "fuse_fs_readdir (catalog_dir_oper umid) path (Suc (length path)) b filler off fi m = Inl Undefined"
  using assms by (simp add: fuse_fs_readdir_def catalog_dir_oper_def catalog_readdir_def Let_def)

lemma readdir_known_overruns:
  assumes "knows p m conf c i s l" "s \<noteq> []" "NUL \<notin> set s" "s \<noteq> ''/''" "length s < FUSE_MAX_PATH"
  shows "fuse_lib_readdir (catalog_dir_oper umid) i sz 0 dh l = Some (Inl Undefined)"
proof -
  have path: "path_string s = s"
    using assms(2) by (simp add: path_string_def)
  note l = assms(1) [unfolded knows_def lib_inv_def light_def]
  have "fst (alloc (fu_mem (lb_f l)))" "nodes_ok (lb_f l)" "0 < nlookups (lb_f l) i" "has_path (lb_f l) i s"
    "s @ suffix_of None = s"
    using l by (simp_all add: alloc_def suffix_of_def)
  then obtain g where "get_path_name (lb_f l) i None = Inr (Some s, g)"
    using get_path_name_ok [of "lb_f l" i None] path assms(5) by metis
  then show ?thesis
    by (simp add: readdir_overruns [OF assms(4,3)] fuse_lib_readdir_def Let_def bind_lib_def readdir_fill_def with_path_def path_of_def on_nodes_def)
qed

section \<open>The root of a generated catalogue\<close>

lemma root_names:
  assumes "generated w d t fname" "scandir w d filter_ent = Some es" "e \<in> set es"
  shows "d_name e \<noteq> []" "NUL \<notin> set (d_name e)"
proof -
  note g = generated_tree [OF assms(1)]
  obtain st kids where t: "t = Branch st kids"
    using g(1) by (cases t) auto
  have "map fst kids = map d_name es"
    using g(3) assms(2) entries_match_names by (fastforce simp: t)
  then have "d_name e \<in> set (map fst kids)"
    using assms(3) by simp
  then obtain u where u: "(d_name e, u) \<in> set kids" "map_of kids (d_name e) \<noteq> None"
    by (auto simp: map_of_eq_None_iff)
  then show "d_name e \<noteq> []"
    using g(2) by (auto simp: t)
  obtain v where "tree_at t [d_name e] = Some v"
    using u(2) by (auto simp: t)
  from tree_at_plain [OF assms(1) this] show "NUL \<notin> set (d_name e)"
    by simp
qed

text \<open>What \<open>scandir\<close> and \<open>lstat\<close> say of a directory.\<close>

definition os_items :: "os \<Rightarrow> string \<Rightarrow> dirent list \<Rightarrow> (string \<times> stat option) list" where
  "os_items w d es = map (\<lambda>e. (d_name e, os_lstat w (d @ ''/'' @ d_name e))) es"

lemma generated_lists_root:
  assumes "generated w d t fname" "siblings_ordered t" "scandir w d filter_ent = Some es"
  shows "lists_root (mounted fname (walk t)) ''/'' (root_items (os_items w d es))"
proof -
  note g = generated_tree [OF assms(1)]
  obtain st kids where t: "t = Branch st kids"
    using g(1) by (cases t) auto
  then have dir: "([], t) \<in> set (tree_dirs [] t)"
    by simp
  have "([], Branch st kids) \<in> set (tree_dirs [] t)"
    by (simp add: t)
  then have "(st, [] @ ''/'', []) \<in> set (walk t)"
    unfolding set_bfs_items dfs_items_dirs by force
  then have "(findDepth ''/'', ''/'') \<in> set (map item_key (walk t))"
    by (force simp: item_key_def)
  moreover have "map (dir_item (mounted fname (walk t))) (dir_locations (map item_key (walk t)) ''/'') = os_items w d es"
    using generated_dir_items [OF assms(1,2) dir, of es] assms(3) by (simp add: os_items_def)
  ultimately show ?thesis
    using generated_wf [OF assms(1)] generated_sorted [OF assms(1)] assms(2)
    by (simp add: lists_root_def generated_keys [OF assms(1)])
qed

lemma root_items_size:
  "\<forall>e\<in>set es. length (d_name e) \<le> 1024 \<Longrightarrow>
   dirents_size (root_items (os_items w d es)) \<le> 64 + sum_list (map (\<lambda>e. length (d_name e) + 31) es)"
proof -
  assume "\<forall>e\<in>set es. length (d_name e) \<le> 1024"
  then have "sum_list (map (\<lambda>e. fuse_dirent_size (length (d_name e))) es) \<le> sum_list (map (\<lambda>e. length (d_name e) + 31) es)"
    by (intro sum_list_mono fuse_dirent_size_bounds(2)) auto
  moreover have "fuse_dirent_size 1 \<le> 32" "fuse_dirent_size 2 \<le> 32"
    by (simp_all add: fuse_dirent_size_eq)
  ultimately show ?thesis
    by (simp add: root_items_def os_items_def dirents_size_def comp_def split_beta numeral_2_eq_2)
qed

section \<open>Other directories of a generated catalogue\<close>

lemma tree_resolves:
  assumes "generated w d t fname" "siblings_ordered t" "tree_at t ns = Some u"
    and "good_fresh fresh" "\<forall>tm. clock tm \<noteq> None" "\<forall>tm. \<not> oom mem tm" "length ns + 4 \<le> k"
    and "p = catalog_oper xattr umid" "m = mounted fname (walk t)"
  shows "wp (resolve k ns FUSE_ROOT_ID) (fuse_start mem fresh root0 conf clock p m)
           (\<lambda>r l. \<exists>i. r = Some i \<and> knows p m conf (1 + length ns) i (names_path ns) l)"
proof -
  note plain = tree_at_plain [OF assms(1,3)] and short = tree_at_short [OF assms(1,3)]
  have small: "int (1 + length ns) + 1 < INT_MAX"
    using short names_path_length [of ns] by (simp add: INT_MAX_def FUSE_MAX_PATH_def)
  show ?thesis
  proof (rule wp_resolve_known [OF start_knows [OF assms(4-6)] plain])
    fix j
    assume j: "0 < j" "j \<le> length ns"
    obtain v where v: "tree_at t (take j ns) = Some v"
      using tree_at_take [OF assms(3)] by blast
    have "path_string (names_path (take j ns)) = names_path (take j ns)"
      using j by (cases ns; cases j) (simp_all add: path_string_def)
    with tree_at_getattr [OF assms(1,2) v, of xattr umid] plain
    show "\<exists>st. fuse_fs_getattr p ([] @ names_path (take j ns)) m = Inr ((0, st), m)"
      by (auto simp: assms(8,9) dest: in_set_takeD)
  qed (use assms(7) short small in simp_all)
qed

lemma tree_at_long: "proper_names t \<Longrightarrow> tree_at t ns = Some u \<Longrightarrow> ns \<noteq> [] \<Longrightarrow> 1 < length (names_path ns)"
  by (induction t ns rule: tree_at.induct) (auto simp: bind_eq_Some_conv dest!: map_of_SomeD)

section \<open>Below the module \<open>subdir\<close>\<close>

text \<open>The path that \<open>subdir\<close> allocates has room for the slash.\<close>

definition subdir_root :: "int \<Rightarrow> subdir" where
  "subdir_root rellinks = \<lparr>sd_base = ''/'', sd_baselen = 1, sd_rellinks = rellinks\<rparr>"

lemma tree_dirs_slash: "x \<in> set (tree_dirs r t) \<Longrightarrow> \<exists>q. fst x = r @ q \<and> (q = [] \<or> hd q = slash)"
proof (induction r t rule: tree_dirs.induct)
  case (2 r st kids)
  from "2.prems" consider "x = (r, Branch st kids)" | k where "k \<in> set kids" "x \<in> set (tree_dirs (r @ ''/'' @ fst k) (snd k))"
    by auto
  then show ?case
  proof cases
    case 2
    from "2.IH" [OF this] obtain q where "fst x = r @ slash # fst k @ q"
      by auto
    then show ?thesis
      by (intro exI [of _ "slash # fst k @ q"]) simp
  qed simp
qed simp

lemma request_path_slash:
  assumes "generated w d t fname" "(r, t') \<in> set (tree_dirs [] t)"
  obtains p where "request_path r = slash # p" "length p < MAXPATHLEN"
proof -
  obtain st kids where "t' = Branch st kids"
    using tree_dirs_shown [OF _ assms(2), of w d] generated_tree(3) [OF assms(1)] by (cases t') simp_all
  then have it: "(st, r @ ''/'', []) \<in> set (walk t)"
    using assms(2) unfolding set_bfs_items dfs_items_dirs by force
  then have "length (r @ ''/'') < MAXPATHLEN"
    using generated_tree(4) [OF assms(1)] by (fastforce simp: item_ok_def entry_ok_def path_column_def split: if_splits)
  moreover have "r = [] \<or> hd r = slash"
    using tree_dirs_slash [OF assms(2)] by auto
  ultimately show thesis
    using that [of "if r = [] then [] else tl r"] by (cases r) (auto simp: request_path_def)
qed

lemma subdir_readdir_root:
  assumes "\<not> oom m (ticks m)" "length p < MAXPATHLEN"
  shows "fuse_fs_readdir (subdir_dir_oper (subdir_root rellinks) q) (slash # p) cap buf filler off fi (m, s) =
           bind_res (fuse_fs_readdir q (slash # p) (length p + 4) buf filler off fi s) (\<lambda>(x, s1). Inr (x, m\<lparr>ticks := Suc (ticks m)\<rparr>, s1))"
proof -
  have "subdir_addpath (subdir_root rellinks) (slash # p) m = Inr (Some (slash # p, length p + 4), m\<lparr>ticks := Suc (ticks m)\<rparr>)"
    using subdir_addpath_room [of "subdir_root rellinks" m p] assms by (simp add: subdir_ok_def subdir_root_def MAXPATHLEN_def)
  moreover have "fuse_fs_readdir (subdir_dir_oper (subdir_root rellinks) q) (slash # p) cap buf filler off fi (m, s) =
      subdir_readdir (subdir_root rellinks) q (slash # p) buf filler off fi (m, s)"
    by (simp add: fuse_fs_readdir_def subdir_dir_oper_def)
  ultimately show ?thesis
    by (simp add: subdir_readdir_def with_newpath_def)
qed

lemma subdir_catalog_readdir:
  assumes "generated w d t fname" "siblings_ordered t" "(r, t') \<in> set (tree_dirs [] t)"
    and "scandir w (d @ r) filter_ent = Some es" "\<not> oom m (ticks m)"
    and g: "g = (\<lambda>b name st. filler b name (with_ino st) 0)"
  shows "fuse_fs_readdir (subdir_dir_oper (subdir_root rellinks) (catalog_dir_oper umid)) (request_path r) cap buf filler off fi (m, mounted fname (walk t)) =
           Inr ((0, fill_all g (fst (g (fst (g buf ''.'' None)) ''..'' None)) (os_items w (d @ r) es)), m\<lparr>ticks := Suc (ticks m)\<rparr>, mounted fname (walk t))"
proof -
  obtain p where p: "request_path r = slash # p" "length p < MAXPATHLEN"
    by (rule request_path_slash [OF assms(1,3)])
  have "r = [] \<or> length (request_path r) + 2 \<le> length p + 4"
    using p(1) by simp
  from generated_readdir [OF assms(1-4) this, of umid g buf]
  have "catalog_readdir (mounted fname (walk t)) umid g buf (slash # p) (length p + 4) =
      Inr (0, fill_all g (fst (g (fst (g buf ''.'' None)) ''..'' None)) (os_items w (d @ r) es))"
    by (simp add: p(1) os_items_def)
  then show ?thesis
    unfolding p(1) subdir_readdir_root [OF assms(5) p(2)]
    by (simp add: fuse_fs_readdir_def catalog_dir_oper_def g with_ino_def)
qed

end
