(* ===== verification/Fuse_Lowlevel.thy ===== *)
theory Fuse_Lowlevel
  imports Fuse_Dir
begin

text \<open>
  The requests of the kernel as libfuse keeps them (\<open>other_fs/fuse-2.7.3/lib/fuse_lowlevel.c\<close>): a message is
  admitted or refused, an admitted request is outstanding until it is answered, and a message that interrupts
  another request finds it, waits for it, or is sent back. The two circular lists are lists in their order. Every
  function runs as one step; \<open>find_interrupted\<close>, which gives the lock away for a moment, keeps a reference
  to the request meanwhile.
\<close>

section \<open>Data\<close>

definition ERANGE :: int where "ERANGE = 34"
definition EAGAIN :: int where "EAGAIN = 11"
definition EACCES :: int where "EACCES = 13"
definition EPROTO :: int where "EPROTO = 71"

text \<open>\<open>struct fuse_conn_info\<close>\<close>

record fuse_conn_info =
  ci_proto_major :: nat
  ci_proto_minor :: nat
  ci_async_read :: nat
  ci_max_write :: nat
  ci_max_readahead :: nat

text \<open>\<open>struct fuse_req\<close>. \<open>rq_target\<close> is \<open>u.i.unique\<close> of a request that interrupts, \<open>rq_func\<close> says whether there is a
  function \<open>u.ni.func\<close>.\<close>

record fuse_req =
  rq_unique :: nat
  rq_uid :: nat
  rq_interrupted :: bool
  rq_target :: nat
  rq_func :: bool

text \<open>
  \<open>struct fuse_ll\<close>, with what was sent through the channel (the request, the error and the bytes), and the
  requests whose interrupt function was called.
\<close>

record fuse_ll =
  ll_allow_root :: bool
  ll_owner :: nat
  ll_got_init :: bool
  ll_got_destroy :: bool
  ll_conn :: fuse_conn_info
  ll_list :: "fuse_req list"
  ll_interrupts :: "fuse_req list"
  ll_sent :: "(nat \<times> int \<times> string) list"
  ll_signals :: "nat list"

text \<open>\<open>struct fuse_in_header\<close> at the start of a message.\<close>

record fuse_in_header =
  in_opcode :: nat
  in_unique :: nat
  in_nodeid :: nat
  in_uid :: nat

text \<open>The number of \<open>k\<close> bytes at a position of a buffer.\<close>

definition field :: "nat \<Rightarrow> nat \<Rightarrow> string \<Rightarrow> nat" where
  "field pos k buf = le_val (take k (drop pos buf))"

definition in_header :: "string \<Rightarrow> fuse_in_header" where
  "in_header buf =
     \<lparr>in_opcode = field 4 4 buf, in_unique = field 8 8 buf, in_nodeid = field 16 8 buf, in_uid = field 24 4 buf\<rparr>"

definition FUSE_READ :: nat where "FUSE_READ = 15"
definition FUSE_WRITE :: nat where "FUSE_WRITE = 16"
definition FUSE_RELEASE :: nat where "FUSE_RELEASE = 18"
definition FUSE_FSYNC :: nat where "FUSE_FSYNC = 20"
definition FUSE_INIT :: nat where "FUSE_INIT = 26"
definition FUSE_READDIR :: nat where "FUSE_READDIR = 28"
definition FUSE_RELEASEDIR :: nat where "FUSE_RELEASEDIR = 29"
definition FUSE_FSYNCDIR :: nat where "FUSE_FSYNCDIR = 30"
definition FUSE_INTERRUPT :: nat where "FUSE_INTERRUPT = 36"
definition FUSE_DESTROY :: nat where "FUSE_DESTROY = 38"

text \<open>The opcodes for which \<open>fuse_ll_ops\<close> has a function.\<close>

definition fuse_ll_ops :: "nat \<Rightarrow> bool" where
  "fuse_ll_ops opcode \<longleftrightarrow> 0 < opcode \<and> opcode \<le> FUSE_DESTROY \<and> opcode \<noteq> 7 \<and> opcode \<noteq> 19"

section \<open>Requests\<close>

definition list_add_req :: "fuse_req \<Rightarrow> fuse_req list \<Rightarrow> fuse_req list" where
  "list_add_req req l = l @ [req]"

definition list_del_req :: "fuse_req \<Rightarrow> fuse_req list \<Rightarrow> fuse_req list" where
  "list_del_req req l = remove1 req l"

text \<open>A request that is in no list is linked to itself, and removing it has no effect.\<close>

definition free_req :: "fuse_req \<Rightarrow> fuse_ll \<Rightarrow> fuse_ll" where
  "free_req req f = f\<lparr>ll_list := list_del_req req (ll_list f)\<rparr>"

definition send_reply_iov :: "fuse_req \<Rightarrow> int \<Rightarrow> string \<Rightarrow> fuse_ll \<Rightarrow> fuse_ll" where
  "send_reply_iov req err bytes f =
     (let err1 = (if err \<le> -1000 \<or> err > 0 then - ERANGE else err) in
      free_req req (f\<lparr>ll_sent := ll_sent f @ [(rq_unique req, err1, bytes)]\<rparr>))"

definition fuse_reply_err :: "fuse_req \<Rightarrow> int \<Rightarrow> fuse_ll \<Rightarrow> fuse_ll" where
  "fuse_reply_err req err = send_reply_iov req (- err) []"

definition send_reply_ok :: "fuse_req \<Rightarrow> string \<Rightarrow> fuse_ll \<Rightarrow> fuse_ll" where
  "send_reply_ok req bytes = send_reply_iov req 0 bytes"

text \<open>No message is sent for \<open>NULL\<close>.\<close>

definition fuse_reply_none :: "fuse_req \<Rightarrow> fuse_ll \<Rightarrow> fuse_ll" where
  "fuse_reply_none req f = free_req req f"

section \<open>Interrupts\<close>

fun mark_first :: "nat \<Rightarrow> fuse_req list \<Rightarrow> fuse_req list" where
  "mark_first u [] = []"
| "mark_first u (r # rs) = (if rq_unique r = u then r\<lparr>rq_interrupted := True\<rparr> # rs else r # mark_first u rs)"

definition find_interrupted :: "fuse_req \<Rightarrow> fuse_ll \<Rightarrow> bool \<times> fuse_ll" where
  "find_interrupted req f =
     (case find (\<lambda>cur. rq_unique cur = rq_target req) (ll_list f) of
        Some cur \<Rightarrow>
          (True, f\<lparr>ll_list := mark_first (rq_target req) (ll_list f),
                   ll_signals := ll_signals f @ (if rq_func cur then [rq_unique cur] else [])\<rparr>)
      | None \<Rightarrow> (\<exists>cur\<in>set (ll_interrupts f). rq_target cur = rq_target req, f))"

definition do_interrupt :: "fuse_req \<Rightarrow> string \<Rightarrow> fuse_ll \<Rightarrow> fuse_ll" where
  "do_interrupt req inarg f =
     (let req1 = req\<lparr>rq_target := field 0 8 inarg\<rparr>; (found, f1) = find_interrupted req1 f in
      if found then f1 else f1\<lparr>ll_interrupts := list_add_req req1 (ll_interrupts f1)\<rparr>)"

text \<open>The result is the interrupt to send back, and the new request.\<close>

definition check_interrupt :: "fuse_req \<Rightarrow> fuse_ll \<Rightarrow> fuse_req option \<times> fuse_req \<times> fuse_ll" where
  "check_interrupt req f =
     (case find (\<lambda>cur. rq_target cur = rq_unique req) (ll_interrupts f) of
        Some cur \<Rightarrow> (None, req\<lparr>rq_interrupted := True\<rparr>, f\<lparr>ll_interrupts := list_del_req cur (ll_interrupts f)\<rparr>)
      | None \<Rightarrow>
          (case ll_interrupts f of
             [] \<Rightarrow> (None, req, f)
           | cur # rest \<Rightarrow> (Some cur, req, f\<lparr>ll_interrupts := rest\<rparr>)))"

text \<open>A function for a request that is outstanding: it is called at once if the request has been interrupted.\<close>

definition fuse_req_interrupt_func :: "fuse_req \<Rightarrow> bool \<Rightarrow> fuse_ll \<Rightarrow> fuse_ll" where
  "fuse_req_interrupt_func req func f =
     f\<lparr>ll_list := map (\<lambda>r. if r = req then r\<lparr>rq_func := func\<rparr> else r) (ll_list f),
       ll_signals := ll_signals f @ (if rq_interrupted req \<and> func then [rq_unique req] else [])\<rparr>"

section \<open>Init and destroy\<close>

text \<open>The size of the channel's buffer, whether there are operations for locks, and what \<open>op.init\<close> makes of the
  connection.\<close>

record ll_env =
  env_bufsize :: nat
  env_locks :: bool
  env_init :: "fuse_conn_info \<Rightarrow> fuse_conn_info"

definition FUSE_MIN_READ_BUFFER :: nat where "FUSE_MIN_READ_BUFFER = 8192"

definition new_conn :: "nat \<Rightarrow> nat \<Rightarrow> nat \<Rightarrow> nat \<Rightarrow> nat \<Rightarrow> fuse_conn_info \<Rightarrow> fuse_conn_info" where
  "new_conn bufsize major minor flags readahead c0 =
     (let c1 = c0\<lparr>ci_proto_major := major, ci_proto_minor := minor\<rparr>;
          c2 = (if major > 7 \<or> major = 7 \<and> minor \<ge> 6
                then c1\<lparr>ci_async_read := (if ci_async_read c1 \<noteq> 0 then flags mod 2 else 0),
                        ci_max_readahead := min readahead (ci_max_readahead c1)\<rparr>
                else c1\<lparr>ci_async_read := 0, ci_max_readahead := 0\<rparr>);
          room = max bufsize FUSE_MIN_READ_BUFFER - 4096 in
      if room < ci_max_write c2 then c2\<lparr>ci_max_write := room\<rparr> else c2)"

definition init_out :: "bool \<Rightarrow> fuse_conn_info \<Rightarrow> string" where
  "init_out locks c =
     le_bytes 4 7 @ le_bytes 4 8 @ le_bytes 4 (ci_max_readahead c) @
     le_bytes 4 ((if ci_async_read c \<noteq> 0 then 1 else 0) + (if locks then 2 else 0)) @ le_bytes 4 0 @ le_bytes 4 (ci_max_write c)"

definition do_init :: "ll_env \<Rightarrow> fuse_req \<Rightarrow> string \<Rightarrow> fuse_ll \<Rightarrow> fuse_ll" where
  "do_init env req inarg f =
     (let major = field 0 4 inarg; minor = field 4 4 inarg in
      if major < 7
      then fuse_reply_err req EPROTO (f\<lparr>ll_conn := (ll_conn f)\<lparr>ci_proto_major := major, ci_proto_minor := minor\<rparr>\<rparr>)
      else let c = env_init env (new_conn (env_bufsize env) major minor (field 12 4 inarg) (field 8 4 inarg) (ll_conn f));
               out = init_out (env_locks env) c in
        send_reply_ok req (if minor < 5 then take 8 out else out) (f\<lparr>ll_conn := c, ll_got_init := True\<rparr>))"

definition do_destroy :: "fuse_req \<Rightarrow> fuse_ll \<Rightarrow> fuse_ll" where
  "do_destroy req f = send_reply_ok req [] (f\<lparr>ll_got_destroy := True\<rparr>)"

section \<open>Messages\<close>

text \<open>What a message leads to: a call of the function for its opcode, with the node and the arguments, or nothing
  more. The function answers the request later.\<close>

datatype ll_call = No_Call | Call nat nat nat string

definition fuse_ll_process :: "ll_env \<Rightarrow> bool \<Rightarrow> string \<Rightarrow> fuse_ll \<Rightarrow> ll_call \<times> fuse_ll" where
  "fuse_ll_process env mem_ok buf f =
     (let h = in_header buf; inarg = drop 40 buf; opcode = in_opcode h;
          req = \<lparr>rq_unique = in_unique h, rq_uid = in_uid h, rq_interrupted = False, rq_target = 0, rq_func = False\<rparr> in
      if \<not> mem_ok then (No_Call, f)
      else if \<not> ll_got_init f \<and> opcode \<noteq> FUSE_INIT then (No_Call, fuse_reply_err req EIO f)
      else if ll_allow_root f \<and> in_uid h \<noteq> ll_owner f \<and> in_uid h \<noteq> 0 \<and>
              opcode \<notin> {FUSE_INIT, FUSE_READ, FUSE_WRITE, FUSE_FSYNC, FUSE_RELEASE, FUSE_READDIR, FUSE_FSYNCDIR, FUSE_RELEASEDIR}
      then (No_Call, fuse_reply_err req EACCES f)
      else if \<not> fuse_ll_ops opcode then (No_Call, fuse_reply_err req ENOSYS f)
      else if opcode = FUSE_INTERRUPT then (No_Call, do_interrupt req inarg f)
      else let (intr, req1, f1) = check_interrupt req f;
               f2 = f1\<lparr>ll_list := list_add_req req1 (ll_list f1)\<rparr>;
               f3 = (case intr of None \<Rightarrow> f2 | Some i \<Rightarrow> fuse_reply_err i EAGAIN f2) in
        if opcode = FUSE_INIT then (No_Call, do_init env req1 inarg f3)
        else if opcode = FUSE_DESTROY then (No_Call, do_destroy req1 f3)
        else (Call opcode (in_unique h) (in_nodeid h) inarg, f3))"

text \<open>The state that \<open>fuse_lowlevel_new_common\<close> builds, with the options \<open>allow_root\<close> and those of the connection.\<close>

definition new_ll :: "bool \<Rightarrow> nat \<Rightarrow> nat \<Rightarrow> nat \<Rightarrow> nat \<Rightarrow> fuse_ll" where
  "new_ll allow_root owner async_read max_write max_readahead =
     \<lparr>ll_allow_root = allow_root, ll_owner = owner, ll_got_init = False, ll_got_destroy = False,
      ll_conn = \<lparr>ci_proto_major = 0, ci_proto_minor = 0, ci_async_read = async_read, ci_max_write = max_write, ci_max_readahead = max_readahead\<rparr>,
      ll_list = [], ll_interrupts = [], ll_sent = [], ll_signals = []\<rparr>"

end
