(* ===== verification/Fuse_Wire.thy ===== *)
theory Fuse_Wire
  imports Fuse_Lowlevel
begin

text \<open>
  The messages of the protocol as libfuse reads and writes them (\<open>other_fs/fuse-2.7.3/lib/fuse_lowlevel.c\<close>): one
  function \<open>do_\<dots>\<close> per operation takes the arguments of a message apart and calls the file system's function, or
  gives the answer for a file system without it, and the functions \<open>fuse_reply_\<dots>\<close> lay out the answers. The structures
  are those of \<open>kernel/fuse_kernel.h\<close> on a machine that stores the low byte first. A timeout is a rational number,
  and the products of \<open>calc_timeout_nsec\<close> are not rounded. The fields of \<open>struct stat\<close> that the record does not
  have (blocks, device and nanoseconds) are zero.
\<close>

section \<open>Requests\<close>

text \<open>What a message asks for: a request on nodes, or on an open directory.\<close>

datatype ll_request =
  Path_Request lib_request | Open_Dir nat fuse_file_info | Read_Dir nat nat off_t fuse_file_info
| Release_Dir nat fuse_file_info | Sync_Dir nat int fuse_file_info

text \<open>A message leads to a call of the file system, or to an answer at once.\<close>

datatype ll_action = Handle ll_request | Answer lib_reply

definition FUSE_LOOKUP :: nat where "FUSE_LOOKUP = 1"
definition FUSE_FORGET :: nat where "FUSE_FORGET = 2"
definition FUSE_GETATTR :: nat where "FUSE_GETATTR = 3"
definition FUSE_SETATTR :: nat where "FUSE_SETATTR = 4"
definition FUSE_READLINK :: nat where "FUSE_READLINK = 5"
definition FUSE_SYMLINK :: nat where "FUSE_SYMLINK = 6"
definition FUSE_MKNOD :: nat where "FUSE_MKNOD = 8"
definition FUSE_MKDIR :: nat where "FUSE_MKDIR = 9"
definition FUSE_UNLINK :: nat where "FUSE_UNLINK = 10"
definition FUSE_RMDIR :: nat where "FUSE_RMDIR = 11"
definition FUSE_RENAME :: nat where "FUSE_RENAME = 12"
definition FUSE_LINK :: nat where "FUSE_LINK = 13"
definition FUSE_OPEN :: nat where "FUSE_OPEN = 14"
definition FUSE_STATFS :: nat where "FUSE_STATFS = 17"
definition FUSE_SETXATTR :: nat where "FUSE_SETXATTR = 21"
definition FUSE_GETXATTR :: nat where "FUSE_GETXATTR = 22"
definition FUSE_LISTXATTR :: nat where "FUSE_LISTXATTR = 23"
definition FUSE_REMOVEXATTR :: nat where "FUSE_REMOVEXATTR = 24"
definition FUSE_FLUSH :: nat where "FUSE_FLUSH = 25"
definition FUSE_OPENDIR :: nat where "FUSE_OPENDIR = 27"
definition FUSE_GETLK :: nat where "FUSE_GETLK = 31"
definition FUSE_SETLK :: nat where "FUSE_SETLK = 32"
definition FUSE_SETLKW :: nat where "FUSE_SETLKW = 33"
definition FUSE_ACCESS :: nat where "FUSE_ACCESS = 34"
definition FUSE_CREATE :: nat where "FUSE_CREATE = 35"
definition FUSE_BMAP :: nat where "FUSE_BMAP = 37"

section \<open>Fields\<close>

abbreviation u32 :: "nat \<Rightarrow> string" where "u32 x \<equiv> le_bytes 4 x"
abbreviation u64 :: "nat \<Rightarrow> string" where "u64 x \<equiv> le_bytes 8 x"

text \<open>An \<open>int\<close> that is stored in 32 bits, and a \<open>long\<close> in 64.\<close>

definition s32 :: "int \<Rightarrow> string" where "s32 x = u32 (unat (word_of_int x :: 32 word))"
definition s64 :: "int \<Rightarrow> string" where "s64 x = u64 (unat (word_of_int x :: 64 word))"

section \<open>Reading arguments\<close>

text \<open>libfuse does not check the length of a message: what it reads behind its end is not defined.\<close>

definition with_arg :: "nat \<Rightarrow> string \<Rightarrow> 'a res \<Rightarrow> 'a res" where
  "with_arg n arg k = (if length arg < n then Inl Undefined else k)"

definition str_at :: "nat \<Rightarrow> string \<Rightarrow> string res" where
  "str_at pos arg = (if NUL \<in> set (drop pos arg) then Inr (cstr (drop pos arg)) else Inl Undefined)"

definition int32 :: "nat \<Rightarrow> int" where "int32 n = sint (word_of_nat n :: 32 word)"
definition int64 :: "nat \<Rightarrow> int" where "int64 n = sint (word_of_nat n :: 64 word)"

definition ask :: "bool \<Rightarrow> lib_reply \<Rightarrow> ll_request res \<Rightarrow> ll_action res" where
  "ask present other r = (if present then bind_res r (\<lambda>q. Inr (Handle q)) else Inr (Answer other))"

abbreviation ask_path :: "bool \<Rightarrow> lib_request res \<Rightarrow> ll_action res" where
  "ask_path present r \<equiv> ask present (Reply_Err ENOSYS) (bind_res r (\<lambda>q. Inr (Path_Request q)))"

definition fh_info :: "nat \<Rightarrow> fuse_file_info" where
  "fh_info fh = no_file_info\<lparr>fi_fh := fh\<rparr>"

definition flags_info :: "nat \<Rightarrow> fuse_file_info" where
  "flags_info flags = no_file_info\<lparr>fi_flags := flags\<rparr>"

section \<open>Operations\<close>

text \<open>\<open>has\<close> says which functions the file system has.\<close>

definition do_lookup :: "bool \<Rightarrow> nat \<Rightarrow> string \<Rightarrow> ll_action res" where
  "do_lookup has nodeid arg = ask_path has (bind_res (str_at 0 arg) (\<lambda>name. Inr (Lookup nodeid name)))"

definition do_forget :: "bool \<Rightarrow> nat \<Rightarrow> string \<Rightarrow> ll_action res" where
  "do_forget has nodeid arg = ask has Reply_None (with_arg 8 arg (Inr (Path_Request (Forget nodeid (field 0 8 arg)))))"

definition do_getattr :: "bool \<Rightarrow> nat \<Rightarrow> string \<Rightarrow> ll_action res" where
  "do_getattr has nodeid arg = ask_path has (Inr (Get_Attr nodeid))"

definition convert_attr :: "string \<Rightarrow> stat" where
  "convert_attr arg =
     stat_zero\<lparr>st_mode := word_of_nat (field 68 4 arg), st_uid := word_of_nat (field 76 4 arg), st_gid := word_of_nat (field 80 4 arg),
       st_size := word_of_nat (field 16 8 arg), st_atime := word_of_nat (field 32 8 arg), st_mtime := word_of_nat (field 40 8 arg)\<rparr>"

definition FATTR_FH :: nat where "FATTR_FH = 6"

definition do_setattr :: "bool \<Rightarrow> nat \<Rightarrow> string \<Rightarrow> ll_action res" where
  "do_setattr has nodeid arg = ask_path has (with_arg 88 arg
     (let valid = word_of_nat (field 0 4 arg) :: 32 word in
      Inr (if bit valid FATTR_FH
           then Set_Attr nodeid (convert_attr arg) (unset_bit FATTR_FH valid) (Some (fh_info (field 8 8 arg)))
           else Set_Attr nodeid (convert_attr arg) valid None)))"

definition do_access :: "bool \<Rightarrow> nat \<Rightarrow> string \<Rightarrow> ll_action res" where
  "do_access has nodeid arg = ask_path has (with_arg 8 arg (Inr (Check_Access nodeid (int32 (field 0 4 arg)))))"

definition do_readlink :: "bool \<Rightarrow> nat \<Rightarrow> string \<Rightarrow> ll_action res" where
  "do_readlink has nodeid arg = ask_path has (Inr (Read_Link nodeid))"

definition do_mknod :: "bool \<Rightarrow> nat \<Rightarrow> string \<Rightarrow> ll_action res" where
  "do_mknod has nodeid arg = ask_path has (with_arg 8 arg (bind_res (str_at 8 arg) (\<lambda>name.
     Inr (Make_Node nodeid name (word_of_nat (field 0 4 arg)) (word_of_nat (field 4 4 arg))))))"

definition do_mkdir :: "bool \<Rightarrow> nat \<Rightarrow> string \<Rightarrow> ll_action res" where
  "do_mkdir has nodeid arg = ask_path has (with_arg 8 arg (bind_res (str_at 8 arg) (\<lambda>name.
     Inr (Make_Dir nodeid name (word_of_nat (field 0 4 arg))))))"

definition do_unlink :: "bool \<Rightarrow> nat \<Rightarrow> string \<Rightarrow> ll_action res" where
  "do_unlink has nodeid arg = ask_path has (bind_res (str_at 0 arg) (\<lambda>name. Inr (Unlink_Name nodeid name)))"

definition do_rmdir :: "bool \<Rightarrow> nat \<Rightarrow> string \<Rightarrow> ll_action res" where
  "do_rmdir has nodeid arg = ask_path has (bind_res (str_at 0 arg) (\<lambda>name. Inr (Remove_Dir nodeid name)))"

definition do_symlink :: "bool \<Rightarrow> nat \<Rightarrow> string \<Rightarrow> ll_action res" where
  "do_symlink has nodeid arg = ask_path has (bind_res (str_at 0 arg) (\<lambda>name.
     bind_res (str_at (length name + 1) arg) (\<lambda>linkname. Inr (Make_Symlink linkname nodeid name))))"

definition do_rename :: "bool \<Rightarrow> nat \<Rightarrow> string \<Rightarrow> ll_action res" where
  "do_rename has nodeid arg = ask_path has (with_arg 8 arg (bind_res (str_at 8 arg) (\<lambda>oldname.
     bind_res (str_at (8 + length oldname + 1) arg) (\<lambda>newname. Inr (Rename_Name nodeid oldname (field 0 8 arg) newname)))))"

definition do_link :: "bool \<Rightarrow> nat \<Rightarrow> string \<Rightarrow> ll_action res" where
  "do_link has nodeid arg = ask_path has (with_arg 8 arg (bind_res (str_at 8 arg) (\<lambda>name.
     Inr (Make_Link (field 0 8 arg) nodeid name))))"

definition do_create :: "bool \<Rightarrow> nat \<Rightarrow> string \<Rightarrow> ll_action res" where
  "do_create has nodeid arg = ask_path has (with_arg 8 arg (bind_res (str_at 8 arg) (\<lambda>name.
     Inr (Create_File nodeid name (word_of_nat (field 4 4 arg)) (flags_info (field 0 4 arg))))))"

definition do_open :: "bool \<Rightarrow> nat \<Rightarrow> string \<Rightarrow> ll_action res" where
  "do_open has nodeid arg = with_arg 8 arg
     (let fi = flags_info (field 0 4 arg) in ask has (Reply_Open fi) (Inr (Path_Request (Open_File nodeid fi))))"

definition do_read :: "bool \<Rightarrow> nat \<Rightarrow> string \<Rightarrow> ll_action res" where
  "do_read has nodeid arg = ask_path has (with_arg 24 arg
     (Inr (Read_File nodeid (field 16 4 arg) (word_of_nat (field 8 8 arg)) (fh_info (field 0 8 arg)))))"

definition do_write :: "bool \<Rightarrow> nat \<Rightarrow> string \<Rightarrow> ll_action res" where
  "do_write has nodeid arg = ask_path has (with_arg 24 arg
     (Inr (Write_File nodeid (drop 24 arg) (field 16 4 arg) (word_of_nat (field 8 8 arg))
        ((fh_info (field 0 8 arg))\<lparr>fi_writepage := odd (field 20 4 arg)\<rparr>))))"

definition do_flush :: "bool \<Rightarrow> nat \<Rightarrow> nat \<Rightarrow> string \<Rightarrow> ll_action res" where
  "do_flush has minor nodeid arg = ask_path has (with_arg 24 arg
     (Inr (Flush_File nodeid ((fh_info (field 0 8 arg))\<lparr>fi_flush := True, fi_lock_owner := (if minor \<ge> 7 then field 16 8 arg else 0)\<rparr>))))"

definition do_release :: "bool \<Rightarrow> nat \<Rightarrow> nat \<Rightarrow> string \<Rightarrow> ll_action res" where
  "do_release has minor nodeid arg = ask has (Reply_Err 0) (with_arg 24 arg
     (let fi = (fh_info (field 0 8 arg))\<lparr>fi_flags := field 8 4 arg\<rparr> in
      Inr (Path_Request (Release_File nodeid
        (if minor \<ge> 8 then fi\<lparr>fi_flush := odd (field 12 4 arg), fi_lock_owner := field 16 8 arg\<rparr> else fi)))))"

definition do_fsync :: "bool \<Rightarrow> nat \<Rightarrow> string \<Rightarrow> ll_action res" where
  "do_fsync has nodeid arg = ask_path has (with_arg 16 arg
     (Inr (Sync_File nodeid (int (field 8 4 arg mod 2)) (fh_info (field 0 8 arg)))))"

definition do_opendir :: "bool \<Rightarrow> nat \<Rightarrow> string \<Rightarrow> ll_action res" where
  "do_opendir has nodeid arg = with_arg 8 arg
     (let fi = flags_info (field 0 4 arg) in ask has (Reply_Open fi) (Inr (Open_Dir nodeid fi)))"

definition do_readdir :: "bool \<Rightarrow> nat \<Rightarrow> string \<Rightarrow> ll_action res" where
  "do_readdir has nodeid arg = ask has (Reply_Err ENOSYS) (with_arg 24 arg
     (Inr (Read_Dir nodeid (field 16 4 arg) (word_of_nat (field 8 8 arg)) (fh_info (field 0 8 arg)))))"

definition do_releasedir :: "bool \<Rightarrow> nat \<Rightarrow> string \<Rightarrow> ll_action res" where
  "do_releasedir has nodeid arg = ask has (Reply_Err 0) (with_arg 24 arg
     (Inr (Release_Dir nodeid ((fh_info (field 0 8 arg))\<lparr>fi_flags := field 8 4 arg\<rparr>))))"

definition do_fsyncdir :: "bool \<Rightarrow> nat \<Rightarrow> string \<Rightarrow> ll_action res" where
  "do_fsyncdir has nodeid arg = ask has (Reply_Err ENOSYS) (with_arg 16 arg
     (Inr (Sync_Dir nodeid (int (field 8 4 arg mod 2)) (fh_info (field 0 8 arg)))))"

definition statvfs_none :: statvfs where
  "statvfs_none = \<lparr>f_bsize = 512, f_frsize = 0, f_blocks = 0, f_bfree = 0, f_bavail = 0, f_files = 0, f_ffree = 0,
     f_favail = 0, f_fsid = 0, f_flag = 0, f_namemax = 255\<rparr>"

definition do_statfs :: "bool \<Rightarrow> nat \<Rightarrow> string \<Rightarrow> ll_action res" where
  "do_statfs has nodeid arg = ask has (Reply_Statfs statvfs_none) (Inr (Path_Request (Stat_Fs nodeid)))"

definition do_setxattr :: "bool \<Rightarrow> nat \<Rightarrow> string \<Rightarrow> ll_action res" where
  "do_setxattr has nodeid arg = ask_path has (with_arg 8 arg (bind_res (str_at 8 arg) (\<lambda>name.
     Inr (Set_Xattr nodeid name (drop (8 + length name + 1) arg) (field 0 4 arg) (int32 (field 4 4 arg))))))"

definition do_getxattr :: "bool \<Rightarrow> nat \<Rightarrow> string \<Rightarrow> ll_action res" where
  "do_getxattr has nodeid arg = ask_path has (with_arg 8 arg (bind_res (str_at 8 arg) (\<lambda>name.
     Inr (Get_Xattr nodeid name (field 0 4 arg)))))"

definition do_listxattr :: "bool \<Rightarrow> nat \<Rightarrow> string \<Rightarrow> ll_action res" where
  "do_listxattr has nodeid arg = ask_path has (with_arg 8 arg (Inr (List_Xattr nodeid (field 0 4 arg))))"

definition do_removexattr :: "bool \<Rightarrow> nat \<Rightarrow> string \<Rightarrow> ll_action res" where
  "do_removexattr has nodeid arg = ask_path has (bind_res (str_at 0 arg) (\<lambda>name. Inr (Remove_Xattr nodeid name)))"

text \<open>The lock at a position of a message. The length is computed without a sign.\<close>

definition convert_fuse_file_lock :: "nat \<Rightarrow> string \<Rightarrow> flock" where
  "convert_fuse_file_lock pos arg =
     (let from = field pos 8 arg; upto = field (pos + 8) 8 arg in
      \<lparr>fl_type = sint (word_of_nat (field (pos + 16) 4 arg) :: 16 word), fl_start = int64 from,
       fl_len = (if int upto = OFFSET_MAX then 0 else sint (word_of_nat upto - word_of_nat from + 1 :: 64 word)),
       fl_pid = int32 (field (pos + 20) 4 arg)\<rparr>)"

definition lock_info :: "string \<Rightarrow> fuse_file_info" where
  "lock_info arg = (fh_info (field 0 8 arg))\<lparr>fi_lock_owner := field 8 8 arg\<rparr>"

definition do_getlk :: "bool \<Rightarrow> nat \<Rightarrow> string \<Rightarrow> ll_action res" where
  "do_getlk has nodeid arg = ask_path has (with_arg 40 arg (Inr (Get_Lock nodeid (lock_info arg) (convert_fuse_file_lock 16 arg))))"

definition do_setlk_common :: "bool \<Rightarrow> bool \<Rightarrow> nat \<Rightarrow> string \<Rightarrow> ll_action res" where
  "do_setlk_common has wait nodeid arg =
     ask_path has (with_arg 40 arg (Inr (Set_Lock nodeid (lock_info arg) (convert_fuse_file_lock 16 arg) wait)))"

definition do_bmap :: "bool \<Rightarrow> nat \<Rightarrow> string \<Rightarrow> ll_action res" where
  "do_bmap has nodeid arg = ask_path has (with_arg 16 arg (Inr (Map_Block nodeid (field 8 4 arg) (field 0 8 arg))))"

text \<open>The table \<open>fuse_ll_ops\<close> for the messages that reach the file system.\<close>

definition ll_decode :: "(nat \<Rightarrow> bool) \<Rightarrow> nat \<Rightarrow> nat \<Rightarrow> nat \<Rightarrow> string \<Rightarrow> ll_action res" where
  "ll_decode has minor opcode =
     (if opcode = FUSE_LOOKUP then do_lookup (has opcode)
      else if opcode = FUSE_FORGET then do_forget (has opcode)
      else if opcode = FUSE_GETATTR then do_getattr (has opcode)
      else if opcode = FUSE_SETATTR then do_setattr (has opcode)
      else if opcode = FUSE_READLINK then do_readlink (has opcode)
      else if opcode = FUSE_SYMLINK then do_symlink (has opcode)
      else if opcode = FUSE_MKNOD then do_mknod (has opcode)
      else if opcode = FUSE_MKDIR then do_mkdir (has opcode)
      else if opcode = FUSE_UNLINK then do_unlink (has opcode)
      else if opcode = FUSE_RMDIR then do_rmdir (has opcode)
      else if opcode = FUSE_RENAME then do_rename (has opcode)
      else if opcode = FUSE_LINK then do_link (has opcode)
      else if opcode = FUSE_OPEN then do_open (has opcode)
      else if opcode = FUSE_READ then do_read (has opcode)
      else if opcode = FUSE_WRITE then do_write (has opcode)
      else if opcode = FUSE_STATFS then do_statfs (has opcode)
      else if opcode = FUSE_RELEASE then do_release (has opcode) minor
      else if opcode = FUSE_FSYNC then do_fsync (has opcode)
      else if opcode = FUSE_SETXATTR then do_setxattr (has opcode)
      else if opcode = FUSE_GETXATTR then do_getxattr (has opcode)
      else if opcode = FUSE_LISTXATTR then do_listxattr (has opcode)
      else if opcode = FUSE_REMOVEXATTR then do_removexattr (has opcode)
      else if opcode = FUSE_FLUSH then do_flush (has opcode) minor
      else if opcode = FUSE_OPENDIR then do_opendir (has opcode)
      else if opcode = FUSE_READDIR then do_readdir (has opcode)
      else if opcode = FUSE_RELEASEDIR then do_releasedir (has opcode)
      else if opcode = FUSE_FSYNCDIR then do_fsyncdir (has opcode)
      else if opcode = FUSE_GETLK then do_getlk (has opcode)
      else if opcode = FUSE_SETLK then do_setlk_common (has FUSE_SETLK) False
      else if opcode = FUSE_SETLKW then do_setlk_common (has FUSE_SETLK) True
      else if opcode = FUSE_ACCESS then do_access (has opcode)
      else if opcode = FUSE_CREATE then do_create (has opcode)
      else do_bmap (has opcode))"

section \<open>Answers\<close>

text \<open>\<open>(double) ULONG_MAX\<close> is \<open>2 ^ 64\<close>, and a timeout of that many seconds does not fit into an \<open>unsigned long\<close>.\<close>

definition calc_timeout_sec :: "rat \<Rightarrow> nat res" where
  "calc_timeout_sec t =
     (if t > 2 ^ 64 then Inr (2 ^ 64 - 1) else if t < 0 then Inr 0
      else if t = 2 ^ 64 then Inl Undefined else Inr (nat \<lfloor>t\<rfloor>))"

definition double_of :: "nat \<Rightarrow> rat" where
  "double_of n = (if n = 2 ^ 64 - 1 then 2 ^ 64 else of_nat n)"

definition calc_timeout_nsec :: "rat \<Rightarrow> nat res" where
  "calc_timeout_nsec t =
     bind_res (calc_timeout_sec t) (\<lambda>s.
       let f = t - double_of s in
       Inr (if f < 0 then 0 else if f \<ge> 999999999 / 1000000000 then 999999999 else nat \<lfloor>f * 1000000000\<rfloor>))"

definition convert_stat :: "fattr \<Rightarrow> string" where
  "convert_stat st =
     (let s = at_st st in
      u64 (at_ino st) @ u64 (unat (st_size s)) @ u64 0 @ u64 (unat (st_atime s)) @ u64 (unat (st_mtime s)) @ u64 (unat (st_ctime s)) @
      u32 0 @ u32 0 @ u32 0 @ u32 (unat (st_mode s)) @ u32 (unat (st_nlink s)) @ u32 (unat (st_uid s)) @ u32 (unat (st_gid s)) @ u32 0)"

definition ll_fill_entry :: "fuse_entry_param \<Rightarrow> string res" where
  "ll_fill_entry e =
     bind_res (calc_timeout_sec (ep_entry_timeout e)) (\<lambda>es. bind_res (calc_timeout_nsec (ep_entry_timeout e)) (\<lambda>en.
     bind_res (calc_timeout_sec (ep_attr_timeout e)) (\<lambda>as. bind_res (calc_timeout_nsec (ep_attr_timeout e)) (\<lambda>an.
       Inr (u64 (ep_ino e) @ u64 (ep_generation e) @ u64 es @ u64 as @ u32 en @ u32 an @ convert_stat (ep_attr e))))))"

definition fill_open :: "fuse_file_info \<Rightarrow> string" where
  "fill_open fi = u64 (fi_fh fi) @ u32 ((if fi_direct_io fi then 1 else 0) + (if fi_keep_cache fi then 2 else 0)) @ u32 0"

definition convert_statfs :: "statvfs \<Rightarrow> string" where
  "convert_statfs st =
     u64 (f_blocks st) @ u64 (f_bfree st) @ u64 (f_bavail st) @ u64 (f_files st) @ u64 (f_ffree st) @
     u32 (f_bsize st) @ u32 (f_namemax st) @ u32 (f_frsize st) @ u32 0 @ concat (replicate 6 (u32 0))"

text \<open>The answers: the error, and the bytes behind the header. Before 7.4 an entry without a node was an error, and
  \<open>struct fuse_kstatfs\<close> was shorter.\<close>

definition fuse_reply_entry :: "nat \<Rightarrow> fuse_entry_param \<Rightarrow> (int \<times> string) res" where
  "fuse_reply_entry minor e = (if ep_ino e = 0 \<and> minor < 4 then Inr (- ENOENT, []) else bind_res (ll_fill_entry e) (\<lambda>b. Inr (0, b)))"

definition fuse_reply_create :: "fuse_entry_param \<Rightarrow> fuse_file_info \<Rightarrow> (int \<times> string) res" where
  "fuse_reply_create e fi = bind_res (ll_fill_entry e) (\<lambda>b. Inr (0, b @ fill_open fi))"

definition fuse_reply_attr :: "fattr \<Rightarrow> rat \<Rightarrow> (int \<times> string) res" where
  "fuse_reply_attr attr t =
     bind_res (calc_timeout_sec t) (\<lambda>s. bind_res (calc_timeout_nsec t) (\<lambda>n. Inr (0, u64 s @ u32 n @ u32 0 @ convert_stat attr)))"

definition fuse_reply_readlink :: "string \<Rightarrow> (int \<times> string) res" where
  "fuse_reply_readlink linkname = Inr (0, cstr linkname)"

definition fuse_reply_open :: "fuse_file_info \<Rightarrow> (int \<times> string) res" where
  "fuse_reply_open fi = Inr (0, fill_open fi)"

definition fuse_reply_write :: "int \<Rightarrow> (int \<times> string) res" where
  "fuse_reply_write count = Inr (0, s32 count @ u32 0)"

definition fuse_reply_buf :: "string \<Rightarrow> (int \<times> string) res" where
  "fuse_reply_buf buf = Inr (0, buf)"

definition fuse_reply_statfs :: "nat \<Rightarrow> statvfs \<Rightarrow> (int \<times> string) res" where
  "fuse_reply_statfs minor st = Inr (0, if minor < 4 then take 48 (convert_statfs st) else convert_statfs st)"

definition fuse_reply_xattr :: "int \<Rightarrow> (int \<times> string) res" where
  "fuse_reply_xattr count = Inr (0, s32 count @ u32 0)"

text \<open>The end of a lock is a sum of signed numbers.\<close>

definition fuse_reply_lock :: "flock \<Rightarrow> (int \<times> string) res" where
  "fuse_reply_lock lk =
     (if fl_type lk = F_UNLCK then Inr (0, u64 0 @ u64 0 @ s32 (fl_type lk) @ s32 (fl_pid lk))
      else if fl_len lk = 0 then Inr (0, s64 (fl_start lk) @ s64 OFFSET_MAX @ s32 (fl_type lk) @ s32 (fl_pid lk))
      else if in_long (fl_start lk + fl_len lk) \<and> in_long (fl_start lk + fl_len lk - 1)
      then Inr (0, s64 (fl_start lk) @ s64 (fl_start lk + fl_len lk - 1) @ s32 (fl_type lk) @ s32 (fl_pid lk))
      else Inl Undefined)"

definition fuse_reply_bmap :: "nat \<Rightarrow> (int \<times> string) res" where
  "fuse_reply_bmap idx = Inr (0, u64 idx)"

text \<open>\<open>fuse_reply_iov\<close> for a list of pieces. When memory is short it passes an error that is already negative.\<close>

definition fuse_reply_iov :: "bool \<Rightarrow> string list \<Rightarrow> int \<times> string" where
  "fuse_reply_iov mem_ok iov = (if \<not> mem_ok then (- (- ENOMEM), []) else (0, concat iov))"

text \<open>The answer of a handler. No message is sent for \<open>forget\<close>.\<close>

fun reply_of :: "nat \<Rightarrow> lib_reply \<Rightarrow> (int \<times> string) option res" where
  "reply_of minor Reply_None = Inr None"
| "reply_of minor (Reply_Err err) = Inr (Some (- err, []))"
| "reply_of minor (Reply_Entry e) = bind_res (fuse_reply_entry minor e) (\<lambda>x. Inr (Some x))"
| "reply_of minor (Reply_Attr st t) = bind_res (fuse_reply_attr st t) (\<lambda>x. Inr (Some x))"
| "reply_of minor (Reply_Readlink s) = bind_res (fuse_reply_readlink s) (\<lambda>x. Inr (Some x))"
| "reply_of minor (Reply_Open fi) = bind_res (fuse_reply_open fi) (\<lambda>x. Inr (Some x))"
| "reply_of minor (Reply_Create e fi) = bind_res (fuse_reply_create e fi) (\<lambda>x. Inr (Some x))"
| "reply_of minor (Reply_Write n) = bind_res (fuse_reply_write n) (\<lambda>x. Inr (Some x))"
| "reply_of minor (Reply_Buf b) = bind_res (fuse_reply_buf b) (\<lambda>x. Inr (Some x))"
| "reply_of minor (Reply_Statfs st) = bind_res (fuse_reply_statfs minor st) (\<lambda>x. Inr (Some x))"
| "reply_of minor (Reply_Xattr n) = bind_res (fuse_reply_xattr n) (\<lambda>x. Inr (Some x))"
| "reply_of minor (Reply_Lock lk) = bind_res (fuse_reply_lock lk) (\<lambda>x. Inr (Some x))"
| "reply_of minor (Reply_Bmap n) = bind_res (fuse_reply_bmap n) (\<lambda>x. Inr (Some x))"

text \<open>The handlers of libfuse for all that a message may ask for. The handle of an open directory is the one whose address the
  kernel has in \<open>fi_fh\<close>.\<close>

fun fuse_all_ops :: "('s, dir_buf) dir_operations \<Rightarrow> fuse_dh \<Rightarrow> nat \<Rightarrow> bool \<Rightarrow> ll_request \<Rightarrow> ('s, lib_reply) act" where
  "fuse_all_ops d dh fuel lost (Path_Request rq) = fuse_path_ops fuel lost rq"
| "fuse_all_ops d dh fuel lost (Open_Dir i fi) = bind_lib (fuse_lib_opendir d lost i (fi_flags fi)) (\<lambda>(r, _). ret_lib r)"
| "fuse_all_ops d dh fuel lost (Read_Dir i sz off fi) = bind_lib (fuse_lib_readdir d i sz off dh) (\<lambda>(r, _). ret_lib r)"
| "fuse_all_ops d dh fuel lost (Release_Dir i fi) = fuse_lib_releasedir d i dh"
| "fuse_all_ops d dh fuel lost (Sync_Dir i datasync fi) = fuse_lib_fsyncdir d i datasync dh"

text \<open>The message: \<open>struct fuse_out_header\<close> and the bytes.\<close>

definition out_message :: "nat \<Rightarrow> int \<Rightarrow> string \<Rightarrow> string" where
  "out_message uniq err bytes = u32 (16 + length bytes) @ s32 err @ u64 uniq @ bytes"

end
