(* ===== verification/Kernel_Req.thy ===== *)
theory Kernel_Req
  imports Fuse_Wire
begin

text \<open>
  The messages of the protocol as the kernel module builds them (\<open>other_fs/fuse-2.7.3/kernel\<close>: \<open>dir.c\<close>, \<open>file.c\<close>,
  \<open>inode.c\<close> and \<open>dev.c\<close>). For each operation, the part of the function that fills the request is modelled
  (\<open>\<dots>_in\<close>); what becomes of the answer is not. An inode is its node number, and a device number is already in the form that
  \<open>new_encode_dev\<close> gives it. The structures on the stack and those in a new request are cleared first.
\<close>

section \<open>Requests\<close>

text \<open>
  \<open>req->in\<close>: the opcode and the node of the header, and the arguments, of which the pages of a write are the last;
  and of \<open>req->out\<close> the sizes of the arguments, and whether the last may be shorter.
\<close>

record kreq =
  kr_opcode :: nat
  kr_nodeid :: nat
  kr_args :: "string list"
  kr_out :: "nat list"
  kr_argvar :: bool

text \<open>A name with the byte that ends it.\<close>

definition cbytes :: "string \<Rightarrow> string" where
  "cbytes s = s @ [NUL]"

text \<open>The sizes of the structures in the answers.\<close>

definition fuse_entry_out_size :: nat where "fuse_entry_out_size = 120"
definition fuse_attr_out_size :: nat where "fuse_attr_out_size = 96"
definition fuse_open_out_size :: nat where "fuse_open_out_size = 16"
definition fuse_statfs_out_size :: nat where "fuse_statfs_out_size = 80"
definition fuse_lk_out_size :: nat where "fuse_lk_out_size = 24"

section \<open>dir.c\<close>

definition fuse_lookup_init :: "nat \<Rightarrow> string \<Rightarrow> kreq" where
  "fuse_lookup_init dir name = \<lparr>kr_opcode = FUSE_LOOKUP, kr_nodeid = dir, kr_args = [cbytes name],
      kr_out = [fuse_entry_out_size], kr_argvar = False\<rparr>"

definition O_CREAT :: nat where "O_CREAT = 6"
definition O_EXCL :: nat where "O_EXCL = 7"
definition O_NOCTTY :: nat where "O_NOCTTY = 8"
definition O_TRUNC :: nat where "O_TRUNC = 9"

text \<open>\<open>flags\<close> are those of the intent, which are one more than those of \<open>open\<close>.\<close>

definition fuse_create_open_in :: "nat \<Rightarrow> string \<Rightarrow> mode_t \<Rightarrow> 32 word \<Rightarrow> kreq" where
  "fuse_create_open_in dir name mode intent =
     \<lparr>kr_opcode = FUSE_CREATE, kr_nodeid = dir,
      kr_args = [u32 (unat (unset_bit O_NOCTTY (intent - 1))) @ u32 (unat mode), cbytes name],
      kr_out = [fuse_entry_out_size, fuse_open_out_size], kr_argvar = False\<rparr>"

text \<open>Shared by \<open>mknod\<close>, \<open>mkdir\<close>, \<open>symlink\<close> and \<open>link\<close>.\<close>

definition create_new_entry_in :: "nat \<Rightarrow> kreq \<Rightarrow> kreq" where
  "create_new_entry_in dir k = k\<lparr>kr_nodeid := dir, kr_out := [fuse_entry_out_size]\<rparr>"

definition fuse_mknod_in :: "nat \<Rightarrow> string \<Rightarrow> mode_t \<Rightarrow> 32 word \<Rightarrow> kreq" where
  "fuse_mknod_in dir name mode rdev =
     create_new_entry_in dir \<lparr>kr_opcode = FUSE_MKNOD, kr_nodeid = 0, kr_args = [u32 (unat mode) @ u32 (unat rdev), cbytes name],
      kr_out = [], kr_argvar = False\<rparr>"

definition fuse_mkdir_in :: "nat \<Rightarrow> string \<Rightarrow> mode_t \<Rightarrow> kreq" where
  "fuse_mkdir_in dir name mode = create_new_entry_in dir \<lparr>kr_opcode = FUSE_MKDIR, kr_nodeid = 0, kr_args = [u32 (unat mode) @ u32 0, cbytes name],
      kr_out = [], kr_argvar = False\<rparr>"

definition fuse_symlink_in :: "nat \<Rightarrow> string \<Rightarrow> string \<Rightarrow> kreq" where
  "fuse_symlink_in dir name link = create_new_entry_in dir \<lparr>kr_opcode = FUSE_SYMLINK, kr_nodeid = 0, kr_args = [cbytes name, cbytes link],
      kr_out = [], kr_argvar = False\<rparr>"

definition fuse_unlink_in :: "nat \<Rightarrow> string \<Rightarrow> kreq" where
  "fuse_unlink_in dir name = \<lparr>kr_opcode = FUSE_UNLINK, kr_nodeid = dir, kr_args = [cbytes name],
      kr_out = [], kr_argvar = False\<rparr>"

definition fuse_rmdir_in :: "nat \<Rightarrow> string \<Rightarrow> kreq" where
  "fuse_rmdir_in dir name = \<lparr>kr_opcode = FUSE_RMDIR, kr_nodeid = dir, kr_args = [cbytes name],
      kr_out = [], kr_argvar = False\<rparr>"

definition fuse_rename_in :: "nat \<Rightarrow> string \<Rightarrow> nat \<Rightarrow> string \<Rightarrow> kreq" where
  "fuse_rename_in olddir oldname newdir newname =
     \<lparr>kr_opcode = FUSE_RENAME, kr_nodeid = olddir, kr_args = [u64 newdir, cbytes oldname, cbytes newname],
      kr_out = [], kr_argvar = False\<rparr>"

definition fuse_link_in :: "nat \<Rightarrow> nat \<Rightarrow> string \<Rightarrow> kreq" where
  "fuse_link_in inode newdir newname = create_new_entry_in newdir \<lparr>kr_opcode = FUSE_LINK, kr_nodeid = 0, kr_args = [u64 inode, cbytes newname],
      kr_out = [], kr_argvar = False\<rparr>"

definition fuse_do_getattr_in :: "nat \<Rightarrow> kreq" where
  "fuse_do_getattr_in inode = \<lparr>kr_opcode = FUSE_GETATTR, kr_nodeid = inode, kr_args = [],
      kr_out = [fuse_attr_out_size], kr_argvar = False\<rparr>"

definition fuse_access_in :: "nat \<Rightarrow> int \<Rightarrow> kreq" where
  "fuse_access_in inode msk = \<lparr>kr_opcode = FUSE_ACCESS, kr_nodeid = inode, kr_args = [s32 msk @ u32 0],
      kr_out = [], kr_argvar = False\<rparr>"

definition read_link_in :: "nat \<Rightarrow> kreq" where
  "read_link_in inode = \<lparr>kr_opcode = FUSE_READLINK, kr_nodeid = inode, kr_args = [],
      kr_out = [4095], kr_argvar = True\<rparr>"

text \<open>\<open>struct iattr\<close>: which of the attributes are to be set, their values, and the handle of \<open>ia_file\<close>.\<close>

record iattr =
  ia_valid :: "32 word"
  ia_mode :: mode_t
  ia_uid :: "32 word"
  ia_gid :: "32 word"
  ia_size :: off_t
  ia_atime :: "64 word"
  ia_mtime :: "64 word"
  ia_fh :: nat

definition ATTR_MODE :: nat where "ATTR_MODE = 0"
definition ATTR_UID :: nat where "ATTR_UID = 1"
definition ATTR_GID :: nat where "ATTR_GID = 2"
definition ATTR_SIZE :: nat where "ATTR_SIZE = 3"
definition ATTR_ATIME :: nat where "ATTR_ATIME = 4"
definition ATTR_MTIME :: nat where "ATTR_MTIME = 5"
definition ATTR_FILE :: nat where "ATTR_FILE = 13"

definition fattr_bit :: "bool \<Rightarrow> nat \<Rightarrow> nat" where
  "fattr_bit b n = (if b then 2 ^ n else 0)"

text \<open>\<open>struct fuse_setattr_in\<close> after \<open>iattr_to_fattr\<close>. The handle is not passed for a directory.\<close>

definition iattr_to_fattr :: "bool \<Rightarrow> iattr \<Rightarrow> string" where
  "iattr_to_fattr isdir ia =
     (let v = ia_valid ia; times = bit v ATTR_ATIME \<and> bit v ATTR_MTIME;
          valid = fattr_bit (bit v ATTR_MODE) 0 + fattr_bit (bit v ATTR_UID) 1 + fattr_bit (bit v ATTR_GID) 2 +
            fattr_bit (bit v ATTR_SIZE) 3 + fattr_bit times 4 + fattr_bit times 5 + fattr_bit (bit v ATTR_FILE \<and> \<not> isdir) 6 in
      u32 valid @ u32 0 @ u64 (if bit v ATTR_FILE then ia_fh ia else 0) @ u64 (if bit v ATTR_SIZE then unat (ia_size ia) else 0) @
      u64 0 @ u64 (if times then unat (ia_atime ia) else 0) @ u64 (if times then unat (ia_mtime ia) else 0) @ u64 0 @
      u32 0 @ u32 0 @ u32 0 @ u32 (if bit v ATTR_MODE then unat (ia_mode ia) else 0) @ u32 0 @
      u32 (if bit v ATTR_UID then unat (ia_uid ia) else 0) @ u32 (if bit v ATTR_GID then unat (ia_gid ia) else 0) @ u32 0)"

definition fuse_setattr_in :: "nat \<Rightarrow> bool \<Rightarrow> iattr \<Rightarrow> kreq" where
  "fuse_setattr_in inode isdir attr = \<lparr>kr_opcode = FUSE_SETATTR, kr_nodeid = inode, kr_args = [iattr_to_fattr isdir attr],
      kr_out = [fuse_attr_out_size], kr_argvar = False\<rparr>"

definition fuse_setxattr_in :: "nat \<Rightarrow> string \<Rightarrow> string \<Rightarrow> int \<Rightarrow> kreq" where
  "fuse_setxattr_in inode name val flags =
     \<lparr>kr_opcode = FUSE_SETXATTR, kr_nodeid = inode, kr_args = [u32 (length val) @ s32 flags, cbytes name, val],
      kr_out = [], kr_argvar = False\<rparr>"

definition fuse_getxattr_in :: "nat \<Rightarrow> string \<Rightarrow> nat \<Rightarrow> kreq" where
  "fuse_getxattr_in inode name sz =
     \<lparr>kr_opcode = FUSE_GETXATTR, kr_nodeid = inode, kr_args = [u32 sz @ u32 0, cbytes name],
      kr_out = [if sz \<noteq> 0 then sz else 8], kr_argvar = (sz \<noteq> 0)\<rparr>"

definition fuse_listxattr_in :: "nat \<Rightarrow> nat \<Rightarrow> kreq" where
  "fuse_listxattr_in inode sz = \<lparr>kr_opcode = FUSE_LISTXATTR, kr_nodeid = inode, kr_args = [u32 sz @ u32 0],
      kr_out = [if sz \<noteq> 0 then sz else 8], kr_argvar = (sz \<noteq> 0)\<rparr>"

definition fuse_removexattr_in :: "nat \<Rightarrow> string \<Rightarrow> kreq" where
  "fuse_removexattr_in inode name = \<lparr>kr_opcode = FUSE_REMOVEXATTR, kr_nodeid = inode, kr_args = [cbytes name],
      kr_out = [], kr_argvar = False\<rparr>"

section \<open>file.c\<close>

definition fuse_send_open_in :: "nat \<Rightarrow> 32 word \<Rightarrow> bool \<Rightarrow> kreq" where
  "fuse_send_open_in inode f_flags isdir =
     \<lparr>kr_opcode = (if isdir then FUSE_OPENDIR else FUSE_OPEN), kr_nodeid = inode,
      kr_args = [u32 (unat (unset_bit O_CREAT (unset_bit O_EXCL (unset_bit O_NOCTTY (unset_bit O_TRUNC f_flags))))) @ u32 0],
      kr_out = [fuse_open_out_size], kr_argvar = False\<rparr>"

definition fuse_release_fill :: "nat \<Rightarrow> nat \<Rightarrow> 32 word \<Rightarrow> bool \<Rightarrow> kreq" where
  "fuse_release_fill inode fh flags isdir =
     \<lparr>kr_opcode = (if isdir then FUSE_RELEASEDIR else FUSE_RELEASE), kr_nodeid = inode,
      kr_args = [u64 fh @ u32 (unat flags) @ u32 0 @ u64 0],
      kr_out = [], kr_argvar = False\<rparr>"

text \<open>The owner of a lock is not shown as it is: 32 rounds of XTEA with the key of the connection.\<close>

type_synonym xtea_key = "2 word \<Rightarrow> 32 word"

definition xtea_mix :: "32 word \<Rightarrow> 32 word" where
  "xtea_mix v = xor (push_bit 4 v) (drop_bit 5 v) + v"

fun xtea_rounds :: "xtea_key \<Rightarrow> nat \<Rightarrow> 32 word \<Rightarrow> 32 word \<times> 32 word \<Rightarrow> 32 word \<times> 32 word" where
  "xtea_rounds k 0 s v = v"
| "xtea_rounds k (Suc n) s (v0, v1) =
     (let v0' = v0 + xor (xtea_mix v1) (s + k (ucast s)); s' = s + 0x9E3779B9;
          v1' = v1 + xor (xtea_mix v0') (s' + k (ucast (drop_bit 11 s'))) in
      xtea_rounds k n s' (v0', v1'))"

definition fuse_lock_owner_id :: "xtea_key \<Rightarrow> 64 word \<Rightarrow> 64 word" where
  "fuse_lock_owner_id k i =
     (let (v0, v1) = xtea_rounds k 32 0 (ucast i, ucast (drop_bit 32 i)) in ucast v0 + push_bit 32 (ucast v1))"

definition fuse_flush_in :: "nat \<Rightarrow> nat \<Rightarrow> 64 word \<Rightarrow> kreq" where
  "fuse_flush_in inode fh owner =
     \<lparr>kr_opcode = FUSE_FLUSH, kr_nodeid = inode, kr_args = [u64 fh @ u32 0 @ u32 0 @ u64 (unat owner)],
      kr_out = [], kr_argvar = False\<rparr>"

definition fuse_fsync_common_in :: "nat \<Rightarrow> nat \<Rightarrow> bool \<Rightarrow> bool \<Rightarrow> kreq" where
  "fuse_fsync_common_in inode fh datasync isdir =
     \<lparr>kr_opcode = (if isdir then FUSE_FSYNCDIR else FUSE_FSYNC), kr_nodeid = inode,
      kr_args = [u64 fh @ u32 (if datasync then 1 else 0) @ u32 0],
      kr_out = [], kr_argvar = False\<rparr>"

definition fuse_read_fill :: "nat \<Rightarrow> nat \<Rightarrow> off_t \<Rightarrow> nat \<Rightarrow> bool \<Rightarrow> kreq" where
  "fuse_read_fill inode fh pos count isdir =
     \<lparr>kr_opcode = (if isdir then FUSE_READDIR else FUSE_READ), kr_nodeid = inode,
      kr_args = [u64 fh @ u64 (unat pos) @ u32 count @ u32 0],
      kr_out = [count], kr_argvar = True\<rparr>"

definition fuse_send_write_in :: "nat \<Rightarrow> nat \<Rightarrow> off_t \<Rightarrow> string \<Rightarrow> kreq" where
  "fuse_send_write_in inode fh pos data =
     \<lparr>kr_opcode = FUSE_WRITE, kr_nodeid = inode, kr_args = [u64 fh @ u64 (unat pos) @ u32 (length data) @ u32 0, data],
      kr_out = [8], kr_argvar = False\<rparr>"

text \<open>\<open>struct file_lock\<close>\<close>

record file_lock =
  kl_start :: int
  kl_end :: int
  kl_type :: nat

definition fuse_lk_fill :: "nat \<Rightarrow> nat \<Rightarrow> 64 word \<Rightarrow> file_lock \<Rightarrow> nat \<Rightarrow> nat \<Rightarrow> kreq" where
  "fuse_lk_fill inode fh owner fl opcode pid =
     \<lparr>kr_opcode = opcode, kr_nodeid = inode,
      kr_args = [u64 fh @ u64 (unat owner) @ s64 (kl_start fl) @ s64 (kl_end fl) @ u32 (kl_type fl) @ u32 pid],
      kr_out = [], kr_argvar = False\<rparr>"

definition fuse_getlk_in :: "nat \<Rightarrow> nat \<Rightarrow> 64 word \<Rightarrow> file_lock \<Rightarrow> kreq" where
  "fuse_getlk_in inode fh owner fl = (fuse_lk_fill inode fh owner fl FUSE_GETLK 0)\<lparr>kr_out := [fuse_lk_out_size]\<rparr>"

definition fuse_setlk_in :: "nat \<Rightarrow> nat \<Rightarrow> 64 word \<Rightarrow> file_lock \<Rightarrow> bool \<Rightarrow> nat \<Rightarrow> kreq" where
  "fuse_setlk_in inode fh owner fl wait tgid =
     fuse_lk_fill inode fh owner fl (if wait then FUSE_SETLKW else FUSE_SETLK) (if int (kl_type fl) \<noteq> F_UNLCK then tgid else 0)"

definition fuse_bmap_in :: "nat \<Rightarrow> nat \<Rightarrow> nat \<Rightarrow> kreq" where
  "fuse_bmap_in inode block blocksize =
     \<lparr>kr_opcode = FUSE_BMAP, kr_nodeid = inode, kr_args = [u64 block @ u32 blocksize @ u32 0],
      kr_out = [8], kr_argvar = False\<rparr>"

section \<open>inode.c\<close>

definition fuse_send_forget_in :: "nat \<Rightarrow> nat \<Rightarrow> kreq" where
  "fuse_send_forget_in nodeid nlookup = \<lparr>kr_opcode = FUSE_FORGET, kr_nodeid = nodeid, kr_args = [u64 nlookup],
      kr_out = [], kr_argvar = False\<rparr>"

definition fuse_send_destroy_in :: kreq where
  "fuse_send_destroy_in = \<lparr>kr_opcode = FUSE_DESTROY, kr_nodeid = 0, kr_args = [],
      kr_out = [], kr_argvar = False\<rparr>"

definition fuse_statfs_in :: "nat \<Rightarrow> kreq" where
  "fuse_statfs_in inode = \<lparr>kr_opcode = FUSE_STATFS, kr_nodeid = inode, kr_args = [],
      kr_out = [fuse_statfs_out_size], kr_argvar = False\<rparr>"

definition fuse_send_init_in :: "nat \<Rightarrow> kreq" where
  "fuse_send_init_in max_readahead =
     \<lparr>kr_opcode = FUSE_INIT, kr_nodeid = 0, kr_args = [u32 7 @ u32 8 @ u32 max_readahead @ u32 3],
      kr_out = [24], kr_argvar = True\<rparr>"

section \<open>dev.c\<close>

text \<open>Zero is no number of a request.\<close>

definition fuse_get_unique :: "64 word \<Rightarrow> 64 word" where
  "fuse_get_unique reqctr = (if reqctr + 1 = 0 then 1 else reqctr + 1)"

definition len_args :: "string list \<Rightarrow> nat" where
  "len_args args = sum_list (map length args) mod 2 ^ 32"

text \<open>The bytes that \<open>fuse_dev_readv\<close> copies for a request with the number, the user, the group and the process.\<close>

definition request_bytes :: "nat \<Rightarrow> nat \<Rightarrow> nat \<Rightarrow> nat \<Rightarrow> kreq \<Rightarrow> string" where
  "request_bytes uniq uid gid pid k =
     u32 (40 + len_args (kr_args k)) @ u32 (kr_opcode k) @ u64 uniq @ u64 (kr_nodeid k) @ u32 uid @ u32 gid @ u32 pid @ u32 0 @
     concat (kr_args k)"

text \<open>The message with which \<open>fuse_read_interrupt\<close> interrupts a request.\<close>

definition interrupt_bytes :: "nat \<Rightarrow> nat \<Rightarrow> string" where
  "interrupt_bytes intr_unique uniq =
     request_bytes intr_unique 0 0 0
       \<lparr>kr_opcode = FUSE_INTERRUPT, kr_nodeid = 0, kr_args = [u64 uniq],
      kr_out = [], kr_argvar = False\<rparr>"

text \<open>
  \<open>copy_out_args\<close>: what the kernel makes of an answer to a request, with the error of its header and the number of
  its bytes. The result is an error, and the sizes of the arguments that are copied.
\<close>

definition EINVAL :: int where "EINVAL = 22"

definition copy_out_args :: "kreq \<Rightarrow> int \<Rightarrow> nat \<Rightarrow> int \<times> nat list" where
  "copy_out_args k err nbytes =
     (if err \<noteq> 0 then (if nbytes \<noteq> 16 then - EINVAL else 0, [])
      else let reqsize = 16 + sum_list (kr_out k); diffsize = reqsize - nbytes in
        if reqsize < nbytes \<or> reqsize > nbytes \<and> \<not> kr_argvar k then (- EINVAL, [])
        else if reqsize > nbytes
        then (if diffsize > last (kr_out k) then (- EINVAL, []) else (0, butlast (kr_out k) @ [last (kr_out k) - diffsize]))
        else (0, kr_out k))"

text \<open>The checks of \<open>fuse_dev_writev\<close> on the header of an answer.\<close>

definition out_header_ok :: "string \<Rightarrow> bool" where
  "out_header_ok buf \<longleftrightarrow>
     16 \<le> length buf \<and> field 8 8 buf \<noteq> 0 \<and> \<not> (int32 (field 4 4 buf) \<le> -1000 \<or> int32 (field 4 4 buf) > 0) \<and> field 0 4 buf = length buf"

section \<open>Calls\<close>

text \<open>The calls of the file system's functions in the kernel that lead to a message for the file system.\<close>

datatype kcall =
  K_Lookup nat string | K_Forget nat nat | K_Getattr nat | K_Setattr nat bool iattr | K_Access nat int | K_Readlink nat
| K_Mknod nat string mode_t "32 word" | K_Mkdir nat string mode_t | K_Unlink nat string | K_Rmdir nat string
| K_Symlink nat string string | K_Rename nat string nat string | K_Link nat nat string
| K_Create nat string mode_t "32 word" | K_Open nat "32 word" bool | K_Read nat nat off_t nat bool
| K_Write nat nat off_t string | K_Flush nat nat "64 word" | K_Release nat nat "32 word" bool | K_Fsync nat nat bool bool
| K_Statfs nat | K_Setxattr nat string string int | K_Getxattr nat string nat | K_Listxattr nat nat
| K_Removexattr nat string | K_Getlk nat nat "64 word" file_lock | K_Setlk nat nat "64 word" file_lock bool nat
| K_Bmap nat nat nat

fun kernel_request :: "kcall \<Rightarrow> kreq" where
  "kernel_request (K_Lookup d s) = fuse_lookup_init d s"
| "kernel_request (K_Forget i n) = fuse_send_forget_in i n"
| "kernel_request (K_Getattr i) = fuse_do_getattr_in i"
| "kernel_request (K_Setattr i isdir ia) = fuse_setattr_in i isdir ia"
| "kernel_request (K_Access i msk) = fuse_access_in i msk"
| "kernel_request (K_Readlink i) = read_link_in i"
| "kernel_request (K_Mknod d s mode rdev) = fuse_mknod_in d s mode rdev"
| "kernel_request (K_Mkdir d s mode) = fuse_mkdir_in d s mode"
| "kernel_request (K_Unlink d s) = fuse_unlink_in d s"
| "kernel_request (K_Rmdir d s) = fuse_rmdir_in d s"
| "kernel_request (K_Symlink d s t) = fuse_symlink_in d s t"
| "kernel_request (K_Rename d s e t) = fuse_rename_in d s e t"
| "kernel_request (K_Link i d s) = fuse_link_in i d s"
| "kernel_request (K_Create d s mode intent) = fuse_create_open_in d s mode intent"
| "kernel_request (K_Open i flags isdir) = fuse_send_open_in i flags isdir"
| "kernel_request (K_Read i fh pos n isdir) = fuse_read_fill i fh pos n isdir"
| "kernel_request (K_Write i fh pos data) = fuse_send_write_in i fh pos data"
| "kernel_request (K_Flush i fh owner) = fuse_flush_in i fh owner"
| "kernel_request (K_Release i fh flags isdir) = fuse_release_fill i fh flags isdir"
| "kernel_request (K_Fsync i fh datasync isdir) = fuse_fsync_common_in i fh datasync isdir"
| "kernel_request (K_Statfs i) = fuse_statfs_in i"
| "kernel_request (K_Setxattr i s v flags) = fuse_setxattr_in i s v flags"
| "kernel_request (K_Getxattr i s n) = fuse_getxattr_in i s n"
| "kernel_request (K_Listxattr i n) = fuse_listxattr_in i n"
| "kernel_request (K_Removexattr i s) = fuse_removexattr_in i s"
| "kernel_request (K_Getlk i fh owner fl) = fuse_getlk_in i fh owner fl"
| "kernel_request (K_Setlk i fh owner fl wait tgid) = fuse_setlk_in i fh owner fl wait tgid"
| "kernel_request (K_Bmap i block sz) = fuse_bmap_in i block sz"

end
