(* ===== verification/Fuse_Ll_Laws.thy ===== *)
theory Fuse_Ll_Laws
  imports Fuse_Lowlevel Fuse_Dir_Laws
begin

text \<open>
  Sequences of messages and answers: no request is answered twice, and no interrupt is lost. Each interrupt reaches
  its request, waits for it, or is sent back to the kernel with \<open>EAGAIN\<close>, unless the request is already gone.
\<close>

section \<open>Steps\<close>

text \<open>A message that arrives as an interrupt: the two lists see it.\<close>

definition refused :: "fuse_ll \<Rightarrow> fuse_in_header \<Rightarrow> bool" where
  "refused f h \<longleftrightarrow>
     \<not> ll_got_init f \<and> in_opcode h \<noteq> FUSE_INIT \<or>
     ll_allow_root f \<and> in_uid h \<noteq> ll_owner f \<and> in_uid h \<noteq> 0 \<and>
       in_opcode h \<notin> {FUSE_INIT, FUSE_READ, FUSE_WRITE, FUSE_FSYNC, FUSE_RELEASE, FUSE_READDIR, FUSE_FSYNCDIR, FUSE_RELEASEDIR} \<or>
     \<not> fuse_ll_ops (in_opcode h)"

definition interrupts_of :: "fuse_ll \<Rightarrow> bool \<Rightarrow> string \<Rightarrow> (nat \<times> nat) set" where
  "interrupts_of f mem_ok buf =
     (let h = in_header buf in
      if mem_ok \<and> \<not> refused f h \<and> in_opcode h = FUSE_INTERRUPT then {(in_unique h, field 0 8 (drop 40 buf))} else {})"

text \<open>
  What can happen from a state on: messages, whose numbers are new, answers to outstanding requests, and
  functions for them. \<open>U\<close> are the numbers of all messages, \<open>I\<close> the interrupts among them with their targets.
\<close>

inductive ll_run :: "ll_env \<Rightarrow> fuse_ll \<Rightarrow> nat set \<Rightarrow> (nat \<times> nat) set \<Rightarrow> fuse_ll \<Rightarrow> bool" for env f0 where
  start: "ll_run env f0 {} {} f0"
| message: "ll_run env f0 U I f \<Longrightarrow> in_unique (in_header buf) \<notin> U \<Longrightarrow> fuse_ll_process env mem_ok buf f = (c, f') \<Longrightarrow>
    ll_run env f0 (insert (in_unique (in_header buf)) U) (I \<union> interrupts_of f mem_ok buf) f'"
| reply: "ll_run env f0 U I f \<Longrightarrow> r \<in> set (ll_list f) \<Longrightarrow> ll_run env f0 U I (send_reply_iov r err bytes f)"
| none: "ll_run env f0 U I f \<Longrightarrow> r \<in> set (ll_list f) \<Longrightarrow> ll_run env f0 U I (fuse_reply_none r f)"
| func: "ll_run env f0 U I f \<Longrightarrow> r \<in> set (ll_list f) \<Longrightarrow> ll_run env f0 U I (fuse_req_interrupt_func r g f)"

section \<open>Invariant\<close>

definition flagged :: "fuse_req list \<Rightarrow> nat \<Rightarrow> bool" where
  "flagged L u \<longleftrightarrow> (\<exists>r\<in>set L. rq_unique r = u \<and> rq_interrupted r)"

definition sent_back :: "(nat \<times> nat) set \<Rightarrow> (nat \<times> int \<times> string) list \<Rightarrow> nat \<Rightarrow> bool" where
  "sent_back I S u \<longleftrightarrow> (\<exists>q. (q, u) \<in> I \<and> (q, - EAGAIN, []) \<in> set S)"

text \<open>What has become of an interrupt of \<open>u\<close>.\<close>

definition settled :: "nat set \<Rightarrow> (nat \<times> nat) set \<Rightarrow> fuse_req list \<Rightarrow> fuse_req list \<Rightarrow> (nat \<times> int \<times> string) list \<Rightarrow> nat \<Rightarrow> bool" where
  "settled U I L P S u \<longleftrightarrow>
     sent_back I S u \<or> u \<notin> U \<and> u \<in> rq_target ` set P \<or> flagged L u \<or> u \<in> U \<and> u \<notin> rq_unique ` set L"

definition ll_ok :: "nat set \<Rightarrow> (nat \<times> nat) set \<Rightarrow> fuse_req list \<Rightarrow> fuse_req list \<Rightarrow> (nat \<times> int \<times> string) list \<Rightarrow> bool" where
  "ll_ok U I L P S \<longleftrightarrow>
     distinct (map rq_unique L @ map rq_unique P @ map fst S) \<and> set (map rq_unique L @ map rq_unique P @ map fst S) \<subseteq> U \<and>
     distinct (map rq_target P) \<and> (\<forall>c\<in>set P. rq_target c \<notin> rq_unique ` set L \<and> (rq_unique c, rq_target c) \<in> I) \<and>
     (\<forall>(q, u)\<in>I. settled U I L P S u)"

lemma sent_back_mono: "sent_back I S u \<Longrightarrow> I \<subseteq> I' \<Longrightarrow> set S \<subseteq> set S' \<Longrightarrow> sent_back I' S' u"
  by (auto simp: sent_back_def)

text \<open>A message that is answered at once, or dropped.\<close>

lemma ok_refuse:
  assumes "ll_ok U I L P S" "u \<notin> U"
  shows "ll_ok (insert u U) I L P (S @ [(u, err, bytes)])" "ll_ok (insert u U) I L P S"
proof -
  have *: "settled (insert u U) I L P (S @ T) v" if "(q, v) \<in> I" for q v T
  proof -
    have "settled U I L P S v"
      using assms(1) that by (auto simp: ll_ok_def)
    moreover have "v \<notin> rq_unique ` set L" if "v = u"
      using assms that by (auto simp: ll_ok_def)
    ultimately show ?thesis
      using sent_back_mono [of I S v I "S @ T"] by (auto simp: settled_def)
  qed
  show "ll_ok (insert u U) I L P (S @ [(u, err, bytes)])"
    using assms * by (auto simp: ll_ok_def)
  show "ll_ok (insert u U) I L P S"
    using assms * [of _ _ "[]"] by (auto simp: ll_ok_def)
qed

lemma map_remove1_set: "distinct (map g L) \<Longrightarrow> r \<in> set L \<Longrightarrow> g ` set (remove1 r L) = g ` set L - {g r}"
  by (induction L) (auto simp: inj_on_def)

lemma distinct_map_remove1: "distinct (map g L) \<Longrightarrow> distinct (map g (remove1 r L))"
  by (induction L) (use set_remove1_subset in \<open>fastforce simp: image_iff\<close>)+

lemma distinct_shrink_left:
  "distinct (A @ B @ C) \<Longrightarrow> distinct A' \<Longrightarrow> set A' = set A - {u} \<Longrightarrow> u \<in> set A \<Longrightarrow>
   distinct (A' @ B @ C) \<and> distinct (A' @ B @ C @ [u])"
  by auto

lemma distinct_grow_left:
  "distinct (A @ B @ C) \<Longrightarrow> distinct B' \<Longrightarrow> set B' \<subseteq> set B \<Longrightarrow> u \<notin> set A \<union> set B \<union> set C \<Longrightarrow>
   distinct ((A @ [u]) @ B' @ C)"
  by auto

lemma distinct_last_part: "distinct (A @ B @ C) \<Longrightarrow> distinct C \<and> set C \<inter> (set A \<union> set B) = {}"
  by auto

text \<open>An outstanding request leaves the list, answered or not.\<close>

lemma ok_finish:
  assumes "ll_ok U I L P S" "r \<in> set L" "T = [] \<or> (\<exists>err bytes. T = [(rq_unique r, err, bytes)])"
  shows "ll_ok U I (remove1 r L) P (S @ T)"
proof -
  have d: "distinct (map rq_unique L)" and sub: "rq_unique r \<in> U"
    using assms(1,2) by (auto simp: ll_ok_def)
  note less = map_remove1_set [OF d assms(2)]
  have "settled U I (remove1 r L) P (S @ T) v" if "(q, v) \<in> I" for q v
  proof (cases "v = rq_unique r")
    case True
    then show ?thesis
      using less sub by (simp add: settled_def)
  next
    case False
    then have "flagged (remove1 r L) v" if "flagged L v"
      using that by (auto simp: flagged_def intro: in_set_remove1 [THEN iffD2])
    then show ?thesis
      using assms(1) that less sent_back_mono [of I S v I "S @ T"] by (fastforce simp: ll_ok_def settled_def)
  qed
  then have settled: "\<forall>(q, u)\<in>I. settled U I (remove1 r L) P (S @ T) u"
    by blast
  have "distinct (map rq_unique L @ map rq_unique P @ map fst S)"
    using assms(1) by (simp add: ll_ok_def)
  then have "distinct (map rq_unique (remove1 r L) @ map rq_unique P @ map fst (S @ T))"
    using distinct_shrink_left [where A = "map rq_unique L" and B = "map rq_unique P" and C = "map fst S" and u = "rq_unique r",
        OF _ distinct_map_remove1 [OF d, of r]] less assms(2,3)
    by (elim disjE exE) simp_all
  moreover have "set (map rq_unique (remove1 r L) @ map rq_unique P @ map fst (S @ T)) \<subseteq> U"
    using assms(1,3) less sub by (auto simp: ll_ok_def)
  moreover have "distinct (map rq_target P)"
    "\<forall>c\<in>set P. rq_target c \<notin> rq_unique ` set (remove1 r L) \<and> (rq_unique c, rq_target c) \<in> I"
    using assms(1) less by (simp_all add: ll_ok_def)
  ultimately show ?thesis
    using settled by (simp add: ll_ok_def)
qed

text \<open>An interrupt arrives.\<close>

lemma mark_first_unique [simp]: "map rq_unique (mark_first u L) = map rq_unique L"
  by (induction L) auto

lemma mark_first_set [simp]: "rq_unique ` set (mark_first u L) = rq_unique ` set L"
  by (metis mark_first_unique list.set_map)

lemma mark_first_flagged: "flagged (mark_first u L) v \<longleftrightarrow> flagged L v \<or> v = u \<and> u \<in> rq_unique ` set L"
  by (induction L) (auto simp: flagged_def)

lemma ok_interrupt:
  assumes "ll_ok U I L P S" "q \<notin> U"
  shows "u \<in> rq_unique ` set L \<Longrightarrow> ll_ok (insert q U) (insert (q, u) I) (mark_first u L) P S"
    "u \<notin> rq_unique ` set L \<Longrightarrow> u \<in> rq_target ` set P \<Longrightarrow> ll_ok (insert q U) (insert (q, u) I) L P S"
    "u \<notin> rq_unique ` set L \<Longrightarrow> u \<notin> rq_target ` set P \<Longrightarrow> rq_unique c = q \<Longrightarrow> rq_target c = u \<Longrightarrow> ll_ok (insert q U) (insert (q, u) I) L (P @ [c]) S"
proof -
  have q: "q \<notin> rq_unique ` set L"
    using assms by (auto simp: ll_ok_def)
  have old: "settled (insert q U) (insert (q, u) I) L' (P @ P') S v"
    if "(q', v) \<in> I" "rq_unique ` set L' = rq_unique ` set L" "\<And>v. flagged L v \<Longrightarrow> flagged L' v" for q' v L' P'
  proof -
    have "settled U I L P S v"
      using assms(1) that(1) by (auto simp: ll_ok_def)
    then show ?thesis
      using that(2,3) q sent_back_mono [of I S v "insert (q, u) I" S] by (auto simp: settled_def)
  qed
  show "ll_ok (insert q U) (insert (q, u) I) (mark_first u L) P S" if "u \<in> rq_unique ` set L"
  proof -
    have "settled (insert q U) (insert (q, u) I) (mark_first u L) P S u"
      using that by (simp add: settled_def mark_first_flagged)
    then show ?thesis
      using assms old [of _ _ "mark_first u L" "[]"] by (auto simp: ll_ok_def mark_first_flagged)
  qed
  show "ll_ok (insert q U) (insert (q, u) I) L P S" if "u \<notin> rq_unique ` set L" "u \<in> rq_target ` set P"
  proof -
    have "settled (insert q U) (insert (q, u) I) L P S u"
      using that by (auto simp: settled_def)
    then show ?thesis
      using assms old [of _ _ L "[]"] by (auto simp: ll_ok_def)
  qed
  show "ll_ok (insert q U) (insert (q, u) I) L (P @ [c]) S"
    if "u \<notin> rq_unique ` set L" "u \<notin> rq_target ` set P" "rq_unique c = q" "rq_target c = u"
  proof -
    have "settled (insert q U) (insert (q, u) I) L (P @ [c]) S u"
      using that by (auto simp: settled_def)
    then show ?thesis
      using assms that old [of _ _ L "[c]"] by (auto simp: ll_ok_def)
  qed
qed

text \<open>Another request arrives, after its interrupt or not.\<close>

lemma ok_admit_flagged:
  assumes "ll_ok U I L P S" "u \<notin> U" "c \<in> set P" "rq_target c = u" "rq_unique r = u" "rq_interrupted r"
  shows "ll_ok (insert u U) I (L @ [r]) (remove1 c P) S"
proof -
  have new: "u \<notin> rq_unique ` set L" "u \<notin> rq_unique ` set P" "u \<notin> fst ` set S" and tgt: "distinct (map rq_target P)"
    using assms(1,2) by (auto simp: ll_ok_def)
  have other: "rq_target ` set (remove1 c P) = rq_target ` set P - {u}"
    using map_remove1_set [OF tgt assms(3)] assms(4) by simp
  have "settled (insert u U) I (L @ [r]) (remove1 c P) S v" if "(q, v) \<in> I" for q v
  proof (cases "v = u")
    case True
    then show ?thesis
      using assms(5,6) by (auto simp: settled_def flagged_def)
  next
    case False
    have "settled U I L P S v"
      using assms(1) that by (auto simp: ll_ok_def)
    then show ?thesis
      using False other assms(5) by (auto simp: settled_def flagged_def)
  qed
  then have "\<forall>(q, v)\<in>I. settled (insert u U) I (L @ [r]) (remove1 c P) S v"
    by blast
  moreover have "distinct (map rq_unique (L @ [r]) @ map rq_unique (remove1 c P) @ map fst S)"
    using distinct_grow_left [where A = "map rq_unique L" and B = "map rq_unique P" and C = "map fst S" and u = u,
        OF _ distinct_map_remove1 [of rq_unique P c]] assms(1,5) new
      image_mono [OF set_remove1_subset, of rq_unique c P] by (simp add: ll_ok_def)
  moreover have "set (map rq_unique (L @ [r]) @ map rq_unique (remove1 c P) @ map fst S) \<subseteq> insert u U"
    using assms(1,5) set_remove1_subset [of c P] by (fastforce simp: ll_ok_def)
  moreover have "\<forall>x\<in>set (remove1 c P). rq_target x \<notin> rq_unique ` set (L @ [r]) \<and> (rq_unique x, rq_target x) \<in> I"
  proof
    fix x
    assume x: "x \<in> set (remove1 c P)"
    then have "x \<in> set P" "rq_target x \<noteq> u"
      using set_remove1_subset [of c P] other by auto
    then show "rq_target x \<notin> rq_unique ` set (L @ [r]) \<and> (rq_unique x, rq_target x) \<in> I"
      using assms(1,5) by (auto simp: ll_ok_def)
  qed
  ultimately show ?thesis
    using distinct_map_remove1 [OF tgt] by (simp add: ll_ok_def)
qed

lemma ok_admit:
  assumes "ll_ok U I L P S" "u \<notin> U" "u \<notin> rq_target ` set P" "rq_unique r = u"
  shows "ll_ok (insert u U) I (L @ [r]) P S"
proof -
  have "settled (insert u U) I (L @ [r]) P S v" if "(q, v) \<in> I" for q v
  proof -
    have "settled U I L P S v" "rq_unique ` set L \<subseteq> U"
      using assms(1) that by (auto simp: ll_ok_def)
    then show ?thesis
      using assms(2-4) by (auto simp: settled_def flagged_def image_iff)
  qed
  then show ?thesis
    using assms by (auto simp: ll_ok_def image_iff)
qed

text \<open>An interrupt that waits is sent back.\<close>

lemma ok_send_back:
  assumes "ll_ok U I L (c # P) S"
  shows "ll_ok U I L P (S @ [(rq_unique c, - EAGAIN, [])])"
proof -
  have "settled U I L P (S @ [(rq_unique c, - EAGAIN, [])]) v" if "(q, v) \<in> I" for q v
  proof (cases "v = rq_target c")
    case True
    then show ?thesis
      using assms by (auto simp: ll_ok_def settled_def sent_back_def)
  next
    case False
    have "settled U I L (c # P) S v"
      using assms that by (auto simp: ll_ok_def)
    then show ?thesis
      using False sent_back_mono [of I S v I "S @ [(rq_unique c, - EAGAIN, [])]"] by (auto simp: settled_def)
  qed
  then show ?thesis
    using assms by (auto simp: ll_ok_def)
qed

section \<open>The invariant of a session\<close>

text \<open>The lists as above, and a function for an interrupted request has been called.\<close>

definition state_ok :: "nat set \<Rightarrow> (nat \<times> nat) set \<Rightarrow> fuse_ll \<Rightarrow> bool" where
  "state_ok U I f \<longleftrightarrow>
     ll_ok U I (ll_list f) (ll_interrupts f) (ll_sent f) \<and>
     (\<forall>r\<in>set (ll_list f). rq_interrupted r \<and> rq_func r \<longrightarrow> rq_unique r \<in> set (ll_signals f))"

lemma state_ok_cong:
  "ll_list g = ll_list f \<Longrightarrow> ll_interrupts g = ll_interrupts f \<Longrightarrow> ll_sent g = ll_sent f \<Longrightarrow> ll_signals g = ll_signals f \<Longrightarrow>
   state_ok U I g = state_ok U I f"
  by (simp add: state_ok_def)

lemma state_ok_conn [simp]:
  "state_ok U I (f\<lparr>ll_conn := c\<rparr>) = state_ok U I f" "state_ok U I (f\<lparr>ll_conn := c, ll_got_init := b\<rparr>) = state_ok U I f"
  "state_ok U I (f\<lparr>ll_got_destroy := b\<rparr>) = state_ok U I f"
  by (simp_all add: state_ok_def)

lemma send_reply_iov_fields [simp]:
  "ll_list (send_reply_iov r e b f) = remove1 r (ll_list f)"
  "ll_interrupts (send_reply_iov r e b f) = ll_interrupts f"
  "ll_sent (send_reply_iov r e b f) = ll_sent f @ [(rq_unique r, if e \<le> -1000 \<or> e > 0 then - ERANGE else e, b)]"
  "ll_signals (send_reply_iov r e b f) = ll_signals f"
  by (simp_all add: send_reply_iov_def free_req_def list_del_req_def Let_def)

lemma reply_state_ok:
  assumes "state_ok U I f" "r \<in> set (ll_list f)"
  shows "state_ok U I (send_reply_iov r e b f)"
  using ok_finish [of U I "ll_list f" "ll_interrupts f" "ll_sent f" r] assms set_remove1_subset [of r "ll_list f"]
  by (auto simp: state_ok_def)

lemma reply_none_state_ok:
  assumes "state_ok U I f" "r \<in> set (ll_list f)"
  shows "state_ok U I (fuse_reply_none r f)"
  using ok_finish [of U I "ll_list f" "ll_interrupts f" "ll_sent f" r "[]"] assms set_remove1_subset [of r "ll_list f"]
  by (auto simp: state_ok_def fuse_reply_none_def free_req_def list_del_req_def)

lemma refuse_state_ok:
  assumes "state_ok U I f" "rq_unique r \<notin> U"
  shows "state_ok (insert (rq_unique r) U) I (send_reply_iov r e b f)"
proof -
  have "r \<notin> set (ll_list f)"
    using assms by (auto simp: state_ok_def ll_ok_def)
  then show ?thesis
    using ok_refuse(1) assms by (simp add: state_ok_def remove1_idem)
qed

text \<open>A function for a request changes nothing that the lists record.\<close>

lemma ok_relabel:
  assumes "ll_ok U I L P S" "map rq_unique L' = map rq_unique L" "\<And>v. flagged L' v = flagged L v"
  shows "ll_ok U I L' P S"
proof -
  have "rq_unique ` set L' = rq_unique ` set L"
    using assms(2) by (metis list.set_map)
  then show ?thesis
    using assms by (simp add: ll_ok_def settled_def)
qed

lemma flagged_map:
  "(\<And>x. rq_unique (h x) = rq_unique x \<and> rq_interrupted (h x) = rq_interrupted x) \<Longrightarrow> flagged (map h L) v = flagged L v"
  by (auto simp: flagged_def)

lemma func_state_ok:
  assumes "state_ok U I f" "r \<in> set (ll_list f)"
  shows "state_ok U I (fuse_req_interrupt_func r g f)"
proof -
  let ?L' = "map (\<lambda>x. if x = r then x\<lparr>rq_func := g\<rparr> else x) (ll_list f)"
  have "map rq_unique ?L' = map rq_unique (ll_list f)"
    by simp
  moreover have "flagged ?L' v = flagged (ll_list f) v" for v
    by (rule flagged_map) simp
  ultimately have "ll_ok U I ?L' (ll_interrupts f) (ll_sent f)"
    using assms(1) by (auto simp: state_ok_def intro: ok_relabel)
  then show ?thesis
    using assms(1) by (auto simp: state_ok_def fuse_req_interrupt_func_def)
qed

lemma find_in_some: "find Q xs = Some x \<Longrightarrow> x \<in> set xs \<and> Q x"
  by (metis find_Some_iff nth_mem)

lemma mark_first_mem:
  "r \<in> set (mark_first u L) \<Longrightarrow> r \<in> set L \<or> (\<exists>c. find (\<lambda>c. rq_unique c = u) L = Some c \<and> r = c\<lparr>rq_interrupted := True\<rparr>)"
  by (induction L) (auto split: if_splits)

lemma interrupt_state_ok:
  assumes "state_ok U I f" "rq_unique r \<notin> U"
  shows "state_ok (insert (rq_unique r) U) (insert (rq_unique r, field 0 8 inarg) I) (do_interrupt r inarg f)"
proof -
  let ?u = "field 0 8 inarg"
  have ok: "ll_ok U I (ll_list f) (ll_interrupts f) (ll_sent f)"
    using assms(1) by (simp add: state_ok_def)
  show ?thesis
  proof (cases "find (\<lambda>c. rq_unique c = ?u) (ll_list f)")
    case None
    then have "?u \<notin> rq_unique ` set (ll_list f)"
      by (auto simp: find_None_iff)
    moreover have "(\<exists>c\<in>set (ll_interrupts f). rq_target c = ?u) \<longleftrightarrow> ?u \<in> rq_target ` set (ll_interrupts f)"
      by (metis image_iff)
    ultimately show ?thesis
      using ok_interrupt(2) [OF ok assms(2), of ?u] ok_interrupt(3) [OF ok assms(2), of ?u "r\<lparr>rq_target := ?u\<rparr>"] None assms(1)
      by (simp add: state_ok_def do_interrupt_def find_interrupted_def list_add_req_def)
  next
    case (Some c)
    then have "?u \<in> rq_unique ` set (ll_list f)"
      using find_in_some [OF Some] by force
    then show ?thesis
      using ok_interrupt(1) [OF ok assms(2), of ?u] Some assms(1)
      by (auto simp: state_ok_def do_interrupt_def find_interrupted_def dest!: mark_first_mem)
  qed
qed

text \<open>A request that is admitted.\<close>

definition admit :: "fuse_req \<Rightarrow> fuse_ll \<Rightarrow> fuse_req \<times> fuse_ll" where
  "admit req f =
     (let (intr, req1, f1) = check_interrupt req f; f2 = f1\<lparr>ll_list := list_add_req req1 (ll_list f1)\<rparr> in
      (req1, case intr of None \<Rightarrow> f2 | Some i \<Rightarrow> fuse_reply_err i EAGAIN f2))"

lemma admit_state_ok:
  assumes "state_ok U I f" "rq_unique r \<notin> U" "\<not> rq_func r" "admit r f = (r', f')"
  shows "state_ok (insert (rq_unique r) U) I f'" "r' \<in> set (ll_list f')" "rq_unique r' = rq_unique r"
proof -
  have ok: "ll_ok U I (ll_list f) (ll_interrupts f) (ll_sent f)"
    using assms(1) by (simp add: state_ok_def)
  have "state_ok (insert (rq_unique r) U) I f' \<and> r' \<in> set (ll_list f') \<and> rq_unique r' = rq_unique r"
  proof (cases "find (\<lambda>c. rq_target c = rq_unique r) (ll_interrupts f)")
    case (Some c)
    then show ?thesis
      using ok_admit_flagged [OF ok assms(2), of c "r\<lparr>rq_interrupted := True\<rparr>"] find_in_some [OF Some] assms(1,3,4)
      by (auto simp: state_ok_def admit_def check_interrupt_def list_add_req_def list_del_req_def)
  next
    case None
    then have "rq_unique r \<notin> rq_target ` set (ll_interrupts f)"
      by (auto simp: find_None_iff)
    note new = ok_admit [OF ok assms(2) this refl]
    show ?thesis
    proof (cases "ll_interrupts f")
      case Nil
      then show ?thesis
        using None new assms(1,3,4) by (auto simp: state_ok_def admit_def check_interrupt_def list_add_req_def)
    next
      case (Cons c P)
      have "c \<notin> set (ll_list f @ [r])"
        using ok Cons assms(2) by (auto simp: ll_ok_def)
      moreover have "f' = fuse_reply_err c EAGAIN (f\<lparr>ll_interrupts := P, ll_list := ll_list f @ [r]\<rparr>)" "r' = r"
        using None Cons assms(4) by (auto simp: admit_def check_interrupt_def list_add_req_def)
      ultimately show ?thesis
        using ok_send_back [of _ _ _ c P] new Cons assms(1,3)
        by (auto simp: state_ok_def fuse_reply_err_def EAGAIN_def remove1_idem)
    qed
  qed
  then show "state_ok (insert (rq_unique r) U) I f'" "r' \<in> set (ll_list f')" "rq_unique r' = rq_unique r"
    by simp_all
qed

lemma process_state_ok:
  assumes ok: "state_ok U I f" and new: "in_unique (in_header buf) \<notin> U"
    and run: "fuse_ll_process env mem_ok buf f = (c, f')"
  shows "state_ok (insert (in_unique (in_header buf)) U) (I \<union> interrupts_of f mem_ok buf) f'"
proof -
  let ?h = "in_header buf"
  let ?r = "\<lparr>rq_unique = in_unique ?h, rq_uid = in_uid ?h, rq_interrupted = False, rq_target = 0, rq_func = False\<rparr>"
  have r: "rq_unique ?r \<notin> U"
    using new by simp
  consider "\<not> mem_ok" | "mem_ok" "refused f ?h" | "mem_ok" "\<not> refused f ?h" "in_opcode ?h = FUSE_INTERRUPT"
    | "mem_ok" "\<not> refused f ?h" "in_opcode ?h \<noteq> FUSE_INTERRUPT"
    by blast
  then show ?thesis
  proof cases
    case 1
    then show ?thesis
      using run ok ok_refuse(2) new by (auto simp: fuse_ll_process_def interrupts_of_def Let_def state_ok_def)
  next
    case 2
    then have "\<exists>e. f' = send_reply_iov ?r e [] f"
      using run by (auto simp: fuse_ll_process_def refused_def Let_def fuse_reply_err_def split: if_splits)
    then show ?thesis
      using refuse_state_ok [OF ok r] 2 by (auto simp: interrupts_of_def Let_def)
  next
    case 3
    then have "f' = do_interrupt ?r (drop 40 buf) f"
      using run by (auto simp: fuse_ll_process_def refused_def Let_def)
    then show ?thesis
      using interrupt_state_ok [OF ok r] 3 by (auto simp: interrupts_of_def Let_def)
  next
    case 4
    obtain r' g where a: "admit ?r f = (r', g)"
      by fastforce
    have f': "f' = (if in_opcode ?h = FUSE_INIT then do_init env r' (drop 40 buf) g
        else if in_opcode ?h = FUSE_DESTROY then do_destroy r' g else g)"
      using 4 run a by (auto simp: fuse_ll_process_def refused_def admit_def Let_def split: prod.splits if_splits)
    note adm = admit_state_ok [OF ok r _ a, simplified]
    have "state_ok (insert (in_unique ?h) U) I f'"
      unfolding f' do_init_def do_destroy_def fuse_reply_err_def send_reply_ok_def Let_def
      using adm by (simp add: reply_state_ok)
    then show ?thesis
      using 4 by (simp add: interrupts_of_def Let_def)
  qed
qed

lemma run_state_ok:
  assumes "ll_run env f0 U I f" "state_ok {} {} f0"
  shows "state_ok U I f"
  using assms
  by induction (auto simp: process_state_ok reply_state_ok reply_none_state_ok func_state_ok)

lemma new_ll_ok: "state_ok {} {} (new_ll a o' r w h)"
  by (simp add: state_ok_def new_ll_def ll_ok_def)

section \<open>Properties\<close>

text \<open>C12: in every sequence of messages with new numbers, answers to outstanding requests and interrupt
  functions, no message is answered twice: the answers carry different numbers, only numbers of messages that
  arrived, and never the number of a request that is still outstanding or of an interrupt that still waits.\<close>

theorem answered_once:
  assumes "ll_run env (new_ll a owner r w h) U I f"
  shows "distinct (map fst (ll_sent f)) \<and> fst ` set (ll_sent f) \<subseteq> U \<and>
    fst ` set (ll_sent f) \<inter> rq_unique ` (set (ll_list f) \<union> set (ll_interrupts f)) = {}"
proof -
  have "distinct (map rq_unique (ll_list f) @ map rq_unique (ll_interrupts f) @ map fst (ll_sent f))"
    "set (map rq_unique (ll_list f) @ map rq_unique (ll_interrupts f) @ map fst (ll_sent f)) \<subseteq> U"
    using run_state_ok [OF assms new_ll_ok] by (simp_all add: state_ok_def ll_ok_def)
  then show ?thesis
    using distinct_last_part [of "map rq_unique (ll_list f)" "map rq_unique (ll_interrupts f)" "map fst (ll_sent f)"]
    by (simp add: image_Un)
qed

text \<open>C11: no interrupt that libfuse has taken is lost. In every sequence of messages with new numbers, answers
  and interrupt functions, the request that it names is outstanding and marked, and its interrupt function, if
  it has one, was called, whichever came first; or the request has not arrived and an interrupt for it waits; or
  an interrupt for the same request was sent back to the kernel with \<open>EAGAIN\<close>; or the request has arrived and
  is no longer outstanding.\<close>

theorem interrupt_not_lost:
  assumes "ll_run env (new_ll a owner r w h) U I f" "(q, u) \<in> I"
  shows "(\<exists>x\<in>set (ll_list f). rq_unique x = u \<and> rq_interrupted x \<and> (rq_func x \<longrightarrow> u \<in> set (ll_signals f))) \<or>
    u \<notin> U \<and> (\<exists>c\<in>set (ll_interrupts f). rq_target c = u) \<or>
    (\<exists>p. (p, u) \<in> I \<and> (p, - EAGAIN, []) \<in> set (ll_sent f)) \<or>
    u \<in> U \<and> u \<notin> rq_unique ` set (ll_list f)"
proof -
  have "settled U I (ll_list f) (ll_interrupts f) (ll_sent f) u"
    "\<forall>x\<in>set (ll_list f). rq_interrupted x \<and> rq_func x \<longrightarrow> rq_unique x \<in> set (ll_signals f)"
    using run_state_ok [OF assms(1) new_ll_ok] assms(2) by (auto simp: state_ok_def ll_ok_def)
  then show ?thesis
    unfolding settled_def flagged_def sent_back_def by (metis (no_types, lifting) imageE)
qed

lemma fst_of_ifs:
  "A \<or> B \<or> C \<or> D \<Longrightarrow> fst (if A then (n, x) else if B then (n, y) else if C then (n, z) else if D then (n, v) else w) = n"
  by auto

text \<open>Which messages reach the file system. After \<open>FUSE_INIT\<close> was answered, a message with an operation of the
  table, other than the three that libfuse handles itself, from the owner, root, or anybody if \<open>allow_root\<close> is
  not set or the operation is one on an open file, and no other.\<close>

theorem message_admitted:
  "fst (fuse_ll_process env mem_ok buf f) \<noteq> No_Call \<longleftrightarrow>
     mem_ok \<and> ll_got_init f \<and> fuse_ll_ops (in_opcode (in_header buf)) \<and>
     in_opcode (in_header buf) \<notin> {FUSE_INIT, FUSE_INTERRUPT, FUSE_DESTROY} \<and>
     (if ll_allow_root f
      then in_uid (in_header buf) \<in> {ll_owner f, 0} \<or>
        in_opcode (in_header buf) \<in> {FUSE_READ, FUSE_WRITE, FUSE_FSYNC, FUSE_RELEASE, FUSE_READDIR, FUSE_FSYNCDIR, FUSE_RELEASEDIR}
      else True)"
proof -
  have "fst (fuse_ll_process env mem_ok buf f) \<noteq> No_Call \<longleftrightarrow>
    mem_ok \<and> \<not> refused f (in_header buf) \<and> in_opcode (in_header buf) \<notin> {FUSE_INIT, FUSE_INTERRUPT, FUSE_DESTROY}"
  proof (cases "mem_ok \<and> \<not> refused f (in_header buf)")
    case True
    then show ?thesis
      by (auto simp: fuse_ll_process_def refused_def Let_def split_beta)
  next
    case False
    then have "fst (fuse_ll_process env mem_ok buf f) = No_Call"
      unfolding fuse_ll_process_def Let_def by (intro fst_of_ifs) (auto simp: refused_def)
    then show ?thesis
      using False by blast
  qed
  also have "\<dots> \<longleftrightarrow> mem_ok \<and> \<not> refused f (in_header buf) \<and> ll_got_init f \<and>
      in_opcode (in_header buf) \<notin> {FUSE_INIT, FUSE_INTERRUPT, FUSE_DESTROY}"
    by (auto simp: refused_def)
  finally show ?thesis
    by (cases "ll_allow_root f") (auto simp: refused_def)
qed

text \<open>What \<open>FUSE_INIT\<close> settles, for a file system that leaves the connection as it is. Afterwards no write is
  longer than the channel's buffer has room for beside 4096 bytes of headers, and the readahead is no more than
  the kernel offered and the options allow; a kernel before 7.6 gets no readahead and no asynchronous reads.\<close>

theorem init_negotiates:
  assumes "env_init env = id" "7 \<le> field 0 4 inarg"
  shows "ll_got_init (do_init env r inarg f) \<and>
    ci_max_write (ll_conn (do_init env r inarg f)) = min (ci_max_write (ll_conn f)) (max (env_bufsize env) 8192 - 4096) \<and>
    ci_max_readahead (ll_conn (do_init env r inarg f)) =
      (if field 0 4 inarg = 7 \<and> field 4 4 inarg < 6 then 0 else min (field 8 4 inarg) (ci_max_readahead (ll_conn f)))"
  using assms
  by (auto simp: do_init_def new_conn_def send_reply_ok_def send_reply_iov_def free_req_def FUSE_MIN_READ_BUFFER_def Let_def)

end
