(* ===== verification/Wire_Laws.thy ===== *)
theory Wire_Laws
  imports Kernel_Req Fuse_Ll_Laws
begin

text \<open>
  The kernel and libfuse agree on the messages: what the kernel builds for a call is read by libfuse as that
  call, and what libfuse answers has the size that the kernel expects.
\<close>

section \<open>Fields\<close>

lemma field_here [simp]: "field 0 k (le_bytes k x @ r) = x mod 256 ^ k"
  by (simp add: field_def le_val_bytes)

lemma field_last [simp]: "field 0 k (le_bytes k x) = x mod 256 ^ k"
  using field_here [of k x "[]"] by (simp del: field_here)

lemma field_skip [simp]: "length xs \<le> pos \<Longrightarrow> field pos k (xs @ r) = field (pos - length xs) k r"
  by (simp add: field_def)

lemma length_cbytes [simp]: "length (cbytes s) = length s + 1"
  by (simp add: cbytes_def)

lemma str_here [simp]: "NUL \<notin> set s \<Longrightarrow> str_at 0 (cbytes s @ r) = Inr s"
  by (simp add: str_at_def cbytes_def cstr_stop)

lemma str_last [simp]: "NUL \<notin> set s \<Longrightarrow> str_at 0 (cbytes s) = Inr s"
  using str_here [of s "[]"] by (simp del: str_here)

lemma str_skip [simp]: "length xs \<le> pos \<Longrightarrow> str_at pos (xs @ r) = str_at (pos - length xs) r"
  by (simp add: str_at_def)

lemma with_arg_long [simp]: "n \<le> length arg \<Longrightarrow> with_arg n arg k = k"
  by (simp add: with_arg_def)

lemma unat_mod32 [simp]: "unat (w :: 32 word) mod 4294967296 = unat w"
  using unsigned_less [of w, where 'a = nat] by simp

lemma unat_mod64 [simp]: "unat (w :: 64 word) mod 18446744073709551616 = unat w"
  using unsigned_less [of w, where 'a = nat] by simp

lemma length_s [simp]: "length (s32 x) = 4" "length (s64 x) = 8"
  by (simp_all add: s32_def s64_def)

lemma field_s [simp]:
  "field 0 4 (s32 x @ r) = unat (word_of_int x :: 32 word)" "field 0 4 (s32 x) = unat (word_of_int x :: 32 word)"
  "field 0 8 (s64 x @ r) = unat (word_of_int x :: 64 word)"
  by (simp_all add: s32_def s64_def)

lemma int32_of [simp]: "in_int x \<Longrightarrow> int32 (unat (word_of_int x :: 32 word)) = x"
  by (simp add: int32_def in_int_def INT_MIN_def INT_MAX_def signed_of_int signed_take_bit_int_eq_self)

section \<open>The header\<close>

lemma in_header_of [simp]:
  assumes "u < 2 ^ 64" "uid < 2 ^ 32" "kr_opcode k < 2 ^ 32" "kr_nodeid k < 2 ^ 64"
  shows "in_header (request_bytes u uid gid pid k) = \<lparr>in_opcode = kr_opcode k, in_unique = u, in_nodeid = kr_nodeid k, in_uid = uid\<rparr>"
  using assms by (simp add: in_header_def request_bytes_def)

lemma args_of [simp]: "drop 40 (request_bytes u uid gid pid k) = concat (kr_args k)"
  by (simp add: request_bytes_def)

section \<open>What a call means\<close>

text \<open>The attributes that \<open>setattr\<close> is to set, and the lock that is asked for.\<close>

definition set_times :: "iattr \<Rightarrow> bool" where
  "set_times ia \<longleftrightarrow> bit (ia_valid ia) ATTR_ATIME \<and> bit (ia_valid ia) ATTR_MTIME"

definition iattr_stat :: "iattr \<Rightarrow> stat" where
  "iattr_stat ia =
     stat_zero\<lparr>st_mode := (if bit (ia_valid ia) ATTR_MODE then ia_mode ia else 0),
       st_uid := (if bit (ia_valid ia) ATTR_UID then ia_uid ia else 0), st_gid := (if bit (ia_valid ia) ATTR_GID then ia_gid ia else 0),
       st_size := (if bit (ia_valid ia) ATTR_SIZE then ia_size ia else 0),
       st_atime := (if set_times ia then ia_atime ia else 0), st_mtime := (if set_times ia then ia_mtime ia else 0)\<rparr>"

definition bits :: "bool list \<Rightarrow> 32 word" where
  "bits bs = word_of_nat (horner_sum of_bool 2 bs)"

definition iattr_bits :: "iattr \<Rightarrow> 32 word" where
  "iattr_bits ia = bits [bit (ia_valid ia) ATTR_MODE, bit (ia_valid ia) ATTR_UID, bit (ia_valid ia) ATTR_GID,
     bit (ia_valid ia) ATTR_SIZE, set_times ia, set_times ia]"

definition lock_of :: "file_lock \<Rightarrow> nat \<Rightarrow> flock" where
  "lock_of fl pid =
     \<lparr>fl_type = int (kl_type fl), fl_start = kl_start fl,
      fl_len = (if kl_end fl = OFFSET_MAX then 0 else kl_end fl - kl_start fl + 1), fl_pid = int pid\<rparr>"

definition owner_info :: "nat \<Rightarrow> 64 word \<Rightarrow> fuse_file_info" where
  "owner_info fh owner = (fh_info fh)\<lparr>fi_lock_owner := unat owner\<rparr>"

fun meant :: "kcall \<Rightarrow> ll_request" where
  "meant (K_Lookup d s) = Path_Request (Lookup d s)"
| "meant (K_Forget i n) = Path_Request (Forget i n)"
| "meant (K_Getattr i) = Path_Request (Get_Attr i)"
| "meant (K_Setattr i isdir ia) = Path_Request (Set_Attr i (iattr_stat ia) (iattr_bits ia)
     (if bit (ia_valid ia) ATTR_FILE \<and> \<not> isdir then Some (fh_info (ia_fh ia)) else None))"
| "meant (K_Access i msk) = Path_Request (Check_Access i msk)"
| "meant (K_Readlink i) = Path_Request (Read_Link i)"
| "meant (K_Mknod d s mode rdev) = Path_Request (Make_Node d s mode (ucast rdev))"
| "meant (K_Mkdir d s mode) = Path_Request (Make_Dir d s mode)"
| "meant (K_Unlink d s) = Path_Request (Unlink_Name d s)"
| "meant (K_Rmdir d s) = Path_Request (Remove_Dir d s)"
| "meant (K_Symlink d s t) = Path_Request (Make_Symlink t d s)"
| "meant (K_Rename d s e t) = Path_Request (Rename_Name d s e t)"
| "meant (K_Link i d s) = Path_Request (Make_Link i d s)"
| "meant (K_Create d s mode intent) = Path_Request (Create_File d s mode (flags_info (unat (unset_bit O_NOCTTY (intent - 1)))))"
| "meant (K_Open i flags isdir) =
     (let fi = flags_info (unat (unset_bit O_CREAT (unset_bit O_EXCL (unset_bit O_NOCTTY (unset_bit O_TRUNC flags))))) in
      if isdir then Open_Dir i fi else Path_Request (Open_File i fi))"
| "meant (K_Read i fh pos n isdir) =
     (if isdir then Read_Dir i n pos (fh_info fh) else Path_Request (Read_File i n pos (fh_info fh)))"
| "meant (K_Write i fh pos data) = Path_Request (Write_File i data (length data) pos (fh_info fh))"
| "meant (K_Flush i fh owner) = Path_Request (Flush_File i ((owner_info fh owner)\<lparr>fi_flush := True\<rparr>))"
| "meant (K_Release i fh flags isdir) =
     (let fi = (fh_info fh)\<lparr>fi_flags := unat flags\<rparr> in if isdir then Release_Dir i fi else Path_Request (Release_File i fi))"
| "meant (K_Fsync i fh datasync isdir) =
     (if isdir then Sync_Dir i (of_bool datasync) (fh_info fh) else Path_Request (Sync_File i (of_bool datasync) (fh_info fh)))"
| "meant (K_Statfs i) = Path_Request (Stat_Fs i)"
| "meant (K_Setxattr i s v flags) = Path_Request (Set_Xattr i s v (length v) flags)"
| "meant (K_Getxattr i s n) = Path_Request (Get_Xattr i s n)"
| "meant (K_Listxattr i n) = Path_Request (List_Xattr i n)"
| "meant (K_Removexattr i s) = Path_Request (Remove_Xattr i s)"
| "meant (K_Getlk i fh owner fl) = Path_Request (Get_Lock i (owner_info fh owner) (lock_of fl 0))"
| "meant (K_Setlk i fh owner fl wait tgid) =
     Path_Request (Set_Lock i (owner_info fh owner) (lock_of fl (if int (kl_type fl) \<noteq> F_UNLCK then tgid else 0)) wait)"
| "meant (K_Bmap i block sz) = Path_Request (Map_Block i sz block)"

text \<open>What fits into the fields of a message: numbers of nodes and handles of 64 bits, sizes of 32 bits, names without a NUL.\<close>

definition lock_fits :: "file_lock \<Rightarrow> bool" where
  "lock_fits fl \<longleftrightarrow> 0 \<le> kl_start fl \<and> kl_start fl \<le> kl_end fl \<and> kl_end fl \<le> OFFSET_MAX \<and> kl_type fl < 2 ^ 15"

abbreviation id64_ok :: "nat \<Rightarrow> bool" where "id64_ok i \<equiv> i < 2 ^ 64"
abbreviation size32_ok :: "nat \<Rightarrow> bool" where "size32_ok n \<equiv> n < 2 ^ 32"
abbreviation str_ok :: "string \<Rightarrow> bool" where "str_ok s \<equiv> NUL \<notin> set s"

fun call_fits :: "kcall \<Rightarrow> bool" where
  "call_fits (K_Lookup d s) \<longleftrightarrow> id64_ok d \<and> str_ok s"
| "call_fits (K_Forget i n) \<longleftrightarrow> id64_ok i \<and> id64_ok n"
| "call_fits (K_Getattr i) \<longleftrightarrow> id64_ok i"
| "call_fits (K_Setattr i isdir ia) \<longleftrightarrow> id64_ok i \<and> id64_ok (ia_fh ia)"
| "call_fits (K_Access i msk) \<longleftrightarrow> id64_ok i \<and> in_int msk"
| "call_fits (K_Readlink i) \<longleftrightarrow> id64_ok i"
| "call_fits (K_Mknod d s mode rdev) \<longleftrightarrow> id64_ok d \<and> str_ok s"
| "call_fits (K_Mkdir d s mode) \<longleftrightarrow> id64_ok d \<and> str_ok s"
| "call_fits (K_Unlink d s) \<longleftrightarrow> id64_ok d \<and> str_ok s"
| "call_fits (K_Rmdir d s) \<longleftrightarrow> id64_ok d \<and> str_ok s"
| "call_fits (K_Symlink d s t) \<longleftrightarrow> id64_ok d \<and> str_ok s \<and> str_ok t"
| "call_fits (K_Rename d s e t) \<longleftrightarrow> id64_ok d \<and> str_ok s \<and> id64_ok e \<and> str_ok t"
| "call_fits (K_Link i d s) \<longleftrightarrow> id64_ok i \<and> id64_ok d \<and> str_ok s"
| "call_fits (K_Create d s mode intent) \<longleftrightarrow> id64_ok d \<and> str_ok s"
| "call_fits (K_Open i flags isdir) \<longleftrightarrow> id64_ok i"
| "call_fits (K_Read i fh pos n isdir) \<longleftrightarrow> id64_ok i \<and> id64_ok fh \<and> size32_ok n"
| "call_fits (K_Write i fh pos data) \<longleftrightarrow> id64_ok i \<and> id64_ok fh \<and> size32_ok (length data)"
| "call_fits (K_Flush i fh owner) \<longleftrightarrow> id64_ok i \<and> id64_ok fh"
| "call_fits (K_Release i fh flags isdir) \<longleftrightarrow> id64_ok i \<and> id64_ok fh"
| "call_fits (K_Fsync i fh datasync isdir) \<longleftrightarrow> id64_ok i \<and> id64_ok fh"
| "call_fits (K_Statfs i) \<longleftrightarrow> id64_ok i"
| "call_fits (K_Setxattr i s v flags) \<longleftrightarrow> id64_ok i \<and> str_ok s \<and> size32_ok (length v) \<and> in_int flags"
| "call_fits (K_Getxattr i s n) \<longleftrightarrow> id64_ok i \<and> str_ok s \<and> size32_ok n"
| "call_fits (K_Listxattr i n) \<longleftrightarrow> id64_ok i \<and> size32_ok n"
| "call_fits (K_Removexattr i s) \<longleftrightarrow> id64_ok i \<and> str_ok s"
| "call_fits (K_Getlk i fh owner fl) \<longleftrightarrow> id64_ok i \<and> id64_ok fh \<and> lock_fits fl"
| "call_fits (K_Setlk i fh owner fl wait tgid) \<longleftrightarrow> id64_ok i \<and> id64_ok fh \<and> lock_fits fl \<and> tgid < 2 ^ 31"
| "call_fits (K_Bmap i block sz) \<longleftrightarrow> id64_ok i \<and> id64_ok block \<and> size32_ok sz"

section \<open>The round trip\<close>

lemmas opcodes = FUSE_LOOKUP_def FUSE_FORGET_def FUSE_GETATTR_def FUSE_SETATTR_def FUSE_READLINK_def FUSE_SYMLINK_def
  FUSE_MKNOD_def FUSE_MKDIR_def FUSE_UNLINK_def FUSE_RMDIR_def FUSE_RENAME_def FUSE_LINK_def FUSE_OPEN_def FUSE_READ_def
  FUSE_WRITE_def FUSE_STATFS_def FUSE_RELEASE_def FUSE_FSYNC_def FUSE_SETXATTR_def FUSE_GETXATTR_def FUSE_LISTXATTR_def
  FUSE_REMOVEXATTR_def FUSE_FLUSH_def FUSE_INIT_def FUSE_OPENDIR_def FUSE_READDIR_def FUSE_RELEASEDIR_def FUSE_FSYNCDIR_def
  FUSE_GETLK_def FUSE_SETLK_def FUSE_SETLKW_def FUSE_ACCESS_def FUSE_CREATE_def FUSE_INTERRUPT_def FUSE_BMAP_def FUSE_DESTROY_def

lemmas builders = fuse_lookup_init_def fuse_send_forget_in_def fuse_do_getattr_in_def fuse_setattr_in_def fuse_access_in_def
  read_link_in_def fuse_mknod_in_def fuse_mkdir_in_def fuse_unlink_in_def fuse_rmdir_in_def fuse_symlink_in_def
  fuse_rename_in_def fuse_link_in_def fuse_create_open_in_def fuse_send_open_in_def fuse_read_fill_def fuse_send_write_in_def
  fuse_flush_in_def fuse_release_fill_def fuse_fsync_common_in_def fuse_statfs_in_def fuse_setxattr_in_def fuse_getxattr_in_def
  fuse_listxattr_in_def fuse_removexattr_in_def fuse_getlk_in_def fuse_setlk_in_def fuse_lk_fill_def fuse_bmap_in_def
  create_new_entry_in_def

text \<open>The opcode selects the reader.\<close>

lemma decode_simps [simp]:
  "ll_decode has m FUSE_LOOKUP = do_lookup (has FUSE_LOOKUP)"
  "ll_decode has m FUSE_FORGET = do_forget (has FUSE_FORGET)"
  "ll_decode has m FUSE_GETATTR = do_getattr (has FUSE_GETATTR)"
  "ll_decode has m FUSE_SETATTR = do_setattr (has FUSE_SETATTR)"
  "ll_decode has m FUSE_READLINK = do_readlink (has FUSE_READLINK)"
  "ll_decode has m FUSE_SYMLINK = do_symlink (has FUSE_SYMLINK)"
  "ll_decode has m FUSE_MKNOD = do_mknod (has FUSE_MKNOD)"
  "ll_decode has m FUSE_MKDIR = do_mkdir (has FUSE_MKDIR)"
  "ll_decode has m FUSE_UNLINK = do_unlink (has FUSE_UNLINK)"
  "ll_decode has m FUSE_RMDIR = do_rmdir (has FUSE_RMDIR)"
  "ll_decode has m FUSE_RENAME = do_rename (has FUSE_RENAME)"
  "ll_decode has m FUSE_LINK = do_link (has FUSE_LINK)"
  "ll_decode has m FUSE_OPEN = do_open (has FUSE_OPEN)"
  "ll_decode has m FUSE_READ = do_read (has FUSE_READ)"
  "ll_decode has m FUSE_WRITE = do_write (has FUSE_WRITE)"
  "ll_decode has m FUSE_STATFS = do_statfs (has FUSE_STATFS)"
  "ll_decode has m FUSE_RELEASE = do_release (has FUSE_RELEASE) m"
  "ll_decode has m FUSE_FSYNC = do_fsync (has FUSE_FSYNC)"
  "ll_decode has m FUSE_SETXATTR = do_setxattr (has FUSE_SETXATTR)"
  "ll_decode has m FUSE_GETXATTR = do_getxattr (has FUSE_GETXATTR)"
  "ll_decode has m FUSE_LISTXATTR = do_listxattr (has FUSE_LISTXATTR)"
  "ll_decode has m FUSE_REMOVEXATTR = do_removexattr (has FUSE_REMOVEXATTR)"
  "ll_decode has m FUSE_FLUSH = do_flush (has FUSE_FLUSH) m"
  "ll_decode has m FUSE_OPENDIR = do_opendir (has FUSE_OPENDIR)"
  "ll_decode has m FUSE_READDIR = do_readdir (has FUSE_READDIR)"
  "ll_decode has m FUSE_RELEASEDIR = do_releasedir (has FUSE_RELEASEDIR)"
  "ll_decode has m FUSE_FSYNCDIR = do_fsyncdir (has FUSE_FSYNCDIR)"
  "ll_decode has m FUSE_GETLK = do_getlk (has FUSE_GETLK)"
  "ll_decode has m FUSE_SETLK = do_setlk_common (has FUSE_SETLK) False"
  "ll_decode has m FUSE_SETLKW = do_setlk_common (has FUSE_SETLK) True"
  "ll_decode has m FUSE_ACCESS = do_access (has FUSE_ACCESS)"
  "ll_decode has m FUSE_CREATE = do_create (has FUSE_CREATE)"
  "ll_decode has m FUSE_BMAP = do_bmap (has FUSE_BMAP)"
  by (simp_all add: ll_decode_def opcodes)

lemma ask_has [simp]: "ask True other (Inr q) = Inr (Handle q)"
  by (simp add: ask_def)

text \<open>The attributes of \<open>setattr\<close>, and locks, take more than reading fields.\<close>

lemma unset_bit_one: "unset_bit 6 (1 :: 32 word) = 1"
  by (simp add: unset_bit_eq)

lemma valid_bits:
  fixes v :: "32 word"
  assumes "v = word_of_nat (fattr_bit a 0 + fattr_bit b 1 + fattr_bit c 2 + fattr_bit d 3 + fattr_bit t 4 + fattr_bit t 5 + fattr_bit h 6)"
  shows "bit v 6 = h" "unset_bit 6 v = bits [a, b, c, d, t, t]" "\<not> h \<Longrightarrow> v = bits [a, b, c, d, t, t]"
  unfolding assms
    apply (cases a; cases b; cases c; cases d; cases t; cases h; simp add: fattr_bit_def bits_def)
   apply (cases a; cases b; cases c; cases d; cases t; cases h; simp add: fattr_bit_def bits_def unset_bit_one)
  apply (cases a; cases b; cases c; cases d; cases t; simp add: fattr_bit_def bits_def)
  done

lemma valid_small:
  "fattr_bit a 0 + fattr_bit b 1 + fattr_bit c 2 + fattr_bit d 3 + fattr_bit t 4 + fattr_bit t' 5 + fattr_bit h 6 < 4294967296"
  by (simp add: fattr_bit_def)

lemma setattr_decoded:
  assumes "id64_ok (ia_fh ia)"
  shows "do_setattr True i (iattr_to_fattr isdir ia) = Inr (Handle (meant (K_Setattr i isdir ia)))"
proof -
  let ?v = "fattr_bit (bit (ia_valid ia) ATTR_MODE) 0 + fattr_bit (bit (ia_valid ia) ATTR_UID) 1 + fattr_bit (bit (ia_valid ia) ATTR_GID) 2 +
    fattr_bit (bit (ia_valid ia) ATTR_SIZE) 3 + fattr_bit (set_times ia) 4 + fattr_bit (set_times ia) 5 +
    fattr_bit (bit (ia_valid ia) ATTR_FILE \<and> \<not> isdir) 6"
  define arg where "arg = iattr_to_fattr isdir ia"
  have v: "field 0 4 arg = ?v"
    using valid_small by (simp add: arg_def iattr_to_fattr_def set_times_def Let_def)
  note valid = valid_bits [where h = "bit (ia_valid ia) ATTR_FILE \<and> \<not> isdir" and a = "bit (ia_valid ia) ATTR_MODE"
      and b = "bit (ia_valid ia) ATTR_UID" and c = "bit (ia_valid ia) ATTR_GID" and d = "bit (ia_valid ia) ATTR_SIZE"
      and t = "set_times ia", OF refl, folded v iattr_bits_def]
  have "field 8 8 arg = ia_fh ia" if "bit (ia_valid ia) ATTR_FILE"
    using that assms by (simp add: arg_def iattr_to_fattr_def Let_def)
  moreover have "convert_attr arg = iattr_stat ia" "length arg = 88"
    by (simp_all add: arg_def iattr_to_fattr_def convert_attr_def iattr_stat_def set_times_def Let_def)
  ultimately show ?thesis
    using valid unfolding arg_def [symmetric]
    by (cases "bit (ia_valid ia) ATTR_FILE \<and> \<not> isdir") (simp_all add: do_setattr_def FATTR_FH_def Let_def)
qed

lemma sint_long: "0 \<le> x \<Longrightarrow> x \<le> OFFSET_MAX \<Longrightarrow> sint (word_of_int x :: 64 word) = x"
  by (simp add: OFFSET_MAX_def signed_of_int signed_take_bit_int_eq_self)

lemma int64_of: "0 \<le> x \<Longrightarrow> x \<le> OFFSET_MAX \<Longrightarrow> int64 (unat (word_of_int x :: 64 word)) = x"
  by (simp add: int64_def sint_long)

lemma uint_long: "0 \<le> x \<Longrightarrow> x \<le> OFFSET_MAX \<Longrightarrow> uint (word_of_int x :: 64 word) = x"
  by (simp add: OFFSET_MAX_def unsigned_of_int take_bit_int_eq_self)

lemma lock_decoded:
  assumes "lock_fits fl" "pid < 2 ^ 31" "id64_ok fh"
    and arg: "arg = u64 fh @ u64 (unat owner) @ s64 (kl_start fl) @ s64 (kl_end fl) @ u32 (kl_type fl) @ u32 pid"
  shows "convert_fuse_file_lock 16 arg = lock_of fl pid" "lock_info arg = owner_info fh owner" "length arg = 40"
proof -
  have r: "0 \<le> kl_start fl" "kl_start fl \<le> kl_end fl" "kl_end fl \<le> OFFSET_MAX" "kl_type fl < 2 ^ 15"
    using assms(1) by (simp_all add: lock_fits_def)
  have "sint (word_of_nat (kl_type fl) :: 16 word) = int (kl_type fl)" "int32 pid = int pid"
    using r(4) assms(2) by (simp_all add: int32_def signed_of_nat signed_take_bit_int_eq_self)
  moreover have "sint (word_of_int (kl_end fl) - word_of_int (kl_start fl) + 1 :: 64 word) = kl_end fl - kl_start fl + 1" if "kl_end fl \<noteq> OFFSET_MAX"
  proof -
    have "0 \<le> kl_end fl - kl_start fl + 1" "kl_end fl - kl_start fl + 1 \<le> OFFSET_MAX"
      using r(1-3) that by linarith+
    moreover have "(word_of_int (kl_end fl) - word_of_int (kl_start fl) + 1 :: 64 word) = word_of_int (kl_end fl - kl_start fl + 1)"
      by simp
    ultimately show ?thesis
      by (simp only: sint_long)
  qed
  ultimately show "convert_fuse_file_lock 16 arg = lock_of fl pid"
    using r assms(2) uint_long [of "kl_end fl"] by (simp add: arg convert_fuse_file_lock_def lock_of_def int64_of Let_def)
  show "lock_info arg = owner_info fh owner" "length arg = 40"
    using assms(3) by (simp_all add: arg lock_info_def owner_info_def)
qed

lemma decoded:
  assumes "call_fits c"
  shows "ll_decode (\<lambda>_. True) 8 (kr_opcode (kernel_request c)) (kr_nodeid (kernel_request c)) (concat (kr_args (kernel_request c)))
    = Inr (Handle (meant c))"
proof (cases c)
  case (K_Setattr i isdir ia)
  then show ?thesis
    using assms setattr_decoded by (simp add: fuse_setattr_in_def)
next
  case (K_Getlk i fh owner fl)
  then show ?thesis
    using assms lock_decoded [OF _ _ _ refl, of fl 0 fh owner] by (simp add: fuse_getlk_in_def fuse_lk_fill_def do_getlk_def)
next
  case (K_Setlk i fh owner fl wait tgid)
  then show ?thesis
    using assms lock_decoded [OF _ _ _ refl, of fl tgid fh owner] lock_decoded [OF _ _ _ refl, of fl 0 fh owner]
    by (simp add: fuse_setlk_in_def fuse_lk_fill_def do_setlk_common_def)
next
  case (K_Symlink d s t)
  then show ?thesis
    using assms by (simp add: builders do_symlink_def)
qed (use assms in \<open>simp_all add: builders do_lookup_def do_forget_def do_getattr_def do_access_def do_readlink_def do_mknod_def
  do_mkdir_def do_unlink_def do_rmdir_def do_rename_def do_link_def do_create_def do_open_def do_read_def do_write_def do_flush_def
  do_release_def do_fsync_def do_opendir_def do_readdir_def do_releasedir_def do_fsyncdir_def do_statfs_def do_setxattr_def
  do_getxattr_def do_listxattr_def do_removexattr_def do_bmap_def owner_info_def fh_info_def flags_info_def no_file_info_def Let_def\<close>)

lemma call_opcode:
  "fuse_ll_ops (kr_opcode (kernel_request c)) \<and> kr_opcode (kernel_request c) \<notin> {FUSE_INIT, FUSE_INTERRUPT, FUSE_DESTROY} \<and>
   kr_opcode (kernel_request c) < 2 ^ 32"
  by (cases c) (simp_all add: builders fuse_ll_ops_def opcodes)

lemma call_node: "call_fits c \<Longrightarrow> kr_nodeid (kernel_request c) < 2 ^ 64"
  by (cases c) (simp_all add: builders)

text \<open>C9: the kernel and libfuse agree on every request. For each call whose numbers fit into the fields of the
  protocol and whose names have no NUL, in an initialised session and from a user that \<open>allow_root\<close> does not
  refuse, the message that the kernel builds for it reaches the file system as exactly this call, with the node,
  names, sizes, attributes and lock that were asked for. What the kernel leaves out of a message is part of the
  specification \<open>meant\<close>: a change of only one of the two times, and the flags of an open or create that the
  kernel acts on itself.\<close>

theorem kernel_call_arrives:
  assumes "call_fits c" "u < 2 ^ 64" "uid < 2 ^ 32" "ll_got_init f" "ll_allow_root f = False \<or> uid = ll_owner f"
  shows "\<exists>f'. fuse_ll_process env True (request_bytes u uid gid pid (kernel_request c)) f =
      (Call (kr_opcode (kernel_request c)) u (kr_nodeid (kernel_request c)) (concat (kr_args (kernel_request c))), f') \<and>
    ll_decode (\<lambda>_. True) 8 (kr_opcode (kernel_request c)) (kr_nodeid (kernel_request c)) (concat (kr_args (kernel_request c)))
      = Inr (Handle (meant c))"
proof -
  have h: "in_header (request_bytes u uid gid pid (kernel_request c)) =
      \<lparr>in_opcode = kr_opcode (kernel_request c), in_unique = u, in_nodeid = kr_nodeid (kernel_request c), in_uid = uid\<rparr>"
    using assms(2,3) call_opcode [of c] call_node [OF assms(1)] by simp
  have "\<exists>f'. fuse_ll_process env True (request_bytes u uid gid pid (kernel_request c)) f =
      (Call (kr_opcode (kernel_request c)) u (kr_nodeid (kernel_request c)) (concat (kr_args (kernel_request c))), f')"
    using assms(4,5) call_opcode [of c] by (auto simp: fuse_ll_process_def h Let_def split_beta)
  with decoded [OF assms(1)] show ?thesis
    by simp
qed

section \<open>A session\<close>

text \<open>The kernel says hello, interrupts its second request before that has arrived, and sends it.\<close>

definition ex_env :: ll_env where
  "ex_env = \<lparr>env_bufsize = 135168, env_locks = True, env_init = id\<rparr>"

definition ex_start :: fuse_ll where
  "ex_start = new_ll False 0 1 4294967295 4294967295"

definition ex_init_req :: fuse_req where
  "ex_init_req = \<lparr>rq_unique = 1, rq_uid = 0, rq_interrupted = False, rq_target = 0, rq_func = False\<rparr>"

definition ex_hello :: string where "ex_hello = request_bytes 1 0 0 0 (fuse_send_init_in 131072)"
definition ex_interrupt :: string where "ex_interrupt = interrupt_bytes 3 2"
definition ex_request :: string where "ex_request = request_bytes 2 0 0 0 (kernel_request (K_Lookup 1 ''a''))"

definition ex_up :: fuse_ll where "ex_up = snd (fuse_ll_process ex_env True ex_hello ex_start)"
definition ex_waiting :: fuse_ll where "ex_waiting = snd (fuse_ll_process ex_env True ex_interrupt ex_up)"
definition ex_reached :: fuse_ll where "ex_reached = snd (fuse_ll_process ex_env True ex_request ex_waiting)"

lemma ex_headers:
  "in_header ex_hello = \<lparr>in_opcode = FUSE_INIT, in_unique = 1, in_nodeid = 0, in_uid = 0\<rparr>"
  "in_header ex_interrupt = \<lparr>in_opcode = FUSE_INTERRUPT, in_unique = 3, in_nodeid = 0, in_uid = 0\<rparr>"
  "in_header ex_request = \<lparr>in_opcode = FUSE_LOOKUP, in_unique = 2, in_nodeid = 1, in_uid = 0\<rparr>"
  by (simp_all add: ex_hello_def ex_interrupt_def ex_request_def interrupt_bytes_def fuse_send_init_in_def fuse_lookup_init_def opcodes)

lemma ex_hello_args: "drop 40 ex_hello = u32 7 @ u32 8 @ u32 131072 @ u32 3"
  by (simp add: ex_hello_def fuse_send_init_in_def)

lemma ex_up_init: "ll_got_init ex_up" "\<not> ll_allow_root ex_up"
  by (simp_all add: ex_up_def fuse_ll_process_def ex_headers ex_hello_args Let_def ex_start_def new_ll_def fuse_ll_ops_def opcodes
      check_interrupt_def do_init_def send_reply_ok_def send_reply_iov_def free_req_def)

lemma ex_interrupts:
  "interrupts_of ex_start True ex_hello = {}" "interrupts_of ex_up True ex_interrupt = {(3, 2)}" "interrupts_of ex_waiting True ex_request = {}"
  by (simp_all add: interrupts_of_def ex_headers refused_def ex_up_init fuse_ll_ops_def opcodes Let_def)
    (simp add: ex_interrupt_def interrupt_bytes_def)

lemma ex_run: "ll_run ex_env (new_ll False 0 1 4294967295 4294967295) {1, 2, 3} {(3, 2)} ex_reached"
proof -
  have step: "in_unique (in_header buf) \<notin> U \<Longrightarrow>
      ll_run ex_env ex_start (insert (in_unique (in_header buf)) U) (I \<union> interrupts_of f True buf) (snd (fuse_ll_process ex_env True buf f))"
    if "ll_run ex_env ex_start U I f" for U I f buf
    by (rule ll_run.message [OF that _ surjective_pairing])
  have "ll_run ex_env ex_start {1} {} ex_up"
    using step [OF ll_run.start, of ex_hello]
    by (simp add: ex_headers ex_interrupts ex_up_def)
  from step [OF this, of ex_interrupt] have "ll_run ex_env ex_start {3, 1} {(3, 2)} ex_waiting"
    by (simp add: ex_headers ex_interrupts ex_waiting_def)
  from step [OF this, of ex_request] have "ll_run ex_env ex_start {2, 3, 1} {(3, 2)} ex_reached"
    by (simp add: ex_headers ex_interrupts ex_reached_def)
  then show ?thesis
    by (simp add: ex_start_def insert_commute)
qed

theorem answered_once_witness:
  "distinct (map fst (ll_sent ex_reached)) \<and> fst ` set (ll_sent ex_reached) \<subseteq> {1, 2, 3} \<and>
   fst ` set (ll_sent ex_reached) \<inter> rq_unique ` (set (ll_list ex_reached) \<union> set (ll_interrupts ex_reached)) = {}"
  by (rule answered_once [OF ex_run])

theorem interrupt_not_lost_witness:
  "(\<exists>x\<in>set (ll_list ex_reached). rq_unique x = 2 \<and> rq_interrupted x \<and> (rq_func x \<longrightarrow> 2 \<in> set (ll_signals ex_reached))) \<or>
   2 \<notin> {1, 2, 3 :: nat} \<and> (\<exists>c\<in>set (ll_interrupts ex_reached). rq_target c = 2) \<or>
   (\<exists>p. (p, 2 :: nat) \<in> {(3, 2)} \<and> (p, - EAGAIN, []) \<in> set (ll_sent ex_reached)) \<or>
   2 \<in> {1, 2, 3 :: nat} \<and> 2 \<notin> rq_unique ` set (ll_list ex_reached)"
  by (rule interrupt_not_lost [OF ex_run, of 3]) simp

theorem init_negotiates_witness:
  "ci_max_write (ll_conn (do_init ex_env ex_init_req (concat (kr_args (fuse_send_init_in 131072))) ex_start)) = 131072"
  using init_negotiates [of ex_env "concat (kr_args (fuse_send_init_in 131072))"]
  by (simp add: fuse_send_init_in_def ex_env_def ex_start_def new_ll_def)

theorem kernel_call_arrives_witness:
  "\<exists>f'. fuse_ll_process ex_env True (request_bytes 7 0 0 0 (kernel_request (K_Rename 1 ''a'' 2 ''b''))) (ex_start\<lparr>ll_got_init := True\<rparr>) =
      (Call (kr_opcode (kernel_request (K_Rename 1 ''a'' 2 ''b''))) 7 (kr_nodeid (kernel_request (K_Rename 1 ''a'' 2 ''b'')))
        (concat (kr_args (kernel_request (K_Rename 1 ''a'' 2 ''b'')))), f') \<and>
    ll_decode (\<lambda>_. True) 8 (kr_opcode (kernel_request (K_Rename 1 ''a'' 2 ''b''))) (kr_nodeid (kernel_request (K_Rename 1 ''a'' 2 ''b'')))
      (concat (kr_args (kernel_request (K_Rename 1 ''a'' 2 ''b'')))) = Inr (Handle (meant (K_Rename 1 ''a'' 2 ''b'')))"
  by (rule kernel_call_arrives) (simp_all add: ex_start_def new_ll_def)

end
