(* ===== verification/Wire_Replies.thy ===== *)
theory Wire_Replies
  imports Wire_Laws
begin

text \<open>
  The answers of libfuse arrive: whatever a handler replies to a call of the kernel, the message has a good header
  and the size that the kernel waits for. Timeouts are cut to nanoseconds.
\<close>

section \<open>Sizes\<close>

lemma unat_small64: "n < 2 ^ 64 \<Longrightarrow> unat (word_of_nat n :: 64 word) = n"
  by (simp add: unsigned_of_nat take_bit_nat_eq_self)

lemma length_convert_stat [simp]: "length (convert_stat st) = 80"
  by (simp add: convert_stat_def Let_def)

lemma length_fill_open [simp]: "length (fill_open fi) = 16"
  by (simp add: fill_open_def)

lemma length_convert_statfs [simp]: "length (convert_statfs st) = 80"
  by (simp add: convert_statfs_def length_concat sum_list_replicate)

lemma length_fill_entry: "ll_fill_entry e = Inr b \<Longrightarrow> length b = fuse_entry_out_size"
  by (auto simp: ll_fill_entry_def bind_res_eq_Inr fuse_entry_out_size_def)

section \<open>How a handler ends\<close>

definition ends :: "('s, 'a) act \<Rightarrow> ('a \<Rightarrow> bool) \<Rightarrow> bool" where
  "ends m P \<longleftrightarrow> (\<forall>l x l'. m l = Some (Inr (x, l')) \<longrightarrow> P x)"

named_theorems ends_intro \<open>rules for the last step of a handler\<close>

lemma ends_ret [ends_intro]: "P x \<Longrightarrow> ends (ret_lib x) P"
  by (simp add: ends_def ret_lib_def)

lemma ends_err [ends_intro]: "P (Reply_Err (- e)) \<Longrightarrow> ends (reply_err e) P"
  by (simp add: reply_err_def ends_ret)

lemma ends_bind [ends_intro]: "(\<And>x. ends (k x) P) \<Longrightarrow> ends (bind_lib m k) P"
  by (fastforce simp: ends_def bind_lib_def split: option.splits sum.splits)

lemma ends_if [ends_intro]: "(b \<Longrightarrow> ends m P) \<Longrightarrow> (\<not> b \<Longrightarrow> ends n P) \<Longrightarrow> ends (if b then m else n) P"
  by simp

lemma ends_prod [ends_intro]: "(\<And>a b. x = (a, b) \<Longrightarrow> ends (f a b) P) \<Longrightarrow> ends (case x of (a, b) \<Rightarrow> f a b) P"
  by (cases x) simp

lemma ends_option [ends_intro]:
  "(x = None \<Longrightarrow> ends m P) \<Longrightarrow> (\<And>a. x = Some a \<Longrightarrow> ends (f a) P) \<Longrightarrow> ends (case x of None \<Rightarrow> m | Some a \<Rightarrow> f a) P"
  by (cases x) simp_all

lemma ends_fault [ends_intro]: "ends (\<lambda>l. Some (Inl e)) P"
  by (simp add: ends_def)

lemma ends_let [ends_intro]: "ends (f x) P \<Longrightarrow> ends (let y = x in f y) P"
  by simp

section \<open>Answers that are taken\<close>

text \<open>The errors that \<open>send_reply_iov\<close> lets through.\<close>

definition sent_error :: "int \<Rightarrow> int" where
  "sent_error err = (if err \<le> -1000 \<or> err > 0 then - ERANGE else err)"

lemma reply_sent: "ll_sent (send_reply_iov req err bytes f) = ll_sent f @ [(rq_unique req, sent_error err, bytes)]"
  by (simp add: send_reply_iov_def sent_error_def free_req_def Let_def)

definition accepts :: "kreq \<Rightarrow> lib_reply \<Rightarrow> bool" where
  "accepts k r \<longleftrightarrow>
     (\<forall>err bytes. reply_of 8 r = Inr (Some (err, bytes)) \<longrightarrow> fst (copy_out_args k (sent_error err) (16 + length bytes)) = 0)"

lemma taken_none: "accepts k Reply_None"
  by (simp add: accepts_def)

lemma taken_err: "e \<noteq> 0 \<or> kr_out k = [] \<Longrightarrow> accepts k (Reply_Err e)"
  by (auto simp: accepts_def sent_error_def copy_out_args_def ERANGE_def)

lemma taken_entry: "kr_out k = [fuse_entry_out_size] \<Longrightarrow> accepts k (Reply_Entry e)"
  by (auto simp: accepts_def fuse_reply_entry_def bind_res_eq_Inr sent_error_def copy_out_args_def length_fill_entry)

lemma taken_create: "kr_out k = [fuse_entry_out_size, fuse_open_out_size] \<Longrightarrow> accepts k (Reply_Create e fi)"
  by (auto simp: accepts_def fuse_reply_create_def bind_res_eq_Inr sent_error_def copy_out_args_def length_fill_entry fuse_open_out_size_def)

lemma taken_attr: "kr_out k = [fuse_attr_out_size] \<Longrightarrow> accepts k (Reply_Attr st t)"
  by (auto simp: accepts_def fuse_reply_attr_def bind_res_eq_Inr sent_error_def copy_out_args_def fuse_attr_out_size_def)

lemma taken_open: "kr_out k = [fuse_open_out_size] \<Longrightarrow> accepts k (Reply_Open fi)"
  by (auto simp: accepts_def fuse_reply_open_def sent_error_def copy_out_args_def fuse_open_out_size_def)

lemma taken_count: "kr_out k = [8] \<Longrightarrow> accepts k (Reply_Write n) \<and> accepts k (Reply_Xattr n) \<and> accepts k (Reply_Bmap m)"
  by (auto simp: accepts_def fuse_reply_write_def fuse_reply_xattr_def fuse_reply_bmap_def sent_error_def copy_out_args_def)

lemma taken_statfs: "kr_out k = [fuse_statfs_out_size] \<Longrightarrow> accepts k (Reply_Statfs st)"
  by (auto simp: accepts_def fuse_reply_statfs_def sent_error_def copy_out_args_def fuse_statfs_out_size_def)

lemma taken_lock: "kr_out k = [fuse_lk_out_size] \<Longrightarrow> accepts k (Reply_Lock fl)"
  by (auto simp: accepts_def fuse_reply_lock_def bind_res_eq_Inr sent_error_def copy_out_args_def fuse_lk_out_size_def split: if_splits)

lemma taken_buf: "kr_out k = [n] \<Longrightarrow> kr_argvar k \<Longrightarrow> length b \<le> n \<Longrightarrow> accepts k (Reply_Buf b)"
  by (auto simp: accepts_def fuse_reply_buf_def sent_error_def copy_out_args_def Let_def)

lemma taken_empty: "kr_out k = [n] \<Longrightarrow> kr_argvar k \<Longrightarrow> accepts k (Reply_Err 0)"
  by (auto simp: accepts_def sent_error_def copy_out_args_def)

lemma taken_link: "kr_out k = [4095] \<Longrightarrow> kr_argvar k \<Longrightarrow> length s < PATH_MAX \<Longrightarrow> accepts k (Reply_Readlink s)"
  using length_takeWhile_le [of "\<lambda>c. c \<noteq> NUL" s]
  by (auto simp: accepts_def fuse_reply_readlink_def sent_error_def copy_out_args_def PATH_MAX_def cstr_def Let_def)

section \<open>Every answer arrives\<close>

lemma ends_entry:
  assumes "kr_out k = [fuse_entry_out_size]"
  shows "ends (bind_lib m (reply_entry lost)) (accepts k)"
  unfolding reply_entry_def by (intro ends_intro) (use assms in \<open>auto intro: taken_entry taken_err\<close>)

lemma ends_reply_err: "kr_out k = [] \<Longrightarrow> ends (bind_lib m reply_err) (accepts k)"
  by (intro ends_intro) (simp add: taken_err)

lemma ends_attr: "kr_out k = [fuse_attr_out_size] \<Longrightarrow> ends (bind_lib m (reply_attr i)) (accepts k)"
  unfolding reply_attr_def by (intro ends_intro) (auto intro: taken_attr taken_err)

lemma ends_path_request: "kr_out k = [] \<Longrightarrow> ends (path_request i name g) (accepts k)"
  unfolding path_request_def by (rule ends_reply_err)

lemma ends_buf: "kr_out k = [n] \<Longrightarrow> kr_argvar k \<Longrightarrow> ends (reply_buf n res b) (accepts k)"
  unfolding reply_buf_def by (intro ends_intro taken_buf) auto

lemma taken_any_err: "kr_out k = [n] \<Longrightarrow> kr_argvar k \<Longrightarrow> accepts k (Reply_Err e)"
  by (cases "e = 0") (simp_all add: taken_empty taken_err)

lemma ends_xattr:
  assumes "kr_out k = [if n \<noteq> 0 then n else 8]" "kr_argvar k = (n \<noteq> 0)"
  shows "ends (xattr_request n m) (accepts k)"
proof (cases "n = 0")
  case True
  then show ?thesis
    unfolding xattr_request_def using assms taken_count [of k] by (auto intro!: ends_intro taken_err)
next
  case False
  then have "accepts k (Reply_Err e)" "ends (reply_buf n res b) (accepts k)" for e res b
    using assms taken_any_err ends_buf by auto
  then show ?thesis
    unfolding xattr_request_def using False by (auto intro!: ends_intro)
qed

lemma ends_mono: "ends m P \<Longrightarrow> (\<And>x. P x \<Longrightarrow> Q x) \<Longrightarrow> ends m Q"
  by (auto simp: ends_def)

lemma ends_write: "kr_out k = [8] \<Longrightarrow> ends (fuse_lib_write i buf sz off fi) (accepts k)"
  unfolding fuse_lib_write_def using taken_count [of k] by (intro ends_intro taken_err) simp_all

lemma ends_bmap: "kr_out k = [8] \<Longrightarrow> ends (fuse_lib_bmap i sz idx) (accepts k)"
  unfolding fuse_lib_bmap_def using taken_count [of k] by (intro ends_intro taken_err) simp_all

lemma ends_statfs: "kr_out k = [fuse_statfs_out_size] \<Longrightarrow> ends (fuse_lib_statfs i) (accepts k)"
  unfolding fuse_lib_statfs_def by (intro ends_intro taken_err taken_statfs) simp_all

lemma ends_getlk: "kr_out k = [fuse_lk_out_size] \<Longrightarrow> ends (fuse_lib_getlk i fi fl) (accepts k)"
  unfolding fuse_lib_getlk_def by (intro ends_intro taken_err taken_lock) simp_all

lemma ends_plain:
  "kr_out k = [] \<Longrightarrow> ends (fuse_lib_setlk i fi fl wait) (accepts k)" "kr_out k = [] \<Longrightarrow> ends (fuse_lib_flush i fi) (accepts k)"
  "kr_out k = [] \<Longrightarrow> ends (fuse_lib_release i fi) (accepts k)"
  unfolding fuse_lib_setlk_def fuse_lib_flush_def fuse_lib_release_def by (intro ends_intro taken_err; simp)+

lemma handler_ends:
  assumes "meant c = Path_Request rq" "\<And>i. c \<noteq> K_Readlink i"
  shows "ends (fuse_path_ops fuel lost rq) (accepts (kernel_request c))"
proof (cases c)
  case (K_Forget i n)
  then show ?thesis
    using assms(1) by (auto simp: fuse_lib_forget_def intro!: ends_intro taken_none)
next
  case (K_Create d s mode intent)
  have "kr_out (kernel_request c) = [fuse_entry_out_size, fuse_open_out_size]"
    by (simp add: K_Create fuse_create_open_in_def)
  note tk = taken_create [OF this] taken_err
  have "rq = Create_File d s mode (flags_info (unat (unset_bit O_NOCTTY (intent - 1))))"
    using assms(1) K_Create by simp
  then show ?thesis
    by (simp add: fuse_lib_create_def) (intro ends_intro tk; simp add: ENOENT_def EIO_def)
next
  case (K_Open i flags isdir)
  have "kr_out (kernel_request c) = [fuse_open_out_size]"
    by (simp add: K_Open fuse_send_open_in_def)
  note tk = taken_open [OF this] taken_err
  obtain fi where "rq = Open_File i fi"
    using assms(1) K_Open by (auto simp: Let_def split: if_splits)
  then show ?thesis
    by (simp add: fuse_lib_open_def) (intro ends_intro tk; simp add: ENOENT_def)
next
  case (K_Read i fh pos n isdir)
  have k: "kr_out (kernel_request c) = [n]" "kr_argvar (kernel_request c)"
    by (simp_all add: K_Read fuse_read_fill_def)
  have "rq = Read_File i n pos (fh_info fh)"
    using assms(1) K_Read by (simp split: if_splits)
  then show ?thesis
    by (simp add: fuse_lib_read_def) (intro ends_intro ends_buf [OF k] taken_any_err [OF k])
qed (use assms in \<open>auto simp: builders fuse_lib_lookup_def fuse_lib_getattr_def fuse_lib_setattr_def fuse_lib_access_def fuse_lib_mknod_def
   fuse_lib_mkdir_def fuse_lib_unlink_def fuse_lib_rmdir_def fuse_lib_symlink_def fuse_lib_rename_def fuse_lib_link_def
   fuse_lib_fsync_def fuse_lib_setxattr_def fuse_lib_getxattr_def fuse_lib_listxattr_def fuse_lib_removexattr_def Let_def
   split: if_splits intro!: ends_entry ends_attr ends_reply_err ends_path_request ends_xattr ends_write ends_bmap ends_statfs ends_getlk
   ends_plain\<close>)

lemma readlink_ends:
  "ends (fuse_path_ops fuel lost (Read_Link i))
     (\<lambda>r. (\<forall>s. r = Reply_Readlink s \<longrightarrow> length s < PATH_MAX) \<longrightarrow> accepts (kernel_request (K_Readlink i)) r)"
  unfolding fuse_path_ops.simps fuse_lib_readlink_def
  by (intro ends_intro impI taken_err taken_link) (simp_all add: read_link_in_def)

section \<open>Open directories\<close>

lemma bind_ret [simp]: "bind_lib (ret_lib x) k = k x"
  by (simp add: bind_lib_def ret_lib_def)

lemma ends_fst: "ends m (\<lambda>(r, h). P r) \<Longrightarrow> ends (bind_lib m (\<lambda>(r, h). ret_lib r)) P"
  by (fastforce simp: ends_def bind_lib_def ret_lib_def split: option.splits sum.splits)

lemma ends_opendir:
  assumes "kr_out k = [fuse_open_out_size]"
  shows "ends (fuse_lib_opendir d lost i flags) (\<lambda>(r, h). accepts k r)"
  unfolding fuse_lib_opendir_def reply_err_def bind_ret
  by (intro ends_intro) (use assms in \<open>auto intro: taken_open taken_err simp: ENOENT_def ENOMEM_def\<close>)

text \<open>A read that goes on in a handle that is filled asks the file system for nothing.\<close>

fun within_handle :: "fuse_dh \<Rightarrow> ll_request \<Rightarrow> bool" where
  "within_handle dh (Read_Dir i sz off fi) \<longleftrightarrow> off \<noteq> 0 \<and> dh_filled dh \<and> dh_len dh < 2 ^ 32 \<and> sz < 2 ^ 32"
| "within_handle dh rq \<longleftrightarrow> True"

lemma ends_piece:
  assumes "kr_out k = [n]" "kr_argvar k" "0 \<le> off \<Longrightarrow> sz \<le> n"
  shows "ends (reply_piece dh off sz) (\<lambda>(r, h). accepts k r)"
  unfolding reply_piece_def
proof (intro ends_intro)
  show "case (Reply_Buf [], dh) of (r, h) \<Rightarrow> accepts k r"
    using taken_buf [OF assms(1,2), of "[]"] by simp
  assume "0 \<le> off \<and> nat off + sz \<le> length (dh_contents dh)"
  then show "case (Reply_Buf (take sz (drop (nat off) (dh_contents dh))), dh) of (r, h) \<Rightarrow> accepts k r"
    using taken_buf [OF assms(1,2), of "take sz (drop (nat off) (dh_contents dh))"] assms(3) by simp
qed

lemma piece_fits:
  fixes off :: off_t
  assumes "len < 2 ^ 32" "n < 2 ^ 32" "sint off < int len" "0 \<le> sint off"
  shows "(if unat (off + word_of_nat n) > len then unat (word_of_nat len - off) else n) \<le> n"
proof -
  define x where "x = nat (sint off)"
  have x: "x < len"
    using assms(3,4) by (simp add: x_def)
  have off: "off = word_of_nat x"
    using assms(4) by (simp add: x_def)
  have "unat (off + word_of_nat n) = x + n" "unat (word_of_nat len - off) = len - x"
    using x assms(1,2) unat_small64 [of "x + n"] unat_small64 [of "len - x"] by (simp_all add: off of_nat_diff)
  then show ?thesis
    using x by (cases "len < x + n") simp_all
qed

lemma ends_readdir:
  assumes "kr_out k = [n]" "kr_argvar k" "off \<noteq> 0" "dh_filled dh" "dh_len dh < 2 ^ 32" "n < 2 ^ 32"
  shows "ends (fuse_lib_readdir d i n off dh) (\<lambda>(r, h). accepts k r)"
proof -
  have "fuse_lib_readdir d i n off dh =
      (if sint off < int (dh_len dh)
       then reply_piece dh (sint off) (if unat (off + word_of_nat n) > dh_len dh then unat (word_of_nat (dh_len dh) - off) else n)
       else reply_piece dh (sint off) 0)"
    using assms(3,4) by (simp add: fuse_lib_readdir_def Let_def)
  moreover have "ends (reply_piece dh (sint off) 0) (\<lambda>(r, h). accepts k r)"
    by (rule ends_piece [OF assms(1,2)]) simp
  moreover have "ends (reply_piece dh (sint off)
      (if unat (off + word_of_nat n) > dh_len dh then unat (word_of_nat (dh_len dh) - off) else n)) (\<lambda>(r, h). accepts k r)"
    if "sint off < int (dh_len dh)"
    by (rule ends_piece [OF assms(1,2)]) (rule piece_fits [OF assms(5,6) that])
  ultimately show ?thesis
    by (cases "sint off < int (dh_len dh)") (simp_all only: if_True if_False True_implies_equals)
qed

lemma directory_ends:
  assumes "\<nexists>rq. meant c = Path_Request rq" "within_handle dh (meant c)"
  shows "ends (fuse_all_ops d dh fuel lost (meant c)) (accepts (kernel_request c))"
proof (cases c)
  case (K_Open i flags isdir)
  have "kr_out (kernel_request c) = [fuse_open_out_size]"
    by (simp add: K_Open fuse_send_open_in_def)
  then show ?thesis
    using assms(1) by (auto simp: K_Open Let_def intro!: ends_fst ends_opendir)
next
  case (K_Read i fh pos n isdir)
  have "kr_out (kernel_request c) = [n]" "kr_argvar (kernel_request c)"
    by (simp_all add: K_Read fuse_read_fill_def)
  then show ?thesis
    using assms by (auto simp: K_Read intro!: ends_fst ends_readdir)
qed (use assms in \<open>auto simp: builders fuse_lib_releasedir_def fuse_lib_fsyncdir_def Let_def split: if_splits
   intro!: ends_bind ends_reply_err ends_err taken_err\<close>)

section \<open>Messages\<close>

lemma int32_sent: "int32 (unat (word_of_int (sent_error err) :: 32 word)) = sent_error err"
  by (rule int32_of) (simp add: sent_error_def in_int_def INT_MIN_def INT_MAX_def ERANGE_def)

lemma out_header: "u < 2 ^ 64 \<Longrightarrow> 0 < u \<Longrightarrow> length bytes < 2 ^ 31 \<Longrightarrow> out_header_ok (out_message u (sent_error err) bytes)"
  by (simp add: out_header_ok_def out_message_def int32_sent) (simp add: sent_error_def ERANGE_def)

text \<open>C10: every answer of libfuse arrives. Whatever the handler of a request, also on an open directory,
  replies to a call of the kernel, the message that \<open>send_reply_iov\<close> sends has a header that the kernel takes,
  and the number of bytes behind it is what the kernel waits for: never too many and, except where the kernel
  allows it, never too few. Left out are a symbolic link of \<open>PATH_MAX\<close> bytes, which libfuse sends and the
  kernel has no room for, and a read of a directory that has the file system fill the handle.\<close>

theorem answer_arrives:
  assumes "fuse_all_ops d dh fuel lost (meant c) l = Some (Inr (r, l'))" "within_handle dh (meant c)"
    and "reply_of 8 r = Inr (Some (err, bytes))" "\<forall>s. r = Reply_Readlink s \<longrightarrow> length s < PATH_MAX"
    and "0 < rq_unique req" "rq_unique req < 2 ^ 64" "length bytes < 2 ^ 31"
  shows "\<exists>e. ll_sent (send_reply_iov req err bytes f) = ll_sent f @ [(rq_unique req, e, bytes)] \<and>
    out_header_ok (out_message (rq_unique req) e bytes) \<and>
    fst (copy_out_args (kernel_request c) e (length (out_message (rq_unique req) e bytes))) = 0"
proof -
  have "accepts (kernel_request c) r"
  proof (cases "\<exists>rq. meant c = Path_Request rq")
    case True
    then obtain rq where rq: "meant c = Path_Request rq" ..
    note run = assms(1) [unfolded rq fuse_all_ops.simps]
    show ?thesis
    proof (cases "\<exists>i. c = K_Readlink i")
      case True
      then obtain i where c: "c = K_Readlink i" ..
      then have "rq = Read_Link i"
        using rq by simp
      then show ?thesis
        using readlink_ends [of fuel lost i] run assms(4) by (auto simp: ends_def c)
    next
      case False
      then show ?thesis
        using handler_ends [OF rq, of fuel lost] run by (auto simp: ends_def)
    qed
  next
    case False
    from directory_ends [OF this assms(2)] assms(1) show ?thesis
      unfolding ends_def by blast
  qed
  then have "fst (copy_out_args (kernel_request c) (sent_error err) (16 + length bytes)) = 0"
    using assms(3) by (simp add: accepts_def)
  moreover have "length (out_message (rq_unique req) (sent_error err) bytes) = 16 + length bytes"
    by (simp add: out_message_def)
  ultimately show ?thesis
    using out_header [OF assms(6,5,7)] reply_sent by auto
qed

text \<open>A timeout of less than \<open>2 ^ 63\<close> seconds is cut to whole nanoseconds, never rounded up: the seconds and
  nanoseconds that are sent make at most the timeout and fall short of it by less than a nanosecond, and the
  nanoseconds are less than a second.\<close>

theorem timeout_is_cut:
  assumes "0 \<le> t" "t < 2 ^ 63"
  shows "\<exists>s n. calc_timeout_sec t = Inr s \<and> calc_timeout_nsec t = Inr n \<and> s < 2 ^ 63 \<and> n < 1000000000 \<and>
    of_nat s + of_nat n / 1000000000 \<le> t \<and> t < of_nat s + (of_nat n + 1) / 1000000000"
proof -
  let ?s = "nat \<lfloor>t\<rfloor>"
  have fl: "0 \<le> \<lfloor>t\<rfloor>" "\<lfloor>t\<rfloor> < 2 ^ 63"
    using assms by (simp_all add: floor_less_iff)
  then have s: "of_nat ?s = (of_int \<lfloor>t\<rfloor> :: rat)" "?s < 2 ^ 63"
    by (simp_all add: nat_less_iff)
  have sec: "calc_timeout_sec t = Inr ?s"
    using assms by (simp add: calc_timeout_sec_def)
  define f where "f = t - of_int \<lfloor>t\<rfloor>"
  have f: "0 \<le> f" "f < 1"
    unfolding f_def by linarith+
  have d: "double_of ?s = of_int \<lfloor>t\<rfloor>"
    using s by (simp add: double_of_def)
  define n where "n = (if f \<ge> 999999999 / 1000000000 then 999999999 else nat \<lfloor>f * 1000000000\<rfloor>)"
  have nsec: "calc_timeout_nsec t = Inr n"
    using f(1) unfolding calc_timeout_nsec_def sec bind_res_Inr Let_def d f_def [symmetric] n_def by (simp only: not_less [symmetric]) simp
  have "of_nat n \<le> f * 1000000000 \<and> f * 1000000000 < of_nat n + 1 \<and> n < 1000000000"
  proof (cases "f \<ge> 999999999 / 1000000000")
    case True
    then show ?thesis
      using f(2) by (simp add: n_def)
  next
    case False
    have p: "0 \<le> \<lfloor>f * 1000000000\<rfloor>" "\<lfloor>f * 1000000000\<rfloor> < 1000000000"
      using f by (simp_all add: floor_less_iff)
    then have "of_nat n = (of_int \<lfloor>f * 1000000000\<rfloor> :: rat)" "n < 1000000000"
      using False by (simp_all add: n_def nat_less_iff)
    then show ?thesis
      using floor_correct [of "f * 1000000000"] by simp
  qed
  then have "of_nat ?s + of_nat n / 1000000000 \<le> t" "t < of_nat ?s + (of_nat n + 1) / 1000000000" "n < 1000000000"
    unfolding s(1) by (simp_all add: f_def field_simps)
  then show ?thesis
    using sec nsec s(2) by blast
qed

theorem timeout_is_cut_witness:
  "\<exists>s n. calc_timeout_sec (5 / 2) = Inr s \<and> calc_timeout_nsec (5 / 2) = Inr n \<and> s < 2 ^ 63 \<and> n < 1000000000 \<and>
    of_nat s + of_nat n / 1000000000 \<le> (5 / 2 :: rat) \<and> 5 / 2 < of_nat s + (of_nat n + 1) / (1000000000 :: rat)"
  by (rule timeout_is_cut) simp_all

text \<open>When memory is short, \<open>fuse_reply_iov\<close> passes an error that has the wrong sign: the kernel gets \<open>ERANGE\<close>, and
  not \<open>ENOMEM\<close>.\<close>

lemma reply_iov_without_memory: "sent_error (fst (fuse_reply_iov False iov)) = - ERANGE"
  by (simp add: fuse_reply_iov_def sent_error_def ENOMEM_def)

section \<open>The owners of locks\<close>

lemma xtea_rounds_inj: "xtea_rounds k n s v = xtea_rounds k n s w \<longleftrightarrow> v = w"
proof (induction n arbitrary: s v w)
  case (Suc n)
  show ?case
    by (cases v; cases w) (auto simp: Let_def Suc.IH)
qed simp

lemma unat_halves: "unat (ucast a + push_bit 32 (ucast b) :: 64 word) = unat (a :: 32 word) + 4294967296 * unat (b :: 32 word)"
proof -
  have ab: "unat a < 4294967296" "unat b < 4294967296"
    using unat_less_word [of a] unat_less_word [of b] by simp_all
  have "(ucast a + push_bit 32 (ucast b) :: 64 word) = word_of_nat (unat a + 4294967296 * unat b)"
    by (simp add: push_bit_eq_mult)
  moreover have "unat a + 4294967296 * unat b < 2 ^ 64"
    using ab by simp
  ultimately show ?thesis
    using unat_small64 by metis
qed

lemma halves_inj:
  "(ucast a + push_bit 32 (ucast b) :: 64 word) = ucast c + push_bit 32 (ucast d) \<longleftrightarrow> a = c \<and> b = (d :: 32 word)" for a c :: "32 word"
proof
  assume "(ucast a + push_bit 32 (ucast b) :: 64 word) = ucast c + push_bit 32 (ucast d)"
  then have "unat a + 4294967296 * unat b = unat c + 4294967296 * unat d"
    using unat_halves [of a b] unat_halves [of c d] by simp
  moreover have "unat a < 4294967296" "unat c < 4294967296"
    using unat_less_word [of a] unat_less_word [of c] by simp_all
  moreover have "(x + 4294967296 * y) mod 4294967296 = x" "(x + 4294967296 * y) div 4294967296 = y" if "x < 4294967296" for x y :: nat
    using that by simp_all
  ultimately have "unat a = unat c \<and> unat b = unat d"
    by metis
  then show "a = c \<and> b = d"
    by (simp add: word_unat_eq_iff)
qed simp

lemma halves_of: "ucast (ucast i :: 32 word) + push_bit 32 (ucast (ucast (drop_bit 32 i) :: 32 word)) = (i :: 64 word)"
proof -
  have "unat i div 4294967296 < 4294967296"
    using unat_less_word [of i] by (simp add: less_mult_imp_div_less)
  moreover have "unat (drop_bit 32 i) = unat i div 4294967296"
    by (simp only: unsigned_drop_bit_eq) (simp add: drop_bit_eq_div take_bit_nat_eq_self unat_less_word [of i, simplified])
  ultimately have "unat (ucast i :: 32 word) = unat i mod 4294967296" "unat (ucast (drop_bit 32 i) :: 32 word) = unat i div 4294967296"
    by (simp_all only: unsigned_ucast_eq take_bit_eq_mod) simp_all
  then have "unat (ucast (ucast i :: 32 word) + push_bit 32 (ucast (ucast (drop_bit 32 i) :: 32 word)) :: 64 word) = unat i"
    by (simp add: unat_halves)
  then show ?thesis
    by (simp only: word_unat_eq_iff)
qed

text \<open>C40: the scrambled numbers of lock owners keep the owners apart: under one key, two owners get the same number
  only if they are the same.\<close>

theorem lock_owners_stay_apart: "fuse_lock_owner_id k i = fuse_lock_owner_id k j \<longleftrightarrow> i = j"
proof -
  have "fuse_lock_owner_id k i = fuse_lock_owner_id k j \<longleftrightarrow>
      xtea_rounds k 32 0 (ucast i, ucast (drop_bit 32 i)) = xtea_rounds k 32 0 (ucast j, ucast (drop_bit 32 j))"
    by (auto simp: fuse_lock_owner_id_def halves_inj Let_def split: prod.splits)
  also have "\<dots> \<longleftrightarrow> (ucast i :: 32 word) = ucast j \<and> (ucast (drop_bit 32 i) :: 32 word) = ucast (drop_bit 32 j)"
    by (simp add: xtea_rounds_inj)
  also have "\<dots> \<longleftrightarrow> i = j"
    by (metis halves_of)
  finally show ?thesis .
qed

end
