(* ===== verification/Kernel_Dev.thy ===== *)
theory Kernel_Dev
  imports Kernel_Req
begin

text \<open>
  Requests in the kernel module (\<open>other_fs/fuse-2.7.3/kernel/dev.c\<close>): a request waits in a list until the process that
  serves the file system reads it from the device, is outstanding until that process writes an answer, and may be
  interrupted or aborted on the way. The lock \<open>fc->lock\<close> makes the steps: what a function does while it holds the lock is
  one definition, and the threads are in the state of the last section, so that the steps of all threads interleave.
  Requests live on a heap and are counted. A freed request is gone from the heap and its address is not used again, so
  that a pointer to it is noticed. Undefined are a look at a freed request, \<open>list_del\<close> of an entry that is in no list
  any more, \<open>list_add_tail\<close> of one that is in a list, and \<open>BUG_ON\<close>. The end functions of requests in the background
  appear as the reference that they give back, the requests that belong to open files (\<open>fuse_get_req_nofail\<close>) are not
  modelled, and the connection is past \<open>INIT\<close>.
\<close>

section \<open>Data\<close>

definition ENOTCONN :: int where "ENOTCONN = 107"
definition ECONNREFUSED :: int where "ECONNREFUSED = 111"
definition ECONNABORTED :: int where "ECONNABORTED = 103"
definition EINTR :: int where "EINTR = 4"
definition ERESTARTSYS :: int where "ERESTARTSYS = 512"
definition E2BIG :: int where "E2BIG = 7"
definition ENODEV :: int where "ENODEV = 19"
definition FUSE_MAX_BACKGROUND :: nat where "FUSE_MAX_BACKGROUND = 10"

datatype fuse_req_state = Req_Init | Req_Pending | Req_Reading | Req_Sent | Req_Writing | Req_Finished

text \<open>\<open>struct fuse_req\<close>. \<open>dq_deleted\<close> says that \<open>list_del\<close> was called on its entry, \<open>dq_end\<close> that it has an end function.\<close>

record dreq =
  dq_in :: kreq
  dq_state :: fuse_req_state
  dq_count :: nat
  dq_unique :: "64 word"
  dq_intr_unique :: "64 word"
  dq_isreply :: bool
  dq_force :: bool
  dq_waiting :: bool
  dq_aborted :: bool
  dq_background :: bool
  dq_interrupted :: bool
  dq_locked :: bool
  dq_end :: bool
  dq_error :: int
  dq_deleted :: bool

text \<open>\<open>struct fuse_conn\<close>, with the heap of requests and the first address that was never used. The lists hold addresses.\<close>

record kconn =
  fc_connected :: bool
  fc_conn_error :: bool
  fc_blocked :: bool
  fc_no_interrupt :: bool
  fc_reqctr :: "64 word"
  fc_num_background :: nat
  fc_num_waiting :: nat
  fc_pending :: "nat list"
  fc_processing :: "nat list"
  fc_io :: "nat list"
  fc_interrupts :: "nat list"
  fc_reqs :: "nat \<rightharpoonup> dreq"
  fc_fresh :: nat

definition dreq_at :: "kconn \<Rightarrow> nat \<Rightarrow> dreq res" where
  "dreq_at f a = (case fc_reqs f a of None \<Rightarrow> Inl Undefined | Some r \<Rightarrow> Inr r)"

definition put_dreq :: "nat \<Rightarrow> dreq \<Rightarrow> kconn \<Rightarrow> kconn" where
  "put_dreq a r f = f\<lparr>fc_reqs := (fc_reqs f)(a \<mapsto> r)\<rparr>"

section \<open>Requests\<close>

definition fuse_request_init :: "kreq \<Rightarrow> bool \<Rightarrow> bool \<Rightarrow> dreq" where
  "fuse_request_init k force has_end =
     \<lparr>dq_in = k, dq_state = Req_Init, dq_count = 1, dq_unique = 0, dq_intr_unique = 0, dq_isreply = False, dq_force = force,
      dq_waiting = False, dq_aborted = False, dq_background = False, dq_interrupted = False, dq_locked = False,
      dq_end = has_end, dq_error = 0, dq_deleted = False\<rparr>"

definition fuse_request_alloc :: "dreq \<Rightarrow> kconn \<Rightarrow> kconn" where
  "fuse_request_alloc r f = (put_dreq (fc_fresh f) r f)\<lparr>fc_fresh := fc_fresh f + 1\<rparr>"

text \<open>\<open>fuse_get_req\<close> counts its caller and waits; then a signal has come (\<open>intr\<close>), or requests are not blocked. \<open>mem\<close> says
  whether there is memory.\<close>

definition fuse_get_req_enter :: "kconn \<Rightarrow> kconn" where
  "fuse_get_req_enter f = f\<lparr>fc_num_waiting := fc_num_waiting f + 1\<rparr>"

definition fuse_get_req :: "bool \<Rightarrow> bool \<Rightarrow> kreq \<Rightarrow> bool \<Rightarrow> bool \<Rightarrow> kconn \<Rightarrow> (int + nat) \<times> kconn" where
  "fuse_get_req intr mem k force has_end f =
     (let out = (\<lambda>err. (Inl err, f\<lparr>fc_num_waiting := fc_num_waiting f - 1\<rparr>)) in
      if intr then out (- EINTR)
      else if \<not> fc_connected f then out (- ENOTCONN)
      else if \<not> mem then out (- ENOMEM)
      else (Inr (fc_fresh f), fuse_request_alloc ((fuse_request_init k force has_end)\<lparr>dq_waiting := True\<rparr>) f))"

definition fuse_put_request :: "nat \<Rightarrow> kconn \<Rightarrow> kconn res" where
  "fuse_put_request a f =
     bind_res (dreq_at f a) (\<lambda>r.
       if dq_count r \<le> 1
       then Inr (f\<lparr>fc_num_waiting := fc_num_waiting f - (if dq_waiting r then 1 else 0), fc_reqs := (fc_reqs f)(a := None)\<rparr>)
       else Inr (put_dreq a (r\<lparr>dq_count := dq_count r - 1\<rparr>) f))"

text \<open>\<open>__fuse_put_request\<close>.\<close>

definition fuse_put_request2 :: "nat \<Rightarrow> kconn \<Rightarrow> kconn res" where
  "fuse_put_request2 a f =
     bind_res (dreq_at f a) (\<lambda>r.
       if dq_count r < 2 then Inl Undefined else Inr (put_dreq a (r\<lparr>dq_count := dq_count r - 1\<rparr>) f))"

text \<open>\<open>list_del\<close> of the entry for the lists of requests, and of the one for interrupts.\<close>

definition del_list :: "nat \<Rightarrow> kconn \<Rightarrow> kconn" where
  "del_list a f = f\<lparr>fc_pending := removeAll a (fc_pending f), fc_processing := removeAll a (fc_processing f), fc_io := removeAll a (fc_io f)\<rparr>"

definition del_intr :: "nat \<Rightarrow> kconn \<Rightarrow> kconn" where
  "del_intr a f = f\<lparr>fc_interrupts := removeAll a (fc_interrupts f)\<rparr>"

definition end_background :: "dreq \<Rightarrow> kconn \<Rightarrow> kconn" where
  "end_background r f =
     (if dq_background r
      then f\<lparr>fc_blocked := (fc_blocked f \<and> fc_num_background f \<noteq> FUSE_MAX_BACKGROUND), fc_num_background := fc_num_background f - 1\<rparr>
      else f)"

text \<open>With an end function or without, one reference is given back.\<close>

definition request_end :: "nat \<Rightarrow> kconn \<Rightarrow> kconn res" where
  "request_end a f =
     bind_res (dreq_at f a) (\<lambda>r.
       if dq_deleted r then Inl Undefined
       else fuse_put_request a (end_background r
              (put_dreq a (r\<lparr>dq_end := False, dq_state := Req_Finished, dq_deleted := True\<rparr>) (del_intr a (del_list a f)))))"

definition queue_interrupt :: "nat \<Rightarrow> kconn \<Rightarrow> kconn res" where
  "queue_interrupt a f = (if a \<in> set (fc_interrupts f) then Inl Undefined else Inr (f\<lparr>fc_interrupts := fc_interrupts f @ [a]\<rparr>))"

definition queue_request :: "nat \<Rightarrow> dreq \<Rightarrow> kconn \<Rightarrow> kconn" where
  "queue_request a r f =
     (let u = fuse_get_unique (fc_reqctr f) in
      (put_dreq a (r\<lparr>dq_unique := u, dq_state := Req_Pending, dq_waiting := True\<rparr>) f)
        \<lparr>fc_reqctr := u, fc_pending := fc_pending f @ [a], fc_num_waiting := fc_num_waiting f + (if dq_waiting r then 0 else 1)\<rparr>)"

text \<open>
  Where the sender of a request is: it owns a request that was not sent, waits in \<open>request_wait_answer\<close> until any signal or
  until a fatal one, waits behind the label \<open>aborted\<close> until nothing is copied, waits for the last time, or is back in
  the function that sent the request.
\<close>

datatype sender = Owns | Waits_Any | Waits_Fatal | At_Aborted | Waits_Last | Returned

definition request_send :: "nat \<Rightarrow> kconn \<Rightarrow> (sender \<times> kconn) res" where
  "request_send a f =
     bind_res (dreq_at f a) (\<lambda>r0. let r = r0\<lparr>dq_isreply := True\<rparr> in
       if \<not> fc_connected f then Inr (Returned, put_dreq a (r\<lparr>dq_error := - ENOTCONN\<rparr>) f)
       else if fc_conn_error f then Inr (Returned, put_dreq a (r\<lparr>dq_error := - ECONNREFUSED\<rparr>) f)
       else Inr (if fc_no_interrupt f then Waits_Fatal else Waits_Any, queue_request a (r\<lparr>dq_count := dq_count r + 1\<rparr>) f))"

text \<open>\<open>request_send_noreply\<close> and \<open>request_send_background\<close> differ in \<open>isreply\<close>.\<close>

definition request_send_nowait :: "bool \<Rightarrow> nat \<Rightarrow> kconn \<Rightarrow> kconn res" where
  "request_send_nowait isreply a f =
     bind_res (dreq_at f a) (\<lambda>r0. let r = r0\<lparr>dq_isreply := isreply\<rparr> in
       if fc_connected f
       then let n = fc_num_background f + 1 in
         Inr (queue_request a (r\<lparr>dq_background := True\<rparr>)
                (f\<lparr>fc_num_background := n, fc_blocked := (fc_blocked f \<or> n = FUSE_MAX_BACKGROUND)\<rparr>))
       else request_end a (put_dreq a (r\<lparr>dq_error := - ENOTCONN\<rparr>) f))"

section \<open>Waiting\<close>

text \<open>The end of \<open>request_wait_answer\<close>, behind the label \<open>aborted\<close>, when nothing is copied.\<close>

definition abort_sent :: "nat \<Rightarrow> kconn \<Rightarrow> (sender \<times> kconn) res" where
  "abort_sent a f =
     bind_res (dreq_at f a) (\<lambda>r.
       if dq_state r = Req_Pending
       then if dq_deleted r then Inl Undefined
            else bind_res (fuse_put_request2 a (put_dreq a (r\<lparr>dq_deleted := True\<rparr>) (del_list a f))) (\<lambda>f1. Inr (Returned, f1))
       else Inr (if dq_state r = Req_Sent then Waits_Last else Returned, f))"

text \<open>From the label on.\<close>

definition wait_aborted :: "nat \<Rightarrow> kconn \<Rightarrow> (sender \<times> kconn) res" where
  "wait_aborted a f = bind_res (dreq_at f a) (\<lambda>r. if dq_locked r then Inr (At_Aborted, f) else abort_sent a f)"

text \<open>The first wait is over, for a signal or because the request is finished.\<close>

definition wait_any :: "nat \<Rightarrow> kconn \<Rightarrow> (sender \<times> kconn) res" where
  "wait_any a f =
     bind_res (dreq_at f a) (\<lambda>r.
       if dq_aborted r then wait_aborted a f
       else if dq_state r = Req_Finished then Inr (Returned, f)
       else bind_res (let f1 = put_dreq a (r\<lparr>dq_interrupted := True\<rparr>) f in
              if dq_state r = Req_Sent then queue_interrupt a f1 else Inr f1) (\<lambda>f2. Inr (Waits_Fatal, f2)))"

text \<open>The second wait is over, for a fatal signal or because the request is finished. No signal ends the wait for a request
  that must be answered.\<close>

definition wait_fatal :: "nat \<Rightarrow> kconn \<Rightarrow> (sender \<times> kconn) res" where
  "wait_fatal a f =
     bind_res (dreq_at f a) (\<lambda>r.
       if dq_force r \<and> dq_state r \<noteq> Req_Finished then Inr (Waits_Fatal, f)
       else if dq_aborted r then wait_aborted a f
       else if dq_state r = Req_Finished then Inr (Returned, f)
       else wait_aborted a (put_dreq a (r\<lparr>dq_error := - EINTR, dq_aborted := True\<rparr>) f))"

definition wait_last :: "nat \<Rightarrow> kconn \<Rightarrow> (sender \<times> kconn) res" where
  "wait_last a f = bind_res (dreq_at f a) (\<lambda>r. Inr (if dq_state r = Req_Finished then Returned else Waits_Last, f))"

section \<open>The device\<close>

text \<open>A thread that copies a request to the process, or an answer from it, holds no lock while it does so.\<close>

datatype copier = Copies_Out | Copies_In

definition lock_request :: "nat \<Rightarrow> kconn \<Rightarrow> (int \<times> kconn) res" where
  "lock_request a f = bind_res (dreq_at f a) (\<lambda>r. if dq_aborted r then Inr (- ENOENT, f) else Inr (0, put_dreq a (r\<lparr>dq_locked := True\<rparr>) f))"

definition unlock_request :: "nat \<Rightarrow> kconn \<Rightarrow> kconn res" where
  "unlock_request a f = bind_res (dreq_at f a) (\<lambda>r. Inr (put_dreq a (r\<lparr>dq_locked := False\<rparr>) f))"

text \<open>The message that interrupts a request takes a number of its own.\<close>

definition fuse_read_interrupt :: "nat \<Rightarrow> kconn \<Rightarrow> (string \<times> kconn) res" where
  "fuse_read_interrupt a f =
     bind_res (dreq_at f a) (\<lambda>r. let u = fuse_get_unique (fc_reqctr f) in
       Inr (interrupt_bytes (unat u) (unat (dq_unique r)), (put_dreq a (r\<lparr>dq_intr_unique := u\<rparr>) (del_intr a f))\<lparr>fc_reqctr := u\<rparr>))"

datatype dev_read = Read_Error int | Read_Interrupt string | Read_Again | Read_Copying nat

definition reqsize :: "dreq \<Rightarrow> nat" where
  "reqsize r = (40 + len_args (kr_args (dq_in r))) mod 2 ^ 32"

text \<open>The first part of \<open>fuse_dev_readv\<close>, until it copies or starts again. \<open>bufsize\<close> is the size of the buffer. Without
  \<open>O_NONBLOCK\<close> it waits until there is a message or a signal.\<close>

definition dev_read_take :: "bool \<Rightarrow> nat \<Rightarrow> kconn \<Rightarrow> (dev_read \<times> kconn) res" where
  "dev_read_take nonblock bufsize f =
     (if \<not> fc_connected f then Inr (Read_Error (- ENODEV), f)
      else case (fc_interrupts f, fc_pending f) of
        (a # _, _) \<Rightarrow> bind_res (fuse_read_interrupt a f) (\<lambda>(msg, f1).
                       Inr (if bufsize < 48 then Read_Error (- EINVAL) else Read_Interrupt msg, f1))
      | ([], a # _) \<Rightarrow> bind_res (dreq_at f a) (\<lambda>r.
          if dq_deleted r then Inl Undefined
          else let f1 = del_list a f; f2 = f1\<lparr>fc_io := a # fc_io f1\<rparr> in
            if bufsize < reqsize r
            then bind_res (request_end a (put_dreq a (r\<lparr>dq_state := Req_Reading,
                     dq_error := (if kr_opcode (dq_in r) = FUSE_SETXATTR then - E2BIG else - EIO)\<rparr>) f2)) (\<lambda>f3. Inr (Read_Again, f3))
            else Inr (Read_Copying a, put_dreq a (r\<lparr>dq_state := Req_Reading\<rparr>) f2))
      | ([], []) \<Rightarrow> Inr (Read_Error (if nonblock then - EAGAIN else - ERESTARTSYS), f))"

text \<open>The second part, with the result of copying.\<close>

definition dev_read_done :: "nat \<Rightarrow> int \<Rightarrow> kconn \<Rightarrow> (int \<times> kconn) res" where
  "dev_read_done a err0 f =
     bind_res (dreq_at f a) (\<lambda>r0.
       let r = r0\<lparr>dq_locked := False\<rparr>; err = (if err0 = 0 \<and> dq_aborted r then - ENOENT else err0) in
       if err \<noteq> 0
       then bind_res (request_end a (put_dreq a (if dq_aborted r then r else r\<lparr>dq_error := - EIO\<rparr>) f)) (\<lambda>f1. Inr (err, f1))
       else if \<not> dq_isreply r then bind_res (request_end a (put_dreq a r f)) (\<lambda>f1. Inr (int (reqsize r), f1))
       else if dq_deleted r then Inl Undefined
       else let f1 = put_dreq a (r\<lparr>dq_state := Req_Sent\<rparr>) (del_list a f); f2 = f1\<lparr>fc_processing := fc_processing f1 @ [a]\<rparr> in
         bind_res (if dq_interrupted r then queue_interrupt a f2 else Inr f2) (\<lambda>f3. Inr (int (reqsize r), f3)))"

definition request_find :: "kconn \<Rightarrow> 64 word \<Rightarrow> nat option" where
  "request_find f u = find (\<lambda>a. case fc_reqs f a of None \<Rightarrow> False | Some r \<Rightarrow> dq_unique r = u \<or> dq_intr_unique r = u) (fc_processing f)"

datatype dev_write = Write_Result int | Write_Ending nat | Write_Copying nat

text \<open>The first part of \<open>fuse_dev_writev\<close> for an answer with a good header (\<open>out_header_ok\<close>), of which these are the
  number, the error and the length. An answer to an aborted request is thrown away: the lock is released for a moment,
  and the request is ended after that.\<close>

definition dev_write_take :: "64 word \<Rightarrow> int \<Rightarrow> nat \<Rightarrow> kconn \<Rightarrow> (dev_write \<times> kconn) res" where
  "dev_write_take u err nbytes f =
     (if \<not> fc_connected f then Inr (Write_Result (- ENOENT), f)
      else case request_find f u of
        None \<Rightarrow> Inr (Write_Result (- ENOENT), f)
      | Some a \<Rightarrow> bind_res (dreq_at f a) (\<lambda>r.
          if dq_aborted r then Inr (Write_Ending a, f)
          else if dq_intr_unique r = u
          then if nbytes \<noteq> 16 then Inr (Write_Result (- EINVAL), f)
               else bind_res (if err = - ENOSYS then Inr (f\<lparr>fc_no_interrupt := True\<rparr>)
                              else if err = - EAGAIN then queue_interrupt a f else Inr f) (\<lambda>f1. Inr (Write_Result (int nbytes), f1))
          else if dq_deleted r then Inl Undefined
          else let f1 = del_list a f in
            Inr (Write_Copying a,
                 put_dreq a (r\<lparr>dq_state := Req_Writing, dq_error := err, dq_locked := True\<rparr>) (f1\<lparr>fc_io := a # fc_io f1\<rparr>))))"

text \<open>The second part, with the result of \<open>copy_out_args\<close>.\<close>

definition dev_write_done :: "nat \<Rightarrow> int \<Rightarrow> nat \<Rightarrow> kconn \<Rightarrow> (int \<times> kconn) res" where
  "dev_write_done a err0 nbytes f =
     bind_res (dreq_at f a) (\<lambda>r0.
       let r = r0\<lparr>dq_locked := False\<rparr>; err = (if err0 = 0 \<and> dq_aborted r then - ENOENT else err0) in
       bind_res (request_end a (put_dreq a (if err0 \<noteq> 0 \<and> \<not> dq_aborted r then r\<lparr>dq_error := - EIO\<rparr> else r) f)) (\<lambda>f1.
         Inr (if err \<noteq> 0 then err else int nbytes, f1)))"

section \<open>Aborting\<close>

definition end_one :: "nat \<Rightarrow> kconn \<Rightarrow> kconn res" where
  "end_one a f = bind_res (dreq_at f a) (\<lambda>r. request_end a (put_dreq a (r\<lparr>dq_error := - ECONNABORTED\<rparr>) f))"

text \<open>One round of \<open>end_requests\<close> for the first of the waiting or of the outstanding requests.\<close>

definition end_pending :: "kconn \<Rightarrow> kconn res" where
  "end_pending f = (case fc_pending f of [] \<Rightarrow> Inr f | a # _ \<Rightarrow> end_one a f)"

definition end_processing :: "kconn \<Rightarrow> kconn res" where
  "end_processing f = (case fc_processing f of [] \<Rightarrow> Inr f | a # _ \<Rightarrow> end_one a f)"

text \<open>One round of \<open>end_io_requests\<close>. For a request with an end function, the thread takes a reference, which the end
  function gives back. The entry is left in no list but may be deleted again (\<open>list_del_init\<close>).\<close>

definition end_io_one :: "kconn \<Rightarrow> (nat option \<times> kconn) res" where
  "end_io_one f =
     (case fc_io f of [] \<Rightarrow> Inr (None, f)
      | a # _ \<Rightarrow> bind_res (dreq_at f a) (\<lambda>r.
          let r1 = r\<lparr>dq_aborted := True, dq_error := - ECONNABORTED, dq_state := Req_Finished\<rparr> in
          if dq_end r then Inr (Some a, put_dreq a (r1\<lparr>dq_end := False, dq_count := dq_count r + 1\<rparr>) (del_list a f))
          else Inr (None, put_dreq a r1 (del_list a f))))"

definition fuse_abort_start :: "kconn \<Rightarrow> kconn" where
  "fuse_abort_start f = f\<lparr>fc_connected := False, fc_blocked := False\<rparr>"

definition fuse_dev_release_start :: "kconn \<Rightarrow> kconn" where
  "fuse_dev_release_start f = f\<lparr>fc_connected := False\<rparr>"

definition fuse_put_super :: "kconn \<Rightarrow> kconn" where
  "fuse_put_super f = f\<lparr>fc_connected := False, fc_blocked := False\<rparr>"

section \<open>All threads\<close>

text \<open>Threads that abort the connection or close the device go through the lists one after the other.\<close>

datatype aborter = Idle | Abort_Io | Abort_Ending nat | Abort_Pending | Abort_Processing | Abort_Done

text \<open>The connection, the senders, the threads that copy a request, those that end an aborted one, those in
  \<open>fuse_get_req\<close>, the thread in \<open>fuse_abort_conn\<close> and the one in \<open>fuse_dev_release\<close>.\<close>

record dev_sys =
  sy_conn :: kconn
  sy_send :: "nat \<rightharpoonup> sender"
  sy_copy :: "nat \<rightharpoonup> copier"
  sy_ending :: "nat list"
  sy_entered :: nat
  sy_abort :: aborter
  sy_release :: aborter

datatype dev_event =
  Ev_Enter | Ev_Get bool bool kreq bool bool | Ev_Alloc kreq bool bool | Ev_Put nat | Ev_Send nat | Ev_Send_Nowait bool nat
| Ev_Wait nat | Ev_Read bool nat | Ev_Lock nat | Ev_Unlock nat | Ev_Read_Done nat int | Ev_Write "64 word" int nat
| Ev_Write_Done nat int nat | Ev_End nat | Ev_Abort | Ev_Abort_Step | Ev_Release | Ev_Release_Step | Ev_Umount

definition set_conn :: "dev_sys \<Rightarrow> kconn \<Rightarrow> dev_sys" where
  "set_conn s f = s\<lparr>sy_conn := f\<rparr>"

definition set_sender :: "dev_sys \<Rightarrow> nat \<Rightarrow> sender option \<Rightarrow> dev_sys" where
  "set_sender s a p = s\<lparr>sy_send := (sy_send s)(a := p)\<rparr>"

definition set_copier :: "dev_sys \<Rightarrow> nat \<Rightarrow> copier option \<Rightarrow> dev_sys" where
  "set_copier s a p = s\<lparr>sy_copy := (sy_copy s)(a := p)\<rparr>"

definition sender_next :: "dev_sys \<Rightarrow> nat \<Rightarrow> (sender \<times> kconn) res \<Rightarrow> dev_sys res" where
  "sender_next s a x = bind_res x (\<lambda>(p, f). Inr (set_sender (set_conn s f) a (Some p)))"

definition conn_next :: "dev_sys \<Rightarrow> kconn res \<Rightarrow> dev_sys res" where
  "conn_next s x = bind_res x (\<lambda>f. Inr (set_conn s f))"

text \<open>\<open>request_wait_answer\<close>, from the place of the sender.\<close>

fun wait_step :: "sender \<Rightarrow> nat \<Rightarrow> dev_sys \<Rightarrow> dev_sys res option" where
  "wait_step Waits_Any a s = Some (sender_next s a (wait_any a (sy_conn s)))"
| "wait_step Waits_Fatal a s = Some (sender_next s a (wait_fatal a (sy_conn s)))"
| "wait_step At_Aborted a s = Some (sender_next s a (wait_aborted a (sy_conn s)))"
| "wait_step Waits_Last a s = Some (sender_next s a (wait_last a (sy_conn s)))"
| "wait_step _ a s = None"

text \<open>A round of \<open>fuse_abort_conn\<close>, in which the end function of a request is called once the request is not locked. The code
  keeps the lock from one request to the next where there is no end function to call; the steps of the model end there, too,
  so that it has more interleavings than the code, and what holds under all of them holds for the code.\<close>

fun abort_step :: "aborter \<Rightarrow> dev_sys \<Rightarrow> dev_sys res option" where
  "abort_step Abort_Io s = Some
     (if fc_io (sy_conn s) = [] then Inr (s\<lparr>sy_abort := Abort_Pending\<rparr>)
      else bind_res (end_io_one (sy_conn s)) (\<lambda>(ending, f).
        Inr ((set_conn s f)\<lparr>sy_abort := (case ending of None \<Rightarrow> Abort_Io | Some a \<Rightarrow> Abort_Ending a)\<rparr>)))"
| "abort_step (Abort_Ending a) s =
     (if case fc_reqs (sy_conn s) a of None \<Rightarrow> False | Some r \<Rightarrow> dq_locked r then None
      else Some (bind_res (fuse_put_request a (sy_conn s)) (\<lambda>f. Inr ((set_conn s f)\<lparr>sy_abort := Abort_Io\<rparr>))))"
| "abort_step Abort_Pending s = Some
     (if fc_pending (sy_conn s) = [] then Inr (s\<lparr>sy_abort := Abort_Processing\<rparr>) else conn_next s (end_pending (sy_conn s)))"
| "abort_step Abort_Processing s = Some
     (if fc_processing (sy_conn s) = [] then Inr (s\<lparr>sy_abort := Abort_Done\<rparr>) else conn_next s (end_processing (sy_conn s)))"
| "abort_step _ s = None"

text \<open>A round of \<open>fuse_dev_release\<close>.\<close>

fun release_step :: "aborter \<Rightarrow> dev_sys \<Rightarrow> dev_sys res option" where
  "release_step Abort_Pending s = Some
     (if fc_pending (sy_conn s) = [] then Inr (s\<lparr>sy_release := Abort_Processing\<rparr>) else conn_next s (end_pending (sy_conn s)))"
| "release_step Abort_Processing s = Some
     (if fc_processing (sy_conn s) = [] then Inr (s\<lparr>sy_release := Abort_Done\<rparr>) else conn_next s (end_processing (sy_conn s)))"
| "release_step _ s = None"

text \<open>What a thread does next; None where no thread is there to do it. The device is closed when no thread reads or writes, and
  no answer has the number 0 (\<open>out_header_ok\<close>).\<close>

fun dev_next :: "dev_event \<Rightarrow> dev_sys \<Rightarrow> dev_sys res option" where
  "dev_next Ev_Enter s = Some (Inr (s\<lparr>sy_conn := fuse_get_req_enter (sy_conn s), sy_entered := sy_entered s + 1\<rparr>))"
| "dev_next (Ev_Get intr mem k force has_end) s =
     (if sy_entered s = 0 \<or> \<not> intr \<and> fc_blocked (sy_conn s) then None
      else let (res, f) = fuse_get_req intr mem k force has_end (sy_conn s); s1 = s\<lparr>sy_conn := f, sy_entered := sy_entered s - 1\<rparr> in
        Some (Inr (case res of Inl _ \<Rightarrow> s1 | Inr a \<Rightarrow> set_sender s1 a (Some Owns))))"
| "dev_next (Ev_Alloc k force has_end) s =
     Some (Inr (set_sender (set_conn s (fuse_request_alloc (fuse_request_init k force has_end) (sy_conn s))) (fc_fresh (sy_conn s)) (Some Owns)))"
| "dev_next (Ev_Put a) s =
     (if sy_send s a \<in> {Some Owns, Some Returned}
      then Some (conn_next (set_sender s a None) (fuse_put_request a (sy_conn s))) else None)"
| "dev_next (Ev_Send a) s = (if sy_send s a = Some Owns then Some (sender_next s a (request_send a (sy_conn s))) else None)"
| "dev_next (Ev_Send_Nowait isreply a) s =
     (if sy_send s a = Some Owns then Some (conn_next (set_sender s a None) (request_send_nowait isreply a (sy_conn s))) else None)"
| "dev_next (Ev_Wait a) s = (case sy_send s a of None \<Rightarrow> None | Some p \<Rightarrow> wait_step p a s)"
| "dev_next (Ev_Read nonblock bufsize) s =
     Some (bind_res (dev_read_take nonblock bufsize (sy_conn s)) (\<lambda>(res, f).
       Inr (case res of Read_Copying a \<Rightarrow> set_copier (set_conn s f) a (Some Copies_Out) | _ \<Rightarrow> set_conn s f)))"
| "dev_next (Ev_Lock a) s =
     (if sy_copy s a = None then None else Some (bind_res (lock_request a (sy_conn s)) (\<lambda>(_, f). Inr (set_conn s f))))"
| "dev_next (Ev_Unlock a) s = (if sy_copy s a = None then None else Some (conn_next s (unlock_request a (sy_conn s))))"
| "dev_next (Ev_Read_Done a err) s =
     (if sy_copy s a = Some Copies_Out
      then Some (bind_res (dev_read_done a err (sy_conn s)) (\<lambda>(_, f). Inr (set_copier (set_conn s f) a None))) else None)"
| "dev_next (Ev_Write u err nbytes) s =
     (if u = 0 then None
      else Some (bind_res (dev_write_take u err nbytes (sy_conn s)) (\<lambda>(res, f).
        Inr (case res of Write_Result _ \<Rightarrow> set_conn s f | Write_Ending a \<Rightarrow> (set_conn s f)\<lparr>sy_ending := a # sy_ending s\<rparr>
             | Write_Copying a \<Rightarrow> set_copier (set_conn s f) a (Some Copies_In)))))"
| "dev_next (Ev_Write_Done a err nbytes) s =
     (if sy_copy s a = Some Copies_In
      then Some (bind_res (dev_write_done a err nbytes (sy_conn s)) (\<lambda>(_, f). Inr (set_copier (set_conn s f) a None))) else None)"
| "dev_next (Ev_End a) s =
     (if a \<in> set (sy_ending s)
      then Some (conn_next (s\<lparr>sy_ending := remove1 a (sy_ending s)\<rparr>) (request_end a (sy_conn s))) else None)"
| "dev_next Ev_Abort s =
     (if fc_connected (sy_conn s) then Some (Inr (s\<lparr>sy_conn := fuse_abort_start (sy_conn s), sy_abort := Abort_Io\<rparr>)) else None)"
| "dev_next Ev_Abort_Step s = abort_step (sy_abort s) s"
| "dev_next Ev_Release s =
     (if sy_release s = Idle \<and> sy_copy s = Map.empty \<and> sy_ending s = []
      then Some (Inr (s\<lparr>sy_conn := fuse_dev_release_start (sy_conn s), sy_release := Abort_Pending\<rparr>)) else None)"
| "dev_next Ev_Release_Step s = release_step (sy_release s) s"
| "dev_next Ev_Umount s = Some (Inr (set_conn s (fuse_put_super (sy_conn s))))"

text \<open>A connection past \<open>INIT\<close>.\<close>

definition dev_start :: "64 word \<Rightarrow> bool \<Rightarrow> dev_sys" where
  "dev_start ctr conn_error =
     \<lparr>sy_conn = \<lparr>fc_connected = True, fc_conn_error = conn_error, fc_blocked = False, fc_no_interrupt = False, fc_reqctr = ctr,
                 fc_num_background = 0, fc_num_waiting = 0, fc_pending = [], fc_processing = [], fc_io = [], fc_interrupts = [],
                 fc_reqs = Map.empty, fc_fresh = 0\<rparr>,
      sy_send = Map.empty, sy_copy = Map.empty, sy_ending = [], sy_entered = 0, sy_abort = Idle, sy_release = Idle\<rparr>"

text \<open>The states that the threads reach together in a number of steps.\<close>

inductive dev_reached :: "64 word \<Rightarrow> nat \<Rightarrow> dev_sys \<Rightarrow> bool" where
  start: "dev_reached ctr 0 (dev_start ctr conn_error)"
| step: "dev_reached ctr n s \<Longrightarrow> dev_next e s = Some (Inr t) \<Longrightarrow> dev_reached ctr (Suc n) t"

fun dev_run :: "dev_event list \<Rightarrow> dev_sys \<Rightarrow> dev_sys res option" where
  "dev_run [] s = Some (Inr s)"
| "dev_run (e # es) s = (case dev_next e s of Some (Inr t) \<Rightarrow> dev_run es t | x \<Rightarrow> x)"

end
