(* ===== verification/Kernel_Dev_Laws.thy ===== *)
theory Kernel_Dev_Laws
  imports Kernel_Dev
begin

text \<open>
  The requests of the kernel module under every interleaving of its threads. The invariant is stated for one address
  at a time: a step changes one request, so that the invariant of the others carries over and only the changed
  one has to be looked at.
\<close>

section \<open>The invariant\<close>

text \<open>Where the sender of a request that was sent may be.\<close>

definition sender_ok :: "dreq \<Rightarrow> sender option \<Rightarrow> bool" where
  "sender_ok r p \<longleftrightarrow> p \<noteq> Some Owns \<and> (p \<noteq> None \<longrightarrow> \<not> dq_background r) \<and> (p = Some Waits_Any \<longrightarrow> \<not> dq_interrupted r) \<and>
     (p = Some At_Aborted \<longrightarrow> dq_aborted r) \<and>
     (p = Some Waits_Last \<longrightarrow> dq_aborted r \<and> (dq_state r = Req_Sent \<or> dq_state r = Req_Finished))"

text \<open>The references of a request: the sender's, and others.\<close>

definition refs :: "sender option \<Rightarrow> nat \<Rightarrow> nat" where
  "refs p n = (if p = None then n else Suc n)"

text \<open>A request, with the places of its sender and of the thread that copies it, the lists that it is in, whether the
  thread that aborts the connection holds it and whether a thread is about to end it.\<close>

definition req_ok :: "dreq option \<Rightarrow> sender option \<Rightarrow> copier option \<Rightarrow> bool \<Rightarrow> bool \<Rightarrow> bool \<Rightarrow> bool \<Rightarrow> bool \<Rightarrow> bool \<Rightarrow> bool" where
  "req_ok ro p c pend sent io intr held ending \<longleftrightarrow> (case ro of
     None \<Rightarrow> p = None \<and> c = None \<and> \<not> pend \<and> \<not> sent \<and> \<not> io \<and> \<not> intr \<and> \<not> held
   | Some r \<Rightarrow> (dq_intr_unique r = 0 \<or> dq_interrupted r) \<and> (case dq_state r of
       Req_Init \<Rightarrow> (p = Some Owns \<or> p = Some Returned) \<and> c = None \<and> \<not> pend \<and> \<not> sent \<and> \<not> io \<and> \<not> intr \<and> \<not> held \<and> \<not> ending \<and>
         \<not> dq_deleted r \<and> \<not> dq_background r \<and> \<not> dq_interrupted r \<and> \<not> dq_aborted r \<and> \<not> dq_locked r \<and>
         dq_intr_unique r = 0 \<and> dq_count r = 1
     | Req_Pending \<Rightarrow> sender_ok r p \<and> dq_unique r \<noteq> 0 \<and> c = None \<and> \<not> sent \<and> \<not> io \<and> \<not> intr \<and> \<not> held \<and> \<not> ending \<and> \<not> dq_locked r \<and>
         (if dq_deleted r then \<not> pend \<and> p = Some Returned \<and> dq_count r = 1 else pend \<and> \<not> dq_aborted r \<and> dq_count r = refs p 1)
     | Req_Reading \<Rightarrow> sender_ok r p \<and> dq_unique r \<noteq> 0 \<and> c = Some Copies_Out \<and> \<not> pend \<and> \<not> sent \<and> io \<and> \<not> intr \<and> \<not> held \<and> \<not> ending \<and>
         \<not> dq_deleted r \<and> dq_count r = refs p 1
     | Req_Sent \<Rightarrow> sender_ok r p \<and> dq_unique r \<noteq> 0 \<and> c = None \<and> \<not> pend \<and> sent \<and> \<not> io \<and> (intr \<longrightarrow> dq_interrupted r) \<and> \<not> held \<and>
         (ending \<longrightarrow> dq_aborted r) \<and> \<not> dq_deleted r \<and> \<not> dq_locked r \<and> dq_count r = refs p 1
     | Req_Writing \<Rightarrow> sender_ok r p \<and> dq_unique r \<noteq> 0 \<and> c = Some Copies_In \<and> \<not> pend \<and> \<not> sent \<and> io \<and> (intr \<longrightarrow> dq_interrupted r) \<and> \<not> held \<and>
         \<not> ending \<and> \<not> dq_deleted r \<and> dq_count r = refs p 1
     | Req_Finished \<Rightarrow> sender_ok r p \<and> \<not> pend \<and> \<not> sent \<and> \<not> io \<and>
         (if dq_deleted r then c = None \<and> \<not> intr \<and> (ending \<longrightarrow> dq_aborted r) \<and> \<not> dq_locked r \<and>
            0 < dq_count r \<and> dq_count r = refs p (of_bool held)
          else c \<noteq> None \<and> dq_aborted r \<and> (intr \<longrightarrow> dq_interrupted r \<and> c = Some Copies_In) \<and> \<not> ending \<and>
            dq_count r = refs p (Suc (of_bool held)))))"

text \<open>The request at an address in the state of all threads.\<close>

definition view_ok :: "dev_sys \<Rightarrow> nat \<Rightarrow> bool" where
  "view_ok s a \<longleftrightarrow> (let f = sy_conn s in
     req_ok (fc_reqs f a) (sy_send s a) (sy_copy s a) (a \<in> set (fc_pending f)) (a \<in> set (fc_processing f)) (a \<in> set (fc_io f))
       (a \<in> set (fc_interrupts f)) (sy_abort s = Abort_Ending a) (a \<in> set (sy_ending s)))"

text \<open>The numbers of requests of some kind.\<close>

definition counts :: "(dreq \<Rightarrow> bool) \<Rightarrow> dreq option \<Rightarrow> nat" where
  "counts P ro = (case ro of None \<Rightarrow> 0 | Some r \<Rightarrow> of_bool (P r))"

definition tally :: "(dreq \<Rightarrow> bool) \<Rightarrow> kconn \<Rightarrow> nat" where
  "tally P f = (\<Sum>a<fc_fresh f. counts P (fc_reqs f a))"

abbreviation in_background :: "dreq \<Rightarrow> bool" where
  "in_background r \<equiv> dq_background r \<and> \<not> dq_deleted r"

definition counters_ok :: "dev_sys \<Rightarrow> bool" where
  "counters_ok s \<longleftrightarrow> (let f = sy_conn s in
     fc_num_background f = tally in_background f \<and> fc_num_waiting f = sy_entered s + tally dq_waiting f)"

definition blocked_ok :: "kconn \<Rightarrow> bool" where
  "blocked_ok f \<longleftrightarrow> (fc_blocked f \<longrightarrow> FUSE_MAX_BACKGROUND \<le> fc_num_background f) \<and>
     (fc_connected f \<and> FUSE_MAX_BACKGROUND \<le> fc_num_background f \<longrightarrow> fc_blocked f)"

definition lists_ok :: "kconn \<Rightarrow> bool" where
  "lists_ok f \<longleftrightarrow> distinct (fc_pending f) \<and> distinct (fc_processing f) \<and> distinct (fc_io f) \<and> distinct (fc_interrupts f)"

definition aborter_ok :: "aborter \<Rightarrow> kconn \<Rightarrow> bool" where
  "aborter_ok p f \<longleftrightarrow> (p \<noteq> Idle \<longrightarrow> \<not> fc_connected f) \<and> (p \<in> {Abort_Pending, Abort_Processing, Abort_Done} \<longrightarrow> fc_io f = []) \<and>
     (p \<in> {Abort_Processing, Abort_Done} \<longrightarrow> fc_pending f = []) \<and> (p = Abort_Done \<longrightarrow> fc_processing f = [])"

definition fresh_ok :: "dev_sys \<Rightarrow> bool" where
  "fresh_ok s \<longleftrightarrow> (\<forall>a\<ge>fc_fresh (sy_conn s). fc_reqs (sy_conn s) a = None \<and> a \<notin> set (sy_ending s))"

definition sys_ok :: "dev_sys \<Rightarrow> bool" where
  "sys_ok s \<longleftrightarrow> (\<forall>a. view_ok s a) \<and> counters_ok s \<and> blocked_ok (sy_conn s) \<and> lists_ok (sy_conn s) \<and> fresh_ok s \<and>
     aborter_ok (sy_abort s) (sy_conn s) \<and> aborter_ok (sy_release s) (sy_conn s) \<and>
     (sy_release s \<noteq> Idle \<longrightarrow> sy_copy s = Map.empty) \<and> (\<forall>a. sy_release s \<noteq> Abort_Ending a)"

lemma sys_okD:
  assumes "sys_ok s"
  shows "view_ok s a" "counters_ok s" "blocked_ok (sy_conn s)" "lists_ok (sy_conn s)" "fresh_ok s"
    "aborter_ok (sy_abort s) (sy_conn s)" "aborter_ok (sy_release s) (sy_conn s)"
    "sy_release s \<noteq> Idle \<Longrightarrow> sy_copy s = Map.empty"
  using assms by (auto simp: sys_ok_def)

section \<open>Changing one request\<close>

lemma tally_local:
  assumes "a < fc_fresh f" "fc_fresh g = fc_fresh f" "\<And>b. b \<noteq> a \<Longrightarrow> fc_reqs g b = fc_reqs f b"
  shows "tally P g + counts P (fc_reqs f a) = tally P f + counts P (fc_reqs g a)"
proof -
  have "(\<Sum>b\<in>{..<fc_fresh f} - {a}. counts P (fc_reqs g b)) = (\<Sum>b\<in>{..<fc_fresh f} - {a}. counts P (fc_reqs f b))"
    by (rule sum.cong) (auto simp: assms(3))
  then show ?thesis
    using assms(1,2) by (simp add: tally_def sum.remove [of "{..<fc_fresh f}" a])
qed

lemma tally_alloc: "tally P (fuse_request_alloc r f) = tally P f + of_bool (P r)"
  by (simp add: tally_def fuse_request_alloc_def put_dreq_def counts_def)

text \<open>What a step leaves alone that changes the request at an address.\<close>

definition elsewhere :: "nat \<Rightarrow> dev_sys \<Rightarrow> dev_sys \<Rightarrow> bool" where
  "elsewhere a s t \<longleftrightarrow> fc_fresh (sy_conn t) = fc_fresh (sy_conn s) \<and>
     (\<forall>b. b \<noteq> a \<longrightarrow> fc_reqs (sy_conn t) b = fc_reqs (sy_conn s) b \<and> sy_send t b = sy_send s b \<and> sy_copy t b = sy_copy s b \<and>
       (b \<in> set (fc_pending (sy_conn t)) \<longleftrightarrow> b \<in> set (fc_pending (sy_conn s))) \<and>
       (b \<in> set (fc_processing (sy_conn t)) \<longleftrightarrow> b \<in> set (fc_processing (sy_conn s))) \<and>
       (b \<in> set (fc_io (sy_conn t)) \<longleftrightarrow> b \<in> set (fc_io (sy_conn s))) \<and>
       (b \<in> set (fc_interrupts (sy_conn t)) \<longleftrightarrow> b \<in> set (fc_interrupts (sy_conn s))) \<and>
       (sy_abort t = Abort_Ending b \<longleftrightarrow> sy_abort s = Abort_Ending b) \<and>
       (b \<in> set (sy_ending t) \<longleftrightarrow> b \<in> set (sy_ending s)))"

text \<open>The counters follow the request.\<close>

definition balanced :: "nat \<Rightarrow> dev_sys \<Rightarrow> dev_sys \<Rightarrow> bool" where
  "balanced a s t \<longleftrightarrow>
     fc_num_background (sy_conn t) + counts in_background (fc_reqs (sy_conn s) a) =
       fc_num_background (sy_conn s) + counts in_background (fc_reqs (sy_conn t) a) \<and>
     fc_num_waiting (sy_conn t) + sy_entered s + counts dq_waiting (fc_reqs (sy_conn s) a) =
       fc_num_waiting (sy_conn s) + sy_entered t + counts dq_waiting (fc_reqs (sy_conn t) a)"

lemma view_elsewhere: "elsewhere a s t \<Longrightarrow> b \<noteq> a \<Longrightarrow> view_ok t b = view_ok s b"
  by (simp add: view_ok_def elsewhere_def Let_def)

lemma counters_local:
  assumes "counters_ok s" "elsewhere a s t" "balanced a s t" "a < fc_fresh (sy_conn s)"
  shows "counters_ok t"
proof -
  have "tally P (sy_conn t) + counts P (fc_reqs (sy_conn s) a) = tally P (sy_conn s) + counts P (fc_reqs (sy_conn t) a)" for P
    by (rule tally_local) (use assms in \<open>auto simp: elsewhere_def\<close>)
  from this [of in_background] this [of dq_waiting] show ?thesis
    using assms(1,3) by (simp add: counters_ok_def balanced_def Let_def)
qed

lemma fresh_local:
  assumes "fresh_ok s" "elsewhere a s t" "a < fc_fresh (sy_conn s)"
  shows "fresh_ok t"
  using assms unfolding fresh_ok_def elsewhere_def by (metis leD)

lemma live_below: "sys_ok s \<Longrightarrow> fc_reqs (sy_conn s) a = Some r \<Longrightarrow> a < fc_fresh (sy_conn s)"
  by (metis fresh_ok_def leI option.distinct(1) sys_okD(5))

lemma sys_ok_change:
  assumes "sys_ok s" "fc_reqs (sy_conn s) a = Some r" "elsewhere a s t" "view_ok t a" "balanced a s t"
    "blocked_ok (sy_conn t)" "lists_ok (sy_conn t)" "aborter_ok (sy_abort t) (sy_conn t)" "aborter_ok (sy_release t) (sy_conn t)"
    "sy_release t = sy_release s" "sy_release s \<noteq> Idle \<Longrightarrow> sy_copy t = Map.empty"
  shows "sys_ok t"
proof -
  have "view_ok t b" for b
    using view_elsewhere [OF assms(3), of b] sys_okD(1) [OF assms(1), of b] assms(4) by (cases "b = a") auto
  moreover have "counters_ok t"
    by (rule counters_local [OF sys_okD(2) [OF assms(1)] assms(3,5) live_below [OF assms(1,2)]])
  moreover have "fresh_ok t"
    by (rule fresh_local [OF sys_okD(5) [OF assms(1)] assms(3) live_below [OF assms(1,2)]])
  ultimately show ?thesis
    using assms by (simp add: sys_ok_def)
qed

section \<open>The operations\<close>

lemma conn_simps [simp]:
  "fc_reqs (put_dreq a r f) = (fc_reqs f)(a \<mapsto> r)" "fc_connected (put_dreq a r f) = fc_connected f"
  "fc_conn_error (put_dreq a r f) = fc_conn_error f"
  "fc_blocked (put_dreq a r f) = fc_blocked f" "fc_no_interrupt (put_dreq a r f) = fc_no_interrupt f"
  "fc_reqctr (put_dreq a r f) = fc_reqctr f" "fc_num_background (put_dreq a r f) = fc_num_background f"
  "fc_num_waiting (put_dreq a r f) = fc_num_waiting f" "fc_pending (put_dreq a r f) = fc_pending f"
  "fc_processing (put_dreq a r f) = fc_processing f" "fc_io (put_dreq a r f) = fc_io f"
  "fc_interrupts (put_dreq a r f) = fc_interrupts f" "fc_fresh (put_dreq a r f) = fc_fresh f"
  by (simp_all add: put_dreq_def)

lemma del_simps [simp]:
  "fc_reqs (del_list a f) = fc_reqs f" "fc_connected (del_list a f) = fc_connected f"
  "fc_blocked (del_list a f) = fc_blocked f" "fc_reqctr (del_list a f) = fc_reqctr f"
  "fc_num_background (del_list a f) = fc_num_background f" "fc_num_waiting (del_list a f) = fc_num_waiting f"
  "fc_pending (del_list a f) = removeAll a (fc_pending f)" "fc_processing (del_list a f) = removeAll a (fc_processing f)"
  "fc_io (del_list a f) = removeAll a (fc_io f)" "fc_interrupts (del_list a f) = fc_interrupts f" "fc_fresh (del_list a f) = fc_fresh f"
  "fc_reqs (del_intr a f) = fc_reqs f" "fc_connected (del_intr a f) = fc_connected f"
  "fc_blocked (del_intr a f) = fc_blocked f" "fc_reqctr (del_intr a f) = fc_reqctr f"
  "fc_num_background (del_intr a f) = fc_num_background f" "fc_num_waiting (del_intr a f) = fc_num_waiting f"
  "fc_pending (del_intr a f) = fc_pending f" "fc_processing (del_intr a f) = fc_processing f" "fc_io (del_intr a f) = fc_io f"
  "fc_interrupts (del_intr a f) = removeAll a (fc_interrupts f)" "fc_fresh (del_intr a f) = fc_fresh f"
  by (simp_all add: del_list_def del_intr_def)

lemma sys_simps [simp]:
  "sy_conn (set_conn s f) = f" "sy_send (set_conn s f) = sy_send s" "sy_copy (set_conn s f) = sy_copy s"
  "sy_ending (set_conn s f) = sy_ending s" "sy_entered (set_conn s f) = sy_entered s" "sy_abort (set_conn s f) = sy_abort s"
  "sy_release (set_conn s f) = sy_release s"
  "sy_conn (set_sender s a p) = sy_conn s" "sy_send (set_sender s a p) = (sy_send s)(a := p)" "sy_copy (set_sender s a p) = sy_copy s"
  "sy_ending (set_sender s a p) = sy_ending s" "sy_entered (set_sender s a p) = sy_entered s" "sy_abort (set_sender s a p) = sy_abort s"
  "sy_release (set_sender s a p) = sy_release s"
  "sy_conn (set_copier s a c) = sy_conn s" "sy_send (set_copier s a c) = sy_send s" "sy_copy (set_copier s a c) = (sy_copy s)(a := c)"
  "sy_ending (set_copier s a c) = sy_ending s" "sy_entered (set_copier s a c) = sy_entered s" "sy_abort (set_copier s a c) = sy_abort s"
  "sy_release (set_copier s a c) = sy_release s"
  by (simp_all add: set_conn_def set_sender_def set_copier_def)

lemma dreq_at_Some [simp]: "fc_reqs f a = Some r \<Longrightarrow> dreq_at f a = Inr r"
  by (simp add: dreq_at_def)

text \<open>The state of a connection after \<open>request_end\<close>.\<close>

definition ended :: "nat \<Rightarrow> dreq \<Rightarrow> kconn \<Rightarrow> kconn" where
  "ended a r f = f\<lparr>fc_pending := removeAll a (fc_pending f), fc_processing := removeAll a (fc_processing f),
     fc_io := removeAll a (fc_io f), fc_interrupts := removeAll a (fc_interrupts f),
     fc_blocked := (fc_blocked f \<and> (dq_background r \<longrightarrow> fc_num_background f \<noteq> FUSE_MAX_BACKGROUND)),
     fc_num_background := fc_num_background f - of_bool (dq_background r),
     fc_num_waiting := fc_num_waiting f - of_bool (dq_count r \<le> 1 \<and> dq_waiting r),
     fc_reqs := (fc_reqs f)(a := if dq_count r \<le> 1 then None
       else Some (r\<lparr>dq_end := False, dq_state := Req_Finished, dq_deleted := True, dq_count := dq_count r - 1\<rparr>))\<rparr>"

lemma request_end_ended: "fc_reqs f a = Some r \<Longrightarrow> \<not> dq_deleted r \<Longrightarrow> request_end a f = Inr (ended a r f)"
  by (simp add: request_end_def fuse_put_request_def end_background_def del_list_def del_intr_def put_dreq_def dreq_at_def ended_def)

section \<open>Steps\<close>

lemmas step_defs = elsewhere_def balanced_def view_ok_def req_ok_def counts_def Let_def

text \<open>A step ends well.\<close>

definition keeps :: "dev_sys res option \<Rightarrow> bool" where
  "keeps x \<longleftrightarrow> (case x of None \<Rightarrow> True | Some y \<Rightarrow> \<exists>t. y = Inr t \<and> sys_ok t)"

lemma keeps_simps [simp]: "keeps None" "keeps (Some (Inr t)) = sys_ok t" "\<not> keeps (Some (Inl x))"
  by (simp_all add: keeps_def)

abbreviation req_at :: "dev_sys \<Rightarrow> nat \<Rightarrow> dreq option \<Rightarrow> bool" where
  "req_at s a ro \<equiv> req_ok ro (sy_send s a) (sy_copy s a) (a \<in> set (fc_pending (sy_conn s))) (a \<in> set (fc_processing (sy_conn s)))
     (a \<in> set (fc_io (sy_conn s))) (a \<in> set (fc_interrupts (sy_conn s))) (sy_abort s = Abort_Ending a) (a \<in> set (sy_ending s))"

lemma view_at: "view_ok s a \<longleftrightarrow> req_at s a (fc_reqs (sy_conn s) a)"
  by (simp add: view_ok_def Let_def)

lemma view_live:
  assumes "view_ok s a" "sy_send s a \<noteq> None \<or> sy_copy s a \<noteq> None \<or> a \<in> set (fc_pending (sy_conn s)) \<or> a \<in> set (fc_processing (sy_conn s)) \<or>
    a \<in> set (fc_io (sy_conn s)) \<or> a \<in> set (fc_interrupts (sy_conn s)) \<or> sy_abort s = Abort_Ending a"
  obtains r where "fc_reqs (sy_conn s) a = Some r" "req_at s a (Some r)"
proof (cases "fc_reqs (sy_conn s) a")
  case None
  then show ?thesis
    using assms by (simp add: view_at req_ok_def)
next
  case (Some r)
  then show ?thesis
    using assms(1) that by (simp add: view_at)
qed

lemma sender_ok_simps [simp]:
  "sender_ok (r\<lparr>dq_locked := b\<rparr>) p = sender_ok r p" "sender_ok (r\<lparr>dq_count := n\<rparr>) p = sender_ok r p"
  "sender_ok (r\<lparr>dq_error := e\<rparr>) p = sender_ok r p" "sender_ok (r\<lparr>dq_end := b\<rparr>) p = sender_ok r p"
  "sender_ok (r\<lparr>dq_deleted := b\<rparr>) p = sender_ok r p" "sender_ok (r\<lparr>dq_isreply := b\<rparr>) p = sender_ok r p"
  "sender_ok (r\<lparr>dq_unique := u\<rparr>) p = sender_ok r p" "sender_ok (r\<lparr>dq_intr_unique := u\<rparr>) p = sender_ok r p"
  "sender_ok (r\<lparr>dq_waiting := b\<rparr>) p = sender_ok r p" "sender_ok r None"
  by (simp_all add: sender_ok_def)

lemma refs_simps [simp]: "refs None n = n" "refs (Some p) n = Suc n" "refs q (Suc n) = Suc (refs q n)"
  by (simp_all add: refs_def)

text \<open>The counters of a connection in which only requests and lists change.\<close>

definition same_counters :: "kconn \<Rightarrow> kconn \<Rightarrow> bool" where
  "same_counters f g \<longleftrightarrow> fc_num_background g = fc_num_background f \<and> fc_num_waiting g = fc_num_waiting f \<and>
     fc_blocked g = fc_blocked f \<and> fc_connected g = fc_connected f"

lemma blocked_same: "blocked_ok f \<Longrightarrow> same_counters f g \<Longrightarrow> blocked_ok g"
  by (simp add: blocked_ok_def same_counters_def)

lemma copier_live: "sys_ok s \<Longrightarrow> sy_copy s a \<noteq> None \<Longrightarrow> \<exists>r. fc_reqs (sy_conn s) a = Some r \<and> req_at s a (Some r)"
  by (metis sys_okD(1) view_live)

lemma sender_live: "sys_ok s \<Longrightarrow> sy_send s a \<noteq> None \<Longrightarrow> \<exists>r. fc_reqs (sy_conn s) a = Some r \<and> req_at s a (Some r)"
  by (metis sys_okD(1) view_live)

lemmas rest_defs = elsewhere_def balanced_def counts_def sys_ok_def blocked_ok_def lists_ok_def aborter_ok_def

text \<open>A step that changes a request but nothing that is counted.\<close>

lemma ok_touch:
  assumes s: "sys_ok s" "fc_reqs (sy_conn s) a = Some r" and e: "elsewhere a s t" "view_ok t a"
    and q: "fc_reqs (sy_conn t) a = Some q" "dq_background q = dq_background r" "dq_waiting q = dq_waiting r"
      "dq_background r \<longrightarrow> dq_deleted q = dq_deleted r"
    and t: "same_counters (sy_conn s) (sy_conn t)" "sy_entered t = sy_entered s" "lists_ok (sy_conn t)" "sy_release t = sy_release s"
      "aborter_ok (sy_abort t) (sy_conn t)" "aborter_ok (sy_release s) (sy_conn t)" "sy_release s \<noteq> Idle \<Longrightarrow> sy_copy t = Map.empty"
  shows "sys_ok t"
proof (rule sys_ok_change [OF s e])
  show "balanced a s t"
    using s q t(1,2) by (auto simp: balanced_def counts_def same_counters_def)
  show "blocked_ok (sy_conn t)"
    by (rule blocked_same [OF sys_okD(3) [OF s(1)] t(1)])
qed (use t in simp_all)

lemma same_counters_simps [simp]: "same_counters f (put_dreq a r g) = same_counters f g" "same_counters f (del_list a g) = same_counters f g"
  "same_counters f f"
  by (simp_all add: same_counters_def)

lemma lists_removed: "lists_ok f \<Longrightarrow> lists_ok (del_list a f)" "lists_ok f \<Longrightarrow> lists_ok (put_dreq a r f)"
  "lists_ok f \<Longrightarrow> lists_ok (del_intr a f)"
  by (simp_all add: lists_ok_def distinct_removeAll)

text \<open>Only the request changes.\<close>

lemma ok_put_dreq:
  assumes s: "sys_ok s" "fc_reqs (sy_conn s) a = Some r" and v: "req_at s a (Some q)"
    and q: "dq_background q = dq_background r" "dq_waiting q = dq_waiting r" "dq_deleted q = dq_deleted r"
  shows "sys_ok (set_conn s (put_dreq a q (sy_conn s)))"
proof (rule ok_touch [OF s, where q = q])
  show "view_ok (set_conn s (put_dreq a q (sy_conn s))) a"
    using v by (simp add: view_at)
  show "elsewhere a s (set_conn s (put_dreq a q (sy_conn s)))"
    by (simp add: elsewhere_def)
  show "aborter_ok (sy_abort (set_conn s (put_dreq a q (sy_conn s)))) (sy_conn (set_conn s (put_dreq a q (sy_conn s))))"
    "aborter_ok (sy_release s) (sy_conn (set_conn s (put_dreq a q (sy_conn s))))"
    using sys_okD(6,7) [OF s(1)] by (simp_all add: aborter_ok_def)
qed (use q sys_okD(4,8) [OF s(1)] in \<open>simp_all add: lists_removed\<close>)

lemma req_lock: "req_ok (Some r) p (Some x) pend sent io intr held ending \<Longrightarrow>
    req_ok (Some (r\<lparr>dq_locked := b\<rparr>)) p (Some x) pend sent io intr held ending"
  by (cases "dq_state r") (simp_all add: req_ok_def split: if_splits)

lemma set_conn_same [simp]: "set_conn s (sy_conn s) = s"
  by (simp add: set_conn_def)

lemma locking_ok:
  assumes "sys_ok s" "sy_copy s a \<noteq> None" "fc_reqs (sy_conn s) a = Some r"
  shows "sys_ok (set_conn s (put_dreq a (r\<lparr>dq_locked := b\<rparr>) (sy_conn s)))"
proof (rule ok_put_dreq [OF assms(1,3)])
  obtain x where "sy_copy s a = Some x"
    using assms(2) by blast
  then show "req_at s a (Some (r\<lparr>dq_locked := b\<rparr>))"
    using sys_okD(1) [OF assms(1), of a] assms(3) by (simp add: view_at req_lock)
qed simp_all

lemma lock_ok:
  assumes "sys_ok s"
  shows "keeps (dev_next (Ev_Lock a) s)"
proof (cases "sy_copy s a = None")
  case False
  then obtain r where r: "fc_reqs (sy_conn s) a = Some r"
    using copier_live [OF assms] by blast
  then show ?thesis
    using locking_ok [OF assms False r, of True] False assms by (simp add: lock_request_def)
qed simp

lemma unlock_ok:
  assumes "sys_ok s"
  shows "keeps (dev_next (Ev_Unlock a) s)"
proof (cases "sy_copy s a = None")
  case False
  then obtain r where r: "fc_reqs (sy_conn s) a = Some r"
    using copier_live [OF assms] by blast
  then show ?thesis
    using locking_ok [OF assms False r, of False] False assms by (simp add: unlock_request_def conn_next_def)
qed simp

lemma sys_ok_cong:
  assumes "sys_ok s" "fc_reqs (sy_conn t) = fc_reqs (sy_conn s)" "fc_fresh (sy_conn t) = fc_fresh (sy_conn s)"
    "fc_pending (sy_conn t) = fc_pending (sy_conn s)" "fc_processing (sy_conn t) = fc_processing (sy_conn s)"
    "fc_io (sy_conn t) = fc_io (sy_conn s)" "fc_interrupts (sy_conn t) = fc_interrupts (sy_conn s)"
    "sy_send t = sy_send s" "sy_copy t = sy_copy s" "set (sy_ending t) = set (sy_ending s)"
    "\<And>a. sy_abort t = Abort_Ending a \<longleftrightarrow> sy_abort s = Abort_Ending a"
    "fc_num_background (sy_conn t) = fc_num_background (sy_conn s)"
    "fc_num_waiting (sy_conn t) + sy_entered s = fc_num_waiting (sy_conn s) + sy_entered t" "blocked_ok (sy_conn t)"
    "aborter_ok (sy_abort t) (sy_conn t)" "aborter_ok (sy_release t) (sy_conn t)"
    "sy_release t \<noteq> Idle \<Longrightarrow> sy_copy s = Map.empty" "\<And>a. sy_release t \<noteq> Abort_Ending a"
  shows "sys_ok t"
  using assms by (simp add: sys_ok_def view_ok_def counters_ok_def tally_def lists_ok_def fresh_ok_def Let_def)

lemma view_alloc:
  assumes "sys_ok s" "fc_reqs (sy_conn t) = (fc_reqs (sy_conn s))(fc_fresh (sy_conn s) \<mapsto> r)"
    "sy_send t = (sy_send s)(fc_fresh (sy_conn s) \<mapsto> Owns)" "sy_copy t = sy_copy s"
    "fc_pending (sy_conn t) = fc_pending (sy_conn s)" "fc_processing (sy_conn t) = fc_processing (sy_conn s)"
    "fc_io (sy_conn t) = fc_io (sy_conn s)" "fc_interrupts (sy_conn t) = fc_interrupts (sy_conn s)"
    "sy_abort t = sy_abort s" "sy_ending t = sy_ending s"
    "dq_state r = Req_Init" "dq_count r = 1" "\<not> dq_aborted r" "\<not> dq_background r" "\<not> dq_interrupted r" "\<not> dq_locked r" "\<not> dq_deleted r" "dq_intr_unique r = 0"
  shows "view_ok t b"
proof (cases "b = fc_fresh (sy_conn s)")
  case True
  have "fc_reqs (sy_conn s) b = None" "b \<notin> set (sy_ending s)"
    using sys_okD(5) [OF assms(1)] True by (simp_all add: fresh_ok_def)
  then show ?thesis
    using sys_okD(1) [OF assms(1), of b] assms(2-) True by (simp add: view_at req_ok_def)
next
  case False
  then show ?thesis
    using sys_okD(1) [OF assms(1), of b] assms(2-) by (simp add: view_ok_def Let_def)
qed

lemma sys_ok_alloc:
  assumes "sys_ok s" "sy_conn t = fuse_request_alloc r (sy_conn s)"
    "sy_send t = (sy_send s)(fc_fresh (sy_conn s) \<mapsto> Owns)" "sy_copy t = sy_copy s"
    "sy_abort t = sy_abort s" "sy_ending t = sy_ending s" "sy_release t = sy_release s" "sy_entered s = sy_entered t + of_bool (dq_waiting r)"
    "dq_state r = Req_Init" "dq_count r = 1" "\<not> dq_aborted r" "\<not> dq_background r" "\<not> dq_interrupted r" "\<not> dq_locked r" "\<not> dq_deleted r" "dq_intr_unique r = 0"
  shows "sys_ok t"
proof -
  have "view_ok t b" for b
    by (rule view_alloc [OF assms(1)]) (use assms in \<open>simp_all add: fuse_request_alloc_def\<close>)
  moreover have "counters_ok t"
    using sys_okD(2) [OF assms(1)] assms(2-) by (simp add: counters_ok_def Let_def tally_alloc) (simp add: fuse_request_alloc_def)
  moreover have "fresh_ok t"
    using sys_okD(5) [OF assms(1)] assms(2-) by (auto simp: fresh_ok_def fuse_request_alloc_def)
  ultimately show ?thesis
    using assms by (simp add: sys_ok_def blocked_ok_def lists_ok_def aborter_ok_def fuse_request_alloc_def)
qed

lemma alloc_ok: "sys_ok s \<Longrightarrow> keeps (dev_next (Ev_Alloc k force has_end) s)"
  by (simp, rule sys_ok_alloc) (auto simp: fuse_request_init_def)

lemma enter_ok: "sys_ok s \<Longrightarrow> keeps (dev_next Ev_Enter s)"
  by (simp, rule sys_ok_cong) (auto simp: fuse_get_req_enter_def rest_defs)

lemma waiting_left: "sys_ok s \<Longrightarrow> 0 < sy_entered s \<Longrightarrow> 0 < fc_num_waiting (sy_conn s)"
  by (simp add: sys_ok_def counters_ok_def Let_def)

lemma get_ok:
  assumes "sys_ok s"
  shows "keeps (dev_next (Ev_Get intr mem k force has_end) s)"
proof (cases "sy_entered s = 0 \<or> \<not> intr \<and> fc_blocked (sy_conn s)")
  case False
  have "sys_ok (s\<lparr>sy_conn := sy_conn s\<lparr>fc_num_waiting := fc_num_waiting (sy_conn s) - 1\<rparr>, sy_entered := sy_entered s - 1\<rparr>)"
    by (rule sys_ok_cong [OF assms]) (use assms False waiting_left [OF assms] in \<open>auto simp: rest_defs\<close>)
  moreover have "sys_ok (set_sender (s\<lparr>sy_conn := fuse_request_alloc ((fuse_request_init k force has_end)\<lparr>dq_waiting := True\<rparr>) (sy_conn s),
      sy_entered := sy_entered s - 1\<rparr>) (fc_fresh (sy_conn s)) (Some Owns))"
    by (rule sys_ok_alloc [OF assms]) (use False in \<open>auto simp: fuse_request_init_def\<close>)
  ultimately show ?thesis
    using False by (simp add: fuse_get_req_def Let_def)
qed auto

lemma abort_ok:
  assumes "sys_ok s"
  shows "keeps (dev_next Ev_Abort s)"
proof (cases "fc_connected (sy_conn s)")
  case True
  have "sy_abort s = Idle" "sy_release s = Idle"
    using True sys_okD(6,7) [OF assms] by (simp_all add: aborter_ok_def)
  then have "sys_ok (s\<lparr>sy_conn := fuse_abort_start (sy_conn s), sy_abort := Abort_Io\<rparr>)"
    by (intro sys_ok_cong [OF assms]) (simp_all add: fuse_abort_start_def blocked_ok_def aborter_ok_def)
  then show ?thesis
    using True by simp
qed simp

lemma req_io_copied: "req_ok (Some r) p c pend sent True intr held ending \<Longrightarrow> c \<noteq> None"
  by (cases "dq_state r") (simp_all add: req_ok_def)

lemma no_copies_no_io: "sys_ok s \<Longrightarrow> sy_copy s = Map.empty \<Longrightarrow> fc_io (sy_conn s) = []"
proof (cases "fc_io (sy_conn s)")
  case (Cons a xs)
  assume "sys_ok s" "sy_copy s = Map.empty"
  then obtain r where "req_at s a (Some r)"
    using view_live [OF sys_okD(1), of s a] Cons by auto
  then show ?thesis
    using req_io_copied Cons \<open>sy_copy s = Map.empty\<close> by fastforce
qed

lemma release_ok:
  assumes "sys_ok s"
  shows "keeps (dev_next Ev_Release s)"
proof (cases "sy_release s = Idle \<and> sy_copy s = Map.empty \<and> sy_ending s = []")
  case True
  then have "fc_io (sy_conn s) = []"
    by (intro no_copies_no_io [OF assms]) simp
  then have "sys_ok (s\<lparr>sy_conn := fuse_dev_release_start (sy_conn s), sy_release := Abort_Pending\<rparr>)"
    using sys_okD(3,6) [OF assms] True
    by (intro sys_ok_cong [OF assms]) (simp_all add: fuse_dev_release_start_def blocked_ok_def aborter_ok_def)
  then show ?thesis
    using True by simp
qed auto

lemma umount_ok: "sys_ok s \<Longrightarrow> keeps (dev_next Ev_Umount s)"
  by (simp, rule sys_ok_cong) (auto simp: fuse_put_super_def rest_defs)

section \<open>Ending requests\<close>

definition similar :: "dreq \<Rightarrow> dreq \<Rightarrow> bool" where
  "similar r q \<longleftrightarrow> dq_count q = dq_count r \<and> dq_background q = dq_background r \<and> dq_waiting q = dq_waiting r \<and>
     dq_deleted q = dq_deleted r \<and> dq_aborted q = dq_aborted r \<and> dq_interrupted q = dq_interrupted r \<and>
     dq_unique q = dq_unique r \<and> dq_intr_unique q = dq_intr_unique r"

text \<open>A request that the kernel still has to answer.\<close>

definition outstanding :: "dev_sys \<Rightarrow> nat \<Rightarrow> bool" where
  "outstanding s a \<longleftrightarrow> a \<in> set (fc_pending (sy_conn s)) \<or> a \<in> set (fc_processing (sy_conn s)) \<or> sy_copy s a \<noteq> None"

lemma tally_pos: "a < fc_fresh f \<Longrightarrow> fc_reqs f a = Some r \<Longrightarrow> P r \<Longrightarrow> 0 < tally P f"
  by (auto simp: tally_def counts_def intro!: sum_pos2)

lemma background_pos:
  "sys_ok s \<Longrightarrow> fc_reqs (sy_conn s) a = Some r \<Longrightarrow> in_background r \<Longrightarrow> 0 < fc_num_background (sy_conn s)"
  using tally_pos [OF live_below, of s a r r "\<lambda>r. in_background r"] by (simp add: sys_ok_def counters_ok_def Let_def)

lemma waiting_pos: "sys_ok s \<Longrightarrow> fc_reqs (sy_conn s) a = Some r \<Longrightarrow> dq_waiting r \<Longrightarrow> 0 < fc_num_waiting (sy_conn s)"
  using tally_pos [OF live_below, of s a r r dq_waiting] by (simp add: sys_ok_def counters_ok_def Let_def)

lemma req_outstanding:
  assumes "req_ok (Some r) p c pend sent io intr held ending" "pend \<or> sent \<or> c \<noteq> None"
  shows "\<not> dq_deleted r" "dq_state r \<noteq> Req_Init"
  using assms by (cases "dq_state r"; simp add: req_ok_def split: if_splits)+

lemma outstanding_state:
  assumes "view_ok s a" "fc_reqs (sy_conn s) a = Some r" "outstanding s a"
  shows "\<not> dq_deleted r" "dq_state r \<noteq> Req_Init"
  using req_outstanding [of r "sy_send s a"] assms by (simp_all add: view_at outstanding_def)

lemma aborter_shrinks:
  assumes "aborter_ok p f" "fc_connected g = fc_connected f" "set (fc_io g) \<subseteq> set (fc_io f)"
    "set (fc_pending g) \<subseteq> set (fc_pending f)" "set (fc_processing g) \<subseteq> set (fc_processing f)"
  shows "aborter_ok p g"
  using assms by (auto simp: aborter_ok_def)

lemma blocked_ended: "blocked_ok f \<Longrightarrow> (dq_background q \<Longrightarrow> 0 < fc_num_background f) \<Longrightarrow> blocked_ok (ended a q f)"
  by (auto simp: blocked_ok_def ended_def FUSE_MAX_BACKGROUND_def)

lemma lists_ended: "lists_ok f \<Longrightarrow> lists_ok (ended a q f)"
  by (simp add: lists_ok_def ended_def distinct_removeAll)

lemma sender_ok_mono:
  "sender_ok r p \<Longrightarrow> similar r q \<Longrightarrow> dq_state r \<noteq> Req_Init \<Longrightarrow>
    sender_ok (q\<lparr>dq_end := False, dq_state := Req_Finished, dq_deleted := True, dq_count := n\<rparr>) p"
  by (simp add: sender_ok_def similar_def)

lemma req_ended:
  assumes "req_ok (Some r) p c pend sent io intr held ending" "pend \<or> sent \<or> c \<noteq> None" "similar r q" "\<not> dq_locked q"
  shows "dq_count q \<le> 1 \<Longrightarrow> p = None \<and> \<not> held"
    "\<not> dq_count q \<le> 1 \<Longrightarrow> ending2 \<longrightarrow> ending \<Longrightarrow>
      req_ok (Some (q\<lparr>dq_end := False, dq_state := Req_Finished, dq_deleted := True, dq_count := dq_count q - 1\<rparr>))
        p None False False False False held ending2"
proof -
  have i: "dq_state r \<noteq> Req_Init" "\<not> dq_deleted r"
    using req_outstanding [OF assms(1,2)] by simp_all
  have d: "sender_ok r p" "dq_count r = refs p (Suc (of_bool held))" "ending \<longrightarrow> dq_aborted r" "dq_intr_unique r = 0 \<or> dq_interrupted r"
    using assms(1) i by (cases "dq_state r"; simp add: req_ok_def)+
  then show "dq_count q \<le> 1 \<Longrightarrow> p = None \<and> \<not> held"
    using assms(3) by (simp add: similar_def refs_def split: if_splits)
  show "req_ok (Some (q\<lparr>dq_end := False, dq_state := Req_Finished, dq_deleted := True, dq_count := dq_count q - 1\<rparr>))
        p None False False False False held ending2" if "\<not> dq_count q \<le> 1" "ending2 \<longrightarrow> ending"
    using d i that assms(3,4) sender_ok_mono [OF d(1) assms(3) i(1)] by (simp add: req_ok_def similar_def)
qed

lemma view_ended:
  assumes "view_ok s a" "fc_reqs (sy_conn s) a = Some r" "outstanding s a" "similar r q" "\<not> dq_locked q"
    "sy_conn t = ended a q (sy_conn s)" "sy_send t = sy_send s" "sy_copy t a = None" "sy_abort t = sy_abort s"
    "set (sy_ending t) \<subseteq> set (sy_ending s)"
  shows "view_ok t a"
proof -
  have v: "req_at s a (Some r)" and o: "a \<in> set (fc_pending (sy_conn s)) \<or> a \<in> set (fc_processing (sy_conn s)) \<or> sy_copy s a \<noteq> None"
    using assms(1-3) by (simp_all add: view_at outstanding_def)
  note e = req_ended [OF v o assms(4,5)]
  show ?thesis
  proof (cases "dq_count q \<le> 1")
    case True
    then show ?thesis
      using e(1) assms(6-9) by (simp add: view_at req_ok_def ended_def)
  next
    case False
    have "a \<in> set (sy_ending t) \<longrightarrow> a \<in> set (sy_ending s)"
      using assms(10) by blast
    then show ?thesis
      using e(2) [OF False] False assms(6-9) by (simp add: view_at ended_def)
  qed
qed

lemma ok_ended:
  assumes s: "sys_ok s" "fc_reqs (sy_conn s) a = Some r" "outstanding s a" "similar r q" "\<not> dq_locked q"
    and t: "sy_conn t = ended a q (sy_conn s)" "sy_send t = sy_send s" "sy_copy t = (sy_copy s)(a := None)" "sy_abort t = sy_abort s"
      "sy_ending t = sy_ending s \<or> sy_ending t = remove1 a (sy_ending s)" "sy_entered t = sy_entered s" "sy_release t = sy_release s"
  shows "sys_ok t"
proof (rule sys_ok_change [OF s(1,2)])
  have e: "set (sy_ending t) \<subseteq> set (sy_ending s)"
    using t(5) set_remove1_subset [of a "sy_ending s"] by auto
  have d: "\<not> dq_deleted r"
    by (rule outstanding_state [OF sys_okD(1) [OF s(1)] s(2,3)])
  show "view_ok t a"
    by (rule view_ended [OF sys_okD(1) [OF s(1)] s(2-5) t(1,2) _ t(4) e]) (simp add: t(3))
  have "b \<in> set (sy_ending t) \<longleftrightarrow> b \<in> set (sy_ending s)" if "b \<noteq> a" for b
    using t(5) that by auto
  then show "elsewhere a s t"
    using t(1-4) by (simp add: elsewhere_def ended_def)
  have "dq_background r \<Longrightarrow> 0 < fc_num_background (sy_conn s)" "dq_waiting r \<Longrightarrow> 0 < fc_num_waiting (sy_conn s)"
    using background_pos [OF s(1,2)] waiting_pos [OF s(1,2)] d by simp_all
  then show "balanced a s t"
    using t(1,6) d s(2,4)
    by (cases "dq_background r"; cases "dq_waiting r"; cases "dq_count r \<le> 1") (simp_all add: balanced_def ended_def counts_def similar_def)
  show "blocked_ok (sy_conn t)"
    unfolding t(1) by (rule blocked_ended [OF sys_okD(3) [OF s(1)]]) (use background_pos [OF s(1,2)] d s(4) in \<open>simp add: similar_def\<close>)
  show "lists_ok (sy_conn t)"
    unfolding t(1) by (rule lists_ended [OF sys_okD(4) [OF s(1)]])
  show "aborter_ok (sy_abort t) (sy_conn t)" "aborter_ok (sy_release t) (sy_conn t)"
    unfolding t by (rule aborter_shrinks [OF sys_okD(6) [OF s(1)]] aborter_shrinks [OF sys_okD(7) [OF s(1)]];
        simp add: ended_def)+
  show "sy_copy t = Map.empty" if "sy_release s \<noteq> Idle"
    using t(3) sys_okD(8) [OF s(1) that] by simp
qed (simp add: t)

text \<open>What is changed before a request is ended makes no difference.\<close>

lemma ended_simps [simp]:
  "ended a q (put_dreq a r f) = ended a q f" "ended a q (del_list a f) = ended a q f"
  "ended a q (f\<lparr>fc_io := a # xs\<rparr>) = ended a q (f\<lparr>fc_io := xs\<rparr>)"
  "ended a q ((del_list a f)\<lparr>fc_io := removeAll a (fc_io f)\<rparr>) = ended a q f"
  by (simp_all add: ended_def put_dreq_def del_list_def)

lemma request_end_sends:
  assumes "sys_ok s" "fc_reqs (sy_conn s) a = Some r" "outstanding s a" "similar r q" "\<not> dq_locked q" "fc_reqs f a = Some q"
    "ended a q f = ended a q (sy_conn s)"
  shows "request_end a f = Inr (ended a q (sy_conn s))"
proof -
  have "\<not> dq_deleted q"
    using outstanding_state(1) [OF sys_okD(1) [OF assms(1)] assms(2,3)] assms(4) by (simp add: similar_def)
  then show ?thesis
    using request_end_ended assms(6,7) by simp
qed

lemma req_listed:
  assumes "req_ok (Some r) p c pend sent io intr held ending" "pend \<or> sent"
  shows "c = None" "\<not> dq_locked r"
  using assms by (cases "dq_state r"; simp add: req_ok_def split: if_splits)+

lemma end_one_ok:
  assumes "sys_ok s" "a \<in> set (fc_pending (sy_conn s)) \<or> a \<in> set (fc_processing (sy_conn s))"
  shows "keeps (Some (conn_next s (end_one a (sy_conn s))))"
proof -
  have o: "outstanding s a"
    using assms(2) by (auto simp: outstanding_def)
  obtain r where r: "fc_reqs (sy_conn s) a = Some r" and v: "req_at s a (Some r)"
    using view_live [OF sys_okD(1) [OF assms(1)]] assms(2) by metis
  note c = req_listed [OF v assms(2)]
  define q where "q = r\<lparr>dq_error := - ECONNABORTED\<rparr>"
  have q: "similar r q" "\<not> dq_locked q"
    using c by (simp_all add: q_def similar_def)
  have "end_one a (sy_conn s) = Inr (ended a q (sy_conn s))"
    using request_end_sends [OF assms(1) r o q, of "put_dreq a q (sy_conn s)"] r by (simp add: end_one_def q_def)
  moreover have "sys_ok (set_conn s (ended a q (sy_conn s)))"
    by (rule ok_ended [OF assms(1) r o q]) (use c in auto)
  ultimately show ?thesis
    by (simp add: conn_next_def)
qed

lemma end_pending_ok: "sys_ok s \<Longrightarrow> keeps (Some (conn_next s (end_pending (sy_conn s))))"
  using end_one_ok [of s "hd (fc_pending (sy_conn s))"]
  by (cases "fc_pending (sy_conn s)") (auto simp: end_pending_def conn_next_def set_conn_def)

lemma end_processing_ok: "sys_ok s \<Longrightarrow> keeps (Some (conn_next s (end_processing (sy_conn s))))"
  using end_one_ok [of s "hd (fc_processing (sy_conn s))"]
  by (cases "fc_processing (sy_conn s)") (auto simp: end_processing_def conn_next_def set_conn_def)

lemma release_phase:
  assumes "sys_ok s" "sy_release s \<noteq> Idle" "aborter_ok p (sy_conn s)" "\<And>a. p \<noteq> Abort_Ending a"
  shows "sys_ok (s\<lparr>sy_release := p\<rparr>)"
  by (rule sys_ok_cong [OF assms(1)]) (use assms sys_okD(3,6) [OF assms(1)] sys_okD(8) [OF assms(1,2)] in simp_all)

lemma release_step_ok:
  assumes "sys_ok s"
  shows "keeps (dev_next Ev_Release_Step s)"
proof (cases "sy_release s")
  case Abort_Pending
  show ?thesis
    using Abort_Pending assms end_pending_ok [OF assms] sys_okD(7) [OF assms]
    by (auto intro!: release_phase simp: aborter_ok_def)
next
  case Abort_Processing
  show ?thesis
    using Abort_Processing assms end_processing_ok [OF assms] sys_okD(7) [OF assms]
    by (auto intro!: release_phase simp: aborter_ok_def)
qed simp_all

lemma abort_phase:
  assumes "sys_ok s" "\<And>a. sy_abort s \<noteq> Abort_Ending a" "aborter_ok p (sy_conn s)" "\<And>a. p \<noteq> Abort_Ending a"
  shows "sys_ok (s\<lparr>sy_abort := p\<rparr>)"
  by (rule sys_ok_cong [OF assms(1)]) (use assms sys_okD(3,7,8) [OF assms(1)] in \<open>simp_all add: sys_ok_def\<close>)

text \<open>A reference is given back: by the sender, or by the thread that aborts the connection.\<close>

definition dropped :: "nat \<Rightarrow> dreq \<Rightarrow> kconn \<Rightarrow> kconn" where
  "dropped a r f = f\<lparr>fc_num_waiting := fc_num_waiting f - of_bool (dq_count r \<le> 1 \<and> dq_waiting r),
     fc_reqs := (fc_reqs f)(a := if dq_count r \<le> 1 then None else Some (r\<lparr>dq_count := dq_count r - 1\<rparr>))\<rparr>"

lemma put_dropped: "fc_reqs f a = Some r \<Longrightarrow> fuse_put_request a f = Inr (dropped a r f)"
  by (simp add: fuse_put_request_def dropped_def put_dreq_def)

lemma req_idle:
  assumes "req_ok (Some r) p c pend sent io intr held ending" "p = Some Owns \<or> p = Some Returned \<or> held" "dq_count r \<le> 1"
  shows "\<not> (dq_background r \<and> \<not> dq_deleted r)" "c = None" "\<not> pend" "\<not> sent" "\<not> io" "\<not> intr" "held \<longrightarrow> p = None" "p \<noteq> None \<longrightarrow> \<not> held"
  using assms by (cases "dq_state r"; auto simp: req_ok_def sender_ok_def refs_def split: if_splits)+

lemma req_drop_sender:
  assumes "req_ok (Some r) p c pend sent io intr held ending" "p = Some Owns \<or> p = Some Returned" "1 < dq_count r"
  shows "req_ok (Some (r\<lparr>dq_count := dq_count r - 1\<rparr>)) None c pend sent io intr held ending"
  using assms by (cases "dq_state r") (auto simp: req_ok_def split: if_splits)

lemma req_drop_held:
  assumes "req_ok (Some r) p c pend sent io intr True ending" "1 < dq_count r"
  shows "req_ok (Some (r\<lparr>dq_count := dq_count r - 1\<rparr>)) p c pend sent io intr False ending"
  using assms by (cases "dq_state r") (simp_all add: req_ok_def split: if_splits)

text \<open>Who gives it back.\<close>

definition gives_back :: "nat \<Rightarrow> dev_sys \<Rightarrow> dev_sys \<Rightarrow> bool" where
  "gives_back a s t \<longleftrightarrow>
     (sy_send s a = Some Owns \<or> sy_send s a = Some Returned) \<and> sy_send t a = None \<and> sy_abort t = sy_abort s \<or>
     sy_abort s = Abort_Ending a \<and> sy_abort t = Abort_Io \<and> sy_send t a = sy_send s a"

lemma view_dropped:
  assumes "view_ok s a" "fc_reqs (sy_conn s) a = Some r" "sy_conn t = dropped a r (sy_conn s)" "sy_copy t = sy_copy s"
    "sy_ending t = sy_ending s" "gives_back a s t"
  shows "view_ok t a" "dq_count r \<le> 1 \<Longrightarrow> \<not> in_background r"
proof -
  have v: "req_at s a (Some r)"
    using assms(1,2) by (simp add: view_at)
  have c: "sy_send s a = Some Owns \<or> sy_send s a = Some Returned \<or> sy_abort s = Abort_Ending a"
    using assms(6) by (auto simp: gives_back_def)
  note i = req_idle [OF v c]
  show "dq_count r \<le> 1 \<Longrightarrow> \<not> in_background r"
    by (rule i(1))
  show "view_ok t a"
  proof (cases "dq_count r \<le> 1")
    case True
    have "sy_send t a = None" "sy_abort t \<noteq> Abort_Ending a"
      using assms(6) i(7,8) [OF True] by (auto simp: gives_back_def)
    then show ?thesis
      using i(2-6) [OF True] True assms(3,4) by (simp add: view_at req_ok_def dropped_def)
  next
    case False
    have g: "fc_reqs (sy_conn t) a = Some (r\<lparr>dq_count := dq_count r - 1\<rparr>)"
      using False assms(3) by (simp add: dropped_def)
    have l: "fc_pending (sy_conn t) = fc_pending (sy_conn s)" "fc_processing (sy_conn t) = fc_processing (sy_conn s)"
      "fc_io (sy_conn t) = fc_io (sy_conn s)" "fc_interrupts (sy_conn t) = fc_interrupts (sy_conn s)"
      using assms(3) by (simp_all add: dropped_def)
    show ?thesis
      unfolding view_at g l assms(4,5)
      using req_drop_sender [of r "sy_send s a"] req_drop_held [of r "sy_send s a"] v False assms(6) by (auto simp: gives_back_def)
  qed
qed

lemma ok_dropped:
  assumes s: "sys_ok s" "fc_reqs (sy_conn s) a = Some r"
    and t: "sy_conn t = dropped a r (sy_conn s)" "sy_copy t = sy_copy s" "sy_ending t = sy_ending s" "sy_entered t = sy_entered s"
      "sy_release t = sy_release s" "\<And>b. b \<noteq> a \<Longrightarrow> sy_send t b = sy_send s b"
      "\<And>b. b \<noteq> a \<Longrightarrow> sy_abort t = Abort_Ending b \<longleftrightarrow> sy_abort s = Abort_Ending b" "aborter_ok (sy_abort t) (sy_conn s)"
    and c: "gives_back a s t"
  shows "sys_ok t"
proof (rule sys_ok_change [OF s])
  note w = view_dropped [OF sys_okD(1) [OF s(1)] s(2) t(1-3) c]
  show "view_ok t a"
    by (rule w(1))
  show "elsewhere a s t"
    using t by (simp add: elsewhere_def dropped_def)
  from w(2) show "balanced a s t"
    using t(1,4) s(2) waiting_pos [OF s]
    by (cases "dq_waiting r"; cases "dq_count r \<le> 1") (simp_all add: balanced_def dropped_def counts_def)
  show "blocked_ok (sy_conn t)" "lists_ok (sy_conn t)" "aborter_ok (sy_abort t) (sy_conn t)" "aborter_ok (sy_release t) (sy_conn t)"
    using sys_okD(3,4,7) [OF s(1)] t by (simp_all add: blocked_ok_def lists_ok_def aborter_ok_def dropped_def)
  show "sy_copy t = Map.empty" if "sy_release s \<noteq> Idle"
    using t(2) sys_okD(8) [OF s(1) that] by simp
qed (simp add: t)

lemma put_ok:
  assumes "sys_ok s"
  shows "keeps (dev_next (Ev_Put a) s)"
proof (cases "sy_send s a \<in> {Some Owns, Some Returned}")
  case True
  then obtain r where r: "fc_reqs (sy_conn s) a = Some r"
    using sender_live [OF assms, of a] by auto
  have "sys_ok (set_conn (set_sender s a None) (dropped a r (sy_conn s)))"
    by (rule ok_dropped [OF assms r]) (use True sys_okD(6) [OF assms] in \<open>auto simp: gives_back_def\<close>)
  then show ?thesis
    using True put_dropped [OF r] by (auto simp: conn_next_def)
qed auto

lemma abort_ending_ok:
  assumes "sys_ok s" "sy_abort s = Abort_Ending a"
  shows "keeps (dev_next Ev_Abort_Step s)"
proof -
  obtain r where r: "fc_reqs (sy_conn s) a = Some r"
    using view_live [OF sys_okD(1) [OF assms(1)]] assms(2) by metis
  have "sys_ok ((set_conn s (dropped a r (sy_conn s)))\<lparr>sy_abort := Abort_Io\<rparr>)"
    by (rule ok_dropped [OF assms(1) r]) (use assms(2) sys_okD(6) [OF assms(1)] in \<open>auto simp: aborter_ok_def gives_back_def\<close>)
  then show ?thesis
    using assms(2) r put_dropped [OF r] by simp
qed


lemma req_abort_io:
  assumes "req_ok (Some r) p c pend sent True intr False ending"
  shows "req_ok (Some (r\<lparr>dq_aborted := True, dq_error := e, dq_state := Req_Finished, dq_end := False, dq_count := dq_count r + 1\<rparr>))
      p c False False False intr True ending"
    "req_ok (Some (r\<lparr>dq_aborted := True, dq_error := e, dq_state := Req_Finished\<rparr>)) p c False False False intr False ending"
  using assms by (cases "dq_state r"; simp add: req_ok_def sender_ok_def)+

lemma abort_io_ok:
  assumes "sys_ok s" "sy_abort s = Abort_Io"
  shows "keeps (dev_next Ev_Abort_Step s)"
proof (cases "fc_io (sy_conn s)")
  case Nil
  have "sys_ok (s\<lparr>sy_abort := Abort_Pending\<rparr>)"
    by (rule abort_phase [OF assms(1)]) (use Nil assms(2) sys_okD(6) [OF assms(1)] in \<open>simp_all add: aborter_ok_def\<close>)
  then show ?thesis
    using assms(2) Nil by simp
next
  case (Cons a xs)
  obtain r where r: "fc_reqs (sy_conn s) a = Some r"
    using view_live [OF sys_okD(1) [OF assms(1), of a]] Cons by auto
  define q where "q = (if dq_end r
    then r\<lparr>dq_aborted := True, dq_error := - ECONNABORTED, dq_state := Req_Finished, dq_end := False, dq_count := dq_count r + 1\<rparr>
    else r\<lparr>dq_aborted := True, dq_error := - ECONNABORTED, dq_state := Req_Finished\<rparr>)"
  define t where "t = (set_conn s (put_dreq a q (del_list a (sy_conn s))))\<lparr>sy_abort := (if dq_end r then Abort_Ending a else Abort_Io)\<rparr>"
  have step: "dev_next Ev_Abort_Step s = Some (Inr t)"
    using assms(2) Cons r by (simp add: end_io_one_def q_def t_def Let_def)
  have "sys_ok t"
  proof (rule ok_touch [OF assms(1) r])
    have "req_ok (Some r) (sy_send s a) (sy_copy s a) (a \<in> set (fc_pending (sy_conn s))) (a \<in> set (fc_processing (sy_conn s)))
        True (a \<in> set (fc_interrupts (sy_conn s))) False (a \<in> set (sy_ending s))"
      using sys_okD(1) [OF assms(1), of a] r assms(2) Cons by (simp add: view_at)
    note req_abort_io [OF this]
    then show "view_ok t a"
      by (simp add: view_at t_def q_def)
    show "elsewhere a s t"
      using assms(2) by (simp add: elsewhere_def t_def)
    show "lists_ok (sy_conn t)"
      using sys_okD(4) [OF assms(1)] by (simp add: t_def lists_removed)
    show "aborter_ok (sy_abort t) (sy_conn t)" "aborter_ok (sy_release s) (sy_conn t)"
      using sys_okD(6,7) [OF assms(1)] assms(2) by (auto simp: aborter_ok_def t_def)
    show "fc_reqs (sy_conn t) a = Some q"
      by (simp add: t_def)
  qed (use sys_okD(8) [OF assms(1)] in \<open>simp_all add: t_def q_def\<close>)
  then show ?thesis
    using step by simp
qed

lemma abort_step_ok:
  assumes "sys_ok s"
  shows "keeps (dev_next Ev_Abort_Step s)"
proof (cases "sy_abort s")
  case Abort_Pending
  show ?thesis
    using Abort_Pending assms end_pending_ok [OF assms] sys_okD(6) [OF assms]
    by (auto intro!: abort_phase simp: aborter_ok_def)
next
  case Abort_Processing
  show ?thesis
    using Abort_Processing assms end_processing_ok [OF assms] sys_okD(6) [OF assms]
    by (auto intro!: abort_phase simp: aborter_ok_def)
qed (use assms abort_io_ok abort_ending_ok in auto)

section \<open>Copying\<close>

lemma copied_outstanding: "sy_copy s a \<noteq> None \<Longrightarrow> outstanding s a"
  by (simp add: outstanding_def)

section \<open>Copying\<close>

lemma end_copied:
  assumes "sys_ok s" "fc_reqs (sy_conn s) a = Some r" "sy_copy s a \<noteq> None" "similar r q" "\<not> dq_locked q"
  shows "request_end a (put_dreq a q (sy_conn s)) = Inr (ended a q (sy_conn s))"
    "sys_ok (set_copier (set_conn s (ended a q (sy_conn s))) a None)"
proof -
  have o: "outstanding s a"
    using assms(3) by (simp add: outstanding_def)
  show "request_end a (put_dreq a q (sy_conn s)) = Inr (ended a q (sy_conn s))"
    by (rule request_end_sends [OF assms(1,2) o assms(4,5)]) simp_all
  show "sys_ok (set_copier (set_conn s (ended a q (sy_conn s))) a None)"
    by (rule ok_ended [OF assms(1,2) o assms(4,5)]) simp_all
qed

lemma req_sent:
  assumes "req_ok (Some r) p (Some Copies_Out) pend sent io intr held ending" "\<not> dq_aborted r"
  shows "req_ok (Some (r\<lparr>dq_locked := False, dq_state := Req_Sent\<rparr>)) p None False True False (dq_interrupted r) held ending"
    "\<not> intr" "io" "\<not> dq_deleted r"
  using assms by (cases "dq_state r"; simp add: req_ok_def sender_ok_def split: if_splits)+

lemma read_done_sent:
  assumes s: "sys_ok s" "sy_copy s a = Some Copies_Out" "fc_reqs (sy_conn s) a = Some r" "\<not> dq_aborted r" "dq_isreply r"
  shows "keeps (dev_next (Ev_Read_Done a 0) s)"
proof -
  define q where "q = r\<lparr>dq_locked := False, dq_state := Req_Sent\<rparr>"
  define f where "f = (put_dreq a q (del_list a (sy_conn s)))\<lparr>fc_processing := removeAll a (fc_processing (sy_conn s)) @ [a],
    fc_interrupts := fc_interrupts (sy_conn s) @ (if dq_interrupted r then [a] else [])\<rparr>"
  define t where "t = set_copier (set_conn s f) a None"
  have v: "req_ok (Some r) (sy_send s a) (Some Copies_Out) (a \<in> set (fc_pending (sy_conn s))) (a \<in> set (fc_processing (sy_conn s)))
      (a \<in> set (fc_io (sy_conn s))) (a \<in> set (fc_interrupts (sy_conn s))) (sy_abort s = Abort_Ending a) (a \<in> set (sy_ending s))"
    using sys_okD(1) [OF s(1), of a] s(2,3) by (simp add: view_at)
  note w = req_sent [OF v s(4)]
  have step: "dev_next (Ev_Read_Done a 0) s = Some (Inr t)"
    using s w(2,4) by (simp add: dev_read_done_def Let_def queue_interrupt_def t_def f_def q_def put_dreq_def del_list_def)
  have "sys_ok t"
  proof (rule ok_touch [OF s(1,3), where q = q])
    show "view_ok t a"
      using w(1,2) by (simp add: view_at t_def f_def q_def)
    show "elsewhere a s t"
      by (simp add: elsewhere_def t_def f_def)
    show "lists_ok (sy_conn t)"
      using sys_okD(4) [OF s(1)] w(2) by (simp add: t_def f_def lists_ok_def distinct_removeAll)
    have "fc_io (sy_conn s) \<noteq> []"
      using w(3) by auto
    then show "aborter_ok (sy_abort t) (sy_conn t)" "aborter_ok (sy_release s) (sy_conn t)"
      using sys_okD(6,7) [OF s(1)] by (auto simp: aborter_ok_def t_def f_def)
    show "sy_copy t = Map.empty" if "sy_release s \<noteq> Idle"
      using sys_okD(8) [OF s(1) that] s(2) by simp
  qed (simp_all add: t_def f_def q_def same_counters_def)
  then show ?thesis
    using step by simp
qed

lemma read_done_ok:
  assumes "sys_ok s"
  shows "keeps (dev_next (Ev_Read_Done a err) s)"
proof (cases "sy_copy s a = Some Copies_Out")
  case True
  then obtain r where r: "fc_reqs (sy_conn s) a = Some r"
    using copier_live [OF assms, of a] by auto
  show ?thesis
  proof (cases "err = 0 \<and> \<not> dq_aborted r \<and> dq_isreply r")
    case sent: True
    then show ?thesis
      using read_done_sent [OF assms True r] by simp
  next
    case False
    define q where "q = (if err \<noteq> 0 \<and> \<not> dq_aborted r then r\<lparr>dq_locked := False, dq_error := - EIO\<rparr> else r\<lparr>dq_locked := False\<rparr>)"
    have q: "similar r q" "\<not> dq_locked q"
      by (simp_all add: q_def similar_def)
    note e = end_copied [OF assms r _ q]
    show ?thesis
      using True False r e by (auto simp: dev_read_done_def Let_def ENOENT_def q_def)
  qed
qed simp

lemma write_done_ok:
  assumes "sys_ok s"
  shows "keeps (dev_next (Ev_Write_Done a err nbytes) s)"
proof (cases "sy_copy s a = Some Copies_In")
  case True
  then obtain r where r: "fc_reqs (sy_conn s) a = Some r"
    using copier_live [OF assms, of a] by auto
  define q where "q = (if err \<noteq> 0 \<and> \<not> dq_aborted r then r\<lparr>dq_locked := False, dq_error := - EIO\<rparr> else r\<lparr>dq_locked := False\<rparr>)"
  have q: "similar r q" "\<not> dq_locked q"
    by (simp_all add: q_def similar_def)
  note e = end_copied [OF assms r _ q]
  show ?thesis
    using True r e by (simp add: dev_write_done_def Let_def q_def)
qed simp

section \<open>Sending\<close>

lemma req_refused:
  assumes "req_ok (Some r) (Some Owns) c pend sent io intr held ending"
  shows "req_ok (Some (r\<lparr>dq_isreply := True, dq_error := e\<rparr>)) (Some Returned) c pend sent io intr held ending"
  using assms by (cases "dq_state r") (simp_all add: req_ok_def sender_ok_def)

lemma get_unique_nonzero [simp]: "fuse_get_unique u \<noteq> 0"
  by (simp add: fuse_get_unique_def)

lemma req_queued:
  assumes "req_ok (Some r) (Some Owns) c pend sent io intr held ending" "u \<noteq> 0"
  shows "p \<in> {Waits_Any, Waits_Fatal} \<Longrightarrow> req_ok (Some (r\<lparr>dq_isreply := True, dq_count := dq_count r + 1, dq_unique := u,
      dq_state := Req_Pending, dq_waiting := True\<rparr>)) (Some p) c True sent io intr held ending"
    "req_ok (Some (r\<lparr>dq_isreply := reply, dq_background := True, dq_unique := u, dq_state := Req_Pending, dq_waiting := True\<rparr>))
      None c True sent io intr held ending"
    "\<not> pend" "\<not> dq_deleted r" "\<not> dq_background r"
  using assms by (cases "dq_state r"; auto simp: req_ok_def sender_ok_def)+

lemma owned:
  assumes "sys_ok s" "sy_send s a = Some Owns"
  obtains r where "fc_reqs (sy_conn s) a = Some r"
    "req_ok (Some r) (Some Owns) (sy_copy s a) (a \<in> set (fc_pending (sy_conn s))) (a \<in> set (fc_processing (sy_conn s)))
      (a \<in> set (fc_io (sy_conn s))) (a \<in> set (fc_interrupts (sy_conn s))) (sy_abort s = Abort_Ending a) (a \<in> set (sy_ending s))"
  using sender_live [OF assms(1), of a] assms(2) by auto

lemma connected_idle: "sys_ok s \<Longrightarrow> fc_connected (sy_conn s) \<Longrightarrow> sy_abort s = Idle \<and> sy_release s = Idle"
  using sys_okD(6,7) [of s] by (simp add: aborter_ok_def)

lemma send_ok:
  assumes "sys_ok s"
  shows "keeps (dev_next (Ev_Send a) s)"
proof (cases "sy_send s a = Some Owns")
  case True
  obtain r where r: "fc_reqs (sy_conn s) a = Some r"
    and v: "req_ok (Some r) (Some Owns) (sy_copy s a) (a \<in> set (fc_pending (sy_conn s))) (a \<in> set (fc_processing (sy_conn s)))
      (a \<in> set (fc_io (sy_conn s))) (a \<in> set (fc_interrupts (sy_conn s))) (sy_abort s = Abort_Ending a) (a \<in> set (sy_ending s))"
    by (rule owned [OF assms True])
  have refused: "sys_ok (set_sender (set_conn s (put_dreq a (r\<lparr>dq_isreply := True, dq_error := e\<rparr>) (sy_conn s))) a (Some Returned))"
    (is "sys_ok ?t") for e
  proof (rule ok_touch [OF assms r, where q = "r\<lparr>dq_isreply := True, dq_error := e\<rparr>"])
    show "view_ok ?t a"
      using req_refused [OF v] by (simp add: view_at)
    show "elsewhere a s ?t"
      by (simp add: elsewhere_def)
    show "aborter_ok (sy_abort ?t) (sy_conn ?t)" "aborter_ok (sy_release s) (sy_conn ?t)"
      using sys_okD(6,7) [OF assms] by (simp_all add: aborter_ok_def)
    show "sy_copy ?t = Map.empty" if "sy_release s \<noteq> Idle"
      using sys_okD(8) [OF assms that] by simp
  qed (use sys_okD(4) [OF assms] in \<open>simp_all add: lists_removed\<close>)
  define w where "w = (if fc_no_interrupt (sy_conn s) then Waits_Fatal else Waits_Any)"
  define t where "t = set_sender (set_conn s (queue_request a (r\<lparr>dq_isreply := True, dq_count := dq_count r + 1\<rparr>) (sy_conn s))) a (Some w)"
  have "sys_ok t" if c: "fc_connected (sy_conn s)"
  proof (rule sys_ok_change [OF assms r])
    show "view_ok t a"
      using req_queued(1) [OF v get_unique_nonzero, of w] by (simp add: view_at t_def w_def queue_request_def Let_def)
    show "balanced a s t"
      using r req_queued(5) [OF v get_unique_nonzero] by (simp add: balanced_def counts_def t_def queue_request_def Let_def)
    show "lists_ok (sy_conn t)"
      using sys_okD(4) [OF assms] req_queued(3) [OF v get_unique_nonzero] by (simp add: lists_ok_def t_def queue_request_def Let_def)
    show "elsewhere a s t"
      by (simp add: elsewhere_def t_def queue_request_def Let_def)
    show "blocked_ok (sy_conn t)"
      using sys_okD(3) [OF assms] by (simp add: blocked_ok_def t_def queue_request_def Let_def)
  qed (use connected_idle [OF assms c] in \<open>simp_all add: aborter_ok_def t_def queue_request_def Let_def\<close>)
  then show ?thesis
    using True r refused by (simp add: request_send_def sender_next_def Let_def t_def w_def)
qed simp

lemma view_unsent:
  assumes "req_ok (Some r) (Some Owns) c pend sent io intr held ending"
  shows "dq_count r = 1" "c = None" "\<not> sent" "\<not> io" "\<not> intr" "\<not> held" "\<not> ending"
  using assms by (cases "dq_state r"; simp add: req_ok_def sender_ok_def)+

lemma send_nowait_ok:
  assumes "sys_ok s"
  shows "keeps (dev_next (Ev_Send_Nowait reply a) s)"
proof (cases "sy_send s a = Some Owns")
  case True
  obtain r where r: "fc_reqs (sy_conn s) a = Some r"
    and v: "req_ok (Some r) (Some Owns) (sy_copy s a) (a \<in> set (fc_pending (sy_conn s))) (a \<in> set (fc_processing (sy_conn s)))
      (a \<in> set (fc_io (sy_conn s))) (a \<in> set (fc_interrupts (sy_conn s))) (sy_abort s = Abort_Ending a) (a \<in> set (sy_ending s))"
    by (rule owned [OF assms True])
  note u = view_unsent [OF v] and w = req_queued [OF v get_unique_nonzero]
  show ?thesis
  proof (cases "fc_connected (sy_conn s)")
    case c: True
    define n where "n = fc_num_background (sy_conn s) + 1"
    define t where "t = set_conn (set_sender s a None) (queue_request a (r\<lparr>dq_isreply := reply, dq_background := True\<rparr>)
      (sy_conn s\<lparr>fc_num_background := n, fc_blocked := (fc_blocked (sy_conn s) \<or> n = FUSE_MAX_BACKGROUND)\<rparr>))"
    have "sys_ok t"
    proof (rule sys_ok_change [OF assms r])
      show "view_ok t a"
        using w(2) by (simp add: view_at t_def queue_request_def Let_def)
      show "balanced a s t"
        using r w(4,5) by (simp add: balanced_def counts_def t_def queue_request_def n_def Let_def)
      show "lists_ok (sy_conn t)"
        using sys_okD(4) [OF assms] w(3) by (simp add: lists_ok_def t_def queue_request_def Let_def)
      show "blocked_ok (sy_conn t)"
        using sys_okD(3) [OF assms] by (auto simp: blocked_ok_def t_def queue_request_def n_def Let_def)
      show "elsewhere a s t"
        by (simp add: elsewhere_def t_def queue_request_def Let_def)
    qed (use connected_idle [OF assms c] in \<open>simp_all add: aborter_ok_def t_def queue_request_def Let_def\<close>)
    then show ?thesis
      using True r c by (simp add: request_send_nowait_def conn_next_def Let_def t_def n_def)
  next
    case c: False
    define q where "q = r\<lparr>dq_isreply := reply, dq_error := - ENOTCONN\<rparr>"
    define t where "t = set_conn (set_sender s a None) (ended a q (sy_conn s))"
    have "sys_ok t"
    proof (rule sys_ok_change [OF assms r])
      show "view_ok t a"
        using u by (simp add: view_at req_ok_def t_def ended_def q_def)
      show "balanced a s t"
        using r u(1) w(5) waiting_pos [OF assms r] by (simp add: balanced_def counts_def t_def ended_def q_def)
      show "blocked_ok (sy_conn t)"
        unfolding t_def using w(5) by (simp, intro blocked_ended [OF sys_okD(3) [OF assms]]) (simp add: q_def)
      show "lists_ok (sy_conn t)"
        using lists_ended [OF sys_okD(4) [OF assms]] by (simp add: t_def)
      show "elsewhere a s t"
        by (simp add: elsewhere_def t_def ended_def)
      show "aborter_ok (sy_abort t) (sy_conn t)" "aborter_ok (sy_release t) (sy_conn t)"
        unfolding t_def by (simp, rule aborter_shrinks [OF sys_okD(6) [OF assms]]; simp add: ended_def)
          (simp, rule aborter_shrinks [OF sys_okD(7) [OF assms]]; simp add: ended_def)
      show "sy_copy t = Map.empty" if "sy_release s \<noteq> Idle"
        using sys_okD(8) [OF assms that] by (simp add: t_def)
    qed (simp_all add: t_def)
    moreover have "request_end a (put_dreq a q (sy_conn s)) = Inr (ended a q (sy_conn s))"
      using request_end_ended [of "put_dreq a q (sy_conn s)" a q] w(4) by (simp add: q_def)
    ultimately show ?thesis
      using True r c by (simp add: request_send_nowait_def conn_next_def Let_def t_def q_def)
  qed
qed simp

section \<open>Waiting\<close>

definition waits :: "sender \<Rightarrow> bool" where
  "waits p \<longleftrightarrow> p \<noteq> Owns \<and> p \<noteq> Returned"

text \<open>Where the sender of an aborted request may go.\<close>

definition goes_on :: "dreq \<Rightarrow> sender \<Rightarrow> bool" where
  "goes_on r p \<longleftrightarrow> p = Returned \<or> p = At_Aborted \<or> p = Waits_Last \<and> dq_state r \<in> {Req_Sent, Req_Finished}"

lemma req_pend_kept: "req_ok (Some r) (Some p) c pend sent io intr held ending \<Longrightarrow> waits p \<Longrightarrow> dq_state r = Req_Pending \<Longrightarrow>
    \<not> dq_deleted r \<and> pend \<and> \<not> dq_aborted r"
  by (simp add: req_ok_def waits_def split: if_splits)

lemma req_moves:
  assumes "req_ok (Some r) (Some p) c pend sent io intr held ending" "waits p"
  shows "req_ok (Some r) (Some Returned) c pend sent io intr held ending"
    "req_ok (Some r) (Some Waits_Fatal) c pend sent io intr held ending"
    "dq_aborted r \<Longrightarrow> goes_on r p2 \<Longrightarrow> req_ok (Some r) (Some p2) c pend sent io intr held ending"
    "\<not> dq_background r"
proof -
  have i: "dq_state r \<noteq> Req_Init" "dq_state r = Req_Pending \<longrightarrow> \<not> dq_deleted r \<and> \<not> dq_aborted r"
    using assms req_pend_kept [OF assms] by (auto simp: req_ok_def waits_def)
  show b: "\<not> dq_background r"
    using assms(1) i by (cases "dq_state r") (simp_all add: req_ok_def sender_ok_def)
  have g: "sender_ok r (Some p2) \<Longrightarrow> req_ok (Some r) (Some p2) c pend sent io intr held ending" for p2
    using assms(1) i by (cases "dq_state r") (simp_all add: req_ok_def)
  show "req_ok (Some r) (Some Returned) c pend sent io intr held ending"
    "req_ok (Some r) (Some Waits_Fatal) c pend sent io intr held ending"
    "dq_aborted r \<Longrightarrow> goes_on r p2 \<Longrightarrow> req_ok (Some r) (Some p2) c pend sent io intr held ending"
    using b by (auto intro!: g simp: sender_ok_def goes_on_def)
qed

lemma req_aborts:
  assumes "req_ok (Some r) (Some p) c pend sent io intr held ending" "waits p" "\<not> pend" "goes_on r p2"
  shows "req_ok (Some (r\<lparr>dq_error := e, dq_aborted := True\<rparr>)) (Some p2) c pend sent io intr held ending"
proof -
  have i: "dq_state r \<noteq> Req_Init" "dq_state r \<noteq> Req_Pending"
    using assms(1-3) req_pend_kept [OF assms(1,2)] by (auto simp: req_ok_def waits_def)
  have "sender_ok (r\<lparr>dq_error := e, dq_aborted := True\<rparr>) (Some p2)"
    using assms(4) req_moves(4) [OF assms(1,2)] by (auto simp: sender_ok_def goes_on_def)
  then show ?thesis
    using assms(1) i by (cases "dq_state r") (simp_all add: req_ok_def)
qed

lemma req_interrupts:
  assumes "req_ok (Some r) (Some p) c pend sent io intr held ending" "waits p"
  shows "req_ok (Some (r\<lparr>dq_interrupted := True\<rparr>)) (Some Waits_Fatal) c pend sent io (intr \<or> sent) held ending"
    "p = Waits_Any \<Longrightarrow> \<not> intr"
  using assms by (cases "dq_state r"; auto simp: req_ok_def sender_ok_def waits_def split: if_splits)+

lemma req_pending:
  assumes "req_ok (Some r) (Some p) c True sent io intr held ending" "waits p"
  shows "c = None" "\<not> dq_locked r" "\<not> dq_deleted r" "dq_count r = 2" "\<not> dq_aborted r" "dq_state r = Req_Pending" "\<not> intr"
    "req_ok (Some (r\<lparr>dq_error := e, dq_aborted := True, dq_deleted := True, dq_count := 1\<rparr>)) (Some Returned) c False sent io intr held ending"
proof -
  show i: "dq_state r = Req_Pending"
    using assms(1) by (cases "dq_state r") (simp_all add: req_ok_def)
  show d: "\<not> dq_deleted r" "\<not> dq_aborted r"
    using req_pend_kept [OF assms i] by simp_all
  show "c = None" "\<not> dq_locked r" "dq_count r = 2" "\<not> intr"
    "req_ok (Some (r\<lparr>dq_error := e, dq_aborted := True, dq_deleted := True, dq_count := 1\<rparr>)) (Some Returned) c False sent io intr held ending"
    using assms(1) i d req_moves(4) [OF assms] by (simp_all add: req_ok_def sender_ok_def)
qed

text \<open>The sender goes on, and the request may leave the waiting ones or be interrupted.\<close>

lemma ok_moved:
  assumes s: "sys_ok s" "fc_reqs (sy_conn s) a = Some r" and q: "\<not> dq_background r" "\<not> dq_background q" "dq_waiting q = dq_waiting r"
    and f: "f = (put_dreq a q (sy_conn s))\<lparr>fc_pending := ps, fc_interrupts := ints\<rparr>"
      "ps = fc_pending (sy_conn s) \<or> ps = removeAll a (fc_pending (sy_conn s))"
      "ints = fc_interrupts (sy_conn s) \<or> a \<notin> set (fc_interrupts (sy_conn s)) \<and> ints = fc_interrupts (sy_conn s) @ [a]"
    and v: "req_ok (Some q) (Some p) (sy_copy s a) (a \<in> set ps) (a \<in> set (fc_processing (sy_conn s))) (a \<in> set (fc_io (sy_conn s)))
      (a \<in> set ints) (sy_abort s = Abort_Ending a) (a \<in> set (sy_ending s))"
  shows "sys_ok (set_sender (set_conn s f) a (Some p))"
proof (rule ok_touch [OF s, where q = q])
  let ?t = "set_sender (set_conn s f) a (Some p)"
  have l: "b \<noteq> a \<Longrightarrow> b \<in> set ps \<longleftrightarrow> b \<in> set (fc_pending (sy_conn s))" "b \<noteq> a \<Longrightarrow> b \<in> set ints \<longleftrightarrow> b \<in> set (fc_interrupts (sy_conn s))"
    "set ps \<subseteq> set (fc_pending (sy_conn s))" "distinct (fc_pending (sy_conn s)) \<Longrightarrow> distinct ps"
    "distinct (fc_interrupts (sy_conn s)) \<Longrightarrow> distinct ints" for b
    using f(2,3) by (auto simp: distinct_removeAll)
  have c: "sy_conn ?t = f" "fc_processing f = fc_processing (sy_conn s)" "fc_io f = fc_io (sy_conn s)" "fc_pending f = ps"
    "fc_interrupts f = ints" "fc_connected f = fc_connected (sy_conn s)" "fc_reqs f = (fc_reqs (sy_conn s))(a \<mapsto> q)"
    "fc_fresh f = fc_fresh (sy_conn s)" "same_counters (sy_conn s) f"
    by (simp_all add: f(1) same_counters_def)
  show "elsewhere a s ?t"
    by (simp add: elsewhere_def c l)
  show "view_ok ?t a"
    using v by (simp add: view_at c)
  show "lists_ok (sy_conn ?t)"
    using sys_okD(4) [OF s(1)] by (simp add: lists_ok_def c l)
  show "aborter_ok (sy_abort ?t) (sy_conn ?t)"
    using aborter_shrinks [OF sys_okD(6) [OF s(1)], of f] by (simp add: c l(3))
  show "aborter_ok (sy_release s) (sy_conn ?t)"
    using aborter_shrinks [OF sys_okD(7) [OF s(1)], of f] by (simp add: c l(3))
  show "fc_reqs (sy_conn ?t) a = Some q" "same_counters (sy_conn s) (sy_conn ?t)"
    by (simp_all add: c)
  show "sy_copy ?t = Map.empty" if "sy_release s \<noteq> Idle"
    using sys_okD(8) [OF s(1) that] by simp
qed (use q in simp_all)

lemma put_same: "fc_reqs f a = Some r \<Longrightarrow> put_dreq a r f = f"
  by (simp add: put_dreq_def fun_upd_idem)

lemma ok_sender:
  assumes "sys_ok s" "fc_reqs (sy_conn s) a = Some r" "\<not> dq_background r"
    "req_ok (Some r) (Some p) (sy_copy s a) (a \<in> set (fc_pending (sy_conn s))) (a \<in> set (fc_processing (sy_conn s)))
      (a \<in> set (fc_io (sy_conn s))) (a \<in> set (fc_interrupts (sy_conn s))) (sy_abort s = Abort_Ending a) (a \<in> set (sy_ending s))"
  shows "sys_ok (set_sender s a (Some p))"
  using ok_moved [OF assms(1,2,3,3) refl _ _ _ assms(4)] assms(2) by (simp add: put_same)

text \<open>What a step of a sender gives.\<close>

definition moves :: "dev_sys \<Rightarrow> nat \<Rightarrow> (sender \<times> kconn) res \<Rightarrow> bool" where
  "moves s a x \<longleftrightarrow> (\<exists>p f. x = Inr (p, f) \<and> sys_ok (set_sender (set_conn s f) a (Some p)))"

lemma moves_keeps: "moves s a x \<Longrightarrow> keeps (Some (sender_next s a x))"
  by (auto simp: moves_def sender_next_def)

lemma moves_same:
  assumes "sys_ok s" "fc_reqs (sy_conn s) a = Some r" "\<not> dq_background r" "req_ok (Some r) (Some p) (sy_copy s a)
      (a \<in> set (fc_pending (sy_conn s))) (a \<in> set (fc_processing (sy_conn s)))
      (a \<in> set (fc_io (sy_conn s))) (a \<in> set (fc_interrupts (sy_conn s))) (sy_abort s = Abort_Ending a) (a \<in> set (sy_ending s))"
  shows "moves s a (Inr (p, sy_conn s))"
  using ok_sender [OF assms] by (simp add: moves_def)

lemma waiting_at:
  assumes "sys_ok s" "sy_send s a = Some p"
  obtains r where "fc_reqs (sy_conn s) a = Some r" "req_ok (Some r) (Some p) (sy_copy s a)
      (a \<in> set (fc_pending (sy_conn s))) (a \<in> set (fc_processing (sy_conn s)))
      (a \<in> set (fc_io (sy_conn s))) (a \<in> set (fc_interrupts (sy_conn s))) (sy_abort s = Abort_Ending a) (a \<in> set (sy_ending s))"
  using sender_live [OF assms(1), of a] assms(2) by auto

lemma req_not_pending: "req_ok (Some r) p c pend sent io intr held ending \<Longrightarrow> dq_aborted r \<Longrightarrow> p \<noteq> Some Returned \<Longrightarrow> dq_state r \<noteq> Req_Pending"
  by (auto simp: req_ok_def split: if_splits)

lemma wait_aborted_moves:
  assumes "sys_ok s" "sy_send s a = Some p" "waits p" "fc_reqs (sy_conn s) a = Some r" "dq_aborted r"
  shows "moves s a (wait_aborted a (sy_conn s))"
proof -
  obtain r where r: "fc_reqs (sy_conn s) a = Some r" and v: "req_ok (Some r) (Some p) (sy_copy s a)
      (a \<in> set (fc_pending (sy_conn s))) (a \<in> set (fc_processing (sy_conn s)))
      (a \<in> set (fc_io (sy_conn s))) (a \<in> set (fc_interrupts (sy_conn s))) (sy_abort s = Abort_Ending a) (a \<in> set (sy_ending s))"
    by (rule waiting_at [OF assms(1,2)])
  have ab: "dq_aborted r" "dq_state r \<noteq> Req_Pending"
    using assms(3-5) r req_not_pending [OF v] by (auto simp: waits_def)
  note m = req_moves(3) [OF v assms(3) ab(1)] req_moves(4) [OF v assms(3)]
  show ?thesis
    using r ab moves_same [OF assms(1) r m(2) m(1)]
    by (simp add: wait_aborted_def abort_sent_def goes_on_def)
qed

lemma wait_any_ok:
  assumes "sys_ok s" "sy_send s a = Some Waits_Any"
  shows "moves s a (wait_any a (sy_conn s))"
proof -
  have w: "waits Waits_Any"
    by (simp add: waits_def)
  obtain r where r: "fc_reqs (sy_conn s) a = Some r" and v: "req_ok (Some r) (Some Waits_Any) (sy_copy s a)
      (a \<in> set (fc_pending (sy_conn s))) (a \<in> set (fc_processing (sy_conn s)))
      (a \<in> set (fc_io (sy_conn s))) (a \<in> set (fc_interrupts (sy_conn s))) (sy_abort s = Abort_Ending a) (a \<in> set (sy_ending s))"
    by (rule waiting_at [OF assms])
  note m = req_moves [OF v w] and i = req_interrupts [OF v w]
  define ints where "ints = fc_interrupts (sy_conn s) @ (if dq_state r = Req_Sent then [a] else [])"
  have sent: "a \<in> set (fc_processing (sy_conn s)) \<longleftrightarrow> dq_state r = Req_Sent"
    using v by (cases "dq_state r") (simp_all add: req_ok_def split: if_splits)
  have "sys_ok (set_sender (set_conn s ((put_dreq a (r\<lparr>dq_interrupted := True\<rparr>) (sy_conn s))
      \<lparr>fc_pending := fc_pending (sy_conn s), fc_interrupts := ints\<rparr>)) a (Some Waits_Fatal))"
    by (rule ok_moved [OF assms(1) r m(4), where q = "r\<lparr>dq_interrupted := True\<rparr>"])
      (use m(4) i sent in \<open>auto simp: ints_def\<close>)
  then have "moves s a (Inr (Waits_Fatal, (put_dreq a (r\<lparr>dq_interrupted := True\<rparr>) (sy_conn s))\<lparr>fc_interrupts := ints\<rparr>))"
    by (simp add: moves_def put_dreq_def)
  then show ?thesis
    using r i(2) wait_aborted_moves [OF assms w r] moves_same [OF assms(1) r m(4,1)]
    by (auto simp: wait_any_def queue_interrupt_def ints_def Let_def put_dreq_def)
qed

lemma wait_fatal_ok:
  assumes "sys_ok s" "sy_send s a = Some Waits_Fatal"
  shows "moves s a (wait_fatal a (sy_conn s))"
proof -
  have w: "waits Waits_Fatal"
    by (simp add: waits_def)
  obtain r where r: "fc_reqs (sy_conn s) a = Some r" and v: "req_ok (Some r) (Some Waits_Fatal) (sy_copy s a)
      (a \<in> set (fc_pending (sy_conn s))) (a \<in> set (fc_processing (sy_conn s)))
      (a \<in> set (fc_io (sy_conn s))) (a \<in> set (fc_interrupts (sy_conn s))) (sy_abort s = Abort_Ending a) (a \<in> set (sy_ending s))"
    by (rule waiting_at [OF assms])
  note m = req_moves [OF v w]
  define q where "q = r\<lparr>dq_error := - EINTR, dq_aborted := True\<rparr>"
  show ?thesis
  proof (cases "dq_aborted r \<or> dq_state r = Req_Finished \<or> dq_force r")
    case True
    then show ?thesis
      using r wait_aborted_moves [OF assms w r] moves_same [OF assms(1) r m(4,1)] moves_same [OF assms(1) r m(4,2)]
      by (auto simp: wait_fatal_def)
  next
    case F: False
    then have step: "wait_fatal a (sy_conn s) = wait_aborted a (put_dreq a q (sy_conn s))"
      using r by (simp add: wait_fatal_def q_def)
    show ?thesis
    proof (cases "a \<in> set (fc_pending (sy_conn s))")
      case True
      note n = req_pending [OF v [unfolded eqTrueI [OF True]] w]
      define f where "f = (put_dreq a (q\<lparr>dq_deleted := True, dq_count := 1\<rparr>) (sy_conn s))
        \<lparr>fc_pending := removeAll a (fc_pending (sy_conn s)), fc_interrupts := fc_interrupts (sy_conn s)\<rparr>"
      have "a \<notin> set (fc_processing (sy_conn s))" "a \<notin> set (fc_io (sy_conn s))"
        using v n(6) by (simp_all add: req_ok_def)
      then have "wait_aborted a (put_dreq a q (sy_conn s)) = Inr (Returned, f)"
        using n by (simp add: wait_aborted_def abort_sent_def fuse_put_request2_def q_def f_def put_dreq_def del_list_def dreq_at_def)
      moreover have "sys_ok (set_sender (set_conn s f) a (Some Returned))"
        by (rule ok_moved [OF assms(1) r m(4) _ _ f_def]) (use m(4) n(8) in \<open>simp_all add: q_def\<close>)
      ultimately show ?thesis
        using step by (simp add: moves_def)
    next
      case False
      have st: "dq_state r \<noteq> Req_Pending"
        using v False by (auto simp: req_ok_def split: if_splits)
      have "sys_ok (set_sender (set_conn s (put_dreq a q (sy_conn s))) a (Some p))" if "goes_on r p" for p
        using ok_moved [OF assms(1) r m(4) _ _ refl _ _ req_aborts [OF v w False that]] m(4)
        by (simp add: q_def put_dreq_def)
      then show ?thesis
        using step st by (simp add: wait_aborted_def abort_sent_def moves_def goes_on_def q_def)
    qed
  qed
qed

lemma wait_last_ok:
  assumes "sys_ok s" "sy_send s a = Some Waits_Last"
  shows "moves s a (wait_last a (sy_conn s))"
proof -
  have w: "waits Waits_Last"
    by (simp add: waits_def)
  obtain r where r: "fc_reqs (sy_conn s) a = Some r" and v: "req_ok (Some r) (Some Waits_Last) (sy_copy s a)
      (a \<in> set (fc_pending (sy_conn s))) (a \<in> set (fc_processing (sy_conn s)))
      (a \<in> set (fc_io (sy_conn s))) (a \<in> set (fc_interrupts (sy_conn s))) (sy_abort s = Abort_Ending a) (a \<in> set (sy_ending s))"
    by (rule waiting_at [OF assms])
  note m = req_moves [OF v w]
  show ?thesis
    using r moves_same [OF assms(1) r m(4,1)] moves_same [OF assms(1) r m(4) v] by (simp add: wait_last_def)
qed

lemma wait_ok:
  assumes "sys_ok s"
  shows "keeps (dev_next (Ev_Wait a) s)"
proof (cases "sy_send s a")
  case (Some p)
  show ?thesis
  proof (cases p)
    case At_Aborted
    then obtain r where r: "fc_reqs (sy_conn s) a = Some r" "req_at s a (Some r)"
      using sender_live [OF assms, of a] Some by auto
    then have "dq_aborted r"
      using Some At_Aborted by (cases "dq_state r") (simp_all add: req_ok_def sender_ok_def)
    then show ?thesis
      using Some At_Aborted moves_keeps [OF wait_aborted_moves [OF assms Some _ r(1)]] by (simp add: waits_def)
  qed (use Some assms moves_keeps wait_any_ok wait_fatal_ok wait_last_ok in simp_all)
qed simp

section \<open>Reading and writing\<close>

lemma req_unqueue:
  assumes "req_ok (Some r) p c pend sent io True held ending"
  shows "req_ok (Some (r\<lparr>dq_intr_unique := u\<rparr>)) p c pend sent io False held ending"
  using assms by (cases "dq_state r") (simp_all add: req_ok_def split: if_splits)

lemma read_interrupt_ok:
  assumes "sys_ok s" "a \<in> set (fc_interrupts (sy_conn s))"
  shows "\<exists>msg f. fuse_read_interrupt a (sy_conn s) = Inr (msg, f) \<and> sys_ok (set_conn s f)"
proof -
  obtain r where r: "fc_reqs (sy_conn s) a = Some r" and v: "req_at s a (Some r)"
    using view_live [OF sys_okD(1) [OF assms(1)]] assms(2) by metis
  define u where "u = fuse_get_unique (fc_reqctr (sy_conn s))"
  define f where "f = (put_dreq a (r\<lparr>dq_intr_unique := u\<rparr>) (del_intr a (sy_conn s)))\<lparr>fc_reqctr := u\<rparr>"
  have "sys_ok (set_conn s f)"
  proof (rule ok_touch [OF assms(1) r, where q = "r\<lparr>dq_intr_unique := u\<rparr>"])
    show "view_ok (set_conn s f) a"
      using req_unqueue [OF v [unfolded eqTrueI [OF assms(2)]], of u] by (simp add: view_at f_def)
    show "elsewhere a s (set_conn s f)"
      by (simp add: elsewhere_def f_def)
    show "lists_ok (sy_conn (set_conn s f))"
      using sys_okD(4) [OF assms(1)] by (simp add: lists_ok_def f_def distinct_removeAll)
    show "aborter_ok (sy_abort (set_conn s f)) (sy_conn (set_conn s f))" "aborter_ok (sy_release s) (sy_conn (set_conn s f))"
      using sys_okD(6,7) [OF assms(1)] by (simp_all add: aborter_ok_def f_def)
    show "sy_copy (set_conn s f) = Map.empty" if "sy_release s \<noteq> Idle"
      using sys_okD(8) [OF assms(1) that] by simp
  qed (simp_all add: f_def same_counters_def)
  then show ?thesis
    using r by (simp add: fuse_read_interrupt_def Let_def f_def u_def)
qed

lemma req_taken:
  assumes "req_ok (Some r) p c True sent io intr held ending"
  shows "req_ok (Some (r\<lparr>dq_state := Req_Reading\<rparr>)) p (Some Copies_Out) False False True False held ending" "\<not> intr" "\<not> dq_deleted r" "\<not> io"
  using assms by (cases "dq_state r"; simp add: req_ok_def sender_ok_def split: if_splits)+

lemma req_answered:
  assumes "req_ok (Some r) p c pend True io intr held ending" "\<not> dq_aborted r"
  shows "req_ok (Some (r\<lparr>dq_state := Req_Writing, dq_error := e, dq_locked := True\<rparr>)) p (Some Copies_In) False False True intr held ending"
    "\<not> dq_deleted r" "\<not> io"
  using assms by (cases "dq_state r"; simp add: req_ok_def sender_ok_def)+

text \<open>A request is moved to the list of those that are copied.\<close>

lemma ok_copying:
  assumes s: "sys_ok s" "fc_reqs (sy_conn s) a = Some r" "fc_connected (sy_conn s)" "a \<notin> set (fc_io (sy_conn s))"
    and q: "dq_background q = dq_background r" "dq_waiting q = dq_waiting r" "dq_deleted q = dq_deleted r"
    and v: "req_ok (Some q) (sy_send s a) (Some x) False False True (a \<in> set (fc_interrupts (sy_conn s)))
      (sy_abort s = Abort_Ending a) (a \<in> set (sy_ending s))"
    and f: "f = put_dreq a q ((del_list a (sy_conn s))\<lparr>fc_io := a # removeAll a (fc_io (sy_conn s))\<rparr>)"
  shows "sys_ok (set_copier (set_conn s f) a (Some x))"
proof (rule ok_touch [OF s(1,2), where q = q])
  let ?t = "set_copier (set_conn s f) a (Some x)"
  have i: "sy_abort s = Idle" "sy_release s = Idle"
    using connected_idle [OF s(1,3)] by simp_all
  show "view_ok ?t a"
    using v by (simp add: view_at f)
  show "elsewhere a s ?t"
    by (simp add: elsewhere_def f)
  show "lists_ok (sy_conn ?t)"
    using sys_okD(4) [OF s(1)] by (simp add: lists_ok_def f distinct_removeAll)
  show "aborter_ok (sy_abort ?t) (sy_conn ?t)" "aborter_ok (sy_release s) (sy_conn ?t)"
    using i s(3) by (simp_all add: aborter_ok_def f)
  show "sy_copy ?t = Map.empty" if "sy_release s \<noteq> Idle"
    using that i by simp
qed (use q in \<open>simp_all add: f same_counters_def\<close>)

lemma take_pending_ok:
  assumes "sys_ok s" "fc_connected (sy_conn s)" "fc_interrupts (sy_conn s) = []" "fc_pending (sy_conn s) = a # xs"
  shows "keeps (dev_next (Ev_Read nonblock bufsize) s)"
proof -
  have p: "a \<in> set (fc_pending (sy_conn s))"
    using assms(4) by simp
  obtain r where r: "fc_reqs (sy_conn s) a = Some r" and v: "req_at s a (Some r)"
    using view_live [OF sys_okD(1) [OF assms(1)]] p by metis
  note w = req_taken [OF v [unfolded eqTrueI [OF p]]]
  have o: "outstanding s a"
    using p by (simp add: outstanding_def)
  define e where "e = (if kr_opcode (dq_in r) = FUSE_SETXATTR then - E2BIG else - EIO)"
  define q where "q = r\<lparr>dq_state := Req_Reading, dq_error := e\<rparr>"
  have q: "similar r q" "\<not> dq_locked q"
    using req_listed [OF v] p by (simp_all add: q_def similar_def)
  have c: "sy_copy s a = None"
    using req_listed(1) [OF v] p by simp
  define f1 where "f1 = (del_list a (sy_conn s))\<lparr>fc_io := a # removeAll a (fc_io (sy_conn s))\<rparr>"
  have "request_end a (put_dreq a q f1) = Inr (ended a q (sy_conn s))"
    by (rule request_end_sends [OF assms(1) r o q]) (simp_all add: f1_def)
  moreover have "sys_ok (set_conn s (ended a q (sy_conn s)))"
    by (rule ok_ended [OF assms(1) r o q]) (use c in auto)
  moreover have "sys_ok (set_copier (set_conn s (put_dreq a (r\<lparr>dq_state := Req_Reading\<rparr>) f1)) a (Some Copies_Out))"
    by (rule ok_copying [OF assms(1) r assms(2) w(4), where q = "r\<lparr>dq_state := Req_Reading\<rparr>"]) (use w in \<open>simp_all add: f1_def\<close>)
  ultimately show ?thesis
    using assms r w(3) by (simp add: dev_read_take_def Let_def f1_def q_def e_def)
qed

lemma read_ok:
  assumes "sys_ok s"
  shows "keeps (dev_next (Ev_Read nonblock bufsize) s)"
proof (cases "fc_connected (sy_conn s)")
  case True
  show ?thesis
  proof (cases "fc_interrupts (sy_conn s)")
    case Nil
    then show ?thesis
      using take_pending_ok [OF assms True Nil] True assms
      by (cases "fc_pending (sy_conn s)") (auto simp: dev_read_take_def)
  next
    case (Cons a xs)
    then obtain msg f where "fuse_read_interrupt a (sy_conn s) = Inr (msg, f)" "sys_ok (set_conn s f)"
      using read_interrupt_ok [OF assms, of a] by auto
    then show ?thesis
      using True Cons by (simp add: dev_read_take_def)
  qed
qed (use assms in \<open>simp add: dev_read_take_def\<close>)

lemma request_find_sent:
  assumes "request_find f u = Some a"
  shows "a \<in> set (fc_processing f)" "\<exists>r. fc_reqs f a = Some r \<and> (dq_unique r = u \<or> dq_intr_unique r = u)"
  using assms by (auto simp: request_find_def find_Some_iff split: option.splits)

text \<open>A second answer asks to repeat an interrupt that is already repeated.\<close>

definition repeated_again :: "dev_sys \<Rightarrow> dev_event \<Rightarrow> bool" where
  "repeated_again s e \<longleftrightarrow> (\<exists>u a r. e = Ev_Write u (- EAGAIN) 16 \<and> u \<noteq> 0 \<and> fc_connected (sy_conn s) \<and> request_find (sy_conn s) u = Some a \<and>
     fc_reqs (sy_conn s) a = Some r \<and> \<not> dq_aborted r \<and> dq_intr_unique r = u \<and> a \<in> set (fc_interrupts (sy_conn s)))"

text \<open>A thread ends an aborted request that was ended while it did not hold the lock.\<close>

definition ended_meanwhile :: "dev_sys \<Rightarrow> dev_event \<Rightarrow> bool" where
  "ended_meanwhile s e \<longleftrightarrow> (\<exists>a. e = Ev_End a \<and> a \<in> set (sy_ending s) \<and> a \<notin> set (fc_processing (sy_conn s)))"

lemma req_ending:
  assumes "req_ok (Some r) p c pend True io intr held ending" "dq_aborted r"
  shows "req_ok (Some r) p c pend True io intr held True"
  using assms by (cases "dq_state r") (simp_all add: req_ok_def)

lemma req_repeat:
  assumes "req_ok (Some r) p c pend True io intr held ending" "dq_intr_unique r \<noteq> 0"
  shows "req_ok (Some r) p c pend True io True held ending"
  using assms by (cases "dq_state r") (simp_all add: req_ok_def)

lemma write_ending_ok:
  assumes "sys_ok s" "fc_reqs (sy_conn s) a = Some r" "a \<in> set (fc_processing (sy_conn s))" "dq_aborted r"
  shows "sys_ok (s\<lparr>sy_ending := a # sy_ending s\<rparr>)"
proof (rule ok_touch [OF assms(1,2), where q = r])
  have "req_at s a (Some r)"
    using sys_okD(1) [OF assms(1), of a] assms(2) by (simp add: view_at)
  then show "view_ok (s\<lparr>sy_ending := a # sy_ending s\<rparr>) a"
    using req_ending [of r "sy_send s a"] assms by (simp add: view_at)
qed (use assms sys_okD(4,6,7,8) [OF assms(1)] in \<open>simp_all add: elsewhere_def\<close>)

lemma repeat_ok:
  assumes "sys_ok s" "fc_reqs (sy_conn s) a = Some r" "a \<in> set (fc_processing (sy_conn s))" "dq_intr_unique r \<noteq> 0"
    "a \<notin> set (fc_interrupts (sy_conn s))"
  shows "sys_ok (set_conn s ((sy_conn s)\<lparr>fc_interrupts := fc_interrupts (sy_conn s) @ [a]\<rparr>))"
proof (rule ok_touch [OF assms(1,2), where q = r])
  let ?t = "set_conn s ((sy_conn s)\<lparr>fc_interrupts := fc_interrupts (sy_conn s) @ [a]\<rparr>)"
  have "req_at s a (Some r)"
    using sys_okD(1) [OF assms(1), of a] assms(2) by (simp add: view_at)
  then show "view_ok ?t a"
    using req_repeat [of r "sy_send s a"] assms by (simp add: view_at)
  show "lists_ok (sy_conn ?t)"
    using sys_okD(4) [OF assms(1)] assms(5) by (simp add: lists_ok_def)
  show "aborter_ok (sy_abort ?t) (sy_conn ?t)" "aborter_ok (sy_release s) (sy_conn ?t)"
    using sys_okD(6,7) [OF assms(1)] by (simp_all add: aborter_ok_def)
qed (use assms sys_okD(8) [OF assms(1)] in \<open>simp_all add: elsewhere_def same_counters_def\<close>)

lemma no_interrupt_ok:
  assumes "sys_ok s"
  shows "sys_ok (set_conn s ((sy_conn s)\<lparr>fc_no_interrupt := True\<rparr>))"
  by (rule sys_ok_cong [OF assms]) (use assms in \<open>simp_all add: sys_ok_def blocked_ok_def aborter_ok_def\<close>)

lemma write_ok:
  assumes "sys_ok s" "\<not> repeated_again s (Ev_Write u err nbytes)"
  shows "keeps (dev_next (Ev_Write u err nbytes) s)"
proof (cases "u \<noteq> 0 \<and> fc_connected (sy_conn s)")
  case c: True
  show ?thesis
  proof (cases "request_find (sy_conn s) u")
    case (Some a)
    then obtain r where p: "a \<in> set (fc_processing (sy_conn s))" and r: "fc_reqs (sy_conn s) a = Some r"
      using request_find_sent [OF Some] by blast
    have v: "req_at s a (Some r)"
      using sys_okD(1) [OF assms(1), of a] r by (simp add: view_at)
    show ?thesis
    proof (cases "dq_aborted r")
      case True
      then show ?thesis
        using c Some r write_ending_ok [OF assms(1) r p True] by (simp add: dev_write_take_def)
    next
      case na: False
      note w = req_answered [OF v [unfolded eqTrueI [OF p]] na]
      show ?thesis
      proof (cases "dq_intr_unique r = u")
        case True
        have "a \<notin> set (fc_interrupts (sy_conn s)) \<or> err \<noteq> - EAGAIN \<or> nbytes \<noteq> 16"
          using assms(2) c Some r na True by (auto simp: repeated_again_def)
        then show ?thesis
          using c Some r na True assms(1) no_interrupt_ok [OF assms(1)] repeat_ok [OF assms(1) r p]
          by (auto simp: dev_write_take_def queue_interrupt_def)
      next
        case False
        have "sys_ok (set_copier (set_conn s (put_dreq a (r\<lparr>dq_state := Req_Writing, dq_error := err, dq_locked := True\<rparr>)
            ((del_list a (sy_conn s))\<lparr>fc_io := a # removeAll a (fc_io (sy_conn s))\<rparr>))) a (Some Copies_In))"
          by (rule ok_copying [OF assms(1) r _ w(3), where q = "r\<lparr>dq_state := Req_Writing, dq_error := err, dq_locked := True\<rparr>"])
            (use w(1) c in simp_all)
        then show ?thesis
          using c Some r na False w(2) by (simp add: dev_write_take_def Let_def)
      qed
    qed
  qed (use c assms in \<open>simp add: dev_write_take_def\<close>)
qed (use assms in \<open>auto simp: dev_write_take_def\<close>)

lemma end_ok:
  assumes "sys_ok s" "\<not> ended_meanwhile s (Ev_End a)"
  shows "keeps (dev_next (Ev_End a) s)"
proof (cases "a \<in> set (sy_ending s)")
  case True
  then have p: "a \<in> set (fc_processing (sy_conn s))"
    using assms(2) by (simp add: ended_meanwhile_def)
  obtain r where r: "fc_reqs (sy_conn s) a = Some r" and v: "req_at s a (Some r)"
    using view_live [OF sys_okD(1) [OF assms(1)]] p by metis
  have o: "outstanding s a"
    using p by (simp add: outstanding_def)
  have l: "similar r r" "\<not> dq_locked r" "sy_copy s a = None"
    using req_listed [OF v] p by (simp_all add: similar_def)
  have "request_end a (sy_conn s) = Inr (ended a r (sy_conn s))"
    by (rule request_end_sends [OF assms(1) r o l(1,2) r]) simp
  moreover have "sys_ok (set_conn (s\<lparr>sy_ending := remove1 a (sy_ending s)\<rparr>) (ended a r (sy_conn s)))"
    by (rule ok_ended [OF assms(1) r o l(1,2)]) (use l(3) in auto)
  ultimately show ?thesis
    using True by (simp add: conn_next_def)
qed simp

lemma step_keeps:
  assumes "sys_ok s" "\<not> repeated_again s e" "\<not> ended_meanwhile s e"
  shows "keeps (dev_next e s)"
proof (cases e)
  case (Ev_Write u err nbytes)
  then show ?thesis
    using write_ok [OF assms(1)] assms(2) by (simp del: dev_next.simps)
next
  case (Ev_End a)
  then show ?thesis
    using end_ok [OF assms(1)] assms(3) by (simp del: dev_next.simps)
qed (simp_all only: enter_ok get_ok alloc_ok put_ok send_ok send_nowait_ok wait_ok read_ok lock_ok unlock_ok read_done_ok
      write_done_ok abort_ok abort_step_ok release_ok release_step_ok umount_ok assms(1))

lemma repeated_fails: "repeated_again s e \<Longrightarrow> dev_next e s = Some (Inl Undefined)"
  by (auto simp: repeated_again_def dev_write_take_def queue_interrupt_def ENOSYS_def EAGAIN_def)

lemma req_stale: "req_ok (Some r) p c pend False io intr held True \<Longrightarrow> dq_deleted r"
  by (cases "dq_state r") (simp_all add: req_ok_def split: if_splits)

lemma meanwhile_fails:
  assumes "sys_ok s" "ended_meanwhile s e"
  shows "dev_next e s = Some (Inl Undefined)"
proof -
  obtain a where e: "e = Ev_End a" "a \<in> set (sy_ending s)" "a \<notin> set (fc_processing (sy_conn s))"
    using assms(2) by (auto simp: ended_meanwhile_def)
  have "request_end a (sy_conn s) = Inl Undefined"
  proof (cases "fc_reqs (sy_conn s) a")
    case (Some r)
    then have "req_at s a (Some r)"
      using sys_okD(1) [OF assms(1), of a] by (simp add: view_at)
    then have "dq_deleted r"
      using req_stale [of r "sy_send s a"] e by simp
    then show ?thesis
      using Some by (simp add: request_end_def)
  qed (simp add: request_end_def dreq_at_def)
  then show ?thesis
    using e by (simp add: conn_next_def)
qed

lemma start_ok: "sys_ok (dev_start ctr conn_error)"
  by (simp add: sys_ok_def view_ok_def req_ok_def counters_ok_def tally_def counts_def blocked_ok_def lists_ok_def fresh_ok_def
      aborter_ok_def dev_start_def FUSE_MAX_BACKGROUND_def Let_def)

lemma dev_reached_ok: "dev_reached ctr n s \<Longrightarrow> sys_ok s"
proof (induction rule: dev_reached.induct)
  case (step ctr n s e t)
  have "\<not> repeated_again s e" "\<not> ended_meanwhile s e"
    using step(2) repeated_fails meanwhile_fails [OF step(3)] by force+
  then show ?case
    using step_keeps [OF step(3)] step(2) by (metis keeps_simps(2))
qed (rule start_ok)

text \<open>C14: Whatever the threads do, and in whatever order, no list of requests or of interrupts is destroyed, no freed request is
  looked at and no \<open>BUG_ON\<close> fires, but for exactly two steps: a second answer asks to repeat an interrupt that is in the list
  already, and a thread that throws away the answer to an aborted request ends it after someone else did.\<close>

theorem requests_stay_sound:
  assumes "dev_reached ctr n s"
  shows "(\<exists>x. dev_next e s = Some (Inl x)) \<longleftrightarrow> repeated_again s e \<or> ended_meanwhile s e"
  using repeated_fails meanwhile_fails [OF dev_reached_ok [OF assms]] step_keeps [OF dev_reached_ok [OF assms], of e] by force

section \<open>Counting\<close>

lemma tally_card: "(\<forall>a\<ge>fc_fresh f. fc_reqs f a = None) \<Longrightarrow> tally P f = card {a. \<exists>r. fc_reqs f a = Some r \<and> P r}"
proof -
  assume n: "\<forall>a\<ge>fc_fresh f. fc_reqs f a = None"
  have "counts P (fc_reqs f a) = of_bool (\<exists>r. fc_reqs f a = Some r \<and> P r)" for a
    by (simp add: counts_def split: option.splits)
  moreover have "{..<fc_fresh f} \<inter> {a. \<exists>r. fc_reqs f a = Some r \<and> P r} = {a. \<exists>r. fc_reqs f a = Some r \<and> P r}"
    using n by (auto simp: not_le [symmetric])
  ultimately show ?thesis
    by (simp add: tally_def)
qed

lemma req_counted:
  assumes "req_ok ro p c pend sent io intr held ending"
  shows "ro = None \<longleftrightarrow> p = None \<and> \<not> (pend \<or> sent \<or> c \<noteq> None) \<and> \<not> held"
    "ro = Some r \<Longrightarrow> dq_count r = of_bool (p \<noteq> None) + of_bool (pend \<or> sent \<or> c \<noteq> None) + of_bool held"
  using assms by (cases ro; auto simp: req_ok_def refs_def split: fuse_req_state.splits if_splits)+

text \<open>C15: In every reachable state the requests in memory are exactly those that a thread or a list still
  needs, and each counts its references, so that none is lost and none is freed too early. The counters of
  waiting requests and of those in the background are right, and, as long as the device is connected, new
  requests are held back exactly while ten or more are in the background.\<close>

theorem requests_are_counted:
  assumes "dev_reached ctr n s" and f: "f = sy_conn s"
  shows "(fc_reqs f a = None \<longleftrightarrow> sy_send s a = None \<and> \<not> outstanding s a \<and> sy_abort s \<noteq> Abort_Ending a) \<and>
    (\<forall>r. fc_reqs f a = Some r \<longrightarrow>
       dq_count r = of_bool (sy_send s a \<noteq> None) + of_bool (outstanding s a) + of_bool (sy_abort s = Abort_Ending a)) \<and>
    fc_num_waiting f = sy_entered s + card {a. \<exists>r. fc_reqs f a = Some r \<and> dq_waiting r} \<and>
    fc_num_background f = card {a. \<exists>r. fc_reqs f a = Some r \<and> dq_background r \<and> \<not> dq_deleted r} \<and>
    (fc_connected f \<longrightarrow> (fc_blocked f \<longleftrightarrow> FUSE_MAX_BACKGROUND \<le> fc_num_background f))"
proof -
  note s = dev_reached_ok [OF assms(1)]
  have v: "req_at s a (fc_reqs f a)"
    using sys_okD(1) [OF s, of a] by (simp add: view_at f)
  have n: "\<forall>a\<ge>fc_fresh f. fc_reqs f a = None"
    using sys_okD(5) [OF s] by (simp add: fresh_ok_def f)
  show ?thesis
    using req_counted [OF v] sys_okD(2,3) [OF s] tally_card [OF n]
    by (auto simp: outstanding_def counters_ok_def blocked_ok_def f Let_def)
qed

end
