(* ===== verification/Kernel_Answers.thy ===== *)
theory Kernel_Answers
  imports Kernel_Dev_Laws
begin

text \<open>
  Answers find the request that they answer, because no two numbers in use are the same, and a connection that is
  aborted leaves no sender behind.
\<close>

section \<open>Numbers\<close>

text \<open>The number of a request, or of the message that interrupts it.\<close>

definition num_at :: "kconn \<Rightarrow> nat \<times> bool \<Rightarrow> 64 word" where
  "num_at f x = (case fc_reqs f (fst x) of None \<Rightarrow> 0 | Some r \<Rightarrow> if snd x then dq_intr_unique r else dq_unique r)"

text \<open>A step gives out no number, or one.\<close>

definition keeps_nums :: "kconn \<Rightarrow> kconn \<Rightarrow> bool" where
  "keeps_nums f g \<longleftrightarrow> fc_reqctr g = fc_reqctr f \<and> (\<forall>x. num_at g x = num_at f x \<or> num_at g x = 0)"

definition new_num :: "kconn \<Rightarrow> kconn \<Rightarrow> bool" where
  "new_num f g \<longleftrightarrow> fc_reqctr g = fuse_get_unique (fc_reqctr f) \<and>
     (\<exists>y. \<forall>x. num_at g x = num_at f x \<or> num_at g x = 0 \<or> x = y \<and> num_at g x = fc_reqctr g)"

definition nums_ok :: "kconn \<Rightarrow> bool" where
  "nums_ok f \<longleftrightarrow> (\<forall>x. unat (num_at f x) \<le> unat (fc_reqctr f)) \<and> (\<forall>x y. num_at f x = num_at f y \<longrightarrow> num_at f x = 0 \<or> x = y)"

lemma nums_kept: "nums_ok f \<Longrightarrow> keeps_nums f g \<Longrightarrow> nums_ok g"
  unfolding nums_ok_def keeps_nums_def by (metis unat_0 zero_le)

lemma next_number: "unat u < 2 ^ 64 - 1 \<Longrightarrow> unat (fuse_get_unique u) = unat u + 1"
  by (simp add: fuse_get_unique_def unat_word_ariths(1) word_unat_eq_iff)

lemma nums_new:
  assumes "nums_ok f" "new_num f g" "unat (fc_reqctr f) < 2 ^ 64 - 1"
  shows "nums_ok g"
proof -
  obtain y where y: "\<And>x. num_at g x = num_at f x \<or> num_at g x = 0 \<or> x = y \<and> num_at g x = fc_reqctr g"
    using assms(2) unfolding new_num_def by blast
  have c: "unat (fc_reqctr g) = unat (fc_reqctr f) + 1"
    using assms(2) next_number [OF assms(3)] by (simp add: new_num_def)
  have old: "unat (num_at f x) \<le> unat (fc_reqctr f)" for x
    using assms(1) unfolding nums_ok_def by blast
  then have ne: "num_at f x \<noteq> fc_reqctr g" for x
    by (metis c Suc_eq_plus1 not_less_eq_eq order_refl)
  have uniq: "num_at f x = num_at f z \<Longrightarrow> num_at f x = 0 \<or> x = z" for x z
    using assms(1) unfolding nums_ok_def by blast
  have "unat (num_at g x) \<le> unat (fc_reqctr g)" for x
    using y [of x] old [of x] c by (elim disjE) auto
  moreover have "num_at g x = 0 \<or> x = z" if e: "num_at g x = num_at g z" for x z
  proof (cases "num_at g x = 0")
    case False
    then have "num_at g z \<noteq> 0"
      using e by simp
    then show ?thesis
      using y [of x] y [of z] ne [of x] ne [of z] uniq [of x z] e False by (elim disjE) auto
  qed simp
  ultimately show ?thesis
    unfolding nums_ok_def by blast
qed

lemma kept_refl [simp]: "keeps_nums f f"
  by (simp add: keeps_nums_def)

lemma kept_trans: "keeps_nums f g \<Longrightarrow> keeps_nums g h \<Longrightarrow> keeps_nums f h"
  unfolding keeps_nums_def by metis

lemma kept_same: "fc_reqs g = fc_reqs f \<Longrightarrow> fc_reqctr g = fc_reqctr f \<Longrightarrow> keeps_nums f g"
  by (simp add: keeps_nums_def num_at_def)

lemma kept_put:
  assumes "fc_reqs f a = Some r" "dq_unique q = dq_unique r" "dq_intr_unique q = dq_intr_unique r"
  shows "keeps_nums f (put_dreq a q g) = keeps_nums f (put_dreq a r g)"
  using assms by (simp add: keeps_nums_def num_at_def)

lemma kept_conn [simp]:
  "keeps_nums f (del_list a g) = keeps_nums f g" "keeps_nums f (del_intr a g) = keeps_nums f g"
  "keeps_nums f (g\<lparr>fc_io := xs\<rparr>) = keeps_nums f g" "keeps_nums f (g\<lparr>fc_pending := xs\<rparr>) = keeps_nums f g"
  "keeps_nums f (g\<lparr>fc_processing := xs\<rparr>) = keeps_nums f g" "keeps_nums f (g\<lparr>fc_interrupts := xs\<rparr>) = keeps_nums f g"
  "keeps_nums f (g\<lparr>fc_num_waiting := n\<rparr>) = keeps_nums f g" "keeps_nums f (g\<lparr>fc_num_background := n\<rparr>) = keeps_nums f g"
  "keeps_nums f (g\<lparr>fc_blocked := b\<rparr>) = keeps_nums f g" "keeps_nums f (g\<lparr>fc_connected := b\<rparr>) = keeps_nums f g"
  "keeps_nums f (g\<lparr>fc_no_interrupt := b\<rparr>) = keeps_nums f g"
  by (simp_all add: keeps_nums_def num_at_def)

lemma kept_upd:
  assumes "fc_reqs f a = Some r" "dq_unique q = dq_unique r" "dq_intr_unique q = dq_intr_unique r" "keeps_nums f g" "fc_reqs g a = fc_reqs f a"
  shows "keeps_nums f (put_dreq a q g)"
  using assms by (auto simp: keeps_nums_def num_at_def)

lemma kept_free: "keeps_nums f (f\<lparr>fc_reqs := (fc_reqs f)(a := None)\<rparr>)"
  by (simp add: keeps_nums_def num_at_def)

lemma kept_put_request: "fuse_put_request a f = Inr g \<Longrightarrow> keeps_nums f g"
  by (auto simp: fuse_put_request_def dreq_at_def keeps_nums_def num_at_def split: option.splits if_splits)

lemma kept_put_request2: "fuse_put_request2 a f = Inr g \<Longrightarrow> keeps_nums f g"
  by (auto simp: fuse_put_request2_def dreq_at_def keeps_nums_def num_at_def split: option.splits if_splits)

lemma end_background_fields [simp]: "fc_reqs (end_background r f) = fc_reqs f" "fc_reqctr (end_background r f) = fc_reqctr f"
  by (simp_all add: end_background_def)

lemma kept_end:
  assumes "request_end a f = Inr g"
  shows "keeps_nums f g"
proof -
  obtain r where r: "fc_reqs f a = Some r" "\<not> dq_deleted r"
    using assms by (auto simp: request_end_def dreq_at_def split: option.splits if_splits)
  then have "fuse_put_request a (end_background r
      (put_dreq a (r\<lparr>dq_end := False, dq_state := Req_Finished, dq_deleted := True\<rparr>) (del_intr a (del_list a f)))) = Inr g"
    using assms by (simp add: request_end_def)
  from kept_put_request [OF this] show ?thesis
    by (rule kept_trans [rotated]) (use r in \<open>simp add: keeps_nums_def num_at_def\<close>)
qed

lemma kept_end_put:
  assumes "request_end a (put_dreq a q g) = Inr h" "fc_reqs f a = Some r" "dq_unique q = dq_unique r" "dq_intr_unique q = dq_intr_unique r"
    "fc_reqs g = fc_reqs f" "fc_reqctr g = fc_reqctr f"
  shows "keeps_nums f h"
  by (rule kept_trans [OF _ kept_end [OF assms(1)]]) (use assms(2-) in \<open>auto simp: keeps_nums_def num_at_def\<close>)

lemma kept_queue: "queue_interrupt a f = Inr g \<Longrightarrow> keeps_nums f g"
  by (auto simp: queue_interrupt_def split: if_splits)

lemma kept_abort_sent: "abort_sent a f = Inr (p, g) \<Longrightarrow> keeps_nums f g"
proof -
  assume e: "abort_sent a f = Inr (p, g)"
  then obtain r where r: "fc_reqs f a = Some r"
    by (auto simp: abort_sent_def dreq_at_def split: option.splits)
  then consider "g = f" | "fuse_put_request2 a (put_dreq a (r\<lparr>dq_deleted := True\<rparr>) (del_list a f)) = Inr g"
    using e by (auto simp: abort_sent_def bind_res_eq_Inr split: if_splits)
  then show ?thesis
  proof cases
    case 2
    from kept_put_request2 [OF this] show ?thesis
      by (rule kept_trans [rotated]) (use r in \<open>simp add: keeps_nums_def num_at_def\<close>)
  qed simp
qed

lemma kept_wait_aborted: "wait_aborted a f = Inr (p, g) \<Longrightarrow> keeps_nums f g"
  by (auto simp: wait_aborted_def dreq_at_def split: option.splits if_splits dest: kept_abort_sent)

lemma kept_wait_any:
  assumes "wait_any a f = Inr (p, g)"
  shows "keeps_nums f g"
proof -
  obtain r where r: "fc_reqs f a = Some r"
    using assms by (cases "fc_reqs f a") (simp_all add: wait_any_def dreq_at_def)
  define h where "h = put_dreq a (r\<lparr>dq_interrupted := True\<rparr>) f"
  have h: "keeps_nums f h"
    using r by (simp add: h_def kept_upd)
  show ?thesis
  proof (cases "dq_aborted r \<or> dq_state r = Req_Finished")
    case True
    then show ?thesis
      using assms r kept_wait_aborted by (cases "dq_aborted r") (simp_all add: wait_any_def)
  next
    case False
    then show ?thesis
      using assms r h kept_trans [OF h kept_queue] by (cases "dq_state r = Req_Sent") (auto simp: wait_any_def bind_res_eq_Inr h_def)
  qed
qed

lemma kept_wait_fatal:
  assumes "wait_fatal a f = Inr (p, g)"
  shows "keeps_nums f g"
proof -
  obtain r where r: "fc_reqs f a = Some r"
    using assms by (auto simp: wait_fatal_def dreq_at_def split: option.splits)
  then consider "wait_aborted a f = Inr (p, g)" | "g = f" | "wait_aborted a (put_dreq a (r\<lparr>dq_error := - EINTR, dq_aborted := True\<rparr>) f) = Inr (p, g)"
    using assms by (auto simp: wait_fatal_def split: if_splits)
  then show ?thesis
  proof cases
    case 3
    from kept_wait_aborted [OF this] show ?thesis
      by (rule kept_trans [rotated]) (use r in \<open>simp add: kept_upd\<close>)
  qed (use kept_wait_aborted in auto)
qed

lemma kept_wait_last: "wait_last a f = Inr (p, g) \<Longrightarrow> keeps_nums f g"
  by (auto simp: wait_last_def dreq_at_def split: option.splits)

lemma kept_read_done:
  assumes "dev_read_done a err f = Inr (n, g)"
  shows "keeps_nums f g"
proof -
  obtain r where r: "fc_reqs f a = Some r"
    using assms by (auto simp: dev_read_done_def dreq_at_def split: option.splits)
  define q where "q = r\<lparr>dq_locked := False\<rparr>"
  consider "request_end a (put_dreq a (if dq_aborted r then q else q\<lparr>dq_error := - EIO\<rparr>) f) = Inr g"
    | "request_end a (put_dreq a q f) = Inr g"
    | "g = (put_dreq a (q\<lparr>dq_state := Req_Sent\<rparr>) (del_list a f))\<lparr>fc_processing := removeAll a (fc_processing f) @ [a]\<rparr>"
    | "queue_interrupt a ((put_dreq a (q\<lparr>dq_state := Req_Sent\<rparr>) (del_list a f))\<lparr>fc_processing := removeAll a (fc_processing f) @ [a]\<rparr>) = Inr g"
    using assms r by (auto simp: dev_read_done_def Let_def bind_res_eq_Inr q_def split: if_splits)
  then show ?thesis
  proof cases
    case 1
    show ?thesis
      by (rule kept_end_put [OF 1 r]) (simp_all add: q_def)
  next
    case 2
    show ?thesis
      by (rule kept_end_put [OF 2 r]) (simp_all add: q_def)
  next
    case 3
    then show ?thesis
      using r by (simp add: kept_upd q_def)
  next
    case 4
    show ?thesis
      by (rule kept_trans [OF _ kept_queue [OF 4]]) (use r in \<open>simp add: kept_upd q_def\<close>)
  qed
qed

lemma kept_write_done:
  assumes "dev_write_done a err nbytes f = Inr (n, g)"
  shows "keeps_nums f g"
proof -
  obtain r where r: "fc_reqs f a = Some r"
    using assms by (auto simp: dev_write_done_def dreq_at_def split: option.splits)
  then have e: "request_end a (put_dreq a (if err \<noteq> 0 \<and> \<not> dq_aborted r then r\<lparr>dq_locked := False, dq_error := - EIO\<rparr> else r\<lparr>dq_locked := False\<rparr>) f) = Inr g"
    using assms by (auto simp: dev_write_done_def Let_def bind_res_eq_Inr)
  show ?thesis
    by (rule kept_end_put [OF e r]) simp_all
qed

lemma kept_end_one:
  assumes "end_one a f = Inr g"
  shows "keeps_nums f g"
proof -
  obtain r where r: "fc_reqs f a = Some r" "request_end a (put_dreq a (r\<lparr>dq_error := - ECONNABORTED\<rparr>) f) = Inr g"
    using assms by (auto simp: end_one_def dreq_at_def split: option.splits)
  show ?thesis
    by (rule kept_end_put [OF r(2,1)]) simp_all
qed

lemma kept_end_lists: "end_pending f = Inr g \<Longrightarrow> keeps_nums f g" "end_processing f = Inr g \<Longrightarrow> keeps_nums f g"
  by (auto simp: end_pending_def end_processing_def split: list.splits dest: kept_end_one)

lemma kept_end_io: "end_io_one f = Inr (x, g) \<Longrightarrow> keeps_nums f g"
  by (auto simp: end_io_one_def dreq_at_def Let_def kept_upd split: list.splits option.splits if_splits)

lemma new_queue:
  assumes "fc_reqs f a = Some r" "dq_intr_unique q = dq_intr_unique r" "fc_reqs g = fc_reqs f" "fc_reqctr g = fc_reqctr f"
  shows "new_num f (queue_request a q g)"
  using assms unfolding new_num_def
  by (intro conjI exI [where x = "(a, False)"] allI) (auto simp: num_at_def queue_request_def Let_def)

lemma new_interrupt: "fuse_read_interrupt a f = Inr (msg, g) \<Longrightarrow> new_num f g"
  unfolding new_num_def
  by (intro conjI exI [where x = "(a, True)"] allI)
    (auto simp: fuse_read_interrupt_def dreq_at_def num_at_def Let_def split: option.splits if_splits)

lemma nums_send:
  assumes "request_send a f = Inr (p, g)"
  shows "keeps_nums f g \<or> new_num f g"
proof -
  obtain r where r: "fc_reqs f a = Some r"
    using assms by (cases "fc_reqs f a") (simp_all add: request_send_def dreq_at_def)
  show ?thesis
  proof (cases "fc_connected f \<and> \<not> fc_conn_error f")
    case True
    then have "g = queue_request a (r\<lparr>dq_isreply := True, dq_count := dq_count r + 1\<rparr>) f"
      using assms r by (simp add: request_send_def Let_def)
    then show ?thesis
      using new_queue [OF r] by simp
  next
    case False
    then obtain e where "g = put_dreq a (r\<lparr>dq_isreply := True, dq_error := e\<rparr>) f"
      using assms r by (auto simp: request_send_def Let_def split: if_splits)
    then show ?thesis
      using r by (simp add: kept_upd)
  qed
qed

lemma nums_send_nowait:
  assumes "request_send_nowait reply a f = Inr g"
  shows "keeps_nums f g \<or> new_num f g"
proof -
  obtain r where r: "fc_reqs f a = Some r"
    using assms by (cases "fc_reqs f a") (simp_all add: request_send_nowait_def dreq_at_def)
  show ?thesis
  proof (cases "fc_connected f")
    case True
    then show ?thesis
      using assms r new_queue [OF r] by (auto simp: request_send_nowait_def Let_def)
  next
    case False
    then have "request_end a (put_dreq a (r\<lparr>dq_isreply := reply, dq_error := - ENOTCONN\<rparr>) f) = Inr g"
      using assms r by (simp add: request_send_nowait_def Let_def)
    from kept_end_put [OF this r] show ?thesis
      by simp
  qed
qed

lemma nums_read:
  assumes "dev_read_take nonblock bufsize f = Inr (x, g)"
  shows "keeps_nums f g \<or> new_num f g"
proof (cases "fc_connected f")
  case c: True
  show ?thesis
  proof (cases "fc_interrupts f")
    case (Cons a xs)
    then obtain msg where "fuse_read_interrupt a f = Inr (msg, g)"
      using assms c by (auto simp: dev_read_take_def bind_res_eq_Inr split: if_splits)
    then show ?thesis
      using new_interrupt by blast
  next
    case Nil
    show ?thesis
    proof (cases "fc_pending f")
      case (Cons a xs)
      obtain r where r: "fc_reqs f a = Some r"
        using assms c Nil Cons by (cases "fc_reqs f a") (simp_all add: dev_read_take_def dreq_at_def)
      define h where "h = (del_list a f)\<lparr>fc_io := a # removeAll a (fc_io f)\<rparr>"
      have "g = put_dreq a (r\<lparr>dq_state := Req_Reading\<rparr>) h \<or>
          (\<exists>e. request_end a (put_dreq a (r\<lparr>dq_state := Req_Reading, dq_error := e\<rparr>) h) = Inr g)"
        using assms c Nil Cons r by (auto simp: dev_read_take_def bind_res_eq_Inr Let_def h_def split: if_splits)
      then show ?thesis
        using r by (auto simp: kept_upd h_def intro: kept_end_put)
    qed (use assms c Nil in \<open>simp add: dev_read_take_def\<close>)
  qed
qed (use assms in \<open>simp add: dev_read_take_def\<close>)

lemma nums_write:
  assumes "dev_write_take u err nbytes f = Inr (x, g)"
  shows "keeps_nums f g"
proof (cases "\<not> fc_connected f \<or> request_find f u = None")
  case False
  then obtain a r where a: "request_find f u = Some a" "fc_reqs f a = Some r" "fc_connected f"
    using request_find_sent(2) by fastforce
  show ?thesis
  proof (cases "dq_aborted r \<or> dq_intr_unique r = u")
    case True
    then have "keeps_nums f g"
      using assms a kept_queue [of a f g]
      by (cases "dq_aborted r") (auto simp: dev_write_take_def bind_res_eq_Inr split: if_splits)
    then show ?thesis .
  next
    case F: False
    then have "g = put_dreq a (r\<lparr>dq_state := Req_Writing, dq_error := err, dq_locked := True\<rparr>) ((del_list a f)\<lparr>fc_io := a # removeAll a (fc_io f)\<rparr>)"
      using assms a by (auto simp: dev_write_take_def Let_def split: if_splits)
    then show ?thesis
      using a(2) by (simp add: kept_upd)
  qed
qed (use assms in \<open>auto simp: dev_write_take_def split: if_splits\<close>)

lemma kept_alloc:
  assumes "fc_reqs f (fc_fresh f) = None" "dq_unique r = 0" "dq_intr_unique r = 0"
  shows "keeps_nums f (fuse_request_alloc r f)"
  using assms by (auto simp: fuse_request_alloc_def keeps_nums_def num_at_def)

lemma kept_get: "fc_reqs f (fc_fresh f) = None \<Longrightarrow> fuse_get_req intr mem k force has_end f = (x, g) \<Longrightarrow> keeps_nums f g"
  by (auto simp: fuse_get_req_def Let_def fuse_request_init_def intro!: kept_alloc split: if_splits)

lemma step_nums:
  assumes "sys_ok s" "dev_next e s = Some (Inr t)"
  shows "keeps_nums (sy_conn s) (sy_conn t) \<or> new_num (sy_conn s) (sy_conn t)"
proof -
  have n: "fc_reqs (sy_conn s) (fc_fresh (sy_conn s)) = None"
    using sys_okD(5) [OF assms(1)] by (simp add: fresh_ok_def)
  show ?thesis
  proof (cases e)
    case Ev_Get
    then show ?thesis
      using assms(2) kept_get [OF n] by (auto simp: Let_def split: if_splits prod.splits sum.splits)
  next
    case (Ev_Wait a)
    then show ?thesis
      using assms(2) kept_wait_any kept_wait_fatal kept_wait_aborted kept_wait_last
      by (cases "sy_send s a"; cases "the (sy_send s a)") (auto simp: sender_next_def bind_res_eq_Inr)
  next
    case Ev_Abort_Step
    then show ?thesis
      using assms(2) kept_put_request kept_end_lists kept_end_io
      by (cases "sy_abort s") (auto simp: conn_next_def bind_res_eq_Inr split: if_splits)
  next
    case Ev_Release_Step
    then show ?thesis
      using assms(2) kept_end_lists
      by (cases "sy_release s") (auto simp: conn_next_def bind_res_eq_Inr split: if_splits)
  next
    case (Ev_Write u err nbytes)
    then obtain x f where f: "dev_write_take u err nbytes (sy_conn s) = Inr (x, f)"
      "t = (case x of Write_Result _ \<Rightarrow> set_conn s f | Write_Ending a \<Rightarrow> (set_conn s f)\<lparr>sy_ending := a # sy_ending s\<rparr>
            | Write_Copying a \<Rightarrow> set_copier (set_conn s f) a (Some Copies_In))"
      using assms(2) by (auto simp: bind_res_eq_Inr split: if_splits)
    then have "sy_conn t = f"
      by (cases x) simp_all
    then show ?thesis
      using nums_write [OF f(1)] by simp
  next
    case (Ev_Read nonblock bufsize)
    then obtain x f where f: "dev_read_take nonblock bufsize (sy_conn s) = Inr (x, f)"
      "t = (case x of Read_Copying a \<Rightarrow> set_copier (set_conn s f) a (Some Copies_Out) | _ \<Rightarrow> set_conn s f)"
      using assms(2) by (auto simp: bind_res_eq_Inr)
    then have "sy_conn t = f"
      by (cases x) simp_all
    then show ?thesis
      using nums_read [OF f(1)] by simp
  next
    case (Ev_Send a)
    then show ?thesis
      using assms(2) by (auto simp: sender_next_def bind_res_eq_Inr split: if_splits dest: nums_send)
  next
    case (Ev_Send_Nowait reply a)
    then show ?thesis
      using assms(2) by (auto simp: conn_next_def bind_res_eq_Inr split: if_splits dest: nums_send_nowait)
  next
    case Ev_Lock
    then show ?thesis
      using assms(2) by (auto simp: lock_request_def dreq_at_def kept_upd split: if_splits option.splits)
  next
    case Ev_Unlock
    then show ?thesis
      using assms(2) by (auto simp: unlock_request_def conn_next_def dreq_at_def kept_upd split: if_splits option.splits)
  qed (use assms(2) n kept_put_request kept_read_done kept_write_done kept_end in
      \<open>auto simp: sender_next_def conn_next_def bind_res_eq_Inr fuse_get_req_enter_def fuse_abort_start_def fuse_dev_release_start_def
        fuse_put_super_def fuse_request_init_def split: if_splits intro!: kept_alloc\<close>)
qed

lemma reached_nums:
  assumes "dev_reached ctr n s" "unat ctr + n < 2 ^ 64"
  shows "nums_ok (sy_conn s) \<and> unat (fc_reqctr (sy_conn s)) \<le> unat ctr + n"
  using assms
proof (induction rule: dev_reached.induct)
  case (start ctr conn_error)
  then show ?case
    by (simp add: nums_ok_def num_at_def dev_start_def)
next
  case (step ctr n s e t)
  then have i: "nums_ok (sy_conn s)" "unat (fc_reqctr (sy_conn s)) \<le> unat ctr + n"
    by simp_all
  from step_nums [OF dev_reached_ok [OF step(1)] step(2)] show ?case
  proof
    assume "keeps_nums (sy_conn s) (sy_conn t)"
    then show ?thesis
      using i nums_kept by (simp add: keeps_nums_def)
  next
    assume n: "new_num (sy_conn s) (sy_conn t)"
    have l: "unat (fc_reqctr (sy_conn s)) < 2 ^ 64 - 1"
      using i(2) step.prems by simp
    then show ?thesis
      using nums_new [OF i(1) n l] n next_number [OF l] i(2) by (simp add: new_num_def)
  qed
qed

section \<open>Answers\<close>

lemma find_member: "a \<in> set xs \<Longrightarrow> find (\<lambda>b. b = a) xs = Some a"
  by (induction xs) auto

lemma number_slot:
  assumes "fc_reqs f a = Some r" "dq_unique r = u \<or> dq_intr_unique r = u"
  obtains k where "num_at f (a, k) = u"
proof (cases "dq_unique r = u")
  case True
  then show ?thesis
    using that [of False] assms(1) by (simp add: num_at_def)
next
  case False
  then show ?thesis
    using that [of True] assms by (simp add: num_at_def)
qed

lemma find_by_number:
  assumes n: "nums_ok f" "u \<noteq> 0" and a: "a \<in> set (fc_processing f)" "fc_reqs f a = Some r" "dq_unique r = u \<or> dq_intr_unique r = u"
  shows "request_find f u = Some a"
proof -
  have one: "b = a" if b: "fc_reqs f b = Some q" "dq_unique q = u \<or> dq_intr_unique q = u" for b q
  proof -
    obtain k l where k: "num_at f (a, k) = u" and l: "num_at f (b, l) = u"
      using number_slot [OF a(2,3)] number_slot [OF b] by metis
    have "num_at f (a, k) = num_at f (b, l) \<longrightarrow> num_at f (a, k) = 0 \<or> (a, k) = (b, l)"
      using n(1) unfolding nums_ok_def by blast
    then show ?thesis
      using k l n(2) by simp
  qed
  have "request_find f u = find (\<lambda>b. b = a) (fc_processing f)"
    unfolding request_find_def
  proof (rule find_cong [OF refl])
    fix b
    show "(case fc_reqs f b of None \<Rightarrow> False | Some q \<Rightarrow> dq_unique q = u \<or> dq_intr_unique q = u) \<longleftrightarrow> b = a"
      using one [of b] a(2,3) by (cases "fc_reqs f b") auto
  qed
  then show ?thesis
    using find_member [OF a(1)] by simp
qed

lemma req_sent_fields:
  assumes "req_ok (Some r) p c pend True io intr held ending"
  shows "dq_unique r \<noteq> 0" "dq_state r = Req_Sent" "dq_count r = refs p 1" "\<not> dq_deleted r" "c = None"
  using assms by (cases "dq_state r"; simp add: req_ok_def)+

text \<open>C13: Unless the kernel has given out all 64-bit numbers, the answer to a request that is waited for, on a
  connection that is up and not aborted, belongs to that request and to no other: its number, and that of its
  interrupt, is found there. When the answer is written and copied without a fault and the sender runs next, the
  sender returns with the error of the answer, whether a signal came meanwhile or not.\<close>

theorem answer_reaches_sender:
  assumes "dev_reached ctr n s" "unat ctr + n < 2 ^ 64" "fc_connected (sy_conn s)"
    and a: "a \<in> set (fc_processing (sy_conn s))" "fc_reqs (sy_conn s) a = Some r" "\<not> dq_aborted r"
    and p: "sy_send s a = Some p" "p = Waits_Any \<or> p = Waits_Fatal"
  shows "request_find (sy_conn s) (dq_unique r) = Some a \<and>
    (dq_intr_unique r \<noteq> 0 \<longrightarrow> request_find (sy_conn s) (dq_intr_unique r) = Some a) \<and>
    (\<exists>t q. dev_run [Ev_Write (dq_unique r) err nbytes, Ev_Write_Done a 0 nbytes, Ev_Wait a] s = Some (Inr t) \<and>
       sy_send t a = Some Returned \<and> fc_reqs (sy_conn t) a = Some q \<and> dq_state q = Req_Finished \<and> dq_error q = err)"
proof -
  have nums: "nums_ok (sy_conn s)"
    using reached_nums [OF assms(1,2)] by blast
  have "req_at s a (Some r)"
    using sys_okD(1) [OF dev_reached_ok [OF assms(1)], of a] a(2) by (simp add: view_at)
  note v = req_sent_fields [OF this [unfolded eqTrueI [OF a(1)]]]
  have find: "request_find (sy_conn s) (dq_unique r) = Some a"
    by (rule find_by_number [OF nums v(1) a(1,2)]) simp
  have "num_at (sy_conn s) (a, False) = num_at (sy_conn s) (a, True) \<longrightarrow> num_at (sy_conn s) (a, False) = 0 \<or> (a, False) = (a, True)"
    using nums unfolding nums_ok_def by blast
  then have d: "dq_intr_unique r \<noteq> dq_unique r"
    using v(1) a(2) by (auto simp: num_at_def)
  have "dq_intr_unique r \<noteq> 0 \<longrightarrow> request_find (sy_conn s) (dq_intr_unique r) = Some a"
    using find_by_number [OF nums _ a(1,2)] by simp
  moreover have "\<exists>t q. dev_run [Ev_Write (dq_unique r) err nbytes, Ev_Write_Done a 0 nbytes, Ev_Wait a] s = Some (Inr t) \<and>
       sy_send t a = Some Returned \<and> fc_reqs (sy_conn t) a = Some q \<and> dq_state q = Req_Finished \<and> dq_error q = err"
    using p v find d a(2,3) assms(3)
    by (auto simp: dev_write_take_def dev_write_done_def request_end_ended ended_def Let_def sender_next_def wait_any_def wait_fatal_def)
  ultimately show ?thesis
    using find by blast
qed

section \<open>Aborting\<close>

lemma req_finished:
  assumes "req_ok (Some r) (Some p) c False False False intr held ending" "waits p"
  shows "dq_state r = Req_Finished"
  using assms by (cases "dq_state r") (simp_all add: req_ok_def waits_def split: if_splits)

lemma req_locked_copied: "req_ok (Some r) p c False False False intr held ending \<Longrightarrow> dq_locked r \<Longrightarrow> c \<noteq> None"
  by (cases "dq_state r") (auto simp: req_ok_def split: if_splits)

lemma req_listed_interrupt: "req_ok ro p c False False False True held ending \<Longrightarrow> c = Some Copies_In"
  by (auto simp: req_ok_def split: if_splits option.splits fuse_req_state.splits)

text \<open>C17: When a thread has aborted the connection, or has closed the device, the lists of requests that wait
  to be read, are being copied or wait for an answer are empty, and the interrupts that are still listed belong
  to requests into which a thread is copying an answer. Every sender that still waits has its request in memory
  and gets on: its next step leads back to the function that sent the request, unless the request is locked, and
  then a thread is copying it.\<close>

theorem abort_frees_senders:
  assumes "dev_reached ctr n s" "sy_abort s = Abort_Done \<or> sy_release s = Abort_Done"
  shows "fc_pending (sy_conn s) = [] \<and> fc_processing (sy_conn s) = [] \<and> fc_io (sy_conn s) = [] \<and>
    (\<forall>a\<in>set (fc_interrupts (sy_conn s)). sy_copy s a = Some Copies_In) \<and>
    (\<forall>a p. sy_send s a = Some p \<and> p \<noteq> Owns \<and> p \<noteq> Returned \<longrightarrow> (\<exists>r. fc_reqs (sy_conn s) a = Some r \<and>
       (if dq_locked r then sy_copy s a \<noteq> None
        else \<exists>t. dev_next (Ev_Wait a) s = Some (Inr t) \<and> sy_send t a = Some Returned)))"
proof -
  have s: "sys_ok s"
    by (rule dev_reached_ok [OF assms(1)])
  have l: "fc_pending (sy_conn s) = [] \<and> fc_processing (sy_conn s) = [] \<and> fc_io (sy_conn s) = []"
    using assms(2) sys_okD(6,7) [OF s] by (auto simp: aborter_ok_def)
  have v: "req_ok (fc_reqs (sy_conn s) a) (sy_send s a) (sy_copy s a) False False False (a \<in> set (fc_interrupts (sy_conn s)))
      (sy_abort s = Abort_Ending a) (a \<in> set (sy_ending s))" for a
    using sys_okD(1) [OF s, of a] l by (simp add: view_ok_def Let_def)
  have "\<exists>r. fc_reqs (sy_conn s) a = Some r \<and> (if dq_locked r then sy_copy s a \<noteq> None
      else \<exists>t. dev_next (Ev_Wait a) s = Some (Inr t) \<and> sy_send t a = Some Returned)"
    if p: "sy_send s a = Some p" "p \<noteq> Owns" "p \<noteq> Returned" for a p
  proof -
    note w = v [of a, unfolded p(1)]
    obtain r where r: "fc_reqs (sy_conn s) a = Some r"
      using w by (cases "fc_reqs (sy_conn s) a") (simp_all add: req_ok_def)
    have st: "dq_state r = Req_Finished"
      by (rule req_finished [OF w [unfolded r]]) (use p in \<open>simp add: waits_def\<close>)
    show ?thesis
    proof (cases "dq_locked r")
      case True
      then show ?thesis
        using req_locked_copied [OF w [unfolded r]] r by simp
    next
      case False
      then have "\<exists>t. dev_next (Ev_Wait a) s = Some (Inr t) \<and> sy_send t a = Some Returned"
        using p r st by (cases p)
          (auto simp: sender_next_def wait_any_def wait_fatal_def wait_last_def wait_aborted_def abort_sent_def)
      with False r show ?thesis
        by simp
    qed
  qed
  moreover have "sy_copy s a = Some Copies_In" if "a \<in> set (fc_interrupts (sy_conn s))" for a
    by (rule req_listed_interrupt [OF v [of a, unfolded eqTrueI [OF that]]])
  ultimately show ?thesis
    using l
    by blast
qed

section \<open>The end of an abort\<close>

text \<open>What is left to do for the thread that aborts the connection.\<close>

fun phase_rank :: "aborter \<Rightarrow> nat" where
  "phase_rank Abort_Io = 3"
| "phase_rank (Abort_Ending _) = 4"
| "phase_rank Abort_Pending = 2"
| "phase_rank Abort_Processing = 1"
| "phase_rank _ = 0"

definition abort_work :: "dev_sys \<Rightarrow> nat" where
  "abort_work s = 3 * length (fc_io (sy_conn s)) + length (fc_pending (sy_conn s)) + length (fc_processing (sy_conn s)) +
     phase_rank (sy_abort s)"

definition lists_shrink :: "kconn \<Rightarrow> kconn \<Rightarrow> bool" where
  "lists_shrink f g \<longleftrightarrow> fc_connected g = fc_connected f \<and> length (fc_io g) \<le> length (fc_io f) \<and>
     length (fc_pending g) \<le> length (fc_pending f) \<and> length (fc_processing g) \<le> length (fc_processing f)"

lemma lists_shrink_simps [simp]:
  "lists_shrink f (put_dreq a q g) = lists_shrink f g" "lists_shrink f f" "lists_shrink f (g\<lparr>fc_interrupts := xs\<rparr>) = lists_shrink f g"
  "lists_shrink f (g\<lparr>fc_no_interrupt := b\<rparr>) = lists_shrink f g" "lists_shrink f (g\<lparr>fc_num_waiting := n\<rparr>) = lists_shrink f g"
  "lists_shrink f (fuse_request_alloc r g) = lists_shrink f g" "lists_shrink f (g\<lparr>fc_reqs := m\<rparr>) = lists_shrink f g"
  by (simp_all add: lists_shrink_def fuse_request_alloc_def)

lemma lists_shrink_del: "lists_shrink f g \<Longrightarrow> lists_shrink f (del_list a g)"
  by (auto simp: lists_shrink_def intro: order_trans [OF length_removeAll_less_eq])

lemma ended_lists:
  assumes "request_end a f = Inr g"
  shows "fc_io g = removeAll a (fc_io f)" "fc_pending g = removeAll a (fc_pending f)" "fc_processing g = removeAll a (fc_processing f)"
    "fc_connected g = fc_connected f"
proof -
  obtain r where "fc_reqs f a = Some r" "\<not> dq_deleted r"
    using assms by (auto simp: request_end_def dreq_at_def split: option.splits if_splits)
  then have "g = ended a r f"
    using request_end_ended assms by simp
  then show "fc_io g = removeAll a (fc_io f)" "fc_pending g = removeAll a (fc_pending f)" "fc_processing g = removeAll a (fc_processing f)"
    "fc_connected g = fc_connected f"
    by (simp_all add: ended_def)
qed

lemma lists_shrink_end: "request_end a f = Inr g \<Longrightarrow> lists_shrink f g"
  by (simp add: lists_shrink_def ended_lists)

lemma lists_shrink_put: "fuse_put_request a f = Inr g \<Longrightarrow> lists_shrink f g" "fuse_put_request2 a f = Inr g \<Longrightarrow> lists_shrink f g"
  by (auto simp: fuse_put_request_def fuse_put_request2_def dreq_at_def split: option.splits if_splits)

lemma lists_shrink_trans: "lists_shrink f g \<Longrightarrow> lists_shrink g h \<Longrightarrow> lists_shrink f h"
  by (simp add: lists_shrink_def)

lemma lists_shrink_end_put: "request_end a (put_dreq a q f) = Inr g \<Longrightarrow> lists_shrink f g"
  using lists_shrink_trans [OF _ lists_shrink_end, of f "put_dreq a q f"] by simp

lemma lists_shrink_queue: "queue_interrupt a f = Inr g \<Longrightarrow> lists_shrink f g"
  by (auto simp: queue_interrupt_def split: if_splits)

lemma lists_shrink_abort_sent: "abort_sent a f = Inr (p, g) \<Longrightarrow> lists_shrink f g"
  by (auto simp: abort_sent_def fuse_put_request2_def dreq_at_def lists_shrink_del bind_res_eq_Inr split: option.splits if_splits)

lemma lists_shrink_wait_aborted: "wait_aborted a f = Inr (p, g) \<Longrightarrow> lists_shrink f g"
  by (auto simp: wait_aborted_def dreq_at_def split: option.splits if_splits dest: lists_shrink_abort_sent)

lemma lists_shrink_wait_any:
  assumes "wait_any a f = Inr (p, g)"
  shows "lists_shrink f g"
proof -
  obtain r where r: "fc_reqs f a = Some r"
    using assms by (cases "fc_reqs f a") (simp_all add: wait_any_def dreq_at_def)
  define h where "h = put_dreq a (r\<lparr>dq_interrupted := True\<rparr>) f"
  have h: "lists_shrink f h"
    by (simp add: h_def)
  show ?thesis
  proof (cases "dq_aborted r \<or> dq_state r = Req_Finished")
    case True
    then show ?thesis
      using assms r lists_shrink_wait_aborted by (cases "dq_aborted r") (simp_all add: wait_any_def)
  next
    case False
    then show ?thesis
      using assms r h lists_shrink_trans [OF h lists_shrink_queue] by (cases "dq_state r = Req_Sent") (auto simp: wait_any_def bind_res_eq_Inr h_def)
  qed
qed

lemma lists_shrink_wait_fatal:
  assumes "wait_fatal a f = Inr (p, g)"
  shows "lists_shrink f g"
proof -
  obtain r where r: "fc_reqs f a = Some r"
    using assms by (cases "fc_reqs f a") (simp_all add: wait_fatal_def dreq_at_def)
  then consider "wait_aborted a f = Inr (p, g)" | "g = f" | "wait_aborted a (put_dreq a (r\<lparr>dq_error := - EINTR, dq_aborted := True\<rparr>) f) = Inr (p, g)"
    using assms by (auto simp: wait_fatal_def split: if_splits)
  then show ?thesis
  proof cases
    case 3
    from lists_shrink_wait_aborted [OF this] show ?thesis
      by (simp add: lists_shrink_def)
  qed (use lists_shrink_wait_aborted in auto)
qed

lemma lists_shrink_wait_last: "wait_last a f = Inr (p, g) \<Longrightarrow> lists_shrink f g"
  by (auto simp: wait_last_def dreq_at_def split: option.splits)

text \<open>A thread that has read a request may still make it an outstanding one.\<close>

lemma read_done_work:
  assumes "sys_ok s" "sy_copy s a = Some Copies_Out" "dev_read_done a err (sy_conn s) = Inr (n, g)"
  shows "fc_connected g = fc_connected (sy_conn s)"
    "3 * length (fc_io g) + length (fc_pending g) + length (fc_processing g) \<le>
     3 * length (fc_io (sy_conn s)) + length (fc_pending (sy_conn s)) + length (fc_processing (sy_conn s))"
proof -
  obtain r where r: "fc_reqs (sy_conn s) a = Some r" and v: "req_at s a (Some r)"
    using copier_live [OF assms(1), of a] assms(2) by auto
  have "fc_connected g = fc_connected (sy_conn s) \<and> 3 * length (fc_io g) + length (fc_pending g) + length (fc_processing g) \<le>
     3 * length (fc_io (sy_conn s)) + length (fc_pending (sy_conn s)) + length (fc_processing (sy_conn s))"
  proof (cases "err = 0 \<and> \<not> dq_aborted r \<and> dq_isreply r")
    case True
    note w = req_sent [OF v [unfolded assms(2)]]
    have io: "a \<in> set (fc_io (sy_conn s))" and d: "\<not> dq_deleted r"
      using w(3,4) True by simp_all
    have "fc_connected g = fc_connected (sy_conn s)" "fc_io g = removeAll a (fc_io (sy_conn s))"
      "fc_pending g = removeAll a (fc_pending (sy_conn s))" "fc_processing g = removeAll a (fc_processing (sy_conn s)) @ [a]"
      using assms(3) r True d by (auto simp: dev_read_done_def Let_def queue_interrupt_def bind_res_eq_Inr split: if_splits)
    then show ?thesis
      using length_removeAll_less [OF io] length_removeAll_less_eq [of a "fc_pending (sy_conn s)"]
        length_removeAll_less_eq [of a "fc_processing (sy_conn s)"] by (simp del: length_removeAll_less_eq)
  next
    case False
    then obtain q where "request_end a (put_dreq a q (sy_conn s)) = Inr g"
      using assms(3) r by (auto simp: dev_read_done_def Let_def bind_res_eq_Inr ENOENT_def split: if_splits)
    from lists_shrink_end_put [OF this] show ?thesis
      by (simp add: lists_shrink_def)
  qed
  then show "fc_connected g = fc_connected (sy_conn s)"
    "3 * length (fc_io g) + length (fc_pending g) + length (fc_processing g) \<le>
     3 * length (fc_io (sy_conn s)) + length (fc_pending (sy_conn s)) + length (fc_processing (sy_conn s))"
    by simp_all
qed

lemma end_one_lists:
  assumes "end_one a f = Inr g"
  shows "fc_io g = removeAll a (fc_io f)" "fc_pending g = removeAll a (fc_pending f)" "fc_processing g = removeAll a (fc_processing f)"
    "fc_connected g = fc_connected f"
proof -
  obtain q where "request_end a (put_dreq a q f) = Inr g"
    using assms by (auto simp: end_one_def dreq_at_def split: option.splits)
  from ended_lists [OF this]
  show "fc_io g = removeAll a (fc_io f)" "fc_pending g = removeAll a (fc_pending f)" "fc_processing g = removeAll a (fc_processing f)"
    "fc_connected g = fc_connected f"
    by simp_all
qed

lemma end_one_shrink:
  assumes "end_one a f = Inr g"
  shows "lists_shrink f g" "a \<in> set (fc_pending f) \<Longrightarrow> length (fc_pending g) < length (fc_pending f)"
    "a \<in> set (fc_processing f) \<Longrightarrow> length (fc_processing g) < length (fc_processing f)"
  by (simp_all add: lists_shrink_def end_one_lists [OF assms] length_removeAll_less)

lemma end_io_shrink:
  assumes "end_io_one f = Inr (x, g)" "fc_io f \<noteq> []"
  shows "lists_shrink f g" "length (fc_io g) < length (fc_io f)"
proof -
  obtain a xs where a: "fc_io f = a # xs"
    using assms(2) by (cases "fc_io f") auto
  have "fc_io g = removeAll a (fc_io f) \<and> fc_pending g = removeAll a (fc_pending f) \<and> fc_processing g = removeAll a (fc_processing f) \<and>
      fc_connected g = fc_connected f"
    using assms(1) a by (auto simp: end_io_one_def dreq_at_def Let_def split: option.splits if_splits)
  then show "lists_shrink f g" "length (fc_io g) < length (fc_io f)"
    using a length_removeAll_less [of a "fc_io f"] by (simp_all add: lists_shrink_def)
qed

lemma work_shrink: "lists_shrink (sy_conn s) (sy_conn t) \<Longrightarrow> sy_abort t = sy_abort s \<Longrightarrow> abort_work t \<le> abort_work s"
  by (simp add: lists_shrink_def abort_work_def)

lemma abort_step_work:
  assumes "dev_next Ev_Abort_Step s = Some (Inr t)"
  shows "abort_work t < abort_work s" "fc_connected (sy_conn t) = fc_connected (sy_conn s)"
proof -
  have "abort_work t < abort_work s \<and> fc_connected (sy_conn t) = fc_connected (sy_conn s)"
  proof (cases "sy_abort s")
    case Abort_Io
    show ?thesis
    proof (cases "fc_io (sy_conn s) = []")
      case True
      then show ?thesis
        using assms Abort_Io by (auto simp: abort_work_def)
    next
      case False
      then obtain x g where g: "end_io_one (sy_conn s) = Inr (x, g)" "t = (set_conn s g)\<lparr>sy_abort := (case x of None \<Rightarrow> Abort_Io | Some a \<Rightarrow> Abort_Ending a)\<rparr>"
        using assms Abort_Io by (auto simp: bind_res_eq_Inr)
      show ?thesis
        using end_io_shrink [OF g(1) False] Abort_Io g(2) by (simp add: lists_shrink_def abort_work_def split: option.splits)
    qed
  next
    case (Abort_Ending a)
    then obtain g where "fuse_put_request a (sy_conn s) = Inr g" "t = (set_conn s g)\<lparr>sy_abort := Abort_Io\<rparr>"
      using assms by (auto simp: bind_res_eq_Inr split: if_splits)
    then show ?thesis
      using lists_shrink_put(1) [of a "sy_conn s" g] Abort_Ending by (simp add: lists_shrink_def abort_work_def)
  next
    case Abort_Pending
    then show ?thesis
      using assms end_one_shrink [of "hd (fc_pending (sy_conn s))" "sy_conn s"]
      by (cases "fc_pending (sy_conn s)")
        (auto simp: conn_next_def bind_res_eq_Inr end_pending_def abort_work_def lists_shrink_def)
  next
    case Abort_Processing
    then show ?thesis
      using assms end_one_shrink [of "hd (fc_processing (sy_conn s))" "sy_conn s"]
      by (cases "fc_processing (sy_conn s)")
        (auto simp: conn_next_def bind_res_eq_Inr end_processing_def abort_work_def lists_shrink_def)
  qed (use assms in simp_all)
  then show "abort_work t < abort_work s" "fc_connected (sy_conn t) = fc_connected (sy_conn s)"
    by simp_all
qed

lemma step_work:
  assumes s: "sys_ok s" "\<not> fc_connected (sy_conn s)" and e: "dev_next e s = Some (Inr t)" "e \<noteq> Ev_Abort_Step"
  shows "abort_work t \<le> abort_work s \<and> \<not> fc_connected (sy_conn t)"
proof -
  have k: "lists_shrink (sy_conn s) (sy_conn t) \<Longrightarrow> sy_abort t = sy_abort s \<Longrightarrow> ?thesis"
    using work_shrink [of s t] s(2) by (simp add: lists_shrink_def)
  show ?thesis
  proof (cases e)
    case (Ev_Get intr mem k force has_end)
    then show ?thesis
      using e(1) by (intro k) (auto simp: fuse_get_req_def Let_def split: if_splits)
  next
    case (Ev_Send a)
    then obtain x g where g: "request_send a (sy_conn s) = Inr (x, g)" "t = set_sender (set_conn s g) a (Some x)"
      using e(1) by (auto simp: sender_next_def bind_res_eq_Inr split: if_splits)
    then have "lists_shrink (sy_conn s) g"
      using s(2) by (cases "fc_reqs (sy_conn s) a") (auto simp: request_send_def dreq_at_def Let_def)
    then show ?thesis
      using g(2) by (intro k) simp_all
  next
    case (Ev_Send_Nowait reply a)
    then obtain g where g: "request_send_nowait reply a (sy_conn s) = Inr g" "t = set_conn (set_sender s a None) g"
      using e(1) by (auto simp: conn_next_def bind_res_eq_Inr split: if_splits)
    then have "lists_shrink (sy_conn s) g"
      using s(2) by (cases "fc_reqs (sy_conn s) a") (auto simp: request_send_nowait_def dreq_at_def Let_def intro: lists_shrink_end_put)
    then show ?thesis
      using g(2) by (intro k) simp_all
  next
    case (Ev_Wait a)
    then show ?thesis
      using e(1) lists_shrink_wait_any lists_shrink_wait_fatal lists_shrink_wait_aborted lists_shrink_wait_last
      by (intro k; cases "sy_send s a"; cases "the (sy_send s a)") (auto simp: sender_next_def bind_res_eq_Inr)
  next
    case (Ev_Read nonblock bufsize)
    then show ?thesis
      using e(1) s(2) by (intro k) (auto simp: dev_read_take_def)
  next
    case (Ev_Read_Done a err)
    then obtain n g where g: "sy_copy s a = Some Copies_Out" "dev_read_done a err (sy_conn s) = Inr (n, g)"
        "t = set_copier (set_conn s g) a None"
      using e(1) by (auto simp: bind_res_eq_Inr split: if_splits)
    show ?thesis
      using read_done_work [OF s(1) g(1,2)] g(3) s(2) by (simp add: abort_work_def)
  next
    case (Ev_Write u err nbytes)
    then show ?thesis
      using e(1) s(2) by (intro k) (auto simp: dev_write_take_def split: if_splits)
  next
    case (Ev_Write_Done a err nbytes)
    then obtain n g where g: "dev_write_done a err nbytes (sy_conn s) = Inr (n, g)" "t = set_copier (set_conn s g) a None"
      using e(1) by (auto simp: bind_res_eq_Inr split: if_splits)
    then have "lists_shrink (sy_conn s) g"
      by (auto simp: dev_write_done_def dreq_at_def Let_def bind_res_eq_Inr split: option.splits intro: lists_shrink_end_put)
    then show ?thesis
      using g(2) by (intro k) simp_all
  next
    case Ev_Release_Step
    then show ?thesis
      using e(1) by (intro k; cases "sy_release s")
        (auto simp: conn_next_def bind_res_eq_Inr end_pending_def end_processing_def split: if_splits list.splits dest: end_one_shrink(1))
  next
    case (Ev_Lock a)
    then show ?thesis
      using e(1) by (intro k) (auto simp: lock_request_def dreq_at_def split: if_splits option.splits)
  next
    case (Ev_Unlock a)
    then show ?thesis
      using e(1) by (intro k) (auto simp: unlock_request_def conn_next_def dreq_at_def split: if_splits option.splits)
  next
    case (Ev_End a)
    then show ?thesis
      using e(1) by (intro k) (auto simp: conn_next_def bind_res_eq_Inr split: if_splits dest: lists_shrink_end)
  next
    case (Ev_Put a)
    then show ?thesis
      using e(1) by (intro k) (auto simp: conn_next_def bind_res_eq_Inr split: if_splits dest: lists_shrink_put)
  next
    case Ev_Abort
    then show ?thesis
      using e(1) s(2) by simp
  qed (use e s(2) in \<open>auto simp: abort_work_def fuse_get_req_enter_def fuse_dev_release_start_def fuse_put_super_def
      fuse_request_alloc_def split: if_splits\<close>)
qed

text \<open>C16: Aborting a connection comes to an end: once it is disconnected, every step of the aborting thread leaves less to do and no step
  of any other thread makes it more. The thread can always take its next step, but for the time that a thread copies the
  request whose end function it has to call.\<close>

theorem abort_terminates:
  assumes "dev_reached ctr n s" "\<not> fc_connected (sy_conn s)"
  shows "(\<forall>e t. dev_next e s = Some (Inr t) \<longrightarrow> \<not> fc_connected (sy_conn t) \<and> abort_work t \<le> abort_work s \<and>
      (e = Ev_Abort_Step \<longrightarrow> abort_work t < abort_work s)) \<and>
    (sy_abort s \<notin> {Idle, Abort_Done} \<longrightarrow> (\<exists>t. dev_next Ev_Abort_Step s = Some (Inr t)) \<or>
      (\<exists>a r. sy_abort s = Abort_Ending a \<and> fc_reqs (sy_conn s) a = Some r \<and> dq_locked r \<and> sy_copy s a \<noteq> None))"
proof (intro conjI allI impI)
  fix e t
  assume e: "dev_next e s = Some (Inr t)"
  show "\<not> fc_connected (sy_conn t)" "abort_work t \<le> abort_work s"
    using step_work [OF dev_reached_ok [OF assms(1)] assms(2) e] abort_step_work [of s t] e assms(2)
    by (cases "e = Ev_Abort_Step"; simp)+
  show "e = Ev_Abort_Step \<Longrightarrow> abort_work t < abort_work s"
    using abort_step_work(1) [of s t] e by simp
next
  assume a: "sy_abort s \<notin> {Idle, Abort_Done}"
  note s = dev_reached_ok [OF assms(1)]
  have k: "keeps (dev_next Ev_Abort_Step s)"
    by (rule abort_step_ok [OF s])
  show "(\<exists>t. dev_next Ev_Abort_Step s = Some (Inr t)) \<or>
      (\<exists>a r. sy_abort s = Abort_Ending a \<and> fc_reqs (sy_conn s) a = Some r \<and> dq_locked r \<and> sy_copy s a \<noteq> None)"
  proof (cases "dev_next Ev_Abort_Step s")
    case (Some x)
    then show ?thesis
      using k by (auto simp: keeps_def simp del: dev_next.simps)
  next
    case None
    then obtain b r where b: "sy_abort s = Abort_Ending b" "fc_reqs (sy_conn s) b = Some r" "dq_locked r"
      using a by (cases "sy_abort s") (auto split: if_splits option.splits)
    have "req_at s b (Some r)"
      using sys_okD(1) [OF s, of b] b(2) by (simp add: view_at)
    then have "sy_copy s b \<noteq> None"
      using b(3) by (cases "dq_state r") (auto simp: req_ok_def split: if_splits)
    then show ?thesis
      using b by blast
  qed
qed

section \<open>Examples\<close>

lemma run_reached: "dev_reached ctr n s \<Longrightarrow> dev_run es s = Some (Inr t) \<Longrightarrow> dev_reached ctr (n + length es) t"
proof (induction es arbitrary: n s)
  case (Cons e es)
  obtain u where u: "dev_next e s = Some (Inr u)"
    using Cons.prems(2) by (cases "dev_next e s") (auto split: sum.splits)
  then have "dev_reached ctr (Suc n) u"
    by (rule dev_reached.step [OF Cons.prems(1)])
  from Cons.IH [OF this] show ?case
    using Cons.prems(2) u by simp
qed simp

lemma run_append: "dev_run (es @ fs) s = (case dev_run es s of Some (Inr t) \<Rightarrow> dev_run fs t | x \<Rightarrow> x)"
  by (induction es arbitrary: s) (auto split: option.splits sum.splits)

definition state_after :: "dev_event list \<Rightarrow> dev_sys" where
  "state_after es = (case dev_run es (dev_start 0 False) of Some (Inr t) \<Rightarrow> t | _ \<Rightarrow> dev_start 0 False)"

lemma state_after_reached: "\<exists>t. dev_run es (dev_start 0 False) = Some (Inr t) \<Longrightarrow> n = length es \<Longrightarrow> dev_reached 0 n (state_after es)"
  using run_reached [OF dev_reached.start, of es 0 False] by (auto simp: state_after_def)

definition ex_request :: kreq where
  "ex_request = \<lparr>kr_opcode = FUSE_STATFS, kr_nodeid = 1, kr_args = [], kr_out = [80], kr_argvar = False\<rparr>"

text \<open>A request is sent and read by the process.\<close>

abbreviation ex_sent :: "dev_event list" where
  "ex_sent \<equiv> [Ev_Enter, Ev_Get False True ex_request False False, Ev_Send 0, Ev_Read False 8192, Ev_Read_Done 0 0]"

text \<open>A signal interrupts its sender, and the process asks to repeat the interrupt.\<close>

abbreviation ex_repeat :: "dev_event list" where
  "ex_repeat \<equiv> ex_sent @ [Ev_Wait 0, Ev_Read False 8192, Ev_Write 2 (- 11) 16]"

text \<open>The sender is killed, and two threads of the process answer.\<close>

abbreviation ex_killed :: "dev_event list" where
  "ex_killed \<equiv> ex_sent @ [Ev_Wait 0, Ev_Wait 0, Ev_Write 1 0 96, Ev_Write 1 0 96, Ev_End 0]"

abbreviation ex_aborted :: "dev_event list" where
  "ex_aborted \<equiv> ex_sent @ [Ev_Abort, Ev_Abort_Step, Ev_Abort_Step, Ev_Abort_Step, Ev_Abort_Step]"

lemmas run_simps = dev_start_def fuse_get_req_enter_def fuse_get_req_def fuse_request_alloc_def fuse_request_init_def request_send_def
  queue_request_def fuse_get_unique_def sender_next_def conn_next_def dev_read_take_def dev_read_done_def reqsize_def len_args_def
  ex_request_def dreq_at_def put_dreq_def del_list_def del_intr_def set_conn_def set_sender_def set_copier_def wait_any_def wait_fatal_def
  wait_aborted_def abort_sent_def queue_interrupt_def fuse_read_interrupt_def dev_write_take_def request_find_def request_end_def
  fuse_put_request_def end_background_def fuse_abort_start_def end_processing_def end_one_def EAGAIN_def ENOSYS_def Let_def

lemma ex_runs:
  "\<exists>t. dev_run ex_sent (dev_start 0 False) = Some (Inr t)"
  "\<exists>t. dev_run ex_repeat (dev_start 0 False) = Some (Inr t)"
  "\<exists>t. dev_run ex_killed (dev_start 0 False) = Some (Inr t)"
  "\<exists>t. dev_run ex_aborted (dev_start 0 False) = Some (Inr t)"
  by (simp_all add: run_simps)

lemma ex_reached:
  "dev_reached 0 5 (state_after ex_sent)" "dev_reached 0 8 (state_after ex_repeat)" "dev_reached 0 10 (state_after ex_killed)" "dev_reached 0 10 (state_after ex_aborted)"
  by (rule state_after_reached [OF ex_runs(1)] state_after_reached [OF ex_runs(2)] state_after_reached [OF ex_runs(3)] state_after_reached [OF ex_runs(4)], simp)+

lemma ex_exceptions: "repeated_again (state_after ex_repeat) (Ev_Write 2 (- EAGAIN) 16)" "ended_meanwhile (state_after ex_killed) (Ev_End 0)"
  by (simp_all add: repeated_again_def ended_meanwhile_def state_after_def run_simps)

lemma requests_stay_sound_witness:
  "(\<exists>x. dev_next (Ev_Write 2 (- EAGAIN) 16) (state_after ex_repeat) = Some (Inl x)) \<and> (\<exists>x. dev_next (Ev_End 0) (state_after ex_killed) = Some (Inl x))"
  using requests_stay_sound [OF ex_reached(2)] requests_stay_sound [OF ex_reached(3)] ex_exceptions by blast

lemma ex_sent_state:
  "fc_connected (sy_conn (state_after ex_sent))" "sy_send (state_after ex_sent) 0 = Some Waits_Any" "fc_processing (sy_conn (state_after ex_sent)) = [0]"
  "\<exists>r. fc_reqs (sy_conn (state_after ex_sent)) 0 = Some r \<and> \<not> dq_aborted r \<and> dq_unique r = 1"
  by (simp_all add: state_after_def run_simps)

lemma ex_aborted_state:
  "sy_abort (state_after ex_aborted) = Abort_Done" "\<not> fc_connected (sy_conn (state_after ex_aborted))" "sy_send (state_after ex_aborted) 0 = Some Waits_Any"
  "\<exists>r. fc_reqs (sy_conn (state_after ex_aborted)) 0 = Some r \<and> \<not> dq_locked r"
  by (simp_all add: state_after_def run_simps)

lemma requests_are_counted_witness:
  "fc_num_waiting (sy_conn (state_after ex_sent)) =
     sy_entered (state_after ex_sent) + card {a. \<exists>r. fc_reqs (sy_conn (state_after ex_sent)) a = Some r \<and> dq_waiting r} \<and>
   \<not> fc_blocked (sy_conn (state_after ex_sent))"
  using requests_are_counted [OF ex_reached(1) refl, of 0] ex_sent_state(1) by (simp add: state_after_def run_simps FUSE_MAX_BACKGROUND_def)

lemma answer_reaches_sender_witness:
  "\<exists>t q. dev_run [Ev_Write 1 (- 5) 16, Ev_Write_Done 0 0 16, Ev_Wait 0] (state_after ex_sent) = Some (Inr t) \<and>
     sy_send t 0 = Some Returned \<and> fc_reqs (sy_conn t) 0 = Some q \<and> dq_state q = Req_Finished \<and> dq_error q = - 5"
proof -
  obtain r where r: "fc_reqs (sy_conn (state_after ex_sent)) 0 = Some r" "\<not> dq_aborted r" "dq_unique r = 1"
    using ex_sent_state(4) by blast
  show ?thesis
    using answer_reaches_sender [OF ex_reached(1) _ ex_sent_state(1) _ r(1,2) ex_sent_state(2), of "- 5" 16] ex_sent_state(3) r(3) by simp
qed

lemma abort_frees_senders_witness: "\<exists>t. dev_next (Ev_Wait 0) (state_after ex_aborted) = Some (Inr t) \<and> sy_send t 0 = Some Returned"
proof -
  obtain r where r: "fc_reqs (sy_conn (state_after ex_aborted)) 0 = Some r" "\<not> dq_locked r"
    using ex_aborted_state(4) by blast
  have "sy_abort (state_after ex_aborted) = Abort_Done \<or> sy_release (state_after ex_aborted) = Abort_Done"
    using ex_aborted_state(1) by simp
  from abort_frees_senders [OF ex_reached(4) this, THEN conjunct2, THEN conjunct2, THEN conjunct2, THEN conjunct2, rule_format, of 0 Waits_Any]
  obtain q where "fc_reqs (sy_conn (state_after ex_aborted)) 0 = Some q"
    "if dq_locked q then sy_copy (state_after ex_aborted) 0 \<noteq> None
     else \<exists>t. dev_next (Ev_Wait 0) (state_after ex_aborted) = Some (Inr t) \<and> sy_send t 0 = Some Returned"
    using ex_aborted_state(3) sender.distinct by blast
  with r show ?thesis
    by (simp only: option.inject if_False)
qed

lemma ex_abort_started: "dev_reached 0 6 (state_after (ex_sent @ [Ev_Abort]))" "\<not> fc_connected (sy_conn (state_after (ex_sent @ [Ev_Abort])))"
  "\<exists>t. dev_next Ev_Abort_Step (state_after (ex_sent @ [Ev_Abort])) = Some (Inr t)"
proof -
  have "\<exists>t. dev_run (ex_sent @ [Ev_Abort]) (dev_start 0 False) = Some (Inr t)"
    by (simp add: run_simps)
  then show "dev_reached 0 6 (state_after (ex_sent @ [Ev_Abort]))"
    by (rule state_after_reached) simp
qed (simp_all add: state_after_def run_simps)

lemma abort_terminates_witness:
  "\<exists>t. dev_next Ev_Abort_Step (state_after (ex_sent @ [Ev_Abort])) = Some (Inr t) \<and> abort_work t < abort_work (state_after (ex_sent @ [Ev_Abort]))"
  using abort_terminates [OF ex_abort_started(1,2)] ex_abort_started(3) by blast

end
