(* ===== verification/Spec2Isabelle.thy ===== *)
theory Spec2Isabelle
  imports Catalog_Fs Catalog_Roundtrip Binsearch_In_File Helper_Programs Rofs Fuse_Opt Fuse_Paths Catalog_Listing Wire_Replies Kernel_Answers
begin

text \<open>
  A verification of the catalogue file system (\<^verbatim>\<open>src/\<close>): \<^verbatim>\<open>generate_catalog\<close> writes a catalogue of a directory
  tree, one padded line for each file, and \<^verbatim>\<open>catalogfs\<close> mounts such a catalogue as a read-only file system
  through libfuse, which is part of the sources (\<^verbatim>\<open>src/other_fs/fuse-2.7.3\<close>).

  \<^bold>\<open>How the parts work together.\<close> \<^verbatim>\<open>generate_catalog\<close> walks a directory breadth first, with a linked queue of
  directories, prints a line for each entry into a temporary file, pads all lines to one length and renames the file.
  \<^verbatim>\<open>catalogfs\<close> takes the catalogue, its line length and its number of lines from the environment, and answers each
  request by binary searches over the lines, first by depth, then by path. libfuse turns the requests of the
  kernel, which name files by numbers, into calls with paths: it keeps a table of nodes, counts the kernel's
  lookups and open files, and passes the answers back.

  \<^bold>\<open>Theories and sources.\<close>
  \<^item> \<^verbatim>\<open>Prelude\<close>: results (\<^verbatim>\<open>fault + 'a\<close>: an exit, an abort or undefined behaviour, or a value), constants, shared lemmas.
    \<^verbatim>\<open>Cstdio\<close>: the parts of \<^verbatim>\<open>sscanf\<close>, \<^verbatim>\<open>strcmp\<close>, \<^verbatim>\<open>getline\<close> and \<^verbatim>\<open>printf\<close> that the programs use.
  \<^item> \<^verbatim>\<open>Catalog_Entry\<close>: \<^verbatim>\<open>catalogfs.c\<close>, reading one line (\<^verbatim>\<open>getEntry_from_catalog\<close> and its variants). The file is a byte
    list, the mount a record of the global variables. Well-formedness of a catalogue is \<^verbatim>\<open>catalog_wf\<close>.
  \<^item> \<^verbatim>\<open>Catalog_Search\<close>: the searches (\<^verbatim>\<open>find_index\<close>, \<^verbatim>\<open>find_lowest_index\<close>, \<^verbatim>\<open>find_highest_index\<close>, \<^verbatim>\<open>binSearch\<close>,
    \<^verbatim>\<open>get_directory_contents\<close>) over any reader of entries; a locale states what the searches need of the reader.
  \<^item> \<^verbatim>\<open>Catalog_Fs\<close>: the operations of \<^verbatim>\<open>catalogfs.c\<close>, the table \<^verbatim>\<open>catalog_operations\<close> and \<^verbatim>\<open>main\<close>.
  \<^item> \<^verbatim>\<open>Bf_Queue\<close>: the linked queue of \<^verbatim>\<open>generate_catalog.c\<close> on a heap of cells, and its contract, the locale
    \<^verbatim>\<open>fifo_queue\<close>. \<^verbatim>\<open>Generate_Catalog\<close>: the walk, formats, padding and \<^verbatim>\<open>main\<close>, over any queue.
    \<^verbatim>\<open>Catalog_Format\<close>, \<^verbatim>\<open>Catalog_Walk\<close>, \<^verbatim>\<open>Catalog_Order\<close>: what a printed line means to the reader, that the walk
    prints a tree, and in which order. \<^verbatim>\<open>Catalog_Roundtrip\<close>: the mount of a generated catalogue.
  \<^item> \<^verbatim>\<open>Binsearch_In_File\<close> (\<^verbatim>\<open>binsearchinfile.c\<close>, the prototype of the search), \<^verbatim>\<open>Helper_Programs\<close> (\<^verbatim>\<open>bytecount.c\<close>,
    \<^verbatim>\<open>generate_catalog.old.c\<close>, \<^verbatim>\<open>helper/scanf.c\<close>, \<^verbatim>\<open>helper/stat.c\<close>, \<^verbatim>\<open>helper/statfs.c\<close>), \<^verbatim>\<open>Rofs\<close> (\<^verbatim>\<open>other_fs/rofs/rofs.c\<close>).
  \<^item> \<^verbatim>\<open>Fuse_Opt\<close> (\<^verbatim>\<open>lib/fuse_opt.c\<close>): the option parser.
  \<^item> \<^verbatim>\<open>Fuse_Locks\<close>, \<^verbatim>\<open>Fuse_Nodes\<close>, \<^verbatim>\<open>Fuse_Fs\<close>, \<^verbatim>\<open>Fuse_Lib\<close> (\<^verbatim>\<open>lib/fuse.c\<close>): the lock list of a node, the node tables,
    the calls of the file system, and the request handlers with their table \<^verbatim>\<open>fuse_path_ops\<close>. Nodes live on a heap (a
    map from addresses), hash chains are lists of addresses, and \<^verbatim>\<open>fu_mem\<close> says which allocation fails.
  \<^item> \<^verbatim>\<open>Fuse_Node_Laws\<close>, \<^verbatim>\<open>Fuse_Node_Ops\<close>, \<^verbatim>\<open>Fuse_Paths\<close>: the invariant of the tables, each call as an operation of
    an abstract directory cache (numbered entries and lookup counts), and the paths it returns.
  \<^item> \<^verbatim>\<open>Fuse_Lib_Laws\<close>, \<^verbatim>\<open>Fuse_Steps\<close>, \<^verbatim>\<open>Fuse_Requests\<close>, \<^verbatim>\<open>Fuse_Resolve\<close>: a calculus of weakest preconditions for handlers,
    what libfuse expects of a file system (the locale \<^verbatim>\<open>answering_fs\<close>), that every request is then answered, and the
    lookup of a path name by name. \<^verbatim>\<open>Catalog_Mount\<close> interprets the locale on \<^verbatim>\<open>catalogfs\<close>.
  \<^item> \<^verbatim>\<open>Fuse_Dir\<close>, \<^verbatim>\<open>Fuse_Dir_Laws\<close> (\<^verbatim>\<open>lib/fuse.c\<close>, \<^verbatim>\<open>lib/fuse_lowlevel.c\<close>): the handles of open directories, their
    growing buffer and the encoding of entries. \<^verbatim>\<open>Kernel_Dir\<close> (\<^verbatim>\<open>kernel/dir.c\<close>): the kernel's reading of pages of entries,
    and what it needs of a file system (the locale \<^verbatim>\<open>listing_fs\<close>), which \<^verbatim>\<open>Catalog_Listing\<close> shows of \<^verbatim>\<open>catalogfs\<close>.
  \<^item> \<^verbatim>\<open>Subdir\<close> (\<^verbatim>\<open>lib/modules/subdir.c\<close>): the module that puts a base directory in front of all paths, as a file system over
    another one, and its relative links.
  \<^item> \<^verbatim>\<open>Fuse_Lowlevel\<close>, \<^verbatim>\<open>Fuse_Ll_Laws\<close> (\<^verbatim>\<open>lib/fuse_lowlevel.c\<close>): outstanding requests, interrupts, INIT and DESTROY, and sequences
    of messages and answers as the inductive relation \<^verbatim>\<open>ll_run\<close>. \<^verbatim>\<open>Fuse_Wire\<close>: the readers of arguments \<^verbatim>\<open>do_\<dots>\<close> and the writers
    of answers \<^verbatim>\<open>fuse_reply_\<dots>\<close>. \<^verbatim>\<open>Kernel_Req\<close> (\<^verbatim>\<open>kernel/dir.c\<close>, \<^verbatim>\<open>file.c\<close>, \<^verbatim>\<open>inode.c\<close>, \<^verbatim>\<open>dev.c\<close>): the requests that the
    kernel builds, and its checks on answers. \<^verbatim>\<open>Wire_Laws\<close>, \<^verbatim>\<open>Wire_Replies\<close>: that the two sides agree.
  \<^item> \<^verbatim>\<open>Kernel_Dev\<close> (\<^verbatim>\<open>kernel/dev.c\<close>): the life of a request in the kernel, from \<^verbatim>\<open>fuse_get_req\<close> to \<^verbatim>\<open>fuse_put_request\<close>. What is done under
    the lock is a step, the places of all threads are part of the state, and \<^verbatim>\<open>dev_reached\<close> is reachability under every
    interleaving. \<^verbatim>\<open>Kernel_Dev_Laws\<close>: an invariant for one request at a time, kept by all steps. \<^verbatim>\<open>Kernel_Answers\<close>: the numbers
    of requests, answers, and the end of an abort.
  \<^item> This theory: generator, file system and libfuse together.

  \<^bold>\<open>What is shown.\<close> On the mount of a generated catalogue \<^verbatim>\<open>getattr\<close>, \<^verbatim>\<open>readdir\<close> and \<^verbatim>\<open>readlink\<close> return what \<^verbatim>\<open>lstat\<close>,
  \<^verbatim>\<open>scandir\<close> and \<^verbatim>\<open>readlink\<close> returned during generation, provided that no two sibling directories change their
  order when a slash is appended; without that, the catalogue is not sorted and some file is lost, for every tree (both are
  proved). Files are those that a line can hold: names without the bytes 1, newline and NUL, paths that fit the buffers,
  and a catalogue below 2 GiB.
  The searches equal a linear search, the queue is a first-in first-out queue, printing and reading lines are inverse,
  the walk ends and prints every file. No request makes \<^verbatim>\<open>catalogfs\<close> exit or leave a buffer, except
  \<^verbatim>\<open>readdir\<close> of a directory other than the root when the path buffer has no spare byte, which under libfuse is always
  so; a link entry without a destination is excluded. All these statements take the strings of an entry by value:
  \<^verbatim>\<open>getEntry_from_catalog\<close> returns pointers to two of its own local buffers (\<^verbatim>\<open>catalogfs.c\<close>, lines 401, 425 and 426), which C leaves
  undefined, and the model takes these buffers as still readable and unchanged. The root is listed completely: the kernel, reading page by page, gets every entry once and in order. With the
  module \<^verbatim>\<open>subdir\<close> in between, whose paths have room to spare, every directory is listed. The node tables of libfuse
  refine a directory cache, no assertion or \<^verbatim>\<open>abort\<close> is reached by a kernel that keeps to the protocol, with one
  exception that is proved as well: an interrupted negative lookup. Kernel and libfuse agree on the protocol: a
  message of the kernel is read as the call that it was built for, an answer has the size that the kernel waits for, no
  message is answered twice and no interrupt is lost. In the kernel module requests are counted exactly under every
  interleaving of its threads, answers reach the thread that waits for them and an abort ends and leaves no thread
  waiting but for an answer that is just being copied; two steps that destroy its lists are found, and shown to be the only ones. The remaining theorems cover the lock list, the
  option parser, the relative links of \<^verbatim>\<open>subdir\<close>, rofs and the helper programs.

  \<^bold>\<open>Fuel and bounds.\<close> Three loops have no bound in the code and take a number of rounds in the model, \<^verbatim>\<open>None\<close> when it
  is too small: the walk (one round for each directory is enough), \<^verbatim>\<open>next_id\<close> (three more than there are nodes) and
  the search for a hidden name (one more than there are nodes); the theorems state these bounds. The loop
  that enlarges the buffer of a directory is a partial function, shown to return exactly up to two gigabytes. All other
  loops are total functions. Numbers keep their width where the code can overflow: offsets are \<^verbatim>\<open>int\<close>, hashes 32-bit words,
  node numbers and lookup counts wrap, reference and open counts are undefined beyond \<^verbatim>\<open>INT_MAX\<close>.

  \<^bold>\<open>Not modelled.\<close> The start and end of libfuse beyond the node tables, its interfaces for older versions, mutexes and threads, signals
  (to a request handler, an interrupted request is a reply that the kernel does not take) and debug output; sessions and channels,
  mounting, the module \<^verbatim>\<open>iconv\<close> and the lock manager of libfuse, and its examples, which are system calls and threads; of the
  kernel module the requests that are reserved for open files, the copying of pages, and what it does with an answer in the VFS
  and the page cache; \<^verbatim>\<open>archivemount\<close> and \<^verbatim>\<open>fuse.gunzip\<close>, which rest on libraries that are not in the sources; the shell
  script \<^verbatim>\<open>catalogfsmount\<close>, whose environment is \<^verbatim>\<open>mount_env\<close> (the command that computes the length of a line is commented
  out in it, so that it refuses every catalogue). System calls of the generator are an argument (\<^verbatim>\<open>os\<close>), and so is the clock.
  Uninitialised variables that the code reads are arguments of the model, so that theorems hold for every value.
\<close>

section \<open>Examples\<close>

lemma ex_can_generate: "can_generate 2 ex_os empty_queue ''/d'' ex_tree ''/c''"
proof -
  have "generated ex_os ''/d'' ex_tree ''/c''"
    by code_simp
  moreover have "os_stat ex_os ''/d'' = Some (tree_stat ex_tree)" "dir_count ex_tree \<le> 2"
    "os_fopen ex_os ''/c''" "os_fopen ex_os ''/c.temp''" "os_rename ex_os ''/c.temp'' ''/c''"
    by code_simp+
  ultimately show ?thesis
    by (simp add: can_generate_def empty_queue_def good_bump_malloc)
qed

text \<open>Two sub-directories whose order changes when a slash is appended.\<close>

definition ex_tree2 :: tree where
  "ex_tree2 = Branch (ex_stat 0x41ED)
     [(''a'', Branch (ex_stat 0x41ED) [(''x'', Leaf (ex_stat 0x81A4) [])]),
      (''a.d'', Branch (ex_stat 0x41ED) [(''y'', Leaf (ex_stat 0x81A4) [])])]"

definition ex_os2 :: os where
  "ex_os2 =
     \<lparr>os_lstat = map_of [(''/d'', ex_stat 0x41ED), (''/d/'', ex_stat 0x41ED), (''/d/a'', ex_stat 0x41ED),
        (''/d/a/'', ex_stat 0x41ED), (''/d/a/x'', ex_stat 0x81A4), (''/d/a.d'', ex_stat 0x41ED),
        (''/d/a.d/'', ex_stat 0x41ED), (''/d/a.d/y'', ex_stat 0x81A4)],
      os_readdir = map_of [
        (''/d'', [\<lparr>d_name = ''a.d'', d_type = 4\<rparr>, \<lparr>d_name = ''a'', d_type = 4\<rparr>]),
        (''/d/a'', [\<lparr>d_name = ''x'', d_type = 8\<rparr>]), (''/d/a.d'', [\<lparr>d_name = ''y'', d_type = 8\<rparr>])],
      os_readlink = Map.empty, os_stat = map_of [(''/d'', ex_stat 0x41ED)],
      os_fopen = (\<lambda>_. True), os_rename = (\<lambda>_ _. True)\<rparr>"

lemma ex_can_generate2: "can_generate 3 ex_os2 empty_queue ''/d'' ex_tree2 ''/c''"
proof -
  have "generated ex_os2 ''/d'' ex_tree2 ''/c''"
    by code_simp
  moreover have "os_stat ex_os2 ''/d'' = Some (tree_stat ex_tree2)" "dir_count ex_tree2 \<le> 3"
    "os_fopen ex_os2 ''/c''" "os_fopen ex_os2 ''/c.temp''" "os_rename ex_os2 ''/c.temp'' ''/c''"
    by code_simp+
  ultimately show ?thesis
    by (simp add: can_generate_def empty_queue_def good_bump_malloc)
qed

section \<open>The generator and the file system together\<close>

text \<open>C1: \<open>generate_catalog\<close> followed by \<open>catalogfs\<close>: on the mount of the catalogue written for a
  directory, \<open>getattr\<close> of every catalogued path returns what \<open>lstat\<close> returned for the file, and of every
  other path \<open>ENOENT\<close>. It is assumed that no two sibling directories change their order with a slash appended
  (\<open>siblings_ordered\<close>), and \<open>can_generate\<close>: names without the bytes 1, newline and NUL, paths that fit the
  buffers, known file types, a catalogue below 2 GiB, and no system call of the run fails.\<close>

theorem mounted_getattr_is_lstat:
  assumes "can_generate n w q0 d t fname" "siblings_ordered t" "NUL \<notin> set p"
  shows "\<exists>files' content. gen_main n w q0 files [prog, d, fname] = Some (Inr (0, files')) \<and>
           files' fname = Some content \<and>
           catalog_getattr (mount_catalog fname content) umid p =
             Inr (if listed t p then (0, the (os_lstat w (d @ p))) else (- ENOENT, stat_zero))"
proof -
  have g: "generated w d t fname"
    using assms(1) by (simp add: can_generate_def)
  obtain files' content where run: "gen_main n w q0 files [prog, d, fname] = Some (Inr (0, files'))"
    "files' fname = Some content" "mount_catalog fname content = mounted fname (walk t)"
    using gen_main_runs [OF assms(1), of files prog] by blast
  with generated_getattr [OF g assms(2,3), of umid] show ?thesis
    by (intro exI [of _ files'] exI [of _ content]) simp
qed

theorem mounted_getattr_is_lstat_witness:
  "\<exists>files' content. gen_main 2 ex_os empty_queue Map.empty [''gen'', ''/d'', ''/c''] = Some (Inr (0, files')) \<and>
     files' ''/c'' = Some content \<and>
     catalog_getattr (mount_catalog ''/c'' content) 0 ''/a/l'' = Inr (0, ex_stat 0xA1FF)"
proof -
  have "siblings_ordered ex_tree" "listed ex_tree ''/a/l''" "os_lstat ex_os ''/d/a/l'' = Some (ex_stat 0xA1FF)"
    by code_simp+
  then show ?thesis
    using mounted_getattr_is_lstat [OF ex_can_generate, of "''/a/l''" Map.empty "''gen''" 0] by simp
qed

text \<open>C2: generator, file system and libfuse together: when the catalogue of a directory is mounted, and no two
  sibling directories change their order with a slash appended, the kernel's lookups of the names of any file,
  one after the other from the root, succeed, and the attributes it then asks for are those that \<open>lstat\<close>
  returned, with the number of the node and the settings of the mount. Memory and clock do not fail, and the
  generator's run is one that \<open>can_generate\<close> admits (printable names, less than 2 GiB).\<close>

theorem mounted_path_resolves:
  assumes "can_generate n w q0 d t fname" "siblings_ordered t" "tree_at t ns = Some u"
    and "good_fresh fresh" "\<forall>tm. clock tm \<noteq> None" "\<forall>tm. \<not> oom mem tm" "length ns + 4 \<le> k"
  shows "\<exists>files' content i l. gen_main n w q0 files [prog, d, fname] = Some (Inr (0, files')) \<and> files' fname = Some content \<and>
           kernel_stat k ns (fuse_start mem fresh root0 conf clock (catalog_oper xattr umid) (mount_catalog fname content)) =
             Some (Inr (Reply_Attr (set_stat conf i \<lparr>at_st = tree_stat u, at_ino = 0\<rparr>) (cf_attr_timeout conf), l)) \<and>
           os_lstat w (d @ names_path ns) = Some (tree_stat u)"
proof -
  have g: "generated w d t fname"
    using assms(1) by (simp add: can_generate_def)
  obtain files' content where run: "gen_main n w q0 files [prog, d, fname] = Some (Inr (0, files'))"
    "files' fname = Some content" "mount_catalog fname content = mounted fname (walk t)"
    using gen_main_runs [OF assms(1), of files prog] by blast
  let ?at = "\<lambda>j. the (tree_at t (take j ns))"
  note plain = tree_at_plain [OF g assms(3)]
  have attr: "fuse_fs_getattr (catalog_oper xattr umid) (path_string (names_path (take j ns))) (mounted fname (walk t)) =
      Inr ((0, \<lparr>at_st = tree_stat (?at j), at_ino = 0\<rparr>), mounted fname (walk t))" for j
  proof -
    have "tree_at t (take j ns) = Some (?at j)"
      using tree_at_take [OF assms(3), of j] by auto
    then show ?thesis
      by (rule tree_at_getattr [OF g assms(2)]) (use plain in \<open>auto dest: in_set_takeD\<close>)
  qed
  have "os_lstat w (d @ names_path ns) = Some (tree_stat u)"
    by (rule shows_tree_lstat [OF tree_at_os [OF generated_tree(3) [OF g] assms(3)]])
  with run kernel_stat_known [OF assms(4-6) plain assms(7) tree_at_short [OF g assms(3)] attr] assms(3) show ?thesis
    by fastforce
qed

theorem mounted_path_resolves_witness:
  "\<exists>files' content i l. gen_main 2 ex_os empty_queue Map.empty [''gen'', ''/d'', ''/c''] = Some (Inr (0, files')) \<and>
     files' ''/c'' = Some content \<and>
     kernel_stat 6 [''a'', ''l''] (ex_lib (mount_catalog ''/c'' content)) =
       Some (Inr (Reply_Attr (set_stat ex_conf i \<lparr>at_st = ex_stat 0xA1FF, at_ino = 0\<rparr>) 1, l))"
proof -
  have "siblings_ordered ex_tree" and u: "map_option tree_stat (tree_at ex_tree [''a'', ''l'']) = Some (ex_stat 0xA1FF)"
    by code_simp+
  then obtain u where "tree_at ex_tree [''a'', ''l''] = Some u" "tree_stat u = ex_stat 0xA1FF"
    by auto
  with mounted_path_resolves [OF ex_can_generate \<open>siblings_ordered ex_tree\<close> this(1) good_ex_fresh, of ex_clock ex_memory 6 Map.empty
      "''gen''" 7 ex_conf True 0] show ?thesis
    by (simp add: ex_lib_def ex_clock_def ex_memory_def) (auto simp: ex_conf_def)
qed

text \<open>C3: generator, file system, libfuse and kernel together: when the catalogue of a directory is mounted,
  opening the root and reading it page by page gives \<open>.\<close>, \<open>..\<close> and then the name and type of every entry
  that \<open>scandir\<close> returned when the catalogue was generated, each once and in that order. It is assumed that
  sibling directories keep their order with a slash appended, that the run is one that \<open>can_generate\<close> admits,
  names of at most 1024 bytes, a listing below 2 GiB, and that memory and clock do not fail.\<close>

theorem mounted_root_is_listed:
  assumes "can_generate n w q0 d t fname" "siblings_ordered t" "scandir w d filter_ent = Some es"
    and "\<forall>e\<in>set es. length (d_name e) \<le> FUSE_NAME_MAX" "64 + sum_list (map (\<lambda>e. length (d_name e) + 31) es) \<le> 2 ^ 31"
    and "good_fresh fresh" "\<forall>tm. clock tm \<noteq> None" "\<forall>tm. \<not> oom mem tm" "length es + 2 < k"
  shows "\<exists>files' content l. gen_main n w q0 files [prog, d, fname] = Some (Inr (0, files')) \<and> files' fname = Some content \<and>
           list_dir k (catalog_dir_oper umid) FUSE_ROOT_ID
             (fuse_start mem fresh root0 conf clock (catalog_oper xattr umid) (mount_catalog fname content)) =
           Some (Inr ((0, [(''.'', 0), (''..'', 0)] @
             map (\<lambda>e. (d_name e, type_bits (with_ino (os_lstat w (d @ ''/'' @ d_name e))))) es), l))"
proof -
  have g: "generated w d t fname"
    using assms(1) by (simp add: can_generate_def)
  obtain files' content where run: "gen_main n w q0 files [prog, d, fname] = Some (Inr (0, files'))"
    "files' fname = Some content" "mount_catalog fname content = mounted fname (walk t)"
    using gen_main_runs [OF assms(1), of files prog] by blast
  let ?xs = "root_items (os_items w d es)" and ?m = "mounted fname (walk t)"
  have short: "\<forall>e\<in>set es. length (d_name e) \<le> 1024"
    using assms(4) by (simp add: FUSE_NAME_MAX_def)
  have "\<forall>x\<in>set ?xs. name_ok (fst x)"
    using root_names [OF g assms(3)] short by (auto simp: root_items_def os_items_def name_ok_def)
  moreover have "dirents_size ?xs \<le> 2 ^ 31"
    using root_items_size [OF short, of w d] assms(5) by linarith
  moreover have "lists_root ?m (path_string []) ?xs"
    using generated_lists_root [OF g assms(2,3)] by (simp add: path_string_def)
  moreover have "length ?xs \<le> k - 1" "k = Suc (k - 1)"
    using assms(9) by (simp_all add: root_items_def os_items_def)
  ultimately have "wp (list_dir k (catalog_dir_oper umid) FUSE_ROOT_ID)
      (fuse_start mem fresh root0 conf clock (catalog_oper xattr umid) ?m) (\<lambda>r l'. r = (0, kept ?xs))"
    using croot.list_dir_lists [OF start_knows [OF assms(6-8)], of ?m ?xs "k - 1"] by (simp add: FUSE_MAX_PATH_def)
  moreover have "kept ?xs = [(''.'', 0), (''..'', 0)] @ map (\<lambda>e. (d_name e, type_bits (with_ino (os_lstat w (d @ ''/'' @ d_name e))))) es"
    by (simp add: kept_def root_items_def os_items_def type_bits_def)
  ultimately show ?thesis
    using run by (auto simp: wp_def)
qed

theorem mounted_root_is_listed_witness:
  "\<exists>files' content l. gen_main 2 ex_os empty_queue Map.empty [''gen'', ''/d'', ''/c''] = Some (Inr (0, files')) \<and>
     files' ''/c'' = Some content \<and>
     list_dir 5 (catalog_dir_oper 0) FUSE_ROOT_ID (ex_lib (mount_catalog ''/c'' content)) =
       Some (Inr ((0, [(''.'', 0), (''..'', 0), (''a'', 4), (''b'', 8)]), l))"
proof -
  have tree: "siblings_ordered ex_tree"
    by code_simp
  have dir: "scandir ex_os ''/d'' filter_ent = Some [\<lparr>d_name = ''a'', d_type = 4\<rparr>, \<lparr>d_name = ''b'', d_type = 8\<rparr>]"
    by code_simp
  have types: "type_bits (with_ino (os_lstat ex_os ''/d/a'')) = 4" "type_bits (with_ino (os_lstat ex_os ''/d/b'')) = 8"
    by code_simp+
  have "\<exists>files' content l. gen_main 2 ex_os empty_queue Map.empty [''gen'', ''/d'', ''/c''] = Some (Inr (0, files')) \<and>
     files' ''/c'' = Some content \<and>
     list_dir 5 (catalog_dir_oper 0) FUSE_ROOT_ID
       (fuse_start ex_memory ex_fresh 7 ex_conf ex_clock (catalog_oper True 0) (mount_catalog ''/c'' content)) =
       Some (Inr ((0, [(''.'', 0), (''..'', 0)] @ map (\<lambda>e. (d_name e, type_bits (with_ino (os_lstat ex_os (''/d'' @ ''/'' @ d_name e)))))
         [\<lparr>d_name = ''a'', d_type = 4\<rparr>, \<lparr>d_name = ''b'', d_type = 8\<rparr>]), l))"
    by (rule mounted_root_is_listed [OF ex_can_generate tree dir _ _ good_ex_fresh])
      (simp_all add: FUSE_NAME_MAX_def ex_clock_def ex_memory_def)
  then show ?thesis
    by (simp add: ex_lib_def types)
qed

text \<open>C4: on the mount of a generated catalogue in which sibling directories keep their order with a slash
  appended, \<open>readdir\<close> of any catalogued directory but the root, once the kernel has resolved its path, writes
  behind the buffer in which libfuse passes the path, whatever the handle and the size of the request. The run
  of the generator is one that \<open>can_generate\<close> admits, and memory and clock do not fail.\<close>

theorem mounted_subdirectory_overruns:
  assumes "can_generate n w q0 d t fname" "siblings_ordered t" "tree_at t ns = Some u" "ns \<noteq> []"
    and "good_fresh fresh" "\<forall>tm. clock tm \<noteq> None" "\<forall>tm. \<not> oom mem tm" "length ns + 4 \<le> k"
  shows "\<exists>files' content i l. gen_main n w q0 files [prog, d, fname] = Some (Inr (0, files')) \<and> files' fname = Some content \<and>
           resolve k ns FUSE_ROOT_ID
             (fuse_start mem fresh root0 conf clock (catalog_oper xattr umid) (mount_catalog fname content)) = Some (Inr (Some i, l)) \<and>
           (\<forall>sz dh. fuse_lib_readdir (catalog_dir_oper umid) i sz 0 dh l = Some (Inl Undefined))"
proof -
  have g: "generated w d t fname"
    using assms(1) by (simp add: can_generate_def)
  obtain files' content where run: "gen_main n w q0 files [prog, d, fname] = Some (Inr (0, files'))"
    "files' fname = Some content" "mount_catalog fname content = mounted fname (walk t)"
    using gen_main_runs [OF assms(1), of files prog] by blast
  obtain i l where i: "resolve k ns FUSE_ROOT_ID (fuse_start mem fresh root0 conf clock (catalog_oper xattr umid) (mounted fname (walk t))) =
        Some (Inr (Some i, l))" "knows (catalog_oper xattr umid) (mounted fname (walk t)) conf (1 + length ns) i (names_path ns) l"
    using tree_resolves [OF g assms(2,3,5-8) refl refl, of root0 conf xattr umid] by (auto simp: wp_def)
  have "names_path ns \<noteq> []" "names_path ns \<noteq> ''/''"
    using tree_at_long [OF generated_tree(2) [OF g] assms(3,4)] by auto
  moreover have "NUL \<notin> set (names_path ns)"
    using tree_at_plain [OF g assms(3)] by (auto simp: names_path_def)
  ultimately have "fuse_lib_readdir (catalog_dir_oper umid) i sz 0 dh l = Some (Inl Undefined)" for sz dh
    using readdir_known_overruns [OF i(2) _ _ _ tree_at_short [OF g assms(3)]] by blast
  with run i(1) show ?thesis
    by auto
qed

theorem mounted_subdirectory_overruns_witness:
  "\<exists>files' content i l. gen_main 2 ex_os empty_queue Map.empty [''gen'', ''/d'', ''/c''] = Some (Inr (0, files')) \<and>
     files' ''/c'' = Some content \<and> resolve 6 [''a''] FUSE_ROOT_ID (ex_lib (mount_catalog ''/c'' content)) = Some (Inr (Some i, l)) \<and>
     fuse_lib_readdir (catalog_dir_oper 0) i PAGE_SIZE 0 (new_dirhandle i) l = Some (Inl Undefined)"
proof -
  have tree: "siblings_ordered ex_tree" and u: "tree_at ex_tree [''a''] \<noteq> None"
    by code_simp+
  then obtain u where "tree_at ex_tree [''a''] = Some u"
    by auto
  from mounted_subdirectory_overruns [OF ex_can_generate tree this _ good_ex_fresh, of ex_clock ex_memory 6 Map.empty
      "''gen''" 7 ex_conf True 0]
  show ?thesis
    unfolding ex_lib_def by (auto simp del: resolve.simps simp: ex_clock_def ex_memory_def)
qed

text \<open>C5: on the mount of a generated catalogue in which sibling directories keep their order with a slash
  appended, a call of \<open>catalog_readdir\<close> for a catalogued directory lists \<open>.\<close>, \<open>..\<close> and the entries that
  \<open>scandir\<close> returned for it when the catalogue was generated, in the same order and with their attributes,
  provided that the directory is the root or the buffer of the path has a spare byte. libfuse itself never
  leaves this byte (C4); the module \<open>subdir\<close> does (C6).\<close>

theorem mounted_readdir_is_scandir:
  assumes "can_generate n w q0 d t fname" "siblings_ordered t" "(r, t') \<in> set (tree_dirs [] t)"
    and "scandir w (d @ r) filter_ent = Some es" "r = [] \<or> length (request_path r) + 2 \<le> cap"
  shows "\<exists>files' content. gen_main n w q0 files [prog, d, fname] = Some (Inr (0, files')) \<and>
           files' fname = Some content \<and>
           catalog_readdir (mount_catalog fname content) umid filler buf (request_path r) cap =
             Inr (0, fill_all filler (fst (filler (fst (filler buf ''.'' None)) ''..'' None))
                       (map (\<lambda>e. (d_name e, os_lstat w (d @ r @ ''/'' @ d_name e))) es))"
proof -
  have g: "generated w d t fname"
    using assms(1) by (simp add: can_generate_def)
  obtain files' content where run: "gen_main n w q0 files [prog, d, fname] = Some (Inr (0, files'))"
    "files' fname = Some content" "mount_catalog fname content = mounted fname (walk t)"
    using gen_main_runs [OF assms(1), of files prog] by blast
  with generated_readdir [OF g assms(2-5), of umid filler buf] show ?thesis
    by (intro exI [of _ files'] exI [of _ content]) simp
qed

theorem mounted_readdir_is_scandir_witness:
  "\<exists>files' content. gen_main 2 ex_os empty_queue Map.empty [''gen'', ''/d'', ''/c''] = Some (Inr (0, files')) \<and>
     files' ''/c'' = Some content \<and>
     catalog_readdir (mount_catalog ''/c'' content) 0 record_name [] ''/'' 2 = Inr (0, [''.'', ''..'', ''a'', ''b''])"
proof -
  have tree: "siblings_ordered ex_tree" "([], ex_tree) \<in> set (tree_dirs [] ex_tree)"
    by code_simp+
  have dir: "scandir ex_os (''/d'' @ []) filter_ent = Some [\<lparr>d_name = ''a'', d_type = 4\<rparr>, \<lparr>d_name = ''b'', d_type = 8\<rparr>]"
    by code_simp
  have "([] :: string) = [] \<or> length (request_path []) + 2 \<le> 2"
    by simp
  from mounted_readdir_is_scandir [OF ex_can_generate tree dir this, of Map.empty "''gen''" 0 record_name "[]"]
  show ?thesis
    by (simp add: request_path_def record_name_def)
qed

text \<open>C6: the module \<open>subdir\<close> with the base \<open>/\<close> in between makes listing safe: its copy of the path has
  room for the slash, so that, on the mount of a generated catalogue in which sibling directories keep their
  order with a slash appended, and with memory for the copy, \<open>readdir\<close> of every catalogued directory lists the
  entries that \<open>scandir\<close> returned.\<close>

theorem subdir_module_lists_directories:
  assumes "can_generate n w q0 d t fname" "siblings_ordered t" "(r, t') \<in> set (tree_dirs [] t)"
    and "scandir w (d @ r) filter_ent = Some es" "\<not> oom m (ticks m)"
  shows "\<exists>files' content. gen_main n w q0 files [prog, d, fname] = Some (Inr (0, files')) \<and> files' fname = Some content \<and>
           fuse_fs_readdir (subdir_dir_oper (subdir_root rellinks) (catalog_dir_oper umid)) (request_path r)
             (length (request_path r) + 1) buf filler off fi (m, mount_catalog fname content) =
           (let g = (\<lambda>b name st. filler b name (with_ino st) 0) in
            Inr ((0, fill_all g (fst (g (fst (g buf ''.'' None)) ''..'' None)) (os_items w (d @ r) es)),
                 m\<lparr>ticks := Suc (ticks m)\<rparr>, mount_catalog fname content))"
proof -
  have g: "generated w d t fname"
    using assms(1) by (simp add: can_generate_def)
  obtain files' content where run: "gen_main n w q0 files [prog, d, fname] = Some (Inr (0, files'))"
    "files' fname = Some content" "mount_catalog fname content = mounted fname (walk t)"
    using gen_main_runs [OF assms(1), of files prog] by blast
  with subdir_catalog_readdir [OF g assms(2-5) refl, of rellinks umid "length (request_path r) + 1" buf filler off fi] show ?thesis
    unfolding Let_def by (intro exI [of _ files'] exI [of _ content]) simp
qed

theorem subdir_module_lists_directories_witness:
  "\<exists>files' content. gen_main 2 ex_os empty_queue Map.empty [''gen'', ''/d'', ''/c''] = Some (Inr (0, files')) \<and>
     files' ''/c'' = Some content \<and>
     fuse_fs_readdir (subdir_dir_oper (subdir_root 0) (catalog_dir_oper 0)) ''/a'' 3 [] (\<lambda>b name st off. (b @ [name], 0)) 0 no_file_info
       (good_mem, mount_catalog ''/c'' content) =
     Inr ((0, [''.'', ''..'', ''l'']), good_mem\<lparr>ticks := 1\<rparr>, mount_catalog ''/c'' content)"
proof -
  have tree: "siblings_ordered ex_tree" "''/a'' \<in> set (map fst (tree_dirs [] ex_tree))"
    by code_simp+
  then obtain t' where t': "(''/a'', t') \<in> set (tree_dirs [] ex_tree)"
    by auto
  have dir: "scandir ex_os (''/d'' @ ''/a'') filter_ent = Some [\<lparr>d_name = ''l'', d_type = 10\<rparr>]"
    by code_simp
  have mem: "\<not> oom good_mem (ticks good_mem)" "Suc (ticks good_mem) = 1"
    by (simp_all add: good_mem_def)
  from subdir_module_lists_directories [OF ex_can_generate tree(1) t' dir mem(1), of Map.empty "''gen''" 0 0 "[]" "\<lambda>b name st off. (b @ [name], 0)" 0 no_file_info]
  show ?thesis
    by (simp add: request_path_def os_items_def mem(2) numeral_3_eq_3)
qed

text \<open>C7: on the mount of a generated catalogue in which sibling directories keep their order with a slash
  appended, \<open>readlink\<close> of a catalogued link, with a buffer longer than the link, returns the destination that
  the link had when the catalogue was generated.\<close>

theorem mounted_readlink_is_readlink:
  assumes "can_generate n w q0 d t fname" "siblings_ordered t" "listed t p"
    and "os_lstat w (d @ p) = Some st" "file_type (st_mode st) = DT_LNK"
    and "os_readlink w (d @ p) = Some dest" "length dest + 1 < sz"
  shows "\<exists>files' content bytes. gen_main n w q0 files [prog, d, fname] = Some (Inr (0, files')) \<and>
           files' fname = Some content \<and>
           catalog_readlink (mount_catalog fname content) umid p sz = Inr (0, Some bytes) \<and>
           length bytes = sz - 1 \<and> cstr bytes = dest"
proof -
  have g: "generated w d t fname"
    using assms(1) by (simp add: can_generate_def)
  obtain files' content where run: "gen_main n w q0 files [prog, d, fname] = Some (Inr (0, files'))"
    "files' fname = Some content" "mount_catalog fname content = mounted fname (walk t)"
    using gen_main_runs [OF assms(1), of files prog] by blast
  moreover obtain bytes where "catalog_readlink (mounted fname (walk t)) umid p sz = Inr (0, Some bytes)"
    "length bytes = sz - 1" "cstr bytes = dest"
    using generated_readlink [OF g assms(2-7), of umid] by blast
  ultimately show ?thesis
    by (intro exI [of _ files'] exI [of _ content] exI [of _ bytes]) simp
qed

theorem mounted_readlink_is_readlink_witness:
  "\<exists>files' content bytes. gen_main 2 ex_os empty_queue Map.empty [''gen'', ''/d'', ''/c''] = Some (Inr (0, files')) \<and>
     files' ''/c'' = Some content \<and>
     catalog_readlink (mount_catalog ''/c'' content) 0 ''/a/l'' 8 = Inr (0, Some bytes) \<and>
     length bytes = 7 \<and> cstr bytes = ''../b''"
proof -
  have "siblings_ordered ex_tree" "listed ex_tree ''/a/l''"
    "os_lstat ex_os (''/d'' @ ''/a/l'') = Some (ex_stat 0xA1FF)" "file_type (st_mode (ex_stat 0xA1FF)) = DT_LNK"
    "os_readlink ex_os (''/d'' @ ''/a/l'') = Some ''../b''"
    by code_simp+
  from mounted_readlink_is_readlink [OF ex_can_generate this, of 8 Map.empty "''gen''" 0] show ?thesis
    by simp
qed

text \<open>C8: a run of \<open>generate_catalog\<close> on a tree that it can print (\<open>can_generate\<close>: no name or link with the
  bytes 1, newline or NUL, none of a link with the byte 2, known file types, paths that fit the buffers, less
  than 2 GiB, no failing system call) leaves a catalogue that is well formed, that \<open>main\<close> of \<open>catalogfs\<close>
  accepts when the environment holds its name, line length and number of lines, and that is in the order that
  the file system searches exactly when the names of sibling directories stay in order with a slash appended.
  Other files are left alone and the temporary file is gone.\<close>

theorem generated_catalog_sorted_iff:
  assumes "can_generate n w q0 d t fname"
  shows "\<exists>files' content. gen_main n w q0 files [prog, d, fname] = Some (Inr (0, files')) \<and>
           files' fname = Some content \<and> files' (fname @ ''.temp'') = None \<and>
           (\<forall>f. f \<noteq> fname \<and> f \<noteq> fname @ ''.temp'' \<longrightarrow> files' f = files f) \<and>
           catalog_wf (mount_catalog fname content) \<and>
           main (mount_env fname content) [fname \<mapsto> Reg content] = Inr (mount_catalog fname content) \<and>
           (catalog_sorted (mount_catalog fname content) \<longleftrightarrow> siblings_ordered t)"
proof -
  have g: "generated w d t fname"
    using assms by (simp add: can_generate_def)
  obtain files' content where "gen_main n w q0 files [prog, d, fname] = Some (Inr (0, files'))"
    "files' fname = Some content" "files' (fname @ ''.temp'') = None"
    "\<forall>f. f \<noteq> fname \<and> f \<noteq> fname @ ''.temp'' \<longrightarrow> files' f = files f"
    "mount_catalog fname content = mounted fname (walk t)"
    using gen_main_runs [OF assms, of files prog] by blast
  with generated_wf [OF g] generated_sorted [OF g] main_mounts [of fname content] show ?thesis
    by (intro exI [of _ files'] exI [of _ content]) simp
qed

theorem generated_catalog_sorted_iff_witness:
  "\<exists>files' content. gen_main 3 ex_os2 empty_queue Map.empty [''gen'', ''/d'', ''/c''] = Some (Inr (0, files')) \<and>
     files' ''/c'' = Some content \<and>
     catalog_wf (mount_catalog ''/c'' content) \<and> \<not> catalog_sorted (mount_catalog ''/c'' content)"
proof -
  have "\<not> siblings_ordered ex_tree2"
    by code_simp
  with generated_catalog_sorted_iff [OF ex_can_generate2, of Map.empty "''gen''"] show ?thesis
    by metis
qed

text \<open>C26: when the names of some sibling directories change their order with a slash appended, as those of
  \<open>a\<close> and \<open>a.d\<close> do, the mount of the generated catalogue loses files: there is a path that \<open>lstat\<close> knew
  and that the catalogue has a line for, and \<open>getattr\<close> of it answers \<open>ENOENT\<close>. The generator's run is any
  that \<open>can_generate\<close> admits.\<close>

theorem unordered_siblings_lose_files:
  assumes "can_generate n w q0 d t fname" "\<not> siblings_ordered t"
  shows "\<exists>files' content p. gen_main n w q0 files [prog, d, fname] = Some (Inr (0, files')) \<and>
           files' fname = Some content \<and> listed t p \<and> os_lstat w (d @ p) \<noteq> None \<and>
           catalog_getattr (mount_catalog fname content) umid p = Inr (- ENOENT, stat_zero)"
proof -
  have g: "generated w d t fname"
    using assms(1) by (simp add: can_generate_def)
  obtain files' content where run: "gen_main n w q0 files [prog, d, fname] = Some (Inr (0, files'))"
    "files' fname = Some content" "mount_catalog fname content = mounted fname (walk t)"
    using gen_main_runs [OF assms(1), of files prog] by blast
  obtain p where p: "listed t p" "catalog_getattr (mounted fname (walk t)) umid p = Inr (- ENOENT, stat_zero)"
    using generated_loses [OF g assms(2)] by blast
  then obtain st dest where "(st, p, dest) \<in> set (walk t)"
    by (auto simp: listed_def set_bfs_items)
  then have "os_lstat w (d @ p) \<noteq> None"
    using generated_entry(1) [OF g] by simp
  with run p show ?thesis
    by (intro exI [of _ files'] exI [of _ content] exI [of _ p]) simp
qed

theorem unordered_siblings_lose_files_witness:
  "\<exists>files' content p. gen_main 3 ex_os2 empty_queue Map.empty [''gen'', ''/d'', ''/c''] = Some (Inr (0, files')) \<and>
     files' ''/c'' = Some content \<and> listed ex_tree2 p \<and> os_lstat ex_os2 (''/d'' @ p) \<noteq> None \<and>
     catalog_getattr (mount_catalog ''/c'' content) 0 p = Inr (- ENOENT, stat_zero)"
proof -
  have "\<not> siblings_ordered ex_tree2"
    by code_simp
  then show ?thesis
    by (rule unordered_siblings_lose_files [OF ex_can_generate2])
qed

section \<open>An answer of the mounted catalogue\<close>

lemma ex_statfs:
  "\<exists>st l'. fuse_path_ops 4 False (Stat_Fs 0) (ex_lib ex_mount) = Some (Inr (Reply_Statfs st, l'))"
proof -
  have "op_statfs (catalog_oper True 0) = Some (\<lambda>path m. Inr (catalog_statfs path, m))" "oom (fu_mem (lb_f (ex_lib ex_mount))) = (\<lambda>_. False)"
    "lb_op (ex_lib ex_mount) = catalog_oper True 0"
    by (simp_all add: catalog_oper_def ex_lib_def fuse_start_def fuse_new_nodes_def ex_memory_def)
  then show ?thesis
    by (simp add: fuse_lib_statfs_def bind_lib_def alloc_lib_def alloc_def on_nodes_def on_fs_def ret_lib_def fuse_fs_statfs_def
        call_or_def catalog_statfs_def Let_def)
qed

theorem answer_arrives_witness:
  "\<exists>st l' e. fuse_all_ops (catalog_dir_oper 0) (new_dirhandle 1) 4 False (meant (K_Statfs 0)) (ex_lib ex_mount) = Some (Inr (Reply_Statfs st, l')) \<and>
     ll_sent (send_reply_iov ex_init_req 0 (convert_statfs st) ex_start) = ll_sent ex_start @ [(rq_unique ex_init_req, e, convert_statfs st)] \<and>
     out_header_ok (out_message (rq_unique ex_init_req) e (convert_statfs st)) \<and>
     fst (copy_out_args (kernel_request (K_Statfs 0)) e (length (out_message (rq_unique ex_init_req) e (convert_statfs st)))) = 0"
proof -
  obtain st l' where r: "fuse_all_ops (catalog_dir_oper 0) (new_dirhandle 1) 4 False (meant (K_Statfs 0)) (ex_lib ex_mount) = Some (Inr (Reply_Statfs st, l'))"
    using ex_statfs by auto
  have "reply_of 8 (Reply_Statfs st) = Inr (Some (0, convert_statfs st))"
    by (simp add: fuse_reply_statfs_def)
  moreover have "0 < rq_unique ex_init_req" "rq_unique ex_init_req < 2 ^ 64" "length (convert_statfs st) < 2 ^ 31"
    by (simp_all add: ex_init_req_def convert_statfs_def length_concat sum_list_replicate)
  ultimately show ?thesis
    using answer_arrives [OF r, of 0 "convert_statfs st" ex_init_req ex_start] r by auto
qed

end
